(* ===== verification/Prelude.thy ===== *)
theory Prelude
  imports Complex_Main "HOL-Library.Word" "HOL-Library.AList" "HOL-Library.List_Lexorder"
    "HOL-Library.Multiset"
begin

text \<open>
  The shared layer of the development: ECMAScript strings as lists of UTF-16 code units, the
  comparison of such strings, \<open>Array.prototype.sort\<close> with a comparator, insertion-ordered
  \<open>Map\<close> objects, numbers as the code checks them (\<open>Number.isSafeInteger\<close>), thrown errors as values,
  and the lemmas on them that the component theories share.
\<close>

named_theorems record_guards \<open>definitions of the guards a record's operations check first\<close>

section \<open>Errors as values\<close>

text \<open>
  A thrown \<open>DiagnosticError\<close> is represented by the code of its diagnostic; message texts, details
  and observation times are not part of the model. \<open>RangeError\<close>, \<open>TypeError\<close> and \<open>Error\<close> are the
  exceptions the sources throw directly.
\<close>

datatype js_error =
    Diagnostic string
  | RangeError
  | TypeError
  | GenericError

type_synonym 'a result = "js_error + 'a"

definition and_then :: "'a result \<Rightarrow> ('a \<Rightarrow> 'b result) \<Rightarrow> 'b result" where
  "and_then r f = (case r of Inl e \<Rightarrow> Inl e | Inr x \<Rightarrow> f x)"

lemma and_then_simps [simp]:
  "and_then (Inl e) f = Inl e"
  "and_then (Inr x) f = f x"
  by (simp_all add: and_then_def)

lemma and_then_eq_Inr [simp]: "and_then r f = Inr y \<longleftrightarrow> (\<exists>x. r = Inr x \<and> f x = Inr y)"
  by (cases r) auto

text \<open>The first failing element of a list decides, as a loop that throws does.\<close>

fun map_result :: "('a \<Rightarrow> 'b result) \<Rightarrow> 'a list \<Rightarrow> 'b list result" where
  "map_result f [] = Inr []"
| "map_result f (x # xs) =
     and_then (f x) (\<lambda>y. and_then (map_result f xs) (\<lambda>ys. Inr (y # ys)))"

lemma map_result_eq_Inr:
  "map_result f xs = Inr ys \<longleftrightarrow> list_all2 (\<lambda>x y. f x = Inr y) xs ys"
proof (induction xs arbitrary: ys)
  case Nil
  then show ?case by auto
next
  case (Cons x xs)
  then show ?case by (cases ys) auto
qed

section \<open>Strings\<close>

type_synonym code_unit = "16 word"
type_synonym jstring = "code_unit list"

text \<open>\<open>js ''abc''\<close> is the literal \<open>"abc"\<close> of the sources (all of them are ASCII).\<close>

definition js :: "string \<Rightarrow> jstring" where
  "js s = map of_char s"

lemma js_simps [simp]:
  "js [] = []"
  "js (c # s) = of_char c # js s"
  by (simp_all add: js_def)

lemma of_char_word_inj: "(of_char c :: code_unit) = of_char d \<longleftrightarrow> c = d"
proof
  assume eq: "(of_char c :: code_unit) = of_char d"
  have small: "unat (of_char x :: code_unit) = of_char x" for x
  proof -
    have "(of_char x :: code_unit) = of_nat (of_char x)" by (rule of_nat_of_char [symmetric])
    moreover have "(of_char x :: nat) < 2 ^ LENGTH(16)" by (rule less_trans [OF nat_of_char_less_256]) simp
    ultimately show ?thesis by (simp only: unat_of_nat mod_less)
  qed
  from eq have "unat (of_char c :: code_unit) = unat (of_char d :: code_unit)" by simp
  then show "c = d" by (simp add: small)
qed simp

lemma js_inj: "js s = js t \<longleftrightarrow> s = t"
  unfolding js_def by (rule inj_map_eq_map) (simp add: inj_def of_char_word_inj)

definition compareText :: "'a::linorder \<Rightarrow> 'a \<Rightarrow> int" where
  "compareText left right = (if left < right then -1 else if left > right then 1 else 0)"

text \<open>\<open>a || b\<close> on numbers, as comparators chain: \<open>b\<close> where \<open>a\<close> is 0.\<close>

definition or_else :: "int \<Rightarrow> int \<Rightarrow> int" where
  "or_else a b = (if a \<noteq> 0 then a else b)"

section \<open>Comparators and the stable sort\<close>

fun insert_by :: "('a \<Rightarrow> 'a \<Rightarrow> int) \<Rightarrow> 'a \<Rightarrow> 'a list \<Rightarrow> 'a list" where
  "insert_by cmp x [] = [x]"
| "insert_by cmp x (y # ys) = (if cmp x y \<le> 0 then x # y # ys else y # insert_by cmp x ys)"

definition sort_by :: "('a \<Rightarrow> 'a \<Rightarrow> int) \<Rightarrow> 'a list \<Rightarrow> 'a list" where
  "sort_by cmp xs = foldr (insert_by cmp) xs []"

lemma sort_by_simps [simp]:
  "sort_by cmp [] = []"
  "sort_by cmp (x # xs) = insert_by cmp x (sort_by cmp xs)"
  by (simp_all add: sort_by_def)

lemma mset_insert_by [simp]: "mset (insert_by cmp x xs) = add_mset x (mset xs)"
  by (induction xs) auto

lemma mset_sort_by [simp]: "mset (sort_by cmp xs) = mset xs"
  by (induction xs) auto

lemma set_sort_by [simp]: "set (sort_by cmp xs) = set xs"
  using mset_sort_by [of cmp xs] by (metis set_mset_mset)

lemma set_insert_by [simp]: "set (insert_by cmp x xs) = insert x (set xs)"
  using mset_insert_by [of cmp x xs] by (metis set_mset_add_mset_insert set_mset_mset)

lemma length_sort_by [simp]: "length (sort_by cmp xs) = length xs"
  using mset_sort_by [of cmp xs] by (metis size_mset)

lemma distinct_sort_by [simp]: "distinct (sort_by cmp xs) = distinct xs"
  using mset_sort_by [of cmp xs] by (metis mset_eq_imp_distinct_iff)

lemma sort_by_eq_Nil [simp]: "sort_by cmp xs = [] \<longleftrightarrow> xs = []"
  using length_sort_by [of cmp xs] by (metis length_0_conv)

locale total_comparator =
  fixes cmp :: "'a \<Rightarrow> 'a \<Rightarrow> int"
  assumes cmp_swap: "cmp x y \<le> 0 \<or> cmp y x \<le> 0"
    and cmp_trans: "cmp x y \<le> 0 \<Longrightarrow> cmp y z \<le> 0 \<Longrightarrow> cmp x z \<le> 0"
begin

lemma sorted_insert_by:
  "sorted_wrt (\<lambda>x y. cmp x y \<le> 0) ys \<Longrightarrow> sorted_wrt (\<lambda>x y. cmp x y \<le> 0) (insert_by cmp x ys)"
proof (induction ys)
  case Nil
  then show ?case by simp
next
  case (Cons y ys)
  show ?case
  proof (cases "cmp x y \<le> 0")
    case True
    with Cons.prems show ?thesis by (auto intro: cmp_trans)
  next
    case False
    then have "cmp y x \<le> 0" using cmp_swap by blast
    with False Cons show ?thesis by auto
  qed
qed

lemma sorted_sort_by: "sorted_wrt (\<lambda>x y. cmp x y \<le> 0) (sort_by cmp xs)"
  by (induction xs) (simp_all add: sorted_insert_by)

end

text \<open>Comparing through a key keeps a comparator total.\<close>

lemma total_comparator_key:
  "total_comparator cmp \<Longrightarrow> total_comparator (\<lambda>x y. cmp (f x) (f y))"
  by (simp add: total_comparator_def)

interpretation text_cmp: total_comparator "compareText :: 'a::linorder \<Rightarrow> 'a \<Rightarrow> int"
  by unfold_locales (auto simp: compareText_def split: if_splits)

lemma compareText_signs [simp]:
  "compareText x y \<le> 0 \<longleftrightarrow> x \<le> y"
  "compareText x y < 0 \<longleftrightarrow> x < y"
  "compareText x y = 0 \<longleftrightarrow> x = y"
  "0 < compareText x y \<longleftrightarrow> y < x"
  by (auto simp: compareText_def)

section \<open>Numbers\<close>

text \<open>
  A TypeScript \<open>number\<close> that a check has not yet narrowed: a finite value, an infinity or NaN.
\<close>

datatype number = Num rat | Infinite bool | NaN

definition MAX_SAFE_INTEGER :: int where
  "MAX_SAFE_INTEGER = 9007199254740991"

definition safe_integer :: "int \<Rightarrow> bool" where
  "safe_integer n \<longleftrightarrow> - MAX_SAFE_INTEGER \<le> n \<and> n \<le> MAX_SAFE_INTEGER"

fun integer_value :: "number \<Rightarrow> int option" where
  "integer_value (Num q) = (if of_int \<lfloor>q\<rfloor> = q then Some \<lfloor>q\<rfloor> else None)"
| "integer_value _ = None"

definition isSafeInteger :: "number \<Rightarrow> bool" where
  "isSafeInteger x = (case integer_value x of Some n \<Rightarrow> safe_integer n | None \<Rightarrow> False)"

section \<open>Insertion-ordered maps\<close>

text \<open>
  A \<open>Map\<close> object is the list of its entries in insertion order, keys distinct. \<open>map.get\<close> is
  \<open>map_of\<close>, \<open>map.set\<close> is \<open>AList.update\<close> (it keeps the position of a present key and appends a
  new one), \<open>map.delete\<close> is \<open>AList.delete\<close> and \<open>map.size\<close> is \<open>length\<close>.
\<close>

type_synonym ('k, 'v) jsmap = "('k \<times> 'v) list"

definition map_ok :: "('k, 'v) jsmap \<Rightarrow> bool" where
  "map_ok m \<longleftrightarrow> distinct (map fst m)"

lemma map_ok_Nil [simp]: "map_ok []"
  by (simp add: map_ok_def)

lemma map_ok_update [simp]: "map_ok m \<Longrightarrow> map_ok (AList.update k v m)"
  by (simp add: map_ok_def distinct_update)

lemma map_ok_delete [simp]: "map_ok m \<Longrightarrow> map_ok (AList.delete k m)"
  by (simp add: map_ok_def distinct_delete)

lemmas map_lookups = update_conv' delete_conv'

lemma length_update:
  "length (AList.update k v m) = (if k \<in> fst ` set m then length m else Suc (length m))"
  by (induction m) auto

lemma map_of_in_range: "map_of m k = Some v \<Longrightarrow> v \<in> snd ` set m"
  by (force dest: map_of_SomeD)

lemma snd_set_update: "snd ` set (AList.update k v m) \<subseteq> insert v (snd ` set m)"
  by (induction m) auto

lemma snd_set_delete: "snd ` set (AList.delete k m) \<subseteq> snd ` set m"
  by (auto simp: AList.delete_eq)

end
