(* ===== verification/Decimal.thy ===== *)
theory Decimal
  imports Prelude
begin

text \<open>
  Decimal strings: the digit classes of the sources' regular expressions, \<open>BigInt(text)\<close> and
  \<open>value.toString()\<close> on non-negative integers, zero-padded fields, and the round trips between them.
\<close>

section \<open>Character classes\<close>

definition is_digit :: "code_unit \<Rightarrow> bool" where
  "is_digit c \<longleftrightarrow> 48 \<le> c \<and> c \<le> 57"

definition is_upper :: "code_unit \<Rightarrow> bool" where
  "is_upper c \<longleftrightarrow> 65 \<le> c \<and> c \<le> 90"

definition is_lower :: "code_unit \<Rightarrow> bool" where
  "is_lower c \<longleftrightarrow> 97 \<le> c \<and> c \<le> 122"

definition is_alnum :: "code_unit \<Rightarrow> bool" where
  "is_alnum c \<longleftrightarrow> is_upper c \<or> is_lower c \<or> is_digit c"

section \<open>Values of digit strings\<close>

definition digit_value :: "code_unit \<Rightarrow> nat" where
  "digit_value c = unat c - 48"

definition digit_char :: "nat \<Rightarrow> code_unit" where
  "digit_char d = of_nat (48 + d)"

definition decimal_value :: "jstring \<Rightarrow> nat" where
  "decimal_value s = foldl (\<lambda>n c. 10 * n + digit_value c) 0 s"

fun decimal_string :: "nat \<Rightarrow> jstring" where
  "decimal_string n = (if n < 10 then [digit_char n] else decimal_string (n div 10) @ [digit_char (n mod 10)])"

declare decimal_string.simps [simp del]

text \<open>The pattern \<open>^(?:0|[1-9]\d*)$\<close>.\<close>

definition is_decimal :: "jstring \<Rightarrow> bool" where
  "is_decimal s \<longleftrightarrow> s \<noteq> [] \<and> list_all is_digit s \<and> (hd s = 48 \<longrightarrow> s = [48])"

fun digits :: "nat \<Rightarrow> nat \<Rightarrow> jstring" where
  "digits 0 v = []"
| "digits (Suc w) v = digits w (v div 10) @ [digit_char (v mod 10)]"

section \<open>Round trips\<close>

lemma unat_digit_char: "d < 10 \<Longrightarrow> unat (digit_char d) = 48 + d"
  unfolding digit_char_def by (subst unat_of_nat) simp

lemma is_digit_iff_unat: "is_digit c \<longleftrightarrow> 48 \<le> unat c \<and> unat c \<le> 57"
  by (simp add: is_digit_def word_le_nat_alt)

lemma is_digit_digit_char [simp]: "d < 10 \<Longrightarrow> is_digit (digit_char d)"
  by (simp add: is_digit_iff_unat unat_digit_char)

lemma digit_value_digit_char [simp]: "d < 10 \<Longrightarrow> digit_value (digit_char d) = d"
  by (simp add: digit_value_def unat_digit_char)

lemma digit_char_digit_value [simp]: "is_digit c \<Longrightarrow> digit_char (digit_value c) = c"
  by (simp add: is_digit_iff_unat digit_value_def digit_char_def)

lemma digit_value_lt [simp]: "is_digit c \<Longrightarrow> digit_value c < 10"
  unfolding is_digit_iff_unat digit_value_def by linarith

lemma digit_value_zero: "is_digit c \<Longrightarrow> digit_value c = 0 \<longleftrightarrow> c = 48"
proof
  assume d: "is_digit c" and z: "digit_value c = 0"
  then have "unat c = unat (48 :: 16 word)" by (simp add: is_digit_iff_unat digit_value_def)
  then show "c = 48" by (simp add: word_unat_eq_iff)
qed (simp add: digit_value_def)

lemma decimal_value_Nil [simp]: "decimal_value [] = 0"
  by (simp add: decimal_value_def)

lemma decimal_value_snoc [simp]: "decimal_value (s @ [c]) = 10 * decimal_value s + digit_value c"
  by (simp add: decimal_value_def)

lemma decimal_value_single [simp]: "decimal_value [c] = digit_value c"
  by (simp add: decimal_value_def)

lemma decimal_value_append:
  "decimal_value (s @ t) = decimal_value s * 10 ^ length t + decimal_value t"
proof (induction t rule: rev_induct)
  case Nil
  then show ?case by simp
next
  case (snoc c t)
  then show ?case by (simp add: append_assoc [symmetric] algebra_simps del: append_assoc)
qed

lemma decimal_value_bound: "list_all is_digit s \<Longrightarrow> decimal_value s < 10 ^ length s"
proof (induction s rule: rev_induct)
  case Nil
  then show ?case by simp
next
  case (snoc c s)
  then have "decimal_value s < 10 ^ length s" and "digit_value c < 10" by simp_all
  then show ?case by (simp add: less_Suc_eq_le)
qed

lemma decimal_value_string [simp]: "decimal_value (decimal_string n) = n"
proof (induction n rule: decimal_string.induct)
  case (1 n)
  then show ?case by (cases "n < 10") (simp_all add: decimal_string.simps [of n])
qed

lemma decimal_string_neq_Nil [simp]: "decimal_string n \<noteq> []"
  by (simp add: decimal_string.simps [of n])

lemma hd_decimal_string: "hd (decimal_string n) = 48 \<longleftrightarrow> n = 0"
proof (induction n rule: decimal_string.induct)
  case (1 n)
  show ?case
  proof (cases "n < 10")
    case True
    then have "digit_char n = 48 \<longleftrightarrow> n = 0"
      using digit_value_zero [of "digit_char n"] by simp
    with True show ?thesis by (simp add: decimal_string.simps [of n])
  next
    case False
    with "1.IH" show ?thesis by (simp add: decimal_string.simps [of n])
  qed
qed

lemma all_digits_decimal_string [simp]: "list_all is_digit (decimal_string n)"
proof (induction n rule: decimal_string.induct)
  case (1 n)
  then show ?case by (cases "n < 10") (simp_all add: decimal_string.simps [of n])
qed

lemma is_decimal_decimal_string [simp]: "is_decimal (decimal_string n)"
  by (auto simp: is_decimal_def hd_decimal_string digit_char_def decimal_string.simps [of 0])

lemma decimal_value_pos: "list_all is_digit s \<Longrightarrow> s \<noteq> [] \<Longrightarrow> hd s \<noteq> 48 \<Longrightarrow> 0 < decimal_value s"
proof (induction s rule: rev_induct)
  case Nil
  then show ?case by simp
next
  case (snoc c s)
  then show ?case using digit_value_zero [of c] by (cases "s = []") auto
qed

lemma decimal_string_value [simp]: "is_decimal s \<Longrightarrow> decimal_string (decimal_value s) = s"
proof (induction s rule: rev_induct)
  case Nil
  then show ?case by (simp add: is_decimal_def)
next
  case (snoc c s)
  show ?case
  proof (cases "s = []")
    case True
    with snoc.prems show ?thesis by (simp add: is_decimal_def decimal_string.simps)
  next
    case False
    with snoc.prems have d: "list_all is_digit s" "is_digit c" and h: "hd s \<noteq> 48"
      by (auto simp: is_decimal_def)
    then have pos: "0 < decimal_value s" using False by (simp add: decimal_value_pos)
    from d h False have "decimal_string (decimal_value s) = s"
      by (intro snoc.IH) (auto simp: is_decimal_def)
    with pos d show ?thesis
      by (simp add: decimal_string.simps [of "10 * decimal_value s + digit_value c"])
  qed
qed

lemma decimal_string_inj: "decimal_string m = decimal_string n \<longleftrightarrow> m = n"
  by (metis decimal_value_string)

section \<open>Fixed-width fields\<close>

lemma length_digits [simp]: "length (digits w v) = w"
  by (induction w arbitrary: v) auto

lemma all_digits_digits [simp]: "list_all is_digit (digits w v)"
  by (induction w arbitrary: v) auto

lemma decimal_value_digits [simp]: "v < 10 ^ w \<Longrightarrow> decimal_value (digits w v) = v"
  by (induction w arbitrary: v) (auto simp: less_mult_imp_div_less)

section \<open>Order of equally long digit strings\<close>

lemma digit_value_less_iff: "is_digit c \<Longrightarrow> is_digit d \<Longrightarrow> digit_value c < digit_value d \<longleftrightarrow> c < d"
  by (auto simp: is_digit_iff_unat digit_value_def word_less_nat_alt)

lemma digit_value_inj: "is_digit c \<Longrightarrow> is_digit d \<Longrightarrow> digit_value c = digit_value d \<longleftrightarrow> c = d"
  by (metis digit_char_digit_value)

lemma decimal_value_Cons: "decimal_value (c # s) = digit_value c * 10 ^ length s + decimal_value s"
  using decimal_value_append [of "[c]" s] by simp

lemma less_digit_strings:
  "length s = length t \<Longrightarrow> list_all is_digit s \<Longrightarrow> list_all is_digit t \<Longrightarrow>
   s < t \<longleftrightarrow> decimal_value s < decimal_value t"
proof (induction s t rule: list_induct2)
  case Nil
  then show ?case by simp
next
  case (Cons c s d t)
  from Cons.prems have bounds: "decimal_value s < 10 ^ length s" "decimal_value t < 10 ^ length s"
    using decimal_value_bound [of s] decimal_value_bound [of t] Cons.hyps by simp_all
  show ?case
  proof (cases "digit_value c" "digit_value d" rule: linorder_cases)
    case less
    then have "Suc (digit_value c) * 10 ^ length s \<le> digit_value d * 10 ^ length s"
      by (intro mult_right_mono) simp_all
    with bounds have "decimal_value (c # s) < decimal_value (d # t)"
      using Cons.hyps by (simp add: decimal_value_Cons)
    with less Cons.prems show ?thesis by (simp add: digit_value_less_iff)
  next
    case equal
    with Cons.prems have "c = d" by (simp add: digit_value_inj)
    with Cons show ?thesis by (simp add: decimal_value_Cons)
  next
    case greater
    then have "Suc (digit_value d) * 10 ^ length s \<le> digit_value c * 10 ^ length s"
      by (intro mult_right_mono) simp_all
    with bounds have "decimal_value (d # t) < decimal_value (c # s)"
      using Cons.hyps by (simp add: decimal_value_Cons)
    with greater Cons.prems show ?thesis by (auto simp: digit_value_less_iff)
  qed
qed

lemma decimal_value_lower: "is_decimal s \<Longrightarrow> 1 < length s \<Longrightarrow> 10 ^ (length s - 1) \<le> decimal_value s"
proof -
  assume d: "is_decimal s" and l: "1 < length s"
  then obtain c t where s: "s = c # t" and t: "t \<noteq> []" by (cases s) auto
  with d have "is_digit c" "c \<noteq> 48" by (auto simp: is_decimal_def)
  then have "1 \<le> digit_value c" using digit_value_zero [of c] by simp
  then have "1 * 10 ^ length t \<le> digit_value c * 10 ^ length t" by (intro mult_right_mono) simp_all
  then have "10 ^ length t \<le> digit_value c * 10 ^ length t + decimal_value t"
    by (simp only: mult_1 trans_le_add1)
  with s show ?thesis by (simp add: decimal_value_Cons)
qed

end
