(* ===== verification/Dates.thy ===== *)
theory Dates
  imports Decimal
begin

text \<open>
  \<open>Date\<close> values as the sources use them: a time value in milliseconds, \<open>toISOString\<close>, and
  \<open>Date.parse\<close> on the strings that \<open>toISOString\<close> produces. The calendar is that of the ECMAScript
  specification (\<open>DayFromYear\<close>, \<open>YearFromTime\<close>, \<open>MonthFromTime\<close>). The round trip
  \<open>parse_iso\<close> after \<open>toISOString\<close> is the identity is what lets the components compare instants.
\<close>

section \<open>The calendar\<close>

definition msPerDay :: int where
  "msPerDay = 86400000"

definition valid_time :: "int \<Rightarrow> bool" where
  "valid_time t \<longleftrightarrow> - 8640000000000000 \<le> t \<and> t \<le> 8640000000000000"

definition dayFromYear :: "int \<Rightarrow> int" where
  "dayFromYear y = 365 * (y - 1970) + (y - 1969) div 4 - (y - 1901) div 100 + (y - 1601) div 400"

definition yearFromDay :: "int \<Rightarrow> int" where
  "yearFromDay d =
     (let y = 1970 + (d * 400) div 146097
      in if d < dayFromYear y then y - 1 else if dayFromYear (y + 1) \<le> d then y + 1 else y)"

definition inLeapYear :: "int \<Rightarrow> bool" where
  "inLeapYear y \<longleftrightarrow> dayFromYear (y + 1) - dayFromYear y = 366"

text \<open>The first day (from 0) of each month within the year.\<close>

definition month_starts :: "bool \<Rightarrow> nat list" where
  "month_starts leap =
     (if leap then [0, 31, 60, 91, 121, 152, 182, 213, 244, 274, 305, 335]
      else [0, 31, 59, 90, 120, 151, 181, 212, 243, 273, 304, 334])"

definition month_of_day :: "bool \<Rightarrow> nat \<Rightarrow> nat" where
  "month_of_day leap d = length (filter (\<lambda>s. s \<le> d) (month_starts leap))"

definition day_of_month :: "bool \<Rightarrow> nat \<Rightarrow> nat" where
  "day_of_month leap d = d - month_starts leap ! (month_of_day leap d - 1) + 1"

section \<open>\<open>toISOString\<close> and its inverse\<close>

definition year_text :: "int \<Rightarrow> jstring" where
  "year_text y =
     (if 0 \<le> y \<and> y \<le> 9999 then digits 4 (nat y)
      else if y < 0 then 45 # digits 6 (nat (- y)) else 43 # digits 6 (nat y))"

text \<open>\<open>MM-DDTHH:mm:ss.sssZ\<close> with the separators 45, 84, 58, 46 and 90.\<close>

definition rest_text :: "nat \<Rightarrow> nat \<Rightarrow> nat \<Rightarrow> jstring" where
  "rest_text mon day ms =
     [45] @ digits 2 mon @ [45] @ digits 2 day @ [84] @ digits 2 (ms div 3600000) @ [58]
     @ digits 2 (ms div 60000 mod 60) @ [58] @ digits 2 (ms div 1000 mod 60) @ [46]
     @ digits 3 (ms mod 1000) @ [90]"

definition toISOString :: "int \<Rightarrow> jstring result" where
  "toISOString t =
     (if \<not> valid_time t then Inl RangeError
      else
        let d = t div msPerDay; ms = nat (t mod msPerDay); y = yearFromDay d; leap = inLeapYear y;
            dwy = nat (d - dayFromYear y)
        in Inr (year_text y @ rest_text (month_of_day leap dwy) (day_of_month leap dwy) ms))"

definition field :: "nat \<Rightarrow> nat \<Rightarrow> jstring \<Rightarrow> nat" where
  "field from width s = decimal_value (take width (drop from s))"

text \<open>The instant denoted by the fields of a 20-character tail, given the year.\<close>

definition parse_rest :: "int \<Rightarrow> jstring \<Rightarrow> int option" where
  "parse_rest y s =
     (if length s = 20 \<and> 1 \<le> field 1 2 s \<and> field 1 2 s \<le> 12 then
        Some ((dayFromYear y + int (month_starts (inLeapYear y) ! (field 1 2 s - 1))
               + int (field 4 2 s) - 1) * msPerDay
              + int (field 7 2 s * 3600000 + field 10 2 s * 60000 + field 13 2 s * 1000
                     + field 16 3 s))
      else None)"

definition parse_iso :: "jstring \<Rightarrow> int option" where
  "parse_iso s =
     (if s \<noteq> [] \<and> hd s = 45 then parse_rest (- int (field 1 6 s)) (drop 7 s)
      else if s \<noteq> [] \<and> hd s = 43 then parse_rest (int (field 1 6 s)) (drop 7 s)
      else parse_rest (int (field 0 4 s)) (drop 4 s))"

section \<open>The round trip\<close>

lemma div_bounds: "0 < k \<Longrightarrow> k * (x div k) \<le> (x :: int) \<and> x < k * (x div k) + k"
  by (smt (verit) minus_mod_eq_mult_div pos_mod_bound pos_mod_sign)

text \<open>\<open>dayFromYear\<close> stays within a few days of 365.2425 days per year.\<close>

lemma dayFromYear_linear:
  "146097 * y - 287812090 \<le> 400 * dayFromYear y" (is ?lower)
  "400 * dayFromYear y \<le> 146097 * y - 287810090" (is ?upper)
proof -
  define a b c where "a = (y - 1969) div 4" and "b = (y - 1901) div 100" and "c = (y - 1601) div 400"
  have "4 * a \<le> y - 1969" "y - 1969 < 4 * a + 4" "100 * b \<le> y - 1901" "y - 1901 < 100 * b + 100"
    "400 * c \<le> y - 1601" "y - 1601 < 400 * c + 400"
    using div_bounds [of 4 "y - 1969"] div_bounds [of 100 "y - 1901"] div_bounds [of 400 "y - 1601"]
    by (simp_all add: a_def b_def c_def)
  moreover have "dayFromYear y = 365 * y - 719050 + a - b + c"
    by (simp add: dayFromYear_def a_def b_def c_def)
  ultimately show ?lower and ?upper by linarith+
qed

lemma yearFromDay_bounds: "dayFromYear (yearFromDay d) \<le> d \<and> d < dayFromYear (yearFromDay d + 1)"
proof -
  define y where "y = 1970 + (d * 400) div 146097"
  have e: "146097 * y - 287811090 \<le> d * 400" "d * 400 < 146097 * y - 287811090 + 146097"
    using div_bounds [of 146097 "d * 400"] by (simp_all add: y_def)
  have lo: "dayFromYear (y - 1) \<le> d"
    using e dayFromYear_linear [of "y - 1"] unfolding right_diff_distrib by linarith
  have hi: "d < dayFromYear (y + 2)"
    using e dayFromYear_linear [of "y + 2"] unfolding distrib_left by linarith
  show ?thesis
    using lo hi by (auto simp: yearFromDay_def Let_def y_def [symmetric] add.assoc)
qed

lemma div_succ:
  assumes k: "0 < k" and m: "m = k - 1"
  shows "(x + 1) div k = x div k + (if x mod k = m then 1 else 0 :: int)"
proof -
  define q r where "q = x div k" and "r = x mod k"
  have x: "x = k * q + r" and r: "0 \<le> r" "r < k" using k by (simp_all add: q_def r_def)
  show ?thesis
  proof (cases "r = k - 1")
    case True
    then have "x + 1 = k * (q + 1)" using x by (simp add: algebra_simps)
    with True k m show ?thesis by (simp add: q_def r_def)
  next
    case False
    then have "x + 1 = k * q + (r + 1)" "0 \<le> r + 1" "r + 1 < k" using x r by simp_all
    then have "(x + 1) div k = q" by (metis div_pos_pos_trivial div_mult_self4 add.right_neutral add.commute k less_irrefl)
    with False m show ?thesis by (simp add: q_def r_def)
  qed
qed

lemma year_length: "dayFromYear (y + 1) - dayFromYear y = 365 \<or> dayFromYear (y + 1) - dayFromYear y = 366"
proof -
  define a b c where "a = (y - 1969) mod 4" and "b = (y - 1901) mod 100" and "c = (y - 1601) mod 400"
  have "(y - 1901) mod 100 mod 4 = (y - 1901) mod 4" "(y - 1601) mod 400 mod 100 = (y - 1601) mod 100"
    by (simp_all add: mod_mod_cancel)
  moreover have "(y - 1901) mod 4 = (y - 1969) mod 4" "(y - 1601) mod 100 = (y - 1901) mod 100"
    using mod_add_self2 [of "y - 1969" 4] by (simp_all add: mod_eq_dvd_iff)
  ultimately have ab: "b = 99 \<Longrightarrow> a = 3" and bc: "c = 399 \<Longrightarrow> b = 99"
    by (auto simp: a_def b_def c_def)
  define i j k :: int where "i = (if a = 3 then 1 else 0)" and "j = (if b = 99 then 1 else 0)"
    and "k = (if c = 399 then 1 else 0)"
  define A B C where "A = (y - 1969) div 4" and "B = (y - 1901) div 100" and "C = (y - 1601) div 400"
  have shift: "y + 1 - n = y - n + 1" for n by simp
  have "(y + 1 - 1969) div 4 = A + i" "(y + 1 - 1901) div 100 = B + j" "(y + 1 - 1601) div 400 = C + k"
    unfolding shift i_def j_def k_def a_def b_def c_def A_def B_def C_def
    by (rule div_succ; simp only: zero_less_numeral; simp)+
  then have "dayFromYear (y + 1) = 365 * (y + 1 - 1970) + (A + i) - (B + j) + (C + k)"
    by (simp only: dayFromYear_def)
  moreover have "dayFromYear y = 365 * (y - 1970) + A - B + C"
    by (simp only: dayFromYear_def A_def B_def C_def)
  ultimately have "dayFromYear (y + 1) - dayFromYear y = 365 + i - j + k" by simp
  with ab bc show ?thesis by (auto simp: i_def j_def k_def)
qed

lemma filter_sorted: "sorted xs \<Longrightarrow> filter (\<lambda>s. s \<le> d) xs = takeWhile (\<lambda>s. s \<le> (d :: nat)) xs"
proof (induction xs)
  case Nil
  then show ?case by simp
next
  case (Cons x xs)
  then show ?case by (cases xs) auto
qed

lemma month_starts_facts:
  "sorted (month_starts leap)" "length (month_starts leap) = 12" "month_starts leap ! 0 = 0"
  by (simp_all add: month_starts_def)

lemma month_lengths:
  assumes "n < 12"
  shows "(if n = 11 then 366 else month_starts leap ! Suc n) \<le> month_starts leap ! n + 32"
proof -
  have "[0..<12] = [0, 1, 2, 3, 4, 5, 6, 7, 8, 9, 10, 11 :: nat]" by code_simp
  moreover have "n \<in> set [0..<12]" using assms by simp
  ultimately have "n \<in> set [0, 1, 2, 3, 4, 5, 6, 7, 8, 9, 10, 11]" by simp
  then show "(if n = 11 then 366 else month_starts leap ! Suc n) \<le> month_starts leap ! n + 32"
    by (auto simp: month_starts_def)
qed

lemma month_of_day_facts:
  assumes d: "d < 366"
  shows "1 \<le> month_of_day leap d" "month_of_day leap d \<le> 12"
    "month_starts leap ! (month_of_day leap d - 1) \<le> d" "day_of_month leap d < 100"
proof -
  let ?xs = "month_starts leap" and ?n = "month_of_day leap d"
  have n: "?n = length (takeWhile (\<lambda>s. s \<le> d) ?xs)"
    by (simp add: month_of_day_def filter_sorted month_starts_facts)
  have hd: "\<not> 0 < length ?xs \<or> ?xs ! 0 \<le> d" by (simp add: month_starts_facts)
  show n1: "1 \<le> ?n"
    using month_starts_facts [of leap] unfolding n by (cases ?xs) simp_all
  show n12: "?n \<le> 12"
    using length_takeWhile_le [of "\<lambda>s. s \<le> d" ?xs] month_starts_facts(2) [of leap] by (simp add: n)
  have "?xs ! (?n - 1) = takeWhile (\<lambda>s. s \<le> d) ?xs ! (?n - 1)"
    using n1 by (simp add: takeWhile_nth n)
  also have "\<dots> \<in> set (takeWhile (\<lambda>s. s \<le> d) ?xs)" using n1 by (simp add: n)
  finally show le: "?xs ! (?n - 1) \<le> d" by (auto dest: set_takeWhileD)
  have "?n < 12 \<Longrightarrow> \<not> ?xs ! ?n \<le> d"
    using nth_length_takeWhile [of "\<lambda>s. s \<le> d" ?xs] by (simp add: n month_starts_facts)
  moreover have "Suc (?n - 1) = ?n" using n1 by simp
  ultimately have "d < (if ?n - 1 = 11 then 366 else ?xs ! Suc (?n - 1))" using n12 d by auto
  also have "\<dots> \<le> ?xs ! (?n - 1) + 32"
    using n1 n12 by (intro month_lengths) simp
  finally show "day_of_month leap d < 100" by (simp add: day_of_month_def)
qed

lemma nat_dwy: "nat (d - dayFromYear (yearFromDay d)) < 366"
  using yearFromDay_bounds [of d] year_length [of "yearFromDay d"] by auto

lemma year_range:
  assumes "valid_time t"
  shows "- 999999 \<le> yearFromDay (t div msPerDay) \<and> yearFromDay (t div msPerDay) \<le> 999999"
proof -
  define d y where "d = t div msPerDay" and "y = yearFromDay d"
  have "86400000 * d \<le> t" "t < 86400000 * d + 86400000"
    using div_bounds [of 86400000 t] by (simp_all add: d_def msPerDay_def)
  with assms have "- 100000001 \<le> d" "d \<le> 100000000" by (auto simp: valid_time_def)
  moreover have "dayFromYear y \<le> d" "d < dayFromYear (y + 1)"
    using yearFromDay_bounds [of d] by (simp_all add: y_def)
  ultimately show ?thesis
    using dayFromYear_linear [of y] dayFromYear_linear [of "y + 1"]
    by (simp add: y_def [symmetric] d_def [symmetric])
qed

lemma clock_fields:
  assumes "ms < 86400000"
  shows "ms div 3600000 * 3600000 + ms div 60000 mod 60 * 60000 + ms div 1000 mod 60 * 1000
    + ms mod 1000 = (ms :: nat)"
proof -
  have "ms div 60000 div 60 = ms div 3600000" "ms div 1000 div 60 = ms div 60000"
    by (simp_all add: div_mult2_eq [symmetric])
  then show ?thesis
    using div_mult_mod_eq [of "ms div 60000" 60] div_mult_mod_eq [of "ms div 1000" 60]
      div_mult_mod_eq [of ms 1000] by linarith
qed

lemma rest_text_fields:
  assumes "mon < 100" "day < 100" "ms < 86400000"
  shows "length (rest_text mon day ms) = 20"
    "field 1 2 (rest_text mon day ms) = mon" "field 4 2 (rest_text mon day ms) = day"
    "field 7 2 (rest_text mon day ms) = ms div 3600000"
    "field 10 2 (rest_text mon day ms) = ms div 60000 mod 60"
    "field 13 2 (rest_text mon day ms) = ms div 1000 mod 60"
    "field 16 3 (rest_text mon day ms) = ms mod 1000"
proof -
  have h: "ms div 3600000 < 10 ^ 2" "ms div 60000 mod 60 < 10 ^ 2" "ms div 1000 mod 60 < 10 ^ 2"
    "ms mod 1000 < 10 ^ 3"
    using assms(3) by (auto intro: less_trans [OF mod_less_divisor])
  show "length (rest_text mon day ms) = 20"
    "field 1 2 (rest_text mon day ms) = mon" "field 4 2 (rest_text mon day ms) = day"
    "field 7 2 (rest_text mon day ms) = ms div 3600000"
    "field 10 2 (rest_text mon day ms) = ms div 60000 mod 60"
    "field 13 2 (rest_text mon day ms) = ms div 1000 mod 60"
    "field 16 3 (rest_text mon day ms) = ms mod 1000"
    using assms(1,2) h by (simp_all add: rest_text_def field_def)
qed

lemma parse_rest_text:
  assumes "d = t div msPerDay" "y = yearFromDay d" "leap = inLeapYear y" "dwy = nat (d - dayFromYear y)"
  shows "parse_rest y (rest_text (month_of_day leap dwy) (day_of_month leap dwy) (nat (t mod msPerDay)))
    = Some t"
proof -
  have ms: "nat (t mod msPerDay) < 86400000" "0 \<le> t mod msPerDay"
    by (simp_all add: msPerDay_def nat_less_iff)
  have dwy: "dwy < 366" and ge: "dayFromYear y \<le> d"
    using nat_dwy [of d] yearFromDay_bounds [of d] assms by simp_all
  note m = month_of_day_facts [OF dwy, of leap]
  have "day_of_month leap dwy - 1 = dwy - month_starts leap ! (month_of_day leap dwy - 1)"
    by (simp add: day_of_month_def)
  then have "int (month_starts leap ! (month_of_day leap dwy - 1)) + int (day_of_month leap dwy) - 1 = int dwy"
    using m(3) by (simp add: day_of_month_def of_nat_diff)
  moreover have "int dwy = d - dayFromYear y" using ge assms by simp
  ultimately have day: "dayFromYear y + int (month_starts leap ! (month_of_day leap dwy - 1))
      + int (day_of_month leap dwy) - 1 = d" by linarith
  have "month_of_day leap dwy < 100" using m(2) by simp
  note f = rest_text_fields [OF this m(4) ms(1)]
  have "d * msPerDay + int (nat (t mod msPerDay)) = t" using assms(1) ms(2) by simp
  with day show ?thesis
    unfolding parse_rest_def f clock_fields [OF ms(1)] using m(1,2) assms(3) by simp
qed

lemma hd_digits: "0 < w \<Longrightarrow> is_digit (hd (digits w v))"
  using all_digits_digits [of w v] length_digits [of w v]
  by (cases "digits w v") simp_all

lemma parse_iso_toISOString:
  assumes "toISOString t = Inr s"
  shows "parse_iso s = Some t"
proof -
  define d y where "d = t div msPerDay" and "y = yearFromDay d"
  define r where "r = rest_text (month_of_day (inLeapYear y) (nat (d - dayFromYear y)))
    (day_of_month (inLeapYear y) (nat (d - dayFromYear y))) (nat (t mod msPerDay))"
  from assms have v: "valid_time t" and s: "s = year_text y @ r"
    by (auto simp: toISOString_def Let_def d_def y_def r_def split: if_splits)
  have r: "parse_rest y r = Some t"
    unfolding r_def by (rule parse_rest_text) (simp_all add: d_def y_def)
  have y: "- 999999 \<le> y" "y \<le> 999999" using year_range [OF v] by (simp_all add: d_def y_def)
  show ?thesis
  proof (cases "0 \<le> y \<and> y \<le> 9999")
    case True
    have "is_digit (hd (digits 4 (nat y)))" "digits 4 (nat y) \<noteq> []"
      by (simp_all add: hd_digits flip: length_0_conv)
    then have "hd s \<noteq> 45" "hd s \<noteq> 43" using True s by (auto simp: year_text_def is_digit_def)
    moreover have "nat y < 10 ^ 4" using True by (simp add: nat_less_iff)
    ultimately show ?thesis using True s r by (simp add: parse_iso_def year_text_def field_def)
  next
    case False
    moreover have "nat y < 10 ^ 6" "nat (- y) < 10 ^ 6" using y by (simp_all add: nat_less_iff)
    ultimately show ?thesis using s r by (auto simp: parse_iso_def year_text_def field_def)
  qed
qed

section \<open>Canonical timestamps\<close>

text \<open>\<open>Number.isFinite(Date.parse(value)) && new Date(value).toISOString() === value\<close>.\<close>

definition validTimestamp :: "jstring \<Rightarrow> bool" where
  "validTimestamp s = (case parse_iso s of None \<Rightarrow> False | Some t \<Rightarrow> toISOString t = Inr s)"

lemma validTimestamp_toISOString: "toISOString t = Inr s \<Longrightarrow> validTimestamp s"
  by (simp add: validTimestamp_def parse_iso_toISOString)

lemma toISOString_total: "valid_time t \<Longrightarrow> \<exists>s. toISOString t = Inr s"
  by (simp add: toISOString_def Let_def)

end
