(* ===== verification/Json.thy ===== *)
theory Json
  imports Dates
begin

text \<open>
  JSON data and wire values (\<open>packages/contracts/src/json.ts\<close>): the type \<open>JsonValue\<close>, the normalising
  copy \<open>serializeWireValue\<close> with every rejection of the source, and \<open>JSON.stringify\<close> on JSON data with
  its UTF-8 length. An object is the list of its members. The engine's own order for integer-like names
  is not modelled: the sources only compare normalised texts for equality and measure their length,
  and neither depends on it.
\<close>

section \<open>Data\<close>

text \<open>
  A number is \<open>JInt\<close> with its value when it is a safe integer, and \<open>JReal\<close> with its
  \<open>Number::toString\<close> text otherwise.
\<close>

datatype json =
    JNull
  | JBool bool
  | JInt int
  | JReal jstring
  | JStr jstring
  | JArr "json list"
  | JObj "(jstring \<times> json) list"

text \<open>
  A value before serialisation (\<open>unknown\<close>). \<open>VOther\<close> is a value whose \<open>typeof\<close> is none of the
  supported ones (undefined, a function, a symbol); \<open>VDate None\<close> is an invalid date; \<open>VAncestor\<close> is a
  reference to an object that encloses it; an array lists its slots and says whether it has further
  own keys; an object says whether its prototype is plain and lists its enumerable members.
\<close>

datatype jsvalue =
    VOther
  | VNull
  | VBool bool
  | VInt int
  | VReal jstring
  | VNonFinite
  | VString jstring
  | VBigInt int
  | VDate "int option"
  | VBytes "8 word list"
  | VAncestor
  | VArray "slot list" bool
  | VObject bool "(jstring \<times> slot) list"
and slot = Hole | Accessor | Data jsvalue

section \<open>Number and byte texts\<close>

definition int_text :: "int \<Rightarrow> jstring" where
  "int_text n = (if n < 0 then 45 # decimal_string (nat (- n)) else decimal_string (nat n))"

definition base64_char :: "nat \<Rightarrow> code_unit" where
  "base64_char n = of_nat
     (if n < 26 then 65 + n else if n < 52 then 71 + n else if n < 62 then n - 4
      else if n = 62 then 43 else 47)"

fun base64 :: "nat list \<Rightarrow> jstring" where
  "base64 [] = []"
| "base64 [a] = [base64_char (a div 4), base64_char (a mod 4 * 16), 61, 61]"
| "base64 [a, b] =
     [base64_char (a div 4), base64_char (a mod 4 * 16 + b div 16), base64_char (b mod 16 * 4), 61]"
| "base64 (a # b # c # rest) =
     [base64_char (a div 4), base64_char (a mod 4 * 16 + b div 16),
      base64_char (b mod 16 * 4 + c div 64), base64_char (c mod 64)] @ base64 rest"

section \<open>\<open>serializeWireValue\<close>\<close>

definition compareMembers :: "(jstring \<times> 'a) \<Rightarrow> (jstring \<times> 'a) \<Rightarrow> int" where
  "compareMembers left right = compareText (fst left) (fst right)"

abbreviation wireValueError :: js_error where
  "wireValueError \<equiv> Diagnostic ''PROTOCOL_WIRE_VALUE_INVALID''"

fun serialize :: "jsvalue \<Rightarrow> json result"
  and serialize_slot :: "slot \<Rightarrow> json result"
  and serialize_slots :: "slot list \<Rightarrow> json list result"
  and serialize_members :: "(jstring \<times> slot) list \<Rightarrow> (jstring \<times> json) list result" where
  "serialize VNull = Inr JNull"
| "serialize (VString s) = Inr (JStr s)"
| "serialize (VBool b) = Inr (JBool b)"
| "serialize (VInt n) = Inr (JInt n)"
| "serialize (VReal s) = Inr (JReal s)"
| "serialize VNonFinite = Inl wireValueError"
| "serialize (VBigInt n) = Inr (JStr (int_text n))"
| "serialize (VDate None) = Inl wireValueError"
| "serialize (VDate (Some t)) = and_then (toISOString t) (\<lambda>s. Inr (JStr s))"
| "serialize (VBytes bs) = Inr (JStr (base64 (map unat bs)))"
| "serialize VOther = Inl wireValueError"
| "serialize VAncestor = Inl wireValueError"
| "serialize (VArray xs extended) =
     (if list_all (\<lambda>x. case x of Data _ \<Rightarrow> True | _ \<Rightarrow> False) xs \<and> \<not> extended
      then and_then (serialize_slots xs) (\<lambda>ys. Inr (JArr ys))
      else Inl wireValueError)"
| "serialize (VObject plain ms) =
     (if plain
      then and_then (serialize_members ms) (\<lambda>ks. Inr (JObj (sort_by compareMembers ks)))
      else Inl wireValueError)"
| "serialize_slot (Data v) = serialize v"
| "serialize_slot Hole = Inl wireValueError"
| "serialize_slot Accessor = Inl wireValueError"
| "serialize_slots [] = Inr []"
| "serialize_slots (x # xs) =
     and_then (serialize_slot x) (\<lambda>y. and_then (serialize_slots xs) (\<lambda>ys. Inr (y # ys)))"
| "serialize_members [] = Inr []"
| "serialize_members ((k, x) # ms) =
     and_then (serialize_slot x) (\<lambda>y. and_then (serialize_members ms) (\<lambda>ks. Inr ((k, y) # ks)))"

text \<open>On JSON data the copy sorts the members of every object and changes nothing else.\<close>

primrec canon :: "json \<Rightarrow> json" where
  "canon JNull = JNull"
| "canon (JBool b) = JBool b"
| "canon (JInt n) = JInt n"
| "canon (JReal s) = JReal s"
| "canon (JStr s) = JStr s"
| "canon (JArr xs) = JArr (map canon xs)"
| "canon (JObj ms) = JObj (sort_by compareMembers (map (map_prod id canon) ms))"

primrec of_json :: "json \<Rightarrow> jsvalue" where
  "of_json JNull = VNull"
| "of_json (JBool b) = VBool b"
| "of_json (JInt n) = VInt n"
| "of_json (JReal s) = VReal s"
| "of_json (JStr s) = VString s"
| "of_json (JArr xs) = VArray (map (\<lambda>j. Data (of_json j)) xs) False"
| "of_json (JObj ms) = VObject True (map (map_prod id (\<lambda>j. Data (of_json j))) ms)"

section \<open>\<open>JSON.stringify\<close>\<close>

definition hex_char :: "nat \<Rightarrow> code_unit" where
  "hex_char n = of_nat (if n < 10 then 48 + n else 87 + n)"

definition unicode_escape :: "code_unit \<Rightarrow> jstring" where
  "unicode_escape c = (let n = unat c in
     [92, 117, hex_char (n div 4096), hex_char (n div 256 mod 16), hex_char (n div 16 mod 16),
      hex_char (n mod 16)])"

definition lead_surrogate :: "code_unit \<Rightarrow> bool" where
  "lead_surrogate c \<longleftrightarrow> 0xd800 \<le> c \<and> c \<le> 0xdbff"

definition trail_surrogate :: "code_unit \<Rightarrow> bool" where
  "trail_surrogate c \<longleftrightarrow> 0xdc00 \<le> c \<and> c \<le> 0xdfff"

fun quote_units :: "jstring \<Rightarrow> jstring" where
  "quote_units [] = []"
| "quote_units (c # s) =
     (if c = 34 then [92, 34] @ quote_units s
      else if c = 92 then [92, 92] @ quote_units s
      else if c = 8 then [92, 98] @ quote_units s
      else if c = 9 then [92, 116] @ quote_units s
      else if c = 10 then [92, 110] @ quote_units s
      else if c = 12 then [92, 102] @ quote_units s
      else if c = 13 then [92, 114] @ quote_units s
      else if c < 32 \<or> trail_surrogate c then unicode_escape c @ quote_units s
      else if lead_surrogate c then
        (case s of
           [] \<Rightarrow> unicode_escape c
         | d # s' \<Rightarrow> if trail_surrogate d then [c, d] @ quote_units s' else unicode_escape c @ quote_units s)
      else c # quote_units s)"

definition quoted :: "jstring \<Rightarrow> jstring" where
  "quoted s = [34] @ quote_units s @ [34]"

fun join :: "jstring \<Rightarrow> jstring list \<Rightarrow> jstring" where
  "join sep [] = []"
| "join sep [s] = s"
| "join sep (s # t # ss) = s @ sep @ join sep (t # ss)"

primrec stringify :: "json \<Rightarrow> jstring" where
  "stringify JNull = js ''null''"
| "stringify (JBool b) = (if b then js ''true'' else js ''false'')"
| "stringify (JInt n) = int_text n"
| "stringify (JReal s) = s"
| "stringify (JStr s) = quoted s"
| "stringify (JArr xs) = [91] @ join [44] (map stringify xs) @ [93]"
| "stringify (JObj ms) =
     [123] @ join [44] (map (\<lambda>(k, t). quoted k @ [58] @ t) (map (map_prod id stringify) ms)) @ [125]"

text \<open>\<open>Buffer.byteLength(text, "utf8")\<close>; a lone surrogate counts as the replacement character.\<close>

fun utf8_length :: "jstring \<Rightarrow> nat" where
  "utf8_length [] = 0"
| "utf8_length (c # s) =
     (if c < 0x80 then 1 + utf8_length s
      else if c < 0x800 then 2 + utf8_length s
      else if lead_surrogate c then
        (case s of
           [] \<Rightarrow> 3
         | d # s' \<Rightarrow> if trail_surrogate d then 4 + utf8_length s' else 3 + utf8_length s)
      else 3 + utf8_length s)"

section \<open>Properties\<close>

lemma sort_by_sorted: "sorted_wrt (\<lambda>x y. cmp x y \<le> 0) xs \<Longrightarrow> sort_by cmp xs = xs"
proof (induction xs)
  case Nil
  then show ?case by simp
next
  case (Cons x xs)
  then show ?case by (cases xs) auto
qed

lemma sort_by_map:
  "(\<And>x y. cmp (f x) (f y) = cmp' x y) \<Longrightarrow> sort_by cmp (map f xs) = map f (sort_by cmp' xs)"
proof (induction xs)
  case Nil
  then show ?case by simp
next
  case (Cons x xs)
  have "insert_by cmp (f x) (map f ys) = map f (insert_by cmp' x ys)" for ys
    by (induction ys) (auto simp: Cons.prems)
  with Cons show ?case by simp
qed

interpretation member_cmp: total_comparator "compareMembers :: jstring \<times> 'a \<Rightarrow> jstring \<times> 'a \<Rightarrow> int"
  unfolding compareMembers_def by (rule total_comparator_key) unfold_locales

lemma compareMembers_map [simp]:
  "compareMembers (map_prod id f x) (map_prod id f y) = compareMembers x y"
  by (simp add: compareMembers_def)

lemma serialize_slots_data:
  "(\<And>x. x \<in> set xs \<Longrightarrow> serialize (f x) = Inr (g x)) \<Longrightarrow>
   serialize_slots (map (\<lambda>x. Data (f x)) xs) = Inr (map g xs)"
  by (induction xs) auto

lemma serialize_members_data:
  "\<forall>m \<in> set ms. serialize (f (snd m)) = Inr (g (snd m)) \<Longrightarrow>
   serialize_members (map (map_prod id (\<lambda>x. Data (f x))) ms) = Inr (map (map_prod id g) ms)"
  by (induction ms) auto

lemma serialize_of_json: "serialize (of_json j) = Inr (canon j)"
proof (induction j)
  case (JArr xs)
  then show ?case by (simp add: serialize_slots_data list.pred_map list_all_iff)
next
  case (JObj ms)
  have "serialize (of_json (snd m)) = Inr (canon (snd m))" if "m \<in> set ms" for m
    using JObj [OF that, of "snd m"] by (cases m) simp
  then have "serialize_members (map (map_prod id (\<lambda>j. Data (of_json j))) ms) = Inr (map (map_prod id canon) ms)"
    by (intro serialize_members_data) simp
  then show ?case by simp
qed simp_all

lemma canon_idem: "canon (canon j) = canon j"
proof (induction j)
  case (JArr xs)
  then show ?case by simp
next
  case (JObj ms)
  let ?s = "sort_by compareMembers (map (map_prod id canon) ms)"
  have "map_prod id canon x = x" if s: "x \<in> set ?s" for x
  proof -
    from s obtain k j where m: "(k, j) \<in> set ms" and x: "x = (k, canon j)" by auto
    from JObj [OF m, of j] have "canon (canon j) = canon j" by simp
    with x show ?thesis by simp
  qed
  then have "map (map_prod id canon) ?s = ?s" by (rule map_idI)
  moreover have "sort_by compareMembers ?s = ?s"
    by (rule sort_by_sorted) (rule member_cmp.sorted_sort_by)
  ultimately show ?case by (simp only: canon.simps)
qed simp_all

end
