(* ===== verification/Identity.thy ===== *)
theory Identity
  imports Json
begin

text \<open>
  Portable identifiers and decimal identities (\<open>packages/contracts/src/identity.ts\<close>) and the
  activation numbers of \<open>packages/runtime/src/reconcile/plan.ts\<close>. The decimal patterns accept
  exactly one string per natural number, so the other theories represent revisions, generations,
  sequences and fencing epochs by the number they denote.
\<close>

section \<open>Portable identifiers\<close>

text \<open>46 is the dot, 95 the underscore, 45 the hyphen, 58 the colon and 47 the slash.\<close>

definition identity_char :: "code_unit \<Rightarrow> bool" where
  "identity_char c \<longleftrightarrow> is_alnum c \<or> c = 46 \<or> c = 95 \<or> c = 45"

definition IDENTITY_PATTERN :: "jstring \<Rightarrow> bool" where
  "IDENTITY_PATTERN s \<longleftrightarrow>
     s \<noteq> [] \<and> is_alnum (hd s) \<and> list_all identity_char (tl s) \<and> length s \<le> 128"

definition invalidIdentity :: js_error where
  "invalidIdentity = Diagnostic ''PROTOCOL_IDENTITY_INVALID''"

definition parseIdentity :: "json \<Rightarrow> jstring result" where
  "parseIdentity v =
     (case v of JStr s \<Rightarrow> if IDENTITY_PATTERN s then Inr s else Inl invalidIdentity
      | _ \<Rightarrow> Inl invalidIdentity)"

text \<open>\<open>text.split(sep)\<close> for a one-character separator.\<close>

fun split_on :: "code_unit \<Rightarrow> jstring \<Rightarrow> jstring list" where
  "split_on sep [] = [[]]"
| "split_on sep (c # s) =
     (if c = sep then [] # split_on sep s
      else case split_on sep s of [] \<Rightarrow> [[c]] | p # ps \<Rightarrow> (c # p) # ps)"

definition EXECUTOR_ID_PATTERN :: "jstring \<Rightarrow> bool" where
  "EXECUTOR_ID_PATTERN s \<longleftrightarrow>
     list_all (\<lambda>seg. seg \<noteq> [46] \<and> seg \<noteq> [46, 46]) (split_on 47 s) \<and>
     s \<noteq> [] \<and> is_alnum (hd s) \<and>
     (tl s = [] \<or>
      (length (butlast (tl s)) \<le> 126 \<and>
       list_all (\<lambda>c. identity_char c \<or> c = 58 \<or> c = 47) (butlast (tl s)) \<and>
       identity_char (last s)))"

definition parseExecutorId :: "json \<Rightarrow> jstring result" where
  "parseExecutorId v =
     (case v of JStr s \<Rightarrow> if EXECUTOR_ID_PATTERN s then Inr s else Inl invalidIdentity
      | _ \<Rightarrow> Inl invalidIdentity)"

definition is_hex_digit :: "code_unit \<Rightarrow> bool" where
  "is_hex_digit c \<longleftrightarrow> is_digit c \<or> (97 \<le> c \<and> c \<le> 102)"

definition SHA256_PATTERN :: "jstring \<Rightarrow> bool" where
  "SHA256_PATTERN s \<longleftrightarrow>
     take 7 s = js ''sha256:'' \<and> length (drop 7 s) = 64 \<and> list_all is_hex_digit (drop 7 s)"

definition parseArtifactDigest :: "json \<Rightarrow> jstring result" where
  "parseArtifactDigest v =
     (case v of JStr s \<Rightarrow> if SHA256_PATTERN s then Inr s else Inl invalidIdentity
      | _ \<Rightarrow> Inl invalidIdentity)"

section \<open>Decimal identities\<close>

definition parseDecimalIdentity :: "json \<Rightarrow> jstring result" where
  "parseDecimalIdentity v =
     (case v of JStr s \<Rightarrow> if is_decimal s then Inr s else Inl invalidIdentity
      | _ \<Rightarrow> Inl invalidIdentity)"

definition UINT64_MAX :: jstring where
  "UINT64_MAX = js ''18446744073709551615''"

definition parseGeneration :: "json \<Rightarrow> jstring result" where
  "parseGeneration v =
     and_then (parseDecimalIdentity v)
       (\<lambda>generation.
          if length generation > length UINT64_MAX
             \<or> (length generation = length UINT64_MAX \<and> generation > UINT64_MAX)
          then Inl invalidIdentity else Inr generation)"

definition parseActivation :: "json \<Rightarrow> jstring result" where
  "parseActivation v =
     (case v of
        JStr s \<Rightarrow>
          if \<not> is_decimal s \<or> length s > length UINT64_MAX
             \<or> (length s = length UINT64_MAX \<and> s > UINT64_MAX)
          then Inl (Diagnostic ''ACTIVATION_INVALID'') else Inr s
      | _ \<Rightarrow> Inl (Diagnostic ''ACTIVATION_INVALID''))"

section \<open>Lemmas\<close>

lemma of_char_digit: "d < 10 \<Longrightarrow> is_digit (of_nat (48 + d))"
  using is_digit_digit_char [of d] by (simp add: digit_char_def)

lemma UINT64_MAX_facts:
  "length UINT64_MAX = 20" "list_all is_digit UINT64_MAX" "decimal_value UINT64_MAX = 18446744073709551615"
  by (simp_all add: UINT64_MAX_def is_digit_def decimal_value_def digit_value_def)

lemma uint64_guard:
  assumes "is_decimal s"
  shows "(length s > length UINT64_MAX \<or> (length s = length UINT64_MAX \<and> s > UINT64_MAX))
    \<longleftrightarrow> decimal_value s > 18446744073709551615"
proof (cases "length s" "20 :: nat" rule: linorder_cases)
  case less
  have "decimal_value s < 10 ^ length s" using assms by (simp add: decimal_value_bound is_decimal_def)
  also have "\<dots> \<le> 10 ^ 19" using less by (intro power_increasing) simp_all
  finally show ?thesis using less by (simp add: UINT64_MAX_facts)
next
  case equal
  with assms show ?thesis
    using less_digit_strings [of UINT64_MAX s] by (simp add: UINT64_MAX_facts is_decimal_def)
next
  case greater
  then have "(10 :: nat) ^ 20 \<le> 10 ^ (length s - 1)" by (intro power_increasing) simp_all
  also have "\<dots> \<le> decimal_value s" using assms greater by (intro decimal_value_lower) simp_all
  finally show ?thesis using greater by (simp add: UINT64_MAX_facts)
qed

lemma identity_ok_nonempty: "IDENTITY_PATTERN s \<Longrightarrow> 0 < length s \<and> length s \<le> 128"
  by (simp add: IDENTITY_PATTERN_def)

text \<open>
  Generations and activations are exactly the canonical decimal texts of the unsigned 64-bit
  integers: the digit-count-then-text comparison of the source decides the numeric bound, and the
  accepted text is the \<open>toString\<close> of its \<open>BigInt\<close> value.
\<close>

theorem uint64_identities_exact:
  "(parseGeneration (JStr s) = Inr g) =
     (g = s \<and> (\<exists>n \<le> 2 ^ 64 - 1. s = decimal_string n \<and> decimal_value s = n)) \<and>
   (parseActivation (JStr s) = Inr g) = (parseGeneration (JStr s) = Inr g)"
proof
  show "(parseGeneration (JStr s) = Inr g) =
     (g = s \<and> (\<exists>n \<le> 2 ^ 64 - 1. s = decimal_string n \<and> decimal_value s = n))"
  proof (cases "is_decimal s")
    case True
    then have "decimal_string (decimal_value s) = s" by simp
    with True show ?thesis
      using uint64_guard [OF True] by (auto simp: parseGeneration_def parseDecimalIdentity_def)
  next
    case False
    then have "s \<noteq> decimal_string n" for n by (metis is_decimal_decimal_string)
    with False show ?thesis by (simp add: parseGeneration_def parseDecimalIdentity_def)
  qed
  show "(parseActivation (JStr s) = Inr g) = (parseGeneration (JStr s) = Inr g)"
    by (simp add: parseActivation_def parseGeneration_def parseDecimalIdentity_def)
qed

end
