(* ===== verification/State_Contract.thy ===== *)
theory State_Contract
  imports Identity
begin

text \<open>
  The state-store contract (\<open>packages/contracts/src/state.ts\<close>): keys, queries, transaction options,
  journal entries and outbox messages, portable strings with their order-preserving byte keys, and
  the order of journal cursors. Revisions and epochs are natural numbers (see \<open>Identity\<close>).
\<close>

section \<open>Keys, records, queries\<close>

record state_key =
  key_namespace :: jstring
  key_collection :: jstring
  key_id :: jstring

record versioned =
  ver_value :: json
  ver_revision :: nat

record scanned_state =
  scan_key :: state_key
  scan_value :: json
  scan_revision :: nat

record state_query =
  q_namespace :: jstring
  q_collection :: jstring
  q_idPrefix :: "jstring option"
  q_afterId :: "jstring option"
  q_limit :: "number option"

definition STATE_QUERY_MAX_LIMIT :: int where
  "STATE_QUERY_MAX_LIMIT = 100"

datatype expected_revision = AnyRevision | Absent | ExactRevision nat

record fencing =
  fence_resource :: jstring
  fence_epoch :: nat

record transaction_options =
  opt_fencing :: "fencing option"
  opt_idempotencyKey :: "jstring option"
  opt_idempotencyFingerprint :: "jstring option"

datatype change_kind = DeleteChange | PutChange json

record state_change =
  ch_revision :: nat
  ch_key :: state_key
  ch_kind :: change_kind

section \<open>Operation journal\<close>

datatype operation_status = OpCompleted | OpExecuting | OpFailed | OpPlanned

record operation_entry =
  op_id :: jstring
  op_kind :: jstring
  op_status :: operation_status
  op_state :: json
  op_updatedAt :: jstring

record persisted_operation = operation_entry +
  op_revision :: nat

record journal_cursor =
  cur_revision :: nat
  cur_operationId :: jstring

record journal_query =
  jq_after :: "journal_cursor option"
  jq_limit :: "number option"

definition compareOperationJournalCursors :: "journal_cursor \<Rightarrow> journal_cursor \<Rightarrow> int" where
  "compareOperationJournalCursors left right =
     (let revisionOrder =
        (if cur_revision left < cur_revision right then -1
         else if cur_revision left > cur_revision right then 1 else 0)
      in if revisionOrder \<noteq> 0 then revisionOrder
         else if cur_operationId left < cur_operationId right then -1
         else if cur_operationId left > cur_operationId right then 1 else 0)"

section \<open>Outbox\<close>

record outbox_message =
  msg_messageId :: jstring
  msg_operationId :: jstring
  msg_topic :: jstring
  msg_payload :: json
  msg_createdAt :: jstring
  msg_availableAt :: jstring

definition OUTBOX_TOPIC_MAX_LENGTH :: nat where
  "OUTBOX_TOPIC_MAX_LENGTH = 128"

definition OUTBOX_PAYLOAD_MAX_BYTES :: nat where
  "OUTBOX_PAYLOAD_MAX_BYTES = 1048576"

record claim_request =
  cr_owner :: jstring
  cr_leaseDurationMs :: number
  cr_limit :: "number option"
  cr_topic :: "jstring option"
  cr_fencing :: "fencing option"

record outbox_claim =
  cl_message :: outbox_message
  cl_owner :: jstring
  cl_claimEpoch :: nat
  cl_attempt :: nat
  cl_claimedAt :: jstring
  cl_expiresAt :: jstring

datatype ack_outcome = AckCompleted | AckRetry

record ack_request =
  ar_messageId :: jstring
  ar_owner :: jstring
  ar_claimEpoch :: nat
  ar_outcome :: ack_outcome
  ar_retryAt :: "jstring option"
  ar_fencing :: "fencing option"

record acknowledgement =
  ack_messageId :: jstring
  ack_outcome :: ack_outcome
  ack_attempt :: nat
  ack_acknowledgedAt :: jstring
  ack_duplicate :: bool
  ack_retryAt :: "jstring option"

section \<open>Portable strings\<close>

fun isPortableStateString :: "jstring \<Rightarrow> bool" where
  "isPortableStateString [] = True"
| "isPortableStateString (c # s) =
     (if c = 0 then False
      else if 0xd800 \<le> c \<and> c \<le> 0xdbff then
        (case s of
           [] \<Rightarrow> False
         | d # s' \<Rightarrow> if d < 0xdc00 \<or> d > 0xdfff then False else isPortableStateString s')
      else if 0xdc00 \<le> c \<and> c \<le> 0xdfff then False
      else isPortableStateString s)"

text \<open>Each code unit becomes its high byte and its low byte.\<close>

definition unit_bytes :: "code_unit \<Rightarrow> 8 word list" where
  "unit_bytes c = [ucast (drop_bit 8 c), ucast (and c 0xff)]"

definition stateStringOrderKey :: "jstring \<Rightarrow> 8 word list result" where
  "stateStringOrderKey s =
     (if isPortableStateString s then Inr (concat (map unit_bytes s)) else Inl TypeError)"

section \<open>Lemmas\<close>

lemma cursor_order_eq:
  "compareOperationJournalCursors l r =
     or_else (compareText (cur_revision l) (cur_revision r))
       (compareText (cur_operationId l) (cur_operationId r))"
  by (simp add: compareOperationJournalCursors_def or_else_def compareText_def)

lemma total_comparator_or_else:
  assumes "total_comparator f" "total_comparator g"
    and "\<And>x y. f x y = 0 \<Longrightarrow> f y x = 0"
    and "\<And>x y. f x y < 0 \<longleftrightarrow> 0 < f y x"
  shows "total_comparator (\<lambda>x y. or_else (f x y) (g x y))"
proof
  fix x y z
  show "or_else (f x y) (g x y) \<le> 0 \<or> or_else (f y x) (g y x) \<le> 0"
    using total_comparator.cmp_swap [OF assms(2), of x y] assms(3,4) [of x y] assms(3,4) [of y x]
    by (auto simp: or_else_def)
  assume a: "or_else (f x y) (g x y) \<le> 0" and b: "or_else (f y z) (g y z) \<le> 0"
  have fa: "f x y \<le> 0" and fb: "f y z \<le> 0" using a b by (auto simp: or_else_def split: if_splits)
  have fxz: "f x z \<le> 0" by (rule total_comparator.cmp_trans [OF assms(1) fa fb])
  show "or_else (f x z) (g x z) \<le> 0"
  proof (cases "f x z = 0")
    case True
    then have zx: "f z x \<le> 0" using assms(3) by force
    have "f y x \<le> 0" by (rule total_comparator.cmp_trans [OF assms(1) fb zx])
    moreover have "f z y \<le> 0" by (rule total_comparator.cmp_trans [OF assms(1) zx fa])
    ultimately have "f x y = 0" "f y z = 0" using fa fb assms(4) [of x y] assms(4) [of y z] by auto
    with a b have "g x y \<le> 0" "g y z \<le> 0" by (auto simp: or_else_def)
    then have "g x z \<le> 0" by (rule total_comparator.cmp_trans [OF assms(2)])
    with True show ?thesis by (simp add: or_else_def)
  next
    case False
    with fxz show ?thesis by (simp add: or_else_def)
  qed
qed

lemma total_comparator_text: "total_comparator (\<lambda>x y. compareText (f x) (f y))"
  by (rule total_comparator_key) unfold_locales

lemmas text_then = total_comparator_or_else [OF total_comparator_text]

interpretation cursor_cmp: total_comparator compareOperationJournalCursors
  unfolding cursor_order_eq by (rule text_then) (auto intro: total_comparator_text)

lemma unat_unit_bytes:
  fixes c :: code_unit
  shows "unat (ucast (drop_bit 8 c) :: 8 word) = unat c div 256"
    and "unat (ucast (and c 0xff) :: 8 word) = unat c mod 256"
proof -
  have "unat c < 2 ^ LENGTH(16)" by (rule unsigned_less)
  then have "unat c < 65536" by simp
  then have "unat c div 256 < 256" by (simp add: less_mult_imp_div_less)
  then show "unat (ucast (drop_bit 8 c) :: 8 word) = unat c div 256"
    by (simp add: unsigned_ucast_eq unat_drop_bit_eq take_bit_eq_mod drop_bit_eq_div [of 8 "unat c"])
  have "and c 0xff = take_bit 8 c" by (simp add: take_bit_eq_mask mask_eq_exp_minus_1)
  then show "unat (ucast (and c 0xff) :: 8 word) = unat c mod 256"
    by (simp add: unsigned_ucast_eq unsigned_take_bit_eq take_bit_eq_mod [of 8 "_ :: nat"])
qed

lemma unit_bytes_less:
  "unit_bytes c @ s < unit_bytes d @ t \<longleftrightarrow> c < d \<or> (c = d \<and> s < t)"
proof -
  have div_mod: "unat c = 256 * (unat c div 256) + unat c mod 256"
    "unat d = 256 * (unat d div 256) + unat d mod 256" by simp_all
  have "c < d \<longleftrightarrow> unat c div 256 < unat d div 256 \<or>
      (unat c div 256 = unat d div 256 \<and> unat c mod 256 < unat d mod 256)"
    unfolding word_less_nat_alt using div_mod
      mod_less_divisor [of 256 "unat c"] mod_less_divisor [of 256 "unat d"] by linarith
  moreover have "c = d \<longleftrightarrow> unat c div 256 = unat d div 256 \<and> unat c mod 256 = unat d mod 256"
    unfolding word_unat_eq_iff using div_mod by metis
  ultimately show ?thesis
    by (auto simp: unit_bytes_def word_less_nat_alt word_unat_eq_iff [where 'a = 8] unat_unit_bytes)
qed

lemma order_key_less: "concat (map unit_bytes s) < concat (map unit_bytes t) \<longleftrightarrow> s < t"
proof (induction s arbitrary: t)
  case Nil
  then show ?case by (cases t) (auto simp: unit_bytes_def)
next
  case IH: (Cons c s)
  show ?case
  proof (cases t)
    case Nil
    then show ?thesis by (simp add: unit_bytes_def)
  next
    case (Cons d t')
    with IH show ?thesis by (simp add: unit_bytes_less)
  qed
qed

text \<open>
  The byte keys under which the SQL drivers store identifiers sort exactly as the identifiers do
  in code-unit order, so a scan by byte key returns the order the contract promises.
\<close>

theorem stateStringOrderKey_order:
  assumes "stateStringOrderKey s = Inr ks" and "stateStringOrderKey t = Inr kt"
  shows "ks < kt \<longleftrightarrow> s < t"
  using assms order_key_less by (auto simp: stateStringOrderKey_def split: if_splits)

theorem stateStringOrderKey_order_witness:
  "stateStringOrderKey [0xe000] = Inr [0xe0, 0] \<and>
   stateStringOrderKey [0xd83d, 0xde00] = Inr [0xd8, 0x3d, 0xde, 0] \<and>
   ([0xd8, 0x3d, 0xde, 0] < ([0xe0, 0] :: 8 word list)) = ([0xd83d, 0xde00] < ([0xe000] :: jstring))"
proof -
  have a: "stateStringOrderKey [0xe000] = Inr [0xe0, 0]"
    by (simp add: stateStringOrderKey_def unit_bytes_def)
  have b: "stateStringOrderKey [0xd83d, 0xde00] = Inr [0xd8, 0x3d, 0xde, 0]"
    by (simp add: stateStringOrderKey_def unit_bytes_def)
  show ?thesis using a b stateStringOrderKey_order [OF b a] by blast
qed

end
