(* ===== verification/Json_Text.thy ===== *)
theory Json_Text
  imports Json
begin

text \<open>
  Quoted strings of \<open>JSON.stringify\<close> can be read back: \<open>unquote\<close> takes the text after an opening
  quote and returns the string and what follows its closing quote. So texts built from quoted strings
  determine the strings, which is what the sources rely on when they use such texts as map keys.
\<close>

definition hex_value :: "code_unit \<Rightarrow> nat" where
  "hex_value c = (if unat c < 58 then unat c - 48 else unat c - 87)"

definition escaped_unit :: "code_unit \<Rightarrow> code_unit" where
  "escaped_unit e =
     (if e = 98 then 8 else if e = 116 then 9 else if e = 110 then 10 else if e = 102 then 12
      else if e = 114 then 13 else e)"

function unquote :: "jstring \<Rightarrow> jstring \<times> jstring" where
  "unquote s =
     (case s of
        [] \<Rightarrow> ([], [])
      | c # r \<Rightarrow>
          if c = 34 then ([], r)
          else if c = 92 then
            (if r \<noteq> [] \<and> hd r = 117 then
               apfst (Cons (of_nat (hex_value (r ! 1) * 4096 + hex_value (r ! 2) * 256
                                     + hex_value (r ! 3) * 16 + hex_value (r ! 4))))
                 (unquote (drop 5 r))
             else if r \<noteq> [] then apfst (Cons (escaped_unit (hd r))) (unquote (tl r))
             else ([], []))
          else apfst (Cons c) (unquote r))"
  by pat_completeness auto
termination
  by (relation "measure length") auto

declare unquote.simps [simp del]

lemma hex_value_hex_char: "n < 16 \<Longrightarrow> hex_value (hex_char n) = n"
  unfolding hex_value_def hex_char_def by (subst (1 2 3) unat_of_nat) auto

lemma unquote_plain: "c \<noteq> 34 \<Longrightarrow> c \<noteq> 92 \<Longrightarrow> unquote (c # r) = apfst (Cons c) (unquote r)"
  by (simp add: unquote.simps [of "c # r"])

lemma unquote_close: "unquote (34 # r) = ([], r)"
  by (simp add: unquote.simps [of "34 # r"])

lemma unquote_short:
  "e \<noteq> 117 \<Longrightarrow> unquote (92 # e # r) = apfst (Cons (escaped_unit e)) (unquote r)"
  by (simp add: unquote.simps [of "92 # e # r"])

lemma unquote_unicode: "unquote (unicode_escape c @ r) = apfst (Cons c) (unquote r)"
proof -
  define n where "n = unat c"
  have "n < 2 ^ LENGTH(16)" unfolding n_def by (rule unsigned_less)
  then have lt: "n div 4096 < 16" by (simp add: less_mult_imp_div_less)
  have "n div 4096 * 4096 + n div 256 mod 16 * 256 + n div 16 mod 16 * 16 + n mod 16 = n"
  proof -
    have "n div 256 div 16 = n div 4096" "n div 16 div 16 = n div 256"
      by (simp_all add: div_mult2_eq [symmetric])
    then show ?thesis
      using div_mult_mod_eq [of "n div 256" 16] div_mult_mod_eq [of "n div 16" 16]
        div_mult_mod_eq [of n 16] by linarith
  qed
  with lt show ?thesis
    unfolding unicode_escape_def Let_def n_def [symmetric]
    by (simp add: unquote.simps [of "92 # _"] hex_value_hex_char n_def
        del: of_nat_add of_nat_mult of_nat_numeral)
qed

lemma quote_units_short:
  "quote_units (34 # s) = [92, 34] @ quote_units s" "quote_units (92 # s) = [92, 92] @ quote_units s"
  "quote_units (8 # s) = [92, 98] @ quote_units s" "quote_units (9 # s) = [92, 116] @ quote_units s"
  "quote_units (10 # s) = [92, 110] @ quote_units s" "quote_units (12 # s) = [92, 102] @ quote_units s"
  "quote_units (13 # s) = [92, 114] @ quote_units s"
  by simp_all

lemma unquote_quote_units: "unquote (quote_units s @ 34 # r) = (s, r)"
proof (induction "length s" arbitrary: s rule: less_induct)
  case less
  show ?case
  proof (cases s)
    case Nil
    then show ?thesis by (simp add: unquote_close)
  next
    case s: (Cons c t)
    have IH: "unquote (quote_units t @ 34 # r) = (t, r)" using s by (intro less) simp
    consider (short) "c = 34 \<or> c = 92 \<or> c = 8 \<or> c = 9 \<or> c = 10 \<or> c = 12 \<or> c = 13"
      | (long) "c \<noteq> 34" "c \<noteq> 92" "c \<noteq> 8" "c \<noteq> 9" "c \<noteq> 10" "c \<noteq> 12" "c \<noteq> 13"
      by blast
    then show ?thesis
    proof cases
      case short
      with s IH show ?thesis
        by (elim disjE) (simp_all only: quote_units_short append.simps unquote_short, simp_all add: escaped_unit_def IH unquote_short)
    next
      case long
      show ?thesis
      proof (cases "lead_surrogate c \<and> \<not> (c < 32 \<or> trail_surrogate c) \<and> (\<exists>d u. t = d # u \<and> trail_surrogate d)")
        case True
        then obtain d u where t: "t = d # u" "trail_surrogate d" by blast
        then have "d \<noteq> 34" "d \<noteq> 92" by (auto simp: trail_surrogate_def)
        moreover have "unquote (quote_units u @ 34 # r) = (u, r)" using s t by (intro less) simp
        ultimately show ?thesis using True t s long by (simp add: unquote_plain)
      next
        case False
        then have "quote_units (c # t) = (if c < 32 \<or> trail_surrogate c \<or> lead_surrogate c
            then unicode_escape c @ quote_units t else c # quote_units t)"
          using long by (auto split: list.splits)
        with s IH long show ?thesis by (simp add: unquote_unicode unquote_plain)
      qed
    qed
  qed
qed

lemma quoted_prefix_inj:
  "quoted s @ r = quoted t @ u \<longleftrightarrow> s = t \<and> r = u"
proof
  assume "quoted s @ r = quoted t @ u"
  then have "unquote (quote_units s @ 34 # r) = unquote (quote_units t @ 34 # u)"
    by (simp add: quoted_def)
  then show "s = t \<and> r = u" by (simp add: unquote_quote_units)
qed simp

lemma quoted_inj: "quoted s = quoted t \<longleftrightarrow> s = t"
  using quoted_prefix_inj [of s "[]" t "[]"] by simp

end
