(* ===== verification/Memory_Transaction.thy ===== *)
theory Memory_Transaction
  imports State_Contract Json_Text
begin

text \<open>
  The transactions of the in-memory state store (class \<open>MemoryTransaction\<close> and the helper functions
  of \<open>packages/drivers-local/src/memory-state-store.ts\<close>): reads through a snapshot and the staged
  mutations, staged writes, the journal and outbox appends, and \<open>finish\<close>/\<open>abort\<close>.
\<close>

section \<open>Records, mutations, helpers\<close>

record stored_record =
  rec_key :: state_key
  rec_value :: json
  rec_revision :: nat

datatype mutation =
    PutMutation (mut_key: state_key) (mut_value: json) (mut_expected: expected_revision)
  | DeleteMutation (mut_key: state_key) (mut_expected: expected_revision)

record staged_transaction =
  st_mutations :: "mutation list"
  st_operations :: "operation_entry list"
  st_outbox :: "outbox_message list"

record memory_transaction =
  tx_snapshot :: "(jstring, stored_record) jsmap"
  tx_mutations :: "(jstring, mutation) jsmap"
  tx_operations :: "operation_entry list"
  tx_operationIds :: "jstring list"
  tx_outbox :: "outbox_message list"
  tx_active :: bool

definition serializedKey :: "state_key \<Rightarrow> jstring" where
  "serializedKey key =
     stringify (JArr [JStr (key_namespace key), JStr (key_collection key), JStr (key_id key)])"

definition compareKeys :: "state_key \<Rightarrow> state_key \<Rightarrow> int" where
  "compareKeys left right =
     or_else (compareText (key_namespace left) (key_namespace right))
       (or_else (compareText (key_collection left) (key_collection right))
         (compareText (key_id left) (key_id right)))"

definition assertStateQuery :: "state_query \<Rightarrow> unit result" where
  "assertStateQuery query =
     (if \<not> isPortableStateString (q_namespace query)
         \<or> \<not> isPortableStateString (q_collection query)
         \<or> (case q_idPrefix query of Some p \<Rightarrow> \<not> isPortableStateString p | None \<Rightarrow> False)
         \<or> (case q_afterId query of Some a \<Rightarrow> \<not> isPortableStateString a | None \<Rightarrow> False)
         \<or> (case q_limit query of
              Some l \<Rightarrow>
                (case integer_value l of
                   Some n \<Rightarrow> \<not> safe_integer n \<or> n \<le> 0 \<or> n > STATE_QUERY_MAX_LIMIT
                 | None \<Rightarrow> True)
            | None \<Rightarrow> False)
      then Inl (Diagnostic ''STATE_QUERY_INVALID'') else Inr ())"

datatype key_operation = QueryKey | WriteKey

definition assertStateKey :: "state_key \<Rightarrow> key_operation \<Rightarrow> unit result" where
  "assertStateKey key operation =
     (if isPortableStateString (key_namespace key) \<and> isPortableStateString (key_collection key)
         \<and> isPortableStateString (key_id key)
      then Inr ()
      else Inl (Diagnostic (case operation of QueryKey \<Rightarrow> ''STATE_QUERY_INVALID''
                                            | WriteKey \<Rightarrow> ''STATE_DATA_INVALID'')))"

definition starts_with :: "jstring \<Rightarrow> jstring \<Rightarrow> bool" where
  "starts_with s p \<longleftrightarrow> take (length p) s = p"

text \<open>The filter, sort and slice that \<open>scan\<close> applies to the records, in the store and in a transaction.\<close>

definition query_matches :: "state_query \<Rightarrow> stored_record \<Rightarrow> bool" where
  "query_matches query r \<longleftrightarrow>
     key_namespace (rec_key r) = q_namespace query \<and>
     key_collection (rec_key r) = q_collection query \<and>
     (case q_idPrefix query of None \<Rightarrow> True | Some p \<Rightarrow> starts_with (key_id (rec_key r)) p) \<and>
     (case q_afterId query of None \<Rightarrow> True | Some a \<Rightarrow> compareText (key_id (rec_key r)) a > 0)"

definition compareRecordIds :: "stored_record \<Rightarrow> stored_record \<Rightarrow> int" where
  "compareRecordIds left right = compareText (key_id (rec_key left)) (key_id (rec_key right))"

definition slice_limit :: "number option \<Rightarrow> 'a list \<Rightarrow> 'a list" where
  "slice_limit limit xs =
     (case limit of
        None \<Rightarrow> xs
      | Some l \<Rightarrow> (case integer_value l of Some n \<Rightarrow> take (nat n) xs | None \<Rightarrow> xs))"

definition scannedRecord :: "stored_record \<Rightarrow> scanned_state" where
  "scannedRecord r =
     \<lparr>scan_key = rec_key r, scan_value = canon (rec_value r), scan_revision = rec_revision r\<rparr>"

definition scan_records :: "state_query \<Rightarrow> stored_record list \<Rightarrow> scanned_state list" where
  "scan_records query records =
     map scannedRecord
       (slice_limit (q_limit query) (sort_by compareRecordIds (filter (query_matches query) records)))"

definition matchesExpectedRevision :: "stored_record option \<Rightarrow> expected_revision \<Rightarrow> bool" where
  "matchesExpectedRevision r expected =
     (case expected of
        AnyRevision \<Rightarrow> True
      | Absent \<Rightarrow> r = None
      | ExactRevision n \<Rightarrow> (case r of None \<Rightarrow> False | Some x \<Rightarrow> rec_revision x = n))"

section \<open>Operations of a transaction\<close>

definition begin_transaction :: "(jstring, stored_record) jsmap \<Rightarrow> memory_transaction" where
  "begin_transaction snapshot =
     \<lparr>tx_snapshot = snapshot, tx_mutations = [], tx_operations = [], tx_operationIds = [],
      tx_outbox = [], tx_active = True\<rparr>"

definition assertActive :: "memory_transaction \<Rightarrow> unit result" where
  "assertActive tx = (if tx_active tx then Inr () else Inl (Diagnostic ''STATE_CLOSED''))"

definition snapshot_revision :: "memory_transaction \<Rightarrow> jstring \<Rightarrow> nat" where
  "snapshot_revision tx identifier =
     (case map_of (tx_snapshot tx) identifier of Some r \<Rightarrow> rec_revision r | None \<Rightarrow> 0)"

definition tx_get :: "memory_transaction \<Rightarrow> state_key \<Rightarrow> versioned option result" where
  "tx_get tx key =
     and_then (assertActive tx) (\<lambda>_.
     and_then (assertStateKey key QueryKey) (\<lambda>_.
       let identifier = serializedKey key
       in Inr
         (case map_of (tx_mutations tx) identifier of
            Some (DeleteMutation _ _) \<Rightarrow> None
          | Some (PutMutation _ v _) \<Rightarrow>
              Some \<lparr>ver_value = canon v, ver_revision = snapshot_revision tx identifier\<rparr>
          | None \<Rightarrow>
              (case map_of (tx_snapshot tx) identifier of
                 None \<Rightarrow> None
               | Some r \<Rightarrow> Some \<lparr>ver_value = canon (rec_value r), ver_revision = rec_revision r\<rparr>))))"

fun overlay_mutation ::
  "memory_transaction \<Rightarrow> jstring \<times> mutation \<Rightarrow> (jstring, stored_record) jsmap \<Rightarrow>
   (jstring, stored_record) jsmap" where
  "overlay_mutation tx (identifier, DeleteMutation _ _) records = AList.delete identifier records"
| "overlay_mutation tx (identifier, PutMutation k v _) records =
     AList.update identifier
       \<lparr>rec_key = k, rec_value = v, rec_revision = snapshot_revision tx identifier\<rparr> records"

definition tx_scan :: "memory_transaction \<Rightarrow> state_query \<Rightarrow> scanned_state list result" where
  "tx_scan tx query =
     and_then (assertActive tx) (\<lambda>_.
     and_then (assertStateQuery query) (\<lambda>_.
       Inr (scan_records query
         (map snd (fold (overlay_mutation tx) (tx_mutations tx) (tx_snapshot tx))))))"

definition tx_put ::
  "memory_transaction \<Rightarrow> state_key \<Rightarrow> json \<Rightarrow> expected_revision \<Rightarrow> memory_transaction result" where
  "tx_put tx key value expected =
     and_then (assertActive tx) (\<lambda>_.
     and_then (assertStateKey key WriteKey) (\<lambda>_.
       Inr (tx\<lparr>tx_mutations :=
         AList.update (serializedKey key) (PutMutation key (canon value) expected) (tx_mutations tx)\<rparr>)))"

definition tx_delete ::
  "memory_transaction \<Rightarrow> state_key \<Rightarrow> expected_revision \<Rightarrow> memory_transaction result" where
  "tx_delete tx key expected =
     and_then (assertActive tx) (\<lambda>_.
     and_then (assertStateKey key WriteKey) (\<lambda>_.
       Inr (tx\<lparr>tx_mutations :=
         AList.update (serializedKey key) (DeleteMutation key expected) (tx_mutations tx)\<rparr>)))"

definition tx_appendOperation :: "memory_transaction \<Rightarrow> operation_entry \<Rightarrow> memory_transaction result" where
  "tx_appendOperation tx entry =
     and_then (assertActive tx) (\<lambda>_.
       if op_id entry \<in> set (tx_operationIds tx) then Inl (Diagnostic ''STATE_DATA_INVALID'')
       else Inr (tx\<lparr>tx_operationIds := tx_operationIds tx @ [op_id entry],
                    tx_operations := tx_operations tx @ [entry\<lparr>op_state := canon (op_state entry)\<rparr>]\<rparr>))"

definition tx_enqueueOutbox :: "memory_transaction \<Rightarrow> outbox_message \<Rightarrow> memory_transaction result" where
  "tx_enqueueOutbox tx message =
     and_then (assertActive tx) (\<lambda>_.
       Inr (tx\<lparr>tx_outbox :=
         tx_outbox tx @ [message\<lparr>msg_payload := canon (msg_payload message)\<rparr>]\<rparr>))"

definition tx_finish :: "memory_transaction \<Rightarrow> (memory_transaction \<times> staged_transaction) result" where
  "tx_finish tx =
     and_then (assertActive tx) (\<lambda>_.
       Inr (tx\<lparr>tx_active := False\<rparr>,
            \<lparr>st_mutations = sort_by (\<lambda>l r. compareKeys (mut_key l) (mut_key r)) (map snd (tx_mutations tx)),
             st_operations = tx_operations tx, st_outbox = tx_outbox tx\<rparr>))"

definition tx_abort :: "memory_transaction \<Rightarrow> memory_transaction" where
  "tx_abort tx = tx\<lparr>tx_active := False\<rparr>"

section \<open>Lemmas\<close>

lemma serializedKey_text:
  "serializedKey key =
     91 # quoted (key_namespace key) @ 44 # quoted (key_collection key) @ 44 # quoted (key_id key) @ [93]"
  by (simp add: serializedKey_def)

lemma serializedKey_eq: "serializedKey k = serializedKey l \<longleftrightarrow> k = l"
proof
  assume "serializedKey k = serializedKey l"
  then have "key_namespace k = key_namespace l" "key_collection k = key_collection l" "key_id k = key_id l"
    by (simp_all add: serializedKey_text quoted_prefix_inj quoted_inj)
  then show "k = l" by simp
qed simp

text \<open>
  Different state keys have different map identifiers, whatever characters their parts contain.
\<close>

theorem serializedKey_injective: "serializedKey k = serializedKey l \<longleftrightarrow> k = l"
  by (rule serializedKey_eq)

interpretation key_cmp: total_comparator compareKeys
  unfolding compareKeys_def
  by (rule text_then, rule text_then) (auto intro: total_comparator_text)

interpretation record_id_cmp: total_comparator compareRecordIds
  unfolding compareRecordIds_def by (rule total_comparator_text)

lemma snapshot_unchanged:
  "tx_put tx k v e = Inr tx' \<Longrightarrow> tx_snapshot tx' = tx_snapshot tx"
  "tx_delete tx k e = Inr tx' \<Longrightarrow> tx_snapshot tx' = tx_snapshot tx"
  "tx_appendOperation tx entry = Inr tx' \<Longrightarrow> tx_snapshot tx' = tx_snapshot tx"
  "tx_enqueueOutbox tx m = Inr tx' \<Longrightarrow> tx_snapshot tx' = tx_snapshot tx"
  by (auto simp: tx_put_def tx_delete_def tx_appendOperation_def tx_enqueueOutbox_def split: if_splits)

text \<open>Staged mutations are filed under the identifier of their key, one per key.\<close>

definition tx_ok :: "memory_transaction \<Rightarrow> bool" where
  "tx_ok tx \<longleftrightarrow>
     map_ok (tx_mutations tx) \<and>
     (\<forall>(i, m) \<in> set (tx_mutations tx). i = serializedKey (mut_key m)) \<and>
     distinct (map op_id (tx_operations tx)) \<and>
     set (map op_id (tx_operations tx)) = set (tx_operationIds tx)"

lemma set_update_alist: "set (AList.update k v m) \<subseteq> insert (k, v) (set m)"
  by (induction m) auto

lemma tx_ok_begin: "tx_ok (begin_transaction snapshot)"
  by (simp add: tx_ok_def begin_transaction_def)

lemma tx_ok_stage:
  "tx_ok tx \<Longrightarrow> i = serializedKey (mut_key m) \<Longrightarrow>
   tx_ok (tx\<lparr>tx_mutations := AList.update i m (tx_mutations tx)\<rparr>)"
  using set_update_alist [of i m "tx_mutations tx"] by (auto simp: tx_ok_def)

lemma tx_ok_operations:
  assumes "tx_ok tx"
  shows "tx_put tx k v e = Inr tx' \<Longrightarrow> tx_ok tx'"
    and "tx_delete tx k e = Inr tx' \<Longrightarrow> tx_ok tx'"
    and "tx_appendOperation tx entry = Inr tx' \<Longrightarrow> tx_ok tx'"
    and "tx_enqueueOutbox tx m = Inr tx' \<Longrightarrow> tx_ok tx'"
    and "tx_ok (tx_abort tx)"
proof -
  show "tx_put tx k v e = Inr tx' \<Longrightarrow> tx_ok tx'"
    using assms by (auto simp: tx_put_def intro: tx_ok_stage)
  show "tx_delete tx k e = Inr tx' \<Longrightarrow> tx_ok tx'"
    using assms by (auto simp: tx_delete_def intro: tx_ok_stage)
  show "tx_appendOperation tx entry = Inr tx' \<Longrightarrow> tx_ok tx'"
    using assms by (auto simp: tx_appendOperation_def tx_ok_def split: if_splits) (metis imageI)
  show "tx_enqueueOutbox tx m = Inr tx' \<Longrightarrow> tx_ok tx'" "tx_ok (tx_abort tx)"
    using assms by (auto simp: tx_enqueueOutbox_def tx_abort_def tx_ok_def)
qed

text \<open>
  A transaction reads its own writes: after a staged put, \<open>get\<close> of that key returns the value
  (normalised) with the revision of the snapshot, 0 if the key was absent there; after a staged delete it
  returns nothing; every other key reads as before.
\<close>

theorem transaction_reads_own_writes:
  assumes "tx_put tx k v e = Inr tx1" and "tx_delete tx k e' = Inr tx2"
  shows "tx_get tx1 k' =
      (if k' = k
       then Inr (Some \<lparr>ver_value = canon v, ver_revision = snapshot_revision tx (serializedKey k)\<rparr>)
       else tx_get tx k') \<and>
    tx_get tx2 k' = (if k' = k then Inr None else tx_get tx k')"
proof -
  from assms have active: "tx_active tx" and key: "assertStateKey k QueryKey = Inr ()"
    and tx1: "tx1 = tx\<lparr>tx_mutations :=
      AList.update (serializedKey k) (PutMutation k (canon v) e) (tx_mutations tx)\<rparr>"
    and tx2: "tx2 = tx\<lparr>tx_mutations :=
      AList.update (serializedKey k) (DeleteMutation k e') (tx_mutations tx)\<rparr>"
    by (auto simp: tx_put_def tx_delete_def assertActive_def assertStateKey_def split: if_splits)
  have other: "tx_get (tx\<lparr>tx_mutations := AList.update (serializedKey k) m (tx_mutations tx)\<rparr>) k' = tx_get tx k'"
    if "k' \<noteq> k" for m
    using that active
    by (cases "assertStateKey k' QueryKey")
      (auto simp: tx_get_def map_lookups serializedKey_eq assertActive_def Let_def snapshot_revision_def
        split: option.splits mutation.splits)
  show ?thesis
    using active key other
    by (auto simp: tx_get_def tx1 tx2 map_lookups assertActive_def canon_idem Let_def snapshot_revision_def)
qed

theorem transaction_reads_own_writes_witness:
  "tx_get (begin_transaction []\<lparr>tx_mutations :=
      [(serializedKey \<lparr>key_namespace = [116], key_collection = [99], key_id = [97]\<rparr>,
        PutMutation \<lparr>key_namespace = [116], key_collection = [99], key_id = [97]\<rparr> (JInt 7) Absent)]\<rparr>)
      \<lparr>key_namespace = [116], key_collection = [99], key_id = [97]\<rparr>
    = Inr (Some \<lparr>ver_value = JInt 7, ver_revision = 0\<rparr>)"
proof -
  let ?k = "\<lparr>key_namespace = [116], key_collection = [99], key_id = [97]\<rparr> :: state_key"
  have p: "tx_put (begin_transaction []) ?k (JInt 7) Absent =
      Inr (begin_transaction []\<lparr>tx_mutations := [(serializedKey ?k, PutMutation ?k (JInt 7) Absent)]\<rparr>)"
    by (simp add: tx_put_def begin_transaction_def assertActive_def assertStateKey_def)
  have d: "tx_delete (begin_transaction []) ?k AnyRevision =
      Inr (begin_transaction []\<lparr>tx_mutations := [(serializedKey ?k, DeleteMutation ?k AnyRevision)]\<rparr>)"
    by (simp add: tx_delete_def begin_transaction_def assertActive_def assertStateKey_def)
  show ?thesis
    using transaction_reads_own_writes [OF p d, of ?k]
    by (simp add: snapshot_revision_def begin_transaction_def)
qed

end
