(* ===== verification/Memory_State_Store.thy ===== *)
theory Memory_State_Store
  imports Memory_Transaction
begin

text \<open>
  The in-memory state store (class \<open>MemoryStateStore\<close> of
  \<open>packages/drivers-local/src/memory-state-store.ts\<close>). The injected clock is the argument \<open>now\<close> (its
  time value) of the operations that read it. An asynchronous transaction is split where the source
  awaits: \<open>transact_begin\<close> (the synchronous part, up to the snapshot), the caller's work on the
  \<open>memory_transaction\<close>, and \<open>transact_end\<close> (the queued commit), so other commits may come in between.
\<close>

section \<open>State\<close>

record idempotency_record =
  idem_fingerprint :: jstring
  idem_result :: json

record stored_outbox =
  so_message :: outbox_message
  so_enqueueSequence :: nat
  so_attempt :: nat
  so_claim :: "outbox_claim option"
  so_acknowledgement :: "acknowledgement option"
  so_acknowledgedClaim :: "outbox_claim option"

text \<open>
  A watch iterator: its queue, the pending \<open>next\<close> calls (each named by a number) in order, and whether
  it is closed. What it has answered is kept too: \<open>it_answers\<close> lists the answers in order, with the
  call they went to (\<open>None\<close> is \<open>done\<close>), and \<open>it_cursor\<close> is the revision the watch reports from: its
  cursor, or the revision of the store when the cursor lies beyond it (the source pushes every later
  change without looking at the cursor again).
\<close>

record watch_iterator =
  it_cursor :: nat
  it_queue :: "state_change list"
  it_waiters :: "nat list"
  it_answers :: "(nat \<times> state_change option) list"
  it_closed :: bool

datatype store_lifecycle = StoreClosed | StoreCreated | StoreOpen

record memory_store =
  ms_records :: "(jstring, stored_record) jsmap"
  ms_operations :: "(jstring, persisted_operation) jsmap"
  ms_operationHistory :: "persisted_operation list"
  ms_outbox :: "(jstring, stored_outbox) jsmap"
  ms_outboxSequence :: nat
  ms_fences :: "(jstring, nat) jsmap"
  ms_changes :: "state_change list"
  ms_watchers :: "(nat, watch_iterator) jsmap"
  ms_idempotency :: "(jstring, idempotency_record) jsmap"
  ms_inFlight :: "(jstring, jstring) jsmap"
  ms_revision :: nat
  ms_lifecycle :: store_lifecycle

definition new_store :: memory_store where
  "new_store =
     \<lparr>ms_records = [], ms_operations = [], ms_operationHistory = [], ms_outbox = [],
      ms_outboxSequence = 0, ms_fences = [], ms_changes = [], ms_watchers = [], ms_idempotency = [],
      ms_inFlight = [], ms_revision = 0, ms_lifecycle = StoreCreated\<rparr>"

section \<open>Watch iterators\<close>

definition new_watch_iterator :: "nat \<Rightarrow> state_change list \<Rightarrow> watch_iterator" where
  "new_watch_iterator cursor changes =
     \<lparr>it_cursor = cursor, it_queue = changes, it_waiters = [], it_answers = [], it_closed = False\<rparr>"

definition answer :: "nat \<Rightarrow> state_change option \<Rightarrow> watch_iterator \<Rightarrow> watch_iterator" where
  "answer caller result it = it\<lparr>it_answers := it_answers it @ [(caller, result)]\<rparr>"

definition watch_next :: "nat \<Rightarrow> watch_iterator \<Rightarrow> watch_iterator" where
  "watch_next caller it =
     (case it_queue it of
        change # rest \<Rightarrow> answer caller (Some change) (it\<lparr>it_queue := rest\<rparr>)
      | [] \<Rightarrow>
          if it_closed it then answer caller None it
          else it\<lparr>it_waiters := it_waiters it @ [caller]\<rparr>)"

definition watch_push :: "state_change \<Rightarrow> watch_iterator \<Rightarrow> watch_iterator" where
  "watch_push change it =
     (if it_closed it then it
      else case it_waiters it of
        [] \<Rightarrow> it\<lparr>it_queue := it_queue it @ [change]\<rparr>
      | w # ws \<Rightarrow> answer w (Some change) (it\<lparr>it_waiters := ws\<rparr>))"

definition watch_close :: "watch_iterator \<Rightarrow> watch_iterator" where
  "watch_close it =
     (if it_closed it then it
      else fold (\<lambda>w. answer w None) (it_waiters it)
             (it\<lparr>it_closed := True, it_queue := [], it_waiters := []\<rparr>))"

section \<open>Guards\<close>

definition assertOpen :: "memory_store \<Rightarrow> unit result" where
  "assertOpen store =
     (if ms_lifecycle store \<noteq> StoreOpen then Inl (Diagnostic ''STATE_CLOSED'') else Inr ())"

definition open_store :: "memory_store \<Rightarrow> memory_store result" where
  "open_store store =
     (if ms_lifecycle store = StoreClosed then Inl (Diagnostic ''STATE_CLOSED'')
      else Inr (store\<lparr>ms_lifecycle := StoreOpen\<rparr>))"

definition assertFence :: "memory_store \<Rightarrow> fencing option \<Rightarrow> bool result" where
  "assertFence store fencing =
     (case fencing of
        None \<Rightarrow> Inr False
      | Some f \<Rightarrow>
          (case map_of (ms_fences store) (fence_resource f) of
             None \<Rightarrow> Inr True
           | Some current \<Rightarrow>
               if fence_epoch f < current then Inl (Diagnostic ''STATE_FENCE_STALE'')
               else Inr (fence_epoch f > current)))"

definition advanceFence :: "fencing option \<Rightarrow> memory_store \<Rightarrow> memory_store" where
  "advanceFence fencing store =
     (case fencing of
        None \<Rightarrow> store
      | Some f \<Rightarrow> store\<lparr>ms_fences := AList.update (fence_resource f) (fence_epoch f) (ms_fences store)\<rparr>)"

record idempotency_identity =
  ident_key :: jstring
  ident_fingerprint :: jstring

definition idempotencyIdentity :: "transaction_options \<Rightarrow> idempotency_identity option result" where
  "idempotencyIdentity options =
     (case (opt_idempotencyKey options, opt_idempotencyFingerprint options) of
        (None, None) \<Rightarrow> Inr None
      | (Some k, Some f) \<Rightarrow>
          if k = [] \<or> f = [] then Inl (Diagnostic ''STATE_IDEMPOTENCY_CONFLICT'')
          else Inr (Some \<lparr>ident_key = k, ident_fingerprint = f\<rparr>)
      | _ \<Rightarrow> Inl (Diagnostic ''STATE_IDEMPOTENCY_CONFLICT''))"

definition assertIdempotencyFingerprint :: "idempotency_identity \<Rightarrow> jstring \<Rightarrow> unit result" where
  "assertIdempotencyFingerprint identity committed =
     (if ident_fingerprint identity \<noteq> committed
      then Inl (Diagnostic ''STATE_IDEMPOTENCY_CONFLICT'') else Inr ())"

text \<open>The patterns \<open>^[A-Za-z0-9][A-Za-z0-9._-]*$\<close> and, with at most 128 characters, that of owners.\<close>

definition topic_pattern :: "jstring \<Rightarrow> bool" where
  "topic_pattern s \<longleftrightarrow> s \<noteq> [] \<and> is_alnum (hd s) \<and> list_all identity_char (tl s)"

definition assertOutboxMessage :: "outbox_message \<Rightarrow> unit result" where
  "assertOutboxMessage m =
     (if length (msg_topic m) > OUTBOX_TOPIC_MAX_LENGTH
         \<or> \<not> topic_pattern (msg_topic m)
         \<or> utf8_length (stringify (msg_payload m)) > OUTBOX_PAYLOAD_MAX_BYTES
      then Inl (Diagnostic ''STATE_DATA_INVALID'') else Inr ())"

definition sameOutboxMessage :: "outbox_message \<Rightarrow> outbox_message \<Rightarrow> bool" where
  "sameOutboxMessage left right \<longleftrightarrow>
     msg_messageId left = msg_messageId right \<and>
     msg_operationId left = msg_operationId right \<and>
     msg_topic left = msg_topic right \<and>
     stringify (canon (msg_payload left)) = stringify (canon (msg_payload right))"

section \<open>Commit\<close>

fun check_mutations ::
  "mutation list \<Rightarrow> (jstring, stored_record) jsmap \<Rightarrow> mutation list \<Rightarrow>
   ((jstring, stored_record) jsmap \<times> mutation list) result" where
  "check_mutations [] nextRecords applied = Inr (nextRecords, applied)"
| "check_mutations (m # ms) nextRecords applied =
     (let identifier = serializedKey (mut_key m); current = map_of nextRecords identifier
      in if \<not> matchesExpectedRevision current (mut_expected m)
         then Inl (Diagnostic ''STATE_REVISION_CONFLICT'')
         else case m of
           DeleteMutation _ _ \<Rightarrow>
             if current \<noteq> None
             then check_mutations ms (AList.delete identifier nextRecords) (applied @ [m])
             else check_mutations ms nextRecords applied
         | PutMutation _ _ _ \<Rightarrow> check_mutations ms nextRecords (applied @ [m]))"

fun collect_outbox ::
  "(jstring, stored_outbox) jsmap \<Rightarrow> outbox_message list \<Rightarrow> (jstring, outbox_message) jsmap \<Rightarrow>
   (jstring, outbox_message) jsmap result" where
  "collect_outbox outbox [] new = Inr new"
| "collect_outbox outbox (m # ms) new =
     and_then (assertOutboxMessage m) (\<lambda>_.
       if \<not> validTimestamp (msg_createdAt m) \<or> \<not> validTimestamp (msg_availableAt m)
       then Inl (Diagnostic ''STATE_DATA_INVALID'')
       else case map_of new (msg_messageId m) of
         Some staged \<Rightarrow>
           if \<not> sameOutboxMessage staged m then Inl (Diagnostic ''STATE_IDEMPOTENCY_CONFLICT'')
           else collect_outbox outbox ms new
       | None \<Rightarrow>
           (case map_of outbox (msg_messageId m) of
              None \<Rightarrow> collect_outbox outbox ms (AList.update (msg_messageId m) m new)
            | Some existing \<Rightarrow>
                if (case so_acknowledgement existing of
                      Some a \<Rightarrow> ack_outcome a = AckRetry | None \<Rightarrow> False)
                then collect_outbox outbox ms (AList.update (msg_messageId m) m new)
                else if \<not> sameOutboxMessage (so_message existing) m
                then Inl (Diagnostic ''STATE_IDEMPOTENCY_CONFLICT'')
                else collect_outbox outbox ms new))"

fun store_put ::
  "nat \<Rightarrow> mutation \<Rightarrow> (jstring, stored_record) jsmap \<Rightarrow> (jstring, stored_record) jsmap" where
  "store_put revision (PutMutation k v _) records =
     AList.update (serializedKey k) \<lparr>rec_key = k, rec_value = canon v, rec_revision = revision\<rparr> records"
| "store_put revision (DeleteMutation _ _) records = records"

fun change_of :: "nat \<Rightarrow> mutation \<Rightarrow> state_change" where
  "change_of revision (PutMutation k v _) =
     \<lparr>ch_revision = revision, ch_key = k, ch_kind = PutChange (canon v)\<rparr>"
| "change_of revision (DeleteMutation k _) =
     \<lparr>ch_revision = revision, ch_key = k, ch_kind = DeleteChange\<rparr>"

definition append_operation :: "nat \<Rightarrow> operation_entry \<Rightarrow> memory_store \<Rightarrow> memory_store" where
  "append_operation revision entry store =
     (let persisted = operation_entry.extend entry \<lparr>op_revision = revision\<rparr>
      in store\<lparr>ms_operationHistory := ms_operationHistory store @ [persisted],
               ms_operations := AList.update (op_id entry) persisted (ms_operations store)\<rparr>)"

definition append_outbox :: "outbox_message \<Rightarrow> memory_store \<Rightarrow> memory_store" where
  "append_outbox m store =
     (let n = ms_outboxSequence store + 1
      in store\<lparr>ms_outboxSequence := n,
               ms_outbox := AList.update (msg_messageId m)
                 \<lparr>so_message = m\<lparr>msg_payload := canon (msg_payload m)\<rparr>, so_enqueueSequence = n,
                  so_attempt = 0, so_claim = None, so_acknowledgement = None,
                  so_acknowledgedClaim = None\<rparr> (ms_outbox store)\<rparr>)"

definition publish_change :: "state_change \<Rightarrow> memory_store \<Rightarrow> memory_store" where
  "publish_change change store =
     store\<lparr>ms_changes := ms_changes store @ [change],
           ms_watchers := map (map_prod id (watch_push change)) (ms_watchers store)\<rparr>"

definition commit ::
  "memory_store \<Rightarrow> transaction_options \<Rightarrow> idempotency_identity option \<Rightarrow> staged_transaction \<Rightarrow> json \<Rightarrow>
   (memory_store \<times> json) result" where
  "commit store options identity staged result =
     and_then (assertOpen store) (\<lambda>_.
     and_then (check_mutations (st_mutations staged) (ms_records store) []) (\<lambda>(nextRecords, applied).
     and_then (collect_outbox (ms_outbox store) (st_outbox staged) []) (\<lambda>newOutboxById.
     and_then (assertFence store (opt_fencing options)) (\<lambda>advancesFence.
       let newOutbox = map snd newOutboxById;
           mutates = (applied \<noteq> [] \<or> st_operations staged \<noteq> [] \<or> newOutbox \<noteq> [] \<or> advancesFence);
           revision = ms_revision store + 1;
           store1 = (if mutates then
             (let s1 = store\<lparr>ms_records := fold (store_put revision) applied nextRecords\<rparr>;
                  s2 = fold (append_operation revision) (st_operations staged) s1;
                  s3 = fold append_outbox newOutbox s2;
                  s4 = (if advancesFence then advanceFence (opt_fencing options) s3 else s3);
                  s5 = s4\<lparr>ms_revision := revision\<rparr>
              in fold publish_change (map (change_of revision) applied) s5)
             else store);
           store2 = (case identity of
               None \<Rightarrow> store1
             | Some i \<Rightarrow>
                 store1\<lparr>ms_idempotency := AList.update (ident_key i)
                   \<lparr>idem_fingerprint = ident_fingerprint i, idem_result = canon result\<rparr>
                   (ms_idempotency store1)\<rparr>)
       in Inr (store2, canon result)))))"

section \<open>Transactions\<close>

datatype transaction_start =
    Replayed json
  | AwaitInFlight jstring
  | Started "idempotency_identity option" memory_transaction

definition transact_begin ::
  "memory_store \<Rightarrow> transaction_options \<Rightarrow> (memory_store \<times> transaction_start) result" where
  "transact_begin store options =
     and_then (assertOpen store) (\<lambda>_.
     and_then (idempotencyIdentity options) (\<lambda>identity.
       case identity of
         None \<Rightarrow> Inr (store, Started None (begin_transaction (ms_records store)))
       | Some i \<Rightarrow>
           (case map_of (ms_idempotency store) (ident_key i) of
              Some replay \<Rightarrow>
                and_then (assertIdempotencyFingerprint i (idem_fingerprint replay)) (\<lambda>_.
                  Inr (store, Replayed (canon (idem_result replay))))
            | None \<Rightarrow>
                (case map_of (ms_inFlight store) (ident_key i) of
                   Some fingerprint \<Rightarrow>
                     and_then (assertIdempotencyFingerprint i fingerprint) (\<lambda>_.
                       Inr (store, AwaitInFlight (ident_key i)))
                 | None \<Rightarrow>
                     Inr (store\<lparr>ms_inFlight :=
                            AList.update (ident_key i) (ident_fingerprint i) (ms_inFlight store)\<rparr>,
                          Started identity (begin_transaction (ms_records store)))))))"

definition clear_inFlight :: "idempotency_identity option \<Rightarrow> memory_store \<Rightarrow> memory_store" where
  "clear_inFlight identity store =
     (case identity of
        None \<Rightarrow> store
      | Some i \<Rightarrow> store\<lparr>ms_inFlight := AList.delete (ident_key i) (ms_inFlight store)\<rparr>)"

text \<open>
  The end of a started transaction. When the caller's work throws, the transaction is aborted; when it
  returns, \<open>finish\<close> yields the staged transaction, whose commit is queued and runs later. Either way the
  promise of the caller, and of every call that awaits the same identity, is settled and the in-flight
  entry removed.
\<close>

definition transact_throw :: "memory_store \<Rightarrow> idempotency_identity option \<Rightarrow> memory_store" where
  "transact_throw store identity = clear_inFlight identity store"

definition transact_return ::
  "memory_transaction \<Rightarrow> json \<Rightarrow> (staged_transaction \<times> json) result" where
  "transact_return tx result = and_then (tx_finish tx) (\<lambda>(_, staged). Inr (staged, canon result))"

definition transact_commit ::
  "memory_store \<Rightarrow> transaction_options \<Rightarrow> idempotency_identity option \<Rightarrow> staged_transaction \<Rightarrow> json \<Rightarrow>
   memory_store \<times> json result" where
  "transact_commit store options identity staged result =
     (case commit store options identity staged result of
        Inl e \<Rightarrow> (clear_inFlight identity store, Inl e)
      | Inr (store', r) \<Rightarrow> (clear_inFlight identity store', Inr (canon r)))"

section \<open>Reads\<close>

definition read_store :: "memory_store \<Rightarrow> state_key \<Rightarrow> versioned option result" where
  "read_store store key =
     and_then (assertOpen store) (\<lambda>_.
     and_then (assertStateKey key QueryKey) (\<lambda>_.
       Inr (map_option (\<lambda>r. \<lparr>ver_value = canon (rec_value r), ver_revision = rec_revision r\<rparr>)
              (map_of (ms_records store) (serializedKey key)))))"

definition scan_store :: "memory_store \<Rightarrow> state_query \<Rightarrow> scanned_state list result" where
  "scan_store store query =
     and_then (assertOpen store) (\<lambda>_.
     and_then (assertStateQuery query) (\<lambda>_. Inr (scan_records query (map snd (ms_records store)))))"

definition assertOperationQuery :: "journal_query \<Rightarrow> unit result" where
  "assertOperationQuery query =
     (case jq_limit query of
        None \<Rightarrow> Inr ()
      | Some l \<Rightarrow>
          (case integer_value l of
             Some n \<Rightarrow> if \<not> safe_integer n \<or> n \<le> 0 then Inl (Diagnostic ''STATE_QUERY_INVALID'') else Inr ()
           | None \<Rightarrow> Inl (Diagnostic ''STATE_QUERY_INVALID'')))"

definition entry_cursor :: "persisted_operation \<Rightarrow> journal_cursor" where
  "entry_cursor e = \<lparr>cur_revision = op_revision e, cur_operationId = op_id e\<rparr>"

definition after_cursor :: "journal_query \<Rightarrow> persisted_operation \<Rightarrow> bool" where
  "after_cursor query e =
     (case jq_after query of
        None \<Rightarrow> True | Some c \<Rightarrow> compareOperationJournalCursors (entry_cursor e) c > 0)"

definition compareEntries :: "persisted_operation \<Rightarrow> persisted_operation \<Rightarrow> int" where
  "compareEntries l r = compareOperationJournalCursors (entry_cursor l) (entry_cursor r)"

definition recoverable :: "persisted_operation \<Rightarrow> bool" where
  "recoverable e \<longleftrightarrow> op_status e = OpExecuting \<or> op_status e = OpPlanned"

definition scanOperationJournal ::
  "memory_store \<Rightarrow> journal_query \<Rightarrow> bool \<Rightarrow> persisted_operation list result" where
  "scanOperationJournal store query recoverableOnly =
     and_then (assertOpen store) (\<lambda>_.
     and_then (assertOperationQuery query) (\<lambda>_.
       Inr (slice_limit (jq_limit query)
         (sort_by compareEntries
           (filter (\<lambda>e. (\<not> recoverableOnly \<or> recoverable e) \<and> after_cursor query e)
             (map snd (ms_operations store)))))))"

definition scanOperationHistory ::
  "memory_store \<Rightarrow> journal_query \<Rightarrow> persisted_operation list result" where
  "scanOperationHistory store query =
     and_then (assertOpen store) (\<lambda>_.
     and_then (assertOperationQuery query) (\<lambda>_.
       Inr (slice_limit (jq_limit query)
         (sort_by compareEntries (filter (after_cursor query) (ms_operationHistory store))))))"

definition watch_store :: "memory_store \<Rightarrow> nat \<Rightarrow> nat \<Rightarrow> memory_store result" where
  "watch_store store watcher cursor =
     and_then (assertOpen store) (\<lambda>_.
       Inr (store\<lparr>ms_watchers := AList.update watcher
         (new_watch_iterator (min cursor (ms_revision store)) (filter (\<lambda>c. ch_revision c > cursor) (ms_changes store)))
         (ms_watchers store)\<rparr>))"

text \<open>
  \<open>ms_watchers\<close> keeps every iterator the store has handed out. The source takes an iterator out of
  its set of watchers exactly when the iterator closes, and \<open>push\<close> and \<open>close\<close> do nothing on a closed
  one, so the members of that set are the iterators here that are not closed.
\<close>

definition update_watcher ::
  "nat \<Rightarrow> (watch_iterator \<Rightarrow> watch_iterator) \<Rightarrow> memory_store \<Rightarrow> memory_store" where
  "update_watcher watcher f store =
     store\<lparr>ms_watchers := map (\<lambda>(w, it). (w, if w = watcher then f it else it)) (ms_watchers store)\<rparr>"

definition watch_return :: "memory_store \<Rightarrow> nat \<Rightarrow> memory_store" where
  "watch_return store watcher = update_watcher watcher watch_close store"

definition watch_next_store :: "memory_store \<Rightarrow> nat \<Rightarrow> nat \<Rightarrow> memory_store" where
  "watch_next_store store watcher caller = update_watcher watcher (watch_next caller) store"

definition close_store :: "memory_store \<Rightarrow> memory_store" where
  "close_store store =
     (if ms_lifecycle store = StoreClosed then store
      else store\<lparr>ms_lifecycle := StoreClosed,
                 ms_watchers := map (map_prod id watch_close) (ms_watchers store)\<rparr>)"

section \<open>The outbox\<close>

definition compareOutbox :: "stored_outbox \<Rightarrow> stored_outbox \<Rightarrow> int" where
  "compareOutbox l r =
     or_else (compareText (msg_availableAt (so_message l)) (msg_availableAt (so_message r)))
       (or_else (compareText (so_enqueueSequence l) (so_enqueueSequence r))
         (compareText (msg_messageId (so_message l)) (msg_messageId (so_message r))))"

definition assertOutboxClaimRequest :: "claim_request \<Rightarrow> nat result" where
  "assertOutboxClaimRequest request =
     (if \<not> IDENTITY_PATTERN (cr_owner request)
         \<or> (case cr_topic request of Some t \<Rightarrow> \<not> IDENTITY_PATTERN t | None \<Rightarrow> False)
         \<or> (case integer_value (cr_leaseDurationMs request) of
              Some n \<Rightarrow> \<not> safe_integer n \<or> n \<le> 0 \<or> n > 86400000 | None \<Rightarrow> True)
         \<or> (case cr_limit request of
              Some l \<Rightarrow> (case integer_value l of
                           Some n \<Rightarrow> \<not> safe_integer n \<or> n \<le> 0 \<or> n > 100 | None \<Rightarrow> True)
            | None \<Rightarrow> False)
      then Inl (Diagnostic ''STATE_QUERY_INVALID'')
      else Inr (case cr_limit request of
                  None \<Rightarrow> 1
                | Some l \<Rightarrow> (case integer_value l of Some n \<Rightarrow> nat n | None \<Rightarrow> 1)))"

text \<open>\<open>Date.parse(text) > now\<close>, false when the text is not a date (NaN).\<close>

definition later_than :: "jstring \<Rightarrow> int \<Rightarrow> bool" where
  "later_than s now = (case parse_iso s of Some t \<Rightarrow> t > now | None \<Rightarrow> False)"

definition skip_outbox :: "claim_request \<Rightarrow> int \<Rightarrow> stored_outbox \<Rightarrow> bool" where
  "skip_outbox request now r \<longleftrightarrow>
     (case so_acknowledgement r of Some a \<Rightarrow> ack_outcome a = AckCompleted | None \<Rightarrow> False) \<or>
     (case cr_topic request of Some t \<Rightarrow> msg_topic (so_message r) \<noteq> t | None \<Rightarrow> False) \<or>
     later_than (msg_availableAt (so_message r)) now \<or>
     (case so_claim r of Some c \<Rightarrow> later_than (cl_expiresAt c) now | None \<Rightarrow> False)"

definition lease_ms :: "claim_request \<Rightarrow> int" where
  "lease_ms request = (case integer_value (cr_leaseDurationMs request) of Some n \<Rightarrow> n | None \<Rightarrow> 0)"

definition make_claim :: "claim_request \<Rightarrow> int \<Rightarrow> jstring \<Rightarrow> stored_outbox \<Rightarrow> outbox_claim result" where
  "make_claim request now claimedAt r =
     (if \<not> safe_integer (int (so_attempt r + 1)) then Inl (Diagnostic ''STATE_DATA_INVALID'')
      else and_then (toISOString (now + lease_ms request)) (\<lambda>expiresAt.
        Inr \<lparr>cl_message = (so_message r)\<lparr>msg_payload := canon (msg_payload (so_message r))\<rparr>,
             cl_owner = cr_owner request, cl_claimEpoch = so_attempt r + 1,
             cl_attempt = so_attempt r + 1, cl_claimedAt = claimedAt, cl_expiresAt = expiresAt\<rparr>))"

definition apply_claim :: "outbox_claim \<Rightarrow> stored_outbox \<Rightarrow> stored_outbox" where
  "apply_claim c r =
     r\<lparr>so_attempt := cl_attempt c, so_claim := Some c, so_acknowledgement := None,
       so_acknowledgedClaim := None\<rparr>"

text \<open>
  The loop over the sorted records; it changes the records as it goes, so an error leaves the claims
  made before it in place.
\<close>

fun claim_loop ::
  "claim_request \<Rightarrow> int \<Rightarrow> jstring \<Rightarrow> nat \<Rightarrow> (jstring \<times> stored_outbox) list \<Rightarrow>
   (jstring, stored_outbox) jsmap \<Rightarrow> outbox_claim list \<Rightarrow>
   (jstring, stored_outbox) jsmap \<times> outbox_claim list result" where
  "claim_loop request now claimedAt limit [] outbox claimed = (outbox, Inr claimed)"
| "claim_loop request now claimedAt limit ((i, r) # rest) outbox claimed =
     (if skip_outbox request now r then claim_loop request now claimedAt limit rest outbox claimed
      else case make_claim request now claimedAt r of
        Inl e \<Rightarrow> (outbox, Inl e)
      | Inr c \<Rightarrow>
          (let outbox' = AList.update i (apply_claim c r) outbox; claimed' = claimed @ [c]
           in if length claimed' = limit then (outbox', Inr claimed')
              else claim_loop request now claimedAt limit rest outbox' claimed'))"

definition compareOutboxEntries :: "jstring \<times> stored_outbox \<Rightarrow> jstring \<times> stored_outbox \<Rightarrow> int" where
  "compareOutboxEntries l r = compareOutbox (snd l) (snd r)"

definition claimOutbox ::
  "memory_store \<Rightarrow> int \<Rightarrow> claim_request \<Rightarrow> memory_store \<times> outbox_claim list result" where
  "claimOutbox store now request =
     (case and_then (assertOpen store) (\<lambda>_.
           and_then (assertOutboxClaimRequest request) (\<lambda>limit.
           and_then (assertFence store (cr_fencing request)) (\<lambda>advancesFence.
           and_then (toISOString now) (\<lambda>claimedAt. Inr (limit, advancesFence, claimedAt))))) of
        Inl e \<Rightarrow> (store, Inl e)
      | Inr (limit, advancesFence, claimedAt) \<Rightarrow>
          (case claim_loop request now claimedAt limit
                  (sort_by compareOutboxEntries (ms_outbox store)) (ms_outbox store) [] of
             (outbox, Inl e) \<Rightarrow> (store\<lparr>ms_outbox := outbox\<rparr>, Inl e)
           | (outbox, Inr claimed) \<Rightarrow>
               (let store1 = store\<lparr>ms_outbox := outbox\<rparr>
                in (if claimed \<noteq> [] \<or> advancesFence
                    then advanceFence (cr_fencing request) (store1\<lparr>ms_revision := ms_revision store + 1\<rparr>)
                    else store1, Inr claimed))))"

definition assertOutboxAcknowledgementRequest :: "ack_request \<Rightarrow> unit result" where
  "assertOutboxAcknowledgementRequest request =
     (if \<not> IDENTITY_PATTERN (ar_owner request)
         \<or> (ar_outcome request = AckRetry \<and>
            (case ar_retryAt request of None \<Rightarrow> True | Some t \<Rightarrow> \<not> validTimestamp t))
         \<or> (ar_outcome request = AckCompleted \<and> ar_retryAt request \<noteq> None)
      then Inl (Diagnostic ''STATE_QUERY_INVALID'') else Inr ())"

definition claim_matches :: "ack_request \<Rightarrow> outbox_claim option \<Rightarrow> bool" where
  "claim_matches request c =
     (case c of
        None \<Rightarrow> False
      | Some x \<Rightarrow> cl_owner x = ar_owner request \<and> cl_claimEpoch x = ar_claimEpoch request)"

definition apply_acknowledgement :: "ack_request \<Rightarrow> acknowledgement \<Rightarrow> stored_outbox \<Rightarrow> stored_outbox" where
  "apply_acknowledgement request a r =
     (let r' = r\<lparr>so_acknowledgement := Some a, so_acknowledgedClaim := so_claim r, so_claim := None\<rparr>
      in case (ar_outcome request, ar_retryAt request) of
           (AckRetry, Some t) \<Rightarrow> r'\<lparr>so_message := (so_message r)\<lparr>msg_availableAt := t\<rparr>\<rparr>
         | _ \<Rightarrow> r')"

definition acknowledge_claim ::
  "memory_store \<Rightarrow> int \<Rightarrow> ack_request \<Rightarrow> bool \<Rightarrow> stored_outbox \<Rightarrow> (memory_store \<times> acknowledgement) result" where
  "acknowledge_claim store now request advancesFence r =
     (case so_claim r of
        None \<Rightarrow> Inl (Diagnostic ''STATE_FENCE_STALE'')
      | Some c \<Rightarrow>
          if cl_owner c \<noteq> ar_owner request \<or> cl_claimEpoch c \<noteq> ar_claimEpoch request
          then Inl (Diagnostic ''STATE_FENCE_STALE'')
          else and_then (toISOString now) (\<lambda>acknowledgedAt.
            let a = \<lparr>ack_messageId = ar_messageId request, ack_outcome = ar_outcome request,
                     ack_attempt = cl_attempt c, ack_acknowledgedAt = acknowledgedAt,
                     ack_duplicate = False, ack_retryAt = ar_retryAt request\<rparr>;
                store1 = store\<lparr>ms_outbox := AList.update (ar_messageId request)
                                 (apply_acknowledgement request a r) (ms_outbox store),
                               ms_revision := ms_revision store + 1\<rparr>
            in Inr (if advancesFence then advanceFence (ar_fencing request) store1 else store1, a)))"

definition acknowledgeOutbox ::
  "memory_store \<Rightarrow> int \<Rightarrow> ack_request \<Rightarrow> (memory_store \<times> acknowledgement) result" where
  "acknowledgeOutbox store now request =
     and_then (assertOpen store) (\<lambda>_.
     and_then (assertOutboxAcknowledgementRequest request) (\<lambda>_.
     and_then (assertFence store (ar_fencing request)) (\<lambda>advancesFence.
       case map_of (ms_outbox store) (ar_messageId request) of
         None \<Rightarrow> Inl (Diagnostic ''STATE_QUERY_INVALID'')
       | Some r \<Rightarrow>
           (case so_acknowledgement r of
              Some a \<Rightarrow>
                if claim_matches request (so_acknowledgedClaim r) then
                  if ack_outcome a \<noteq> ar_outcome request \<or> ack_retryAt a \<noteq> ar_retryAt request
                  then Inl (Diagnostic ''STATE_IDEMPOTENCY_CONFLICT'')
                  else Inr (if advancesFence
                            then advanceFence (ar_fencing request)
                                   (store\<lparr>ms_revision := ms_revision store + 1\<rparr>)
                            else store,
                            a\<lparr>ack_duplicate := True\<rparr>)
                else acknowledge_claim store now request advancesFence r
            | None \<Rightarrow> acknowledge_claim store now request advancesFence r))))"

end
