(* ===== verification/Store_Commit.thy ===== *)
theory Store_Commit
  imports Memory_State_Store
begin

text \<open>
  What \<open>#commit\<close> of \<open>packages/drivers-local/src/memory-state-store.ts\<close> does to the records: the
  compare-and-set check of every staged mutation, the refinement of the record map to a plain map from
  keys to values and revisions, and the errors. The invariant \<open>store_ok\<close> of the store and the relation
  \<open>evolves\<close> between an earlier and a later store, which every operation keeps, are at the end.
\<close>

section \<open>Mutations\<close>

abbreviation mut_id :: "mutation \<Rightarrow> jstring" where
  "mut_id m \<equiv> serializedKey (mut_key m)"

definition mutation_for :: "mutation list \<Rightarrow> jstring \<Rightarrow> mutation option" where
  "mutation_for ms = map_of (map (\<lambda>m. (mut_id m, m)) ms)"

definition effective :: "(jstring, stored_record) jsmap \<Rightarrow> mutation \<Rightarrow> bool" where
  "effective records m \<longleftrightarrow>
     (case m of PutMutation _ _ _ \<Rightarrow> True | DeleteMutation _ _ \<Rightarrow> map_of records (mut_id m) \<noteq> None)"

lemma mutation_for_simps [simp]:
  "mutation_for [] i = None"
  "mutation_for (m # ms) i = (if i = mut_id m then Some m else mutation_for ms i)"
  by (simp_all add: mutation_for_def)

lemma mutation_for_None:
  "mut_id m \<notin> mut_id ` set ms \<Longrightarrow> mutation_for ms (mut_id m) = None"
  by (auto simp: mutation_for_def map_of_eq_None_iff)

lemma mutation_for_SomeD: "mutation_for ms i = Some m \<Longrightarrow> m \<in> set ms \<and> mut_id m = i"
  by (auto simp: mutation_for_def dest!: map_of_SomeD)

lemma mutation_for_mem:
  "distinct (map mut_id ms) \<Longrightarrow> m \<in> set ms \<Longrightarrow> mutation_for ms (mut_id m) = Some m"
  by (induction ms) (auto simp: image_iff)

lemma check_mutations_error:
  "check_mutations ms records applied = Inl e \<Longrightarrow> e = Diagnostic ''STATE_REVISION_CONFLICT''"
proof (induction ms arbitrary: records applied)
  case (Cons m ms)
  then show ?case by (cases m) (auto simp: Let_def split: if_splits)
qed simp

lemma check_mutations_Inr:
  assumes "distinct (map mut_id ms)" and "check_mutations ms records applied = Inr (next, done')"
  shows "map_of next i =
           (case mutation_for ms i of Some (DeleteMutation _ _) \<Rightarrow> None | _ \<Rightarrow> map_of records i)"
    and "done' = applied @ filter (effective records) ms"
    and "\<forall>m \<in> set ms. matchesExpectedRevision (map_of records (mut_id m)) (mut_expected m)"
proof -
  have "(\<forall>i. map_of next i =
           (case mutation_for ms i of Some (DeleteMutation _ _) \<Rightarrow> None | _ \<Rightarrow> map_of records i)) \<and>
        done' = applied @ filter (effective records) ms \<and>
        (\<forall>m \<in> set ms. matchesExpectedRevision (map_of records (mut_id m)) (mut_expected m))"
    using assms
  proof (induction ms records applied rule: check_mutations.induct)
    case (1 records applied)
    then show ?case by simp
  next
    case (2 m ms records applied)
    from "2.prems"(1) have dist: "distinct (map mut_id ms)" and new: "mut_id m \<notin> mut_id ` set ms"
      by simp_all
    note fresh = mutation_for_None [OF new]
    from "2.prems"(2) have match: "matchesExpectedRevision (map_of records (mut_id m)) (mut_expected m)"
      by (auto simp: Let_def split: if_splits)
    have other: "effective (AList.delete (mut_id m) records) n = effective records n"
      "map_of (AList.delete (mut_id m) records) (mut_id n) = map_of records (mut_id n)"
      if "n \<in> set ms" for n
    proof -
      from that new have "mut_id n \<noteq> mut_id m" by (metis imageI)
      then show "effective (AList.delete (mut_id m) records) n = effective records n"
        "map_of (AList.delete (mut_id m) records) (mut_id n) = map_of records (mut_id n)"
        by (auto simp: effective_def map_lookups split: mutation.splits)
    qed
    show ?case
    proof (cases m)
      case (PutMutation k v e)
      with "2.prems"(2) match have "check_mutations ms records (applied @ [m]) = Inr (next, done')"
        by (simp add: Let_def)
      with "2.IH"(1) [OF refl refl _ PutMutation] match dist fresh PutMutation show ?thesis
        by (auto simp: effective_def split: option.splits)
    next
      case (DeleteMutation k e)
      show ?thesis
      proof (cases "map_of records (mut_id m)")
        case None
        with "2.prems"(2) match DeleteMutation
        have "check_mutations ms records applied = Inr (next, done')" by (simp add: Let_def)
        with "2.IH"(3) [OF refl refl _ DeleteMutation] None match dist fresh DeleteMutation show ?thesis
          by (auto simp: effective_def split: option.splits)
      next
        case (Some r)
        with "2.prems"(2) match DeleteMutation
        have "check_mutations ms (AList.delete (mut_id m) records) (applied @ [m]) = Inr (next, done')"
          by (simp add: Let_def)
        with "2.IH"(2) [OF refl refl _ DeleteMutation] Some match dist fresh DeleteMutation other
        show ?thesis
          by (auto simp: effective_def map_lookups split: option.splits mutation.splits cong: filter_cong)
      qed
    qed
  qed
  then show "map_of next i =
           (case mutation_for ms i of Some (DeleteMutation _ _) \<Rightarrow> None | _ \<Rightarrow> map_of records i)"
    and "done' = applied @ filter (effective records) ms"
    and "\<forall>m \<in> set ms. matchesExpectedRevision (map_of records (mut_id m)) (mut_expected m)"
    by blast+
qed

lemma check_mutations_total:
  assumes "distinct (map mut_id ms)"
    and "\<forall>m \<in> set ms. matchesExpectedRevision (map_of records (mut_id m)) (mut_expected m)"
  shows "\<exists>next. check_mutations ms records applied = Inr next"
  using assms
proof (induction ms records applied rule: check_mutations.induct)
  case (1 records applied)
  then show ?case by simp
next
  case (2 m ms records applied)
  from "2.prems"(1) have dist: "distinct (map mut_id ms)" and new: "mut_id m \<notin> mut_id ` set ms"
    by simp_all
  have other: "map_of (AList.delete (mut_id m) records) (mut_id n) = map_of records (mut_id n)"
    if "n \<in> set ms" for n
    using that new by (metis imageI map_lookups(2) fun_upd_other)
  from 2(1-3) [OF refl refl] "2.prems"(2) dist other show ?case
    by (cases m) (auto simp: Let_def)
qed

lemma fold_store_put:
  "distinct (map mut_id ms) \<Longrightarrow>
   map_of (fold (store_put revision) ms records) i =
     (case mutation_for ms i of
        Some (PutMutation k v _) \<Rightarrow> Some \<lparr>rec_key = k, rec_value = canon v, rec_revision = revision\<rparr>
      | _ \<Rightarrow> map_of records i)"
proof (induction ms arbitrary: records)
  case Nil
  then show ?case by simp
next
  case (Cons m ms)
  then have "mutation_for ms (mut_id m) = None" by (simp add: mutation_for_None)
  with Cons show ?case
    by (cases m) (auto simp: map_lookups split: option.splits mutation.splits)
qed

lemma fold_store_put_effective:
  "fold (store_put revision) (filter (effective records) ms) = fold (store_put revision) ms"
proof (induction ms)
  case Nil
  then show ?case by simp
next
  case (Cons m ms)
  have "store_put revision m = id" if "\<not> effective records m"
    using that by (cases m) (auto simp: effective_def)
  with Cons show ?case by simp
qed

text \<open>The records after a successful check and the puts, for staged mutations with distinct keys.\<close>

lemma committed_lookup:
  assumes "distinct (map mut_id ms)" and "check_mutations ms records [] = Inr (next, done')"
  shows "map_of (fold (store_put revision) done' next) i =
     (case mutation_for ms i of
        None \<Rightarrow> map_of records i
      | Some (PutMutation k v _) \<Rightarrow> Some \<lparr>rec_key = k, rec_value = canon v, rec_revision = revision\<rparr>
      | Some (DeleteMutation _ _) \<Rightarrow> None)"
  using check_mutations_Inr [OF assms] assms(1)
  by (simp add: fold_store_put_effective fold_store_put split: option.splits mutation.splits)

section \<open>The store after a commit\<close>

definition persist :: "nat \<Rightarrow> operation_entry \<Rightarrow> persisted_operation" where
  "persist revision entry = operation_entry.extend entry \<lparr>op_revision = revision\<rparr>"

lemma persist_simps [simp]:
  "op_id (persist n e) = op_id e" "op_kind (persist n e) = op_kind e"
  "op_status (persist n e) = op_status e" "op_state (persist n e) = op_state e"
  "op_revision (persist n e) = n"
  by (simp_all add: persist_def operation_entry.defs)

lemma fold_append_operation:
  "fold (append_operation revision) ops s =
     s\<lparr>ms_operationHistory := ms_operationHistory s @ map (persist revision) ops,
       ms_operations := fold (\<lambda>e. AList.update (op_id e) (persist revision e)) ops (ms_operations s)\<rparr>"
  by (induction ops arbitrary: s) (simp_all add: append_operation_def persist_def Let_def)

definition outbox_entry :: "outbox_message \<Rightarrow> nat \<Rightarrow> stored_outbox" where
  "outbox_entry m n =
     \<lparr>so_message = m\<lparr>msg_payload := canon (msg_payload m)\<rparr>, so_enqueueSequence = n, so_attempt = 0,
      so_claim = None, so_acknowledgement = None, so_acknowledgedClaim = None\<rparr>"

fun enqueue_all :: "nat \<Rightarrow> outbox_message list \<Rightarrow> (jstring, stored_outbox) jsmap \<Rightarrow> (jstring, stored_outbox) jsmap" where
  "enqueue_all n [] outbox = outbox"
| "enqueue_all n (m # ms) outbox =
     enqueue_all (Suc n) ms (AList.update (msg_messageId m) (outbox_entry m (Suc n)) outbox)"

lemma fold_append_outbox:
  "fold append_outbox ms s =
     s\<lparr>ms_outboxSequence := ms_outboxSequence s + length ms,
       ms_outbox := enqueue_all (ms_outboxSequence s) ms (ms_outbox s)\<rparr>"
  by (induction ms arbitrary: s) (simp_all add: append_outbox_def outbox_entry_def Let_def)

lemma fold_publish_change:
  "fold publish_change cs s =
     s\<lparr>ms_changes := ms_changes s @ cs,
       ms_watchers := map (map_prod id (fold watch_push cs)) (ms_watchers s)\<rparr>"
  by (induction cs arbitrary: s)
    (simp_all add: publish_change_def comp_def prod.map_comp map_prod_def case_prod_unfold id_def)

definition commit_mutates :: "mutation list \<Rightarrow> staged_transaction \<Rightarrow> (jstring, outbox_message) jsmap \<Rightarrow> bool \<Rightarrow> bool" where
  "commit_mutates applied staged newOutbox advancesFence \<longleftrightarrow>
     applied \<noteq> [] \<or> st_operations staged \<noteq> [] \<or> newOutbox \<noteq> [] \<or> advancesFence"

text \<open>The store a successful commit leaves, with every changed field written out.\<close>

definition committed ::
  "memory_store \<Rightarrow> transaction_options \<Rightarrow> staged_transaction \<Rightarrow> (jstring, stored_record) jsmap \<Rightarrow>
   mutation list \<Rightarrow> (jstring, outbox_message) jsmap \<Rightarrow> bool \<Rightarrow> memory_store" where
  "committed store options staged next applied newOutbox advances =
     (if commit_mutates applied staged newOutbox advances
      then let revision = ms_revision store + 1; changes = map (change_of revision) applied
        in store\<lparr>
          ms_records := fold (store_put revision) applied next,
          ms_operations := fold (\<lambda>e. AList.update (op_id e) (persist revision e)) (st_operations staged)
                             (ms_operations store),
          ms_operationHistory := ms_operationHistory store @ map (persist revision) (st_operations staged),
          ms_outbox := enqueue_all (ms_outboxSequence store) (map snd newOutbox) (ms_outbox store),
          ms_outboxSequence := ms_outboxSequence store + length newOutbox,
          ms_fences := (if advances then ms_fences (advanceFence (opt_fencing options) store)
                        else ms_fences store),
          ms_changes := ms_changes store @ changes,
          ms_watchers := map (map_prod id (fold watch_push changes)) (ms_watchers store),
          ms_revision := revision\<rparr>
      else store)"

definition remember ::
  "idempotency_identity option \<Rightarrow> json \<Rightarrow> memory_store \<Rightarrow> memory_store" where
  "remember identity result store =
     (case identity of
        None \<Rightarrow> store
      | Some i \<Rightarrow> store\<lparr>ms_idempotency := AList.update (ident_key i)
                    \<lparr>idem_fingerprint = ident_fingerprint i, idem_result = canon result\<rparr>
                    (ms_idempotency store)\<rparr>)"

lemma commit_pipeline:
  "(let s1 = store\<lparr>ms_records := recs\<rparr>;
        s2 = fold (append_operation revision) ops s1;
        s3 = fold append_outbox ms s2;
        s4 = (if advances then advanceFence f s3 else s3);
        s5 = s4\<lparr>ms_revision := revision\<rparr>
    in fold publish_change cs s5) =
   store\<lparr>ms_records := recs,
      ms_operations := fold (\<lambda>e. AList.update (op_id e) (persist revision e)) ops (ms_operations store),
      ms_operationHistory := ms_operationHistory store @ map (persist revision) ops,
      ms_outbox := enqueue_all (ms_outboxSequence store) ms (ms_outbox store),
      ms_outboxSequence := ms_outboxSequence store + length ms,
      ms_fences := (if advances then ms_fences (advanceFence f store) else ms_fences store),
      ms_changes := ms_changes store @ cs,
      ms_watchers := map (map_prod id (fold watch_push cs)) (ms_watchers store),
      ms_revision := revision\<rparr>"
  by (rule memory_store.equality)
    (simp_all add: Let_def fold_append_operation fold_append_outbox fold_publish_change advanceFence_def
      split: option.split)

lemma commit_eq:
  "commit store options identity staged result =
     and_then (assertOpen store) (\<lambda>_.
     and_then (check_mutations (st_mutations staged) (ms_records store) []) (\<lambda>(next, applied).
     and_then (collect_outbox (ms_outbox store) (st_outbox staged) []) (\<lambda>newOutbox.
     and_then (assertFence store (opt_fencing options)) (\<lambda>advances.
       Inr (remember identity result (committed store options staged next applied newOutbox advances),
            canon result)))))"
  unfolding commit_def commit_pipeline committed_def remember_def commit_mutates_def
  by (cases identity) (simp_all add: Let_def cong: if_cong)

lemma commit_InrE:
  assumes "commit store options identity staged result = Inr (store', r)"
  obtains "next" applied newOutbox advances where
    "ms_lifecycle store = StoreOpen"
    "check_mutations (st_mutations staged) (ms_records store) [] = Inr (next, applied)"
    "collect_outbox (ms_outbox store) (st_outbox staged) [] = Inr newOutbox"
    "assertFence store (opt_fencing options) = Inr advances"
    "store' = remember identity result (committed store options staged next applied newOutbox advances)"
    "r = canon result"
  using assms by (auto simp: commit_eq assertOpen_def split: if_splits)

lemma remember_fields [simp]:
  "ms_records (remember i r s) = ms_records s"
  "ms_operations (remember i r s) = ms_operations s"
  "ms_operationHistory (remember i r s) = ms_operationHistory s"
  "ms_outbox (remember i r s) = ms_outbox s"
  "ms_outboxSequence (remember i r s) = ms_outboxSequence s"
  "ms_fences (remember i r s) = ms_fences s"
  "ms_changes (remember i r s) = ms_changes s"
  "ms_watchers (remember i r s) = ms_watchers s"
  "ms_inFlight (remember i r s) = ms_inFlight s"
  "ms_revision (remember i r s) = ms_revision s"
  "ms_lifecycle (remember i r s) = ms_lifecycle s"
  by (simp_all add: remember_def split: option.split)

end
