(* ===== verification/Store_Records.thy ===== *)
theory Store_Records
  imports Store_Commit
begin

text \<open>
  The records of the in-memory store against an abstract specification: a map from state keys to a
  value and the revision that wrote it, changed by a compare-and-set of all staged mutations at once.
\<close>

type_synonym record_map = "state_key \<Rightarrow> (json \<times> nat) option"

definition abs_records :: "memory_store \<Rightarrow> record_map" where
  "abs_records store k =
     map_option (\<lambda>r. (rec_value r, rec_revision r)) (map_of (ms_records store) (serializedKey k))"

definition spec_expected :: "(json \<times> nat) option \<Rightarrow> expected_revision \<Rightarrow> bool" where
  "spec_expected current expected =
     (case expected of
        AnyRevision \<Rightarrow> True
      | Absent \<Rightarrow> current = None
      | ExactRevision n \<Rightarrow> map_option snd current = Some n)"

fun spec_mutation :: "nat \<Rightarrow> mutation \<Rightarrow> record_map \<Rightarrow> record_map" where
  "spec_mutation revision (PutMutation k v _) M = M(k \<mapsto> (canon v, revision))"
| "spec_mutation revision (DeleteMutation k _) M = M(k := None)"

definition spec_commit :: "nat \<Rightarrow> mutation list \<Rightarrow> record_map \<Rightarrow> record_map option" where
  "spec_commit revision ms M =
     (if \<forall>m \<in> set ms. spec_expected (M (mut_key m)) (mut_expected m)
      then Some (fold (spec_mutation revision) ms M) else None)"

lemma spec_expected_abs:
  "spec_expected (abs_records store k) e =
     matchesExpectedRevision (map_of (ms_records store) (serializedKey k)) e"
  by (auto simp: spec_expected_def matchesExpectedRevision_def abs_records_def
      split: expected_revision.splits option.splits)

lemma fold_spec_mutation:
  "distinct (map mut_key ms) \<Longrightarrow>
   fold (spec_mutation revision) ms M k =
     (case mutation_for ms (serializedKey k) of
        None \<Rightarrow> M k
      | Some (PutMutation _ v _) \<Rightarrow> Some (canon v, revision)
      | Some (DeleteMutation _ _) \<Rightarrow> None)"
proof (induction ms arbitrary: M)
  case Nil
  then show ?case by simp
next
  case (Cons m ms)
  then have "mutation_for ms (mut_id m) = None"
    by (intro mutation_for_None) (auto simp: serializedKey_eq)
  with Cons show ?case
    by (cases m) (auto simp: serializedKey_eq split: option.splits mutation.splits)
qed

lemma distinct_mut_id: "distinct (map mut_key ms) \<longleftrightarrow> distinct (map mut_id ms)"
  by (induction ms) (auto simp: serializedKey_eq)

text \<open>What \<open>finish\<close> hands to the commit has one mutation per key and one entry per operation.\<close>

definition staged_ok :: "staged_transaction \<Rightarrow> bool" where
  "staged_ok staged \<longleftrightarrow>
     distinct (map mut_key (st_mutations staged)) \<and> distinct (map op_id (st_operations staged))"

lemma tx_ok_distinct_keys:
  assumes "tx_ok tx"
  shows "distinct (map (\<lambda>m. mut_key (snd m)) (tx_mutations tx))"
proof -
  have "map mut_id (map snd (tx_mutations tx)) = map fst (tx_mutations tx)"
    using assms by (auto simp: tx_ok_def)
  moreover have "distinct (map fst (tx_mutations tx))" using assms by (simp add: tx_ok_def map_ok_def)
  ultimately have "distinct (map mut_id (map snd (tx_mutations tx)))" by (simp only:)
  then show ?thesis using distinct_mut_id [of "map snd (tx_mutations tx)"] by (simp add: comp_def)
qed

lemma tx_finish_staged_ok:
  assumes "tx_ok tx" and "tx_finish tx = Inr (tx', staged)"
  shows "staged_ok staged"
proof -
  have staged: "st_mutations staged =
      sort_by (\<lambda>l r. compareKeys (mut_key l) (mut_key r)) (map snd (tx_mutations tx))"
    "st_operations staged = tx_operations tx"
    using assms(2) by (auto simp: tx_finish_def assertActive_def split: if_splits)
  have "mset (map mut_key (st_mutations staged)) = mset (map (\<lambda>m. mut_key (snd m)) (tx_mutations tx))"
    by (simp add: staged mset_map [symmetric] del: mset_map) (simp add: multiset.map_comp comp_def)
  then have "distinct (map mut_key (st_mutations staged))"
    using tx_ok_distinct_keys [OF assms(1)] mset_eq_imp_distinct_iff by blast
  then show ?thesis using assms(1) by (simp add: staged_ok_def staged tx_ok_def)
qed

lemma committed_records:
  assumes "staged_ok staged" and "check_mutations (st_mutations staged) (ms_records store) [] = Inr (next, applied)"
  shows "map_of (ms_records (committed store options staged next applied newOutbox advances)) i =
     (case mutation_for (st_mutations staged) i of
        None \<Rightarrow> map_of (ms_records store) i
      | Some (PutMutation k v _) \<Rightarrow>
          Some \<lparr>rec_key = k, rec_value = canon v, rec_revision = ms_revision store + 1\<rparr>
      | Some (DeleteMutation _ _) \<Rightarrow> None)"
proof (cases "commit_mutates applied staged newOutbox advances")
  case True
  then show ?thesis
    using committed_lookup [OF _ assms(2)] assms(1)
    by (simp add: committed_def Let_def staged_ok_def distinct_mut_id split: option.split mutation.split)
next
  case False
  have dist: "distinct (map mut_id (st_mutations staged))"
    using assms(1) by (simp add: staged_ok_def distinct_mut_id)
  have none: "applied = []" using False by (simp add: commit_mutates_def)
  have idle: "\<not> effective (ms_records store) m" if "m \<in> set (st_mutations staged)" for m
    using that none check_mutations_Inr(2) [OF dist assms(2)] by (auto simp: filter_empty_conv)
  have same: "committed store options staged next applied newOutbox advances = store"
    using False by (simp add: committed_def)
  show ?thesis
  proof (cases "mutation_for (st_mutations staged) i")
    case (Some m)
    then have "\<not> effective (ms_records store) m" "mut_id m = i"
      using idle by (auto dest: mutation_for_SomeD)
    then show ?thesis unfolding same using Some by (cases m) (auto simp: effective_def)
  qed (simp add: same)
qed

lemma commit_conflict:
  assumes "staged_ok staged" and "ms_lifecycle store = StoreOpen"
    and "spec_commit revision (st_mutations staged) (abs_records store) = None"
  shows "commit store options identity staged result = Inl (Diagnostic ''STATE_REVISION_CONFLICT'')"
proof -
  from assms(3) obtain m where "m \<in> set (st_mutations staged)"
    "\<not> matchesExpectedRevision (map_of (ms_records store) (mut_id m)) (mut_expected m)"
    by (auto simp: spec_commit_def spec_expected_abs split: if_splits)
  then have "\<nexists>y. check_mutations (st_mutations staged) (ms_records store) [] = Inr y"
    using check_mutations_Inr(3) [of "st_mutations staged" "ms_records store" "[]"] assms(1)
    by (auto simp: staged_ok_def distinct_mut_id)
  then obtain e where "check_mutations (st_mutations staged) (ms_records store) [] = Inl e"
    by (cases "check_mutations (st_mutations staged) (ms_records store) []") auto
  with check_mutations_error [OF this] assms(2) show ?thesis
    by (simp add: commit_eq assertOpen_def)
qed

lemma commit_records:
  assumes "staged_ok staged" and "commit store options identity staged result = Inr (store', r)"
  shows "spec_commit (ms_revision store + 1) (st_mutations staged) (abs_records store)
      = Some (abs_records store')"
proof -
  from assms(2) obtain "next" applied newOutbox advances where c:
    "check_mutations (st_mutations staged) (ms_records store) [] = Inr (next, applied)"
    and s': "store' = remember identity result (committed store options staged next applied newOutbox advances)"
    by (rule commit_InrE)
  have dist: "distinct (map mut_id (st_mutations staged))"
    using assms(1) by (simp add: staged_ok_def distinct_mut_id)
  have "fold (spec_mutation (ms_revision store + 1)) (st_mutations staged) (abs_records store) k
      = abs_records store' k" for k
    using assms(1) committed_records [OF assms(1) c]
    by (auto simp: fold_spec_mutation staged_ok_def s' abs_records_def split: option.splits mutation.splits)
  then show ?thesis
    using check_mutations_Inr(3) [OF dist c] by (auto simp: spec_commit_def spec_expected_abs)
qed

lemma collect_outbox_error:
  "collect_outbox outbox ms new = Inl e \<Longrightarrow>
   e = Diagnostic ''STATE_DATA_INVALID'' \<or> e = Diagnostic ''STATE_IDEMPOTENCY_CONFLICT''"
proof (induction ms arbitrary: new)
  case (Cons m ms)
  then show ?case
    by (auto simp: assertOutboxMessage_def split: if_splits option.splits)
qed simp

lemma assertFence_error: "assertFence store f = Inl e \<Longrightarrow> e = Diagnostic ''STATE_FENCE_STALE''"
  by (auto simp: assertFence_def split: option.splits if_splits)

lemma commit_other_error:
  assumes "staged_ok staged" and "ms_lifecycle store = StoreOpen"
    and "spec_commit revision (st_mutations staged) (abs_records store) = Some M"
    and "commit store options identity staged result = Inl e"
  shows "e \<noteq> Diagnostic ''STATE_REVISION_CONFLICT''"
proof -
  have "\<exists>y. check_mutations (st_mutations staged) (ms_records store) [] = Inr y"
    using assms(1,3) by (intro check_mutations_total)
      (auto simp: staged_ok_def distinct_mut_id spec_commit_def spec_expected_abs split: if_splits)
  with assms(2,4) show ?thesis
    by (auto simp: commit_eq assertOpen_def and_then_def dest!: collect_outbox_error assertFence_error
        split: sum.splits)
qed

text \<open>
  C2. A commit implements the abstract compare-and-set: on an open store, for the transaction a
  \<open>MemoryTransaction\<close> has staged, a commit fails with \<open>STATE_REVISION_CONFLICT\<close> as soon as one expected
  revision does not match the abstract map; when it succeeds every expected revision matched, and the
  records are the old map with all staged puts (at the next revision) and deletes applied and no other
  key changed.
\<close>

theorem commit_refines_compare_and_set:
  assumes "tx_ok tx" and "tx_finish tx = Inr (tx', staged)" and "ms_lifecycle store = StoreOpen"
  shows "case spec_commit (ms_revision store + 1) (st_mutations staged) (abs_records store) of
      None \<Rightarrow> commit store options identity staged result = Inl (Diagnostic ''STATE_REVISION_CONFLICT'')
    | Some M \<Rightarrow>
        (case commit store options identity staged result of
           Inr (store', r) \<Rightarrow> abs_records store' = M \<and> r = canon result
         | Inl e \<Rightarrow> e \<noteq> Diagnostic ''STATE_REVISION_CONFLICT'')"
proof -
  note ok = tx_finish_staged_ok [OF assms(1,2)]
  show ?thesis
  proof (cases "spec_commit (ms_revision store + 1) (st_mutations staged) (abs_records store)")
    case None
    then show ?thesis using commit_conflict [OF ok assms(3)] by simp
  next
    case (Some M)
    show ?thesis
    proof (cases "commit store options identity staged result")
      case (Inl e)
      then show ?thesis using commit_other_error [OF ok assms(3) Some] Some by auto
    next
      case (Inr p)
      then obtain store' r where c: "commit store options identity staged result = Inr (store', r)"
        by (cases p) auto
      then have "r = canon result" by (auto elim: commit_InrE)
      then show ?thesis using commit_records [OF ok c] Some c by simp
    qed
  qed
qed

theorem commit_refines_compare_and_set_witness:
  "let k = \<lparr>key_namespace = [116], key_collection = [99], key_id = [97]\<rparr>;
       m = PutMutation k (JInt 7) Absent
   in \<exists>store'. commit (new_store\<lparr>ms_lifecycle := StoreOpen\<rparr>)
        \<lparr>opt_fencing = None, opt_idempotencyKey = None, opt_idempotencyFingerprint = None\<rparr> None
        \<lparr>st_mutations = [m], st_operations = [], st_outbox = []\<rparr> (JInt 1) = Inr (store', JInt 1) \<and>
      abs_records store' k = Some (JInt 7, 1)"
proof -
  let ?k = "\<lparr>key_namespace = [116], key_collection = [99], key_id = [97]\<rparr> :: state_key"
  let ?m = "PutMutation ?k (JInt 7) Absent"
  let ?tx = "begin_transaction []\<lparr>tx_mutations := [(serializedKey ?k, ?m)]\<rparr>"
  let ?staged = "\<lparr>st_mutations = [?m], st_operations = [], st_outbox = []\<rparr>"
  let ?store = "new_store\<lparr>ms_lifecycle := StoreOpen\<rparr>"
  let ?options = "\<lparr>opt_fencing = None, opt_idempotencyKey = None, opt_idempotencyFingerprint = None\<rparr>"
  have "tx_ok ?tx" by (simp add: tx_ok_def begin_transaction_def map_ok_def)
  moreover have "tx_finish ?tx = Inr (?tx\<lparr>tx_active := False\<rparr>, ?staged)"
    by (simp add: tx_finish_def begin_transaction_def assertActive_def)
  moreover have "ms_lifecycle ?store = StoreOpen" by simp
  moreover have "spec_commit (ms_revision ?store + 1) [?m] (abs_records ?store) =
      Some ((abs_records ?store)(?k \<mapsto> (JInt 7, 1)))"
    by (simp add: spec_commit_def spec_expected_def abs_records_def new_store_def)
  moreover have "\<exists>store'. commit ?store ?options None ?staged (JInt 1) = Inr (store', JInt 1)"
    by (simp add: commit_eq assertOpen_def matchesExpectedRevision_def new_store_def assertFence_def)
  ultimately show ?thesis
    using commit_refines_compare_and_set [of ?tx _ ?staged ?store ?options None "JInt 1"]
    by auto
qed

end
