(* ===== verification/Store_Invariants.thy ===== *)
theory Store_Invariants
  imports Store_Records
begin

text \<open>
  The invariant \<open>store_ok\<close> of the in-memory store and its preservation by every operation. It is the
  conjunction of one invariant per part of the state: records, journal, outbox, change log, watches and
  idempotency records.
\<close>

section \<open>The parts of the invariant\<close>

definition records_ok :: "(jstring, stored_record) jsmap \<Rightarrow> nat \<Rightarrow> bool" where
  "records_ok records revision \<longleftrightarrow>
     map_ok records \<and>
     (\<forall>(i, r) \<in> set records.
        i = serializedKey (rec_key r) \<and> canon (rec_value r) = rec_value r \<and>
        0 < rec_revision r \<and> rec_revision r \<le> revision)"

definition journal_ok ::
  "(jstring, persisted_operation) jsmap \<Rightarrow> persisted_operation list \<Rightarrow> nat \<Rightarrow> bool" where
  "journal_ok operations history revision \<longleftrightarrow>
     map_ok operations \<and> sorted (map op_revision history) \<and>
     (\<forall>e \<in> set history. 0 < op_revision e \<and> op_revision e \<le> revision) \<and>
     (\<forall>(i, e) \<in> set operations. i = op_id e \<and> e \<in> set history)"

definition claim_ok :: "nat \<Rightarrow> outbox_claim option \<Rightarrow> bool" where
  "claim_ok attempt c =
     (case c of None \<Rightarrow> True | Some x \<Rightarrow> cl_claimEpoch x = attempt \<and> cl_attempt x = attempt \<and> 0 < attempt)"

definition outbox_entry_ok :: "nat \<Rightarrow> jstring \<times> stored_outbox \<Rightarrow> bool" where
  "outbox_entry_ok sequence = (\<lambda>(i, r).
     i = msg_messageId (so_message r) \<and> so_enqueueSequence r \<le> sequence \<and>
     (so_claim r = None \<or> so_acknowledgement r = None) \<and>
     (so_acknowledgement r = None \<longleftrightarrow> so_acknowledgedClaim r = None) \<and>
     claim_ok (so_attempt r) (so_claim r) \<and> claim_ok (so_attempt r) (so_acknowledgedClaim r))"

definition outbox_ok :: "(jstring, stored_outbox) jsmap \<Rightarrow> nat \<Rightarrow> bool" where
  "outbox_ok outbox sequence \<longleftrightarrow>
     map_ok outbox \<and> distinct (map (\<lambda>(i, r). so_enqueueSequence r) outbox) \<and>
     (\<forall>e \<in> set outbox. outbox_entry_ok sequence e)"

definition changes_ok :: "state_change list \<Rightarrow> nat \<Rightarrow> bool" where
  "changes_ok changes revision \<longleftrightarrow>
     sorted (map ch_revision changes) \<and> (\<forall>c \<in> set changes. 0 < ch_revision c \<and> ch_revision c \<le> revision)"

definition delivered :: "watch_iterator \<Rightarrow> state_change list" where
  "delivered it = List.map_filter snd (it_answers it)"

definition watched :: "state_change list \<Rightarrow> watch_iterator \<Rightarrow> state_change list" where
  "watched changes it = filter (\<lambda>c. it_cursor it < ch_revision c) changes"

definition watcher_ok :: "state_change list \<Rightarrow> nat \<Rightarrow> watch_iterator \<Rightarrow> bool" where
  "watcher_ok changes revision it \<longleftrightarrow>
     it_cursor it \<le> revision \<and>
     (if it_closed it
      then it_queue it = [] \<and> it_waiters it = [] \<and>
           take (length (delivered it)) (watched changes it) = delivered it
      else (it_queue it = [] \<or> it_waiters it = []) \<and> delivered it @ it_queue it = watched changes it)"

definition watches_ok :: "(nat, watch_iterator) jsmap \<Rightarrow> state_change list \<Rightarrow> nat \<Rightarrow> bool" where
  "watches_ok watchers changes revision \<longleftrightarrow> (\<forall>(w, it) \<in> set watchers. watcher_ok changes revision it)"

definition idempotency_ok ::
  "(jstring, idempotency_record) jsmap \<Rightarrow> (jstring, jstring) jsmap \<Rightarrow> bool" where
  "idempotency_ok idempotency inFlight \<longleftrightarrow>
     map_ok idempotency \<and> map_ok inFlight \<and> fst ` set idempotency \<inter> fst ` set inFlight = {} \<and>
     (\<forall>(i, x) \<in> set idempotency. canon (idem_result x) = idem_result x)"

definition store_ok :: "memory_store \<Rightarrow> bool" where
  "store_ok s \<longleftrightarrow>
     records_ok (ms_records s) (ms_revision s) \<and>
     journal_ok (ms_operations s) (ms_operationHistory s) (ms_revision s) \<and>
     outbox_ok (ms_outbox s) (ms_outboxSequence s) \<and>
     changes_ok (ms_changes s) (ms_revision s) \<and>
     watches_ok (ms_watchers s) (ms_changes s) (ms_revision s) \<and>
     idempotency_ok (ms_idempotency s) (ms_inFlight s) \<and>
     map_ok (ms_fences s)"

section \<open>Growing revisions\<close>

lemma revision_mono:
  "records_ok records n \<Longrightarrow> n \<le> n' \<Longrightarrow> records_ok records n'"
  "journal_ok operations history n \<Longrightarrow> n \<le> n' \<Longrightarrow> journal_ok operations history n'"
  "changes_ok changes n \<Longrightarrow> n \<le> n' \<Longrightarrow> changes_ok changes n'"
  "watches_ok watchers changes n \<Longrightarrow> n \<le> n' \<Longrightarrow> watches_ok watchers changes n'"
  by (fastforce simp: records_ok_def journal_ok_def changes_ok_def watches_ok_def watcher_ok_def)+

section \<open>Records and journal\<close>

lemma records_ok_update:
  "records_ok records n \<Longrightarrow> i = serializedKey (rec_key r) \<Longrightarrow> canon (rec_value r) = rec_value r \<Longrightarrow>
   0 < rec_revision r \<Longrightarrow> rec_revision r \<le> n \<Longrightarrow> records_ok (AList.update i r records) n"
  using set_update_alist [of i r records] by (auto simp: records_ok_def)

lemma records_ok_delete: "records_ok records n \<Longrightarrow> records_ok (AList.delete i records) n"
  by (auto simp: records_ok_def AList.delete_eq map_ok_delete [unfolded AList.delete_eq])

lemma records_ok_check:
  "records_ok records n \<Longrightarrow> check_mutations ms records applied = Inr (next, done') \<Longrightarrow> records_ok next n"
proof (induction ms arbitrary: records applied)
  case (Cons m ms)
  then show ?case
    by (cases m) (auto simp: Let_def intro: records_ok_delete split: if_splits)
qed simp

lemma records_ok_puts:
  "records_ok records n \<Longrightarrow> 0 < n \<Longrightarrow> records_ok (fold (store_put n) ms records) n"
proof (induction ms arbitrary: records)
  case (Cons m ms)
  have "records_ok (store_put n m records) n"
    using Cons.prems by (cases m) (auto simp: canon_idem intro: records_ok_update)
  from Cons.IH [OF this Cons.prems(2)] show ?case by simp
qed simp

lemma journal_ok_append:
  "journal_ok operations history n \<Longrightarrow>
   journal_ok (fold (\<lambda>e. AList.update (op_id e) (persist (Suc n) e)) ops operations)
     (history @ map (persist (Suc n)) ops) (Suc n)"
proof (induction ops arbitrary: operations history rule: rev_induct)
  case Nil
  then show ?case by (auto intro: revision_mono)
next
  case (snoc e ops)
  let ?m = "fold (\<lambda>e. AList.update (op_id e) (persist (Suc n) e)) ops operations"
  from snoc.IH [OF snoc.prems] show ?case
    using set_update_alist [of "op_id e" "persist (Suc n) e" ?m]
    by (auto simp: journal_ok_def sorted_append)
qed

section \<open>Outbox\<close>

lemma map_update_same:
  "map_of m k = Some v \<Longrightarrow> f (k, v') = f (k, v) \<Longrightarrow> map f (AList.update k v' m) = map f m"
  by (induction m) auto

lemma outbox_ok_replace:
  assumes "outbox_ok outbox n" and "map_of outbox i = Some r"
    and "so_enqueueSequence r' = so_enqueueSequence r" and "outbox_entry_ok n (i, r')"
  shows "outbox_ok (AList.update i r' outbox) n"
  using assms map_update_same [OF assms(2), of "\<lambda>(i, r). so_enqueueSequence r" r']
    set_update_alist [of i r' outbox]
  by (auto simp: outbox_ok_def)

lemma outbox_ok_enqueue:
  assumes "outbox_ok outbox n"
  shows "outbox_ok (AList.update (msg_messageId m) (outbox_entry m (Suc n)) outbox) (Suc n)"
proof -
  have fresh: "Suc n \<notin> so_enqueueSequence ` snd ` set outbox"
    using assms by (fastforce simp: outbox_ok_def outbox_entry_ok_def)
  have "distinct (map (\<lambda>(i, r). so_enqueueSequence r) (AList.update k r outbox))"
    if "distinct (map (\<lambda>(i, r). so_enqueueSequence r) outbox)"
      "so_enqueueSequence r \<notin> so_enqueueSequence ` snd ` set outbox" for k r
    using that
  proof (induction outbox)
    case (Cons e outbox)
    have "so_enqueueSequence ` snd ` set (AList.update k r outbox) \<subseteq>
        insert (so_enqueueSequence r) (so_enqueueSequence ` snd ` set outbox)"
      using snd_set_update [of k r outbox] by auto
    with Cons show ?case by (cases e) (auto simp: image_image case_prod_unfold)
  qed simp
  from this [of "outbox_entry m (Suc n)"] assms fresh set_update_alist [of "msg_messageId m" "outbox_entry m (Suc n)" outbox]
  show ?thesis
    by (fastforce simp: outbox_ok_def outbox_entry_ok_def outbox_entry_def claim_ok_def)
qed

lemma outbox_ok_enqueue_all: "outbox_ok outbox n \<Longrightarrow> outbox_ok (enqueue_all n ms outbox) (n + length ms)"
proof (induction ms arbitrary: n outbox)
  case (Cons m ms)
  then show ?case using Cons.IH [OF outbox_ok_enqueue, of outbox n m] by simp
qed simp

section \<open>Watches\<close>

lemma delivered_answer [simp]:
  "delivered (answer w x it) = delivered it @ (case x of None \<Rightarrow> [] | Some c \<Rightarrow> [c])"
  by (simp add: delivered_def answer_def List.map_filter_def split: option.split)

lemma answer_fields [simp]:
  "it_cursor (answer w x it) = it_cursor it" "it_queue (answer w x it) = it_queue it"
  "it_waiters (answer w x it) = it_waiters it" "it_closed (answer w x it) = it_closed it"
  by (simp_all add: answer_def)

lemma delivered_updates [simp]:
  "delivered (it\<lparr>it_queue := q\<rparr>) = delivered it" "delivered (it\<lparr>it_waiters := ws\<rparr>) = delivered it"
  "delivered (it\<lparr>it_closed := b\<rparr>) = delivered it"
  by (simp_all add: delivered_def)

lemma take_whole_length: "take (length xs) ys = xs \<Longrightarrow> length xs \<le> length ys"
  by (metis length_take min.cobounded1)

lemma watcher_ok_push:
  assumes "watcher_ok changes n it" and "n < ch_revision c"
  shows "watcher_ok (changes @ [c]) n (watch_push c it)"
  using assms by (auto simp: watcher_ok_def watch_push_def watched_def dest: take_whole_length
      split: list.split if_splits)

lemma watcher_ok_pushes:
  "watcher_ok changes n it \<Longrightarrow> \<forall>c \<in> set cs. n < ch_revision c \<Longrightarrow>
   watcher_ok (changes @ cs) n (fold watch_push cs it)"
proof (induction cs arbitrary: changes it)
  case (Cons c cs)
  then have "watcher_ok (changes @ [c]) n (watch_push c it)" by (simp add: watcher_ok_push)
  with Cons show ?case using Cons.IH [of "changes @ [c]" "watch_push c it"] by simp
qed simp

lemma watches_ok_pushes:
  assumes "watches_ok watchers changes n" and "\<forall>c \<in> set cs. n < ch_revision c"
  shows "watches_ok (map (map_prod id (fold watch_push cs)) watchers) (changes @ cs) n"
  using assms watcher_ok_pushes [OF _ assms(2)] by (auto simp: watches_ok_def)

lemma watcher_ok_next: "watcher_ok changes n it \<Longrightarrow> watcher_ok changes n (watch_next w it)"
  by (auto simp: watcher_ok_def watch_next_def watched_def split: list.split if_splits)

lemma fold_answer_None:
  "it_cursor (fold (\<lambda>w. answer w None) ws it) = it_cursor it"
  "it_queue (fold (\<lambda>w. answer w None) ws it) = it_queue it"
  "it_waiters (fold (\<lambda>w. answer w None) ws it) = it_waiters it"
  "it_closed (fold (\<lambda>w. answer w None) ws it) = it_closed it"
  "delivered (fold (\<lambda>w. answer w None) ws it) = delivered it"
  by (induction ws arbitrary: it) simp_all

lemma watcher_ok_close: "watcher_ok changes n it \<Longrightarrow> watcher_ok changes n (watch_close it)"
  using append_eq_conv_conj [of "delivered it" "it_queue it" "watched changes it"]
  by (cases "it_closed it") (auto simp: watcher_ok_def watch_close_def fold_answer_None watched_def)

lemma watcher_ok_new:
  "n' \<le> n \<Longrightarrow> \<forall>c \<in> set changes. ch_revision c \<le> n \<Longrightarrow> n' = min cursor n \<Longrightarrow>
   watcher_ok changes n (new_watch_iterator n' (filter (\<lambda>c. ch_revision c > cursor) changes))"
  by (auto simp: watcher_ok_def new_watch_iterator_def watched_def delivered_def List.map_filter_def
      intro!: filter_cong)

section \<open>The operations keep the invariant\<close>

lemma store_ok_new: "store_ok new_store"
  by (simp add: store_ok_def new_store_def records_ok_def journal_ok_def outbox_ok_def changes_ok_def
      watches_ok_def idempotency_ok_def)

lemma store_ok_open: "store_ok s \<Longrightarrow> open_store s = Inr s' \<Longrightarrow> store_ok s'"
  by (auto simp: open_store_def store_ok_def split: if_splits)

lemma store_ok_close: "store_ok s \<Longrightarrow> store_ok (close_store s)"
  by (auto simp: close_store_def store_ok_def watches_ok_def watcher_ok_close)

lemma store_ok_update_watcher:
  assumes "store_ok s" and "\<And>it. watcher_ok (ms_changes s) (ms_revision s) it \<Longrightarrow>
    watcher_ok (ms_changes s) (ms_revision s) (f it)"
  shows "store_ok (update_watcher w f s)"
  using assms by (fastforce simp: store_ok_def update_watcher_def watches_ok_def)

lemma watches_ok_update:
  "watches_ok ws changes n \<Longrightarrow> watcher_ok changes n it \<Longrightarrow> watches_ok (AList.update w it ws) changes n"
  using set_update_alist [of w it ws] by (auto simp: watches_ok_def)

lemma store_ok_watch: "store_ok s \<Longrightarrow> watch_store s w cursor = Inr s' \<Longrightarrow> store_ok s'"
  by (auto simp: watch_store_def assertOpen_def store_ok_def changes_ok_def
      intro!: watches_ok_update watcher_ok_new split: if_splits)

lemma idempotency_ok_start:
  "idempotency_ok idempotency inFlight \<Longrightarrow> map_of idempotency k = None \<Longrightarrow>
   idempotency_ok idempotency (AList.update k f inFlight)"
  by (auto simp: idempotency_ok_def dom_update map_of_eq_None_iff)

lemma transact_begin_InrE:
  assumes "transact_begin s options = Inr (s', start)"
  obtains (plain) "ms_lifecycle s = StoreOpen" "idempotencyIdentity options = Inr None" "s' = s"
      "start = Started None (begin_transaction (ms_records s))"
    | (replay) i x where "ms_lifecycle s = StoreOpen" "idempotencyIdentity options = Inr (Some i)"
      "map_of (ms_idempotency s) (ident_key i) = Some x" "idem_fingerprint x = ident_fingerprint i"
      "s' = s" "start = Replayed (canon (idem_result x))"
    | (await) i where "ms_lifecycle s = StoreOpen" "idempotencyIdentity options = Inr (Some i)"
      "map_of (ms_idempotency s) (ident_key i) = None"
      "map_of (ms_inFlight s) (ident_key i) = Some (ident_fingerprint i)"
      "s' = s" "start = AwaitInFlight (ident_key i)"
    | (fresh) i where "ms_lifecycle s = StoreOpen" "idempotencyIdentity options = Inr (Some i)"
      "map_of (ms_idempotency s) (ident_key i) = None" "map_of (ms_inFlight s) (ident_key i) = None"
      "s' = s\<lparr>ms_inFlight := AList.update (ident_key i) (ident_fingerprint i) (ms_inFlight s)\<rparr>"
      "start = Started (Some i) (begin_transaction (ms_records s))"
proof -
  from assms obtain identity where
    o: "ms_lifecycle s = StoreOpen" and id: "idempotencyIdentity options = Inr identity"
    by (auto simp: transact_begin_def assertOpen_def split: if_splits)
  show thesis
  proof (cases identity)
    case None
    with assms o id show thesis by (intro plain) (auto simp: transact_begin_def assertOpen_def)
  next
    case (Some i)
    note started = assms [unfolded transact_begin_def assertOpen_def, simplified o id Some, simplified]
    show thesis
    proof (cases "map_of (ms_idempotency s) (ident_key i)")
      case (Some x)
      with started o id \<open>identity = Some i\<close> show thesis
        by (intro replay) (auto simp: assertIdempotencyFingerprint_def split: if_splits)
    next
      case none: None
      show thesis
      proof (cases "map_of (ms_inFlight s) (ident_key i)")
        case (Some f)
        with started none o id \<open>identity = Some i\<close> show thesis
          by (intro await) (auto simp: assertIdempotencyFingerprint_def split: if_splits)
      next
        case None
        with started none o id \<open>identity = Some i\<close> show thesis by (intro fresh) auto
      qed
    qed
  qed
qed

lemma store_ok_begin: "store_ok s \<Longrightarrow> transact_begin s options = Inr (s', start) \<Longrightarrow> store_ok s'"
  by (erule transact_begin_InrE) (auto simp: store_ok_def idempotency_ok_start)

lemma store_ok_clear: "store_ok s \<Longrightarrow> store_ok (clear_inFlight identity s)"
  by (auto simp: clear_inFlight_def store_ok_def idempotency_ok_def AList.delete_eq
      map_ok_delete [unfolded AList.delete_eq] split: option.split)

lemma change_of_revision [simp]: "ch_revision (change_of n m) = n"
  by (cases m) simp_all

lemma store_ok_committed:
  assumes ok: "store_ok s" and check: "check_mutations ms (ms_records s) [] = Inr (next, applied)"
  shows "store_ok (committed s options staged next applied newOutbox advances)"
proof (cases "commit_mutates applied staged newOutbox advances")
  case True
  let ?n = "Suc (ms_revision s)" and ?cs = "map (change_of (Suc (ms_revision s))) applied"
  have "records_ok (fold (store_put ?n) applied next) ?n"
    using ok records_ok_check [OF _ check] revision_mono(1) [of "next" "ms_revision s" ?n]
    by (simp add: store_ok_def records_ok_puts)
  moreover have "journal_ok (fold (\<lambda>e. AList.update (op_id e) (persist ?n e)) (st_operations staged)
      (ms_operations s)) (ms_operationHistory s @ map (persist ?n) (st_operations staged)) ?n"
    using ok by (simp add: store_ok_def journal_ok_append)
  moreover have "outbox_ok (enqueue_all (ms_outboxSequence s) (map snd newOutbox) (ms_outbox s))
      (ms_outboxSequence s + length newOutbox)"
    using ok outbox_ok_enqueue_all [of "ms_outbox s" "ms_outboxSequence s" "map snd newOutbox"]
    by (simp add: store_ok_def)
  moreover have "changes_ok (ms_changes s @ ?cs) ?n"
    using ok by (fastforce simp: store_ok_def changes_ok_def sorted_append comp_def map_replicate_const)
  moreover have "watches_ok (map (map_prod id (fold watch_push ?cs)) (ms_watchers s)) (ms_changes s @ ?cs) ?n"
    using ok by (intro revision_mono(4) [OF watches_ok_pushes]) (auto simp: store_ok_def)
  moreover have "map_ok (ms_fences (advanceFence (opt_fencing options) s))" "map_ok (ms_fences s)"
    using ok by (auto simp: store_ok_def advanceFence_def split: option.split)
  ultimately show ?thesis
    using True ok by (simp add: committed_def Let_def store_ok_def)
next
  case False
  then show ?thesis using ok by (simp add: committed_def)
qed

text \<open>The idempotency record is written while the key is still in flight, and the flight then ends.\<close>

lemma store_ok_remember: "store_ok s \<Longrightarrow> store_ok (clear_inFlight identity (remember identity result s))"
  by (auto simp: clear_inFlight_def remember_def store_ok_def idempotency_ok_def AList.delete_eq canon_idem
      map_ok_delete [unfolded AList.delete_eq] dom_update dest: set_mp [OF set_update_alist]
      split: option.split)

lemma store_ok_transact_commit:
  assumes "store_ok s" and "transact_commit s options identity staged result = (s', r)"
  shows "store_ok s'"
proof (cases "commit s options identity staged result")
  case (Inl e)
  then show ?thesis using assms by (auto simp: transact_commit_def store_ok_clear)
next
  case (Inr p)
  then obtain s1 r1 where c: "commit s options identity staged result = Inr (s1, r1)" by (cases p) auto
  then have "s' = clear_inFlight identity s1" using assms(2) by (auto simp: transact_commit_def)
  with c assms(1) show ?thesis
    by (auto elim!: commit_InrE intro!: store_ok_remember store_ok_committed)
qed

end
