(* ===== verification/Store_Outbox.thy ===== *)
theory Store_Outbox
  imports Store_Invariants
begin

text \<open>
  Claims and acknowledgements of the outbox of the in-memory store: which messages a claim returns,
  what it does to the records, and that both operations keep the invariant.
\<close>

section \<open>The claim loop\<close>

definition eligible :: "claim_request \<Rightarrow> int \<Rightarrow> (jstring \<times> stored_outbox) list \<Rightarrow> (jstring \<times> stored_outbox) list" where
  "eligible request now entries = filter (\<lambda>e. \<not> skip_outbox request now (snd e)) entries"

definition claim_entries ::
  "((jstring \<times> stored_outbox) \<times> outbox_claim) list \<Rightarrow> (jstring, stored_outbox) jsmap \<Rightarrow>
   (jstring, stored_outbox) jsmap" where
  "claim_entries pairs = fold (\<lambda>(e, c). AList.update (fst e) (apply_claim c (snd e))) pairs"

lemma claim_entries_simps [simp]:
  "claim_entries [] outbox = outbox"
  "claim_entries ((e, c) # pairs) outbox =
     claim_entries pairs (AList.update (fst e) (apply_claim c (snd e)) outbox)"
  by (simp_all add: claim_entries_def)

text \<open>Whatever the outcome, the loop has claimed a prefix of the eligible entries.\<close>

lemma claim_loop_prefix:
  assumes "claim_loop request now claimedAt limit rest outbox claimed = (outbox', res)"
    and "length claimed < limit"
  shows "\<exists>new. list_all2 (\<lambda>e c. make_claim request now claimedAt (snd e) = Inr c)
      (take (length new) (eligible request now rest)) new \<and>
    outbox' = claim_entries (zip (eligible request now rest) new) outbox \<and>
    (\<forall>cs. res = Inr cs \<longrightarrow> cs = claimed @ new \<and>
       length new = min (limit - length claimed) (length (eligible request now rest)))"
  using assms
proof (induction rest arbitrary: outbox claimed)
  case Nil
  then show ?case by (auto simp: eligible_def intro: exI [of _ "[]"])
next
  case (Cons e rest)
  obtain i r where e: "e = (i, r)" by (cases e)
  show ?case
  proof (cases "skip_outbox request now r")
    case True
    with Cons.prems e have "claim_loop request now claimedAt limit rest outbox claimed = (outbox', res)"
      by simp
    from Cons.IH [OF this Cons.prems(2)] True e show ?thesis by (simp add: eligible_def)
  next
    case keep: False
    show ?thesis
    proof (cases "make_claim request now claimedAt r")
      case (Inl x)
      with Cons.prems e keep show ?thesis by (auto intro: exI [of _ "[]"])
    next
      case (Inr c)
      let ?o = "AList.update i (apply_claim c r) outbox"
      have el: "eligible request now (e # rest) = e # eligible request now rest"
        using keep e by (simp add: eligible_def)
      show ?thesis
      proof (cases "length claimed + 1 = limit")
        case True
        with Cons.prems e keep Inr have "outbox' = ?o" "res = Inr (claimed @ [c])" by (auto simp: Let_def)
        with True Inr el e show ?thesis by (auto intro!: exI [of _ "[c]"])
      next
        case False
        with Cons.prems e keep Inr
        have "claim_loop request now claimedAt limit rest ?o (claimed @ [c]) = (outbox', res)"
          by (auto simp: Let_def)
        from Cons.IH [OF this] False Cons.prems(2) obtain new where new:
          "list_all2 (\<lambda>e c. make_claim request now claimedAt (snd e) = Inr c)
             (take (length new) (eligible request now rest)) new"
          "outbox' = claim_entries (zip (eligible request now rest) new) ?o"
          "\<forall>cs. res = Inr cs \<longrightarrow> cs = (claimed @ [c]) @ new \<and>
             length new = min (limit - length (claimed @ [c])) (length (eligible request now rest))"
          by auto
        show ?thesis
          using new Inr el e Cons.prems(2) by (intro exI [of _ "c # new"]) (auto simp: min_def)
      qed
    qed
  qed
qed

text \<open>The records after the claims: claimed entries replaced, the others unchanged.\<close>

lemma claim_entries_lookup:
  assumes "distinct (map (fst \<circ> fst) pairs)"
  shows "map_of (claim_entries pairs outbox) i =
    (case map_of (map (\<lambda>(e, c). (fst e, apply_claim c (snd e))) pairs) i of
       None \<Rightarrow> map_of outbox i | Some r \<Rightarrow> Some r)"
  using assms
proof (induction pairs arbitrary: outbox)
  case (Cons p pairs)
  obtain e c where p: "p = (e, c)" by (cases p)
  have "map_of (map (\<lambda>(e, c). (fst e, apply_claim c (snd e))) pairs) (fst e) = None"
    using Cons.prems p by (force simp: map_of_eq_None_iff)
  with Cons p show ?case by (auto simp: map_lookups split: option.split)
qed simp

lemma make_claim_InrD:
  "make_claim request now claimedAt r = Inr c \<Longrightarrow>
     cl_attempt c = so_attempt r + 1 \<and> cl_claimEpoch c = so_attempt r + 1 \<and>
     cl_owner c = cr_owner request \<and> toISOString (now + lease_ms request) = Inr (cl_expiresAt c) \<and>
     msg_messageId (cl_message c) = msg_messageId (so_message r)"
  by (auto simp: make_claim_def split: if_splits)

lemma outbox_entry_ok_claim:
  "outbox_entry_ok n (i, r) \<Longrightarrow> make_claim request now claimedAt r = Inr c \<Longrightarrow>
   outbox_entry_ok n (i, apply_claim c r)"
  by (auto simp: outbox_entry_ok_def apply_claim_def claim_ok_def dest!: make_claim_InrD)

lemma outbox_ok_claim_entries:
  assumes "outbox_ok outbox n" and "distinct (map (fst \<circ> fst) pairs)"
    and "\<forall>(e, c) \<in> set pairs. map_of outbox (fst e) = Some (snd e) \<and>
           make_claim request now claimedAt (snd e) = Inr c"
  shows "outbox_ok (claim_entries pairs outbox) n"
  using assms
proof (induction pairs arbitrary: outbox)
  case (Cons p pairs)
  obtain i r c where p: "p = ((i, r), c)" by (cases p) auto
  from Cons.prems p have look: "map_of outbox i = Some r" and mk: "make_claim request now claimedAt r = Inr c"
    by auto
  then have "outbox_entry_ok n (i, r)"
    using Cons.prems(1) by (auto simp: outbox_ok_def dest: map_of_SomeD)
  then have "outbox_entry_ok n (i, apply_claim c r)" using mk by (rule outbox_entry_ok_claim)
  then have "outbox_ok (AList.update i (apply_claim c r) outbox) n"
    by (intro outbox_ok_replace [OF Cons.prems(1) look]) (simp_all add: apply_claim_def)
  moreover have "\<forall>(e, c') \<in> set pairs. map_of (AList.update i (apply_claim c r) outbox) (fst e) = Some (snd e) \<and>
      make_claim request now claimedAt (snd e) = Inr c'"
  proof -
    have "fst e \<noteq> i" if "(e, c') \<in> set pairs" for e c'
      using Cons.prems(2) p that by (force simp: image_iff)
    then show ?thesis using Cons.prems(3) p by (auto simp: map_lookups)
  qed
  ultimately show ?case using Cons p by simp
qed simp

section \<open>The claim operation\<close>

abbreviation sorted_outbox :: "memory_store \<Rightarrow> (jstring \<times> stored_outbox) list" where
  "sorted_outbox s \<equiv> sort_by compareOutboxEntries (ms_outbox s)"

text \<open>
  A claim that is not rejected up front pairs a prefix of the eligible entries, in order, with fresh
  claims.
\<close>

definition claims_made ::
  "memory_store \<Rightarrow> int \<Rightarrow> claim_request \<Rightarrow> ((jstring \<times> stored_outbox) \<times> outbox_claim) list \<Rightarrow> bool" where
  "claims_made s now request pairs \<longleftrightarrow>
     (\<exists>claimedAt. toISOString now = Inr claimedAt \<and>
        (\<forall>(e, c) \<in> set pairs. make_claim request now claimedAt (snd e) = Inr c)) \<and>
     map fst pairs = take (length pairs) (eligible request now (sorted_outbox s))"

lemma assertOutboxClaimRequest_pos: "assertOutboxClaimRequest request = Inr limit \<Longrightarrow> 0 < limit"
  by (auto simp: assertOutboxClaimRequest_def split: if_splits option.splits)

lemma claimOutbox_cases:
  assumes "claimOutbox s now request = (s', res)"
  obtains (rejected) e where "s' = s" "res = Inl e"
    | (claimed) pairs advances limit where "ms_lifecycle s = StoreOpen"
      "assertOutboxClaimRequest request = Inr limit"
      "assertFence s (cr_fencing request) = Inr advances" "claims_made s now request pairs"
      "res = Inr (map snd pairs)"
      "length pairs = min limit (length (eligible request now (sorted_outbox s)))"
      "s' = (if pairs \<noteq> [] \<or> advances
             then advanceFence (cr_fencing request)
               (s\<lparr>ms_outbox := claim_entries pairs (ms_outbox s), ms_revision := ms_revision s + 1\<rparr>)
             else s)"
    | (broken) pairs e where "ms_lifecycle s = StoreOpen" "claims_made s now request pairs" "res = Inl e"
      "s' = s\<lparr>ms_outbox := claim_entries pairs (ms_outbox s)\<rparr>"
proof -
  let ?pre = "and_then (assertOpen s) (\<lambda>_.
     and_then (assertOutboxClaimRequest request) (\<lambda>limit.
     and_then (assertFence s (cr_fencing request)) (\<lambda>advancesFence.
     and_then (toISOString now) (\<lambda>claimedAt. Inr (limit, advancesFence, claimedAt)))))"
  show thesis
  proof (cases ?pre)
    case (Inl e)
    with assms show thesis by (intro rejected) (auto simp: claimOutbox_def)
  next
    case (Inr p)
    then obtain limit advances claimedAt where pre:
      "?pre = Inr (limit, advances, claimedAt)" "ms_lifecycle s = StoreOpen"
      "assertOutboxClaimRequest request = Inr limit" "assertFence s (cr_fencing request) = Inr advances"
      "toISOString now = Inr claimedAt"
      by (auto simp: assertOpen_def split: if_splits)
    obtain outbox' r where loop:
      "claim_loop request now claimedAt limit (sorted_outbox s) (ms_outbox s) [] = (outbox', r)"
      by (cases "claim_loop request now claimedAt limit (sorted_outbox s) (ms_outbox s) []")
    from claim_loop_prefix [OF loop] assertOutboxClaimRequest_pos [OF pre(3)] obtain new where new:
      "list_all2 (\<lambda>e c. make_claim request now claimedAt (snd e) = Inr c)
         (take (length new) (eligible request now (sorted_outbox s))) new"
      "outbox' = claim_entries (zip (eligible request now (sorted_outbox s)) new) (ms_outbox s)"
      "\<forall>cs. r = Inr cs \<longrightarrow> cs = new \<and> length new = min limit (length (eligible request now (sorted_outbox s)))"
      by auto
    define pairs where "pairs = zip (eligible request now (sorted_outbox s)) new"
    have len: "length new \<le> length (eligible request now (sorted_outbox s))"
      using list_all2_lengthD [OF new(1)] by simp
    have made: "claims_made s now request pairs"
      using new(1) pre(5) len unfolding claims_made_def pairs_def
      by (auto simp: list_all2_conv_all_nth set_zip map_fst_zip_take) (metis snd_conv)
    have snd: "map snd pairs = new" "length pairs = length new" using len by (simp_all add: pairs_def map_snd_zip_take)
    show thesis
    proof (cases r)
      case (Inl e)
      with assms pre loop new pairs_def show thesis by (intro broken [OF _ made]) (auto simp: claimOutbox_def)
    next
      case (Inr cs)
      with assms pre loop new snd pairs_def show thesis
        by (intro claimed [OF _ _ _ made]) (auto simp: claimOutbox_def Let_def)
    qed
  qed
qed

lemma claims_made_pairs:
  assumes "outbox_ok (ms_outbox s) n" and "claims_made s now request pairs"
  shows "distinct (map (fst \<circ> fst) pairs)"
    and "(e, c) \<in> set pairs \<Longrightarrow> map_of (ms_outbox s) (fst e) = Some (snd e) \<and> \<not> skip_outbox request now (snd e)"
proof -
  have ok: "distinct (map fst (ms_outbox s))" using assms(1) by (simp add: outbox_ok_def map_ok_def)
  have "mset (map fst (sorted_outbox s)) = mset (map fst (ms_outbox s))" by simp
  then have "distinct (map fst (sorted_outbox s))" using ok mset_eq_imp_distinct_iff by blast
  then have "distinct (map fst (take (length pairs) (eligible request now (sorted_outbox s))))"
    unfolding eligible_def by (simp add: take_map [symmetric] distinct_map_filter)
  then show "distinct (map (fst \<circ> fst) pairs)"
    using assms(2) unfolding claims_made_def by (metis list.map_comp)
  assume "(e, c) \<in> set pairs"
  then have "e \<in> set (map fst pairs)" by force
  then have "e \<in> set (eligible request now (sorted_outbox s))"
    using assms(2) unfolding claims_made_def by (metis in_set_takeD)
  then show "map_of (ms_outbox s) (fst e) = Some (snd e) \<and> \<not> skip_outbox request now (snd e)"
    using ok by (simp add: eligible_def)
qed

lemma store_ok_claim_entries:
  assumes "store_ok s" and "claims_made s now request pairs"
  shows "outbox_ok (claim_entries pairs (ms_outbox s)) (ms_outboxSequence s)"
proof -
  have ok: "outbox_ok (ms_outbox s) (ms_outboxSequence s)" using assms(1) by (simp add: store_ok_def)
  from assms(2) obtain claimedAt where
    "\<forall>(e, c) \<in> set pairs. make_claim request now claimedAt (snd e) = Inr c"
    by (auto simp: claims_made_def)
  then show ?thesis
    using claims_made_pairs [OF ok assms(2)] by (intro outbox_ok_claim_entries [OF ok]) auto
qed

lemma store_ok_advanceFence: "store_ok s \<Longrightarrow> store_ok (advanceFence f s)"
  by (auto simp: advanceFence_def store_ok_def split: option.split)

lemma store_ok_bump:
  "store_ok s \<Longrightarrow> outbox_ok outbox (ms_outboxSequence s) \<Longrightarrow> ms_revision s \<le> n \<Longrightarrow>
   store_ok (s\<lparr>ms_outbox := outbox, ms_revision := n\<rparr>)"
  by (auto simp: store_ok_def intro: revision_mono)

lemma store_ok_claim:
  assumes "store_ok s" and "claimOutbox s now request = (s', res)"
  shows "store_ok s'"
  using assms(2)
proof (cases rule: claimOutbox_cases)
  case (rejected e)
  with assms(1) show ?thesis by simp
next
  case (claimed pairs advances limit)
  with assms(1) show ?thesis
    by (auto intro!: store_ok_advanceFence store_ok_bump intro: store_ok_claim_entries)
next
  case (broken pairs e)
  with assms(1) store_ok_claim_entries [OF assms(1) broken(2)] show ?thesis by (simp add: store_ok_def)
qed

section \<open>Acknowledgements\<close>

lemma claim_matches_Some:
  "claim_matches request c \<longleftrightarrow>
     (\<exists>x. c = Some x \<and> cl_owner x = ar_owner request \<and> cl_claimEpoch x = ar_claimEpoch request)"
  by (auto simp: claim_matches_def split: option.splits)

lemma acknowledge_claim_InrE:
  assumes "acknowledge_claim s now request advances r = Inr (s', a)"
  obtains c where "so_claim r = Some c" "claim_matches request (Some c)" "ack_outcome a = ar_outcome request"
    "ack_attempt a = cl_attempt c" "\<not> ack_duplicate a" "ack_retryAt a = ar_retryAt request"
    "s' = (let s1 = s\<lparr>ms_outbox := AList.update (ar_messageId request) (apply_acknowledgement request a r) (ms_outbox s),
                      ms_revision := ms_revision s + 1\<rparr>
           in if advances then advanceFence (ar_fencing request) s1 else s1)"
  using assms by (auto simp: acknowledge_claim_def claim_matches_def Let_def split: option.splits if_splits)

lemma acknowledgeOutbox_cases:
  assumes "acknowledgeOutbox s now request = Inr (s', a)"
  obtains (duplicate) r a0 advances where "ms_lifecycle s = StoreOpen"
      "assertFence s (ar_fencing request) = Inr advances"
      "map_of (ms_outbox s) (ar_messageId request) = Some r" "so_acknowledgement r = Some a0"
      "claim_matches request (so_acknowledgedClaim r)" "ack_outcome a0 = ar_outcome request"
      "ack_retryAt a0 = ar_retryAt request" "a = a0\<lparr>ack_duplicate := True\<rparr>"
      "s' = (if advances then advanceFence (ar_fencing request) (s\<lparr>ms_revision := ms_revision s + 1\<rparr>) else s)"
    | (first) r c advances where "ms_lifecycle s = StoreOpen"
      "assertFence s (ar_fencing request) = Inr advances"
      "map_of (ms_outbox s) (ar_messageId request) = Some r" "so_claim r = Some c"
      "claim_matches request (Some c)" "ack_outcome a = ar_outcome request"
      "ack_attempt a = cl_attempt c" "\<not> ack_duplicate a" "ack_retryAt a = ar_retryAt request"
      "s' = (let s1 = s\<lparr>ms_outbox := AList.update (ar_messageId request) (apply_acknowledgement request a r) (ms_outbox s),
                        ms_revision := ms_revision s + 1\<rparr>
             in if advances then advanceFence (ar_fencing request) s1 else s1)"
proof -
  from assms obtain advances r where pre: "ms_lifecycle s = StoreOpen"
    "assertFence s (ar_fencing request) = Inr advances"
    "map_of (ms_outbox s) (ar_messageId request) = Some r"
    by (auto simp: acknowledgeOutbox_def assertOpen_def split: if_splits option.splits)
  show thesis
  proof (cases "so_acknowledgement r \<noteq> None \<and> claim_matches request (so_acknowledgedClaim r)")
    case True
    then obtain a0 where a0: "so_acknowledgement r = Some a0" and m: "claim_matches request (so_acknowledgedClaim r)"
      by auto
    have "ack_outcome a0 = ar_outcome request \<and> ack_retryAt a0 = ar_retryAt request \<and>
        a = a0\<lparr>ack_duplicate := True\<rparr> \<and>
        s' = (if advances then advanceFence (ar_fencing request) (s\<lparr>ms_revision := ms_revision s + 1\<rparr>) else s)"
      using assms pre a0 m by (auto simp: acknowledgeOutbox_def assertOpen_def split: if_splits)
    with pre a0 m show thesis by (intro duplicate) auto
  next
    case False
    then have "acknowledge_claim s now request advances r = Inr (s', a)"
      using assms pre by (auto simp: acknowledgeOutbox_def assertOpen_def split: if_splits option.splits)
    then show thesis by (rule acknowledge_claim_InrE) (rule first [OF pre])
  qed
qed

lemma apply_acknowledgement_fields [simp]:
  "so_enqueueSequence (apply_acknowledgement request a r) = so_enqueueSequence r"
  "so_attempt (apply_acknowledgement request a r) = so_attempt r"
  "so_claim (apply_acknowledgement request a r) = None"
  "so_acknowledgement (apply_acknowledgement request a r) = Some a"
  "so_acknowledgedClaim (apply_acknowledgement request a r) = so_claim r"
  "msg_messageId (so_message (apply_acknowledgement request a r)) = msg_messageId (so_message r)"
  by (simp_all add: apply_acknowledgement_def Let_def split: ack_outcome.split option.split)

lemma outbox_entry_ok_acknowledged:
  "outbox_entry_ok n (i, r) \<Longrightarrow> so_claim r = Some c \<Longrightarrow> outbox_entry_ok n (i, apply_acknowledgement request a r)"
  by (auto simp: outbox_entry_ok_def claim_ok_def)

lemma store_ok_acknowledge:
  assumes ok: "store_ok s" and ack: "acknowledgeOutbox s now request = Inr (s', a)"
  shows "store_ok s'"
  using ack
proof (cases rule: acknowledgeOutbox_cases)
  case (duplicate r a0 advances)
  have "store_ok (s\<lparr>ms_revision := ms_revision s + 1\<rparr>)"
    using ok by (auto simp: store_ok_def intro: revision_mono)
  with duplicate ok show ?thesis by (auto intro!: store_ok_advanceFence)
next
  case (first r c advances)
  have out: "outbox_ok (ms_outbox s) (ms_outboxSequence s)" using ok by (simp add: store_ok_def)
  then have "outbox_entry_ok (ms_outboxSequence s) (ar_messageId request, r)"
    using first(3) by (auto simp: outbox_ok_def dest: map_of_SomeD)
  then have "outbox_entry_ok (ms_outboxSequence s) (ar_messageId request, apply_acknowledgement request a r)"
    using first(4) by (rule outbox_entry_ok_acknowledged)
  then have "outbox_ok (AList.update (ar_messageId request) (apply_acknowledgement request a r) (ms_outbox s))
      (ms_outboxSequence s)"
    by (intro outbox_ok_replace [OF out first(3)]) simp_all
  then show ?thesis
    using first ok by (auto simp: Let_def intro!: store_ok_advanceFence store_ok_bump)
qed

end
