(* ===== verification/Store_System.thy ===== *)
theory Store_System
  imports Store_Outbox
begin

text \<open>
  The in-memory store with its concurrent clients as a step relation: transactions start, stage work,
  return or throw, and commit later, with other commits, claims, acknowledgements, watches and scans
  in between. Commits are queued in the source; here they may run in any order, so every property below
  holds for the order of the queue.
\<close>

section \<open>Later stores\<close>

definition evolves :: "memory_store \<Rightarrow> memory_store \<Rightarrow> bool" where
  "evolves s s' \<longleftrightarrow>
     ms_revision s \<le> ms_revision s' \<and>
     (\<forall>k e. map_of (ms_fences s) k = Some e \<longrightarrow> (\<exists>e'. map_of (ms_fences s') k = Some e' \<and> e \<le> e')) \<and>
     (\<forall>k x. map_of (ms_idempotency s) k = Some x \<longrightarrow> map_of (ms_idempotency s') k = Some x) \<and>
     (\<exists>xs. ms_operationHistory s' = ms_operationHistory s @ xs) \<and>
     (\<exists>xs. ms_changes s' = ms_changes s @ xs) \<and>
     (\<forall>i. map_of (ms_records s') i = map_of (ms_records s) i \<or>
          (\<forall>r. map_of (ms_records s') i = Some r \<longrightarrow> ms_revision s < rec_revision r))"

lemma evolves_refl: "evolves s s"
  by (simp add: evolves_def)

lemma evolves_trans:
  assumes "evolves s t" and "evolves t u"
  shows "evolves s u"
  unfolding evolves_def
proof (intro conjI allI impI)
  show "ms_revision s \<le> ms_revision u" using assms by (auto simp: evolves_def)
  show "\<exists>xs. ms_operationHistory u = ms_operationHistory s @ xs" using assms by (auto simp: evolves_def)
  show "\<exists>xs. ms_changes u = ms_changes s @ xs" using assms by (auto simp: evolves_def)
  show "map_of (ms_idempotency u) k = Some x" if "map_of (ms_idempotency s) k = Some x" for k x
    using assms that by (simp add: evolves_def)
  show "\<exists>e'. map_of (ms_fences u) k = Some e' \<and> e \<le> e'" if fence: "map_of (ms_fences s) k = Some e" for k e
  proof -
    from assms(1) fence obtain f where "map_of (ms_fences t) k = Some f" "e \<le> f"
      unfolding evolves_def by blast
    moreover from assms(2) this(1) obtain g where "map_of (ms_fences u) k = Some g" "f \<le> g"
      unfolding evolves_def by blast
    ultimately show ?thesis by auto
  qed
  fix i
  have rev: "ms_revision s \<le> ms_revision t" using assms(1) by (simp add: evolves_def)
  from assms have "map_of (ms_records t) i = map_of (ms_records s) i \<or>
      (\<forall>r. map_of (ms_records t) i = Some r \<longrightarrow> ms_revision s < rec_revision r)"
    "map_of (ms_records u) i = map_of (ms_records t) i \<or>
      (\<forall>r. map_of (ms_records u) i = Some r \<longrightarrow> ms_revision t < rec_revision r)"
    by (simp_all add: evolves_def)
  with rev show "map_of (ms_records u) i = map_of (ms_records s) i \<or>
      (\<forall>r. map_of (ms_records u) i = Some r \<longrightarrow> ms_revision s < rec_revision r)"
    by fastforce
qed

text \<open>Operations that leave the persistent parts alone.\<close>

lemma evolves_same:
  assumes "ms_records s' = ms_records s" "ms_operationHistory s' = ms_operationHistory s"
    "ms_fences s' = ms_fences s" "ms_changes s' = ms_changes s" "ms_idempotency s' = ms_idempotency s"
    "ms_revision s \<le> ms_revision s'"
  shows "evolves s s'"
  using assms by (simp add: evolves_def)

lemma assertFence_Inr:
  "assertFence s f = Inr advances \<Longrightarrow>
   (case f of None \<Rightarrow> \<not> advances
    | Some x \<Rightarrow> (case map_of (ms_fences s) (fence_resource x) of
        None \<Rightarrow> advances | Some e \<Rightarrow> e \<le> fence_epoch x \<and> (advances \<longleftrightarrow> e < fence_epoch x)))"
  by (auto simp: assertFence_def split: option.splits if_splits)

lemma evolves_advance:
  assumes "evolves s t" and "ms_fences t = ms_fences s" and "assertFence s f = Inr advances"
  shows "evolves s (advanceFence f t)"
  using assms assertFence_Inr [OF assms(3)]
  by (auto simp: evolves_def advanceFence_def map_lookups split: option.splits)

definition fence_reached :: "memory_store \<Rightarrow> fencing option \<Rightarrow> bool" where
  "fence_reached s f \<longleftrightarrow>
     (case f of None \<Rightarrow> True
      | Some x \<Rightarrow> (case map_of (ms_fences s) (fence_resource x) of None \<Rightarrow> False | Some e \<Rightarrow> fence_epoch x \<le> e))"

lemma fence_reached_cong: "ms_fences s = ms_fences t \<Longrightarrow> fence_reached s f = fence_reached t f"
  by (simp only: fence_reached_def)

lemma fence_reached_evolves: "fence_reached s f \<Longrightarrow> evolves s t \<Longrightarrow> fence_reached t f"
  by (fastforce simp: fence_reached_def evolves_def split: option.splits)

lemma fence_reached_advance:
  assumes "assertFence s f = Inr advances" and "ms_fences t = ms_fences s"
  shows "fence_reached (if advances then advanceFence f t else t) f"
  using assertFence_Inr [OF assms(1)] assms(2)
  by (auto simp: fence_reached_def advanceFence_def map_lookups split: option.splits)

lemma fence_reached_stale:
  assumes "fence_reached s f" and "f = Some x" and "g = Some y"
    and "fence_resource y = fence_resource x" and "fence_epoch y < fence_epoch x"
  shows "assertFence s g = Inl (Diagnostic ''STATE_FENCE_STALE'')"
  using assms by (auto simp: fence_reached_def assertFence_def split: option.splits)

lemma committed_fields:
  "ms_idempotency (committed s options staged next applied newOutbox advances) = ms_idempotency s"
  "ms_inFlight (committed s options staged next applied newOutbox advances) = ms_inFlight s"
  "ms_lifecycle (committed s options staged next applied newOutbox advances) = ms_lifecycle s"
  "ms_fences (committed s options staged next applied newOutbox advances) =
     ms_fences (if advances then advanceFence (opt_fencing options) s else s)"
  "ms_revision s \<le> ms_revision (committed s options staged next applied newOutbox advances)"
  "\<exists>xs. ms_operationHistory (committed s options staged next applied newOutbox advances) = ms_operationHistory s @ xs"
  "\<exists>xs. ms_changes (committed s options staged next applied newOutbox advances) = ms_changes s @ xs"
  by (auto simp: committed_def Let_def commit_mutates_def)

lemma clear_inFlight_fields [simp]:
  "ms_records (clear_inFlight i s) = ms_records s" "ms_operations (clear_inFlight i s) = ms_operations s"
  "ms_operationHistory (clear_inFlight i s) = ms_operationHistory s"
  "ms_outbox (clear_inFlight i s) = ms_outbox s" "ms_fences (clear_inFlight i s) = ms_fences s"
  "ms_changes (clear_inFlight i s) = ms_changes s" "ms_watchers (clear_inFlight i s) = ms_watchers s"
  "ms_idempotency (clear_inFlight i s) = ms_idempotency s" "ms_revision (clear_inFlight i s) = ms_revision s"
  "ms_lifecycle (clear_inFlight i s) = ms_lifecycle s"
  by (simp_all add: clear_inFlight_def split: option.split)

lemma evolves_commit:
  assumes "staged_ok staged" and "commit s options identity staged result = Inr (s', r)"
    and "\<forall>i. identity = Some i \<longrightarrow> map_of (ms_idempotency s) (ident_key i) = None"
  shows "evolves s s'" and "fence_reached s' (opt_fencing options)"
proof -
  from assms(2) obtain "next" applied newOutbox advances where c:
    "check_mutations (st_mutations staged) (ms_records s) [] = Inr (next, applied)"
    and f: "assertFence s (opt_fencing options) = Inr advances"
    and s': "s' = remember identity result (committed s options staged next applied newOutbox advances)"
    by (rule commit_InrE)
  let ?t = "committed s options staged next applied newOutbox advances"
  note fields = committed_fields [of s options staged "next" applied newOutbox advances]
  have recs: "map_of (ms_records ?t) i = map_of (ms_records s) i \<or>
      (\<forall>r. map_of (ms_records ?t) i = Some r \<longrightarrow> ms_revision s < rec_revision r)" for i
    using committed_records [OF assms(1) c, of options newOutbox advances i]
    by (auto split: option.splits mutation.splits)
  have "evolves s (if advances then advanceFence (opt_fencing options) s else s)"
    using evolves_advance [OF evolves_refl refl f] evolves_refl by auto
  then have fences: "\<forall>k e. map_of (ms_fences s) k = Some e \<longrightarrow> (\<exists>e'. map_of (ms_fences ?t) k = Some e' \<and> e \<le> e')"
    unfolding fields(4) evolves_def by blast
  have idem: "\<forall>k x. map_of (ms_idempotency s) k = Some x \<longrightarrow> map_of (ms_idempotency s') k = Some x"
    using assms(3) by (auto simp: s' remember_def fields(1) map_lookups split: option.splits)
  show "evolves s s'"
    unfolding evolves_def using recs fences idem fields(5-7) by (auto simp: s')
  show "fence_reached s' (opt_fencing options)"
    using fence_reached_advance [OF f refl] fence_reached_cong [of s' "if advances then _ else s"]
    by (simp add: s' fields(4))
qed

lemma evolves_claim: "claimOutbox s now request = (s', res) \<Longrightarrow> evolves s s'"
proof (erule claimOutbox_cases)
  fix pairs advances limit
  assume f: "assertFence s (cr_fencing request) = Inr advances"
    and s': "s' = (if pairs \<noteq> [] \<or> advances
      then advanceFence (cr_fencing request)
        (s\<lparr>ms_outbox := claim_entries pairs (ms_outbox s), ms_revision := ms_revision s + 1\<rparr>) else s)"
  show "evolves s s'"
    unfolding s' by (auto intro!: evolves_advance [OF _ _ f] evolves_same evolves_refl)
qed (auto intro: evolves_same evolves_refl)

lemma evolves_acknowledge: "acknowledgeOutbox s now request = Inr (s', a) \<Longrightarrow> evolves s s'"
  by (erule acknowledgeOutbox_cases)
    (auto simp: Let_def intro!: evolves_advance evolves_refl intro: evolves_same)

section \<open>The step relation\<close>

datatype phase =
    Working memory_transaction
  | Queued staged_transaction json

record session =
  ss_options :: transaction_options
  ss_identity :: "idempotency_identity option"
  ss_phase :: phase

record store_system =
  sys_store :: memory_store
  sys_sessions :: "(nat, session) jsmap"

definition new_system :: store_system where
  "new_system = \<lparr>sys_store = new_store, sys_sessions = []\<rparr>"

inductive tx_step :: "memory_transaction \<Rightarrow> memory_transaction \<Rightarrow> bool" where
  put: "tx_put tx k v e = Inr tx' \<Longrightarrow> tx_step tx tx'"
| delete: "tx_delete tx k e = Inr tx' \<Longrightarrow> tx_step tx tx'"
| appendOperation: "tx_appendOperation tx entry = Inr tx' \<Longrightarrow> tx_step tx tx'"
| enqueueOutbox: "tx_enqueueOutbox tx m = Inr tx' \<Longrightarrow> tx_step tx tx'"

inductive system_step :: "store_system \<Rightarrow> store_system \<Rightarrow> bool" where
  open_run: "open_store s = Inr s' \<Longrightarrow>
     system_step \<lparr>sys_store = s, sys_sessions = ss\<rparr> \<lparr>sys_store = s', sys_sessions = ss\<rparr>"
| close: "system_step \<lparr>sys_store = s, sys_sessions = ss\<rparr> \<lparr>sys_store = close_store s, sys_sessions = ss\<rparr>"
| start: "transact_begin s options = Inr (s', Started identity tx) \<Longrightarrow> map_of ss n = None \<Longrightarrow>
     system_step \<lparr>sys_store = s, sys_sessions = ss\<rparr>
       \<lparr>sys_store = s',
        sys_sessions = AList.update n \<lparr>ss_options = options, ss_identity = identity, ss_phase = Working tx\<rparr> ss\<rparr>"
| work: "map_of ss n = Some x \<Longrightarrow> ss_phase x = Working tx \<Longrightarrow> tx_step tx tx' \<Longrightarrow>
     system_step \<lparr>sys_store = s, sys_sessions = ss\<rparr>
       \<lparr>sys_store = s, sys_sessions = AList.update n (x\<lparr>ss_phase := Working tx'\<rparr>) ss\<rparr>"
| throws: "map_of ss n = Some x \<Longrightarrow> ss_phase x = Working tx \<Longrightarrow>
     system_step \<lparr>sys_store = s, sys_sessions = ss\<rparr>
       \<lparr>sys_store = transact_throw s (ss_identity x), sys_sessions = AList.delete n ss\<rparr>"
| returns: "map_of ss n = Some x \<Longrightarrow> ss_phase x = Working tx \<Longrightarrow>
     transact_return tx result = Inr (staged, result') \<Longrightarrow>
     system_step \<lparr>sys_store = s, sys_sessions = ss\<rparr>
       \<lparr>sys_store = s, sys_sessions = AList.update n (x\<lparr>ss_phase := Queued staged result'\<rparr>) ss\<rparr>"
| commits: "map_of ss n = Some x \<Longrightarrow> ss_phase x = Queued staged result \<Longrightarrow>
     transact_commit s (ss_options x) (ss_identity x) staged result = (s', r) \<Longrightarrow>
     system_step \<lparr>sys_store = s, sys_sessions = ss\<rparr>
       \<lparr>sys_store = s', sys_sessions = AList.delete n ss\<rparr>"
| claim: "claimOutbox s now request = (s', res) \<Longrightarrow>
     system_step \<lparr>sys_store = s, sys_sessions = ss\<rparr> \<lparr>sys_store = s', sys_sessions = ss\<rparr>"
| acknowledge: "acknowledgeOutbox s now areq = Inr (s', a) \<Longrightarrow>
     system_step \<lparr>sys_store = s, sys_sessions = ss\<rparr> \<lparr>sys_store = s', sys_sessions = ss\<rparr>"
| watch: "watch_store s w cursor = Inr s' \<Longrightarrow> map_of (ms_watchers s) w = None \<Longrightarrow>
     system_step \<lparr>sys_store = s, sys_sessions = ss\<rparr> \<lparr>sys_store = s', sys_sessions = ss\<rparr>"
| watch_next: "system_step \<lparr>sys_store = s, sys_sessions = ss\<rparr>
       \<lparr>sys_store = watch_next_store s w caller, sys_sessions = ss\<rparr>"
| watch_return: "system_step \<lparr>sys_store = s, sys_sessions = ss\<rparr>
       \<lparr>sys_store = watch_return s w, sys_sessions = ss\<rparr>"

definition reachable :: "store_system \<Rightarrow> bool" where
  "reachable sys \<longleftrightarrow> system_step\<^sup>*\<^sup>* new_system sys"

section \<open>Invariant of the system\<close>

definition phase_ok :: "phase \<Rightarrow> bool" where
  "phase_ok p = (case p of Working tx \<Rightarrow> tx_ok tx | Queued staged _ \<Rightarrow> staged_ok staged)"

definition flight_ok :: "memory_store \<Rightarrow> session \<Rightarrow> bool" where
  "flight_ok s x =
     (case ss_identity x of
        None \<Rightarrow> True
      | Some i \<Rightarrow> map_of (ms_inFlight s) (ident_key i) = Some (ident_fingerprint i))"

definition session_key :: "session \<Rightarrow> jstring option" where
  "session_key x = map_option ident_key (ss_identity x)"

definition sessions_ok :: "memory_store \<Rightarrow> (nat, session) jsmap \<Rightarrow> bool" where
  "sessions_ok s ss \<longleftrightarrow>
     (\<forall>n x. map_of ss n = Some x \<longrightarrow> phase_ok (ss_phase x) \<and> flight_ok s x) \<and>
     (\<forall>n x m y. map_of ss n = Some x \<longrightarrow> map_of ss m = Some y \<longrightarrow>
        session_key x = session_key y \<longrightarrow> session_key x \<noteq> None \<longrightarrow> n = m)"

definition system_ok :: "store_system \<Rightarrow> bool" where
  "system_ok sys \<longleftrightarrow> store_ok (sys_store sys) \<and> sessions_ok (sys_store sys) (sys_sessions sys)"

lemma tx_ok_step: "tx_step tx tx' \<Longrightarrow> tx_ok tx \<Longrightarrow> tx_ok tx'"
  by (induction rule: tx_step.induct) (auto dest: tx_ok_operations)

lemma flight_ok_cong: "ms_inFlight s' = ms_inFlight s \<Longrightarrow> flight_ok s' x = flight_ok s x"
  by (simp only: flight_ok_def)

lemma sessions_ok_inFlight:
  assumes "sessions_ok s ss" and "ms_inFlight s' = ms_inFlight s"
  shows "sessions_ok s' ss"
proof -
  have "flight_ok s' = flight_ok s" by (rule ext) (rule flight_ok_cong [OF assms(2)])
  with assms(1) show ?thesis unfolding sessions_ok_def by (simp only:)
qed

lemma sessions_okD:
  assumes "sessions_ok s ss" and "map_of ss n = Some x"
  shows "phase_ok (ss_phase x)" and "flight_ok s x"
    and "map_of ss m = Some y \<Longrightarrow> session_key y = session_key x \<Longrightarrow> session_key x \<noteq> None \<Longrightarrow> m = n"
proof -
  show "phase_ok (ss_phase x)" "flight_ok s x" using assms unfolding sessions_ok_def by blast+
  assume "map_of ss m = Some y" "session_key y = session_key x" "session_key x \<noteq> None"
  then show "m = n" using assms unfolding sessions_ok_def by metis
qed

lemma sessions_okI:
  assumes "\<And>n x. map_of ss n = Some x \<Longrightarrow> phase_ok (ss_phase x) \<and> flight_ok s x"
    and "\<And>n x m y. map_of ss n = Some x \<Longrightarrow> map_of ss m = Some y \<Longrightarrow>
      session_key x = session_key y \<Longrightarrow> session_key x \<noteq> None \<Longrightarrow> n = m"
  shows "sessions_ok s ss"
  using assms unfolding sessions_ok_def by blast

lemma sessions_ok_replace:
  assumes ok: "sessions_ok s ss" and x: "map_of ss n = Some x" and "phase_ok p"
  shows "sessions_ok s (AList.update n (x\<lparr>ss_phase := p\<rparr>) ss)"
proof (rule sessions_okI)
  have same: "session_key (x\<lparr>ss_phase := p\<rparr>) = session_key x" "flight_ok s (x\<lparr>ss_phase := p\<rparr>) = flight_ok s x"
    by (simp_all add: session_key_def flight_ok_def)
  fix m y
  assume y: "map_of (AList.update n (x\<lparr>ss_phase := p\<rparr>) ss) m = Some y"
  then show "phase_ok (ss_phase y) \<and> flight_ok s y"
    using assms(3) sessions_okD(1,2) [OF ok] x same by (auto simp: map_lookups split: if_splits)
  from y obtain y0 where y0: "map_of ss m = Some y0" "session_key y0 = session_key y"
    using x same(1) by (auto simp: map_lookups split: if_splits)
  fix m' z
  assume "map_of (AList.update n (x\<lparr>ss_phase := p\<rparr>) ss) m' = Some z"
    and key: "session_key y = session_key z" "session_key y \<noteq> None"
  then obtain z0 where "map_of ss m' = Some z0" "session_key z0 = session_key z"
    using x same(1) by (auto simp: map_lookups split: if_splits)
  with y0 key sessions_okD(3) [OF ok this(1) y0(1)] show "m = m'" by simp
qed

lemma sessions_ok_start:
  assumes ok: "sessions_ok s ss" and "map_of ss n = None" and "phase_ok (ss_phase x)" and "flight_ok s' x"
    and grow: "\<And>k v. map_of (ms_inFlight s) k = Some v \<Longrightarrow> map_of (ms_inFlight s') k = Some v"
    and new: "\<And>i. ss_identity x = Some i \<Longrightarrow> map_of (ms_inFlight s) (ident_key i) = None"
  shows "sessions_ok s' (AList.update n x ss)"
proof (rule sessions_okI)
  have keys: "session_key y \<noteq> session_key x" if "map_of ss m = Some y" "session_key x \<noteq> None" for m y
    using that sessions_okD(2) [OF ok that(1)] new
    by (auto simp: flight_ok_def session_key_def split: option.splits)
  have keep: "flight_ok s' y" if "flight_ok s y" for y
    using that grow by (auto simp: flight_ok_def split: option.splits)
  fix m y
  assume y: "map_of (AList.update n x ss) m = Some y"
  then show "phase_ok (ss_phase y) \<and> flight_ok s' y"
    using assms(3,4) sessions_okD(1,2) [OF ok] keep by (auto simp: map_lookups split: if_splits)
  fix m' z
  assume z: "map_of (AList.update n x ss) m' = Some z"
    and key: "session_key y = session_key z" "session_key y \<noteq> None"
  consider "m = n" "y = x" | "m \<noteq> n" "map_of ss m = Some y"
    using y by (auto simp: map_lookups split: if_splits)
  moreover consider "m' = n" "z = x" | "m' \<noteq> n" "map_of ss m' = Some z"
    using z by (auto simp: map_lookups split: if_splits)
  ultimately show "m = m'"
    using keys [of m y] keys [of m' z] sessions_okD(3) [OF ok, of m' z m y] key by metis
qed

lemma sessions_ok_end:
  assumes "sessions_ok s ss" and "map_of ss n = Some x"
    and "ms_inFlight s' = ms_inFlight (clear_inFlight (ss_identity x) s)"
  shows "sessions_ok s' (AList.delete n ss)"
proof -
  have "flight_ok s' y" if y: "map_of ss m = Some y" "m \<noteq> n" for m y
  proof -
    have "session_key x \<noteq> session_key y \<or> session_key y = None"
      using assms(1,2) y unfolding sessions_ok_def by metis
    moreover have "flight_ok s y" using assms(1) y(1) unfolding sessions_ok_def by blast
    ultimately show ?thesis
      using assms(3) by (auto simp: flight_ok_def session_key_def clear_inFlight_def map_lookups split: option.splits)
  qed
  note kept = this
  show ?thesis
  proof (rule sessions_okI)
    fix m y
    assume "map_of (AList.delete n ss) m = Some y"
    then have y: "map_of ss m = Some y" "m \<noteq> n" by (auto simp: map_lookups split: if_splits)
    then show "phase_ok (ss_phase y) \<and> flight_ok s' y" using kept sessions_okD(1) [OF assms(1)] by blast
    fix m' z
    assume "map_of (AList.delete n ss) m' = Some z" and key: "session_key y = session_key z" "session_key y \<noteq> None"
    then have "map_of ss m' = Some z" by (auto simp: map_lookups split: if_splits)
    from sessions_okD(3) [OF assms(1) this y(1)] key show "m = m'" by simp
  qed
qed

lemma inFlight_unchanged:
  "open_store s = Inr s' \<Longrightarrow> ms_inFlight s' = ms_inFlight s"
  "ms_inFlight (close_store s) = ms_inFlight s"
  "claimOutbox s now request = (s', res) \<Longrightarrow> ms_inFlight s' = ms_inFlight s"
  "acknowledgeOutbox s now areq = Inr (s', a) \<Longrightarrow> ms_inFlight s' = ms_inFlight s"
  "watch_store s w cursor = Inr s' \<Longrightarrow> ms_inFlight s' = ms_inFlight s"
  "ms_inFlight (watch_next_store s w caller) = ms_inFlight s"
  "ms_inFlight (watch_return s w) = ms_inFlight s"
proof -
  show "open_store s = Inr s' \<Longrightarrow> ms_inFlight s' = ms_inFlight s"
    by (auto simp: open_store_def split: if_splits)
  show "ms_inFlight (close_store s) = ms_inFlight s" by (simp add: close_store_def)
  show "claimOutbox s now request = (s', res) \<Longrightarrow> ms_inFlight s' = ms_inFlight s"
    by (erule claimOutbox_cases) (auto simp: advanceFence_def split: option.split)
  show "acknowledgeOutbox s now areq = Inr (s', a) \<Longrightarrow> ms_inFlight s' = ms_inFlight s"
    by (erule acknowledgeOutbox_cases) (auto simp: advanceFence_def Let_def split: option.split)
  show "watch_store s w cursor = Inr s' \<Longrightarrow> ms_inFlight s' = ms_inFlight s"
    by (auto simp: watch_store_def)
  show "ms_inFlight (watch_next_store s w caller) = ms_inFlight s" "ms_inFlight (watch_return s w) = ms_inFlight s"
    by (simp_all add: watch_next_store_def watch_return_def update_watcher_def)
qed

lemma transact_commit_cases:
  assumes "transact_commit s options identity staged result = (s', r)"
  obtains (failed) e where "commit s options identity staged result = Inl e" "s' = clear_inFlight identity s" "r = Inl e"
    | (succeeded) s1 where "commit s options identity staged result = Inr (s1, canon result)"
      "s' = clear_inFlight identity s1" "r = Inr (canon (canon result))"
proof (cases "commit s options identity staged result")
  case (Inl e)
  with assms show thesis by (intro failed) (auto simp: transact_commit_def)
next
  case (Inr p)
  then obtain s1 where c: "commit s options identity staged result = Inr (s1, canon result)"
    by (cases p) (auto elim: commit_InrE)
  with assms show thesis by (intro succeeded) (auto simp: transact_commit_def)
qed

lemma inFlight_transact_commit:
  "transact_commit s options identity staged result = (s', r) \<Longrightarrow>
   ms_inFlight s' = ms_inFlight (clear_inFlight identity s)"
proof (erule transact_commit_cases)
  fix s1
  assume "commit s options identity staged result = Inr (s1, canon result)" and s': "s' = clear_inFlight identity s1"
  then have "ms_inFlight s1 = ms_inFlight s" by (auto elim!: commit_InrE simp: committed_fields)
  then show ?thesis by (simp add: s' clear_inFlight_def split: option.split)
qed simp

lemma system_ok_start:
  assumes "transact_begin s options = Inr (s', Started identity tx)" and "sessions_ok s ss" and "map_of ss n = None"
  shows "sessions_ok s' (AList.update n \<lparr>ss_options = options, ss_identity = identity, ss_phase = Working tx\<rparr> ss)"
  using assms(1)
proof (cases rule: transact_begin_InrE)
  case plain
  then show ?thesis using assms(2,3)
    by (intro sessions_ok_start [OF assms(2,3)]) (auto simp: phase_ok_def tx_ok_begin flight_ok_def)
next
  case (fresh i)
  then show ?thesis using assms(2,3)
    by (intro sessions_ok_start [OF assms(2,3)])
      (auto simp: phase_ok_def tx_ok_begin flight_ok_def map_lookups)
qed simp_all

lemma staged_ok_return: "transact_return tx result = Inr (staged, r) \<Longrightarrow> tx_ok tx \<Longrightarrow> staged_ok staged"
  by (auto simp: transact_return_def intro: tx_finish_staged_ok)

lemma system_ok_step: "system_step sys sys' \<Longrightarrow> system_ok sys \<Longrightarrow> system_ok sys'"
proof (induction rule: system_step.induct)
  case (start s options s' identity tx ss n)
  then show ?case by (auto simp: system_ok_def intro: store_ok_begin system_ok_start)
next
  case (work ss n x tx tx' s)
  then have "sessions_ok s ss" "phase_ok (Working tx)" by (auto simp: system_ok_def dest: sessions_okD)
  with work show ?case
    by (auto simp: system_ok_def phase_ok_def intro!: sessions_ok_replace tx_ok_step)
next
  case (throws ss n x tx s)
  then show ?case
    by (auto simp: system_ok_def transact_throw_def store_ok_clear intro!: sessions_ok_end)
next
  case (returns ss n x tx result staged result' s)
  then have "sessions_ok s ss" "phase_ok (Working tx)" by (auto simp: system_ok_def dest: sessions_okD)
  with returns show ?case
    by (auto simp: system_ok_def phase_ok_def intro!: sessions_ok_replace dest: staged_ok_return)
next
  case (commits ss n x staged result s s' r)
  then show ?case
    by (auto simp: system_ok_def intro: store_ok_transact_commit sessions_ok_end inFlight_transact_commit)
qed (auto simp: system_ok_def watch_next_store_def watch_return_def
      intro: store_ok_open store_ok_close store_ok_claim store_ok_acknowledge store_ok_watch
        sessions_ok_inFlight inFlight_unchanged store_ok_update_watcher watcher_ok_next watcher_ok_close
        inFlight_unchanged(6,7) [unfolded watch_next_store_def watch_return_def])

lemma system_ok_new: "system_ok new_system"
  by (simp add: system_ok_def new_system_def store_ok_new sessions_ok_def)

lemma system_ok_steps: "system_step\<^sup>*\<^sup>* sys sys' \<Longrightarrow> system_ok sys \<Longrightarrow> system_ok sys'"
  by (induction rule: rtranclp_induct) (auto intro: system_ok_step)

lemma system_ok_reachable: "reachable sys \<Longrightarrow> system_ok sys"
  unfolding reachable_def by (erule system_ok_steps) (rule system_ok_new)

lemma system_step_evolves: "system_step sys sys' \<Longrightarrow> system_ok sys \<Longrightarrow> evolves (sys_store sys) (sys_store sys')"
proof (induction rule: system_step.induct)
  case (open_run s s' ss)
  then show ?case by (auto simp: open_store_def intro: evolves_same split: if_splits)
next
  case (close s ss)
  then show ?case by (auto simp: close_store_def intro: evolves_same)
next
  case (start s options s' identity tx ss n)
  then show ?case by (auto elim!: transact_begin_InrE intro: evolves_same)
next
  case (throws ss n x tx s)
  then show ?case by (auto simp: transact_throw_def intro: evolves_same)
next
  case (commits ss n x staged result s s' r)
  then have ok: "store_ok s" "phase_ok (Queued staged result)" "flight_ok s x"
    by (auto simp: system_ok_def dest: sessions_okD)
  from commits(3) show ?case
  proof (cases rule: transact_commit_cases)
    case (failed e)
    then show ?thesis by (auto intro: evolves_same)
  next
    case (succeeded s1)
    have "map_of (ms_idempotency s) (ident_key i) = None" if "ss_identity x = Some i" for i
    proof -
      have "ident_key i \<in> fst ` set (ms_inFlight s)"
        using ok(3) that by (force simp: flight_ok_def dest: map_of_SomeD)
      then show ?thesis using ok(1) by (auto simp: store_ok_def idempotency_ok_def map_of_eq_None_iff)
    qed
    then have "evolves s s1" using evolves_commit(1) [OF _ succeeded(1)] ok(2) by (simp add: phase_ok_def)
    moreover have "evolves s1 (clear_inFlight (ss_identity x) s1)" by (rule evolves_same) simp_all
    ultimately show ?thesis using succeeded(2) by (auto intro: evolves_trans)
  qed
qed (auto simp: watch_store_def watch_next_store_def watch_return_def update_watcher_def
      intro: evolves_refl evolves_same evolves_claim evolves_acknowledge)

lemma system_steps_evolve:
  "system_step\<^sup>*\<^sup>* sys sys' \<Longrightarrow> system_ok sys \<Longrightarrow> evolves (sys_store sys) (sys_store sys')"
proof (induction rule: rtranclp_induct)
  case base
  then show ?case by (simp add: evolves_refl)
next
  case (step sys1 sys2)
  then show ?case by (metis evolves_trans system_step_evolves system_ok_steps)
qed

section \<open>Properties\<close>

text \<open>
  C37. In every reachable state of the store and its clients the invariant holds: every record is filed
  under its key with a normalised value and a revision no later than the store's, the journal and the
  change log are ordered by revision, every outbox entry has at most one of claim and acknowledgement and
  a claim epoch equal to its attempt, every open watch has delivered or queued exactly the changes after
  its cursor, and no two running transactions have the same idempotency key, nor one that is already
  recorded.
\<close>

theorem reachable_invariant: "reachable sys \<Longrightarrow> system_ok sys"
  by (rule system_ok_reachable)

theorem reachable_invariant_witness:
  "let k = \<lparr>key_namespace = [116], key_collection = [99], key_id = [97]\<rparr>;
       options = \<lparr>opt_fencing = None, opt_idempotencyKey = Some [107], opt_idempotencyFingerprint = Some [102]\<rparr>;
       i = \<lparr>ident_key = [107], ident_fingerprint = [102]\<rparr>;
       s = new_store\<lparr>ms_lifecycle := StoreOpen, ms_inFlight := [([107], [102])]\<rparr>
   in system_ok \<lparr>sys_store = s, sys_sessions =
        [(0, \<lparr>ss_options = options, ss_identity = Some i, ss_phase = Working (begin_transaction [])\<rparr>)]\<rparr>"
proof -
  let ?options = "\<lparr>opt_fencing = None, opt_idempotencyKey = Some [107], opt_idempotencyFingerprint = Some [102]\<rparr> :: transaction_options"
  let ?i = "\<lparr>ident_key = [107], ident_fingerprint = [102]\<rparr> :: idempotency_identity"
  let ?s1 = "new_store\<lparr>ms_lifecycle := StoreOpen\<rparr>"
  let ?s2 = "?s1\<lparr>ms_inFlight := [([107], [102])]\<rparr>"
  let ?ss = "[(0, \<lparr>ss_options = ?options, ss_identity = Some ?i, ss_phase = Working (begin_transaction [])\<rparr>)]"
  have "open_store new_store = Inr ?s1" by (simp add: open_store_def new_store_def)
  from system_step.open_run [OF this, of "[]"]
  have a: "system_step new_system \<lparr>sys_store = ?s1, sys_sessions = []\<rparr>" by (simp add: new_system_def)
  have "transact_begin ?s1 ?options = Inr (?s2, Started (Some ?i) (begin_transaction []))"
    by (simp add: transact_begin_def assertOpen_def idempotencyIdentity_def new_store_def)
  from system_step.start [OF this, of "[]" 0]
  have b: "system_step \<lparr>sys_store = ?s1, sys_sessions = []\<rparr> \<lparr>sys_store = ?s2, sys_sessions = ?ss\<rparr>" by simp
  have "reachable \<lparr>sys_store = ?s2, sys_sessions = ?ss\<rparr>"
    unfolding reachable_def by (rule rtranclp.rtrancl_into_rtrancl [OF r_into_rtranclp]) (rule a, rule b)
  from reachable_invariant [OF this] show ?thesis by (simp add: new_store_def)
qed

lemma commit_put_revision:
  assumes "staged_ok staged" and "commit s options identity staged result = Inr (s', r)"
    and "PutMutation k v e \<in> set (st_mutations staged)" and "ms_revision s' \<le> ms_revision t"
    and "evolves s' t" and "map_of (ms_records t) (serializedKey k) = Some x"
  shows "ms_revision s < rec_revision x"
proof -
  from assms(2) obtain "next" applied newOutbox advances where c:
    "check_mutations (st_mutations staged) (ms_records s) [] = Inr (next, applied)"
    and s': "s' = remember identity result (committed s options staged next applied newOutbox advances)"
    by (rule commit_InrE)
  have "mutation_for (st_mutations staged) (serializedKey k) = Some (PutMutation k v e)"
    using mutation_for_mem [of "st_mutations staged" "PutMutation k v e"] assms(1,3)
    by (simp add: staged_ok_def distinct_mut_id)
  then have rec: "map_of (ms_records s') (serializedKey k) =
      Some \<lparr>rec_key = k, rec_value = canon v, rec_revision = ms_revision s + 1\<rparr>"
    using committed_records [OF assms(1) c] by (simp add: s')
  have "map_of (ms_records t) (serializedKey k) = map_of (ms_records s') (serializedKey k) \<or>
      ms_revision s' < rec_revision x"
    using assms(5,6) unfolding evolves_def by blast
  moreover have "ms_revision s \<le> ms_revision s'" by (simp add: s' committed_fields(5))
  ultimately show ?thesis using rec assms(6) by auto
qed

lemma system_commit:
  assumes "system_ok sys" and "map_of (sys_sessions sys) n = Some x" and "ss_phase x = Queued staged result"
    and "transact_commit (sys_store sys) (ss_options x) (ss_identity x) staged result = (s1, Inr r)"
    and "system_step\<^sup>*\<^sup>* \<lparr>sys_store = s1, sys_sessions = AList.delete n (sys_sessions sys)\<rparr> sys2"
  obtains s0 where "staged_ok staged"
    "commit (sys_store sys) (ss_options x) (ss_identity x) staged result = Inr (s0, canon result)"
    "r = canon (canon result)" "evolves s0 (sys_store sys2)" "system_ok sys2"
    "fence_reached (sys_store sys2) (opt_fencing (ss_options x))"
proof -
  from system_step.commits [OF assms(2,3,4)] have step:
    "system_step sys \<lparr>sys_store = s1, sys_sessions = AList.delete n (sys_sessions sys)\<rparr>"
    by (cases sys) simp
  then have ok1: "system_ok \<lparr>sys_store = s1, sys_sessions = AList.delete n (sys_sessions sys)\<rparr>"
    using assms(1) by (rule system_ok_step)
  have staged: "staged_ok staged" and flight: "flight_ok (sys_store sys) x" and ok: "store_ok (sys_store sys)"
    using assms(1-3) by (auto simp: system_ok_def phase_ok_def dest: sessions_okD)
  from assms(4) obtain s0 where c:
    "commit (sys_store sys) (ss_options x) (ss_identity x) staged result = Inr (s0, canon result)"
    "s1 = clear_inFlight (ss_identity x) s0" "r = canon (canon result)"
    by (cases rule: transact_commit_cases) auto
  have "map_of (ms_idempotency (sys_store sys)) (ident_key i) = None" if "ss_identity x = Some i" for i
  proof -
    have "ident_key i \<in> fst ` set (ms_inFlight (sys_store sys))"
      using flight that by (force simp: flight_ok_def dest: map_of_SomeD)
    then show ?thesis using ok by (auto simp: store_ok_def idempotency_ok_def map_of_eq_None_iff)
  qed
  then have fence: "fence_reached s0 (opt_fencing (ss_options x))"
    using evolves_commit(2) [OF staged c(1)] by blast
  have "evolves s0 s1" by (simp add: c(2) evolves_same)
  moreover have "evolves s1 (sys_store sys2)" using system_steps_evolve [OF assms(5) ok1] by simp
  ultimately have ev: "evolves s0 (sys_store sys2)" by (rule evolves_trans)
  show thesis
    using that [OF staged c(1) c(3) ev] system_ok_steps [OF assms(5) ok1] fence_reached_evolves [OF fence ev]
    by blast
qed

text \<open>
  An example for the witnesses: one transaction with an idempotency key and a fencing epoch, queued for
  its commit, and the store its commit leaves.
\<close>

definition example_key :: state_key where
  "example_key = \<lparr>key_namespace = [116], key_collection = [99], key_id = [97]\<rparr>"

definition example_identity :: idempotency_identity where
  "example_identity = \<lparr>ident_key = [107], ident_fingerprint = [102]\<rparr>"

definition example_options :: transaction_options where
  "example_options =
     \<lparr>opt_fencing = Some \<lparr>fence_resource = [114], fence_epoch = 5\<rparr>,
      opt_idempotencyKey = Some [107], opt_idempotencyFingerprint = Some [102]\<rparr>"

definition example_staged :: staged_transaction where
  "example_staged = \<lparr>st_mutations = [PutMutation example_key (JInt 7) Absent], st_operations = [], st_outbox = []\<rparr>"

definition example_session :: session where
  "example_session =
     \<lparr>ss_options = example_options, ss_identity = Some example_identity, ss_phase = Queued example_staged (JInt 1)\<rparr>"

definition example_system :: store_system where
  "example_system =
     \<lparr>sys_store = new_store\<lparr>ms_lifecycle := StoreOpen, ms_inFlight := [([107], [102])]\<rparr>,
      sys_sessions = [(0, example_session)]\<rparr>"

definition example_committed :: memory_store where
  "example_committed = new_store
     \<lparr>ms_lifecycle := StoreOpen,
      ms_records := [(serializedKey example_key,
        \<lparr>rec_key = example_key, rec_value = JInt 7, rec_revision = 1\<rparr>)],
      ms_fences := [([114], 5)],
      ms_changes := [\<lparr>ch_revision = 1, ch_key = example_key, ch_kind = PutChange (JInt 7)\<rparr>],
      ms_idempotency := [([107], \<lparr>idem_fingerprint = [102], idem_result = JInt 1\<rparr>)],
      ms_revision := 1\<rparr>"

lemma example_system_ok: "system_ok example_system"
  by (auto simp: system_ok_def example_system_def store_ok_def new_store_def records_ok_def journal_ok_def
      outbox_ok_def changes_ok_def watches_ok_def idempotency_ok_def map_ok_def
      phase_ok_def staged_ok_def example_staged_def flight_ok_def example_session_def example_identity_def
      intro!: sessions_okI split: if_splits)

lemma example_commit:
  "transact_commit (sys_store example_system) (ss_options example_session) (ss_identity example_session)
     example_staged (JInt 1) = (example_committed, Inr (JInt 1))"
  by (simp add: transact_commit_def example_system_def example_session_def commit_eq assertOpen_def new_store_def
      example_staged_def matchesExpectedRevision_def example_options_def assertFence_def clear_inFlight_def
      example_identity_def remember_def committed_def commit_mutates_def Let_def advanceFence_def
      example_committed_def)

text \<open>
  C1. No lost update: once a transaction that puts a key has committed, every transaction that expects that
  key at a revision from before the commit fails, whatever steps of any clients lie in between, with
  \<open>STATE_REVISION_CONFLICT\<close>, or \<open>STATE_CLOSED\<close> when the store has been closed.
\<close>

theorem no_lost_update:
  assumes "system_ok sys" and "map_of (sys_sessions sys) n = Some x" and "ss_phase x = Queued staged result"
    and "transact_commit (sys_store sys) (ss_options x) (ss_identity x) staged result = (s1, Inr r)"
    and "PutMutation k v e \<in> set (st_mutations staged)"
    and "system_step\<^sup>*\<^sup>* \<lparr>sys_store = s1, sys_sessions = AList.delete n (sys_sessions sys)\<rparr> sys2"
    and "staged_ok staged2" and "m \<in> set (st_mutations staged2)" and "mut_key m = k"
    and "mut_expected m = ExactRevision q" and "q \<le> ms_revision (sys_store sys)"
  shows "snd (transact_commit (sys_store sys2) options2 identity2 staged2 result2) =
    Inl (Diagnostic (if ms_lifecycle (sys_store sys2) = StoreOpen
                     then ''STATE_REVISION_CONFLICT'' else ''STATE_CLOSED''))"
proof -
  from assms(1-4,6) obtain s0 where staged: "staged_ok staged" and
    c: "commit (sys_store sys) (ss_options x) (ss_identity x) staged result = Inr (s0, canon result)"
    and ev: "evolves s0 (sys_store sys2)"
    by (rule system_commit)
  have "ms_revision s0 \<le> ms_revision (sys_store sys2)" using ev by (simp add: evolves_def)
  note newer = commit_put_revision [OF staged c assms(5) this ev]
  have "\<not> matchesExpectedRevision (map_of (ms_records (sys_store sys2)) (mut_id m)) (mut_expected m)"
    using assms(9-11) newer by (auto simp: matchesExpectedRevision_def split: option.split)
  then have "spec_commit 0 (st_mutations staged2) (abs_records (sys_store sys2)) = None"
    using assms(8) unfolding spec_commit_def spec_expected_abs by auto
  note conflict = commit_conflict [OF assms(7) _ this, of options2 identity2 result2]
  show ?thesis
  proof (cases "ms_lifecycle (sys_store sys2) = StoreOpen")
    case True
    with conflict show ?thesis by (simp add: transact_commit_def)
  next
    case False
    then show ?thesis by (simp add: transact_commit_def commit_eq assertOpen_def)
  qed
qed

theorem no_lost_update_witness:
  "snd (transact_commit example_committed example_options None
     (example_staged\<lparr>st_mutations := [DeleteMutation example_key (ExactRevision 0)]\<rparr>) JNull) =
   Inl (Diagnostic ''STATE_REVISION_CONFLICT'')"
proof -
  have x: "map_of (sys_sessions example_system) 0 = Some example_session"
    "ss_phase example_session = Queued example_staged (JInt 1)"
    by (simp_all add: example_system_def example_session_def)
  have m: "PutMutation example_key (JInt 7) Absent \<in> set (st_mutations example_staged)"
    by (simp add: example_staged_def)
  let ?staged = "example_staged\<lparr>st_mutations := [DeleteMutation example_key (ExactRevision 0)]\<rparr>"
  have ok: "staged_ok ?staged" by (simp add: staged_ok_def example_staged_def)
  have m2: "DeleteMutation example_key (ExactRevision 0) \<in> set (st_mutations ?staged)" by simp
  show ?thesis
    using no_lost_update [OF example_system_ok x example_commit m rtranclp.rtrancl_refl ok m2, of 0
        example_options None JNull]
    by (simp add: example_committed_def)
qed

text \<open>
  An idempotent transaction commits once: after a commit under an idempotency key, every later call with
  that key, while the store is open, returns the recorded result without running its work, or fails with
  \<open>STATE_IDEMPOTENCY_CONFLICT\<close> when its fingerprint differs.
\<close>

theorem idempotent_replay:
  assumes "system_ok sys" and "map_of (sys_sessions sys) n = Some x" and "ss_phase x = Queued staged result"
    and "ss_identity x = Some i"
    and "transact_commit (sys_store sys) (ss_options x) (ss_identity x) staged result = (s1, Inr r)"
    and "system_step\<^sup>*\<^sup>* \<lparr>sys_store = s1, sys_sessions = AList.delete n (sys_sessions sys)\<rparr> sys2"
    and "ms_lifecycle (sys_store sys2) = StoreOpen"
    and "idempotencyIdentity options2 = Inr (Some j)" and "ident_key j = ident_key i"
  shows "transact_begin (sys_store sys2) options2 =
    (if ident_fingerprint j = ident_fingerprint i then Inr (sys_store sys2, Replayed r)
     else Inl (Diagnostic ''STATE_IDEMPOTENCY_CONFLICT''))"
proof -
  from assms(1-3,5,6) obtain s0 where
    c: "commit (sys_store sys) (ss_options x) (ss_identity x) staged result = Inr (s0, canon result)"
    and r: "r = canon (canon result)" and ev: "evolves s0 (sys_store sys2)"
    by (rule system_commit)
  have "map_of (ms_idempotency s0) (ident_key i) =
      Some \<lparr>idem_fingerprint = ident_fingerprint i, idem_result = canon result\<rparr>"
    using c assms(4) by (auto elim!: commit_InrE simp: remember_def map_lookups)
  then have "map_of (ms_idempotency (sys_store sys2)) (ident_key i) =
      Some \<lparr>idem_fingerprint = ident_fingerprint i, idem_result = canon result\<rparr>"
    using ev unfolding evolves_def by blast
  then show ?thesis
    using assms(7-9) r
    by (auto simp: transact_begin_def assertOpen_def assertIdempotencyFingerprint_def canon_idem)
qed

theorem idempotent_replay_witness:
  "transact_begin example_committed example_options = Inr (example_committed, Replayed (JInt 1))"
proof -
  have x: "map_of (sys_sessions example_system) 0 = Some example_session"
    "ss_phase example_session = Queued example_staged (JInt 1)" "ss_identity example_session = Some example_identity"
    by (simp_all add: example_system_def example_session_def)
  have j: "idempotencyIdentity example_options = Inr (Some example_identity)"
    by (simp add: idempotencyIdentity_def example_options_def example_identity_def)
  show ?thesis
    using idempotent_replay [OF example_system_ok x example_commit rtranclp.rtrancl_refl _ j refl]
    by (simp add: example_committed_def)
qed

text \<open>
  C31. Fencing: after a commit under a fencing epoch, no later commit, claim or acknowledgement with a smaller
  epoch for that resource succeeds, and none of them changes anything but the in-flight entry of its own
  transaction.
\<close>

theorem stale_fence_rejected:
  assumes "system_ok sys" and "map_of (sys_sessions sys) n = Some x" and "ss_phase x = Queued staged result"
    and "opt_fencing (ss_options x) = Some f"
    and "transact_commit (sys_store sys) (ss_options x) (ss_identity x) staged result = (s1, Inr r)"
    and "system_step\<^sup>*\<^sup>* \<lparr>sys_store = s1, sys_sessions = AList.delete n (sys_sessions sys)\<rparr> sys2"
    and "fence_resource g = fence_resource f" and "fence_epoch g < fence_epoch f"
    and "opt_fencing options2 = Some g" and "cr_fencing creq = Some g" and "ar_fencing areq = Some g"
  shows "(\<exists>err. transact_commit (sys_store sys2) options2 identity2 staged2 result2 =
            (clear_inFlight identity2 (sys_store sys2), Inl err)) \<and>
         (\<exists>err. claimOutbox (sys_store sys2) now creq = (sys_store sys2, Inl err)) \<and>
         (\<exists>err. acknowledgeOutbox (sys_store sys2) now areq = Inl err)"
proof -
  from assms(1-3,5,6) have "fence_reached (sys_store sys2) (opt_fencing (ss_options x))"
    by (rule system_commit)
  from fence_reached_stale [OF this assms(4) refl assms(7,8)]
  have stale: "assertFence (sys_store sys2) (Some g) = Inl (Diagnostic ''STATE_FENCE_STALE'')" .
  have "\<exists>err. commit (sys_store sys2) options2 identity2 staged2 result2 = Inl err"
    using stale assms(9) by (cases "commit (sys_store sys2) options2 identity2 staged2 result2")
      (auto elim!: commit_InrE)
  moreover have "\<exists>err. claimOutbox (sys_store sys2) now creq = (sys_store sys2, Inl err)"
  proof (cases "claimOutbox (sys_store sys2) now creq")
    case (Pair s' res)
    have "\<nexists>p. and_then (assertOpen (sys_store sys2)) (\<lambda>_.
           and_then (assertOutboxClaimRequest creq) (\<lambda>limit.
           and_then (assertFence (sys_store sys2) (cr_fencing creq)) (\<lambda>advancesFence.
           and_then (toISOString now) (\<lambda>claimedAt. Inr (limit, advancesFence, claimedAt))))) = Inr p"
      using stale assms(10) by auto
    then show ?thesis unfolding claimOutbox_def by (auto split: sum.split)
  qed
  moreover have "\<exists>err. acknowledgeOutbox (sys_store sys2) now areq = Inl err"
    using stale assms(11) by (cases "acknowledgeOutbox (sys_store sys2) now areq")
      (auto simp: acknowledgeOutbox_def)
  ultimately show ?thesis by (auto simp: transact_commit_def)
qed

theorem stale_fence_rejected_witness:
  "\<exists>err. transact_commit example_committed
     \<lparr>opt_fencing = Some \<lparr>fence_resource = [114], fence_epoch = 4\<rparr>,
      opt_idempotencyKey = None, opt_idempotencyFingerprint = None\<rparr> None example_staged JNull =
   (example_committed, Inl err)"
proof -
  let ?f = "\<lparr>fence_resource = [114], fence_epoch = 5\<rparr> :: fencing"
  let ?g = "\<lparr>fence_resource = [114], fence_epoch = 4\<rparr> :: fencing"
  let ?creq = "\<lparr>cr_owner = [97], cr_leaseDurationMs = Num 1, cr_limit = None, cr_topic = None, cr_fencing = Some ?g\<rparr>"
  let ?areq = "\<lparr>ar_messageId = [97], ar_owner = [97], ar_claimEpoch = 1, ar_outcome = AckCompleted,
                ar_retryAt = None, ar_fencing = Some ?g\<rparr>"
  have x: "map_of (sys_sessions example_system) 0 = Some example_session"
    "ss_phase example_session = Queued example_staged (JInt 1)" "opt_fencing (ss_options example_session) = Some ?f"
    by (simp_all add: example_system_def example_session_def example_options_def)
  have lt: "fence_resource ?g = fence_resource ?f" "fence_epoch ?g < fence_epoch ?f" by simp_all
  show ?thesis
    using stale_fence_rejected [OF example_system_ok x example_commit rtranclp.rtrancl_refl lt,
        of "\<lparr>opt_fencing = Some ?g, opt_idempotencyKey = None, opt_idempotencyFingerprint = None\<rparr>"
           ?creq ?areq None example_staged JNull 0]
    by (simp add: clear_inFlight_def)
qed

end
