(* ===== verification/Store_Delivery.thy ===== *)
theory Store_Delivery
  imports Store_System
begin

text \<open>
  What the outbox and the watches of the in-memory store promise: claims in order and with exclusive
  leases, acknowledgements that are final, fenced by the claim epoch and idempotent, and watches that
  report every change once and in order.
\<close>

section \<open>The entry of one message\<close>

definition retry_acknowledged :: "stored_outbox \<Rightarrow> bool" where
  "retry_acknowledged r = (case so_acknowledgement r of Some a \<Rightarrow> ack_outcome a = AckRetry | None \<Rightarrow> False)"

lemma collect_outbox_Cons:
  assumes "collect_outbox outbox (m # ms) new = Inr new'"
  obtains "collect_outbox outbox ms new = Inr new'"
  | "map_of outbox (msg_messageId m) = None \<or>
       (\<exists>r. map_of outbox (msg_messageId m) = Some r \<and> retry_acknowledged r)"
    "collect_outbox outbox ms (AList.update (msg_messageId m) m new) = Inr new'"
  using assms by (auto simp: retry_acknowledged_def split: option.splits if_splits)

lemma collect_outbox_keys:
  "collect_outbox outbox ms new = Inr new' \<Longrightarrow> map_of new' i = Some x \<Longrightarrow>
   map_of new i \<noteq> None \<or> map_of outbox i = None \<or> (\<exists>r. map_of outbox i = Some r \<and> retry_acknowledged r)"
proof (induction ms arbitrary: new)
  case (Cons m ms)
  from Cons.prems(1) show ?case
  proof (cases rule: collect_outbox_Cons)
    case 1
    from Cons.IH [OF this Cons.prems(2)] show ?thesis .
  next
    case 2
    with Cons.IH [OF 2(2) Cons.prems(2)] show ?thesis by (auto simp: map_lookups split: if_splits)
  qed
qed simp

lemma collect_outbox_ids:
  "collect_outbox outbox ms new = Inr new' \<Longrightarrow> \<forall>(k, m) \<in> set new. k = msg_messageId m \<Longrightarrow>
   \<forall>(k, m) \<in> set new'. k = msg_messageId m"
proof (induction ms arbitrary: new)
  case (Cons m ms)
  have upd: "\<forall>(k, x) \<in> set (AList.update (msg_messageId m) m new). k = msg_messageId x"
    using Cons.prems(2) set_update_alist [of "msg_messageId m" m new] by auto
  from Cons.prems(1) show ?case
  proof (cases rule: collect_outbox_Cons)
    case 1
    from Cons.IH [OF this Cons.prems(2)] show ?thesis .
  next
    case 2
    from Cons.IH [OF 2(2) upd] show ?thesis .
  qed
qed simp

lemma enqueue_all_other:
  "i \<notin> msg_messageId ` set ms \<Longrightarrow> map_of (enqueue_all n ms outbox) i = map_of outbox i"
  by (induction ms arbitrary: n outbox) (auto simp: map_lookups)

text \<open>A commit leaves alone every entry that is not waiting for a redelivery the sender may replace.\<close>

lemma commit_keeps_entry:
  assumes "commit s options identity staged result = Inr (s', r)"
    and "map_of (ms_outbox s) i = Some e" and "\<not> retry_acknowledged e"
  shows "map_of (ms_outbox s') i = Some e"
proof -
  from assms(1) obtain "next" applied newOutbox advances where
    new: "collect_outbox (ms_outbox s) (st_outbox staged) [] = Inr newOutbox"
    and s': "s' = remember identity result (committed s options staged next applied newOutbox advances)"
    by (rule commit_InrE)
  have "map_of newOutbox i = None"
    using collect_outbox_keys [OF new, of i] assms(2,3) by (cases "map_of newOutbox i") auto
  moreover have "\<forall>(k, m) \<in> set newOutbox. k = msg_messageId m" using collect_outbox_ids [OF new] by simp
  ultimately have "i \<notin> msg_messageId ` set (map snd newOutbox)"
    by (auto simp: map_of_eq_None_iff rev_image_eqI)
  from enqueue_all_other [OF this] assms(2) show ?thesis
    by (simp add: s' committed_def Let_def)
qed

lemma claim_keeps_skipped:
  assumes ok: "outbox_ok (ms_outbox s) n" and "map_of (ms_outbox s) i = Some e" and "skip_outbox request now e"
    and claim: "claimOutbox s now request = (s', res)"
  shows "map_of (ms_outbox s') i = Some e"
    and "res = Inr cs \<Longrightarrow> i \<notin> (msg_messageId \<circ> cl_message) ` set cs"
proof -
  have untouched: "map_of (claim_entries pairs (ms_outbox s)) i = Some e \<and>
      i \<notin> (msg_messageId \<circ> cl_message) ` set (map snd pairs)" if made: "claims_made s now request pairs" for pairs
  proof -
    note pairs = claims_made_pairs [OF ok made]
    have ne: "fst p \<noteq> i" if "(p, c) \<in> set pairs" for p c
      using pairs(2) [OF that] assms(2,3) by auto
    have "map_of (map (\<lambda>(p, c). (fst p, apply_claim c (snd p))) pairs) i = None"
      using ne by (force simp: map_of_eq_None_iff)
    then have "map_of (claim_entries pairs (ms_outbox s)) i = Some e"
      using claim_entries_lookup [OF pairs(1)] assms(2) by simp
    moreover have "msg_messageId (cl_message c) \<noteq> i" if pc: "(p, c) \<in> set pairs" for p c
    proof -
      from made pc obtain claimedAt where "make_claim request now claimedAt (snd p) = Inr c"
        unfolding claims_made_def by auto
      then have "msg_messageId (cl_message c) = msg_messageId (so_message (snd p))"
        using make_claim_InrD by blast
      moreover have "outbox_entry_ok n (fst p, snd p)"
        using ok pairs(2) [OF pc] by (auto simp: outbox_ok_def dest: map_of_SomeD)
      ultimately show ?thesis using ne [OF pc] by (simp add: outbox_entry_ok_def case_prod_unfold)
    qed
    then have "i \<notin> (msg_messageId \<circ> cl_message) ` set (map snd pairs)" by (metis (no_types, lifting)
      comp_apply imageE list.set_map prod.collapse)
    ultimately show ?thesis by blast
  qed
  show "map_of (ms_outbox s') i = Some e"
    using claim assms(2) untouched
    by (cases rule: claimOutbox_cases) (auto simp: advanceFence_def split: option.splits)
  assume res: "res = Inr cs"
  from claim show "i \<notin> (msg_messageId \<circ> cl_message) ` set cs"
  proof (cases rule: claimOutbox_cases)
    case (claimed pairs advances limit)
    then have "cs = map snd pairs" using res by simp
    then show ?thesis using untouched [OF claimed(4)] by blast
  qed (use res in simp_all)
qed

lemma advanceFence_outbox [simp]: "ms_outbox (advanceFence f s) = ms_outbox s"
  by (simp add: advanceFence_def split: option.split)

lemma acknowledge_other_entry:
  assumes "acknowledgeOutbox s now request = Inr (s', a)" and "map_of (ms_outbox s) i = Some e"
    and "ar_messageId request = i \<longrightarrow> \<not> claim_matches request (so_claim e)"
  shows "map_of (ms_outbox s') i = Some e"
  using assms(1) by (cases rule: acknowledgeOutbox_cases) (use assms in \<open>auto simp: Let_def map_lookups\<close>)

section \<open>An example for the witnesses\<close>

definition iso :: "int \<Rightarrow> jstring" where
  "iso t = (case toISOString t of Inr s \<Rightarrow> s | Inl _ \<Rightarrow> [])"

lemma iso_valid:
  assumes "valid_time t"
  shows "toISOString t = Inr (iso t)" and "parse_iso (iso t) = Some t"
proof -
  obtain s where "toISOString t = Inr s" using toISOString_total [OF assms] by blast
  then show "toISOString t = Inr (iso t)" "parse_iso (iso t) = Some t"
    using parse_iso_toISOString by (auto simp: iso_def)
qed

definition example_message :: outbox_message where
  "example_message =
     \<lparr>msg_messageId = [109], msg_operationId = [111], msg_topic = [116], msg_payload = JNull,
      msg_createdAt = iso 0, msg_availableAt = iso 0\<rparr>"

definition example_claim :: outbox_claim where
  "example_claim =
     \<lparr>cl_message = example_message, cl_owner = [97], cl_claimEpoch = 1, cl_attempt = 1,
      cl_claimedAt = iso 0, cl_expiresAt = iso 1000\<rparr>"

definition example_entry :: stored_outbox where
  "example_entry =
     \<lparr>so_message = example_message, so_enqueueSequence = 1, so_attempt = 1, so_claim = Some example_claim,
      so_acknowledgement = None, so_acknowledgedClaim = None\<rparr>"

definition example_outbox_store :: memory_store where
  "example_outbox_store = new_store
     \<lparr>ms_lifecycle := StoreOpen, ms_outbox := [([109], example_entry)], ms_outboxSequence := 1,
      ms_revision := 2\<rparr>"

definition example_request :: claim_request where
  "example_request =
     \<lparr>cr_owner = [98], cr_leaseDurationMs = Num 500, cr_limit = None, cr_topic = None, cr_fencing = None\<rparr>"

lemma example_outbox_store_ok: "store_ok example_outbox_store"
  by (simp add: store_ok_def example_outbox_store_def new_store_def records_ok_def journal_ok_def
      outbox_ok_def changes_ok_def watches_ok_def idempotency_ok_def map_ok_def outbox_entry_ok_def
      example_entry_def example_message_def claim_ok_def example_claim_def)

lemma example_times: "valid_time 0" "valid_time 5" "valid_time 1000" "valid_time 1500"
  by (simp_all add: valid_time_def)

section \<open>Properties of the outbox\<close>

text \<open>
  A successful claim returns fresh claims on exactly the first eligible messages (at most \<open>limit\<close> of
  them) in the order of availability time, enqueue sequence and identifier: those that are available,
  not completed, of the requested topic and not under an unexpired claim. Each claim carries the
  requester, an epoch one above the previous attempt and a lease that ends exactly \<open>leaseDurationMs\<close> after
  the clock's reading.
\<close>

theorem claims_first_eligible:
  assumes "store_ok s" and "claimOutbox s now request = (s', Inr cs)"
  shows "\<exists>limit. assertOutboxClaimRequest request = Inr limit \<and>
    list_all2 (\<lambda>e c. msg_messageId (cl_message c) = fst e \<and> cl_owner c = cr_owner request \<and>
        cl_attempt c = so_attempt (snd e) + 1 \<and> cl_claimEpoch c = cl_attempt c \<and>
        parse_iso (cl_expiresAt c) = Some (now + lease_ms request) \<and>
        map_of (ms_outbox s') (fst e) = Some (apply_claim c (snd e)))
      (take limit (filter (\<lambda>e. \<not> skip_outbox request now (snd e)) (sort_by compareOutboxEntries (ms_outbox s)))) cs"
  using assms(2)
proof (cases rule: claimOutbox_cases)
  case (claimed pairs advances limit)
  have ok: "outbox_ok (ms_outbox s) (ms_outboxSequence s)" using assms(1) by (simp add: store_ok_def)
  note pairs = claims_made_pairs [OF ok claimed(4)]
  have cs: "cs = map snd pairs" using claimed(5) by simp
  have first: "map fst pairs = take limit (eligible request now (sorted_outbox s))"
    using claimed(4,6) unfolding claims_made_def by (simp add: min_def split: if_splits)
  have "list_all2 (\<lambda>e c. msg_messageId (cl_message c) = fst e \<and> cl_owner c = cr_owner request \<and>
        cl_attempt c = so_attempt (snd e) + 1 \<and> cl_claimEpoch c = cl_attempt c \<and>
        parse_iso (cl_expiresAt c) = Some (now + lease_ms request) \<and>
        map_of (ms_outbox s') (fst e) = Some (apply_claim c (snd e))) (map fst pairs) (map snd pairs)"
    unfolding list_all2_map1 list_all2_map2 list_all2_same
  proof
    fix p
    assume p: "p \<in> set pairs"
    obtain e c where ec: "p = (e, c)" by (cases p)
    from claimed(4) p ec obtain claimedAt where "make_claim request now claimedAt (snd e) = Inr c"
      unfolding claims_made_def by auto
    note mk = make_claim_InrD [OF this]
    have "outbox_entry_ok (ms_outboxSequence s) (fst e, snd e)"
      using ok pairs(2) [of e c] p ec by (auto simp: outbox_ok_def dest: map_of_SomeD)
    moreover have "map_of (map (\<lambda>(e, c). (fst e, apply_claim c (snd e))) pairs) (fst e) = Some (apply_claim c (snd e))"
      using pairs(1) p ec by (intro map_of_is_SomeI) (force simp: comp_def case_prod_unfold)+
    then have "map_of (ms_outbox s') (fst e) = Some (apply_claim c (snd e))"
      using claimed(7) claim_entries_lookup [OF pairs(1)] p by auto
    ultimately show "msg_messageId (cl_message (snd p)) = fst (fst p) \<and> cl_owner (snd p) = cr_owner request \<and>
        cl_attempt (snd p) = so_attempt (snd (fst p)) + 1 \<and> cl_claimEpoch (snd p) = cl_attempt (snd p) \<and>
        parse_iso (cl_expiresAt (snd p)) = Some (now + lease_ms request) \<and>
        map_of (ms_outbox s') (fst (fst p)) = Some (apply_claim (snd p) (snd (fst p)))"
      using mk ec parse_iso_toISOString by (auto simp: outbox_entry_ok_def)
  qed
  with claimed(2) first cs show ?thesis by (auto simp: eligible_def)
qed simp_all

theorem claims_first_eligible_witness:
  "\<exists>c s'. claimOutbox example_outbox_store 1000 example_request = (s', Inr [c]) \<and>
     cl_owner c = [98] \<and> cl_attempt c = 2 \<and> parse_iso (cl_expiresAt c) = Some 1500 \<and>
     map_of (ms_outbox s') [109] = Some (apply_claim c example_entry)"
proof -
  have limit: "assertOutboxClaimRequest example_request = Inr 1"
    by (simp add: assertOutboxClaimRequest_def example_request_def IDENTITY_PATTERN_def is_alnum_def is_digit_def
        is_lower_def is_upper_def safe_integer_def MAX_SAFE_INTEGER_def)
  have keep: "\<not> skip_outbox example_request 1000 example_entry"
    by (simp add: skip_outbox_def example_entry_def example_request_def later_than_def example_message_def
        example_claim_def iso_valid(2) example_times)
  have lease: "lease_ms example_request = 500" by (simp add: lease_ms_def example_request_def)
  obtain c where mk: "make_claim example_request 1000 (iso 1000) example_entry = Inr c"
    using iso_valid(1) [OF example_times(4)]
    by (simp add: make_claim_def lease example_entry_def safe_integer_def MAX_SAFE_INTEGER_def)
  let ?s' = "advanceFence None (example_outbox_store\<lparr>ms_outbox := AList.update [109] (apply_claim c example_entry)
      (ms_outbox example_outbox_store), ms_revision := 3\<rparr>)"
  have claim: "claimOutbox example_outbox_store 1000 example_request = (?s', Inr [c])"
    unfolding claimOutbox_def using limit keep mk iso_valid(1) [OF example_times(3)]
    by (simp add: example_outbox_store_def assertOpen_def assertFence_def example_request_def Let_def)
  from claims_first_eligible [OF example_outbox_store_ok claim] limit keep lease
  have "cl_owner c = [98]" "cl_attempt c = 2" "parse_iso (cl_expiresAt c) = Some 1500"
    "map_of (ms_outbox ?s') [109] = Some (apply_claim c example_entry)"
    by (simp_all add: example_outbox_store_def example_entry_def example_request_def)
  with claim show ?thesis by blast
qed

text \<open>
  C35. A lease is exclusive: until it expires, the entry of a claimed message is changed neither by another
  claim (which does not return the message), nor by a commit that enqueues a message of the same
  identifier, nor by an acknowledgement with another owner or another claim epoch.
\<close>

theorem lease_exclusive:
  assumes "store_ok s" and "map_of (ms_outbox s) i = Some e" and "so_claim e = Some c"
    and "parse_iso (cl_expiresAt c) = Some t"
  shows "(\<forall>now request s' res. now < t \<longrightarrow> claimOutbox s now request = (s', res) \<longrightarrow>
            map_of (ms_outbox s') i = Some e \<and>
            (\<forall>cs. res = Inr cs \<longrightarrow> i \<notin> (msg_messageId \<circ> cl_message) ` set cs)) \<and>
         (\<forall>options identity staged result s' r. commit s options identity staged result = Inr (s', r) \<longrightarrow>
            map_of (ms_outbox s') i = Some e) \<and>
         (\<forall>now request s' a. acknowledgeOutbox s now request = Inr (s', a) \<longrightarrow>
            cl_owner c \<noteq> ar_owner request \<or> cl_claimEpoch c \<noteq> ar_claimEpoch request \<longrightarrow>
            map_of (ms_outbox s') i = Some e)"
proof -
  have ok: "outbox_ok (ms_outbox s) (ms_outboxSequence s)" using assms(1) by (simp add: store_ok_def)
  then have "outbox_entry_ok (ms_outboxSequence s) (i, e)"
    using assms(2) by (auto simp: outbox_ok_def dest: map_of_SomeD)
  with assms(3) have "\<not> retry_acknowledged e" by (auto simp: outbox_entry_ok_def retry_acknowledged_def)
  note commit = commit_keeps_entry [OF _ assms(2) this]
  have skip: "skip_outbox request now e" if "now < t" for request now
    using that assms(3,4) by (simp add: skip_outbox_def later_than_def)
  note claim = claim_keeps_skipped [OF ok assms(2) skip]
  have matches: "\<not> claim_matches request (so_claim e)"
    if "cl_owner c \<noteq> ar_owner request \<or> cl_claimEpoch c \<noteq> ar_claimEpoch request" for request
    using that assms(3) by (auto simp: claim_matches_def)
  show ?thesis
  proof (intro conjI allI impI)
    fix now request s' res cs
    assume "now < t" "claimOutbox s now request = (s', res)"
    from claim [OF this] show "map_of (ms_outbox s') i = Some e"
      and "res = Inr cs \<Longrightarrow> i \<notin> (msg_messageId \<circ> cl_message) ` set cs" .
  next
    fix options identity staged result s' r
    assume "commit s options identity staged result = Inr (s', r)"
    then show "map_of (ms_outbox s') i = Some e" by (rule commit)
  next
    fix now request s' a
    assume "acknowledgeOutbox s now request = Inr (s', a)"
      "cl_owner c \<noteq> ar_owner request \<or> cl_claimEpoch c \<noteq> ar_claimEpoch request"
    then show "map_of (ms_outbox s') i = Some e"
      using acknowledge_other_entry [OF _ assms(2)] matches by blast
  qed
qed

theorem lease_exclusive_witness:
  "map_of (ms_outbox (fst (claimOutbox example_outbox_store 999 example_request))) [109] = Some example_entry"
proof -
  have "map_of (ms_outbox example_outbox_store) [109] = Some example_entry"
    "so_claim example_entry = Some example_claim" "parse_iso (cl_expiresAt example_claim) = Some 1000"
    by (simp_all add: example_outbox_store_def example_entry_def example_claim_def iso_valid(2) example_times)
  note lease = lease_exclusive [OF example_outbox_store_ok this]
  show ?thesis
    using conjunct1 [OF lease, rule_format, of 999 example_request]
    by (cases "claimOutbox example_outbox_store 999 example_request") simp
qed

text \<open>
  Acknowledging is fenced and idempotent: an acknowledgement whose epoch is not the entry's current
  attempt always fails; one that succeeds is returned again, marked as a duplicate, when the same request
  is repeated at any time, and the repetition changes nothing.
\<close>

theorem acknowledgement_fenced_idempotent:
  assumes "store_ok s"
  shows "(\<forall>e. map_of (ms_outbox s) (ar_messageId request) = Some e \<longrightarrow> ar_claimEpoch request \<noteq> so_attempt e \<longrightarrow>
            (\<exists>err. acknowledgeOutbox s now request = Inl err)) \<and>
         (\<forall>s' a. acknowledgeOutbox s now request = Inr (s', a) \<longrightarrow>
            acknowledgeOutbox s' now' request = Inr (s', a\<lparr>ack_duplicate := True\<rparr>))"
proof (intro conjI allI impI)
  have ok: "outbox_ok (ms_outbox s) (ms_outboxSequence s)" using assms(1) by (simp add: store_ok_def)
  fix e
  assume e: "map_of (ms_outbox s) (ar_messageId request) = Some e" "ar_claimEpoch request \<noteq> so_attempt e"
  then have "outbox_entry_ok (ms_outboxSequence s) (ar_messageId request, e)"
    using ok by (auto simp: outbox_ok_def dest: map_of_SomeD)
  then have no: "\<not> claim_matches request (so_claim e)" "\<not> claim_matches request (so_acknowledgedClaim e)"
    using e(2) by (auto simp: outbox_entry_ok_def claim_ok_def claim_matches_def split: option.splits)
  show "\<exists>err. acknowledgeOutbox s now request = Inl err"
  proof (cases "acknowledgeOutbox s now request")
    case (Inr p)
    then obtain s' a where "acknowledgeOutbox s now request = Inr (s', a)" by (cases p) auto
    then have False
      by (cases rule: acknowledgeOutbox_cases) (use e no in auto)
    then show ?thesis ..
  qed auto
next
  fix s' a
  assume ack: "acknowledgeOutbox s now request = Inr (s', a)"
  then have pre: "assertOutboxAcknowledgementRequest request = Inr ()"
    by (auto simp: acknowledgeOutbox_def)
  have fence: "assertFence (if advances then advanceFence (ar_fencing request) t else t) (ar_fencing request) = Inr False"
    if "assertFence s (ar_fencing request) = Inr advances" "ms_fences t = ms_fences s" for advances t
    using assertFence_Inr [OF that(1)] that(2)
    by (auto simp: assertFence_def advanceFence_def map_lookups split: option.splits)
  have open': "ms_lifecycle (advanceFence f t) = ms_lifecycle t" for f t
    by (simp add: advanceFence_def split: option.split)
  from ack show "acknowledgeOutbox s' now' request = Inr (s', a\<lparr>ack_duplicate := True\<rparr>)"
  proof (cases rule: acknowledgeOutbox_cases)
    case (duplicate r a0 advances)
    let ?t = "if advances then s\<lparr>ms_revision := ms_revision s + 1\<rparr> else s"
    have s': "s' = (if advances then advanceFence (ar_fencing request) ?t else ?t)" using duplicate(9) by simp
    have "assertFence s' (ar_fencing request) = Inr False"
      unfolding s' by (rule fence [OF duplicate(2)]) simp
    moreover have "ms_lifecycle s' = StoreOpen" "ms_outbox s' = ms_outbox s"
      using duplicate(1) by (simp_all add: s' open')
    ultimately show ?thesis
      using duplicate pre by (simp add: acknowledgeOutbox_def assertOpen_def)
  next
    case (first r c advances)
    let ?t = "s\<lparr>ms_outbox := AList.update (ar_messageId request) (apply_acknowledgement request a r) (ms_outbox s),
                ms_revision := ms_revision s + 1\<rparr>"
    have s': "s' = (if advances then advanceFence (ar_fencing request) ?t else ?t)"
      using first(10) by (simp add: Let_def)
    have "assertFence s' (ar_fencing request) = Inr False"
      unfolding s' by (rule fence [OF first(2)]) simp
    moreover have "ms_lifecycle s' = StoreOpen"
      "map_of (ms_outbox s') (ar_messageId request) = Some (apply_acknowledgement request a r)"
      using first(1) by (simp_all add: s' open' map_lookups)
    ultimately show ?thesis
      using first pre by (simp add: acknowledgeOutbox_def assertOpen_def)
  qed
qed

definition example_ack :: ack_request where
  "example_ack =
     \<lparr>ar_messageId = [109], ar_owner = [97], ar_claimEpoch = 1, ar_outcome = AckCompleted, ar_retryAt = None,
      ar_fencing = None\<rparr>"

theorem acknowledgement_fenced_idempotent_witness:
  "\<exists>s' a. acknowledgeOutbox example_outbox_store 5 example_ack = Inr (s', a) \<and>
     acknowledgeOutbox s' 1000 example_ack = Inr (s', a\<lparr>ack_duplicate := True\<rparr>)"
proof -
  have "\<exists>s' a. acknowledgeOutbox example_outbox_store 5 example_ack = Inr (s', a)"
    using iso_valid(1) [OF example_times(2)]
    by (simp add: acknowledgeOutbox_def example_outbox_store_def assertOpen_def example_ack_def assertFence_def
        assertOutboxAcknowledgementRequest_def IDENTITY_PATTERN_def is_alnum_def is_digit_def is_lower_def
        is_upper_def example_entry_def acknowledge_claim_def example_claim_def Let_def)
  then show ?thesis
    using conjunct2 [OF acknowledgement_fenced_idempotent [OF example_outbox_store_ok]] by blast
qed

text \<open>
  Completion is final: a message acknowledged as completed keeps its entry through every later step of
  the store and its clients, and no claim returns it again.
\<close>

theorem completion_final:
  assumes "system_ok sys" and "system_step\<^sup>*\<^sup>* sys sys2"
    and "map_of (ms_outbox (sys_store sys)) i = Some e"
    and "so_acknowledgement e = Some a" and "ack_outcome a = AckCompleted"
  shows "map_of (ms_outbox (sys_store sys2)) i = Some e \<and>
    (\<forall>s' cs. claimOutbox (sys_store sys2) now request = (s', Inr cs) \<longrightarrow>
       i \<notin> (msg_messageId \<circ> cl_message) ` set cs)"
proof -
  have skip: "skip_outbox request now e" for request now
    using assms(4,5) by (simp add: skip_outbox_def)
  have not_retry: "\<not> retry_acknowledged e" using assms(4,5) by (simp add: retry_acknowledged_def)
  have keep: "map_of (ms_outbox (sys_store sys')) i = Some e"
    if "system_step sys1 sys'" "system_ok sys1" "map_of (ms_outbox (sys_store sys1)) i = Some e" for sys1 sys'
    using that
  proof (induction rule: system_step.induct)
    case (start s options s' identity tx ss n)
    then show ?case by (auto elim!: transact_begin_InrE)
  next
    case (commits ss n x staged result s s' r)
    from commits(3) show ?case
      by (cases rule: transact_commit_cases)
        (use commits(5) commit_keeps_entry [OF _ _ not_retry] in auto)
  next
    case (claim s now request s' res ss)
    then have "outbox_ok (ms_outbox s) (ms_outboxSequence s)" by (simp add: system_ok_def store_ok_def)
    from claim_keeps_skipped(1) [OF this _ skip claim(1)] claim(3) show ?case by simp
  next
    case (acknowledge s now areq s' a ss)
    then have "outbox_entry_ok (ms_outboxSequence s) (i, e)"
      by (auto simp: system_ok_def store_ok_def outbox_ok_def dest: map_of_SomeD)
    then have "\<not> claim_matches areq (so_claim e)" using assms(4) by (auto simp: outbox_entry_ok_def claim_matches_def)
    with acknowledge acknowledge_other_entry [OF acknowledge(1)] show ?case by simp
  qed (auto simp: open_store_def close_store_def watch_store_def watch_next_store_def watch_return_def
      update_watcher_def transact_throw_def split: if_splits)
  from assms(2) have kept: "map_of (ms_outbox (sys_store sys2)) i = Some e"
  proof (induction rule: rtranclp_induct)
    case base
    show ?case by (rule assms(3))
  next
    case (step sys1 sys')
    then show ?case using keep system_ok_steps [OF _ assms(1)] by blast
  qed
  have "outbox_ok (ms_outbox (sys_store sys2)) (ms_outboxSequence (sys_store sys2))"
    using system_ok_steps [OF assms(2,1)] by (simp add: system_ok_def store_ok_def)
  from claim_keeps_skipped(2) [OF this kept skip _ refl] kept show ?thesis by blast
qed

theorem completion_final_witness:
  "let a = \<lparr>ack_messageId = [109], ack_outcome = AckCompleted, ack_attempt = 1, ack_acknowledgedAt = iso 5,
            ack_duplicate = False, ack_retryAt = None\<rparr>;
       e = example_entry\<lparr>so_claim := None, so_acknowledgement := Some a, so_acknowledgedClaim := Some example_claim\<rparr>
   in map_of (ms_outbox (close_store (example_outbox_store\<lparr>ms_outbox := [([109], e)]\<rparr>))) [109] = Some e"
proof -
  let ?a = "\<lparr>ack_messageId = [109], ack_outcome = AckCompleted, ack_attempt = 1, ack_acknowledgedAt = iso 5,
            ack_duplicate = False, ack_retryAt = None\<rparr>"
  let ?e = "example_entry\<lparr>so_claim := None, so_acknowledgement := Some ?a, so_acknowledgedClaim := Some example_claim\<rparr>"
  let ?s = "example_outbox_store\<lparr>ms_outbox := [([109], ?e)]\<rparr>"
  have "outbox_ok [([109], ?e)] 1"
    by (simp add: outbox_ok_def map_ok_def outbox_entry_ok_def example_entry_def example_message_def claim_ok_def
        example_claim_def)
  then have "store_ok ?s" using example_outbox_store_ok by (simp add: store_ok_def example_outbox_store_def)
  then have ok: "system_ok \<lparr>sys_store = ?s, sys_sessions = []\<rparr>" by (simp add: system_ok_def sessions_ok_def)
  show ?thesis
    using completion_final [OF ok r_into_rtranclp, OF system_step.close, of "[109]" ?e ?a] by simp
qed

text \<open>
  C38. A watch loses, repeats and reorders nothing: in every reachable state, what an open watch has
  answered followed by what it holds queued is exactly the list of changes after the revision it reports
  from; a closed watch has answered a prefix of that list.
\<close>

theorem watch_complete:
  assumes "reachable sys" and "map_of (ms_watchers (sys_store sys)) w = Some it"
  shows "\<exists>rest. delivered it @ rest = filter (\<lambda>c. it_cursor it < ch_revision c) (ms_changes (sys_store sys)) \<and>
    (it_closed it \<or> rest = it_queue it)"
proof -
  have "watcher_ok (ms_changes (sys_store sys)) (ms_revision (sys_store sys)) it"
    using system_ok_reachable [OF assms(1)] assms(2)
    by (auto simp: system_ok_def store_ok_def watches_ok_def dest: map_of_SomeD)
  then show ?thesis
    by (auto simp: watcher_ok_def watched_def split: if_splits) (metis append_take_drop_id)
qed

theorem watch_complete_witness:
  "\<exists>rest. delivered (new_watch_iterator 0 []) @ rest = filter (\<lambda>c. 0 < ch_revision c) (ms_changes new_store) \<and>
     rest = []"
proof -
  let ?s1 = "new_store\<lparr>ms_lifecycle := StoreOpen\<rparr>"
  let ?s2 = "?s1\<lparr>ms_watchers := [(0, new_watch_iterator 0 [])]\<rparr>"
  have "open_store new_store = Inr ?s1" by (simp add: open_store_def new_store_def)
  from system_step.open_run [OF this, of "[]"]
  have a: "system_step new_system \<lparr>sys_store = ?s1, sys_sessions = []\<rparr>" by (simp add: new_system_def)
  have "watch_store ?s1 0 0 = Inr ?s2" by (simp add: watch_store_def assertOpen_def new_store_def)
  then have b: "system_step \<lparr>sys_store = ?s1, sys_sessions = []\<rparr> \<lparr>sys_store = ?s2, sys_sessions = []\<rparr>"
    by (rule system_step.watch) (simp add: new_store_def)
  have "reachable \<lparr>sys_store = ?s2, sys_sessions = []\<rparr>"
    unfolding reachable_def by (rule rtranclp.rtrancl_into_rtrancl [OF r_into_rtranclp]) (rule a, rule b)
  from watch_complete [OF this, of 0 "new_watch_iterator 0 []"] show ?thesis
    by (simp add: new_watch_iterator_def new_store_def)
qed

end
