(* ===== verification/Store_Scans.thy ===== *)
theory Store_Scans
  imports Store_Invariants "HOL-Library.Product_Lexorder"
begin

text \<open>
  The scans of the in-memory store: what a page of a scan contains, and that paging by a cursor visits
  every matching entry once. \<open>journal_provider\<close> is the interface through which the recovery of the
  runtime (\<open>packages/runtime/src/recovery.ts\<close>) pages through the journal.
\<close>

section \<open>Sorting by a key\<close>

lemma sorted_key:
  fixes key :: "'a \<Rightarrow> 'k::linorder"
  assumes "\<And>x y. cmp x y \<le> 0 \<longleftrightarrow> key x \<le> key y"
  shows "sorted (map key (sort_by cmp xs))"
proof -
  have "total_comparator cmp" by unfold_locales (auto simp: assms)
  from total_comparator.sorted_sort_by [OF this] show ?thesis by (simp add: sorted_map assms)
qed

lemma sort_by_filter:
  fixes key :: "'a \<Rightarrow> 'k::linorder"
  assumes cmp: "\<And>x y. cmp x y \<le> 0 \<longleftrightarrow> key x \<le> key y" and dist: "distinct (map key xs)"
  shows "sort_by cmp (filter P xs) = filter P (sort_by cmp xs)"
proof -
  let ?l = "sort_by cmp (filter P xs)" and ?r = "filter P (sort_by cmp xs)"
  have inj: "inj_on key (set xs)" using dist by (simp add: distinct_map)
  have xs: "distinct xs" using dist by (simp add: distinct_map)
  have sub: "set ?l \<union> set ?r \<subseteq> set xs" by auto
  have "sorted (map key ?l)" by (rule sorted_key [OF cmp])
  moreover have "distinct (map key ?l)"
    using inj xs by (simp add: distinct_map inj_on_subset)
  moreover have "sorted (map key ?r)" using sorted_key [OF cmp] by (rule sorted_filter)
  moreover have "distinct (map key ?r)"
    using inj xs by (simp add: distinct_map inj_on_subset)
  moreover have "set (map key ?l) = set (map key ?r)" by auto
  ultimately have "map key ?l = map key ?r" by (intro sorted_distinct_set_unique)
  then show ?thesis by (rule map_inj_on) (use inj sub in \<open>auto intro: inj_on_subset\<close>)
qed

lemma strict_sorted_key:
  fixes key :: "'a \<Rightarrow> 'k::linorder"
  assumes "\<And>x y. cmp x y \<le> 0 \<longleftrightarrow> key x \<le> key y" and "distinct (map key xs)"
  shows "sorted_wrt (<) (map key (sort_by cmp xs))"
proof -
  have "mset (map key (sort_by cmp xs)) = mset (map key xs)" by simp
  then have "distinct (map key (sort_by cmp xs))" using assms(2) mset_eq_imp_distinct_iff by blast
  then show ?thesis using sorted_key [OF assms(1)] by (simp add: strict_sorted_iff)
qed

lemma filter_above:
  fixes key :: "'a \<Rightarrow> 'k::linorder"
  assumes "sorted_wrt (<) (map key xs)" and "i < length xs"
  shows "filter (\<lambda>x. key (xs ! i) < key x) xs = drop (Suc i) xs"
proof -
  have split: "xs = take (Suc i) xs @ drop (Suc i) xs" by simp
  have lt: "key (xs ! a) < key (xs ! b)" if "a < b" "b < length xs" for a b
    using sorted_wrt_nth_less [OF assms(1), of a b] that by simp
  have "filter (\<lambda>x. key (xs ! i) < key x) (take (Suc i) xs) = []"
  proof -
    have "\<not> key (xs ! i) < key (xs ! j)" if "j \<le> i" for j
      using lt [of j i] that assms(2) by (cases "j = i") auto
    then show ?thesis by (auto simp: filter_empty_conv in_set_conv_nth)
  qed
  moreover have "filter (\<lambda>x. key (xs ! i) < key x) (drop (Suc i) xs) = drop (Suc i) xs"
    using lt [of i] by (auto simp: in_set_conv_nth intro!: filter_True)
  ultimately show ?thesis by (metis append_Nil filter_append split)
qed

section \<open>Scans of state\<close>

text \<open>Records filed under their own keys, as in the store and in the view of a transaction.\<close>

definition filed :: "(jstring, stored_record) jsmap \<Rightarrow> bool" where
  "filed records \<longleftrightarrow> map_ok records \<and> (\<forall>(i, r) \<in> set records. i = serializedKey (rec_key r))"

lemma filed_store: "store_ok s \<Longrightarrow> filed (ms_records s)"
  by (auto simp: store_ok_def records_ok_def filed_def)

lemma filed_distinct_ids:
  assumes "filed records"
  shows "distinct (map (\<lambda>r. key_id (rec_key r)) (filter (query_matches query) (map snd records)))"
proof -
  let ?m = "filter (query_matches query) (map snd records)"
  have "map fst records = map (\<lambda>r. serializedKey (rec_key r)) (map snd records)"
    using assms by (auto simp: filed_def)
  then have ids: "distinct (map (\<lambda>r. serializedKey (rec_key r)) (map snd records))"
    using assms by (metis filed_def map_ok_def)
  then have dist: "distinct ?m" and inj: "inj_on (\<lambda>r. serializedKey (rec_key r)) (set (map snd records))"
    by (simp_all add: distinct_map del: map_map)
  have "inj_on (\<lambda>r. key_id (rec_key r)) (set ?m)"
  proof (rule inj_onI)
    fix x y
    assume x: "x \<in> set ?m" and y: "y \<in> set ?m" and "key_id (rec_key x) = key_id (rec_key y)"
    then have "rec_key x = rec_key y" by (auto simp: query_matches_def)
    then show "x = y" using inj_onD [OF inj] x y by auto
  qed
  with dist show ?thesis by (simp add: distinct_map)
qed

definition matching :: "state_query \<Rightarrow> (jstring, stored_record) jsmap \<Rightarrow> scanned_state list" where
  "matching query records =
     map scannedRecord (sort_by compareRecordIds (filter (query_matches query) (map snd records)))"

lemma scan_records_matching: "scan_records query (map snd records) = slice_limit (q_limit query) (matching query records)"
  by (auto simp: scan_records_def matching_def slice_limit_def take_map split: option.split)

lemma compareRecordIds_key: "compareRecordIds x y \<le> 0 \<longleftrightarrow> key_id (rec_key x) \<le> key_id (rec_key y)"
  by (simp add: compareRecordIds_def)

lemma matching_sorted:
  "filed records \<Longrightarrow> sorted_wrt (<) (map (\<lambda>x. key_id (scan_key x)) (matching query records))"
  using strict_sorted_key [OF compareRecordIds_key filed_distinct_ids]
  by (simp add: matching_def scannedRecord_def comp_def)

lemma matching_after:
  assumes "filed records" and "q_afterId query = None"
  shows "matching (query\<lparr>q_afterId := Some a\<rparr>) records =
    filter (\<lambda>x. a < key_id (scan_key x)) (matching query records)"
proof -
  have "query_matches (query\<lparr>q_afterId := Some a\<rparr>) r \<longleftrightarrow>
      query_matches query r \<and> a < key_id (rec_key r)" for r
    using assms(2) by (auto simp: query_matches_def)
  then have "filter (query_matches (query\<lparr>q_afterId := Some a\<rparr>)) (map snd records) =
      filter (\<lambda>r. a < key_id (rec_key r)) (filter (query_matches query) (map snd records))"
    by (auto simp: filter_filter conj_commute intro!: filter_cong)
  then show ?thesis
    unfolding matching_def sort_by_filter [OF compareRecordIds_key filed_distinct_ids [OF assms(1)], symmetric]
    by (simp only: sort_by_filter [OF compareRecordIds_key filed_distinct_ids [OF assms(1)]])
      (simp add: filter_map comp_def scannedRecord_def)
qed

text \<open>
  A scan returns, in strictly ascending order of identifiers, the records of the namespace and
  collection whose identifier has the prefix and lies after \<open>afterId\<close>: all of them, or the first
  \<open>limit\<close>.
\<close>

theorem scan_store_exact:
  assumes "store_ok s" and "scan_store s query = Inr xs"
  shows "\<exists>ys. xs = slice_limit (q_limit query) ys \<and>
    sorted_wrt (<) (map (\<lambda>x. key_id (scan_key x)) ys) \<and>
    set ys = scannedRecord ` {r \<in> snd ` set (ms_records s). query_matches query r}"
proof -
  have "xs = slice_limit (q_limit query) (matching query (ms_records s))"
    using assms(2) by (auto simp: scan_store_def scan_records_matching)
  moreover have "set (matching query (ms_records s)) =
      scannedRecord ` {r \<in> snd ` set (ms_records s). query_matches query r}"
    by (auto simp: matching_def)
  ultimately show ?thesis using matching_sorted [OF filed_store [OF assms(1)]] by blast
qed

theorem scan_store_exact_witness:
  "let k = \<lparr>key_namespace = [116], key_collection = [99], key_id = [97]\<rparr>;
       r = \<lparr>rec_key = k, rec_value = JInt 7, rec_revision = 1\<rparr>
   in \<exists>ys. [scannedRecord r] = slice_limit None ys \<and> set ys = {scannedRecord r}"
proof -
  let ?k = "\<lparr>key_namespace = [116], key_collection = [99], key_id = [97]\<rparr> :: state_key"
  let ?r = "\<lparr>rec_key = ?k, rec_value = JInt 7, rec_revision = 1\<rparr>"
  let ?s = "new_store\<lparr>ms_lifecycle := StoreOpen, ms_records := [(serializedKey ?k, ?r)], ms_revision := 1\<rparr>"
  let ?q = "\<lparr>q_namespace = [116], q_collection = [99], q_idPrefix = None, q_afterId = None, q_limit = None\<rparr>"
  have ok: "store_ok ?s"
    using store_ok_new by (auto simp: store_ok_def new_store_def records_ok_def journal_ok_def map_ok_def
        changes_ok_def watches_ok_def)
  have m: "query_matches ?q ?r" by (simp add: query_matches_def)
  have scan: "scan_store ?s ?q = Inr [scannedRecord ?r]"
    using m by (simp add: scan_store_def assertOpen_def assertStateQuery_def scan_records_def slice_limit_def)
  have "{r \<in> snd ` set (ms_records ?s). query_matches ?q r} = {?r}" using m by auto
  then have "scannedRecord ` {r \<in> snd ` set (ms_records ?s). query_matches ?q r} = {scannedRecord ?r}"
    by (simp only: image_insert image_empty)
  moreover from scan_store_exact [OF ok scan] obtain ys where
    "[scannedRecord ?r] = slice_limit (q_limit ?q) ys"
    "set ys = scannedRecord ` {r \<in> snd ` set (ms_records ?s). query_matches ?q r}"
    by blast
  ultimately show ?thesis unfolding Let_def by (intro exI [of _ ys]) (simp only: state_query.simps)
qed

section \<open>Scans of a transaction\<close>

definition tx_view :: "memory_transaction \<Rightarrow> (jstring, stored_record) jsmap" where
  "tx_view tx = fold (overlay_mutation tx) (tx_mutations tx) (tx_snapshot tx)"

lemma filed_overlay:
  "filed records \<Longrightarrow> \<forall>(i, m) \<in> set ms. i = serializedKey (mut_key m) \<Longrightarrow>
   filed (fold (overlay_mutation tx) ms records)"
proof (induction ms arbitrary: records)
  case (Cons p ms)
  obtain i m where p: "p = (i, m)" by (cases p)
  have "filed (overlay_mutation tx (i, m) records)"
  proof (cases m)
    case (PutMutation k v e)
    then show ?thesis using Cons.prems p set_update_alist [of i _ records] by (fastforce simp: filed_def)
  next
    case (DeleteMutation k e)
    then show ?thesis using Cons.prems
      by (auto simp: filed_def AList.delete_eq map_ok_delete [unfolded AList.delete_eq])
  qed
  with Cons p show ?case by simp
qed simp

lemma filed_view: "filed (tx_snapshot tx) \<Longrightarrow> tx_ok tx \<Longrightarrow> filed (tx_view tx)"
  unfolding tx_view_def by (rule filed_overlay) (auto simp: tx_ok_def)

section \<open>Scans of the journal\<close>

definition entry_position :: "persisted_operation \<Rightarrow> nat \<times> jstring" where
  "entry_position e = (op_revision e, op_id e)"

lemma compareEntries_key: "compareEntries x y \<le> 0 \<longleftrightarrow> entry_position x \<le> entry_position y"
  by (auto simp: compareEntries_def cursor_order_eq entry_cursor_def or_else_def entry_position_def
      less_eq_prod_def compareText_def)

lemma after_cursor_key:
  "after_cursor query e \<longleftrightarrow>
     (case jq_after query of None \<Rightarrow> True | Some c \<Rightarrow> (cur_revision c, cur_operationId c) < entry_position e)"
  by (auto simp: after_cursor_def cursor_order_eq entry_cursor_def or_else_def entry_position_def
      less_prod_def' compareText_def split: option.split)

definition journal_entries :: "memory_store \<Rightarrow> bool \<Rightarrow> persisted_operation list" where
  "journal_entries s recoverableOnly =
     sort_by compareEntries (filter (\<lambda>e. \<not> recoverableOnly \<or> recoverable e) (map snd (ms_operations s)))"

lemma journal_distinct:
  assumes "store_ok s"
  shows "distinct (map entry_position (filter P (map snd (ms_operations s))))"
proof -
  have "map fst (ms_operations s) = map op_id (map snd (ms_operations s))"
    using assms by (auto simp: store_ok_def journal_ok_def)
  then have "distinct (map op_id (map snd (ms_operations s)))"
    using assms by (metis store_ok_def journal_ok_def map_ok_def)
  then have "distinct (map op_id (filter P (map snd (ms_operations s))))" by (rule distinct_map_filter)
  then have "distinct (map snd (map entry_position (filter P (map snd (ms_operations s)))))"
    by (simp add: comp_def entry_position_def)
  then show ?thesis by (simp only: distinct_map)
qed

lemma journal_entries_sorted:
  "store_ok s \<Longrightarrow> sorted_wrt (<) (map entry_position (journal_entries s b))"
  unfolding journal_entries_def by (rule strict_sorted_key [OF compareEntries_key journal_distinct])

lemma scanOperationJournal_eq:
  assumes "store_ok s" and "ms_lifecycle s = StoreOpen" and "assertOperationQuery query = Inr ()"
  shows "scanOperationJournal s query b =
    Inr (slice_limit (jq_limit query) (filter (after_cursor query) (journal_entries s b)))"
proof -
  have "filter (\<lambda>e. (\<not> b \<or> recoverable e) \<and> after_cursor query e) (map snd (ms_operations s)) =
      filter (after_cursor query) (filter (\<lambda>e. \<not> b \<or> recoverable e) (map snd (ms_operations s)))"
    by (auto intro!: filter_cong)
  then have "sort_by compareEntries
      (filter (\<lambda>e. (\<not> b \<or> recoverable e) \<and> after_cursor query e) (map snd (ms_operations s))) =
      filter (after_cursor query) (journal_entries s b)"
    unfolding journal_entries_def
    by (simp only: sort_by_filter [OF compareEntries_key journal_distinct [OF assms(1)]])
  then show ?thesis
    using assms by (simp only: scanOperationJournal_def assertOpen_def and_then_simps if_False simp_thms)
qed

end
