(* ===== verification/Lifecycle.thy ===== *)
theory Lifecycle
  imports Prelude
begin

unbundle bit_operations_syntax

text \<open>
  The life cycles of the runtime (\<open>packages/runtime/src/runtime-state.ts\<close>) and of its components
  (\<open>reconcile/component-lifecycle.ts\<close>), readiness (\<open>readiness.ts\<close>) and the delay before an operation is
  retried (\<open>reconcile/retry.ts\<close>).
\<close>

section \<open>The runtime\<close>

datatype runtime_state =
    RtCreated | RtOpening | RtRecovering | RtElecting | RtRunning | RtDraining | RtStopping | RtStopped | RtFailed

fun transitions :: "runtime_state \<Rightarrow> runtime_state list" where
  "transitions RtCreated = [RtFailed, RtOpening, RtStopping]"
| "transitions RtOpening = [RtFailed, RtRecovering, RtStopping]"
| "transitions RtRecovering = [RtElecting, RtFailed, RtStopping]"
| "transitions RtElecting = [RtFailed, RtRunning, RtStopping]"
| "transitions RtRunning = [RtDraining, RtFailed]"
| "transitions RtDraining = [RtFailed, RtStopping]"
| "transitions RtStopping = [RtFailed, RtStopped]"
| "transitions RtStopped = []"
| "transitions RtFailed = [RtStopping]"

definition transitionRuntimeState :: "runtime_state \<Rightarrow> runtime_state \<Rightarrow> runtime_state result" where
  "transitionRuntimeState current next =
     (if next \<in> set (transitions current) then Inr next else Inl (Diagnostic ''LIFECYCLE_TRANSITION_INVALID''))"

section \<open>Readiness\<close>

datatype health_status = Degraded | Healthy | Unhealthy

record deployment_readiness =
  dr_desired :: bool
  dr_essential :: bool
  dr_ready :: bool

definition isRuntimeReady :: "runtime_state \<Rightarrow> health_status list \<Rightarrow> deployment_readiness list \<Rightarrow> bool" where
  "isRuntimeReady lifecycle drivers deployments \<longleftrightarrow>
     lifecycle = RtRunning \<and>
     list_all (\<lambda>status. status \<noteq> Unhealthy) drivers \<and>
     list_all (\<lambda>d. \<not> dr_desired d \<or> \<not> dr_essential d \<or> dr_ready d) deployments"

section \<open>Components\<close>

datatype component_state =
    CsCreated | CsPreparing | CsStarting | CsReady | CsDegraded | CsDraining | CsStopping | CsStopped | CsFailed

fun legalTransitions :: "component_state \<Rightarrow> component_state list" where
  "legalTransitions CsCreated = [CsPreparing, CsDraining, CsFailed]"
| "legalTransitions CsPreparing = [CsStarting, CsDraining, CsFailed]"
| "legalTransitions CsStarting = [CsReady, CsDegraded, CsDraining, CsFailed]"
| "legalTransitions CsReady = [CsDegraded, CsDraining, CsFailed]"
| "legalTransitions CsDegraded = [CsReady, CsDraining, CsFailed]"
| "legalTransitions CsDraining = [CsStopping, CsFailed]"
| "legalTransitions CsStopping = [CsStopped, CsFailed]"
| "legalTransitions CsStopped = []"
| "legalTransitions CsFailed = [CsDraining, CsPreparing, CsStarting, CsStopping]"

definition transitionComponentLifecycle :: "component_state \<Rightarrow> component_state \<Rightarrow> component_state result" where
  "transitionComponentLifecycle current next =
     (if next \<in> set (legalTransitions current) then Inr next
      else Inl (Diagnostic ''LIFECYCLE_TRANSITION_INVALID''))"

definition componentApplicationReady :: "bool \<Rightarrow> bool \<Rightarrow> bool \<Rightarrow> component_state list \<Rightarrow> bool" where
  "componentApplicationReady desired essential kernelRunning instances =
     (if \<not> kernelRunning then False
      else if \<not> desired \<or> \<not> essential then True
      else list_ex (\<lambda>lifecycle. lifecycle = CsReady) instances)"

section \<open>Retry delays\<close>

record retry_input =
  ri_attempt :: number
  ri_baseDelayMs :: number
  ri_maxDelayMs :: number
  ri_operationId :: jstring

definition operationHash :: "jstring \<Rightarrow> 32 word" where
  "operationHash operationId = foldl (\<lambda>hash c. (hash XOR ucast c) * 16777619) 2166136261 operationId"

text \<open>
  The numbers are safe integers, so the products with powers of two, the quotient by four and the sum
  are exact in double precision, and are written on integers here.
\<close>

definition retry_delay :: "int \<Rightarrow> int \<Rightarrow> int \<Rightarrow> 32 word \<Rightarrow> int" where
  "retry_delay attempt base maximum hash =
     (let exponent = min (attempt - 1) 52;
          exponential = min maximum (base * 2 ^ nat exponent)
      in if exponential \<ge> maximum then maximum
         else (let jitterRange = max 1 (exponential div 4)
               in min maximum (exponential + uint hash mod jitterRange)))"

definition deterministicRetryDelay :: "retry_input \<Rightarrow> int result" where
  "deterministicRetryDelay input =
     (case (integer_value (ri_attempt input), integer_value (ri_baseDelayMs input), integer_value (ri_maxDelayMs input)) of
        (Some attempt, Some base, Some maximum) \<Rightarrow>
          if \<not> safe_integer attempt \<or> attempt \<le> 0 \<or> \<not> safe_integer base \<or> base \<le> 0
             \<or> \<not> safe_integer maximum \<or> maximum < base
          then Inl RangeError
          else Inr (retry_delay attempt base maximum (operationHash (ri_operationId input)))
      | _ \<Rightarrow> Inl RangeError)"

section \<open>Properties of the life cycles\<close>

definition runtime_step :: "runtime_state \<Rightarrow> runtime_state \<Rightarrow> bool" where
  "runtime_step current next \<longleftrightarrow> transitionRuntimeState current next = Inr next"

definition component_step :: "component_state \<Rightarrow> component_state \<Rightarrow> bool" where
  "component_step current next \<longleftrightarrow> transitionComponentLifecycle current next = Inr next"

lemma runtime_step_iff: "runtime_step s t \<longleftrightarrow> t \<in> set (transitions s)"
  by (simp add: runtime_step_def transitionRuntimeState_def)

lemma component_step_iff: "component_step s t \<longleftrightarrow> t \<in> set (legalTransitions s)"
  by (simp add: component_step_def transitionComponentLifecycle_def)

definition shutting_down :: "runtime_state \<Rightarrow> bool" where
  "shutting_down s \<longleftrightarrow> s \<in> {RtDraining, RtStopping, RtStopped, RtFailed}"

lemma shutting_down_step: "runtime_step s t \<Longrightarrow> shutting_down s \<Longrightarrow> shutting_down t"
  by (cases s) (auto simp: runtime_step_iff shutting_down_def)

text \<open>
  The runtime's life cycle is one-way: from draining, stopping, stopped or failed no sequence of
  accepted transitions leads back to running (or to any start-up state); \<open>stopped\<close> accepts no transition
  at all; and from every other state \<open>stopped\<close> can still be reached.
\<close>

theorem runtime_lifecycle_one_way:
  "(\<forall>s t. runtime_step\<^sup>*\<^sup>* s t \<and> shutting_down s \<longrightarrow> shutting_down t \<and> t \<noteq> RtRunning) \<and>
   (\<forall>t. transitionRuntimeState RtStopped t = Inl (Diagnostic ''LIFECYCLE_TRANSITION_INVALID'')) \<and>
   (\<forall>s. runtime_step\<^sup>*\<^sup>* s RtStopped)"
proof (intro conjI allI impI)
  fix s t
  assume "runtime_step\<^sup>*\<^sup>* s t \<and> shutting_down s"
  then have "runtime_step\<^sup>*\<^sup>* s t" "shutting_down s" by simp_all
  then show "shutting_down t"
    by (induction rule: rtranclp_induct) (auto intro: shutting_down_step)
  then show "t \<noteq> RtRunning" by (auto simp: shutting_down_def)
next
  fix t
  show "transitionRuntimeState RtStopped t = Inl (Diagnostic ''LIFECYCLE_TRANSITION_INVALID'')"
    by (simp add: transitionRuntimeState_def)
next
  fix s
  have stopping: "runtime_step\<^sup>*\<^sup>* RtStopping RtStopped" by (rule r_into_rtranclp) (simp add: runtime_step_iff)
  have failed: "runtime_step\<^sup>*\<^sup>* RtFailed RtStopped"
    by (rule converse_rtranclp_into_rtranclp [OF _ stopping]) (simp add: runtime_step_iff)
  show "runtime_step\<^sup>*\<^sup>* s RtStopped"
  proof (cases "s = RtStopped \<or> s = RtFailed \<or> s = RtStopping")
    case True
    then show ?thesis using stopping failed by auto
  next
    case False
    then have "runtime_step s RtFailed" by (cases s) (auto simp: runtime_step_iff)
    then show ?thesis using failed by (rule converse_rtranclp_into_rtranclp)
  qed
qed

theorem runtime_lifecycle_one_way_witness:
  "shutting_down RtStopped \<and> RtStopped \<noteq> RtRunning"
  using runtime_lifecycle_one_way by (auto simp: shutting_down_def)

section \<open>Properties of the retry delay\<close>

lemma retry_jitter:
  assumes "0 < (base::int)" and "r = max 1 (base div 4)"
  shows "base \<le> base + uint (h::32 word) mod r" and "base + uint h mod r < 2 * base \<or> base + uint h mod r = base"
proof -
  have pos: "0 < r" using assms by simp
  have range: "0 \<le> uint h mod r" "uint h mod r < r" using pos by simp_all
  show "base \<le> base + uint h mod r" using range(1) by simp
  show "base + uint h mod r < 2 * base \<or> base + uint h mod r = base"
  proof (cases "base div 4 < 1")
    case True
    then have "r = 1" using assms(2) by simp
    then show ?thesis by simp
  next
    case False
    then have "r \<le> base" using assms by (simp add: max_def)
    then show ?thesis using range(2) by simp
  qed
qed

lemma retry_valid:
  assumes "deterministicRetryDelay input = Inr d"
  obtains attempt base maximum where
    "integer_value (ri_attempt input) = Some attempt" "integer_value (ri_baseDelayMs input) = Some base"
    "integer_value (ri_maxDelayMs input) = Some maximum" "0 < attempt" "0 < base" "base \<le> maximum"
    "d = retry_delay attempt base maximum (operationHash (ri_operationId input))"
  using assms by (auto simp: deterministicRetryDelay_def split: option.splits if_splits)

lemma retry_delay_power:
  assumes "0 < base" and "p = nat (min (n - 1) 52)"
  shows "retry_delay n base maximum h =
    (if base * 2 ^ p \<ge> maximum then maximum
     else min maximum (base * 2 ^ p + uint h mod max 1 (base * 2 ^ p div 4)))"
  using assms by (simp add: retry_delay_def Let_def min_def)

lemma retry_delay_bounds:
  assumes "0 < base" and "base \<le> maximum"
  shows "base \<le> retry_delay n base maximum h" and "retry_delay n base maximum h \<le> maximum"
proof -
  define p where "p = nat (min (n - 1) 52)"
  have "base \<le> base * 2 ^ p" using assms(1) by simp
  moreover have "base * 2 ^ p \<le> base * 2 ^ p + uint h mod max 1 (base * 2 ^ p div 4)"
    using retry_jitter(1) [OF _ refl, of "base * 2 ^ p" h] assms(1) by simp
  ultimately have "base \<le> base * 2 ^ p + uint h mod max 1 (base * 2 ^ p div 4)" by (rule order_trans)
  then show "base \<le> retry_delay n base maximum h" "retry_delay n base maximum h \<le> maximum"
    using assms(2) unfolding retry_delay_power [OF assms(1) p_def] by auto
qed

lemma retry_delay_mono:
  assumes "0 < base" and "base \<le> maximum" and "n \<le> m"
  shows "retry_delay n base maximum h \<le> retry_delay m base maximum h"
proof -
  define p q where p: "p = nat (min (n - 1) 52)" and q: "q = nat (min (m - 1) 52)"
  define a b where a: "a = base * 2 ^ p" and b: "b = base * 2 ^ q"
  have pq: "p \<le> q" using assms(3) by (simp add: p q nat_mono)
  have ab: "a = b \<or> 2 * a \<le> b"
  proof (cases "p = q")
    case False
    with pq have "Suc p \<le> q" by simp
    then have "base * 2 ^ Suc p \<le> base * 2 ^ q"
      using assms(1) by (intro mult_left_mono power_increasing) auto
    then show ?thesis by (simp add: a b)
  qed (simp add: a b)
  have pos: "0 < a" "0 < b" using assms(1) by (simp_all add: a b)
  note ja = retry_jitter [OF pos(1) refl, of h] and jb = retry_jitter(1) [OF pos(2) refl, of h]
  have n: "retry_delay n base maximum h = (if a \<ge> maximum then maximum else min maximum (a + uint h mod max 1 (a div 4)))"
    unfolding a by (rule retry_delay_power [OF assms(1) p])
  have m: "retry_delay m base maximum h = (if b \<ge> maximum then maximum else min maximum (b + uint h mod max 1 (b div 4)))"
    unfolding b by (rule retry_delay_power [OF assms(1) q])
  show ?thesis
  proof (cases "a = b")
    case False
    then have "2 * a \<le> b" using ab by simp
    then have "a + uint h mod max 1 (a div 4) \<le> b + uint h mod max 1 (b div 4)" and "a \<le> b"
      using ja jb pos by linarith+
    then show ?thesis unfolding n m by (auto simp: min_def)
  qed (simp add: n m)
qed

text \<open>
  A retry delay lies between the base delay and the maximum, and never shrinks from one attempt to
  the next: for the same operation, base and maximum, the delay of a later attempt is at least that of an
  earlier one.
\<close>

theorem retry_delay_bounded_monotone:
  assumes "deterministicRetryDelay input = Inr d"
    and "deterministicRetryDelay (input\<lparr>ri_attempt := later\<rparr>) = Inr d'"
    and "integer_value (ri_attempt input) = Some n" and "integer_value later = Some m" and "n \<le> m"
  shows "(\<exists>base maximum. integer_value (ri_baseDelayMs input) = Some base \<and>
            integer_value (ri_maxDelayMs input) = Some maximum \<and> base \<le> d \<and> d \<le> maximum) \<and> d \<le> d'"
proof -
  from assms(1) obtain base maximum where b: "integer_value (ri_baseDelayMs input) = Some base"
    and mx: "integer_value (ri_maxDelayMs input) = Some maximum" and pos: "0 < base" "base \<le> maximum"
    and d: "d = retry_delay n base maximum (operationHash (ri_operationId input))"
    using assms(3) by (elim retry_valid) simp
  have "ri_operationId (input\<lparr>ri_attempt := later\<rparr>) = ri_operationId input" by simp
  then have "d' = retry_delay m base maximum (operationHash (ri_operationId input))"
    using assms(2,4) b mx by (elim retry_valid) simp
  then show ?thesis
    using d b mx retry_delay_bounds [OF pos] retry_delay_mono [OF pos assms(5)] by auto
qed

theorem retry_delay_bounded_monotone_witness:
  "let d = (\<lambda>n. retry_delay n 100 1000 (operationHash [111, 112])) in 100 \<le> d 2 \<and> d 2 \<le> 1000 \<and> d 2 \<le> d 3"
proof -
  let ?i = "\<lparr>ri_attempt = Num 2, ri_baseDelayMs = Num 100, ri_maxDelayMs = Num 1000, ri_operationId = [111, 112]\<rparr>"
  have 2: "deterministicRetryDelay ?i = Inr (retry_delay 2 100 1000 (operationHash [111, 112]))"
    by (simp add: deterministicRetryDelay_def safe_integer_def MAX_SAFE_INTEGER_def)
  have 3: "deterministicRetryDelay (?i\<lparr>ri_attempt := Num 3\<rparr>) = Inr (retry_delay 3 100 1000 (operationHash [111, 112]))"
    by (simp add: deterministicRetryDelay_def safe_integer_def MAX_SAFE_INTEGER_def)
  show ?thesis using retry_delay_bounded_monotone [OF 2 3, of 2 3] by auto
qed

end
