(* ===== verification/Recovery.thy ===== *)
theory Recovery
  imports Store_Scans Lifecycle
begin

text \<open>
  The clients of the state store that read it page by page: the recovery of the runtime
  (\<open>packages/runtime/src/recovery.ts\<close>) and the scan of observed status
  (\<open>scanObservedStatusCollection\<close> of \<open>packages/runtime/src/create-runtime.ts\<close>). Both repeat one loop,
  here \<open>scan_pages\<close>; the locale \<open>paged_scan\<close> is the contract of a scan it relies on. The loop need not
  end for an arbitrary scan, so its definition is partial, and that it returns is proved from the
  contract.
\<close>

section \<open>The paging loop\<close>

partial_function (option) scan_pages ::
  "('c option \<Rightarrow> 'e list result) \<Rightarrow> ('e \<Rightarrow> 'c) \<Rightarrow> nat \<Rightarrow> 'c option \<Rightarrow> 'e list \<Rightarrow> 'e list result option" where
  "scan_pages page cursor limit after recovered =
     (case page after of
        Inl e \<Rightarrow> Some (Inl e)
      | Inr p \<Rightarrow>
          if length p < limit then Some (Inr (recovered @ p))
          else if p = [] then Some (Inr (recovered @ p))
          else scan_pages page cursor limit (Some (cursor (last p))) (recovered @ p))"

locale paged_scan =
  fixes ready :: "'s \<Rightarrow> bool"
    and page :: "'s \<Rightarrow> 'c option \<Rightarrow> nat \<Rightarrow> 'e list result"
    and whole :: "'s \<Rightarrow> 'e list"
    and cursor :: "'e \<Rightarrow> 'c"
  assumes first_page: "ready s \<Longrightarrow> 0 < n \<Longrightarrow> n \<le> 100 \<Longrightarrow> page s None n = Inr (take n (whole s))"
    and next_page: "ready s \<Longrightarrow> 0 < n \<Longrightarrow> n \<le> 100 \<Longrightarrow> i < length (whole s) \<Longrightarrow>
      page s (Some (cursor (whole s ! i))) n = Inr (take n (drop (Suc i) (whole s)))"
begin

lemma scan_pages_from:
  assumes "ready s" and "0 < n" and "n \<le> 100"
    and "page s after n = Inr (take n (drop k (whole s)))" and "k \<le> length (whole s)"
  shows "scan_pages (\<lambda>c. page s c n) cursor n after recovered = Some (Inr (recovered @ drop k (whole s)))"
  using assms(4,5)
proof (induction "length (whole s) - k" arbitrary: k after recovered rule: less_induct)
  case less
  let ?p = "take n (drop k (whole s))"
  show ?case
  proof (cases "length ?p < n")
    case True
    then have "?p = drop k (whole s)" by simp
    with True less.prems show ?thesis by (subst scan_pages.simps) simp
  next
    case False
    then have len: "length ?p = n" "k + n \<le> length (whole s)" using less.prems by auto
    then have nonempty: "?p \<noteq> []" using assms(2) by auto
    have "last ?p = whole s ! (k + n - 1)"
      using nonempty len assms(2) by (simp add: last_conv_nth)
    then have "page s (Some (cursor (last ?p))) n = Inr (take n (drop (k + n) (whole s)))"
      using next_page [OF assms(1-3), of "k + n - 1"] len assms(2) by simp
    from less.hyps [OF _ this, of "recovered @ ?p"] len assms(2)
    have "scan_pages (\<lambda>c. page s c n) cursor n (Some (cursor (last ?p))) (recovered @ ?p) =
        Some (Inr ((recovered @ ?p) @ drop (k + n) (whole s)))"
      by simp
    moreover have "?p @ drop (k + n) (whole s) = drop k (whole s)"
      by (metis append_take_drop_id drop_drop add.commute)
    ultimately show ?thesis
      using less.prems False nonempty by (subst scan_pages.simps) simp
  qed
qed

lemma scan_pages_whole:
  assumes "ready s" and "0 < n" and "n \<le> 100"
  shows "scan_pages (\<lambda>c. page s c n) cursor n None [] = Some (Inr (whole s))"
  using scan_pages_from [OF assms, of None 0 "[]"] first_page [OF assms] by simp

end

section \<open>The operation journal as a paged scan\<close>

definition journal_page :: "memory_store \<Rightarrow> journal_cursor option \<Rightarrow> nat \<Rightarrow> persisted_operation list result" where
  "journal_page s after n =
     scanOperationJournal s \<lparr>jq_after = after, jq_limit = Some (Num (of_nat n))\<rparr> True"

lemma assertOperationQuery_limit:
  "0 < n \<Longrightarrow> n \<le> 100 \<Longrightarrow> assertOperationQuery \<lparr>jq_after = after, jq_limit = Some (Num (of_nat n))\<rparr> = Inr ()"
  by (simp add: assertOperationQuery_def safe_integer_def MAX_SAFE_INTEGER_def)

lemma journal_page_eq:
  assumes "store_ok s" and "ms_lifecycle s = StoreOpen" and "0 < n" and "n \<le> 100"
  shows "journal_page s after n =
    Inr (take n (filter (after_cursor \<lparr>jq_after = after, jq_limit = Some (Num (of_nat n))\<rparr>) (journal_entries s True)))"
  unfolding journal_page_def
    scanOperationJournal_eq [OF assms(1,2) assertOperationQuery_limit [OF assms(3,4)]]
  by (simp add: slice_limit_def)

interpretation recoverable_journal: paged_scan
  "\<lambda>s. store_ok s \<and> ms_lifecycle s = StoreOpen" journal_page "\<lambda>s. journal_entries s True" entry_cursor
proof
  fix s :: memory_store and n i :: nat
  assume ready: "store_ok s \<and> ms_lifecycle s = StoreOpen" and n: "0 < n" "n \<le> 100"
  show "journal_page s None n = Inr (take n (journal_entries s True))"
    using ready n by (simp add: journal_page_eq after_cursor_key)
  assume i: "i < length (journal_entries s True)"
  let ?e = "journal_entries s True ! i"
  have "filter (after_cursor \<lparr>jq_after = Some (entry_cursor ?e), jq_limit = Some (Num (of_nat n))\<rparr>)
      (journal_entries s True) =
    filter (\<lambda>x. entry_position ?e < entry_position x) (journal_entries s True)"
    by (rule filter_cong [OF refl]) (simp add: after_cursor_key entry_cursor_def entry_position_def)
  also have "\<dots> = drop (Suc i) (journal_entries s True)"
    using filter_above [OF journal_entries_sorted i] ready by blast
  finally show "journal_page s (Some (entry_cursor ?e)) n = Inr (take n (drop (Suc i) (journal_entries s True)))"
    using ready n by (simp add: journal_page_eq)
qed

section \<open>A collection in a transaction as a paged scan\<close>

text \<open>\<open>"tego"\<close> and the page query of \<open>scanObservedStatusCollection\<close>.\<close>

definition collection_query :: "jstring \<Rightarrow> jstring option \<Rightarrow> nat \<Rightarrow> state_query" where
  "collection_query collection after n =
     \<lparr>q_namespace = js ''tego'', q_collection = collection, q_idPrefix = None, q_afterId = after,
      q_limit = Some (Num (of_nat n))\<rparr>"

definition collection_page ::
  "memory_transaction \<times> jstring \<Rightarrow> jstring option \<Rightarrow> nat \<Rightarrow> scanned_state list result" where
  "collection_page = (\<lambda>(tx, collection) after n. tx_scan tx (collection_query collection after n))"

definition collection_records :: "memory_transaction \<times> jstring \<Rightarrow> scanned_state list" where
  "collection_records = (\<lambda>(tx, collection).
     matching \<lparr>q_namespace = js ''tego'', q_collection = collection, q_idPrefix = None, q_afterId = None,
               q_limit = None\<rparr> (tx_view tx))"

text \<open>A transaction in progress whose snapshot has portable identifiers, as every key a put accepts has.\<close>

definition tx_scannable :: "memory_transaction \<times> jstring \<Rightarrow> bool" where
  "tx_scannable = (\<lambda>(tx, collection).
     tx_active tx \<and> tx_ok tx \<and> filed (tx_snapshot tx) \<and> isPortableStateString collection \<and>
     (\<forall>x \<in> set (collection_records (tx, collection)). isPortableStateString (key_id (scan_key x))))"

lemma matching_limit: "matching (q\<lparr>q_limit := l\<rparr>) records = matching q records"
proof -
  have "query_matches (q\<lparr>q_limit := l\<rparr>) = query_matches q" by (rule ext) (simp add: query_matches_def)
  then show ?thesis by (simp only: matching_def)
qed

lemma portable_tego: "isPortableStateString (js ''tego'')"
  by (simp add: js_def)

lemma collection_page_eq:
  assumes "tx_scannable (tx, collection)" and "0 < n" and "n \<le> 100"
    and "case after of None \<Rightarrow> True | Some a \<Rightarrow> isPortableStateString a"
  shows "collection_page (tx, collection) after n =
    Inr (take n (filter (\<lambda>x. case after of None \<Rightarrow> True | Some a \<Rightarrow> a < key_id (scan_key x))
           (collection_records (tx, collection))))"
proof -
  let ?q0 = "\<lparr>q_namespace = js ''tego'', q_collection = collection, q_idPrefix = None, q_afterId = None,
               q_limit = None\<rparr>"
  have q: "collection_query collection after n = (?q0\<lparr>q_afterId := after\<rparr>)\<lparr>q_limit := Some (Num (of_nat n))\<rparr>"
    by (simp add: collection_query_def)
  have ok: "assertStateQuery (collection_query collection after n) = Inr ()"
    using assms portable_tego
    by (auto simp: assertStateQuery_def collection_query_def tx_scannable_def safe_integer_def MAX_SAFE_INTEGER_def
        STATE_QUERY_MAX_LIMIT_def split: option.splits)
  have "matching (?q0\<lparr>q_afterId := after\<rparr>) (tx_view tx) =
      filter (\<lambda>x. case after of None \<Rightarrow> True | Some a \<Rightarrow> a < key_id (scan_key x)) (collection_records (tx, collection))"
  proof (cases after)
    case None
    then show ?thesis by (simp add: collection_records_def)
  next
    case (Some a)
    have "filed (tx_view tx)" using assms(1) by (auto simp: tx_scannable_def intro: filed_view)
    from matching_after [OF this, of ?q0 a] Some show ?thesis by (simp add: collection_records_def)
  qed
  then have "matching (collection_query collection after n) (tx_view tx) =
      filter (\<lambda>x. case after of None \<Rightarrow> True | Some a \<Rightarrow> a < key_id (scan_key x)) (collection_records (tx, collection))"
    unfolding q matching_limit .
  then show ?thesis
    using assms(1) ok
    by (simp add: collection_page_def tx_scan_def tx_view_def [symmetric] scan_records_matching tx_scannable_def
        assertActive_def slice_limit_def) (simp add: collection_query_def)
qed

interpretation collection_scan: paged_scan
  tx_scannable collection_page collection_records "\<lambda>x. key_id (scan_key x)"
proof
  fix s :: "memory_transaction \<times> jstring" and n i :: nat
  assume ready: "tx_scannable s" and n: "0 < n" "n \<le> 100"
  obtain tx collection where s: "s = (tx, collection)" by (cases s)
  show "collection_page s None n = Inr (take n (collection_records s))"
    using collection_page_eq [OF _ n, of tx collection None] ready s by simp
  assume i: "i < length (collection_records s)"
  have "filed (tx_view tx)" using ready s by (auto simp: tx_scannable_def intro: filed_view)
  then have "sorted_wrt (<) (map (\<lambda>x. key_id (scan_key x)) (collection_records s))"
    unfolding s collection_records_def by (simp add: matching_sorted)
  from filter_above [OF this i]
  have "filter (\<lambda>x. key_id (scan_key (collection_records s ! i)) < key_id (scan_key x)) (collection_records s) =
      drop (Suc i) (collection_records s)" .
  moreover have "isPortableStateString (key_id (scan_key (collection_records s ! i)))"
    using ready i s by (auto simp: tx_scannable_def)
  ultimately show "collection_page s (Some (key_id (scan_key (collection_records s ! i)))) n =
      Inr (take n (drop (Suc i) (collection_records s)))"
    using collection_page_eq [OF _ n, of tx collection "Some (key_id (scan_key (collection_records s ! i)))"] ready s
    by simp
qed

section \<open>Recovery of the runtime\<close>

definition recoveryPageSize :: nat where
  "recoveryPageSize = 100"

definition recoverOperations ::
  "(journal_query \<Rightarrow> persisted_operation list result) \<Rightarrow> persisted_operation list result option" where
  "recoverOperations scanRecoverable =
     scan_pages (\<lambda>after. scanRecoverable \<lparr>jq_after = after, jq_limit = Some (Num (of_nat recoveryPageSize))\<rparr>)
       entry_cursor recoveryPageSize None []"

definition countCollection :: "(state_query \<Rightarrow> scanned_state list result) \<Rightarrow> jstring \<Rightarrow> nat result" where
  "countCollection scan collection =
     and_then (scan \<lparr>q_namespace = js ''tego'', q_collection = collection, q_idPrefix = None,
                     q_afterId = None, q_limit = None\<rparr>) (\<lambda>records. Inr (length records))"

text \<open>
  The fields of a deployment the recovery reads. \<open>parsePluginDeployment\<close> runs a validator that the
  schema library compiles, so it is a parameter.
\<close>

record deployment_view =
  dv_applicationId :: jstring
  dv_active :: bool
  dv_essential :: bool

fun recover_readiness ::
  "(json \<Rightarrow> deployment_view result) \<Rightarrow> jstring \<Rightarrow> scanned_state list \<Rightarrow> deployment_readiness list \<Rightarrow>
   deployment_readiness list result" where
  "recover_readiness parse applicationId [] readiness = Inr readiness"
| "recover_readiness parse applicationId (r # rs) readiness =
     and_then (parse (scan_value r)) (\<lambda>d.
       if dv_applicationId d \<noteq> applicationId then recover_readiness parse applicationId rs readiness
       else recover_readiness parse applicationId rs
         (readiness @ [\<lparr>dr_desired = dv_active d, dr_essential = dv_essential d, dr_ready = False\<rparr>]))"

definition recoverDeployments ::
  "(state_query \<Rightarrow> scanned_state list result) \<Rightarrow> (json \<Rightarrow> deployment_view result) \<Rightarrow> jstring \<Rightarrow>
   (nat \<times> deployment_readiness list) result" where
  "recoverDeployments scan parse applicationId =
     and_then (scan \<lparr>q_namespace = js ''tego'', q_collection = js ''deployments'', q_idPrefix = None,
                     q_afterId = None, q_limit = None\<rparr>) (\<lambda>records.
     and_then (recover_readiness parse applicationId records []) (\<lambda>readiness.
       Inr (length readiness, readiness)))"

record recovery_snapshot =
  rs_installationCount :: nat
  rs_deploymentCount :: nat
  rs_deploymentReadiness :: "deployment_readiness list"
  rs_taskCount :: nat
  rs_operations :: "persisted_operation list"

definition recoverRuntimeState ::
  "(state_query \<Rightarrow> scanned_state list result) \<Rightarrow> (journal_query \<Rightarrow> persisted_operation list result) \<Rightarrow>
   (json \<Rightarrow> deployment_view result) \<Rightarrow> jstring \<Rightarrow> recovery_snapshot result option" where
  "recoverRuntimeState scan scanRecoverable parse applicationId =
     (case and_then (countCollection scan (js ''installations'')) (\<lambda>installations.
           and_then (recoverDeployments scan parse applicationId) (\<lambda>deployments.
           and_then (countCollection scan (js ''tasks'')) (\<lambda>tasks.
             Inr (installations, deployments, tasks)))) of
        Inl e \<Rightarrow> Some (Inl e)
      | Inr (installations, (deployed, readiness), tasks) \<Rightarrow>
          map_option (map_sum id (\<lambda>operations.
            \<lparr>rs_installationCount = installations, rs_deploymentCount = deployed, rs_deploymentReadiness = readiness,
             rs_taskCount = tasks, rs_operations = operations\<rparr>))
            (recoverOperations scanRecoverable))"

definition observedStatusPageSize :: nat where
  "observedStatusPageSize = 100"

definition scanObservedStatusCollection ::
  "memory_transaction \<Rightarrow> jstring \<Rightarrow> scanned_state list result option" where
  "scanObservedStatusCollection tx collection =
     scan_pages (\<lambda>after. tx_scan tx (collection_query collection after observedStatusPageSize))
       (\<lambda>x. key_id (scan_key x)) observedStatusPageSize None []"

section \<open>Properties\<close>

text \<open>
  C36. The recovery returns every unfinished operation once: over an open in-memory store, the paging loop
  ends and yields exactly the journal entries whose status is planned or executing, ordered by revision
  and operation identifier, however many pages there are.
\<close>

theorem recovery_complete:
  assumes "store_ok s" and "ms_lifecycle s = StoreOpen"
  shows "\<exists>es. recoverOperations (\<lambda>q. scanOperationJournal s q True) = Some (Inr es) \<and>
    set es = {e \<in> snd ` set (ms_operations s). op_status e = OpPlanned \<or> op_status e = OpExecuting} \<and>
    sorted_wrt (\<lambda>x y. op_revision x < op_revision y \<or> op_revision x = op_revision y \<and> op_id x < op_id y) es"
proof -
  have "recoverOperations (\<lambda>q. scanOperationJournal s q True) = Some (Inr (journal_entries s True))"
    using recoverable_journal.scan_pages_whole [of s recoveryPageSize] assms
    by (simp add: recoverOperations_def recoveryPageSize_def journal_page_def)
  moreover have "set (journal_entries s True) =
      {e \<in> snd ` set (ms_operations s). op_status e = OpPlanned \<or> op_status e = OpExecuting}"
    by (auto simp: journal_entries_def recoverable_def)
  moreover have "sorted_wrt (\<lambda>x y. op_revision x < op_revision y \<or> op_revision x = op_revision y \<and> op_id x < op_id y)
      (journal_entries s True)"
    using journal_entries_sorted [OF assms(1), of True]
    by (simp add: sorted_wrt_map entry_position_def less_prod_def')
  ultimately show ?thesis by blast
qed

theorem recovery_complete_witness:
  "let e = (\<lambda>i status. \<lparr>op_id = [i], op_kind = [], op_status = status, op_state = JNull, op_updatedAt = [], op_revision = 1\<rparr>);
       s = new_store\<lparr>ms_lifecycle := StoreOpen, ms_revision := 1,
         ms_operations := [([98], e 98 OpPlanned), ([97], e 97 OpExecuting), ([99], e 99 OpFailed)],
         ms_operationHistory := [e 98 OpPlanned, e 97 OpExecuting, e 99 OpFailed]\<rparr>
   in \<exists>es. recoverOperations (\<lambda>q. scanOperationJournal s q True) = Some (Inr es) \<and>
        set es = {e 98 OpPlanned, e 97 OpExecuting}"
proof -
  define e :: "code_unit \<Rightarrow> operation_status \<Rightarrow> persisted_operation" where
    "e = (\<lambda>i status. \<lparr>op_id = [i], op_kind = [], op_status = status, op_state = JNull, op_updatedAt = [], op_revision = 1\<rparr>)"
  define s where "s = new_store\<lparr>ms_lifecycle := StoreOpen, ms_revision := 1,
         ms_operations := [([98], e 98 OpPlanned), ([97], e 97 OpExecuting), ([99], e 99 OpFailed)],
         ms_operationHistory := [e 98 OpPlanned, e 97 OpExecuting, e 99 OpFailed]\<rparr>"
  have ok: "store_ok s" "ms_lifecycle s = StoreOpen"
    using store_ok_new
    by (simp_all add: s_def e_def store_ok_def new_store_def journal_ok_def map_ok_def records_ok_def
        changes_ok_def watches_ok_def)
  have "{x \<in> snd ` set (ms_operations s). op_status x = OpPlanned \<or> op_status x = OpExecuting} =
      {e 98 OpPlanned, e 97 OpExecuting}"
    by (auto simp: s_def e_def)
  then have "\<exists>es. recoverOperations (\<lambda>q. scanOperationJournal s q True) = Some (Inr es) \<and>
      set es = {e 98 OpPlanned, e 97 OpExecuting}"
    using recovery_complete [OF ok] by (elim exE conjE, intro exI conjI) (simp_all only:)
  then show ?thesis unfolding Let_def s_def e_def .
qed

text \<open>
  C40. The scan of observed status returns a whole collection: over a transaction in progress the paging
  loop ends and yields every record of the collection as the transaction sees it, staged writes
  included, once each and in ascending order of identifiers.
\<close>

theorem observed_status_complete:
  assumes "tx_scannable (tx, collection)"
  shows "\<exists>xs. scanObservedStatusCollection tx collection = Some (Inr xs) \<and>
    set xs = scannedRecord ` {r \<in> snd ` set (tx_view tx).
      key_namespace (rec_key r) = js ''tego'' \<and> key_collection (rec_key r) = collection} \<and>
    sorted_wrt (<) (map (\<lambda>x. key_id (scan_key x)) xs)"
proof -
  have "scanObservedStatusCollection tx collection = Some (Inr (collection_records (tx, collection)))"
    using collection_scan.scan_pages_whole [OF assms, of observedStatusPageSize]
    by (simp add: scanObservedStatusCollection_def observedStatusPageSize_def collection_page_def)
  moreover have "set (collection_records (tx, collection)) = scannedRecord ` {r \<in> snd ` set (tx_view tx).
      key_namespace (rec_key r) = js ''tego'' \<and> key_collection (rec_key r) = collection}"
    by (auto simp: collection_records_def matching_def query_matches_def)
  moreover have "sorted_wrt (<) (map (\<lambda>x. key_id (scan_key x)) (collection_records (tx, collection)))"
  proof -
    have "filed (tx_view tx)" using assms filed_view by (simp add: tx_scannable_def)
    then show ?thesis by (simp only: collection_records_def prod.case matching_sorted)
  qed
  ultimately show ?thesis by blast
qed

theorem observed_status_complete_witness:
  "\<exists>xs. scanObservedStatusCollection (begin_transaction []) (js ''deployments'') = Some (Inr xs) \<and> set xs = {}"
proof -
  have "tx_scannable (begin_transaction [], js ''deployments'')"
    using tx_ok_begin [of "[]"]
    by (simp add: tx_scannable_def begin_transaction_def filed_def js_def collection_records_def tx_view_def
        matching_def)
  from observed_status_complete [OF this] show ?thesis
    by (simp add: tx_view_def begin_transaction_def)
qed

end
