(* ===== verification/Permission_Grant.thy ===== *)
theory Permission_Grant
  imports Identity
begin

text \<open>
  Permission envelopes (\<open>packages/contracts/src/permission-grant.ts\<close>): the copy of an input, its
  canonical form and the check of a grant against the manifest's request. Every
  \<open>PermissionInputError\<close> is \<open>GenericError\<close> here; messages and paths are not modelled. Node's
  \<open>domainToASCII\<close> is the parameter \<open>toASCII\<close> of the definitions that canonicalise host names.
\<close>

section \<open>Data\<close>

record worker_resources =
  cpuMillis :: int
  memoryBytes :: int
  storageBytes :: int

text \<open>Executor kinds, access modes and HTTP methods are strings the canonical form has checked.\<close>

datatype permission =
    CapabilityPermission (capabilities: "(jstring \<times> jstring list) list")
  | EnvironmentPermission (env_names: "jstring list")
  | ExecutorPermission (executors: "jstring list")
  | FilesystemPermission (roots: "(jstring \<times> jstring list) list")
  | NetworkPermission (hosts: "jstring list") (ports: "int list") (http_methods: "jstring list")
  | SecretPermission (secret_names: "jstring list")
  | WorkerPermission (labels: "(jstring \<times> jstring) list") (resources: worker_resources)

datatype permission_kind =
    KCapability | KEnvironment | KExecutor | KFilesystem | KNetwork | KSecret | KWorker

fun kind_of :: "permission \<Rightarrow> permission_kind" where
  "kind_of (CapabilityPermission _) = KCapability"
| "kind_of (EnvironmentPermission _) = KEnvironment"
| "kind_of (ExecutorPermission _) = KExecutor"
| "kind_of (FilesystemPermission _) = KFilesystem"
| "kind_of (NetworkPermission _ _ _) = KNetwork"
| "kind_of (SecretPermission _) = KSecret"
| "kind_of (WorkerPermission _ _) = KWorker"

fun kind_text :: "permission_kind \<Rightarrow> jstring" where
  "kind_text KCapability = js ''capability''"
| "kind_text KEnvironment = js ''environment''"
| "kind_text KExecutor = js ''executor''"
| "kind_text KFilesystem = js ''filesystem''"
| "kind_text KNetwork = js ''network''"
| "kind_text KSecret = js ''secret''"
| "kind_text KWorker = js ''worker''"

section \<open>The copy of an input\<close>

text \<open>
  Only JSON data passes; unlike \<open>serializeWireValue\<close> nothing is converted. (Own members that are symbols
  or not enumerable, which the source rejects, have no counterpart in \<open>jsvalue\<close>.)
\<close>

fun clonePermissionBoundaryValue :: "jsvalue \<Rightarrow> json result"
  and clone_slot :: "slot \<Rightarrow> json result"
  and clone_slots :: "slot list \<Rightarrow> json list result"
  and clone_members :: "(jstring \<times> slot) list \<Rightarrow> (jstring \<times> json) list result" where
  "clonePermissionBoundaryValue VNull = Inr JNull"
| "clonePermissionBoundaryValue (VString s) = Inr (JStr s)"
| "clonePermissionBoundaryValue (VBool b) = Inr (JBool b)"
| "clonePermissionBoundaryValue (VInt n) = Inr (JInt n)"
| "clonePermissionBoundaryValue (VReal s) = Inr (JReal s)"
| "clonePermissionBoundaryValue VNonFinite = Inl GenericError"
| "clonePermissionBoundaryValue (VBigInt n) = Inl GenericError"
| "clonePermissionBoundaryValue (VDate t) = Inl GenericError"
| "clonePermissionBoundaryValue (VBytes bs) = Inl GenericError"
| "clonePermissionBoundaryValue VOther = Inl GenericError"
| "clonePermissionBoundaryValue VAncestor = Inl GenericError"
| "clonePermissionBoundaryValue (VArray xs extended) =
     and_then (clone_slots xs) (\<lambda>ys. if extended then Inl GenericError else Inr (JArr ys))"
| "clonePermissionBoundaryValue (VObject plain ms) =
     (if plain
      then and_then (clone_members ms) (\<lambda>ks. Inr (JObj (sort_by compareMembers ks)))
      else Inl GenericError)"
| "clone_slot (Data v) = clonePermissionBoundaryValue v"
| "clone_slot Hole = Inl GenericError"
| "clone_slot Accessor = Inl GenericError"
| "clone_slots [] = Inr []"
| "clone_slots (x # xs) = and_then (clone_slot x) (\<lambda>y. and_then (clone_slots xs) (\<lambda>ys. Inr (y # ys)))"
| "clone_members [] = Inr []"
| "clone_members ((k, x) # ms) =
     and_then (clone_slot x) (\<lambda>y. and_then (clone_members ms) (\<lambda>ks. Inr ((k, y) # ks)))"

section \<open>Readers\<close>

definition objectAt :: "json option \<Rightarrow> (jstring \<times> json) list result" where
  "objectAt v = (case v of Some (JObj ms) \<Rightarrow> Inr ms | _ \<Rightarrow> Inl GenericError)"

definition arrayAt :: "json option \<Rightarrow> json list result" where
  "arrayAt v = (case v of Some (JArr xs) \<Rightarrow> Inr xs | _ \<Rightarrow> Inl GenericError)"

definition stringAt :: "json option \<Rightarrow> jstring result" where
  "stringAt v = (case v of Some (JStr s) \<Rightarrow> Inr s | _ \<Rightarrow> Inl GenericError)"

definition exactKeys :: "(jstring \<times> json) list \<Rightarrow> jstring list \<Rightarrow> unit result" where
  "exactKeys obj keys =
     (if sort_by compareText (map fst obj) = sort_by compareText keys then Inr () else Inl GenericError)"

text \<open>A value is dropped when it compares equal to the one before it.\<close>

fun drop_repeats :: "('a \<Rightarrow> 'a \<Rightarrow> int) \<Rightarrow> 'a \<Rightarrow> 'a list \<Rightarrow> 'a list" where
  "drop_repeats cmp previous [] = []"
| "drop_repeats cmp previous (x # xs) =
     (if cmp previous x \<noteq> 0 then x # drop_repeats cmp x xs else drop_repeats cmp x xs)"

definition sortedUnique :: "'a list \<Rightarrow> ('a \<Rightarrow> 'a \<Rightarrow> int) \<Rightarrow> 'a list" where
  "sortedUnique values cmp =
     (case sort_by cmp values of [] \<Rightarrow> [] | x # xs \<Rightarrow> x # drop_repeats cmp x xs)"

definition portableName :: "json option \<Rightarrow> jstring result" where
  "portableName v = and_then (stringAt v) (\<lambda>s. if IDENTITY_PATTERN s then Inr s else Inl GenericError)"

definition environmentName :: "json option \<Rightarrow> jstring result" where
  "environmentName v =
     and_then (stringAt v) (\<lambda>s.
       if s \<noteq> [] \<and> (is_upper (hd s) \<or> is_lower (hd s) \<or> hd s = 95) \<and>
          list_all (\<lambda>c. is_alnum c \<or> c = 95) (tl s) \<and> length s \<le> 128
       then Inr s else Inl GenericError)"

text \<open>
  \<open>toLowerCase\<close> and \<open>toUpperCase\<close>, as far as their result can consist of ASCII letters alone: besides
  the ASCII letters that is the Kelvin sign for the former, and the dotless i, the long s, the sharp s
  and the Latin ligatures for the latter. Every other unit is left as it is; its true image is not
  ASCII either, and the results are only used where a check has them in ASCII.
\<close>

definition toLowerCase :: "jstring \<Rightarrow> jstring" where
  "toLowerCase = map (\<lambda>c. if is_upper c then c + 32 else if c = 0x212a then 107 else c)"

definition upper_units :: "code_unit \<Rightarrow> jstring" where
  "upper_units c =
     (if is_lower c then [c - 32]
      else if c = 0x131 then js ''I'' else if c = 0x17f then js ''S'' else if c = 0xdf then js ''SS''
      else if c = 0xfb00 then js ''FF'' else if c = 0xfb01 then js ''FI'' else if c = 0xfb02 then js ''FL''
      else if c = 0xfb03 then js ''FFI'' else if c = 0xfb04 then js ''FFL''
      else if c = 0xfb05 \<or> c = 0xfb06 then js ''ST'' else [c])"

definition toUpperCase :: "jstring \<Rightarrow> jstring" where
  "toUpperCase s = concat (map upper_units s)"

definition dns_label :: "jstring \<Rightarrow> bool" where
  "dns_label l \<longleftrightarrow>
     l \<noteq> [] \<and> length l \<le> 63 \<and> list_all (\<lambda>c. is_lower c \<or> is_digit c \<or> c = 45) l \<and> hd l \<noteq> 45 \<and> last l \<noteq> 45"

definition canonicalHost :: "(jstring \<Rightarrow> jstring) \<Rightarrow> json option \<Rightarrow> jstring result" where
  "canonicalHost toASCII v =
     and_then (stringAt v) (\<lambda>source.
       if 42 \<in> set source \<or> 0 \<in> set source \<or> source = [] then Inl GenericError
       else
         (let withoutDot = (if last source = 46 then butlast source else source)
          in if withoutDot = [] \<or> last withoutDot = 46 then Inl GenericError
             else
               (let ascii = toLowerCase (toASCII withoutDot)
                in if ascii = [] \<or> length ascii > 253 \<or> \<not> list_all dns_label (split_on 46 ascii)
                   then Inl GenericError else Inr ascii)))"

definition root_segment :: "jstring \<Rightarrow> bool" where
  "root_segment seg \<longleftrightarrow> seg \<noteq> [46] \<and> seg \<noteq> [46, 46] \<and> seg \<noteq> [] \<and> list_all identity_char seg"

fun double_slash :: "jstring \<Rightarrow> bool" where
  "double_slash (a # b # s) \<longleftrightarrow> a = 47 \<and> b = 47 \<or> double_slash (b # s)"
| "double_slash _ \<longleftrightarrow> False"

definition canonicalRoot :: "json option \<Rightarrow> jstring result" where
  "canonicalRoot v =
     and_then (stringAt v) (\<lambda>source.
       if source = [] \<or> hd source \<noteq> 47 \<or> 92 \<in> set source \<or> 0 \<in> set source \<or> double_slash source
       then Inl GenericError
       else if \<not> list_all root_segment (tl (split_on 47 source)) \<and> source \<noteq> [47] then Inl GenericError
       else Inr (if length source > 1 \<and> last source = 47 then butlast source else source))"

definition HTTP_METHODS :: "jstring list" where
  "HTTP_METHODS =
     map js [''DELETE'', ''GET'', ''HEAD'', ''OPTIONS'', ''PATCH'', ''POST'', ''PUT'']"

definition canonicalMethods :: "json option \<Rightarrow> jstring list result" where
  "canonicalMethods v =
     and_then (arrayAt v) (\<lambda>items.
     and_then (map_result (\<lambda>item. and_then (stringAt (Some item)) (\<lambda>s.
         let m = toUpperCase s in if m \<in> set HTTP_METHODS then Inr m else Inl GenericError)) items) (\<lambda>methods.
       Inr (sortedUnique methods compareText)))"

section \<open>Canonical permissions\<close>

text \<open>The loop over named entries that may not repeat a name.\<close>

fun unique_entries :: "(json \<Rightarrow> (jstring \<times> 'a) result) \<Rightarrow> jstring list \<Rightarrow> json list \<Rightarrow> (jstring \<times> 'a) list result" where
  "unique_entries parse seen [] = Inr []"
| "unique_entries parse seen (item # items) =
     and_then (parse item) (\<lambda>(name, x).
       if name \<in> set seen then Inl GenericError
       else and_then (unique_entries parse (name # seen) items) (\<lambda>rest. Inr ((name, x) # rest)))"

definition compareNamed :: "jstring \<times> 'a \<Rightarrow> jstring \<times> 'a \<Rightarrow> int" where
  "compareNamed left right = compareText (fst left) (fst right)"

definition capability_entry :: "json \<Rightarrow> (jstring \<times> jstring list) result" where
  "capability_entry item =
     and_then (objectAt (Some item)) (\<lambda>entry.
     and_then (exactKeys entry [js ''methods'', js ''name'']) (\<lambda>_.
     and_then (portableName (map_of entry (js ''name''))) (\<lambda>name.
     and_then (arrayAt (map_of entry (js ''methods''))) (\<lambda>items.
     and_then (map_result (\<lambda>m. portableName (Some m)) items) (\<lambda>methods.
       Inr (name, sortedUnique methods compareText))))))"

definition canonicalCapability :: "(jstring \<times> json) list \<Rightarrow> permission result" where
  "canonicalCapability value =
     and_then (exactKeys value [js ''capabilities'', js ''kind'']) (\<lambda>_.
     and_then (arrayAt (map_of value (js ''capabilities''))) (\<lambda>items.
     and_then (unique_entries capability_entry [] items) (\<lambda>entries.
       Inr (CapabilityPermission (sort_by compareNamed entries)))))"

definition EXECUTOR_KINDS :: "jstring list" where
  "EXECUTOR_KINDS = map js [''process'', ''remote'', ''thread'']"

definition ACCESS_MODES :: "jstring list" where
  "ACCESS_MODES = map js [''read'', ''write'']"

definition member_of :: "jstring list \<Rightarrow> json \<Rightarrow> jstring result" where
  "member_of allowed item =
     (case item of JStr s \<Rightarrow> if s \<in> set allowed then Inr s else Inl GenericError | _ \<Rightarrow> Inl GenericError)"

definition canonicalExecutor :: "(jstring \<times> json) list \<Rightarrow> permission result" where
  "canonicalExecutor value =
     and_then (exactKeys value [js ''executors'', js ''kind'']) (\<lambda>_.
     and_then (arrayAt (map_of value (js ''executors''))) (\<lambda>items.
     and_then (map_result (member_of EXECUTOR_KINDS) items) (\<lambda>xs.
       Inr (ExecutorPermission (sortedUnique xs compareText)))))"

definition port_number :: "json \<Rightarrow> int result" where
  "port_number item =
     (case item of
        JInt n \<Rightarrow> if safe_integer n \<and> 1 \<le> n \<and> n \<le> 65535 then Inr n else Inl GenericError
      | _ \<Rightarrow> Inl GenericError)"

definition canonicalNetwork :: "(jstring \<Rightarrow> jstring) \<Rightarrow> (jstring \<times> json) list \<Rightarrow> permission result" where
  "canonicalNetwork toASCII value =
     and_then (exactKeys value [js ''hosts'', js ''kind'', js ''methods'', js ''ports'']) (\<lambda>_.
     and_then (arrayAt (map_of value (js ''hosts''))) (\<lambda>host_items.
     and_then (map_result (\<lambda>h. canonicalHost toASCII (Some h)) host_items) (\<lambda>hs.
     and_then (arrayAt (map_of value (js ''ports''))) (\<lambda>port_items.
     and_then (map_result port_number port_items) (\<lambda>ps.
     and_then (canonicalMethods (map_of value (js ''methods''))) (\<lambda>ms.
       Inr (NetworkPermission (sortedUnique hs compareText) (sortedUnique ps (\<lambda>l r. l - r)) ms)))))))"

definition filesystem_root :: "json \<Rightarrow> (jstring \<times> jstring list) result" where
  "filesystem_root item =
     and_then (objectAt (Some item)) (\<lambda>entry.
     and_then (exactKeys entry [js ''access'', js ''path'']) (\<lambda>_.
     and_then (canonicalRoot (map_of entry (js ''path''))) (\<lambda>root.
     and_then (arrayAt (map_of entry (js ''access''))) (\<lambda>items.
     and_then (map_result (member_of ACCESS_MODES) items) (\<lambda>access.
       Inr (root, sortedUnique access compareText))))))"

definition canonicalFilesystem :: "(jstring \<times> json) list \<Rightarrow> permission result" where
  "canonicalFilesystem value =
     and_then (exactKeys value [js ''kind'', js ''roots'']) (\<lambda>_.
     and_then (arrayAt (map_of value (js ''roots''))) (\<lambda>items.
     and_then (unique_entries filesystem_root [] items) (\<lambda>entries.
       Inr (FilesystemPermission (sort_by compareNamed entries)))))"

definition canonicalNames :: "(json option \<Rightarrow> jstring result) \<Rightarrow> (jstring \<times> json) list \<Rightarrow> jstring list result" where
  "canonicalNames parseName value =
     and_then (exactKeys value [js ''kind'', js ''names'']) (\<lambda>_.
     and_then (arrayAt (map_of value (js ''names''))) (\<lambda>items.
     and_then (map_result (\<lambda>n. parseName (Some n)) items) (\<lambda>ns.
       Inr (sortedUnique ns compareText))))"

definition resource :: "json option \<Rightarrow> int result" where
  "resource v =
     (case v of
        Some (JInt n) \<Rightarrow> if safe_integer n \<and> 0 \<le> n then Inr n else Inl GenericError
      | _ \<Rightarrow> Inl GenericError)"

definition canonicalWorker :: "(jstring \<times> json) list \<Rightarrow> permission result" where
  "canonicalWorker value =
     and_then (exactKeys value [js ''kind'', js ''labels'', js ''resources'']) (\<lambda>_.
     and_then (objectAt (map_of value (js ''labels''))) (\<lambda>sourceLabels.
     and_then (map_result (\<lambda>(n, v). and_then (portableName (Some (JStr n))) (\<lambda>name.
         and_then (portableName (Some v)) (\<lambda>label. Inr (name, label))))
       (sort_by compareMembers sourceLabels)) (\<lambda>ls.
     and_then (objectAt (map_of value (js ''resources''))) (\<lambda>rs.
     and_then (exactKeys rs [js ''cpuMillis'', js ''memoryBytes'', js ''storageBytes'']) (\<lambda>_.
     and_then (resource (map_of rs (js ''cpuMillis''))) (\<lambda>cpu.
     and_then (resource (map_of rs (js ''memoryBytes''))) (\<lambda>mem.
     and_then (resource (map_of rs (js ''storageBytes''))) (\<lambda>stor.
       Inr (WorkerPermission ls \<lparr>cpuMillis = cpu, memoryBytes = mem, storageBytes = stor\<rparr>)))))))))"

definition canonical_entry :: "(jstring \<Rightarrow> jstring) \<Rightarrow> jstring \<Rightarrow> (jstring \<times> json) list \<Rightarrow> permission result" where
  "canonical_entry toASCII kind entry =
     (if kind = js ''capability'' then canonicalCapability entry
      else if kind = js ''environment'' then
        and_then (canonicalNames environmentName entry) (\<lambda>ns. Inr (EnvironmentPermission ns))
      else if kind = js ''secret'' then
        and_then (canonicalNames portableName entry) (\<lambda>ns. Inr (SecretPermission ns))
      else if kind = js ''executor'' then canonicalExecutor entry
      else if kind = js ''filesystem'' then canonicalFilesystem entry
      else if kind = js ''network'' then canonicalNetwork toASCII entry
      else if kind = js ''worker'' then canonicalWorker entry
      else Inl GenericError)"

fun canonical_entries :: "(jstring \<Rightarrow> jstring) \<Rightarrow> jstring list \<Rightarrow> json list \<Rightarrow> permission list result" where
  "canonical_entries toASCII seen [] = Inr []"
| "canonical_entries toASCII seen (item # items) =
     and_then (objectAt (Some item)) (\<lambda>entry.
     and_then (stringAt (map_of entry (js ''kind''))) (\<lambda>kind.
       if kind \<in> set seen then Inl GenericError
       else and_then (canonical_entry toASCII kind entry) (\<lambda>p.
            and_then (canonical_entries toASCII (kind # seen) items) (\<lambda>ps. Inr (p # ps)))))"

definition compareKinds :: "permission \<Rightarrow> permission \<Rightarrow> int" where
  "compareKinds left right = compareText (kind_text (kind_of left)) (kind_text (kind_of right))"

definition canonicalizePermissionSet :: "(jstring \<Rightarrow> jstring) \<Rightarrow> jsvalue \<Rightarrow> permission list result" where
  "canonicalizePermissionSet toASCII input =
     and_then (clonePermissionBoundaryValue input) (\<lambda>stable.
     and_then (arrayAt (Some stable)) (\<lambda>entries.
     and_then (canonical_entries toASCII [] entries) (\<lambda>ps.
       Inr (sort_by compareKinds ps))))"

section \<open>Grants\<close>

definition containsAll :: "'a list \<Rightarrow> 'a list \<Rightarrow> bool" where
  "containsAll requested granted = list_all (\<lambda>v. v \<in> set requested) granted"

definition path_prefix :: "jstring \<Rightarrow> jstring \<Rightarrow> bool" where
  "path_prefix p s \<longleftrightarrow> take (length p) s = p"

definition containsLogicalPath :: "jstring \<Rightarrow> jstring \<Rightarrow> bool" where
  "containsLogicalPath base target \<longleftrightarrow> base = [47] \<or> target = base \<or> path_prefix (base @ [47]) target"

fun categorySubset :: "permission \<Rightarrow> permission \<Rightarrow> bool" where
  "categorySubset (CapabilityPermission req) (CapabilityPermission grt) =
     list_all (\<lambda>(name, methods).
       case map_of req name of None \<Rightarrow> False | Some maximum \<Rightarrow> containsAll maximum methods) grt"
| "categorySubset (EnvironmentPermission req) (EnvironmentPermission grt) = containsAll req grt"
| "categorySubset (ExecutorPermission req) (ExecutorPermission grt) = containsAll req grt"
| "categorySubset (FilesystemPermission req) (FilesystemPermission grt) =
     list_all (\<lambda>(path, access).
       list_ex (\<lambda>(rpath, raccess). containsLogicalPath rpath path \<and> containsAll raccess access) req) grt"
| "categorySubset (NetworkPermission rh rp rm) (NetworkPermission gh gp gm) \<longleftrightarrow>
     containsAll rh gh \<and> containsAll rp gp \<and> containsAll rm gm"
| "categorySubset (SecretPermission req) (SecretPermission grt) = containsAll req grt"
| "categorySubset (WorkerPermission rl rr) (WorkerPermission gl gr) \<longleftrightarrow>
     list_all (\<lambda>(name, value). map_of gl name = Some value) rl \<and>
     cpuMillis gr \<le> cpuMillis rr \<and> memoryBytes gr \<le> memoryBytes rr \<and> storageBytes gr \<le> storageBytes rr"
| "categorySubset _ _ = False"

definition find_kind :: "permission_kind \<Rightarrow> permission list \<Rightarrow> permission option" where
  "find_kind k ps = find (\<lambda>p. kind_of p = k) ps"

datatype permission_decision =
    EnvelopeInvalid
  | ExceedsRequest permission_kind "permission list" "permission list"
  | GrantAllowed "permission list" "permission list"

definition validatePermissionGrant :: "(jstring \<Rightarrow> jstring) \<Rightarrow> jsvalue \<Rightarrow> jsvalue \<Rightarrow> permission_decision" where
  "validatePermissionGrant toASCII requestedInput grantedInput =
     (case and_then (canonicalizePermissionSet toASCII requestedInput) (\<lambda>req.
           and_then (canonicalizePermissionSet toASCII grantedInput) (\<lambda>grt. Inr (req, grt))) of
        Inl e \<Rightarrow> EnvelopeInvalid
      | Inr (req, grt) \<Rightarrow>
          (case find (\<lambda>p. case find_kind (kind_of p) req of
                       None \<Rightarrow> True | Some maximum \<Rightarrow> \<not> categorySubset maximum p) grt of
             Some p \<Rightarrow> ExceedsRequest (kind_of p) req grt
           | None \<Rightarrow> GrantAllowed req grt))"

end
