(* ===== verification/Permission_Gate.thy ===== *)
theory Permission_Gate
  imports Permission_Grant
begin

text \<open>
  The gate that every call of a component passes (\<open>packages/runtime/src/permissions/gate.ts\<close>): a call is
  normalised as a one-element permission and compared with the granted envelope. With it the central
  property of the permission system: a grant that was validated against a request admits no call that
  the request does not.
\<close>

section \<open>Calls\<close>

datatype permission_call =
    CapabilityCall jstring jstring
  | EnvironmentCall jstring
  | SecretCall jstring
  | ExecutorCall jstring
  | FilesystemCall jstring jstring
  | NetworkCall jstring int jstring
  | WorkerCall "(jstring \<times> jstring) list" worker_resources

fun call_kind :: "permission_call \<Rightarrow> permission_kind" where
  "call_kind (CapabilityCall _ _) = KCapability"
| "call_kind (EnvironmentCall _) = KEnvironment"
| "call_kind (SecretCall _) = KSecret"
| "call_kind (ExecutorCall _) = KExecutor"
| "call_kind (FilesystemCall _ _) = KFilesystem"
| "call_kind (NetworkCall _ _ _) = KNetwork"
| "call_kind (WorkerCall _ _) = KWorker"

definition expectedFields :: "jstring \<Rightarrow> jstring list option" where
  "expectedFields kind =
     (if kind = js ''capability'' then Some [js ''kind'', js ''method'', js ''name'']
      else if kind = js ''environment'' then Some [js ''kind'', js ''name'']
      else if kind = js ''executor'' then Some [js ''executor'', js ''kind'']
      else if kind = js ''filesystem'' then Some [js ''access'', js ''kind'', js ''path'']
      else if kind = js ''network'' then Some [js ''host'', js ''kind'', js ''method'', js ''port'']
      else if kind = js ''secret'' then Some [js ''kind'', js ''name'']
      else if kind = js ''worker'' then Some [js ''kind'', js ''labels'', js ''resources'']
      else None)"

text \<open>A member that is present, after the check of the fields.\<close>

definition member :: "(jstring \<times> json) list \<Rightarrow> string \<Rightarrow> json" where
  "member call name = (case map_of call (js name) of Some v \<Rightarrow> v | None \<Rightarrow> JNull)"

definition holder_entry :: "jstring \<Rightarrow> (jstring \<times> json) list \<Rightarrow> json" where
  "holder_entry kind call =
     JObj ((js ''kind'', JStr kind) #
       (if kind = js ''network'' then
          [(js ''hosts'', JArr [member call ''host'']), (js ''ports'', JArr [member call ''port'']),
           (js ''methods'', JArr [member call ''method''])]
        else if kind = js ''filesystem'' then
          [(js ''roots'', JArr [JObj [(js ''path'', member call ''path''),
                                      (js ''access'', JArr [member call ''access''])]])]
        else if kind = js ''worker'' then
          [(js ''labels'', member call ''labels''), (js ''resources'', member call ''resources'')]
        else if kind = js ''capability'' then
          [(js ''capabilities'', JArr [JObj [(js ''name'', member call ''name''),
                                             (js ''methods'', JArr [member call ''method''])]])]
        else if kind = js ''executor'' then [(js ''executors'', JArr [member call ''executor''])]
        else [(js ''names'', JArr [member call ''name''])]))"

definition first_or :: "'a \<Rightarrow> 'a list \<Rightarrow> 'a" where
  "first_or d xs = (case xs of [] \<Rightarrow> d | x # _ \<Rightarrow> x)"

fun call_of :: "permission \<Rightarrow> permission_call result" where
  "call_of (CapabilityPermission es) =
     (case es of [] \<Rightarrow> Inl GenericError | (name, methods) # _ \<Rightarrow> Inr (CapabilityCall name (first_or [] methods)))"
| "call_of (EnvironmentPermission ns) = Inr (EnvironmentCall (first_or [] ns))"
| "call_of (SecretPermission ns) = Inr (SecretCall (first_or [] ns))"
| "call_of (ExecutorPermission xs) = Inr (ExecutorCall (first_or (js ''process'') xs))"
| "call_of (FilesystemPermission rs) =
     (case rs of [] \<Rightarrow> Inl GenericError
      | (path, access) # _ \<Rightarrow> Inr (FilesystemCall path (first_or (js ''read'') access)))"
| "call_of (NetworkPermission hs ps ms) = Inr (NetworkCall (first_or [] hs) (first_or 0 ps) (first_or [] ms))"
| "call_of (WorkerPermission ls rs) = Inr (WorkerCall ls rs)"

definition normalizeCall :: "(jstring \<Rightarrow> jstring) \<Rightarrow> jsvalue \<Rightarrow> permission_call result" where
  "normalizeCall toASCII input =
     and_then (clonePermissionBoundaryValue input) (\<lambda>stable.
     and_then (objectAt (Some stable)) (\<lambda>call.
     and_then (stringAt (map_of call (js ''kind''))) (\<lambda>kind.
       case expectedFields kind of
         None \<Rightarrow> Inl GenericError
       | Some expected \<Rightarrow>
           and_then (exactKeys call expected) (\<lambda>_.
           and_then (canonicalizePermissionSet toASCII (of_json (JArr [holder_entry kind call]))) (\<lambda>holders.
             case holders of [] \<Rightarrow> Inl GenericError | holder # _ \<Rightarrow> call_of holder)))))"

section \<open>The gate\<close>

datatype gate_decision = GateAllowed | GateDenied | GateInvalid

fun permits :: "permission \<Rightarrow> permission_call \<Rightarrow> bool" where
  "permits (CapabilityPermission es) (CapabilityCall name method) =
     list_ex (\<lambda>(n, methods). n = name \<and> method \<in> set methods) es"
| "permits (EnvironmentPermission ns) (EnvironmentCall name) \<longleftrightarrow> name \<in> set ns"
| "permits (SecretPermission ns) (SecretCall name) \<longleftrightarrow> name \<in> set ns"
| "permits (ExecutorPermission xs) (ExecutorCall x) \<longleftrightarrow> x \<in> set xs"
| "permits (FilesystemPermission rs) (FilesystemCall path access) =
     list_ex (\<lambda>(rpath, raccess). containsLogicalPath rpath path \<and> access \<in> set raccess) rs"
| "permits (NetworkPermission hs ps ms) (NetworkCall h p m) \<longleftrightarrow> h \<in> set hs \<and> p \<in> set ps \<and> m \<in> set ms"
| "permits (WorkerPermission ls rs) (WorkerCall cl cr) \<longleftrightarrow>
     list_all (\<lambda>(name, value). map_of cl name = Some value) ls \<and>
     cpuMillis cr \<le> cpuMillis rs \<and> memoryBytes cr \<le> memoryBytes rs \<and> storageBytes cr \<le> storageBytes rs"
| "permits _ _ = False"

definition gatePermission :: "(jstring \<Rightarrow> jstring) \<Rightarrow> jsvalue \<Rightarrow> jsvalue \<Rightarrow> gate_decision" where
  "gatePermission toASCII grantedInput attemptInput =
     (case and_then (canonicalizePermissionSet toASCII grantedInput) (\<lambda>granted.
           and_then (normalizeCall toASCII attemptInput) (\<lambda>attempt. Inr (granted, attempt))) of
        Inl e \<Rightarrow> GateInvalid
      | Inr (granted, attempt) \<Rightarrow>
          (case find_kind (call_kind attempt) granted of
             None \<Rightarrow> GateDenied
           | Some p \<Rightarrow> if permits p attempt then GateAllowed else GateDenied))"

section \<open>Canonical roots and paths\<close>

definition canonical_root :: "jstring \<Rightarrow> bool" where
  "canonical_root r \<longleftrightarrow> r = [47] \<or> (r \<noteq> [] \<and> hd r = 47 \<and> list_all root_segment (tl (split_on 47 r)))"

lemma split_on_not_Nil [simp]: "split_on sep s \<noteq> []"
  by (induction s) (auto split: list.split)

lemma split_on_append: "split_on sep (a @ sep # b) = split_on sep a @ split_on sep b"
  by (induction a) (auto split: list.split)

lemma split_on_last: "s \<noteq> [] \<Longrightarrow> last s = sep \<Longrightarrow> last (split_on sep s) = []"
  using split_on_append [of sep "butlast s" "[]"] by (metis append_butlast_last_id last_snoc split_on.simps(1))

lemma canonicalRoot_ok:
  assumes "canonicalRoot v = Inr r"
  shows "canonical_root r"
proof -
  from assms obtain source where "stringAt v = Inr source" by (auto simp: canonicalRoot_def)
  with assms have src: "source \<noteq> []" "hd source = 47"
    "list_all root_segment (tl (split_on 47 source)) \<or> source = [47]"
    and r: "r = (if length source > 1 \<and> last source = 47 then butlast source else source)"
    by (auto simp: canonicalRoot_def split: if_splits)
  show ?thesis
  proof (cases "source = [47]")
    case True
    then show ?thesis using r by (simp add: canonical_root_def)
  next
    case False
    with src have segs: "list_all root_segment (tl (split_on 47 source))" by blast
    have "last source \<noteq> 47"
    proof
      assume "last source = 47"
      then have "last (split_on 47 source) = []" using src(1) by (rule split_on_last [rotated])
      moreover obtain t where t: "source = 47 # t" using src by (cases source) auto
      then have "tl (split_on 47 source) \<noteq> []" "last (split_on 47 source) = last (tl (split_on 47 source))"
        by simp_all
      ultimately have "[] \<in> set (tl (split_on 47 source))" by (metis last_in_set)
      then show False using segs by (auto simp: list_all_iff root_segment_def)
    qed
    then show ?thesis using r src segs by (simp add: canonical_root_def)
  qed
qed

lemma contained_segments:
  assumes "containsLogicalPath r p"
  shows "r = [47] \<or> take (length (split_on 47 r)) (split_on 47 p) = split_on 47 r"
proof -
  consider "r = [47]" | "p = r" | "path_prefix (r @ [47]) p" using assms by (auto simp: containsLogicalPath_def)
  then show ?thesis
  proof cases
    case 3
    then obtain t where "p = r @ 47 # t"
      by (metis append.assoc append_Cons append_Nil append_take_drop_id path_prefix_def)
    then show ?thesis by (simp add: split_on_append)
  qed auto
qed

lemma containsLogicalPath_trans:
  assumes "a \<noteq> []" and "containsLogicalPath a b" and "containsLogicalPath b c"
  shows "containsLogicalPath a c"
proof -
  have prefix: "path_prefix p s \<longleftrightarrow> (\<exists>t. s = p @ t)" for p s
    by (auto simp: path_prefix_def) (metis append_take_drop_id)
  show ?thesis
    using assms by (auto simp: containsLogicalPath_def prefix Cons_eq_append_conv append_eq_Cons_conv)
qed

definition permission_ok :: "permission \<Rightarrow> bool" where
  "permission_ok p =
     (case p of FilesystemPermission rs \<Rightarrow> list_all (\<lambda>(r, access). canonical_root r) rs | _ \<Rightarrow> True)"

lemma unique_entries_parsed:
  "unique_entries parse seen items = Inr es \<Longrightarrow> e \<in> set es \<Longrightarrow> \<exists>item. parse item = Inr e"
  by (induction items arbitrary: seen es) (auto split: if_splits)

lemma canonical_entry_ok: "canonical_entry toASCII kind entry = Inr p \<Longrightarrow> permission_ok p"
proof -
  assume "canonical_entry toASCII kind entry = Inr p"
  moreover have "permission_ok q" if fs: "canonicalFilesystem entry = Inr q" for q
  proof -
    from fs obtain items es where es: "unique_entries filesystem_root [] items = Inr es"
      and q: "q = FilesystemPermission (sort_by compareNamed es)"
      by (auto simp: canonicalFilesystem_def)
    have "canonical_root r" if "(r, access) \<in> set es" for r access
      using unique_entries_parsed [OF es that] canonicalRoot_ok by (auto simp: filesystem_root_def)
    then show ?thesis by (auto simp: q permission_ok_def list_all_iff)
  qed
  ultimately show "permission_ok p"
    by (auto simp: canonical_entry_def canonicalCapability_def canonicalExecutor_def canonicalNetwork_def
        canonicalWorker_def permission_ok_def [of "CapabilityPermission _"]
        permission_ok_def [of "EnvironmentPermission _"] permission_ok_def [of "SecretPermission _"]
        permission_ok_def [of "ExecutorPermission _"] permission_ok_def [of "NetworkPermission _ _ _"]
        permission_ok_def [of "WorkerPermission _ _"] split: if_splits)
qed

lemma canonical_entries_ok: "canonical_entries toASCII seen items = Inr ps \<Longrightarrow> p \<in> set ps \<Longrightarrow> permission_ok p"
proof (induction items arbitrary: seen ps)
  case (Cons item items)
  then show ?case by (auto split: if_splits intro: canonical_entry_ok)
qed simp

lemma canonical_set_ok: "canonicalizePermissionSet toASCII input = Inr ps \<Longrightarrow> p \<in> set ps \<Longrightarrow> permission_ok p"
  by (auto simp: canonicalizePermissionSet_def dest: canonical_entries_ok)

section \<open>Grants and calls\<close>

lemma find_kind_SomeD: "find_kind k ps = Some p \<Longrightarrow> p \<in> set ps \<and> kind_of p = k"
  by (auto simp: find_kind_def find_Some_iff)

lemma containsAllD: "containsAll req grt \<Longrightarrow> x \<in> set grt \<Longrightarrow> x \<in> set req"
  by (auto simp: containsAll_def list_all_iff)

lemma categorySubset_kind: "categorySubset p q \<Longrightarrow> kind_of p = kind_of q"
  by (induction p q rule: categorySubset.induct) auto

text \<open>What a smaller permission permits, a larger one permits.\<close>

lemma categorySubset_permits:
  assumes "categorySubset p q" and "permits q c" and "permission_ok p"
  shows "permits p c"
  using assms
proof (induction p q rule: categorySubset.induct)
  case (1 req grt)
  then obtain name m ms where c: "c = CapabilityCall name m" "(name, ms) \<in> set grt" "m \<in> set ms"
    by (cases c) (auto simp: list_ex_iff)
  with 1(1) obtain maximum where "map_of req name = Some maximum" "containsAll maximum ms"
    by (fastforce simp: list_all_iff split: option.splits)
  then show ?case using c containsAllD map_of_SomeD by (fastforce simp: list_ex_iff)
next
  case (4 req grt)
  then obtain path access r acc where c: "c = FilesystemCall path access" "(r, acc) \<in> set grt"
    "containsLogicalPath r path" "access \<in> set acc"
    by (cases c) (auto simp: list_ex_iff)
  with 4(1) obtain rr racc where r: "(rr, racc) \<in> set req" "containsLogicalPath rr r" "containsAll racc acc"
    by (fastforce simp: list_all_iff list_ex_iff)
  have "rr \<noteq> []" using 4(3) r(1) by (auto simp: permission_ok_def list_all_iff canonical_root_def)
  then have "containsLogicalPath rr path" using r(2) c(3) by (rule containsLogicalPath_trans)
  then show ?case using c r containsAllD by (fastforce simp: list_ex_iff)
next
  case (7 rl rr gl gr)
  then show ?case by (cases c) (fastforce simp: list_all_iff dest: map_of_SomeD)+
qed (cases c; auto dest: containsAllD)+

lemma grant_allowed_subset:
  assumes "validatePermissionGrant toASCII req grt = GrantAllowed rs gs"
  shows "canonicalizePermissionSet toASCII req = Inr rs" and "canonicalizePermissionSet toASCII grt = Inr gs"
    and "p \<in> set gs \<Longrightarrow> \<exists>m. find_kind (kind_of p) rs = Some m \<and> categorySubset m p"
proof -
  from assms show "canonicalizePermissionSet toASCII req = Inr rs" "canonicalizePermissionSet toASCII grt = Inr gs"
    by (auto simp: validatePermissionGrant_def and_then_def split: sum.splits option.splits)
  with assms have "find (\<lambda>p. case find_kind (kind_of p) rs of
      None \<Rightarrow> True | Some maximum \<Rightarrow> \<not> categorySubset maximum p) gs = None"
    by (auto simp: validatePermissionGrant_def split: option.splits)
  then show "p \<in> set gs \<Longrightarrow> \<exists>m. find_kind (kind_of p) rs = Some m \<and> categorySubset m p"
    by (auto simp: find_None_iff split: option.splits)
qed

text \<open>The envelopes \<open>[{kind: "environment", names: [...]}]\<close> and a call, for the witnesses.\<close>

definition env_envelope :: "string list \<Rightarrow> jsvalue" where
  "env_envelope names =
     VArray [Data (VObject True
       [(js ''kind'', Data (VString (js ''environment''))),
        (js ''names'', Data (VArray (map (\<lambda>n. Data (VString (js n))) names) False))])] False"

definition env_call :: "string \<Rightarrow> jsvalue" where
  "env_call name =
     VObject True [(js ''kind'', Data (VString (js ''environment''))), (js ''name'', Data (VString (js name)))]"

lemmas envelope_eval = canonicalizePermissionSet_def env_envelope_def objectAt_def arrayAt_def stringAt_def
  compareMembers_def compareText_def canonical_entry_def canonicalNames_def exactKeys_def environmentName_def
  is_upper_def is_lower_def is_digit_def is_alnum_def sortedUnique_def

lemma env_envelope_AB:
  "canonicalizePermissionSet id (env_envelope [''B'', ''A'']) = Inr [EnvironmentPermission [js ''A'', js ''B'']]"
  by (simp add: envelope_eval)

lemma env_envelope_A:
  "canonicalizePermissionSet id (env_envelope [''A'']) = Inr [EnvironmentPermission [js ''A'']]"
  by (simp add: envelope_eval)

lemma env_call_A: "normalizeCall id (env_call ''A'') = Inr (EnvironmentCall (js ''A''))"
  by (simp add: normalizeCall_def env_call_def expectedFields_def holder_entry_def member_def first_or_def envelope_eval)

lemma env_grant:
  "validatePermissionGrant id (env_envelope [''B'', ''A'']) (env_envelope [''A'']) =
     GrantAllowed [EnvironmentPermission [js ''A'', js ''B'']] [EnvironmentPermission [js ''A'']]"
  by (simp add: validatePermissionGrant_def env_envelope_AB env_envelope_A find_kind_def containsAll_def del: js_simps)

text \<open>
  C30. A validated grant never widens the manifest's request: whenever \<open>validatePermissionGrant\<close> allows a
  grant, every call the gate admits under the grant it also admits under the request.
\<close>

theorem grant_within_request:
  assumes "validatePermissionGrant toASCII req grt = GrantAllowed rs gs"
    and "gatePermission toASCII grt attempt = GateAllowed"
  shows "gatePermission toASCII req attempt = GateAllowed"
proof -
  note canon = grant_allowed_subset(1,2) [OF assms(1)]
  from assms(2) canon(2) obtain c g where c: "normalizeCall toASCII attempt = Inr c"
    "find_kind (call_kind c) gs = Some g" "permits g c"
    by (auto simp: gatePermission_def and_then_def split: sum.splits option.splits if_splits)
  have g: "g \<in> set gs" "kind_of g = call_kind c" using find_kind_SomeD [OF c(2)] by simp_all
  from grant_allowed_subset(3) [OF assms(1) g(1)] obtain m where
    m: "find_kind (call_kind c) rs = Some m" "categorySubset m g"
    using g(2) by auto
  have "permission_ok m" using canonical_set_ok [OF canon(1)] find_kind_SomeD [OF m(1)] by simp
  with m(2) c(3) have "permits m c" by (rule categorySubset_permits)
  then show ?thesis using canon(1) c(1) m(1) by (simp add: gatePermission_def)
qed

theorem grant_within_request_witness:
  "gatePermission id (env_envelope [''B'', ''A'']) (env_call ''A'') = GateAllowed"
proof -
  have "gatePermission id (env_envelope [''A'']) (env_call ''A'') = GateAllowed"
    by (simp add: gatePermission_def env_envelope_A env_call_A find_kind_def del: js_simps)
  from grant_within_request [OF env_grant this] show ?thesis .
qed

lemma containsAll_trans: "containsAll a b \<Longrightarrow> containsAll b c \<Longrightarrow> containsAll a c"
  by (auto simp: containsAll_def list_all_iff)

lemma categorySubset_trans:
  assumes "categorySubset p q" and "categorySubset q r" and "permission_ok p"
  shows "categorySubset p r"
  using assms
proof (induction p q rule: categorySubset.induct)
  case (1 req grt)
  then obtain es where r: "r = CapabilityPermission es" by (cases r) auto
  have "case map_of req name of None \<Rightarrow> False | Some maximum \<Rightarrow> containsAll maximum ms0"
    if "(name, ms0) \<in> set es" for name ms0
  proof -
    from 1(2) r that obtain ms where ms: "map_of grt name = Some ms" "containsAll ms ms0"
      by (fastforce simp: list_all_iff split: option.splits)
    from 1(1) map_of_SomeD [OF ms(1)] obtain xs where "map_of req name = Some xs" "containsAll xs ms"
      by (fastforce simp: list_all_iff split: option.splits)
    then show ?thesis using ms containsAll_trans by auto
  qed
  then show ?case by (auto simp: r list_all_iff)
next
  case (4 req grt)
  then obtain es where r: "r = FilesystemPermission es" by (cases r) auto
  have "\<exists>(rpath, raccess) \<in> set req. containsLogicalPath rpath path \<and> containsAll raccess access"
    if "(path, access) \<in> set es" for path access
  proof -
    from 4(2) r that obtain q qa where q: "(q, qa) \<in> set grt" "containsLogicalPath q path" "containsAll qa access"
      by (fastforce simp: list_all_iff list_ex_iff)
    from 4(1) q(1) obtain p pa where p: "(p, pa) \<in> set req" "containsLogicalPath p q" "containsAll pa qa"
      by (fastforce simp: list_all_iff list_ex_iff)
    have "p \<noteq> []" using 4(3) p(1) by (auto simp: permission_ok_def list_all_iff canonical_root_def)
    from containsLogicalPath_trans [OF this p(2) q(2)] p q containsAll_trans show ?thesis by blast
  qed
  then show ?case by (auto simp: r list_all_iff list_ex_iff)
next
  case (7 rl rr gl gr)
  then show ?case by (cases r) (fastforce simp: list_all_iff dest: map_of_SomeD)+
qed (cases r; auto intro: containsAll_trans)+

lemma grantAllowedI:
  assumes "canonicalizePermissionSet toASCII req = Inr rs" and "canonicalizePermissionSet toASCII grt = Inr gs"
    and "\<And>p. p \<in> set gs \<Longrightarrow> \<exists>m. find_kind (kind_of p) rs = Some m \<and> categorySubset m p"
  shows "validatePermissionGrant toASCII req grt = GrantAllowed rs gs"
proof -
  have "find (\<lambda>p. case find_kind (kind_of p) rs of
      None \<Rightarrow> True | Some maximum \<Rightarrow> \<not> categorySubset maximum p) gs = None"
    using assms(3) by (fastforce simp: find_None_iff)
  with assms(1,2) show ?thesis by (simp add: validatePermissionGrant_def)
qed

text \<open>
  Grants nest: an envelope allowed against a second one, which is itself allowed against a third, is
  allowed against the third, so narrowing a grant step by step never leaves the original request.
\<close>

theorem grants_transitive:
  assumes "validatePermissionGrant toASCII a b = GrantAllowed as bs"
    and "validatePermissionGrant toASCII b c = GrantAllowed bs cs"
  shows "validatePermissionGrant toASCII a c = GrantAllowed as cs"
proof (rule grantAllowedI)
  show "canonicalizePermissionSet toASCII a = Inr as" "canonicalizePermissionSet toASCII c = Inr cs"
    using grant_allowed_subset [OF assms(1)] grant_allowed_subset [OF assms(2)] by simp_all
  fix p
  assume "p \<in> set cs"
  from grant_allowed_subset(3) [OF assms(2) this] obtain m where
    m: "find_kind (kind_of p) bs = Some m" "categorySubset m p" by blast
  note mb = find_kind_SomeD [OF m(1)]
  from grant_allowed_subset(3) [OF assms(1)] mb obtain n where
    n: "find_kind (kind_of p) as = Some n" "categorySubset n m" by metis
  have "permission_ok n"
    using canonical_set_ok [OF grant_allowed_subset(1) [OF assms(1)]] find_kind_SomeD [OF n(1)] by simp
  then show "\<exists>m. find_kind (kind_of p) as = Some m \<and> categorySubset m p"
    using categorySubset_trans [OF n(2) m(2)] n(1) by blast
qed

theorem grants_transitive_witness:
  "validatePermissionGrant id (env_envelope [''B'', ''A'']) (env_envelope [''A'']) =
     GrantAllowed [EnvironmentPermission [js ''A'', js ''B'']] [EnvironmentPermission [js ''A'']]"
proof -
  have "validatePermissionGrant id (env_envelope [''A'']) (env_envelope [''A'']) =
      GrantAllowed [EnvironmentPermission [js ''A'']] [EnvironmentPermission [js ''A'']]"
    by (simp add: validatePermissionGrant_def env_envelope_A find_kind_def containsAll_def del: js_simps)
  from grants_transitive [OF env_grant this] show ?thesis .
qed

lemma normalizeCall_InrE:
  assumes "normalizeCall toASCII input = Inr c"
  obtains entry holder holders where
    "canonicalizePermissionSet toASCII entry = Inr (holder # holders)" "call_of holder = Inr c"
proof -
  from assms obtain entry holders where "canonicalizePermissionSet toASCII entry = Inr holders"
    "(case holders of [] \<Rightarrow> Inl GenericError | holder # _ \<Rightarrow> call_of holder) = Inr c"
    by (auto simp: normalizeCall_def split: option.splits)
  then show thesis by (cases holders) (auto intro: that)
qed

text \<open>
  Path containment is by segments: the path of a filesystem call the gate admits is \<open>/\<close> or consists of
  proper segments (no empty one, no \<open>.\<close> or \<open>..\<close>), and the granted envelope has a root with that access mode
  which is \<open>/\<close> or whose segments are the first segments of the path, so \<open>/app\<close> never admits
  \<open>/application\<close>.
\<close>

theorem filesystem_call_contained:
  assumes "gatePermission toASCII grt attempt = GateAllowed"
    and "normalizeCall toASCII attempt = Inr (FilesystemCall path access)"
  shows "\<exists>gs rs r modes. canonicalizePermissionSet toASCII grt = Inr gs \<and> FilesystemPermission rs \<in> set gs \<and>
    (r, modes) \<in> set rs \<and> access \<in> set modes \<and>
    (r = [47] \<or> take (length (split_on 47 r)) (split_on 47 path) = split_on 47 r) \<and>
    (path = [47] \<or> list_all root_segment (tl (split_on 47 path)))"
proof -
  from assms obtain gs g where g: "canonicalizePermissionSet toASCII grt = Inr gs"
    "find_kind KFilesystem gs = Some g" "permits g (FilesystemCall path access)"
    by (auto simp: gatePermission_def and_then_def split: sum.splits option.splits if_splits)
  then obtain rs r modes where r: "g = FilesystemPermission rs" "(r, modes) \<in> set rs" "access \<in> set modes"
    "containsLogicalPath r path"
    by (cases g) (auto simp: list_ex_iff)
  obtain holder holders input where "canonicalizePermissionSet toASCII input = Inr (holder # holders)"
    "call_of holder = Inr (FilesystemCall path access)"
    using assms(2) by (rule normalizeCall_InrE)
  moreover from this obtain es acc where "holder = FilesystemPermission ((path, acc) # es)"
    by (cases holder) (auto split: list.splits)
  ultimately have "canonical_root path"
    using canonical_set_ok [of toASCII input "holder # holders" holder] by (auto simp: permission_ok_def)
  then show ?thesis
    using g r find_kind_SomeD [OF g(2)] contained_segments [OF r(4)] by (auto simp: canonical_root_def)
qed

definition fs_envelope :: "string \<Rightarrow> jsvalue" where
  "fs_envelope path =
     VArray [Data (VObject True
       [(js ''kind'', Data (VString (js ''filesystem''))),
        (js ''roots'', Data (VArray [Data (VObject True
          [(js ''path'', Data (VString (js path))),
           (js ''access'', Data (VArray [Data (VString (js ''read''))] False))])] False))])] False"

definition fs_call :: "string \<Rightarrow> jsvalue" where
  "fs_call path =
     VObject True
       [(js ''kind'', Data (VString (js ''filesystem''))), (js ''path'', Data (VString (js path))),
        (js ''access'', Data (VString (js ''read'')))]"

lemmas fs_eval = envelope_eval canonicalFilesystem_def filesystem_root_def canonicalRoot_def root_segment_def
  identity_char_def member_of_def ACCESS_MODES_def compareNamed_def

lemma fs_envelope_a:
  "canonicalizePermissionSet id (fs_envelope ''/a'') = Inr [FilesystemPermission [(js ''/a'', [js ''read''])]]"
  by (simp add: fs_eval fs_envelope_def)

lemma fs_call_ab: "normalizeCall id (fs_call ''/a/b'') = Inr (FilesystemCall (js ''/a/b'') (js ''read''))"
  by (simp add: normalizeCall_def fs_call_def expectedFields_def holder_entry_def member_def first_or_def fs_eval)

theorem filesystem_call_contained_witness:
  "take (length (split_on 47 (js ''/a''))) (split_on 47 (js ''/a/b'')) = split_on 47 (js ''/a'')"
proof -
  have "containsLogicalPath (js ''/a'') (js ''/a/b'')" by (simp add: containsLogicalPath_def path_prefix_def)
  then have "gatePermission id (fs_envelope ''/a'') (fs_call ''/a/b'') = GateAllowed"
    by (simp add: gatePermission_def fs_envelope_a fs_call_ab find_kind_def del: js_simps)
  from filesystem_call_contained [OF this fs_call_ab] show ?thesis
    unfolding fs_envelope_a by (simp del: js_simps) (simp add: js_def)
qed

end
