(* ===== verification/Graph.thy ===== *)
theory Graph
  imports Prelude
begin

text \<open>
  The graph algorithms of the capability resolver (\<open>packages/runtime/src/capabilities/graph.ts\<close>):
  strongly connected components with index and low-link maps, and the topological order that always
  takes the least ready node. A \<open>Set\<close> of targets is the list of its members in insertion order.
\<close>

record 'n digraph =
  nodes :: "'n list"
  outgoing :: "('n, 'n list) jsmap"

definition targets :: "'n digraph \<Rightarrow> 'n \<Rightarrow> 'n list" where
  "targets g n = (case map_of (outgoing g) n of None \<Rightarrow> [] | Some ts \<Rightarrow> ts)"

definition get_or_zero :: "('n, int) jsmap \<Rightarrow> 'n \<Rightarrow> int" where
  "get_or_zero m n = (case map_of m n of None \<Rightarrow> 0 | Some v \<Rightarrow> v)"

section \<open>Strongly connected components\<close>

text \<open>The stack is kept with its top first.\<close>

record 'n scc_state =
  nextIndex :: int
  indices :: "('n, int) jsmap"
  lowLinks :: "('n, int) jsmap"
  scc_stack :: "'n list"
  onStack :: "'n list"
  scc_components :: "'n list list"

definition scc_start :: "'n scc_state" where
  "scc_start = \<lparr>nextIndex = 0, indices = [], lowLinks = [], scc_stack = [], onStack = [], scc_components = []\<rparr>"

definition enter_node :: "'n \<Rightarrow> 'n scc_state \<Rightarrow> 'n scc_state" where
  "enter_node node s =
     s\<lparr>indices := AList.update node (nextIndex s) (indices s),
       lowLinks := AList.update node (nextIndex s) (lowLinks s),
       nextIndex := nextIndex s + 1,
       scc_stack := node # scc_stack s,
       onStack := List.insert node (onStack s)\<rparr>"

definition lower_link :: "'n \<Rightarrow> int \<Rightarrow> 'n scc_state \<Rightarrow> 'n scc_state" where
  "lower_link node v s =
     s\<lparr>lowLinks := AList.update node (min (get_or_zero (lowLinks s) node) v) (lowLinks s)\<rparr>"

fun pop_component :: "'n \<Rightarrow> 'n list \<Rightarrow> 'n list \<times> 'n list" where
  "pop_component node [] = ([], [])"
| "pop_component node (m # stack) =
     (if m = node then ([m], stack)
      else (case pop_component node stack of (component, rest) \<Rightarrow> (m # component, rest)))"

definition leave_node :: "('n \<Rightarrow> 'n \<Rightarrow> int) \<Rightarrow> 'n \<Rightarrow> 'n scc_state \<Rightarrow> 'n scc_state" where
  "leave_node cmp node s =
     (if map_of (lowLinks s) node \<noteq> map_of (indices s) node then s
      else (case pop_component node (scc_stack s) of (component, rest) \<Rightarrow>
        s\<lparr>scc_stack := rest,
          onStack := filter (\<lambda>m. m \<notin> set component) (onStack s),
          scc_components := scc_components s @ [sort_by cmp component]\<rparr>))"

text \<open>
  \<open>visit\<close> and the loop over its neighbours. The first argument bounds the depth of the recursion; None
  is running out of it, which \<open>stronglyConnectedComponents\<close> is shown never to do.
\<close>

fun visit :: "nat \<Rightarrow> ('n \<Rightarrow> 'n \<Rightarrow> int) \<Rightarrow> 'n digraph \<Rightarrow> 'n \<Rightarrow> 'n scc_state \<Rightarrow> 'n scc_state option"
and visit_neighbours ::
  "nat \<Rightarrow> ('n \<Rightarrow> 'n \<Rightarrow> int) \<Rightarrow> 'n digraph \<Rightarrow> 'n \<Rightarrow> 'n list \<Rightarrow> 'n scc_state \<Rightarrow> 'n scc_state option" where
  "visit 0 cmp g node s = None"
| "visit (Suc depth) cmp g node s =
     map_option (leave_node cmp node)
       (visit_neighbours depth cmp g node (sort_by cmp (targets g node)) (enter_node node s))"
| "visit_neighbours depth cmp g node [] s = Some s"
| "visit_neighbours depth cmp g node (m # ms) s =
     (if map_of (indices s) m = None then
        (case visit depth cmp g m s of
           None \<Rightarrow> None
         | Some s' \<Rightarrow>
             visit_neighbours depth cmp g node ms (lower_link node (get_or_zero (lowLinks s') m) s'))
      else if m \<in> set (onStack s) then
        visit_neighbours depth cmp g node ms (lower_link node (get_or_zero (indices s) m) s)
      else visit_neighbours depth cmp g node ms s)"

fun visit_roots ::
  "nat \<Rightarrow> ('n \<Rightarrow> 'n \<Rightarrow> int) \<Rightarrow> 'n digraph \<Rightarrow> 'n list \<Rightarrow> 'n scc_state \<Rightarrow> 'n scc_state option" where
  "visit_roots depth cmp g [] s = Some s"
| "visit_roots depth cmp g (n # ns) s =
     (if map_of (indices s) n = None then
        (case visit depth cmp g n s of None \<Rightarrow> None | Some s' \<Rightarrow> visit_roots depth cmp g ns s')
      else visit_roots depth cmp g ns s)"

definition mentioned :: "'n digraph \<Rightarrow> 'n list" where
  "mentioned g = nodes g @ concat (map snd (outgoing g))"

definition stronglyConnectedComponents ::
  "('n \<Rightarrow> 'n \<Rightarrow> int) \<Rightarrow> 'n digraph \<Rightarrow> 'n list list option" where
  "stronglyConnectedComponents cmp g =
     map_option (\<lambda>s. sort_by (\<lambda>l r. cmp (hd l) (hd r)) (scc_components s))
       (visit_roots (Suc (length (mentioned g))) cmp g (sort_by cmp (nodes g)) scc_start)"

section \<open>Topological order\<close>

definition count_target :: "'n \<Rightarrow> ('n, int) jsmap \<Rightarrow> ('n, int) jsmap" where
  "count_target t m = AList.update t (get_or_zero m t + 1) m"

definition initial_incoming :: "'n digraph \<Rightarrow> ('n, int) jsmap" where
  "initial_incoming g =
     fold (fold count_target) (map snd (outgoing g))
       (fold (\<lambda>n m. AList.update n 0 m) (nodes g) [])"

fun release_targets ::
  "('n \<Rightarrow> 'n \<Rightarrow> int) \<Rightarrow> 'n list \<Rightarrow> ('n, int) jsmap \<times> 'n list \<Rightarrow> ('n, int) jsmap \<times> 'n list" where
  "release_targets cmp [] (m, ready) = (m, ready)"
| "release_targets cmp (t # ts) (m, ready) =
     (let next = get_or_zero m t - 1
      in release_targets cmp ts
           (AList.update t next m, if next = 0 then sort_by cmp (ready @ [t]) else ready))"

definition positive_entries :: "('n, int) jsmap \<Rightarrow> nat" where
  "positive_entries m = length (filter (\<lambda>e. 0 < snd e) m)"

lemma positive_entries_update:
  "v \<le> get_or_zero m t \<Longrightarrow>
   positive_entries (AList.update t v m) + (if v = 0 \<and> 0 < get_or_zero m t then 1 else 0) \<le> positive_entries m"
  by (induction m) (auto simp: positive_entries_def get_or_zero_def split: if_splits option.splits)

lemma release_targets_measure:
  "release_targets cmp ts (m, ready) = (m', ready') \<Longrightarrow>
   length ready' + positive_entries m' \<le> length ready + positive_entries m"
proof (induction ts arbitrary: m ready)
  case (Cons t ts)
  let ?next = "get_or_zero m t - 1"
  from Cons.prems have "length ready' + positive_entries m' \<le>
      length (if ?next = 0 then sort_by cmp (ready @ [t]) else ready) + positive_entries (AList.update t ?next m)"
    by (intro Cons.IH) (simp add: Let_def)
  with positive_entries_update [of ?next m t] show ?case by (auto split: if_splits)
qed simp

function topological_loop ::
  "('n \<Rightarrow> 'n \<Rightarrow> int) \<Rightarrow> 'n digraph \<Rightarrow> ('n, int) jsmap \<Rightarrow> 'n list \<Rightarrow> 'n list \<Rightarrow> 'n list" where
  "topological_loop cmp g m [] order = order"
| "topological_loop cmp g m (node # ready) order =
     (let (m', ready') = release_targets cmp (sort_by cmp (targets g node)) (m, ready)
      in topological_loop cmp g m' ready' (order @ [node]))"
  by pat_completeness auto
termination
  by (relation "measure (\<lambda>(cmp, g, m, ready, order). length ready + positive_entries m)")
    (auto dest!: release_targets_measure [OF sym])

definition topologicalOrder :: "('n \<Rightarrow> 'n \<Rightarrow> int) \<Rightarrow> 'n digraph \<Rightarrow> 'n list option" where
  "topologicalOrder cmp g =
     (let m = initial_incoming g;
          ready = sort_by cmp (filter (\<lambda>n. map_of m n = Some 0) (nodes g));
          order = topological_loop cmp g m ready []
      in if length order = length (nodes g) then Some order else None)"

end
