(* ===== verification/Version.thy ===== *)
theory Version
  imports Identity "HOL-Library.Product_Lexorder"
begin

text \<open>
  Protocol versions and version ranges (\<open>packages/runtime/src/capabilities/version.ts\<close>): the parser
  of versions, the comparison, the comparators of a range and the prerelease opt-in, with the order
  of versions as a lexicographic key and the meaning of \<open>^\<close>, \<open>~\<close> and partial versions.
  The numbers of a version are naturals: the pattern reads digits only and \<open>Number.isSafeInteger\<close>
  bounds them where they are read and where they are incremented.
\<close>

section \<open>Data\<close>

record version =
  ver_major :: nat
  ver_minor :: nat
  ver_patch :: nat
  ver_prerelease :: "jstring list"

record range_version =
  rng_any :: bool
  rng_precision :: nat
  rng_version :: version
  rng_wildcard :: bool

definition safe_nat :: "nat \<Rightarrow> bool" where
  "safe_nat n \<longleftrightarrow> int n \<le> MAX_SAFE_INTEGER"

definition stableVersion :: "nat \<Rightarrow> nat \<Rightarrow> nat \<Rightarrow> version" where
  "stableVersion a b c = \<lparr>ver_major = a, ver_minor = b, ver_patch = c, ver_prerelease = []\<rparr>"

section \<open>Parsing\<close>

text \<open>43 is the plus sign, 45 the hyphen, 46 the dot, 42 the asterisk.\<close>

definition identifier_char :: "code_unit \<Rightarrow> bool" where
  "identifier_char c \<longleftrightarrow> is_alnum c \<or> c = 45"

definition dotted_identifiers :: "jstring \<Rightarrow> bool" where
  "dotted_identifiers s \<longleftrightarrow> list_all (\<lambda>p. p \<noteq> [] \<and> list_all identifier_char p) (split_on 46 s)"

text \<open>The groups of \<open>VERSION_PATTERN\<close>: the three numbers and the prerelease, if there is one.\<close>

definition VERSION_PATTERN :: "jstring \<Rightarrow> (jstring \<times> jstring \<times> jstring \<times> jstring option) option" where
  "VERSION_PATTERN s =
     (let a = takeWhile is_digit s; s1 = dropWhile is_digit s;
          b = takeWhile is_digit (tl s1); s2 = dropWhile is_digit (tl s1);
          c = takeWhile is_digit (tl s2); s3 = dropWhile is_digit (tl s2);
          pre = takeWhile (\<lambda>x. x \<noteq> 43) s3; build = dropWhile (\<lambda>x. x \<noteq> 43) s3
      in if is_decimal a \<and> take 1 s1 = [46] \<and> is_decimal b \<and> take 1 s2 = [46] \<and> is_decimal c \<and>
            (pre = [] \<or> hd pre = 45 \<and> dotted_identifiers (tl pre)) \<and>
            (build = [] \<or> dotted_identifiers (tl build))
         then Some (a, b, c, if pre = [] then None else Some (tl pre))
         else None)"

definition all_digits :: "jstring \<Rightarrow> bool" where
  "all_digits s \<longleftrightarrow> s \<noteq> [] \<and> list_all is_digit s"

definition bad_identifier :: "jstring \<Rightarrow> bool" where
  "bad_identifier p \<longleftrightarrow> p = [] \<or> (all_digits p \<and> \<not> is_decimal p)"

definition parseVersion :: "jstring \<Rightarrow> version option" where
  "parseVersion s =
     (case VERSION_PATTERN s of
        None \<Rightarrow> None
      | Some (a, b, c, pre) \<Rightarrow>
          if \<not> list_all safe_nat [decimal_value a, decimal_value b, decimal_value c] then None
          else
            (let prerelease = (case pre of None \<Rightarrow> [] | Some t \<Rightarrow> split_on 46 t)
             in if list_ex bad_identifier prerelease then None
                else Some \<lparr>ver_major = decimal_value a, ver_minor = decimal_value b,
                           ver_patch = decimal_value c, ver_prerelease = prerelease\<rparr>))"

text \<open>88 and 120 are the letters whose lower case is \<open>x\<close>.\<close>

definition wildcard_part :: "jstring \<Rightarrow> bool" where
  "wildcard_part p \<longleftrightarrow> p = [42] \<or> p = [88] \<or> p = [120]"

fun range_parts :: "nat \<Rightarrow> nat option \<Rightarrow> nat list \<Rightarrow> jstring list \<Rightarrow> (nat option \<times> nat list) option" where
  "range_parts index wildcardIndex numbers [] = Some (wildcardIndex, numbers)"
| "range_parts index wildcardIndex numbers (part # rest) =
     (if wildcard_part part then
        if index = 0 \<or> list_ex (\<lambda>p. \<not> wildcard_part p) rest then None
        else range_parts (Suc index)
               (case wildcardIndex of None \<Rightarrow> Some index | Some i \<Rightarrow> Some i) (numbers @ [0]) rest
      else if wildcardIndex \<noteq> None \<or> \<not> is_decimal part \<or> \<not> safe_nat (decimal_value part) then None
      else range_parts (Suc index) wildcardIndex (numbers @ [decimal_value part]) rest)"

definition number_at :: "nat list \<Rightarrow> nat \<Rightarrow> nat" where
  "number_at numbers i = (if i < length numbers then numbers ! i else 0)"

definition parseRangeVersion :: "jstring \<Rightarrow> range_version option" where
  "parseRangeVersion s =
     (if wildcard_part s then
        Some \<lparr>rng_any = True, rng_precision = 0, rng_version = stableVersion 0 0 0, rng_wildcard = True\<rparr>
      else case parseVersion s of
        Some exact \<Rightarrow>
          Some \<lparr>rng_any = False, rng_precision = 3, rng_version = exact, rng_wildcard = False\<rparr>
      | None \<Rightarrow>
          (let parts = split_on 46 s
           in if length parts < 1 \<or> 3 < length parts then None
              else case range_parts 0 None [] parts of
                None \<Rightarrow> None
              | Some (wildcardIndex, numbers) \<Rightarrow>
                  Some \<lparr>rng_any = False,
                        rng_precision = (case wildcardIndex of None \<Rightarrow> length parts | Some i \<Rightarrow> i),
                        rng_version =
                          stableVersion (number_at numbers 0) (number_at numbers 1) (number_at numbers 2),
                        rng_wildcard = wildcardIndex \<noteq> None\<rparr>))"

section \<open>Comparison\<close>

definition strip_zeros :: "jstring \<Rightarrow> jstring" where
  "strip_zeros s = (let t = dropWhile (\<lambda>c. c = 48) s in if t = [] then [48] else t)"

definition compareNumericIdentifier :: "jstring \<Rightarrow> jstring \<Rightarrow> int" where
  "compareNumericIdentifier left right =
     (let l = strip_zeros left; r = strip_zeros right
      in or_else (int (length l) - int (length r)) (if l < r then -1 else if l > r then 1 else 0))"

fun comparePrerelease :: "jstring list \<Rightarrow> jstring list \<Rightarrow> int" where
  "comparePrerelease [] [] = 0"
| "comparePrerelease [] (r # rs) = -1"
| "comparePrerelease (l # ls) [] = 1"
| "comparePrerelease (l # ls) (r # rs) =
     (if l = r then comparePrerelease ls rs
      else if all_digits l \<and> all_digits r then compareNumericIdentifier l r
      else if all_digits l then -1
      else if all_digits r then 1
      else if l < r then -1 else 1)"

definition compareVersion :: "version \<Rightarrow> version \<Rightarrow> int" where
  "compareVersion left right =
     (let core = or_else (int (ver_major left) - int (ver_major right))
                   (or_else (int (ver_minor left) - int (ver_minor right))
                      (int (ver_patch left) - int (ver_patch right)))
      in if core \<noteq> 0 then core
         else if ver_prerelease left = [] then (if ver_prerelease right = [] then 0 else 1)
         else if ver_prerelease right = [] then -1
         else comparePrerelease (ver_prerelease left) (ver_prerelease right))"

section \<open>Comparators\<close>

definition increment :: "nat \<Rightarrow> nat option" where
  "increment n = (if safe_nat (n + 1) then Some (n + 1) else None)"

definition partialUpperBound :: "range_version \<Rightarrow> version option" where
  "partialUpperBound t =
     (if rng_any t then None
      else if rng_precision t \<le> 1 then
        map_option (\<lambda>n. stableVersion n 0 0) (increment (ver_major (rng_version t)))
      else
        map_option (\<lambda>n. stableVersion (ver_major (rng_version t)) n 0)
          (increment (ver_minor (rng_version t))))"

definition caretUpperBound :: "range_version \<Rightarrow> version option" where
  "caretUpperBound t =
     (if rng_any t then None
      else if rng_precision t = 1 \<or> 0 < ver_major (rng_version t) then
        map_option (\<lambda>n. stableVersion n 0 0) (increment (ver_major (rng_version t)))
      else if rng_precision t = 2 \<or> 0 < ver_minor (rng_version t) then
        map_option (\<lambda>n. stableVersion 0 n 0) (increment (ver_minor (rng_version t)))
      else
        map_option (\<lambda>n. stableVersion 0 0 n) (increment (ver_patch (rng_version t))))"

text \<open>
  The pattern \<open>^(>=|<=|>|<|=)?(.+)$\<close>: the first operator in the order of the alternatives (the empty
  one last) that leaves at least one character, none of them a line terminator.
\<close>

definition line_terminator :: "code_unit \<Rightarrow> bool" where
  "line_terminator c \<longleftrightarrow> c = 10 \<or> c = 13 \<or> c = 8232 \<or> c = 8233"

definition match_operator :: "jstring \<Rightarrow> (jstring \<times> jstring) option" where
  "match_operator s =
     (case filter (\<lambda>op. take (length op) s = op \<and> drop (length op) s \<noteq> [] \<and>
                      \<not> list_ex line_terminator (drop (length op) s))
             [js ''>='', js ''<='', js ''>'', js ''<'', js ''='', []] of
        [] \<Rightarrow> None
      | op # _ \<Rightarrow> Some (op, drop (length op) s))"

definition comparatorParts :: "jstring \<Rightarrow> (jstring \<times> range_version) option" where
  "comparatorParts s =
     (if take 1 s = js ''^'' \<or> take 1 s = js ''~'' then
        (case parseRangeVersion (tl s) of
           None \<Rightarrow> None
         | Some t \<Rightarrow> if rng_any t \<or> rng_wildcard t then None else Some (take 1 s, t))
      else case match_operator s of
        None \<Rightarrow> None
      | Some (op, text) \<Rightarrow>
          (case parseRangeVersion text of
             None \<Rightarrow> None
           | Some t \<Rightarrow> if op \<noteq> [] \<and> rng_wildcard t then None else Some (op, t)))"

definition isSupportedComparator :: "jstring \<Rightarrow> bool" where
  "isSupportedComparator s =
     (case comparatorParts s of
        None \<Rightarrow> False
      | Some (op, t) \<Rightarrow>
          if rng_any t then op = []
          else if op = js ''^'' then caretUpperBound t \<noteq> None
          else if op = js ''~'' then partialUpperBound t \<noteq> None
          else if (op = [] \<or> op = js ''='') \<and> (rng_wildcard t \<or> rng_precision t < 3)
            then partialUpperBound t \<noteq> None
          else if (op = js ''>'' \<or> op = js ''<='') \<and> rng_precision t < 3
            then partialUpperBound t \<noteq> None
          else True)"

definition below_bound :: "version \<Rightarrow> version option \<Rightarrow> bool" where
  "below_bound v maximum = (case maximum of None \<Rightarrow> False | Some m \<Rightarrow> compareVersion v m < 0)"

definition satisfiesComparator :: "version \<Rightarrow> jstring \<Rightarrow> bool" where
  "satisfiesComparator v s =
     (case comparatorParts s of
        None \<Rightarrow> False
      | Some (op, t) \<Rightarrow>
          if rng_any t then True
          else if op = js ''^'' then
            compareVersion v (rng_version t) \<ge> 0 \<and> below_bound v (caretUpperBound t)
          else if op = js ''~'' then
            compareVersion v (rng_version t) \<ge> 0 \<and> below_bound v (partialUpperBound t)
          else
            (let order = compareVersion v (rng_version t)
             in if op = js ''>'' then
                  if rng_precision t = 3 then order > 0
                  else (case partialUpperBound t of None \<Rightarrow> False | Some m \<Rightarrow> compareVersion v m \<ge> 0)
                else if op = js ''>='' then order \<ge> 0
                else if op = js ''<'' then order < 0
                else if op = js ''<='' then
                  if rng_precision t = 3 then order \<le> 0 else below_bound v (partialUpperBound t)
                else if rng_precision t = 3 \<and> \<not> rng_wildcard t then order = 0
                else order \<ge> 0 \<and> below_bound v (partialUpperBound t)))"

section \<open>Ranges\<close>

text \<open>The white space of \<open>trim\<close> and of \<open>\s\<close>.\<close>

definition is_space :: "code_unit \<Rightarrow> bool" where
  "is_space c \<longleftrightarrow> (9 \<le> c \<and> c \<le> 13) \<or> c = 32 \<or> c = 160 \<or> c = 5760 \<or> (8192 \<le> c \<and> c \<le> 8202) \<or>
     c = 8232 \<or> c = 8233 \<or> c = 8239 \<or> c = 8287 \<or> c = 12288 \<or> c = 65279"

definition trim :: "jstring \<Rightarrow> jstring" where
  "trim s = rev (dropWhile is_space (rev (dropWhile is_space s)))"

definition prepend :: "code_unit \<Rightarrow> jstring list \<Rightarrow> jstring list" where
  "prepend c pieces = (case pieces of [] \<Rightarrow> [[c]] | p # ps \<Rightarrow> (c # p) # ps)"

function split_spaces :: "jstring \<Rightarrow> jstring list" where
  "split_spaces [] = [[]]"
| "split_spaces (c # s) =
     (if is_space c then [] # split_spaces (dropWhile is_space s) else prepend c (split_spaces s))"
  by pat_completeness auto
termination
  by (relation "measure length") (auto simp: le_imp_less_Suc length_dropWhile_le)

text \<open>\<open>range.split("||")\<close>; 124 is the bar.\<close>

fun split_bars :: "jstring \<Rightarrow> jstring list" where
  "split_bars [] = [[]]"
| "split_bars [c] = [[c]]"
| "split_bars (c # d # s) =
     (if c = 124 \<and> d = 124 then [] # split_bars s else prepend c (split_bars (d # s)))"

definition comparatorSets :: "jstring \<Rightarrow> jstring list list option" where
  "comparatorSets ranges =
     (let alternatives = map trim (split_bars ranges)
      in if alternatives = [] \<or> list_ex (\<lambda>a. a = []) alternatives then None
         else
           (let sets = map split_spaces alternatives
            in if list_ex (list_ex (\<lambda>c. \<not> isSupportedComparator c)) sets then None else Some sets))"

definition optsIntoPrerelease :: "jstring list \<Rightarrow> version \<Rightarrow> bool" where
  "optsIntoPrerelease comparators v =
     (ver_prerelease v = [] \<or>
      list_ex (\<lambda>c. case comparatorParts c of
                 None \<Rightarrow> False
               | Some (op, t) \<Rightarrow>
                   ver_prerelease (rng_version t) \<noteq> [] \<and>
                   ver_major (rng_version t) = ver_major v \<and>
                   ver_minor (rng_version t) = ver_minor v \<and>
                   ver_patch (rng_version t) = ver_patch v) comparators)"

definition isValidVersion :: "jstring \<Rightarrow> bool" where
  "isValidVersion s = (parseVersion s \<noteq> None)"

definition isValidVersionRange :: "jstring \<Rightarrow> bool" where
  "isValidVersionRange ranges = (comparatorSets ranges \<noteq> None)"

definition satisfiesVersionRange :: "jstring \<Rightarrow> jstring \<Rightarrow> bool" where
  "satisfiesVersionRange s ranges =
     (case (parseVersion s, comparatorSets ranges) of
        (Some v, Some sets) \<Rightarrow>
          list_ex (\<lambda>comparators. optsIntoPrerelease comparators v \<and>
                     list_all (satisfiesComparator v) comparators) sets
      | _ \<Rightarrow> False)"

end
