(* ===== verification/Resolver.thy ===== *)
theory Resolver
  imports Graph Version Json
begin

text \<open>
  The capability resolver (\<open>packages/runtime/src/capabilities/resolver.ts\<close>): the copy of its input, the
  checks of deployments and previous bindings, the choice of a provider for every requirement, the loss
  decisions for providers that went away, and the order in which deployments can start. The messages of
  diagnostics are left out; \<open>cloneResolutionBoundary\<close> yields the path at which it rejects a value, and
  \<open>resolveCapabilities\<close> works on the typed copy.
\<close>

section \<open>Data\<close>

record deployment_identity =
  di_applicationId :: jstring
  di_pluginId :: jstring

datatype loss_action = Degrade | Suspend | Fail

record provision =
  pv_name :: jstring
  pv_protocolVersion :: jstring

record capability_requirement =
  cr_name :: jstring
  cr_protocolRange :: jstring
  cr_optional :: "bool option"
  cr_lossPolicy :: "loss_action option"

record resolution_deployment =
  rd_identity :: deployment_identity
  rd_activated :: bool
  rd_ready :: bool
  rd_provides :: "provision list"
  rd_requires :: "capability_requirement list"
  rd_bindings :: "(jstring, deployment_identity) jsmap"

record previous_binding =
  pb_consumer :: deployment_identity
  pb_capability :: jstring
  pb_provider :: deployment_identity

record resolution_input =
  ri_deployments :: "resolution_deployment list"
  ri_previousBindings :: "previous_binding list option"

record resolution_diagnostic =
  dg_code :: jstring
  dg_consumer :: "deployment_identity option"
  dg_capability :: "jstring option"
  dg_candidates :: "deployment_identity list"

record normalized_requirement =
  nr_name :: jstring
  nr_protocolRange :: jstring
  nr_optional :: bool
  nr_lossPolicy :: loss_action

record resolved_binding =
  rb_consumer :: deployment_identity
  rb_requirement :: normalized_requirement
  rb_provider :: "(deployment_identity \<times> provision) option"

record loss_decision =
  ld_action :: loss_action
  ld_capability :: jstring
  ld_consumer :: deployment_identity
  ld_provider :: deployment_identity

record resolution_result =
  rr_diagnostics :: "resolution_diagnostic list"
  rr_providerLossActions :: "loss_decision list"
  rr_resolved :: "(resolved_binding list \<times> deployment_identity list) option"

section \<open>Provider loss\<close>

fun providerLossRank :: "loss_action \<Rightarrow> nat" where
  "providerLossRank Degrade = 1"
| "providerLossRank Suspend = 2"
| "providerLossRank Fail = 3"

fun action_text :: "loss_action \<Rightarrow> jstring" where
  "action_text Degrade = js ''degrade''"
| "action_text Suspend = js ''suspend''"
| "action_text Fail = js ''fail''"

definition strongestProviderLoss :: "loss_decision list \<Rightarrow> loss_action option" where
  "strongestProviderLoss actions =
     foldl (\<lambda>strongest decision.
       case strongest of
         None \<Rightarrow> Some (ld_action decision)
       | Some a \<Rightarrow> if providerLossRank (ld_action decision) > providerLossRank a
                    then Some (ld_action decision) else strongest) None actions"

section \<open>The copy of the input\<close>

text \<open>The rejected path is the left value; 47 is the slash. Members are copied in the order of their names.\<close>

fun first_failure :: "(jstring \<times> (jstring + json)) list \<Rightarrow> jstring + (jstring \<times> json) list" where
  "first_failure [] = Inr []"
| "first_failure ((k, r) # rs) =
     (case r of
        Inl p \<Rightarrow> Inl p
      | Inr v \<Rightarrow> (case first_failure rs of Inl p \<Rightarrow> Inl p | Inr ms \<Rightarrow> Inr ((k, v) # ms)))"

fun cloneResolutionBoundary :: "jstring \<Rightarrow> jsvalue \<Rightarrow> jstring + json"
  and clone_element :: "jstring \<Rightarrow> slot \<Rightarrow> jstring + json"
  and clone_elements :: "jstring \<Rightarrow> nat \<Rightarrow> slot list \<Rightarrow> jstring + json list"
  and clone_fields :: "jstring \<Rightarrow> (jstring \<times> slot) list \<Rightarrow> (jstring \<times> (jstring + json)) list" where
  "cloneResolutionBoundary path VNull = Inr JNull"
| "cloneResolutionBoundary path (VString s) = Inr (JStr s)"
| "cloneResolutionBoundary path (VBool b) = Inr (JBool b)"
| "cloneResolutionBoundary path (VInt n) = Inr (JInt n)"
| "cloneResolutionBoundary path (VReal s) = Inr (JReal s)"
| "cloneResolutionBoundary path VNonFinite = Inl path"
| "cloneResolutionBoundary path (VBigInt n) = Inl path"
| "cloneResolutionBoundary path (VDate t) = Inl path"
| "cloneResolutionBoundary path (VBytes bs) = Inl path"
| "cloneResolutionBoundary path VOther = Inl path"
| "cloneResolutionBoundary path VAncestor = Inl path"
| "cloneResolutionBoundary path (VArray xs extended) =
     (case clone_elements path 0 xs of
        Inl p \<Rightarrow> Inl p
      | Inr ys \<Rightarrow> if extended then Inl path else Inr (JArr ys))"
| "cloneResolutionBoundary path (VObject plain ms) =
     (if \<not> plain then Inl path
      else case first_failure (sort_by compareMembers (clone_fields path ms)) of
        Inl p \<Rightarrow> Inl p
      | Inr members \<Rightarrow> Inr (JObj members))"
| "clone_element path (Data v) = cloneResolutionBoundary path v"
| "clone_element path Hole = Inl path"
| "clone_element path Accessor = Inl path"
| "clone_elements path index [] = Inr []"
| "clone_elements path index (x # xs) =
     (case clone_element (path @ [47] @ decimal_string index) x of
        Inl p \<Rightarrow> Inl p
      | Inr y \<Rightarrow> (case clone_elements path (Suc index) xs of Inl p \<Rightarrow> Inl p | Inr ys \<Rightarrow> Inr (y # ys)))"
| "clone_fields path [] = []"
| "clone_fields path ((k, x) # ms) = (k, clone_element (path @ [47] @ k) x) # clone_fields path ms"

fun includes_text :: "jstring \<Rightarrow> jstring \<Rightarrow> bool" where
  "includes_text t [] = (t = [])"
| "includes_text t (c # s) = (take (length t) (c # s) = t \<or> includes_text t s)"

definition diagnostic_for ::
  "string \<Rightarrow> deployment_identity option \<Rightarrow> jstring option \<Rightarrow> deployment_identity list \<Rightarrow> resolution_diagnostic" where
  "diagnostic_for code consumer capability candidates =
     \<lparr>dg_code = js code, dg_consumer = consumer, dg_capability = capability, dg_candidates = candidates\<rparr>"

text \<open>36 is the dollar sign that starts a path.\<close>

definition resolution_boundary :: "jsvalue \<Rightarrow> resolution_diagnostic + json" where
  "resolution_boundary input =
     (case cloneResolutionBoundary [36] input of
        Inl path \<Rightarrow>
          Inl (diagnostic_for (if includes_text (js ''/bindings'') path
                 then ''CAPABILITY_BINDING_MAP_INVALID'' else ''CAPABILITY_INPUT_INVALID'') None None [])
      | Inr copy \<Rightarrow> Inr copy)"

section \<open>Identities and diagnostics\<close>

definition ownBinding :: "(jstring, deployment_identity) jsmap \<Rightarrow> jstring \<Rightarrow> deployment_identity option" where
  "ownBinding bindings name = map_of bindings name"

definition identityKey :: "deployment_identity \<Rightarrow> jstring" where
  "identityKey i = di_applicationId i @ [47] @ di_pluginId i"

definition compareIdentity :: "deployment_identity \<Rightarrow> deployment_identity \<Rightarrow> int" where
  "compareIdentity left right =
     or_else (compareText (di_applicationId left) (di_applicationId right))
       (compareText (di_pluginId left) (di_pluginId right))"

definition diagnostic ::
  "string \<Rightarrow> deployment_identity option \<Rightarrow> jstring option \<Rightarrow> deployment_identity list \<Rightarrow> resolution_diagnostic" where
  "diagnostic code consumer capability candidates =
     diagnostic_for code consumer capability (sort_by compareIdentity candidates)"

definition compareDiagnostic :: "resolution_diagnostic \<Rightarrow> resolution_diagnostic \<Rightarrow> int" where
  "compareDiagnostic left right =
     (let consumer_text = (\<lambda>d. case dg_consumer d of None \<Rightarrow> [] | Some i \<Rightarrow> identityKey i);
          capability_text = (\<lambda>d. case dg_capability d of None \<Rightarrow> [] | Some c \<Rightarrow> c)
      in or_else (compareText (dg_code left) (dg_code right))
           (or_else (compareText (consumer_text left) (consumer_text right))
              (compareText (capability_text left) (capability_text right))))"

definition normalizeRequirement :: "capability_requirement \<Rightarrow> normalized_requirement" where
  "normalizeRequirement r =
     \<lparr>nr_name = cr_name r, nr_protocolRange = cr_protocolRange r,
      nr_optional = (case cr_optional r of None \<Rightarrow> False | Some b \<Rightarrow> b),
      nr_lossPolicy = (case cr_lossPolicy r of None \<Rightarrow> Fail | Some a \<Rightarrow> a)\<rparr>"

section \<open>Checks of the input\<close>

text \<open>64 is the at sign.\<close>

fun provider_diagnostics :: "deployment_identity \<Rightarrow> jstring list \<Rightarrow> provision list \<Rightarrow> resolution_diagnostic list" where
  "provider_diagnostics owner seen [] = []"
| "provider_diagnostics owner seen (p # ps) =
     (let key = pv_name p @ [64] @ pv_protocolVersion p
      in (if key \<in> set seen
          then [diagnostic ''CAPABILITY_DUPLICATE_PROVIDER'' (Some owner) (Some (pv_name p)) []] else []) @
         (if \<not> isValidVersion (pv_protocolVersion p)
          then [diagnostic ''CAPABILITY_PROTOCOL_VERSION_INVALID'' (Some owner) (Some (pv_name p)) []] else []) @
         provider_diagnostics owner (key # seen) ps)"

fun requirement_diagnostics ::
  "deployment_identity \<Rightarrow> jstring list \<Rightarrow> capability_requirement list \<Rightarrow> resolution_diagnostic list" where
  "requirement_diagnostics owner seen [] = []"
| "requirement_diagnostics owner seen (r # rs) =
     (if cr_name r \<in> set seen
      then [diagnostic ''CAPABILITY_DUPLICATE_REQUIREMENT'' (Some owner) (Some (cr_name r)) []] else []) @
     (if \<not> isValidVersionRange (cr_protocolRange r)
      then [diagnostic ''CAPABILITY_PROTOCOL_RANGE_INVALID'' (Some owner) (Some (cr_name r)) []] else []) @
     requirement_diagnostics owner (cr_name r # seen) rs"

definition binding_diagnostics :: "resolution_deployment \<Rightarrow> resolution_diagnostic list" where
  "binding_diagnostics d =
     map (\<lambda>name. diagnostic ''CAPABILITY_BINDING_UNKNOWN'' (Some (rd_identity d)) (Some name) [])
       (filter (\<lambda>name. name \<notin> cr_name ` set (rd_requires d)) (map fst (rd_bindings d)))"

fun deployment_diagnostics :: "jstring list \<Rightarrow> resolution_deployment list \<Rightarrow> resolution_diagnostic list" where
  "deployment_diagnostics seen [] = []"
| "deployment_diagnostics seen (d # ds) =
     (let key = identityKey (rd_identity d)
      in (if key \<in> set seen
          then [diagnostic ''CAPABILITY_DUPLICATE_DEPLOYMENT'' (Some (rd_identity d)) None []] else []) @
         provider_diagnostics (rd_identity d) [] (rd_provides d) @
         requirement_diagnostics (rd_identity d) [] (rd_requires d) @
         binding_diagnostics d @
         deployment_diagnostics (key # seen) ds)"

definition requirement_key :: "deployment_identity \<Rightarrow> jstring \<Rightarrow> jstring" where
  "requirement_key consumer capability = identityKey consumer @ [47] @ capability"

fun previous_diagnostics :: "jstring list \<Rightarrow> previous_binding list \<Rightarrow> resolution_diagnostic list" where
  "previous_diagnostics seen [] = []"
| "previous_diagnostics seen (b # bs) =
     (let key = requirement_key (pb_consumer b) (pb_capability b)
      in (if key \<in> set seen
          then [diagnostic ''CAPABILITY_DUPLICATE_PREVIOUS_BINDING''
                  (Some (pb_consumer b)) (Some (pb_capability b)) [pb_provider b]] else []) @
         previous_diagnostics (key # seen) bs)"

definition compareDeployment :: "resolution_deployment \<Rightarrow> resolution_deployment \<Rightarrow> int" where
  "compareDeployment left right = compareIdentity (rd_identity left) (rd_identity right)"

definition inputDiagnostics ::
  "resolution_deployment list \<Rightarrow> previous_binding list \<Rightarrow> resolution_diagnostic list" where
  "inputDiagnostics deployments previous =
     sort_by compareDiagnostic
       (deployment_diagnostics [] (sort_by compareDeployment deployments) @ previous_diagnostics [] previous)"

section \<open>Providers\<close>

definition compatibleProvisions :: "resolution_deployment \<Rightarrow> normalized_requirement \<Rightarrow> provision list" where
  "compatibleProvisions d requirement =
     sort_by (\<lambda>l r. compareText (pv_protocolVersion l) (pv_protocolVersion r))
       (filter (\<lambda>p. pv_name p = nr_name requirement \<and>
                  satisfiesVersionRange (pv_protocolVersion p) (nr_protocolRange requirement)) (rd_provides d))"

type_synonym deployment_map = "(jstring, resolution_deployment) jsmap"

definition loss_decision_for :: "deployment_map \<Rightarrow> previous_binding \<Rightarrow> loss_decision option" where
  "loss_decision_for byIdentity previous =
     (case map_of byIdentity (identityKey (pb_consumer previous)) of
        None \<Rightarrow> None
      | Some consumer \<Rightarrow>
          (case find (\<lambda>r. cr_name r = pb_capability previous) (rd_requires consumer) of
             None \<Rightarrow> None
           | Some source \<Rightarrow>
               if \<not> rd_activated consumer then None
               else if (case ownBinding (rd_bindings consumer) (pb_capability previous) of
                          None \<Rightarrow> False
                        | Some explicit \<Rightarrow> identityKey explicit \<noteq> identityKey (pb_provider previous)) then None
               else
                 (let requirement = normalizeRequirement source;
                      available = (case map_of byIdentity (identityKey (pb_provider previous)) of
                                     None \<Rightarrow> False
                                   | Some p \<Rightarrow> rd_ready p \<and> compatibleProvisions p requirement \<noteq> [])
                  in if available then None
                     else Some \<lparr>ld_action = nr_lossPolicy requirement, ld_capability = nr_name requirement,
                                ld_consumer = rd_identity consumer, ld_provider = pb_provider previous\<rparr>)))"

definition compareLoss :: "loss_decision \<Rightarrow> loss_decision \<Rightarrow> int" where
  "compareLoss left right =
     or_else (compareIdentity (ld_consumer left) (ld_consumer right))
       (or_else (compareText (ld_capability left) (ld_capability right))
          (or_else (compareIdentity (ld_provider left) (ld_provider right))
             (compareText (action_text (ld_action left)) (action_text (ld_action right)))))"

definition providerLossDecisions :: "previous_binding list \<Rightarrow> deployment_map \<Rightarrow> loss_decision list" where
  "providerLossDecisions previous byIdentity =
     sort_by compareLoss (List.map_filter (loss_decision_for byIdentity) previous)"

section \<open>Resolution\<close>

text \<open>What the loop over consumers and their requirements builds up.\<close>

record resolution_state =
  st_diagnostics :: "resolution_diagnostic list"
  st_bindings :: "resolved_binding list"
  st_required :: "(jstring, jstring list) jsmap"
  st_optional :: "(jstring \<times> jstring) list"

record resolution_env =
  en_deployments :: "resolution_deployment list"
  en_byIdentity :: deployment_map
  en_previous :: "(jstring, previous_binding) jsmap"

definition deployment_key :: "resolution_deployment \<Rightarrow> jstring" where
  "deployment_key d = identityKey (rd_identity d)"

definition push_diagnostic ::
  "string \<Rightarrow> resolution_deployment \<Rightarrow> normalized_requirement \<Rightarrow> deployment_identity list \<Rightarrow>
   resolution_state \<Rightarrow> resolution_state" where
  "push_diagnostic code consumer requirement candidates st =
     st\<lparr>st_diagnostics := st_diagnostics st @
       [diagnostic code (Some (rd_identity consumer)) (Some (nr_name requirement)) candidates]\<rparr>"

definition push_binding ::
  "resolution_deployment \<Rightarrow> normalized_requirement \<Rightarrow> (deployment_identity \<times> provision) option \<Rightarrow>
   resolution_state \<Rightarrow> resolution_state" where
  "push_binding consumer requirement provider st =
     st\<lparr>st_bindings := st_bindings st @
       [\<lparr>rb_consumer = rd_identity consumer, rb_requirement = requirement, rb_provider = provider\<rparr>]\<rparr>"

definition add_edge :: "jstring \<Rightarrow> jstring \<Rightarrow> (jstring, jstring list) jsmap \<Rightarrow> (jstring, jstring list) jsmap" where
  "add_edge from_key to_key m =
     (case map_of m from_key of
        None \<Rightarrow> m
      | Some ts \<Rightarrow> AList.update from_key (if to_key \<in> set ts then ts else ts @ [to_key]) m)"

definition require_edge :: "resolution_deployment \<Rightarrow> resolution_deployment \<Rightarrow> resolution_state \<Rightarrow> resolution_state" where
  "require_edge provider consumer st =
     st\<lparr>st_required := add_edge (deployment_key provider) (deployment_key consumer) (st_required st)\<rparr>"

text \<open>The end of the loop body, reached with a provider.\<close>

definition bind_provider ::
  "resolution_deployment \<Rightarrow> resolution_deployment \<Rightarrow> normalized_requirement \<Rightarrow> resolution_state \<Rightarrow> resolution_state" where
  "bind_provider provider consumer requirement st =
     (case compatibleProvisions provider requirement of
        [] \<Rightarrow> st
      | provided # _ \<Rightarrow>
          (let bound =
             (if rd_ready provider
              then push_binding consumer requirement (Some (rd_identity provider, provided)) st
              else if nr_optional requirement then push_binding consumer requirement None st
              else st)
           in if \<not> nr_optional requirement then require_edge provider consumer bound
              else if rd_ready provider
                then bound\<lparr>st_optional := st_optional bound @ [(deployment_key provider, deployment_key consumer)]\<rparr>
              else bound))"

text \<open>The branch of an explicit or persisted selection; \<open>explicit\<close> says which.\<close>

definition resolve_selected ::
  "resolution_env \<Rightarrow> resolution_deployment \<Rightarrow> normalized_requirement \<Rightarrow> bool \<Rightarrow> deployment_identity \<Rightarrow>
   resolution_state \<Rightarrow> resolution_state" where
  "resolve_selected env consumer requirement explicit selected st =
     (case map_of (en_byIdentity env) (identityKey selected) of
        None \<Rightarrow> push_diagnostic ''CAPABILITY_EXPLICIT_PROVIDER_MISSING'' consumer requirement [selected] st
      | Some provider \<Rightarrow>
          if di_applicationId (rd_identity provider) \<noteq> di_applicationId (rd_identity consumer)
          then push_diagnostic ''CAPABILITY_EXPLICIT_PROVIDER_MISSING'' consumer requirement [selected] st
          else if filter (\<lambda>p. pv_name p = nr_name requirement) (rd_provides provider) = []
          then push_diagnostic ''CAPABILITY_EXPLICIT_PROVIDER_MISSING'' consumer requirement [rd_identity provider] st
          else if compatibleProvisions provider requirement = []
          then push_diagnostic ''CAPABILITY_EXPLICIT_PROVIDER_INCOMPATIBLE'' consumer requirement [rd_identity provider] st
          else if \<not> rd_ready provider \<and> \<not> explicit
          then
            (let bound = push_binding consumer requirement None st
             in if nr_optional requirement then bound else require_edge provider consumer bound)
          else
            bind_provider provider consumer requirement
              (if \<not> rd_ready provider
               then push_diagnostic ''CAPABILITY_EXPLICIT_PROVIDER_UNREADY'' consumer requirement [rd_identity provider] st
               else st))"

definition resolve_open ::
  "resolution_env \<Rightarrow> resolution_deployment \<Rightarrow> normalized_requirement \<Rightarrow> resolution_state \<Rightarrow> resolution_state" where
  "resolve_open env consumer requirement st =
     (let compatible = filter (\<lambda>p. di_applicationId (rd_identity p) = di_applicationId (rd_identity consumer) \<and>
                                  compatibleProvisions p requirement \<noteq> []) (en_deployments env);
          ready = filter rd_ready compatible;
          unavailable = (if nr_optional requirement then st
            else push_diagnostic ''CAPABILITY_REQUIRED_UNAVAILABLE'' consumer requirement (map rd_identity compatible) st)
      in case compatible of
           [] \<Rightarrow> if nr_optional requirement then push_binding consumer requirement None st
                 else push_diagnostic ''CAPABILITY_REQUIRED_MISSING'' consumer requirement [] st
         | first # others \<Rightarrow>
             (case ready of
                [provider] \<Rightarrow> bind_provider provider consumer requirement st
              | _ # _ \<Rightarrow> push_diagnostic ''CAPABILITY_AMBIGUOUS'' consumer requirement (map rd_identity ready) st
              | [] \<Rightarrow> if others = [] then bind_provider first consumer requirement unavailable
                      else push_binding consumer requirement None unavailable))"

definition resolve_requirement ::
  "resolution_env \<Rightarrow> resolution_deployment \<Rightarrow> capability_requirement \<Rightarrow> resolution_state \<Rightarrow> resolution_state" where
  "resolve_requirement env consumer source st =
     (let requirement = normalizeRequirement source;
          persisted = map_of (en_previous env) (requirement_key (rd_identity consumer) (nr_name requirement))
      in case ownBinding (rd_bindings consumer) (nr_name requirement) of
           Some selected \<Rightarrow> resolve_selected env consumer requirement True selected st
         | None \<Rightarrow>
             (case persisted of
                Some previous \<Rightarrow> resolve_selected env consumer requirement False (pb_provider previous) st
              | None \<Rightarrow> resolve_open env consumer requirement st))"

definition consumer_requirements :: "resolution_deployment \<Rightarrow> (resolution_deployment \<times> capability_requirement) list" where
  "consumer_requirements d =
     map (Pair d) (sort_by (\<lambda>l r. compareText (cr_name l) (cr_name r)) (rd_requires d))"

definition resolve_all :: "resolution_env \<Rightarrow> resolution_state \<Rightarrow> resolution_state" where
  "resolve_all env st =
     fold (\<lambda>(consumer, source). resolve_requirement env consumer source)
       (concat (map consumer_requirements (en_deployments env))) st"

section \<open>Cycles and order\<close>

definition required_graph :: "resolution_env \<Rightarrow> (jstring, jstring list) jsmap \<Rightarrow> jstring digraph" where
  "required_graph env required = \<lparr>nodes = map deployment_key (en_deployments env), outgoing = required\<rparr>"

definition identities_of :: "resolution_env \<Rightarrow> jstring list \<Rightarrow> deployment_identity list" where
  "identities_of env keys =
     List.map_filter (\<lambda>k. map_option rd_identity (map_of (en_byIdentity env) k)) keys"

definition cyclic_component :: "jstring digraph \<Rightarrow> jstring list \<Rightarrow> bool" where
  "cyclic_component g component =
     (1 < length component \<or>
      (case component of [] \<Rightarrow> False | only # _ \<Rightarrow> only \<in> set (targets g only)))"

definition cycle_diagnostics :: "resolution_env \<Rightarrow> jstring digraph \<Rightarrow> resolution_diagnostic list" where
  "cycle_diagnostics env g =
     (case stronglyConnectedComponents compareText g of
        None \<Rightarrow> []
      | Some components \<Rightarrow>
          map (\<lambda>cycle. diagnostic ''CAPABILITY_REQUIRED_CYCLE'' None None (identities_of env cycle))
            (filter (cyclic_component g) components))"

lemma targets_outside: "n \<notin> fst ` set (outgoing g) \<Longrightarrow> targets g n = []"
  by (simp add: targets_def map_of_eq_None_iff [symmetric])

text \<open>The work list of \<open>reachable\<close>, its top first.\<close>

function reachable_from :: "jstring digraph \<Rightarrow> jstring list \<Rightarrow> jstring list \<Rightarrow> jstring \<Rightarrow> bool" where
  "reachable_from g [] visited goal = False"
| "reachable_from g (current # pending) visited goal =
     (if current = goal then True
      else if current \<in> set visited then reachable_from g pending visited goal
      else reachable_from g (rev (targets g current) @ pending) (current # visited) goal)"
  by pat_completeness auto

termination
proof (relation "measures [\<lambda>(g, pending, visited, goal). card (fst ` set (outgoing g) - set visited),
    \<lambda>(g, pending, visited, goal). length pending]", goal_cases)
  case (3 g current pending visited goal)
  show ?case
  proof (cases "current \<in> fst ` set (outgoing g)")
    case True
    then have "card (fst ` set (outgoing g) - set (current # visited)) < card (fst ` set (outgoing g) - set visited)"
      using 3 by (intro psubset_card_mono) auto
    then show ?thesis by simp
  next
    case False
    then have "fst ` set (outgoing g) - insert current (set visited) = fst ` set (outgoing g) - set visited" by auto
    with False show ?thesis by (simp add: targets_outside)
  qed
qed simp_all

definition compareEdges :: "jstring \<times> jstring \<Rightarrow> jstring \<times> jstring \<Rightarrow> int" where
  "compareEdges left right = or_else (compareText (fst left) (fst right)) (compareText (snd left) (snd right))"

definition add_optional_edge :: "resolution_env \<Rightarrow> jstring \<times> jstring \<Rightarrow> (jstring, jstring list) jsmap \<Rightarrow> (jstring, jstring list) jsmap" where
  "add_optional_edge env edge required =
     (case edge of (provider, consumer) \<Rightarrow>
        if provider \<noteq> consumer \<and> \<not> reachable_from (required_graph env required) [consumer] [] provider
        then add_edge provider consumer required else required)"

definition resolution_env_of :: "resolution_input \<Rightarrow> resolution_env" where
  "resolution_env_of input =
     (let deployments = sort_by compareDeployment (ri_deployments input);
          previous = (case ri_previousBindings input of None \<Rightarrow> [] | Some bs \<Rightarrow> bs)
      in \<lparr>en_deployments = deployments,
          en_byIdentity = fold (\<lambda>d. AList.update (deployment_key d) d) deployments [],
          en_previous = fold (\<lambda>b. AList.update (requirement_key (pb_consumer b) (pb_capability b)) b) previous []\<rparr>)"

definition initial_state :: "resolution_env \<Rightarrow> resolution_state" where
  "initial_state env =
     \<lparr>st_diagnostics = [], st_bindings = [],
      st_required = fold (\<lambda>d. AList.update (deployment_key d) []) (en_deployments env) [], st_optional = []\<rparr>"

definition resolveCapabilities :: "resolution_input \<Rightarrow> resolution_result" where
  "resolveCapabilities input =
     (let previous = (case ri_previousBindings input of None \<Rightarrow> [] | Some bs \<Rightarrow> bs);
          env = resolution_env_of input;
          invalid = inputDiagnostics (en_deployments env) previous
      in if invalid \<noteq> [] then \<lparr>rr_diagnostics = invalid, rr_providerLossActions = [], rr_resolved = None\<rparr>
         else
           (let losses = providerLossDecisions previous (en_byIdentity env);
                st = resolve_all env (initial_state env);
                diagnostics = sort_by compareDiagnostic
                  (st_diagnostics st @ cycle_diagnostics env (required_graph env (st_required st)))
            in if diagnostics \<noteq> []
               then \<lparr>rr_diagnostics = diagnostics, rr_providerLossActions = losses, rr_resolved = None\<rparr>
               else
                 (let required = fold (add_optional_edge env) (sort_by compareEdges (st_optional st)) (st_required st)
                  in case topologicalOrder compareText (required_graph env required) of
                       None \<Rightarrow>
                         \<lparr>rr_diagnostics = [diagnostic ''CAPABILITY_REQUIRED_CYCLE'' None None []],
                          rr_providerLossActions = losses, rr_resolved = None\<rparr>
                     | Some keys \<Rightarrow>
                         \<lparr>rr_diagnostics = [], rr_providerLossActions = losses,
                          rr_resolved = Some (st_bindings st, identities_of env keys)\<rparr>)))"

end
