(* ===== verification/Graph_Order.thy ===== *)
theory Graph_Order
  imports Graph
begin

text \<open>
  The topological order is correct and complete: on a graph whose edges join its nodes it lists every
  node once, each after all its predecessors, exactly when the graph has no cycle. The proof keeps, for
  the counters of the loop, the number of predecessors that are not listed yet.
\<close>

definition graph_ok :: "'n digraph \<Rightarrow> bool" where
  "graph_ok g \<longleftrightarrow> distinct (nodes g) \<and> map_ok (outgoing g) \<and>
     (\<forall>(n, ts) \<in> set (outgoing g). n \<in> set (nodes g) \<and> distinct ts \<and> set ts \<subseteq> set (nodes g))"

definition edges :: "'n digraph \<Rightarrow> ('n \<times> 'n) set" where
  "edges g = {(u, t). t \<in> set (targets g u)}"

definition waiting_for :: "'n digraph \<Rightarrow> 'n list \<Rightarrow> 'n \<Rightarrow> ('n \<times> 'n list) list" where
  "waiting_for g order t = filter (\<lambda>e. t \<in> set (snd e) \<and> fst e \<notin> set order) (outgoing g)"

definition forward_order :: "'n digraph \<Rightarrow> 'n list \<Rightarrow> bool" where
  "forward_order g order \<longleftrightarrow> (\<forall>xs t ys u. order = xs @ t # ys \<longrightarrow> (u, t) \<in> edges g \<longrightarrow> u \<in> set xs)"

lemma targets_entry: "map_ok (outgoing g) \<Longrightarrow> (n, ts) \<in> set (outgoing g) \<Longrightarrow> targets g n = ts"
  by (simp add: targets_def map_ok_def)

lemma targets_cases: "targets g n = [] \<or> (n, targets g n) \<in> set (outgoing g)"
  by (auto simp: targets_def dest: map_of_SomeD split: option.splits)

lemma targets_ok:
  assumes "graph_ok g"
  shows "distinct (targets g n)" "set (targets g n) \<subseteq> set (nodes g)"
    "(n, t) \<in> edges g \<Longrightarrow> n \<in> set (nodes g) \<and> t \<in> set (nodes g)"
  using assms targets_cases [of g n] by (auto simp: graph_ok_def edges_def)

lemma waiting_for_Nil_iff:
  assumes "graph_ok g"
  shows "waiting_for g order t = [] \<longleftrightarrow> (\<forall>u. (u, t) \<in> edges g \<longrightarrow> u \<in> set order)"
proof -
  have ok: "map_ok (outgoing g)" using assms by (simp add: graph_ok_def)
  have "(\<exists>e \<in> set (outgoing g). t \<in> set (snd e) \<and> fst e \<notin> set order) \<longleftrightarrow>
      (\<exists>u. (u, t) \<in> edges g \<and> u \<notin> set order)"
  proof
    assume "\<exists>e \<in> set (outgoing g). t \<in> set (snd e) \<and> fst e \<notin> set order"
    then obtain u ts where "(u, ts) \<in> set (outgoing g)" "t \<in> set ts" "u \<notin> set order" by auto
    moreover from this have "targets g u = ts" using targets_entry [OF ok] by blast
    ultimately show "\<exists>u. (u, t) \<in> edges g \<and> u \<notin> set order" by (auto simp: edges_def)
  next
    assume "\<exists>u. (u, t) \<in> edges g \<and> u \<notin> set order"
    then obtain u where "t \<in> set (targets g u)" "u \<notin> set order" by (auto simp: edges_def)
    then show "\<exists>e \<in> set (outgoing g). t \<in> set (snd e) \<and> fst e \<notin> set order"
      using targets_cases [of g u] by force
  qed
  then show ?thesis by (auto simp: waiting_for_def filter_empty_conv)
qed

section \<open>Counters\<close>

lemma get_or_zero_update [simp]:
  "get_or_zero (AList.update k v m) t = (if t = k then v else get_or_zero m t)"
  by (simp add: get_or_zero_def update_conv')

lemma count_targets:
  "distinct ts \<Longrightarrow> get_or_zero (fold count_target ts m) t = get_or_zero m t + (if t \<in> set ts then 1 else 0)"
  by (induction ts arbitrary: m) (auto simp: count_target_def)

lemma count_all_targets:
  "\<forall>ts \<in> set tss. distinct ts \<Longrightarrow>
   get_or_zero (fold (fold count_target) tss m) t =
     get_or_zero m t + int (length (filter (\<lambda>ts. t \<in> set ts) tss))"
  by (induction tss arbitrary: m) (auto simp: count_targets)

lemma fold_zeros:
  "get_or_zero m t = 0 \<Longrightarrow> get_or_zero (fold (\<lambda>n m. AList.update n 0 m) ns m) t = 0"
  by (induction ns arbitrary: m) auto

lemma dom_fold_update:
  "dom (map_of (fold (\<lambda>n m. AList.update n 0 m) ns m)) = set ns \<union> dom (map_of m)"
  by (induction ns arbitrary: m) (auto simp: map_lookups split: if_splits)

lemma dom_count_targets:
  "dom (map_of (fold count_target ts m)) = set ts \<union> dom (map_of m)"
  by (induction ts arbitrary: m) (auto simp: count_target_def map_lookups split: if_splits)

lemma dom_count_all: "dom (map_of m) \<subseteq> dom (map_of (fold (fold count_target) tss m))"
proof (induction tss arbitrary: m)
  case (Cons ts tss)
  have "dom (map_of m) \<subseteq> dom (map_of (fold count_target ts m))" unfolding dom_count_targets by blast
  also note Cons.IH
  finally show ?case by (simp only: fold.simps comp_apply)
qed simp

lemma initial_incoming_counts:
  assumes "graph_ok g"
  shows "get_or_zero (initial_incoming g) t = int (length (waiting_for g [] t))"
    and "n \<in> set (nodes g) \<Longrightarrow> map_of (initial_incoming g) n \<noteq> None"
proof -
  have "\<forall>ts \<in> set (map snd (outgoing g)). distinct ts" using assms by (auto simp: graph_ok_def)
  then show "get_or_zero (initial_incoming g) t = int (length (waiting_for g [] t))"
    by (simp add: initial_incoming_def count_all_targets fold_zeros get_or_zero_def [of "[]"]
        waiting_for_def filter_map o_def)
  assume "n \<in> set (nodes g)"
  then have "n \<in> dom (map_of (initial_incoming g))"
    unfolding initial_incoming_def
    by (intro subsetD [OF dom_count_all]) (simp only: dom_fold_update Un_iff, simp)
  then show "map_of (initial_incoming g) n \<noteq> None" by (simp add: domIff)
qed

lemma release_targets_result:
  "distinct ts \<Longrightarrow> release_targets cmp ts (m, ready) = (m', ready') \<Longrightarrow>
   (\<forall>t. get_or_zero m' t = get_or_zero m t - (if t \<in> set ts then 1 else 0)) \<and>
   mset ready' = mset ready + mset (filter (\<lambda>t. get_or_zero m t = 1) ts)"
proof (induction ts arbitrary: m ready)
  case (Cons t ts)
  let ?m = "AList.update t (get_or_zero m t - 1) m"
  let ?ready = "if get_or_zero m t - 1 = 0 then sort_by cmp (ready @ [t]) else ready"
  have "release_targets cmp ts (?m, ?ready) = (m', ready')" using Cons.prems by (simp add: Let_def)
  with Cons.IH Cons.prems have
    counts: "\<forall>x. get_or_zero m' x = get_or_zero ?m x - (if x \<in> set ts then 1 else 0)" and
    ready: "mset ready' = mset ?ready + mset (filter (\<lambda>x. get_or_zero ?m x = 1) ts)"
    by auto
  have same: "mset (filter (\<lambda>x. get_or_zero ?m x = 1) ts) = mset (filter (\<lambda>x. get_or_zero m x = 1) ts)"
    using Cons.prems by (intro arg_cong [where f = mset] filter_cong) auto
  have "mset ready' = mset ready + mset (filter (\<lambda>x. get_or_zero m x = 1) (t # ts))"
    unfolding ready same by simp
  with counts Cons.prems show ?case by auto
qed simp

lemma waiting_for_snoc:
  assumes "graph_ok g" and "node \<notin> set order"
  shows "int (length (waiting_for g (order @ [node]) t)) =
    int (length (waiting_for g order t)) - (if t \<in> set (targets g node) then 1 else 0)"
proof -
  have ok: "map_ok (outgoing g)" using assms by (simp add: graph_ok_def)
  let ?wait = "\<lambda>order es. int (length (filter (\<lambda>e. t \<in> set (snd e) \<and> fst e \<notin> set order) es))"
  have "?wait (order @ [node]) es = ?wait order es -
      (if \<exists>ts. map_of es node = Some ts \<and> t \<in> set ts then 1 else 0)"
    if "map_ok es" for es :: "('a \<times> 'a list) list"
    using that
  proof (induction es)
    case (Cons e es)
    obtain n ts where e: "e = (n, ts)" by (cases e)
    have fresh: "map_of es n = None" using Cons.prems by (simp add: map_ok_def e map_of_eq_None_iff)
    have "?wait (order @ [node]) es = ?wait order es -
        (if \<exists>ts. map_of es node = Some ts \<and> t \<in> set ts then 1 else 0)"
      using Cons.prems by (intro Cons.IH) (simp add: map_ok_def)
    then show ?case
      using fresh assms(2) by (cases "n = node"; cases "t \<in> set ts"; cases "n \<in> set order") (simp_all add: e)
  qed simp
  from this [OF ok] show ?thesis by (auto simp: waiting_for_def targets_def split: option.splits)
qed

section \<open>The loop\<close>

definition loop_ok :: "'n digraph \<Rightarrow> ('n, int) jsmap \<Rightarrow> 'n list \<Rightarrow> 'n list \<Rightarrow> bool" where
  "loop_ok g m ready order \<longleftrightarrow>
     (\<forall>t. get_or_zero m t = int (length (waiting_for g order t))) \<and>
     distinct (ready @ order) \<and> set (ready @ order) \<subseteq> set (nodes g) \<and>
     (\<forall>n \<in> set (nodes g). n \<in> set (ready @ order) \<longleftrightarrow> waiting_for g order n = []) \<and>
     forward_order g order"

lemma forward_order_snoc:
  "forward_order g order \<Longrightarrow> (\<forall>u. (u, node) \<in> edges g \<longrightarrow> u \<in> set order) \<Longrightarrow> forward_order g (order @ [node])"
  unfolding forward_order_def
  by (auto simp: append_eq_append_conv2 append_eq_Cons_conv Cons_eq_append_conv)

lemma loop_ok_step:
  assumes g: "graph_ok g" and inv: "loop_ok g m (node # ready) order"
    and step: "release_targets cmp (sort_by cmp (targets g node)) (m, ready) = (m', ready')"
  shows "loop_ok g m' ready' (order @ [node])"
proof -
  let ?ts = "targets g node" and ?new = "filter (\<lambda>t. get_or_zero m t = 1) (sort_by cmp (targets g node))"
  have node: "node \<notin> set order" "node \<in> set (nodes g)" "waiting_for g order node = []"
    using inv by (auto simp: loop_ok_def)
  have ts: "distinct ?ts" "set ?ts \<subseteq> set (nodes g)" using targets_ok [OF g] by auto
  have counts: "\<forall>t. get_or_zero m' t = get_or_zero m t - (if t \<in> set ?ts then 1 else 0)"
    and mset: "mset ready' = mset ready + mset ?new"
    using release_targets_result [OF _ step] ts(1) by auto
  then have ready': "set ready' = set ready \<union> set ?new" by (metis set_mset_mset set_mset_union)
  have wait: "get_or_zero m t = int (length (waiting_for g order t))" for t
    using inv by (simp add: loop_ok_def)
  have wait': "get_or_zero m' t = int (length (waiting_for g (order @ [node]) t))" for t
    using counts wait waiting_for_snoc [OF g node(1)] by simp
  have member: "n \<in> set (node # ready @ order) \<longleftrightarrow> get_or_zero m n = 0" if "n \<in> set (nodes g)" for n
    using inv wait [of n] that by (auto simp: loop_ok_def)
  have "distinct (ready' @ order @ [node])"
  proof -
    have "distinct (ready @ ?new @ order @ [node])"
      using inv ts member by (auto simp: loop_ok_def)
    moreover have "mset (ready' @ order @ [node]) = mset (ready @ ?new @ order @ [node])"
      unfolding mset_append mset by (simp only: add.assoc)
    ultimately show ?thesis by (metis mset_eq_imp_distinct_iff)
  qed
  moreover have "set (ready' @ order @ [node]) \<subseteq> set (nodes g)"
    using ready' inv ts node by (auto simp: loop_ok_def)
  moreover have "n \<in> set (ready' @ order @ [node]) \<longleftrightarrow> waiting_for g (order @ [node]) n = []"
    if n: "n \<in> set (nodes g)" for n
  proof -
    have "waiting_for g (order @ [node]) n = [] \<longleftrightarrow> get_or_zero m' n = 0" using wait' [of n] by simp
    also have "\<dots> \<longleftrightarrow> get_or_zero m n = (if n \<in> set ?ts then 1 else 0)" using counts by auto
    also have "\<dots> \<longleftrightarrow> n \<in> set (ready' @ order @ [node])"
    proof (cases "n \<in> set ?ts")
      case True
      then have "get_or_zero m n \<noteq> 0"
        using wait [of n] waiting_for_Nil_iff [OF g, of order n] node(1) by (auto simp: edges_def)
      with True member [OF n] ready' show ?thesis by auto
    next
      case False
      with member [OF n] ready' show ?thesis by auto
    qed
    finally show ?thesis by simp
  qed
  moreover have "forward_order g (order @ [node])"
    using inv node(3) waiting_for_Nil_iff [OF g] by (intro forward_order_snoc) (auto simp: loop_ok_def)
  ultimately show ?thesis using wait' by (simp add: loop_ok_def)
qed

lemma topological_loop_ok:
  "graph_ok g \<Longrightarrow> loop_ok g m ready order \<Longrightarrow>
   \<exists>m'. loop_ok g m' [] (topological_loop cmp g m ready order)"
proof (induction cmp g m ready order rule: topological_loop.induct)
  case (2 cmp g m node ready order)
  obtain m' ready' where step: "release_targets cmp (sort_by cmp (targets g node)) (m, ready) = (m', ready')"
    by (cases "release_targets cmp (sort_by cmp (targets g node)) (m, ready)")
  from "2.IH" [OF step [symmetric] refl "2.prems"(1) loop_ok_step [OF "2.prems" step]] step
  show ?case by simp
qed auto

lemma loop_ok_initial:
  assumes "graph_ok g"
  shows "loop_ok g (initial_incoming g)
    (sort_by cmp (filter (\<lambda>n. map_of (initial_incoming g) n = Some 0) (nodes g))) []"
proof -
  have "map_of (initial_incoming g) n = Some 0 \<longleftrightarrow> waiting_for g [] n = []" if "n \<in> set (nodes g)" for n
    using initial_incoming_counts [OF assms] that
    by (fastforce simp: get_or_zero_def split: option.splits)
  then show ?thesis
    using assms initial_incoming_counts(1) [OF assms]
    by (auto simp: loop_ok_def graph_ok_def forward_order_def)
qed

section \<open>Cycles\<close>

lemma forward_order_acyclic:
  assumes "forward_order g order" and "\<forall>u t. (u, t) \<in> edges g \<longrightarrow> t \<in> set order"
  shows "acyclic (edges g)"
proof -
  let ?pos = "\<lambda>x. length (takeWhile (\<lambda>y. y \<noteq> x) order)"
  have "?pos u < ?pos t" if e: "(u, t) \<in> edges g" for u t
  proof -
    obtain xs ys where split: "order = xs @ t # ys" and first: "t \<notin> set xs"
      using assms(2) e split_list_first by metis
    then have "u \<in> set xs" using assms(1) e unfolding forward_order_def by blast
    then obtain as bs where xs: "xs = as @ u # bs" "u \<notin> set as" using split_list_first by metis
    then have "takeWhile (\<lambda>y. y \<noteq> u) order = as" using split by (simp add: takeWhile_append)
    moreover have "takeWhile (\<lambda>y. y \<noteq> t) order = xs" using split first by (simp add: takeWhile_append)
    ultimately show ?thesis using xs(1) by simp
  qed
  then have "edges g \<subseteq> measure ?pos" by auto
  then show ?thesis by (meson wf_acyclic wf_measure wf_subset)
qed

lemma blocked_cycle:
  assumes "finite R" and "R \<noteq> {}" and "\<forall>n \<in> R. \<exists>u \<in> R. (u, n) \<in> E"
  shows "\<not> acyclic E"
proof
  assume "acyclic E"
  then have "wf (E \<inter> R \<times> R)"
    using assms(1) by (intro finite_acyclic_wf) (auto intro: acyclic_subset finite_subset [of _ "R \<times> R"])
  then obtain z where "z \<in> R" "\<forall>y. (y, z) \<in> E \<inter> R \<times> R \<longrightarrow> y \<notin> R"
    using assms(2) by (metis wfE_min ex_in_conv)
  with assms(3) show False by blast
qed

section \<open>The depth of the component search\<close>

lemma dom_indices_enter: "dom (map_of (indices (enter_node node s))) = insert node (dom (map_of (indices s)))"
  by (auto simp: enter_node_def map_lookups split: if_splits)

lemma indices_lower [simp]: "indices (lower_link node v s) = indices s"
  by (simp add: lower_link_def)

lemma indices_leave [simp]: "indices (leave_node cmp node s) = indices s"
  by (simp add: leave_node_def split: prod.split)

lemma targets_mentioned: "set (targets g n) \<subseteq> set (mentioned g)"
  using targets_cases [of g n] by (force simp: mentioned_def)

text \<open>As long as the depth is at least the number of nodes not yet indexed, the search returns.\<close>

abbreviation unindexed :: "'n digraph \<Rightarrow> 'n scc_state \<Rightarrow> nat" where
  "unindexed g s \<equiv> card (set (mentioned g) - dom (map_of (indices s)))"

lemma unindexed_mono:
  "dom (map_of (indices s)) \<subseteq> dom (map_of (indices s')) \<Longrightarrow> unindexed g s' \<le> unindexed g s"
  by (intro card_mono) auto

lemma visit_returns:
  "node \<in> set (mentioned g) \<Longrightarrow> map_of (indices s) node = None \<Longrightarrow> unindexed g s \<le> depth \<Longrightarrow>
   \<exists>s'. visit depth cmp g node s = Some s' \<and>
     dom (map_of (indices s)) \<subseteq> dom (map_of (indices s')) \<and> node \<in> dom (map_of (indices s'))"
  and visit_neighbours_returns:
  "set ms \<subseteq> set (mentioned g) \<Longrightarrow> unindexed g s \<le> depth \<Longrightarrow>
   \<exists>s'. visit_neighbours depth cmp g node ms s = Some s' \<and>
     dom (map_of (indices s)) \<subseteq> dom (map_of (indices s'))"
proof (induction depth cmp g node s and depth cmp g node ms s
    rule: visit_visit_neighbours.induct)
  case (1 cmp g node s)
  then have "node \<in> set (mentioned g) - dom (map_of (indices s))" by (simp add: domIff)
  with 1(3) show ?case by (auto simp: domIff)
next
  case (2 depth cmp g node s)
  let ?s = "enter_node node s"
  have "node \<in> set (mentioned g) - dom (map_of (indices s))" using 2(2,3) by (simp add: domIff)
  then have "unindexed g ?s < unindexed g s"
    by (intro psubset_card_mono) (auto simp: dom_indices_enter)
  then have "unindexed g ?s \<le> depth" using 2(4) by simp
  from 2(1) [OF _ this] targets_mentioned [of g node]
  obtain s' where "visit_neighbours depth cmp g node (sort_by cmp (targets g node)) ?s = Some s'"
    "dom (map_of (indices ?s)) \<subseteq> dom (map_of (indices s'))" by auto
  then show ?case by (auto simp: dom_indices_enter)
next
  case (4 depth cmp g node m ms s)
  show ?case
  proof (cases "map_of (indices s) m = None")
    case True
    obtain s1 where s1: "visit depth cmp g m s = Some s1"
      "dom (map_of (indices s)) \<subseteq> dom (map_of (indices s1))"
      using 4(1) [OF True _ True] 4(5,6) by auto
    have "unindexed g s1 \<le> depth" using unindexed_mono [OF s1(2), of g] 4(6) by simp
    then have "\<exists>s'. visit_neighbours depth cmp g node ms
        (lower_link node (get_or_zero (lowLinks s1) m) s1) = Some s' \<and>
        dom (map_of (indices s1)) \<subseteq> dom (map_of (indices s'))"
      using 4(2) [OF True s1(1)] 4(5) by simp
    with True s1 show ?thesis by auto
  next
    case False
    show ?thesis
    proof (cases "m \<in> set (onStack s)")
      case True
      from 4(3) [OF False True] 4(5,6) False True show ?thesis by (auto simp del: not_None_eq)
    next
      case notOn: False
      from 4(4) [OF False notOn] 4(5,6) False notOn show ?thesis by (auto simp del: not_None_eq)
    qed
  qed
qed simp

lemma visit_roots_returns:
  "set ns \<subseteq> set (mentioned g) \<Longrightarrow> length (mentioned g) \<le> depth \<Longrightarrow>
   \<exists>s'. visit_roots depth cmp g ns s = Some s'"
proof (induction ns arbitrary: s)
  case (Cons n ns)
  have "unindexed g s \<le> length (mentioned g)"
    by (meson card_Diff_subset_Int card_length card_mono Diff_subset List.finite_set order_trans)
  with Cons.prems have "unindexed g s \<le> depth" by simp
  with visit_returns [of n g s depth cmp] Cons show ?case by fastforce
qed simp

lemma stronglyConnectedComponents_returns: "stronglyConnectedComponents cmp g \<noteq> None"
  using visit_roots_returns [of "sort_by cmp (nodes g)" g "Suc (length (mentioned g))" cmp scc_start]
  by (auto simp: stronglyConnectedComponents_def mentioned_def)

section \<open>Properties\<close>

lemma topologicalOrder_spec:
  assumes g: "graph_ok g"
  shows "case topologicalOrder cmp g of
      None \<Rightarrow> \<not> acyclic (edges g)
    | Some order \<Rightarrow> acyclic (edges g) \<and> distinct order \<and> set order = set (nodes g) \<and> forward_order g order"
proof -
  define m where "m = initial_incoming g"
  define ready where "ready = sort_by cmp (filter (\<lambda>n. map_of m n = Some 0) (nodes g))"
  define order where "order = topological_loop cmp g m ready []"
  obtain m' where inv: "loop_ok g m' [] order"
    using topological_loop_ok [OF g loop_ok_initial [OF g, of cmp], of cmp]
    by (auto simp: order_def ready_def m_def)
  then have order: "distinct order" "set order \<subseteq> set (nodes g)" "forward_order g order"
    and blocked: "\<forall>n \<in> set (nodes g). n \<in> set order \<longleftrightarrow> waiting_for g order n = []"
    by (auto simp: loop_ok_def)
  have result: "topologicalOrder cmp g = (if length order = length (nodes g) then Some order else None)"
    by (simp add: topologicalOrder_def order_def ready_def m_def Let_def)
  show ?thesis
  proof (cases "length order = length (nodes g)")
    case True
    then have "set order = set (nodes g)"
      using order(1,2) g by (metis List.finite_set card_subset_eq distinct_card graph_ok_def)
    with True result order show ?thesis
      using forward_order_acyclic [OF order(3)] targets_ok(3) [OF g] by auto
  next
    case False
    then have "set (nodes g) - set order \<noteq> {}"
      using order(1,2) g by (metis Diff_eq_empty_iff distinct_card graph_ok_def subset_antisym)
    moreover have "\<forall>n \<in> set (nodes g) - set order. \<exists>u \<in> set (nodes g) - set order. (u, n) \<in> edges g"
      using blocked waiting_for_Nil_iff [OF g] targets_ok(3) [OF g] by blast
    ultimately have "\<not> acyclic (edges g)" by (intro blocked_cycle) auto
    with False result show ?thesis by simp
  qed
qed

text \<open>
  C29. The topological order is complete: on a graph whose edges join distinct nodes, an order is returned
  exactly when the graph has no cycle, and it then lists every node once, after all its predecessors.
\<close>

theorem topologicalOrder_correct:
  assumes "graph_ok g"
  shows "case topologicalOrder cmp g of
      None \<Rightarrow> \<not> acyclic (edges g)
    | Some order \<Rightarrow> acyclic (edges g) \<and> distinct order \<and> set order = set (nodes g) \<and> forward_order g order"
  using assms by (rule topologicalOrder_spec)

lemma topologicalOrder_correct_witness:
  "\<not> acyclic (edges \<lparr>nodes = [1, 2 :: nat], outgoing = [(1, [2]), (2, [1])]\<rparr>)"
proof -
  have "graph_ok \<lparr>nodes = [1, 2 :: nat], outgoing = [(1, [2]), (2, [1])]\<rparr>"
    by (simp add: graph_ok_def map_ok_def)
  from topologicalOrder_correct [OF this, of compareText] show ?thesis
    by (simp add: topologicalOrder_def initial_incoming_def count_target_def get_or_zero_def)
qed

end
