(* ===== verification/Version_Order.thy ===== *)
theory Version_Order
  imports Version
begin

text \<open>
  The order of versions and the meaning of ranges. A version is ordered by a lexicographic key, the
  precedence of Semantic Versioning; from it the comparison of \<open>version.ts\<close> is shown to be a total
  order on parsed versions, and \<open>^\<close>, \<open>~\<close> and partial versions are shown to accept exactly the
  versions that agree with the target on its fixed components.
\<close>

section \<open>Well-formed versions\<close>

definition identifier_ok :: "jstring \<Rightarrow> bool" where
  "identifier_ok p \<longleftrightarrow> p \<noteq> [] \<and> list_all identifier_char p \<and> (list_all is_digit p \<longrightarrow> is_decimal p)"

definition version_wf :: "version \<Rightarrow> bool" where
  "version_wf v \<longleftrightarrow> safe_nat (ver_major v) \<and> safe_nat (ver_minor v) \<and> safe_nat (ver_patch v) \<and>
     list_all identifier_ok (ver_prerelease v)"

lemma VERSION_PATTERN_prerelease:
  "VERSION_PATTERN s = Some (a, b, c, Some t) \<Longrightarrow> dotted_identifiers t"
  unfolding VERSION_PATTERN_def Let_def by (simp only: if_split_asm split: if_split_asm) (auto simp only: prod.inject option.inject option.simps if_split_asm split: if_split_asm)

lemma parseVersion_wf:
  assumes "parseVersion s = Some v"
  shows "version_wf v"
proof -
  obtain a b c pre where p: "VERSION_PATTERN s = Some (a, b, c, pre)"
    using assms unfolding parseVersion_def by (cases "VERSION_PATTERN s") auto
  let ?ids = "case pre of None \<Rightarrow> [] | Some t \<Rightarrow> split_on 46 t"
  have safe: "safe_nat (decimal_value a)" "safe_nat (decimal_value b)" "safe_nat (decimal_value c)"
    and good: "\<not> list_ex bad_identifier ?ids"
    and v: "v = \<lparr>ver_major = decimal_value a, ver_minor = decimal_value b,
                 ver_patch = decimal_value c, ver_prerelease = ?ids\<rparr>"
    using assms p unfolding parseVersion_def Let_def by (simp_all split: if_split_asm)
  have "list_all (\<lambda>p. p \<noteq> [] \<and> list_all identifier_char p) ?ids"
    using VERSION_PATTERN_prerelease [of s a b c] p
    by (cases pre) (auto simp: dotted_identifiers_def)
  with good have "list_all identifier_ok ?ids"
    by (auto simp: list_all_iff list_ex_iff identifier_ok_def bad_identifier_def all_digits_def)
  with safe v show ?thesis by (simp add: version_wf_def)
qed

lemma stableVersion_simps [simp]:
  "ver_major (stableVersion a b c) = a" "ver_minor (stableVersion a b c) = b"
  "ver_patch (stableVersion a b c) = c" "ver_prerelease (stableVersion a b c) = []"
  by (simp_all add: stableVersion_def)

section \<open>Precedence as a key\<close>

text \<open>
  Numeric identifiers sort below the others, by value; the others by code units; a release above
  every prerelease of the same numbers.
\<close>

definition identifier_key :: "jstring \<Rightarrow> nat \<times> nat \<times> jstring" where
  "identifier_key p = (if list_all is_digit p then (0, decimal_value p, []) else (1, 0, p))"

definition version_key :: "version \<Rightarrow> nat \<times> nat \<times> nat \<times> nat \<times> (nat \<times> nat \<times> jstring) list" where
  "version_key v = (ver_major v, ver_minor v, ver_patch v,
     (if ver_prerelease v = [] then 1 else 0), map identifier_key (ver_prerelease v))"

lemma strip_zeros_decimal: "is_decimal s \<Longrightarrow> strip_zeros s = s"
  by (cases s) (auto simp: is_decimal_def strip_zeros_def)

lemma decimal_less_length:
  assumes "is_decimal s" "is_decimal t" "length s < length t"
  shows "decimal_value s < decimal_value t"
proof -
  have "decimal_value s < 10 ^ length s"
    using assms(1) by (intro decimal_value_bound) (simp add: is_decimal_def)
  also have "\<dots> \<le> 10 ^ (length t - 1)" using assms(3) by (intro power_increasing) auto
  also have "\<dots> \<le> decimal_value t"
  proof (rule decimal_value_lower [OF assms(2)])
    show "1 < length t" using assms by (cases s) (auto simp: is_decimal_def)
  qed
  finally show ?thesis .
qed

lemma compareNumericIdentifier_sgn:
  assumes "is_decimal s" "is_decimal t"
  shows "sgn (compareNumericIdentifier s t) = compareText (decimal_value s) (decimal_value t)"
proof (cases "length s" "length t" rule: linorder_cases)
  case less
  with assms decimal_less_length [of s t] show ?thesis
    by (simp add: compareNumericIdentifier_def strip_zeros_decimal or_else_def compareText_def)
next
  case equal
  have d: "list_all is_digit s" "list_all is_digit t" using assms by (auto simp: is_decimal_def)
  have "s < t \<longleftrightarrow> decimal_value s < decimal_value t" "t < s \<longleftrightarrow> decimal_value t < decimal_value s"
    using equal d by (simp_all add: less_digit_strings)
  with equal assms show ?thesis
    by (simp add: compareNumericIdentifier_def strip_zeros_decimal or_else_def compareText_def)
next
  case greater
  with assms decimal_less_length [of t s] show ?thesis
    by (simp add: compareNumericIdentifier_def strip_zeros_decimal or_else_def compareText_def)
qed

lemma identifier_key_inj:
  "identifier_ok p \<Longrightarrow> identifier_ok q \<Longrightarrow> identifier_key p = identifier_key q \<longleftrightarrow> p = q"
  unfolding identifier_key_def identifier_ok_def
  by (auto split: if_splits) (metis decimal_string_value)

lemma sgn_flip: "sgn (x :: int) \<le> 0 \<longleftrightarrow> x \<le> 0" "sgn x < 0 \<longleftrightarrow> x < 0" "sgn x = 0 \<longleftrightarrow> x = 0"
  by (auto simp: sgn_if)

lemma compareText_Cons:
  "compareText (x # xs) (y # ys) = (if x = y then compareText xs ys else compareText x y)"
  for x :: "'a :: linorder"
  by (auto simp: compareText_def)

lemma comparePrerelease_sgn:
  "list_all identifier_ok ls \<Longrightarrow> list_all identifier_ok rs \<Longrightarrow>
   sgn (comparePrerelease ls rs) = compareText (map identifier_key ls) (map identifier_key rs)"
proof (induction ls rs rule: comparePrerelease.induct)
  case (4 l ls r rs)
  have ok: "identifier_ok l" "identifier_ok r" using "4.prems" by auto
  show ?case
  proof (cases "l = r")
    case True
    with 4 show ?thesis by (simp add: compareText_Cons)
  next
    case False
    then have "identifier_key l \<noteq> identifier_key r" using ok by (simp add: identifier_key_inj)
    moreover have "sgn (comparePrerelease (l # ls) (r # rs)) = compareText (identifier_key l) (identifier_key r)"
      using False ok compareNumericIdentifier_sgn [of l r]
      by (auto simp: identifier_key_def identifier_ok_def all_digits_def compareText_def less_prod_def)
    ultimately show ?thesis by (simp add: compareText_Cons)
  qed
qed (simp_all add: compareText_def)

lemma compareText_pair:
  "compareText (a, b) (c, d) = (if a = c then compareText b d else compareText a c)"
  for a :: "'a :: linorder" and b :: "'b :: linorder"
  by (auto simp: compareText_def)

lemma compareVersion_sgn:
  "version_wf a \<Longrightarrow> version_wf b \<Longrightarrow>
   sgn (compareVersion a b) = compareText (version_key a) (version_key b)"
  using comparePrerelease_sgn [of "ver_prerelease a" "ver_prerelease b"]
  by (auto simp: compareVersion_def version_key_def version_wf_def or_else_def Let_def
      compareText_pair) (auto simp: compareText_def)

lemma map_identifier_key_inj:
  "list_all identifier_ok ls \<Longrightarrow> list_all identifier_ok rs \<Longrightarrow>
   map identifier_key ls = map identifier_key rs \<longleftrightarrow> ls = rs"
proof (induction ls arbitrary: rs)
  case (Cons l ls)
  then show ?case by (cases rs) (auto simp: identifier_key_inj)
qed auto

lemma version_key_inj:
  "version_wf a \<Longrightarrow> version_wf b \<Longrightarrow> version_key a = version_key b \<longleftrightarrow> a = b"
  by (auto simp: version_key_def version_wf_def map_identifier_key_inj split: if_splits)

lemma compareVersion_key:
  assumes "version_wf a" "version_wf b"
  shows "compareVersion a b < 0 \<longleftrightarrow> version_key a < version_key b"
    and "0 \<le> compareVersion a b \<longleftrightarrow> version_key b \<le> version_key a"
    and "compareVersion a b \<le> 0 \<longleftrightarrow> version_key a \<le> version_key b"
    and "0 < compareVersion a b \<longleftrightarrow> version_key b < version_key a"
    and "compareVersion a b = 0 \<longleftrightarrow> a = b"
  using compareVersion_sgn [OF assms] version_key_inj [OF assms]
  by (auto simp: compareText_def sgn_if split: if_splits)

text \<open>
  C39. On versions that the parser returns, \<open>compareVersion\<close> is the comparison of Semantic Versioning
  precedence keys: its sign is the order of the keys (numbers, then release above prerelease, then
  the identifiers from left to right, numeric ones below the others and by value), so it is a total
  order that identifies only equal versions.
\<close>

theorem compareVersion_precedence:
  assumes "parseVersion s = Some a" and "parseVersion t = Some b"
  shows "sgn (compareVersion a b) = compareText (version_key a) (version_key b) \<and>
         (compareVersion a b = 0 \<longleftrightarrow> a = b)"
  using compareVersion_sgn [of a b] compareVersion_key(5) [of a b] assms
  by (simp add: parseVersion_wf)

lemma compareVersion_precedence_witness:
  "compareVersion \<lparr>ver_major = 1, ver_minor = 0, ver_patch = 0, ver_prerelease = [js ''9'']\<rparr>
     \<lparr>ver_major = 1, ver_minor = 0, ver_patch = 0, ver_prerelease = [js ''10'']\<rparr> \<noteq> 0"
proof -
  have 1: "parseVersion (js ''1.0.0-9'') =
      Some \<lparr>ver_major = 1, ver_minor = 0, ver_patch = 0, ver_prerelease = [js ''9'']\<rparr>" by code_simp
  have 2: "parseVersion (js ''1.0.0-10'') =
      Some \<lparr>ver_major = 1, ver_minor = 0, ver_patch = 0, ver_prerelease = [js ''10'']\<rparr>" by code_simp
  show ?thesis using conjunct2 [OF compareVersion_precedence [OF 1 2]] by simp
qed

section \<open>A single comparator as a range\<close>

text \<open>The characters a version can hold: none of them separates comparators or alternatives.\<close>

definition plain_char :: "code_unit \<Rightarrow> bool" where
  "plain_char c \<longleftrightarrow> identifier_char c \<or> c = 46 \<or> c = 43"

lemma all_split_on:
  "list_all (list_all P) (split_on sep s) \<Longrightarrow> list_all (\<lambda>c. P c \<or> c = sep) s"
proof (induction s)
  case (Cons c s)
  then show ?case by (cases "split_on sep s") (auto split: if_splits)
qed simp

lemma dotted_plain: "dotted_identifiers s \<Longrightarrow> list_all plain_char s"
  using all_split_on [of identifier_char 46 s]
  by (auto simp: dotted_identifiers_def plain_char_def list_all_iff)

lemma decimal_plain: "is_decimal s \<Longrightarrow> list_all plain_char s"
  by (auto simp: is_decimal_def plain_char_def identifier_char_def is_alnum_def list_all_iff)

lemma take_one_eq: "take 1 s = [c] \<Longrightarrow> s = c # tl s"
  by (cases s) auto

lemma plain_dot: "plain_char 46" "plain_char 45" "plain_char 43"
  by (simp_all add: plain_char_def identifier_char_def)

lemma span_plain: "list_all P (takeWhile Q s) \<Longrightarrow> list_all P (dropWhile Q s) \<Longrightarrow> list_all P s"
  by (metis list_all_append takeWhile_dropWhile_id)

lemma head_plain: "take 1 s = [46] \<Longrightarrow> list_all plain_char (tl s) \<Longrightarrow> list_all plain_char s"
  using take_one_eq [of s 46] plain_dot by (cases s) auto

lemma VERSION_PATTERN_plain:
  assumes "VERSION_PATTERN s = Some (a, b, c, pre)"
  shows "list_all plain_char s"
proof -
  let ?s1 = "dropWhile is_digit s" let ?s2 = "dropWhile is_digit (tl ?s1)"
  let ?s3 = "dropWhile is_digit (tl ?s2)"
  let ?pre = "takeWhile (\<lambda>x. x \<noteq> 43) ?s3" let ?build = "dropWhile (\<lambda>x. x \<noteq> 43) ?s3"
  have num: "is_decimal (takeWhile is_digit s)" "is_decimal (takeWhile is_digit (tl ?s1))"
      "is_decimal (takeWhile is_digit (tl ?s2))"
    and dots: "take 1 ?s1 = [46]" "take 1 ?s2 = [46]"
    and pre: "?pre = [] \<or> hd ?pre = 45 \<and> dotted_identifiers (tl ?pre)"
    and build: "?build = [] \<or> dotted_identifiers (tl ?build)"
    using assms unfolding VERSION_PATTERN_def Let_def by (simp_all split: if_split_asm)
  have marked: "list_all plain_char u" if "u = [] \<or> plain_char (hd u) \<and> dotted_identifiers (tl u)" for u
    using that dotted_plain by (cases u) auto
  have "list_all plain_char ?pre"
    using pre plain_dot by (intro marked) auto
  moreover have "?build \<noteq> [] \<Longrightarrow> hd ?build = 43" using hd_dropWhile [of "\<lambda>x. x \<noteq> 43" ?s3] by blast
  then have "list_all plain_char ?build"
    using build plain_dot by (intro marked) metis
  ultimately have "list_all plain_char ?s3" by (rule span_plain)
  then have "list_all plain_char (tl ?s2)" using span_plain decimal_plain num(3) by blast
  then have "list_all plain_char ?s2" using head_plain dots(2) by blast
  then have "list_all plain_char (tl ?s1)" using span_plain decimal_plain num(2) by blast
  then have "list_all plain_char ?s1" using head_plain dots(1) by blast
  then show ?thesis using span_plain decimal_plain num(1) by blast
qed

lemma parseVersion_plain: "parseVersion s = Some v \<Longrightarrow> list_all plain_char s"
  by (cases "VERSION_PATTERN s") (auto simp: parseVersion_def dest: VERSION_PATTERN_plain)

lemma parseVersion_not_wildcard: "parseVersion s = Some v \<Longrightarrow> \<not> wildcard_part s"
proof
  assume "parseVersion s = Some v" "wildcard_part s"
  moreover have "parseVersion [42] = None" "parseVersion [88] = None" "parseVersion [120] = None"
    by code_simp+
  ultimately show False by (auto simp: wildcard_part_def)
qed

lemma plain_not_space: "plain_char c \<Longrightarrow> \<not> is_space c \<and> c \<noteq> 124"
  unfolding plain_char_def identifier_char_def is_alnum_def is_upper_def is_lower_def is_digit_def
    is_space_def word_le_nat_alt word_unat_eq_iff
  by auto

definition separator_free :: "jstring \<Rightarrow> bool" where
  "separator_free s \<longleftrightarrow> s \<noteq> [] \<and> list_all (\<lambda>c. \<not> is_space c \<and> c \<noteq> 124) s"

lemma split_spaces_free: "list_all (\<lambda>c. \<not> is_space c) s \<Longrightarrow> split_spaces s = [s]"
  by (induction s) (auto simp: prepend_def)

lemma split_bars_free: "list_all (\<lambda>c. c \<noteq> 124) s \<Longrightarrow> split_bars s = [s]"
  by (induction s rule: split_bars.induct) (auto simp: prepend_def)

lemma dropWhile_none: "list_all (\<lambda>c. \<not> P c) s \<Longrightarrow> dropWhile P s = s"
  by (cases s) auto

lemma trim_free: "list_all (\<lambda>c. \<not> is_space c) s \<Longrightarrow> trim s = s"
  unfolding trim_def by (subst (1 2) dropWhile_none) simp_all

lemma comparatorSets_single:
  assumes "separator_free c"
  shows "comparatorSets c = (if isSupportedComparator c then Some [[c]] else None)"
proof -
  have "list_all (\<lambda>x. \<not> is_space x) c" "list_all (\<lambda>x. x \<noteq> 124) c" "c \<noteq> []"
    using assms by (auto simp: separator_free_def list_all_iff)
  then show ?thesis
    by (simp add: comparatorSets_def split_bars_free trim_free split_spaces_free)
qed

lemma satisfiesVersionRange_single:
  assumes "separator_free c" and "isValidVersionRange c" and "parseVersion s = Some v"
  shows "satisfiesVersionRange s c \<longleftrightarrow> optsIntoPrerelease [c] v \<and> satisfiesComparator v c"
    and "isSupportedComparator c"
  using assms
  by (auto simp: satisfiesVersionRange_def isValidVersionRange_def comparatorSets_single split: if_splits)

section \<open>Caret and tilde\<close>

text \<open>What a version must share with the target of \<open>^\<close>: everything up to its first component that is not zero.\<close>

definition caret_prefix :: "version \<Rightarrow> version \<Rightarrow> bool" where
  "caret_prefix t v \<longleftrightarrow>
     (if 0 < ver_major t then ver_major v = ver_major t
      else if 0 < ver_minor t then ver_major v = 0 \<and> ver_minor v = ver_minor t
      else ver_major v = 0 \<and> ver_minor v = 0 \<and> ver_patch v = ver_patch t)"

definition tilde_prefix :: "version \<Rightarrow> version \<Rightarrow> bool" where
  "tilde_prefix t v \<longleftrightarrow> ver_major v = ver_major t \<and> ver_minor v = ver_minor t"

text \<open>A prerelease is offered only to a target that is a prerelease of the same numbers.\<close>

definition prerelease_offered :: "version \<Rightarrow> version \<Rightarrow> bool" where
  "prerelease_offered t v \<longleftrightarrow> ver_prerelease v = [] \<or>
     (ver_prerelease t \<noteq> [] \<and> ver_major v = ver_major t \<and> ver_minor v = ver_minor t \<and> ver_patch v = ver_patch t)"

lemma parseRangeVersion_exact:
  "parseVersion t = Some target \<Longrightarrow> parseRangeVersion t =
     Some \<lparr>rng_any = False, rng_precision = 3, rng_version = target, rng_wildcard = False\<rparr>"
  by (simp add: parseRangeVersion_def parseVersion_not_wildcard)

lemma comparatorParts_marked:
  assumes "parseVersion t = Some target" and "c = 94 \<or> c = 126"
  shows "comparatorParts (c # t) = Some ([c],
    \<lparr>rng_any = False, rng_precision = 3, rng_version = target, rng_wildcard = False\<rparr>)"
  using assms by (auto simp: comparatorParts_def parseRangeVersion_exact)

lemma separator_free_marked:
  assumes "parseVersion t = Some target" and "c = 94 \<or> c = 126"
  shows "separator_free (c # t)"
proof -
  have "\<not> is_space 94" "\<not> is_space 126" by code_simp+
  with assms parseVersion_plain [OF assms(1)] plain_not_space show ?thesis
    by (auto simp: separator_free_def list_all_iff)
qed

lemma stable_wf: "safe_nat a \<Longrightarrow> safe_nat b \<Longrightarrow> safe_nat c \<Longrightarrow> version_wf (stableVersion a b c)"
  by (simp add: version_wf_def)

lemma safe_zero [simp]: "safe_nat 0"
  by (simp add: safe_nat_def MAX_SAFE_INTEGER_def)

lemma below_stable:
  assumes "version_wf v" "version_wf (stableVersion a b c)"
  shows "compareVersion v (stableVersion a b c) < 0 \<longleftrightarrow>
    version_key v < (a, b, c, 1, [])"
  by (simp add: compareVersion_key(1) [OF assms]) (simp add: version_key_def)

lemmas key_orders = version_key_def less_prod_def less_eq_prod_def

lemma optsInto_marked:
  assumes "parseVersion t = Some target" and "c = 94 \<or> c = 126"
  shows "optsIntoPrerelease [c # t] v \<longleftrightarrow> prerelease_offered target v"
  by (auto simp: optsIntoPrerelease_def comparatorParts_marked [OF assms] prerelease_offered_def)

text \<open>
  A caret range accepts exactly the versions that are not before its target, agree with it up to
  its first component that is not zero, and are no prerelease, unless the target itself is a
  prerelease of the same three numbers.
\<close>

theorem caret_range_meaning:
  assumes "parseVersion s = Some v" and "parseVersion t = Some target"
    and "isValidVersionRange (94 # t)"
  shows "satisfiesVersionRange s (94 # t) \<longleftrightarrow>
    version_key target \<le> version_key v \<and> caret_prefix target v \<and> prerelease_offered target v"
proof -
  have wf: "version_wf v" "version_wf target" using assms by (auto intro: parseVersion_wf)
  note parts = comparatorParts_marked [OF assms(2), of 94, simplified]
  note single = satisfiesVersionRange_single
    [OF separator_free_marked [OF assms(2), of 94, simplified] assms(3,1)]
  have "satisfiesComparator v (94 # t) \<longleftrightarrow>
      version_key target \<le> version_key v \<and> below_bound v (caretUpperBound
        \<lparr>rng_any = False, rng_precision = 3, rng_version = target, rng_wildcard = False\<rparr>)"
    by (simp add: satisfiesComparator_def parts compareVersion_key(2) [OF wf])
  moreover have "caretUpperBound
        \<lparr>rng_any = False, rng_precision = 3, rng_version = target, rng_wildcard = False\<rparr> \<noteq> None"
    using single(2) by (simp add: isSupportedComparator_def parts)
  then have "version_key target \<le> version_key v \<Longrightarrow> prerelease_offered target v \<Longrightarrow>
    below_bound v (caretUpperBound
        \<lparr>rng_any = False, rng_precision = 3, rng_version = target, rng_wildcard = False\<rparr>) \<longleftrightarrow>
    caret_prefix target v"
    using wf
    by (auto simp: caretUpperBound_def increment_def below_bound_def below_stable stable_wf
        caret_prefix_def prerelease_offered_def key_orders split: if_splits)
  ultimately show ?thesis
    using single(1) optsInto_marked [OF assms(2), of 94 v] by auto
qed

lemma caret_range_meaning_witness:
  "satisfiesVersionRange (js ''1.9.0'') (94 # js ''1.2.3'')"
proof -
  have 1: "parseVersion (js ''1.9.0'') = Some (stableVersion 1 9 0)" by code_simp
  have 2: "parseVersion (js ''1.2.3'') = Some (stableVersion 1 2 3)" by code_simp
  have 3: "isValidVersionRange (94 # js ''1.2.3'')" by code_simp
  show ?thesis
    unfolding caret_range_meaning [OF 1 2 3]
    by (simp add: caret_prefix_def prerelease_offered_def key_orders)
qed

text \<open>
  A tilde range accepts exactly the versions that are not before its target, agree with it on the
  major and the minor number, and are no prerelease, unless the target itself is a prerelease of the
  same three numbers.
\<close>

theorem tilde_range_meaning:
  assumes "parseVersion s = Some v" and "parseVersion t = Some target"
    and "isValidVersionRange (126 # t)"
  shows "satisfiesVersionRange s (126 # t) \<longleftrightarrow>
    version_key target \<le> version_key v \<and> tilde_prefix target v \<and> prerelease_offered target v"
proof -
  have wf: "version_wf v" "version_wf target" using assms by (auto intro: parseVersion_wf)
  note parts = comparatorParts_marked [OF assms(2), of 126, simplified]
  note single = satisfiesVersionRange_single
    [OF separator_free_marked [OF assms(2), of 126, simplified] assms(3,1)]
  have "satisfiesComparator v (126 # t) \<longleftrightarrow>
      version_key target \<le> version_key v \<and> below_bound v (partialUpperBound
        \<lparr>rng_any = False, rng_precision = 3, rng_version = target, rng_wildcard = False\<rparr>)"
    by (simp add: satisfiesComparator_def parts compareVersion_key(2) [OF wf])
  moreover have "partialUpperBound
        \<lparr>rng_any = False, rng_precision = 3, rng_version = target, rng_wildcard = False\<rparr> \<noteq> None"
    using single(2) by (simp add: isSupportedComparator_def parts)
  then have "version_key target \<le> version_key v \<Longrightarrow> prerelease_offered target v \<Longrightarrow>
    below_bound v (partialUpperBound
        \<lparr>rng_any = False, rng_precision = 3, rng_version = target, rng_wildcard = False\<rparr>) \<longleftrightarrow>
    tilde_prefix target v"
    using wf
    by (auto simp: partialUpperBound_def increment_def below_bound_def below_stable stable_wf version_wf_def
        tilde_prefix_def prerelease_offered_def key_orders split: if_splits)
  ultimately show ?thesis
    using single(1) optsInto_marked [OF assms(2), of 126 v] by auto
qed

lemma tilde_range_meaning_witness:
  "\<not> satisfiesVersionRange (js ''1.3.0'') (126 # js ''1.2.3'')"
proof -
  have 1: "parseVersion (js ''1.3.0'') = Some (stableVersion 1 3 0)" by code_simp
  have 2: "parseVersion (js ''1.2.3'') = Some (stableVersion 1 2 3)" by code_simp
  have 3: "isValidVersionRange (126 # js ''1.2.3'')" by code_simp
  show ?thesis
    unfolding tilde_range_meaning [OF 1 2 3]
    by (simp add: tilde_prefix_def prerelease_offered_def key_orders)
qed

end
