(* ===== verification/Resolver_Correct.thy ===== *)
theory Resolver_Correct
  imports Resolver Graph_Order Version_Order
begin

text \<open>
  What a successful resolution promises: every requirement of every deployment has exactly one binding,
  to a ready and compatible deployment of the same application that the explicit or persisted selection
  names, or that is the only candidate; the start order lists every deployment once, providers before
  the consumers that require them; and a required capability is left unbound only with a loss decision.
\<close>

section \<open>Maps built from lists\<close>

lemma map_of_fold_update:
  "distinct (map k ds) \<Longrightarrow> map_of (fold (\<lambda>d. AList.update (k d) (f d)) ds m) x = Some v \<longleftrightarrow>
     (\<exists>d \<in> set ds. k d = x \<and> v = f d) \<or> (x \<notin> k ` set ds \<and> map_of m x = Some v)"
proof (induction ds arbitrary: m)
  case (Cons d ds)
  then have "distinct (map k ds)" "k d \<notin> k ` set ds" by auto
  then show ?case by (auto simp: Cons.IH map_lookups)
qed simp

lemma map_of_fold_distinct:
  "distinct (map k ds) \<Longrightarrow>
   map_of (fold (\<lambda>d. AList.update (k d) (f d)) ds []) x = Some v \<longleftrightarrow> (\<exists>d \<in> set ds. k d = x \<and> v = f d)"
  by (simp add: map_of_fold_update)

lemma map_ok_fold_update [simp]: "map_ok m \<Longrightarrow> map_ok (fold (\<lambda>d. AList.update (k d) (f d)) ds m)"
  by (induction ds arbitrary: m) auto

section \<open>What the checks of the input establish\<close>

lemma requirement_diagnostics_Nil:
  "requirement_diagnostics owner seen rs = [] \<Longrightarrow>
   distinct (map cr_name rs) \<and> set (map cr_name rs) \<inter> set seen = {} \<and>
   (\<forall>r \<in> set rs. isValidVersionRange (cr_protocolRange r))"
  by (induction owner seen rs rule: requirement_diagnostics.induct) (auto split: if_splits)

lemma deployment_diagnostics_Nil:
  "deployment_diagnostics seen ds = [] \<Longrightarrow>
   distinct (map deployment_key ds) \<and> set (map deployment_key ds) \<inter> set seen = {} \<and>
   (\<forall>d \<in> set ds. distinct (map cr_name (rd_requires d)))"
  by (induction seen ds rule: deployment_diagnostics.induct)
    (auto simp: Let_def deployment_key_def split: if_splits dest: requirement_diagnostics_Nil)

lemma previous_diagnostics_Nil:
  "previous_diagnostics seen bs = [] \<Longrightarrow>
   distinct (map (\<lambda>b. requirement_key (pb_consumer b) (pb_capability b)) bs) \<and>
   set (map (\<lambda>b. requirement_key (pb_consumer b) (pb_capability b)) bs) \<inter> set seen = {}"
  by (induction seen bs rule: previous_diagnostics.induct) (auto simp: Let_def split: if_splits)

text \<open>The maps of the environment against the lists they come from.\<close>

definition env_ok :: "resolution_env \<Rightarrow> previous_binding list \<Rightarrow> bool" where
  "env_ok env previous \<longleftrightarrow>
     distinct (map deployment_key (en_deployments env)) \<and>
     (\<forall>d \<in> set (en_deployments env). distinct (map cr_name (rd_requires d))) \<and>
     (\<forall>k d. map_of (en_byIdentity env) k = Some d \<longleftrightarrow> d \<in> set (en_deployments env) \<and> deployment_key d = k) \<and>
     (\<forall>k b. map_of (en_previous env) k = Some b \<longleftrightarrow>
        b \<in> set previous \<and> requirement_key (pb_consumer b) (pb_capability b) = k)"

lemma env_ok_input:
  assumes "inputDiagnostics (en_deployments (resolution_env_of input)) previous = []"
    and previous: "previous = (case ri_previousBindings input of None \<Rightarrow> [] | Some bs \<Rightarrow> bs)"
  shows "env_ok (resolution_env_of input) previous"
proof -
  let ?ds = "en_deployments (resolution_env_of input)"
  have "deployment_diagnostics [] (sort_by compareDeployment ?ds) = []"
    and prev: "previous_diagnostics [] previous = []"
    using assms(1) by (auto simp: inputDiagnostics_def)
  then have "distinct (map deployment_key (sort_by compareDeployment ?ds))"
    and reqs: "\<forall>d \<in> set ?ds. distinct (map cr_name (rd_requires d))"
    using deployment_diagnostics_Nil by fastforce+
  then have keys: "distinct (map deployment_key ?ds)"
    by (metis mset_eq_imp_distinct_iff mset_map mset_sort_by)
  have pkeys: "distinct (map (\<lambda>b. requirement_key (pb_consumer b) (pb_capability b)) previous)"
    using previous_diagnostics_Nil [OF prev] by simp
  have maps: "en_byIdentity (resolution_env_of input) = fold (\<lambda>d. AList.update (deployment_key d) d) ?ds []"
    "en_previous (resolution_env_of input) =
       fold (\<lambda>b. AList.update (requirement_key (pb_consumer b) (pb_capability b)) b) previous []"
    by (simp_all add: resolution_env_of_def Let_def previous)
  show ?thesis
    unfolding env_ok_def maps map_of_fold_distinct [OF keys] map_of_fold_distinct [OF pkeys]
    using keys reqs by auto
qed

section \<open>One requirement\<close>

definition explicit_selection :: "resolution_deployment \<Rightarrow> capability_requirement \<Rightarrow> deployment_identity option" where
  "explicit_selection consumer source = map_of (rd_bindings consumer) (cr_name source)"

definition persisted_selection ::
  "resolution_env \<Rightarrow> resolution_deployment \<Rightarrow> capability_requirement \<Rightarrow> deployment_identity option" where
  "persisted_selection env consumer source =
     map_option pb_provider (map_of (en_previous env) (requirement_key (rd_identity consumer) (cr_name source)))"

definition same_application :: "resolution_deployment \<Rightarrow> resolution_deployment \<Rightarrow> bool" where
  "same_application p c \<longleftrightarrow> di_applicationId (rd_identity p) = di_applicationId (rd_identity c)"

definition can_provide :: "resolution_deployment \<Rightarrow> normalized_requirement \<Rightarrow> bool" where
  "can_provide d r \<longleftrightarrow> (\<exists>p \<in> set (rd_provides d). pv_name p = nr_name r \<and>
     satisfiesVersionRange (pv_protocolVersion p) (nr_protocolRange r))"

text \<open>The specification of a binding.\<close>

definition provider_chosen ::
  "resolution_env \<Rightarrow> resolution_deployment \<Rightarrow> capability_requirement \<Rightarrow> resolution_deployment \<Rightarrow> bool" where
  "provider_chosen env consumer source d \<longleftrightarrow>
     (case (explicit_selection consumer source, persisted_selection env consumer source) of
        (Some i, _) \<Rightarrow> deployment_key d = identityKey i
      | (None, Some i) \<Rightarrow> deployment_key d = identityKey i
      | (None, None) \<Rightarrow>
          \<forall>d' \<in> set (en_deployments env). rd_ready d' \<and> same_application d' consumer \<and>
             can_provide d' (normalizeRequirement source) \<longrightarrow> deployment_key d' = deployment_key d)"

definition unbound_allowed ::
  "resolution_env \<Rightarrow> resolution_deployment \<Rightarrow> capability_requirement \<Rightarrow> bool" where
  "unbound_allowed env consumer source \<longleftrightarrow> explicit_selection consumer source = None \<and>
     (case persisted_selection env consumer source of
        Some i \<Rightarrow> \<exists>d \<in> set (en_deployments env). deployment_key d = identityKey i \<and> \<not> rd_ready d
      | None \<Rightarrow> nr_optional (normalizeRequirement source) \<and>
          (\<forall>d \<in> set (en_deployments env). same_application d consumer \<longrightarrow>
             can_provide d (normalizeRequirement source) \<longrightarrow> \<not> rd_ready d))"

definition binding_ok ::
  "resolution_env \<Rightarrow> resolution_deployment \<times> capability_requirement \<Rightarrow> resolved_binding \<Rightarrow> bool" where
  "binding_ok env = (\<lambda>(consumer, source) b.
     rb_consumer b = rd_identity consumer \<and> rb_requirement b = normalizeRequirement source \<and>
     (case rb_provider b of
        None \<Rightarrow> unbound_allowed env consumer source
      | Some (i, p) \<Rightarrow>
          \<exists>d \<in> set (en_deployments env). rd_identity d = i \<and> rd_ready d \<and> same_application d consumer \<and>
            p \<in> set (rd_provides d) \<and> pv_name p = cr_name source \<and>
            satisfiesVersionRange (pv_protocolVersion p) (cr_protocolRange source) \<and>
            provider_chosen env consumer source d))"

lemma compatibleProvisions_Nil: "compatibleProvisions d r = [] \<longleftrightarrow> \<not> can_provide d r"
  by (auto simp: compatibleProvisions_def can_provide_def filter_empty_conv)

lemma compatibleProvisions_mem:
  "p \<in> set (compatibleProvisions d r) \<Longrightarrow> p \<in> set (rd_provides d) \<and> pv_name p = nr_name r \<and>
     satisfiesVersionRange (pv_protocolVersion p) (nr_protocolRange r)"
  by (simp add: compatibleProvisions_def)

lemma normalize_simps [simp]:
  "nr_name (normalizeRequirement r) = cr_name r" "nr_protocolRange (normalizeRequirement r) = cr_protocolRange r"
  by (simp_all add: normalizeRequirement_def)

text \<open>How one pass of the loop changes the state: a diagnostic, or one binding and its edge.\<close>

definition step_ok ::
  "resolution_env \<Rightarrow> resolution_deployment \<Rightarrow> capability_requirement \<Rightarrow> resolution_state \<Rightarrow> resolution_state \<Rightarrow> bool" where
  "step_ok env consumer source st st' \<longleftrightarrow>
     st_diagnostics st' \<noteq> st_diagnostics st \<or>
     (\<exists>b. st_bindings st' = st_bindings st @ [b] \<and> binding_ok env (consumer, source) b \<and>
        (nr_optional (normalizeRequirement source) \<or>
         (\<forall>i p. rb_provider b = Some (i, p) \<longrightarrow>
            st_required st' = add_edge (identityKey i) (deployment_key consumer) (st_required st))))"

definition grows :: "resolution_env \<Rightarrow> resolution_deployment \<Rightarrow> resolution_state \<Rightarrow> resolution_state \<Rightarrow> bool" where
  "grows env consumer st st' \<longleftrightarrow>
     (\<exists>ds. st_diagnostics st' = st_diagnostics st @ ds) \<and>
     (st_required st' = st_required st \<or>
      (\<exists>d \<in> set (en_deployments env).
         st_required st' = add_edge (deployment_key d) (deployment_key consumer) (st_required st))) \<and>
     (st_optional st' = st_optional st \<or>
      (\<exists>d \<in> set (en_deployments env). st_optional st' = st_optional st @ [(deployment_key d, deployment_key consumer)]))"

lemma push_simps [simp]:
  "st_diagnostics (push_diagnostic code c r cs st) = st_diagnostics st @ [diagnostic code (Some (rd_identity c)) (Some (nr_name r)) cs]"
  "st_bindings (push_diagnostic code c r cs st) = st_bindings st"
  "st_required (push_diagnostic code c r cs st) = st_required st"
  "st_optional (push_diagnostic code c r cs st) = st_optional st"
  "st_diagnostics (push_binding c r p st) = st_diagnostics st"
  "st_bindings (push_binding c r p st) =
     st_bindings st @ [\<lparr>rb_consumer = rd_identity c, rb_requirement = r, rb_provider = p\<rparr>]"
  "st_required (push_binding c r p st) = st_required st"
  "st_optional (push_binding c r p st) = st_optional st"
  "st_diagnostics (require_edge d c st) = st_diagnostics st"
  "st_bindings (require_edge d c st) = st_bindings st"
  "st_required (require_edge d c st) = add_edge (deployment_key d) (deployment_key c) (st_required st)"
  "st_optional (require_edge d c st) = st_optional st"
  by (simp_all add: push_diagnostic_def push_binding_def require_edge_def)

lemma bind_provider_diagnostics [simp]:
  "st_diagnostics (bind_provider p c r st) = st_diagnostics st"
  by (simp add: bind_provider_def Let_def split: list.split)

lemma bind_provider_ready:
  assumes "compatibleProvisions p r = provided # rest" and "rd_ready p"
  shows "st_bindings (bind_provider p c r st) =
      st_bindings st @ [\<lparr>rb_consumer = rd_identity c, rb_requirement = r, rb_provider = Some (rd_identity p, provided)\<rparr>]"
    and "\<not> nr_optional r \<Longrightarrow> st_required (bind_provider p c r st) = add_edge (deployment_key p) (deployment_key c) (st_required st)"
  using assms by (simp_all add: bind_provider_def Let_def)

lemma bind_provider_waiting:
  assumes "can_provide p r" and "\<not> rd_ready p" and "nr_optional r"
  shows "bind_provider p c r st = push_binding c r None st"
  using assms compatibleProvisions_Nil [of p r] by (auto simp: bind_provider_def split: list.split)

lemma bind_provider_grows:
  "p \<in> set (en_deployments env) \<Longrightarrow> grows env c st (bind_provider p c r st)"
  by (auto simp: bind_provider_def grows_def Let_def split: list.split)

lemma grows_trans_diagnostic:
  "grows env c (push_diagnostic code c r cs st) st' \<Longrightarrow> grows env c st st'"
  by (auto simp: grows_def)

lemma grows_pushes:
  "grows env c st (push_diagnostic code c r cs st)" "grows env c st (push_binding c r p st)"
  "d \<in> set (en_deployments env) \<Longrightarrow> grows env c st (require_edge d c (push_binding c r p st))"
  by (auto simp: grows_def)

lemma resolve_selected_step:
  assumes env: "env_ok env previous"
    and which: "explicit \<longleftrightarrow> explicit_selection consumer source = Some selected"
      "\<not> explicit \<Longrightarrow> explicit_selection consumer source = None \<and> persisted_selection env consumer source = Some selected"
    and st': "st' = resolve_selected env consumer (normalizeRequirement source) explicit selected st"
  shows "step_ok env consumer source st st' \<and> grows env consumer st st'"
proof (cases "map_of (en_byIdentity env) (identityKey selected)")
  case None
  then show ?thesis by (simp add: st' resolve_selected_def step_ok_def grows_pushes)
next
  case (Some d)
  let ?r = "normalizeRequirement source"
  have d: "d \<in> set (en_deployments env)" "deployment_key d = identityKey selected"
    using env Some by (simp_all add: env_ok_def)
  consider
      (rejected) code cs where "st' = push_diagnostic code consumer ?r cs st"
    | (waiting) "\<not> rd_ready d" "\<not> explicit"
        "st' = (if nr_optional ?r then push_binding consumer ?r None st
                else require_edge d consumer (push_binding consumer ?r None st))"
    | (unready) code cs where "st' = bind_provider d consumer ?r (push_diagnostic code consumer ?r cs st)"
    | (ready) provided rest where "rd_ready d" "same_application d consumer"
        "compatibleProvisions d ?r = provided # rest" "st' = bind_provider d consumer ?r st"
    using Some st'
    by (cases "compatibleProvisions d ?r")
      (auto simp: resolve_selected_def same_application_def Let_def split: if_splits)
  then show ?thesis
  proof cases
    case rejected
    then show ?thesis by (simp add: step_ok_def grows_pushes)
  next
    case waiting
    then have "unbound_allowed env consumer source"
      using which(2) d by (auto simp: unbound_allowed_def)
    with waiting d show ?thesis by (auto simp: step_ok_def binding_ok_def grows_pushes)
  next
    case unready
    then show ?thesis
      using grows_trans_diagnostic [OF bind_provider_grows [OF d(1)]] by (simp add: step_ok_def)
  next
    case ready
    have "provider_chosen env consumer source d"
      using which d(2) by (cases explicit) (auto simp: provider_chosen_def)
    then have "binding_ok env (consumer, source) \<lparr>rb_consumer = rd_identity consumer, rb_requirement = ?r,
        rb_provider = Some (rd_identity d, provided)\<rparr>"
      using ready d compatibleProvisions_mem [of provided d ?r] by (auto simp: binding_ok_def)
    with ready show ?thesis
      using bind_provider_ready [OF ready(3,1)] bind_provider_grows [OF d(1)]
      by (auto simp: step_ok_def deployment_key_def)
  qed
qed

lemma filter_single: "filter P xs = [x] \<Longrightarrow> y \<in> set xs \<Longrightarrow> P y \<Longrightarrow> y = x"
proof -
  assume "filter P xs = [x]" "y \<in> set xs" "P y"
  then have "y \<in> set [x]" by (metis (mono_tags) filter_set mem_Collect_eq set_filter)
  then show "y = x" by simp
qed

lemma resolve_open_step:
  assumes none: "explicit_selection consumer source = None" "persisted_selection env consumer source = None"
    and st': "st' = resolve_open env consumer (normalizeRequirement source) st"
  shows "step_ok env consumer source st st' \<and> grows env consumer st st'"
proof -
  let ?r = "normalizeRequirement source"
  let ?P = "\<lambda>d. same_application d consumer \<and> can_provide d ?r"
  define compatible where "compatible = filter ?P (en_deployments env)"
  define ready where "ready = filter rd_ready compatible"
  have mem: "d \<in> set (en_deployments env) \<and> ?P d" if "d \<in> set compatible" for d
    using that by (simp add: compatible_def)
  have no_ready: "unbound_allowed env consumer source" if "ready = []" "nr_optional ?r"
    using that none by (auto simp: unbound_allowed_def ready_def compatible_def filter_empty_conv)
  have result: "st' = (let unavailable = (if nr_optional ?r then st
        else push_diagnostic ''CAPABILITY_REQUIRED_UNAVAILABLE'' consumer ?r (map rd_identity compatible) st)
      in case compatible of
           [] \<Rightarrow> if nr_optional ?r then push_binding consumer ?r None st
                 else push_diagnostic ''CAPABILITY_REQUIRED_MISSING'' consumer ?r [] st
         | first # others \<Rightarrow>
             (case ready of
                [provider] \<Rightarrow> bind_provider provider consumer ?r st
              | _ # _ \<Rightarrow> push_diagnostic ''CAPABILITY_AMBIGUOUS'' consumer ?r (map rd_identity ready) st
              | [] \<Rightarrow> if others = [] then bind_provider first consumer ?r unavailable
                      else push_binding consumer ?r None unavailable))"
    unfolding st' resolve_open_def ready_def compatible_def same_application_def
    by (simp add: compatibleProvisions_Nil Let_def)
  show ?thesis
  proof (cases compatible)
    case Nil
    with no_ready show ?thesis
      by (auto simp: result step_ok_def binding_ok_def grows_pushes ready_def)
  next
    case (Cons first others)
    have first: "first \<in> set (en_deployments env)" "can_provide first ?r" using mem Cons by auto
    show ?thesis
    proof (cases ready)
      case Nil
      then have "\<not> rd_ready first" using Cons by (auto simp: ready_def split: if_splits)
      then show ?thesis
        using Cons Nil no_ready first bind_provider_grows [OF first(1)]
          grows_trans_diagnostic [OF bind_provider_grows [OF first(1)]]
          grows_trans_diagnostic [OF grows_pushes(2)]
        by (cases "nr_optional ?r")
          (auto simp: result Let_def step_ok_def binding_ok_def bind_provider_waiting grows_pushes)
    next
      case (Cons d more)
      then have "d \<in> set ready" by simp
      then have d: "d \<in> set compatible" "rd_ready d" by (simp_all add: ready_def)
      show ?thesis
      proof (cases more)
        case Nil
        then have single: "ready = [d]" using Cons by simp
        obtain provided rest where p: "compatibleProvisions d ?r = provided # rest"
          using mem [OF d(1)] compatibleProvisions_Nil by (metis list.exhaust)
        have "provider_chosen env consumer source d"
          using none filter_single [OF single [unfolded ready_def]]
          by (auto simp: provider_chosen_def compatible_def)
        then have "binding_ok env (consumer, source) \<lparr>rb_consumer = rd_identity consumer, rb_requirement = ?r,
            rb_provider = Some (rd_identity d, provided)\<rparr>"
          using d mem [OF d(1)] p compatibleProvisions_mem [of provided d ?r] by (auto simp: binding_ok_def)
        moreover have "st' = bind_provider d consumer ?r st"
          using \<open>compatible = first # others\<close> single by (simp add: result)
        ultimately show ?thesis
          using bind_provider_ready [OF p d(2)] bind_provider_grows mem [OF d(1)]
          by (auto simp: step_ok_def deployment_key_def)
      next
        case (Cons e es)
        with \<open>ready = d # more\<close> \<open>compatible = first # others\<close> show ?thesis
          by (simp add: result step_ok_def grows_pushes)
      qed
    qed
  qed
qed

lemma resolve_requirement_step:
  assumes "env_ok env previous"
  shows "step_ok env consumer source st (resolve_requirement env consumer source st) \<and>
    grows env consumer st (resolve_requirement env consumer source st)"
proof (cases "explicit_selection consumer source")
  case (Some i)
  then have "resolve_requirement env consumer source st =
      resolve_selected env consumer (normalizeRequirement source) True i st"
    by (simp add: resolve_requirement_def explicit_selection_def ownBinding_def Let_def)
  from resolve_selected_step [OF assms _ _ this] Some show ?thesis by simp
next
  case explicit: None
  show ?thesis
  proof (cases "persisted_selection env consumer source")
    case (Some i)
    then have "resolve_requirement env consumer source st =
        resolve_selected env consumer (normalizeRequirement source) False i st"
      using explicit
      by (auto simp: resolve_requirement_def explicit_selection_def persisted_selection_def ownBinding_def Let_def)
    from resolve_selected_step [OF assms _ _ this] Some explicit show ?thesis by simp
  next
    case None
    then have "resolve_requirement env consumer source st =
        resolve_open env consumer (normalizeRequirement source) st"
      using explicit
      by (auto simp: resolve_requirement_def explicit_selection_def persisted_selection_def ownBinding_def Let_def
          split: option.splits)
    from resolve_open_step [OF explicit None this] show ?thesis .
  qed
qed

section \<open>The loop over all requirements\<close>

definition required_ok :: "resolution_env \<Rightarrow> (jstring, jstring list) jsmap \<Rightarrow> bool" where
  "required_ok env m \<longleftrightarrow> graph_ok (required_graph env m) \<and> fst ` set m = deployment_key ` set (en_deployments env)"

abbreviation required_edges :: "resolution_env \<Rightarrow> (jstring, jstring list) jsmap \<Rightarrow> (jstring \<times> jstring) set" where
  "required_edges env m \<equiv> edges (required_graph env m)"

lemma required_okI:
  assumes "distinct (map deployment_key (en_deployments env))" and "map_ok m"
    and names: "fst ` set m = deployment_key ` set (en_deployments env)"
    and entries: "\<And>n ts. (n, ts) \<in> set m \<Longrightarrow> distinct ts \<and> set ts \<subseteq> deployment_key ` set (en_deployments env)"
  shows "required_ok env m"
proof -
  have "n \<in> deployment_key ` set (en_deployments env)" if "(n, ts) \<in> set m" for n ts
    using imageI [OF that, of fst] names by simp
  then have "\<forall>(n, ts) \<in> set m. n \<in> deployment_key ` set (en_deployments env) \<and> distinct ts \<and>
      set ts \<subseteq> deployment_key ` set (en_deployments env)"
    using entries by blast
  with assms(1-3) show ?thesis by (simp add: required_ok_def graph_ok_def required_graph_def)
qed

lemma add_edge_ok:
  assumes "required_ok env m" and "a \<in> deployment_key ` set (en_deployments env)"
    and "b \<in> deployment_key ` set (en_deployments env)"
  shows "required_ok env (add_edge a b m)"
    and "required_edges env (add_edge a b m) = insert (a, b) (required_edges env m)"
proof -
  have m: "map_ok m" and names: "fst ` set m = deployment_key ` set (en_deployments env)"
    and distinct_nodes: "distinct (map deployment_key (en_deployments env))"
    and entries: "\<forall>(n, ts) \<in> set m. distinct ts \<and> set ts \<subseteq> deployment_key ` set (en_deployments env)"
    using assms(1) by (auto simp: required_ok_def graph_ok_def required_graph_def)
  obtain ts where ts: "map_of m a = Some ts"
    using assms(2) names by (metis map_of_eq_None_iff not_Some_eq)
  have ts_ok: "distinct ts" "set ts \<subseteq> deployment_key ` set (en_deployments env)"
    using bspec [OF entries map_of_SomeD [OF ts]] by simp_all
  define ts' where "ts' = (if b \<in> set ts then ts else ts @ [b])"
  have ts'_ok: "distinct ts'" "set ts' \<subseteq> deployment_key ` set (en_deployments env)"
    using ts_ok assms(3) unfolding ts'_def by (auto split: if_splits)
  have upd: "add_edge a b m = AList.update a ts' m" by (simp add: add_edge_def ts ts'_def)
  have "map_ok (AList.update a ts' m)" using m by simp
  moreover have "fst ` set (AList.update a ts' m) = fst ` set m"
    using ts by (auto simp: dom_map_of_conv_image_fst [symmetric] map_lookups split: if_splits)
  moreover have "distinct us \<and> set us \<subseteq> deployment_key ` set (en_deployments env)"
    if "(n, us) \<in> set (AList.update a ts' m)" for n us
  proof -
    have "us = ts' \<or> (\<exists>n. (n, us) \<in> set m)" using snd_set_update [of a ts' m] that by force
    then show ?thesis using entries ts'_ok by blast
  qed
  ultimately show "required_ok env (add_edge a b m)"
    using names distinct_nodes unfolding upd by (intro required_okI) simp_all
  show "required_edges env (add_edge a b m) = insert (a, b) (required_edges env m)"
    using ts by (auto simp: edges_def targets_def required_graph_def upd map_lookups ts'_def split: if_splits)
qed

lemma binding_edge_key:
  "binding_ok env (c, s) b \<Longrightarrow> rb_provider b = Some (i, p) \<Longrightarrow> identityKey i \<in> deployment_key ` set (en_deployments env)"
  by (auto simp: binding_ok_def deployment_key_def)

text \<open>Everything the loop keeps, for the requirements it has processed.\<close>

definition loop_result ::
  "resolution_env \<Rightarrow> (resolution_deployment \<times> capability_requirement) list \<Rightarrow> resolved_binding list \<Rightarrow>
   resolution_state \<Rightarrow> bool" where
  "loop_result env ps bs st \<longleftrightarrow> list_all2 (binding_ok env) ps bs \<and>
     (\<forall>b \<in> set bs. \<forall>i p. \<not> nr_optional (rb_requirement b) \<longrightarrow> rb_provider b = Some (i, p) \<longrightarrow>
        (identityKey i, identityKey (rb_consumer b)) \<in> required_edges env (st_required st))"

definition state_ok :: "resolution_env \<Rightarrow> resolution_state \<Rightarrow> bool" where
  "state_ok env st \<longleftrightarrow> required_ok env (st_required st) \<and>
     (\<forall>(a, b) \<in> set (st_optional st). a \<in> deployment_key ` set (en_deployments env) \<and>
        b \<in> deployment_key ` set (en_deployments env))"

lemma grows_state:
  assumes "grows env c st st'" and "state_ok env st" and "c \<in> set (en_deployments env)"
  shows "state_ok env st' \<and> required_edges env (st_required st) \<subseteq> required_edges env (st_required st')"
  using assms add_edge_ok [of env "st_required st" _ "deployment_key c"]
  by (auto simp: grows_def state_ok_def)

lemma resolve_fold:
  assumes "env_ok env previous" and "\<forall>(c, s) \<in> set ps. c \<in> set (en_deployments env)" and "state_ok env st"
  shows "let st' = fold (\<lambda>(c, s). resolve_requirement env c s) ps st in
    state_ok env st' \<and> required_edges env (st_required st) \<subseteq> required_edges env (st_required st') \<and>
    (\<exists>ds. st_diagnostics st' = st_diagnostics st @ ds) \<and>
    (st_diagnostics st' = st_diagnostics st \<longrightarrow>
      (\<exists>bs. st_bindings st' = st_bindings st @ bs \<and> loop_result env ps bs st'))"
  using assms(2,3)
proof (induction ps arbitrary: st)
  case Nil
  then show ?case by (simp add: loop_result_def)
next
  case (Cons p ps)
  obtain c src where p: "p = (c, src)" by (cases p)
  have c: "c \<in> set (en_deployments env)" using Cons.prems p by auto
  define st1 where "st1 = resolve_requirement env c src st"
  define st2 where "st2 = fold (\<lambda>(c, s). resolve_requirement env c s) ps st1"
  have step: "step_ok env c src st st1" and grow: "grows env c st st1"
    using resolve_requirement_step [OF assms(1)] by (simp_all add: st1_def)
  have st1: "state_ok env st1" "required_edges env (st_required st) \<subseteq> required_edges env (st_required st1)"
    using grows_state [OF grow Cons.prems(2) c] by auto
  have rest: "state_ok env st2" "required_edges env (st_required st1) \<subseteq> required_edges env (st_required st2)"
    "\<exists>ds. st_diagnostics st2 = st_diagnostics st1 @ ds"
    "st_diagnostics st2 = st_diagnostics st1 \<Longrightarrow>
      \<exists>bs. st_bindings st2 = st_bindings st1 @ bs \<and> loop_result env ps bs st2"
    using Cons.IH [OF _ st1(1)] Cons.prems(1) by (auto simp: st2_def Let_def)
  obtain ds1 where ds1: "st_diagnostics st1 = st_diagnostics st @ ds1" using grow by (auto simp: grows_def)
  obtain ds2 where ds2: "st_diagnostics st2 = st_diagnostics st1 @ ds2" using rest(3) by blast
  have "\<exists>bs. st_bindings st2 = st_bindings st @ bs \<and> loop_result env (p # ps) bs st2"
    if "st_diagnostics st2 = st_diagnostics st"
  proof -
    have same: "st_diagnostics st1 = st_diagnostics st" "st_diagnostics st2 = st_diagnostics st1"
      using that ds1 ds2 by auto
    obtain b where b: "st_bindings st1 = st_bindings st @ [b]" "binding_ok env (c, src) b"
      and edge: "nr_optional (normalizeRequirement src) \<or>
        (\<forall>i p. rb_provider b = Some (i, p) \<longrightarrow>
           st_required st1 = add_edge (identityKey i) (deployment_key c) (st_required st))"
      using step same(1) by (auto simp: step_ok_def)
    obtain bs where bs: "st_bindings st2 = st_bindings st1 @ bs" "loop_result env ps bs st2"
      using rest(4) [OF same(2)] by blast
    have "(identityKey i, identityKey (rb_consumer b)) \<in> required_edges env (st_required st2)"
      if "\<not> nr_optional (rb_requirement b)" "rb_provider b = Some (i, q)" for i q
    proof -
      have "rb_requirement b = normalizeRequirement src" "rb_consumer b = rd_identity c"
        using b(2) by (auto simp: binding_ok_def)
      moreover from this have "st_required st1 = add_edge (identityKey i) (deployment_key c) (st_required st)"
        using edge that by auto
      ultimately have "(identityKey i, identityKey (rb_consumer b)) \<in> required_edges env (st_required st1)"
        using add_edge_ok(2) [of env "st_required st"] Cons.prems(2) c binding_edge_key [OF b(2) that(2)]
        by (auto simp: state_ok_def deployment_key_def)
      with rest(2) show ?thesis by blast
    qed
    then have "loop_result env (p # ps) (b # bs) st2"
      using bs(2) b(2) by (auto simp: loop_result_def p)
    then show ?thesis using b(1) bs(1) by simp
  qed
  with st1 rest ds1 ds2 show ?case by (auto simp: p st1_def [symmetric] st2_def [symmetric] Let_def)
qed

lemma initial_state_ok:
  assumes "env_ok env previous"
  shows "state_ok env (initial_state env)"
proof -
  let ?ds = "en_deployments env"
  let ?m = "fold (\<lambda>d. AList.update (deployment_key d) ([] :: jstring list)) ?ds []"
  have distinct_nodes: "distinct (map deployment_key ?ds)" using assms by (simp add: env_ok_def)
  note lookup = map_of_fold_distinct [OF distinct_nodes, of "\<lambda>_. [] :: jstring list"]
  have ok: "map_ok ?m" by simp
  have "fst ` set ?m = dom (map_of ?m)" by (simp add: dom_map_of_conv_image_fst)
  also have "\<dots> = deployment_key ` set ?ds" using lookup by (auto simp: dom_def)
  finally have names: "fst ` set ?m = deployment_key ` set ?ds" .
  have empty: "ts = []" if "(n, ts) \<in> set ?m" for n ts
    using that ok lookup [of n ts] by (auto simp: map_ok_def)
  have "required_ok env ?m"
  proof (rule required_okI [OF distinct_nodes ok names])
    fix n ts
    assume "(n, ts) \<in> set ?m"
    then have "ts = []" by (rule empty)
    then show "distinct ts \<and> set ts \<subseteq> deployment_key ` set ?ds" by simp
  qed
  then show ?thesis by (simp add: initial_state_def state_ok_def)
qed

lemma add_optional_edge_ok:
  assumes "required_ok env m" and "a \<in> deployment_key ` set (en_deployments env)"
    and "b \<in> deployment_key ` set (en_deployments env)"
  shows "required_ok env (add_optional_edge env (a, b) m) \<and>
    required_edges env m \<subseteq> required_edges env (add_optional_edge env (a, b) m)"
  using add_edge_ok [OF assms] assms(1) by (auto simp: add_optional_edge_def)

lemma add_optional_edges_ok:
  "required_ok env m \<Longrightarrow> \<forall>(a, b) \<in> set es. a \<in> deployment_key ` set (en_deployments env) \<and>
     b \<in> deployment_key ` set (en_deployments env) \<Longrightarrow>
   required_ok env (fold (add_optional_edge env) es m) \<and>
   required_edges env m \<subseteq> required_edges env (fold (add_optional_edge env) es m)"
proof (induction es arbitrary: m)
  case (Cons e es)
  obtain a b where e: "e = (a, b)" by (cases e)
  have step: "required_ok env (add_optional_edge env e m)"
    "required_edges env m \<subseteq> required_edges env (add_optional_edge env e m)"
    using add_optional_edge_ok [of env m a b] Cons.prems by (auto simp: e)
  from Cons.IH [OF step(1)] Cons.prems(2) step(2) show ?case by auto
qed simp

section \<open>The order\<close>

definition starts_before :: "'a list \<Rightarrow> 'a \<Rightarrow> 'a \<Rightarrow> bool" where
  "starts_before xs a b \<longleftrightarrow> (\<exists>us vs ws. xs = us @ a # vs @ b # ws)"

lemma starts_before_map: "starts_before xs a b \<Longrightarrow> starts_before (map f xs) (f a) (f b)"
  by (auto simp: starts_before_def) metis

lemma forward_order_before:
  assumes "forward_order g order" and "(a, b) \<in> edges g" and "b \<in> set order"
  shows "starts_before order a b"
proof -
  obtain xs ys where split: "order = xs @ b # ys" using assms(3) by (meson split_list)
  then have "a \<in> set xs" using assms(1,2) unfolding forward_order_def by blast
  then obtain us vs where "xs = us @ a # vs" by (meson split_list)
  with split show ?thesis by (auto simp: starts_before_def)
qed

definition identity_at :: "resolution_env \<Rightarrow> jstring \<Rightarrow> deployment_identity" where
  "identity_at env k = rd_identity (the (map_of (en_byIdentity env) k))"

lemma identities_of_keys:
  assumes "env_ok env previous" and "set ks \<subseteq> deployment_key ` set (en_deployments env)"
  shows "identities_of env ks = map (identity_at env) ks"
  using assms(2)
proof (induction ks)
  case (Cons k ks)
  then obtain d where "map_of (en_byIdentity env) k = Some d" using assms(1) by (auto simp: env_ok_def)
  with Cons show ?case by (simp add: identities_of_def identity_at_def List.map_filter_def)
qed (simp add: identities_of_def List.map_filter_def)

lemma identity_at_deployment:
  "env_ok env previous \<Longrightarrow> d \<in> set (en_deployments env) \<Longrightarrow> identity_at env (deployment_key d) = rd_identity d"
  unfolding env_ok_def identity_at_def by (metis option.sel)

lemma order_identities:
  assumes env: "env_ok env previous" and "distinct ks" and "set ks = deployment_key ` set (en_deployments env)"
  shows "mset (identities_of env ks) = mset (map rd_identity (en_deployments env))"
proof -
  have "mset ks = mset (map deployment_key (en_deployments env))"
    using assms(3) set_eq_iff_mset_eq_distinct [OF assms(2), of "map deployment_key (en_deployments env)"] env
    by (auto simp: env_ok_def)
  then have "mset (map (identity_at env) ks) = mset (map (identity_at env) (map deployment_key (en_deployments env)))"
    by (metis mset_map)
  also have "map (identity_at env) (map deployment_key (en_deployments env)) = map rd_identity (en_deployments env)"
    using identity_at_deployment [OF env] by simp
  finally show ?thesis using identities_of_keys [OF env] assms(3) by simp
qed

section \<open>Successful resolutions\<close>

lemma resolveCapabilities_SomeD:
  assumes res: "rr_resolved (resolveCapabilities input) = Some (bindings, order)"
    and env: "env = resolution_env_of input"
    and previous: "previous = (case ri_previousBindings input of None \<Rightarrow> [] | Some bs \<Rightarrow> bs)"
  obtains st required keys where
    "env_ok env previous" "st = resolve_all env (initial_state env)" "st_diagnostics st = []"
    "cycle_diagnostics env (required_graph env (st_required st)) = []"
    "required = fold (add_optional_edge env) (sort_by compareEdges (st_optional st)) (st_required st)"
    "topologicalOrder compareText (required_graph env required) = Some keys"
    "bindings = st_bindings st" "order = identities_of env keys"
    "rr_providerLossActions (resolveCapabilities input) = providerLossDecisions previous (en_byIdentity env)"
proof -
  let ?st = "resolve_all env (initial_state env)"
  let ?required = "fold (add_optional_edge env) (sort_by compareEdges (st_optional ?st)) (st_required ?st)"
  have valid: "inputDiagnostics (en_deployments env) previous = []"
    using res by (auto simp: resolveCapabilities_def Let_def env previous split: if_splits)
  have clean: "st_diagnostics ?st @ cycle_diagnostics env (required_graph env (st_required ?st)) = []"
    using res valid by (auto simp: resolveCapabilities_def Let_def env previous split: if_splits)
  obtain keys where "topologicalOrder compareText (required_graph env ?required) = Some keys"
    "bindings = st_bindings ?st" "order = identities_of env keys"
    "rr_providerLossActions (resolveCapabilities input) = providerLossDecisions previous (en_byIdentity env)"
    using res valid clean
    by (auto simp: resolveCapabilities_def Let_def env previous split: option.splits)
  moreover have "env_ok env previous" using env_ok_input [OF valid [unfolded env] previous] env by simp
  ultimately show thesis using clean by (intro that [of ?st ?required keys]) auto
qed

lemma consumer_requirements_mem:
  "(c, s) \<in> set (concat (map consumer_requirements ds)) \<Longrightarrow> c \<in> set ds \<and> s \<in> set (rd_requires c)"
  by (auto simp: consumer_requirements_def)

lemma resolve_all_ok:
  assumes "env_ok env previous"
  shows "state_ok env (resolve_all env (initial_state env))"
    and "st_diagnostics (resolve_all env (initial_state env)) = [] \<Longrightarrow>
      loop_result env (concat (map consumer_requirements (en_deployments env)))
        (st_bindings (resolve_all env (initial_state env))) (resolve_all env (initial_state env))"
  using resolve_fold [OF assms _ initial_state_ok [OF assms],
      of "concat (map consumer_requirements (en_deployments env))"] consumer_requirements_mem
  by (fastforce simp: resolve_all_def initial_state_def Let_def)+

end
