(* ===== verification/Graph_Components.thy ===== *)
theory Graph_Components
  imports Graph_Order
begin

text \<open>
  The search for strongly connected components is correct: the components it returns are exactly the
  strongly connected components of the graph, each once. The invariant relates the index map, the stack
  and the nodes whose visit has not ended, the open nodes: every node on the stack reaches the later ones
  and an open node that is not later, every ended node has all its successors indexed, and the emitted
  components are strongly connected components closed under successors.
\<close>

section \<open>The state seen as sets\<close>

abbreviation reaches :: "'n digraph \<Rightarrow> ('n \<times> 'n) set" where
  "reaches g \<equiv> (edges g)\<^sup>*"

definition scc_of :: "'n digraph \<Rightarrow> 'n \<Rightarrow> 'n set" where
  "scc_of g x = {y. (x, y) \<in> reaches g \<and> (y, x) \<in> reaches g}"

abbreviation indexed :: "'n scc_state \<Rightarrow> 'n set" where
  "indexed s \<equiv> dom (map_of (indices s))"

abbreviation ix :: "'n scc_state \<Rightarrow> 'n \<Rightarrow> int" where
  "ix s x \<equiv> get_or_zero (indices s) x"

abbreviation low :: "'n scc_state \<Rightarrow> 'n \<Rightarrow> int" where
  "low s x \<equiv> get_or_zero (lowLinks s) x"

abbreviation on_stack :: "'n scc_state \<Rightarrow> 'n set" where
  "on_stack s \<equiv> set (scc_stack s)"

definition emitted :: "'n scc_state \<Rightarrow> 'n set" where
  "emitted s = \<Union> (set ` set (scc_components s))"

definition state_wf :: "'n scc_state \<Rightarrow> bool" where
  "state_wf s \<longleftrightarrow>
     (\<forall>x \<in> indexed s. ix s x < nextIndex s) \<and>
     set (onStack s) = on_stack s \<and>
     sorted_wrt (\<lambda>x y. ix s y < ix s x) (scc_stack s) \<and>
     indexed s = on_stack s \<union> emitted s \<and> on_stack s \<inter> emitted s = {} \<and>
     dom (map_of (lowLinks s)) = indexed s"

definition components_ok :: "'n digraph \<Rightarrow> 'n scc_state \<Rightarrow> bool" where
  "components_ok g s \<longleftrightarrow>
     (\<forall>c \<in> set (scc_components s). c \<noteq> [] \<and> (\<forall>x \<in> set c. set c = scc_of g x)) \<and>
     distinct (concat (scc_components s)) \<and>
     (\<forall>x \<in> emitted s. \<forall>y. (x, y) \<in> edges g \<longrightarrow> y \<in> emitted s)"

definition search_inv :: "'n digraph \<Rightarrow> 'n set \<Rightarrow> 'n scc_state \<Rightarrow> bool" where
  "search_inv g opened s \<longleftrightarrow> state_wf s \<and> components_ok g s \<and>
     opened \<subseteq> on_stack s \<and>
     (\<forall>x \<in> on_stack s. \<forall>y \<in> on_stack s. ix s x \<le> ix s y \<longrightarrow> (x, y) \<in> reaches g) \<and>
     (\<forall>y \<in> on_stack s. \<exists>h \<in> opened. ix s h \<le> ix s y \<and> (y, h) \<in> reaches g) \<and>
     (\<forall>x \<in> indexed s - opened. \<forall>y. (x, y) \<in> edges g \<longrightarrow> y \<in> indexed s)"

text \<open>What a visit leaves alone: the numbers of indexed nodes and the stack below.\<close>

definition extends :: "'n scc_state \<Rightarrow> 'n scc_state \<Rightarrow> bool" where
  "extends s s' \<longleftrightarrow> (\<exists>new. scc_stack s' = new @ scc_stack s) \<and> nextIndex s \<le> nextIndex s' \<and>
     indexed s \<subseteq> indexed s' \<and>
     (\<forall>x \<in> indexed s. ix s' x = ix s x \<and> low s' x = low s x) \<and>
     (\<forall>x \<in> indexed s' - indexed s. nextIndex s \<le> ix s' x)"

lemma emitted_closed:
  assumes "components_ok g s" and "x \<in> emitted s" and "(x, y) \<in> reaches g"
  shows "y \<in> emitted s"
  using assms(3,2,1) by (induction rule: rtrancl_induct) (auto simp: components_ok_def)

lemma extends_refl: "extends s s"
  by (simp add: extends_def)

lemma extends_trans:
  assumes "extends s t" and "extends t u"
  shows "extends s u"
proof -
  obtain a b where "scc_stack t = a @ scc_stack s" "scc_stack u = b @ scc_stack t"
    using assms by (auto simp: extends_def)
  then have "scc_stack u = (b @ a) @ scc_stack s" by simp
  moreover have "nextIndex s \<le> ix u x" if "x \<in> indexed u - indexed s" for x
  proof (cases "x \<in> indexed t")
    case True
    then have "ix u x = ix t x" "nextIndex s \<le> ix t x" using assms that unfolding extends_def by blast+
    then show ?thesis by simp
  next
    case False
    then have "nextIndex t \<le> ix u x" "nextIndex s \<le> nextIndex t" using assms that unfolding extends_def by blast+
    then show ?thesis by simp
  qed
  moreover have "ix u x = ix s x \<and> low u x = low s x" if "x \<in> indexed s" for x
  proof -
    have "x \<in> indexed t" "ix t x = ix s x" "low t x = low s x" using assms(1) that unfolding extends_def by blast+
    moreover from this have "ix u x = ix t x" "low u x = low t x" using assms(2) unfolding extends_def by blast+
    ultimately show ?thesis by simp
  qed
  moreover have "indexed s \<subseteq> indexed u" "nextIndex s \<le> nextIndex u"
    using assms unfolding extends_def by (blast, simp)
  ultimately show ?thesis unfolding extends_def by blast
qed

lemma index_unique:
  assumes "state_wf s" "x \<in> on_stack s" "y \<in> on_stack s" "ix s x = ix s y"
  shows "x = y"
proof -
  obtain i j where ij: "i < length (scc_stack s)" "j < length (scc_stack s)" "x = scc_stack s ! i" "y = scc_stack s ! j"
    using assms(2,3) by (metis in_set_conv_nth)
  have "ix s (scc_stack s ! q) < ix s (scc_stack s ! p)" if "p < q" "q < length (scc_stack s)" for p q
    using assms(1) that by (auto simp: state_wf_def sorted_wrt_iff_nth_less)
  then show ?thesis using ij assms(4) by (metis less_irrefl linorder_neqE_nat)
qed

section \<open>Entering a node\<close>

lemma enter_fields [simp]:
  "scc_stack (enter_node n s) = n # scc_stack s"
  "set (onStack (enter_node n s)) = insert n (set (onStack s))"
  "scc_components (enter_node n s) = scc_components s"
  "nextIndex (enter_node n s) = nextIndex s + 1"
  "emitted (enter_node n s) = emitted s"
  "ix (enter_node n s) x = (if x = n then nextIndex s else ix s x)"
  "low (enter_node n s) x = (if x = n then nextIndex s else low s x)"
  by (simp_all add: enter_node_def emitted_def)

lemma enter_lowLinks: "dom (map_of (lowLinks (enter_node n s))) = insert n (dom (map_of (lowLinks s)))"
  by (auto simp: enter_node_def map_lookups split: if_splits)

lemma enter_wf:
  assumes wf: "state_wf s" and fresh: "n \<notin> indexed s"
  shows "state_wf (enter_node n s)"
proof -
  have below: "ix s x < nextIndex s" if "x \<in> indexed s" for x using wf that by (simp add: state_wf_def)
  have stack: "on_stack s \<subseteq> indexed s" "n \<notin> on_stack s" "n \<notin> emitted s"
    using wf fresh by (auto simp: state_wf_def)
  have "sorted_wrt (\<lambda>x y. ix (enter_node n s) y < ix (enter_node n s) x) (scc_stack s)"
    using wf stack(2) unfolding state_wf_def by (auto intro: sorted_wrt_mono_rel [rotated])
  moreover have "\<forall>y \<in> on_stack s. ix s y < nextIndex s" using stack(1) below by blast
  moreover have "\<forall>x \<in> indexed (enter_node n s). ix (enter_node n s) x < nextIndex (enter_node n s)"
  proof
    fix x assume "x \<in> indexed (enter_node n s)"
    then have "x = n \<or> x \<in> indexed s" by (simp add: dom_indices_enter)
    then show "ix (enter_node n s) x < nextIndex (enter_node n s)" using less_imp_le [OF below, of x] by auto
  qed
  ultimately show ?thesis
    using wf stack unfolding state_wf_def dom_indices_enter enter_lowLinks by auto
qed

lemma enter_extends: "n \<notin> indexed s \<Longrightarrow> extends s (enter_node n s)"
  by (auto simp: extends_def dom_indices_enter)

section \<open>The contracts of a visit and of its loop\<close>

definition visit_post :: "'n digraph \<Rightarrow> 'n set \<Rightarrow> 'n \<Rightarrow> 'n scc_state \<Rightarrow> 'n scc_state \<Rightarrow> bool" where
  "visit_post g opened n s s' \<longleftrightarrow> search_inv g opened s' \<and> extends s s' \<and> n \<in> indexed s' \<and>
     (if n \<in> on_stack s' then \<exists>y \<in> on_stack s'. ix s' y = low s' n \<and> (n, y) \<in> reaches g
      else low s' n = ix s' n) \<and>
     (\<forall>x \<in> on_stack s' - on_stack s. \<forall>y \<in> on_stack s. (x, y) \<in> edges g \<longrightarrow> low s' n \<le> ix s' y)"

definition loop_inv ::
  "'n digraph \<Rightarrow> 'n set \<Rightarrow> 'n \<Rightarrow> 'n scc_state \<Rightarrow> 'n set \<Rightarrow> 'n scc_state \<Rightarrow> bool" where
  "loop_inv g opened n s0 processed s \<longleftrightarrow> search_inv g (insert n opened) s \<and> extends s0 s \<and>
     n \<in> indexed s \<and> n \<notin> indexed s0 \<and> ix s n = nextIndex s0 \<and>
     (\<exists>new. scc_stack s = new @ n # scc_stack s0) \<and> low s n \<le> ix s n \<and>
     (\<exists>y \<in> on_stack s. ix s y = low s n \<and> (n, y) \<in> reaches g) \<and>
     (\<forall>x \<in> on_stack s - on_stack s0 - {n}. \<forall>y \<in> on_stack s0. (x, y) \<in> edges g \<longrightarrow> low s n \<le> ix s y) \<and>
     (\<forall>y \<in> processed. y \<in> indexed s \<and> (y \<in> on_stack s0 \<longrightarrow> low s n \<le> ix s y))"

lemma lower_fields [simp]:
  "scc_stack (lower_link n v s) = scc_stack s" "onStack (lower_link n v s) = onStack s"
  "scc_components (lower_link n v s) = scc_components s" "nextIndex (lower_link n v s) = nextIndex s"
  "emitted (lower_link n v s) = emitted s"
  "low (lower_link n v s) x = (if x = n then min (low s n) v else low s x)"
  by (simp_all add: lower_link_def emitted_def)

lemma lower_inv:
  assumes "search_inv g opened s" and n: "n \<in> indexed s"
  shows "search_inv g opened (lower_link n v s)"
proof -
  have "dom (map_of (lowLinks (lower_link n v s))) = insert n (dom (map_of (lowLinks s)))"
    by (auto simp: lower_link_def map_lookups split: if_splits)
  also have "\<dots> = indexed s" using assms by (auto simp: search_inv_def state_wf_def)
  finally have "state_wf (lower_link n v s)"
    using assms(1) by (simp add: search_inv_def state_wf_def)
  then show ?thesis using assms(1) by (simp add: search_inv_def components_ok_def)
qed

lemma lower_extends: "n \<notin> indexed s0 \<Longrightarrow> extends s0 (lower_link n v s) = extends s0 s"
proof -
  assume "n \<notin> indexed s0"
  then have "(\<forall>x \<in> indexed s0. ix (lower_link n v s) x = ix s0 x \<and> low (lower_link n v s) x = low s0 x) \<longleftrightarrow>
      (\<forall>x \<in> indexed s0. ix s x = ix s0 x \<and> low s x = low s0 x)"
    by (intro ball_cong refl) auto
  then show ?thesis unfolding extends_def by simp
qed

lemma extends_stack: "extends s s' \<Longrightarrow> on_stack s \<subseteq> on_stack s'"
  by (auto simp: extends_def)

lemma search_inv_wf: "search_inv g opened s \<Longrightarrow> state_wf s"
  by (simp add: search_inv_def)

lemma stack_indexed: "state_wf s \<Longrightarrow> on_stack s \<subseteq> indexed s"
  by (auto simp: state_wf_def)

section \<open>The loop over the neighbours\<close>

lemma loop_start:
  assumes inv: "search_inv g opened s" and fresh: "n \<notin> indexed s"
    and reach: "\<forall>h \<in> opened. (h, n) \<in> reaches g"
  shows "loop_inv g opened n s {} (enter_node n s)"
proof -
  let ?s = "enter_node n s"
  have wf: "state_wf s" using inv by (rule search_inv_wf)
  have n: "n \<notin> on_stack s" using fresh stack_indexed [OF wf] by blast
  have below: "ix s x < nextIndex s" if "x \<in> on_stack s" for x
    using wf that stack_indexed [OF wf] by (auto simp: state_wf_def)
  have to_n: "(x, n) \<in> reaches g" if x: "x \<in> on_stack s" for x
  proof -
    obtain h where "h \<in> opened" "(x, h) \<in> reaches g" using inv x unfolding search_inv_def by blast
    then show ?thesis using reach by (meson rtrancl_trans)
  qed
  have "search_inv g (insert n opened) ?s"
    unfolding search_inv_def
  proof (intro conjI)
    show "state_wf ?s" by (rule enter_wf [OF wf fresh])
    show "components_ok g ?s" using inv by (simp add: search_inv_def components_ok_def)
    show "insert n opened \<subseteq> on_stack ?s" using inv by (auto simp: search_inv_def)
    show "\<forall>x \<in> on_stack ?s. \<forall>y \<in> on_stack ?s. ix ?s x \<le> ix ?s y \<longrightarrow> (x, y) \<in> reaches g"
    proof (intro ballI impI)
      fix x y assume x: "x \<in> on_stack ?s" and y: "y \<in> on_stack ?s" and le: "ix ?s x \<le> ix ?s y"
      show "(x, y) \<in> reaches g"
      proof (cases "y = n")
        case True
        with x to_n show ?thesis by auto
      next
        case False
        with y have "y \<in> on_stack s" by simp
        moreover from this below le False have "x \<noteq> n" by fastforce
        ultimately show ?thesis using inv x le False by (simp add: search_inv_def)
      qed
    qed
    show "\<forall>y \<in> on_stack ?s. \<exists>h \<in> insert n opened. ix ?s h \<le> ix ?s y \<and> (y, h) \<in> reaches g"
    proof
      fix y assume y: "y \<in> on_stack ?s"
      show "\<exists>h \<in> insert n opened. ix ?s h \<le> ix ?s y \<and> (y, h) \<in> reaches g"
      proof (cases "y = n")
        case False
        then obtain h where h: "h \<in> opened" "ix s h \<le> ix s y" "(y, h) \<in> reaches g"
          using inv y unfolding search_inv_def by auto
        have "h \<noteq> n" using h(1) inv n by (auto simp: search_inv_def)
        with h False show ?thesis by (intro bexI [of _ h]) auto
      qed auto
    qed
    show "\<forall>x \<in> indexed ?s - insert n opened. \<forall>y. (x, y) \<in> edges g \<longrightarrow> y \<in> indexed ?s"
      using inv by (auto simp: search_inv_def dom_indices_enter)
  qed
  then show ?thesis
    using enter_extends [OF fresh] fresh n by (auto simp: loop_inv_def dom_indices_enter)
qed

lemma loop_visited:
  assumes inv: "loop_inv g opened n s0 processed s" and edge: "(n, m) \<in> edges g"
    and indexed: "m \<in> indexed s" and on: "m \<in> on_stack s"
  shows "loop_inv g opened n s0 (insert m processed) (lower_link n (ix s m) s)"
proof -
  let ?s = "lower_link n (ix s m) s"
  have "\<exists>y \<in> on_stack s. ix s y = min (low s n) (ix s m) \<and> (n, y) \<in> reaches g"
  proof (cases "low s n \<le> ix s m")
    case True
    with inv show ?thesis by (auto simp: loop_inv_def min_def)
  next
    case False
    with on edge show ?thesis by (intro bexI [of _ m]) (auto simp: min_def)
  qed
  then show ?thesis
    using inv indexed unfolding loop_inv_def
    by (auto simp: lower_inv lower_extends min_le_iff_disj)
qed

lemma loop_invD:
  assumes "loop_inv g opened n s0 processed s"
  shows "search_inv g (insert n opened) s" "extends s0 s" "n \<in> indexed s" "n \<notin> indexed s0"
    "ix s n = nextIndex s0" "low s n \<le> ix s n" "y \<in> processed \<Longrightarrow> y \<in> indexed s"
  using assms by (simp_all add: loop_inv_def)

lemma extendsD:
  assumes "extends s s'"
  shows "nextIndex s \<le> nextIndex s'" "x \<in> indexed s \<Longrightarrow> x \<in> indexed s'"
    "x \<in> indexed s \<Longrightarrow> ix s' x = ix s x" "x \<in> indexed s \<Longrightarrow> low s' x = low s x"
  using assms unfolding extends_def by blast+

lemma search_invD:
  assumes "search_inv g opened s"
  shows "state_wf s" "components_ok g s" "opened \<subseteq> on_stack s"
    "x \<in> on_stack s \<Longrightarrow> y \<in> on_stack s \<Longrightarrow> ix s x \<le> ix s y \<Longrightarrow> (x, y) \<in> reaches g"
    "y \<in> on_stack s \<Longrightarrow> \<exists>h \<in> opened. ix s h \<le> ix s y \<and> (y, h) \<in> reaches g"
    "x \<in> indexed s \<Longrightarrow> x \<notin> opened \<Longrightarrow> (x, z) \<in> edges g \<Longrightarrow> z \<in> indexed s"
  using assms unfolding search_inv_def by blast+

lemma loop_skipped:
  assumes inv: "loop_inv g opened n s0 processed s" and "m \<in> indexed s" and "m \<notin> on_stack s"
  shows "loop_inv g opened n s0 (insert m processed) s"
  using assms extends_stack [of s0 s] unfolding loop_inv_def by auto

lemma loop_descended:
  assumes inv: "loop_inv g opened n s0 processed s" and edge: "(n, m) \<in> edges g"
    and fresh: "m \<notin> indexed s" and post: "visit_post g (insert n opened) m s s'"
  shows "loop_inv g opened n s0 (insert m processed) (lower_link n (low s' m) s')"
proof -
  let ?s = "lower_link n (low s' m) s'"
  have ext: "extends s s'" "search_inv g (insert n opened) s'" "m \<in> indexed s'"
    using post by (auto simp: visit_post_def)
  have n: "n \<in> indexed s" "n \<notin> indexed s0" "ix s n = nextIndex s0" using inv by (auto simp: loop_inv_def)
  have n': "n \<in> indexed s'" "ix s' n = ix s n" "low s' n = low s n"
    using ext(1) n(1) unfolding extends_def by blast+
  have ext0: "extends s0 s'" using inv ext(1) by (auto simp: loop_inv_def intro: extends_trans)
  have "extends s0 s" "state_wf s" using inv by (auto simp: loop_inv_def search_inv_def)
  then have stack: "on_stack s0 \<subseteq> on_stack s" "on_stack s \<subseteq> on_stack s'" "on_stack s \<subseteq> indexed s"
    using ext(1) by (simp_all only: extends_stack stack_indexed)
  have same: "ix s' y = ix s y" if "y \<in> on_stack s" for y
    using ext(1) that stack(3) unfolding extends_def by blast
  have later: "ix s n < ix s' m"
  proof -
    have "nextIndex s \<le> ix s' m" using ext(1,3) fresh unfolding extends_def by blast
    moreover have "ix s n < nextIndex s" using inv n(1) by (auto simp: loop_inv_def search_inv_def state_wf_def)
    ultimately show ?thesis by simp
  qed
  have low_n: "low s n \<le> ix s n" using inv by (simp add: loop_inv_def)
  have witness: "\<exists>y \<in> on_stack s'. ix s' y = min (low s n) (low s' m) \<and> (n, y) \<in> reaches g"
  proof (cases "low s n \<le> low s' m")
    case True
    obtain y where "y \<in> on_stack s" "ix s y = low s n" "(n, y) \<in> reaches g"
      using inv by (auto simp: loop_inv_def)
    with True same stack(2) show ?thesis by (intro bexI [of _ y]) auto
  next
    case False
    then have "m \<in> on_stack s'" using post later low_n by (auto simp: visit_post_def split: if_splits)
    then obtain y where "y \<in> on_stack s'" "ix s' y = low s' m" "(m, y) \<in> reaches g"
      using post by (auto simp: visit_post_def)
    moreover from this edge have "(n, y) \<in> reaches g" by (meson converse_rtrancl_into_rtrancl)
    ultimately show ?thesis using False by (intro bexI [of _ y]) auto
  qed
  have low_edges: "min (low s n) (low s' m) \<le> ix s' y"
    if "x \<in> on_stack s' - on_stack s0 - {n}" "y \<in> on_stack s0" "(x, y) \<in> edges g" for x y
  proof (cases "x \<in> on_stack s")
    case True
    then have "low s n \<le> ix s y" using inv that unfolding loop_inv_def by blast
    then show ?thesis using same [of y] that(2) stack(1) by auto
  next
    case False
    then have "low s' m \<le> ix s' y" using post that stack(1) unfolding visit_post_def by blast
    then show ?thesis by simp
  qed
  have handled: "y \<in> indexed s' \<and> (y \<in> on_stack s0 \<longrightarrow> min (low s n) (low s' m) \<le> ix s' y)"
    if "y \<in> insert m processed" for y
  proof (cases "y = m")
    case True
    then show ?thesis using ext(3) fresh stack by auto
  next
    case False
    then have "y \<in> indexed s" "y \<in> on_stack s0 \<longrightarrow> low s n \<le> ix s y" using inv that by (auto simp: loop_inv_def)
    moreover have "indexed s \<subseteq> indexed s'" using ext(1) by (simp add: extends_def)
    ultimately show ?thesis using same [of y] stack(1) by auto
  qed
  obtain new where "scc_stack s = new @ n # scc_stack s0" using inv unfolding loop_inv_def by blast
  moreover obtain new' where "scc_stack s' = new' @ scc_stack s" using ext(1) unfolding extends_def by blast
  ultimately have shape: "\<exists>new. scc_stack s' = new @ n # scc_stack s0" by (metis append.assoc)
  have fields: "low ?s n = min (low s n) (low s' m)" "indices ?s = indices s'" "scc_stack ?s = scc_stack s'"
    using n' by simp_all
  show ?thesis
    unfolding loop_inv_def fields
  proof (intro conjI)
    show "search_inv g (insert n opened) ?s" by (rule lower_inv [OF ext(2) n'(1)])
    show "extends s0 ?s" using ext0 n(2) by (simp add: lower_extends)
    show "min (low s n) (low s' m) \<le> ix s' n" using low_n n' by simp
    show "ix s' n = nextIndex s0" using n n' by simp
    show "\<forall>x \<in> on_stack s' - on_stack s0 - {n}. \<forall>y \<in> on_stack s0. (x, y) \<in> edges g \<longrightarrow>
        min (low s n) (low s' m) \<le> ix s' y"
      using low_edges by blast
    show "\<forall>y \<in> insert m processed. y \<in> indexed s' \<and> (y \<in> on_stack s0 \<longrightarrow> min (low s n) (low s' m) \<le> ix s' y)"
      using handled by blast
  qed (use witness shape n n' in simp_all)
qed

section \<open>Leaving a node\<close>

lemma pop_component_split:
  "n \<notin> set new \<Longrightarrow> pop_component n (new @ n # rest) = (new @ [n], rest)"
  by (induction new) auto

lemma leaving_edge:
  assumes "(x, y) \<in> E\<^sup>*" and "x \<in> A" and "y \<notin> A"
  shows "\<exists>u v. u \<in> A \<and> v \<notin> A \<and> (x, u) \<in> E\<^sup>* \<and> (u, v) \<in> E \<and> (v, y) \<in> E\<^sup>*"
  using assms
proof (induction rule: converse_rtrancl_induct)
  case (step x z)
  then show ?case by (cases "z \<in> A") (blast intro: converse_rtrancl_into_rtrancl)+
qed simp

lemma leave_node_cases:
  assumes "loop_inv g opened n s0 processed s"
  obtains (stays) "low s n < ix s n" "leave_node cmp n s = s"
    | (pops) new where "low s n = ix s n" "scc_stack s = new @ n # scc_stack s0" "n \<notin> set new"
        "scc_stack (leave_node cmp n s) = scc_stack s0"
        "set (onStack (leave_node cmp n s)) = set (onStack s) - set (new @ [n])"
        "scc_components (leave_node cmp n s) = scc_components s @ [sort_by cmp (new @ [n])]"
        "indices (leave_node cmp n s) = indices s" "lowLinks (leave_node cmp n s) = lowLinks s"
        "nextIndex (leave_node cmp n s) = nextIndex s"
proof -
  have wf: "state_wf s" and n: "n \<in> indexed s" using assms by (auto simp: loop_inv_def search_inv_def)
  then have "n \<in> dom (map_of (lowLinks s))" by (simp add: state_wf_def)
  with n have same: "map_of (lowLinks s) n = map_of (indices s) n \<longleftrightarrow> low s n = ix s n"
    by (auto simp: get_or_zero_def)
  obtain new where new: "scc_stack s = new @ n # scc_stack s0" using assms by (auto simp: loop_inv_def)
  have "n \<notin> set new" using wf new by (auto simp: state_wf_def sorted_wrt_append)
  note popped = pop_component_split [OF this, of "scc_stack s0"]
  show thesis
  proof (cases "low s n = ix s n")
    case True
    with same new \<open>n \<notin> set new\<close> popped show thesis
      by (intro pops [of new]) (auto simp: leave_node_def)
  next
    case False
    moreover have "low s n \<le> ix s n" using assms by (simp add: loop_inv_def)
    ultimately show thesis using same by (intro stays) (auto simp: leave_node_def)
  qed
qed

text \<open>Every edge out of the part of the stack above the base leads to an indexed node, and to the base only above the low link.\<close>

lemma loop_exit_edge:
  assumes inv: "loop_inv g opened n s0 processed s" and all: "\<forall>y. (n, y) \<in> edges g \<longrightarrow> y \<in> processed"
    and opened: "opened \<subseteq> on_stack s0"
    and u: "u \<in> on_stack s" "u \<notin> on_stack s0" and edge: "(u, v) \<in> edges g"
  shows "v \<in> indexed s" and "v \<in> on_stack s0 \<Longrightarrow> low s n \<le> ix s v"
proof -
  show "v \<in> indexed s"
  proof (cases "u = n")
    case True
    with inv all edge show ?thesis by (auto simp: loop_inv_def)
  next
    case False
    then have "u \<in> indexed s - insert n opened"
      using u opened inv stack_indexed [of s] by (auto simp: loop_inv_def search_inv_def)
    with inv edge show ?thesis by (auto simp: loop_inv_def search_inv_def)
  qed
  assume v: "v \<in> on_stack s0"
  show "low s n \<le> ix s v"
  proof (cases "u = n")
    case True
    with inv all edge v show ?thesis by (auto simp: loop_inv_def)
  next
    case False
    with inv u edge v show ?thesis unfolding loop_inv_def by blast
  qed
qed

lemma base_below:
  assumes "loop_inv g opened n s0 processed s" and "state_wf s0" and "y \<in> on_stack s0"
  shows "ix s y < ix s n"
proof -
  have "y \<in> indexed s0" using assms(2,3) stack_indexed by blast
  then have "ix s y = ix s0 y" "ix s0 y < nextIndex s0"
    using extendsD(3) [OF loop_invD(2) [OF assms(1)]] assms(2) unfolding state_wf_def by blast+
  then show ?thesis using loop_invD(5) [OF assms(1)] by simp
qed

lemma above_base:
  assumes "loop_inv g opened n s0 processed s" and "state_wf s0" and "y \<in> on_stack s" and "ix s y < ix s n"
  shows "y \<in> on_stack s0"
proof (rule ccontr)
  assume "y \<notin> on_stack s0"
  obtain new where new: "scc_stack s = new @ n # scc_stack s0" using assms(1) by (auto simp: loop_inv_def)
  then have "y \<in> set new \<or> y = n" using assms(3) \<open>y \<notin> on_stack s0\<close> by auto
  moreover have "ix s n < ix s z" if "z \<in> set new" for z
    using assms(1) new that by (auto simp: loop_inv_def search_inv_def state_wf_def sorted_wrt_append)
  ultimately show False using assms(4) by force
qed

lemma leave_stays:
  assumes inv: "loop_inv g opened n s0 processed s" and all: "\<forall>y. (n, y) \<in> edges g \<longrightarrow> y \<in> processed"
    and base: "search_inv g opened s0" and less: "low s n < ix s n"
  shows "visit_post g opened n s0 s"
proof -
  have wf0: "state_wf s0" and sub: "opened \<subseteq> on_stack s0" using base by (auto simp: search_inv_def)
  have inv': "search_inv g (insert n opened) s" and ext: "extends s0 s" and n: "n \<in> indexed s" "n \<in> on_stack s"
    using inv by (auto simp: loop_inv_def)
  obtain y0 where y0: "y0 \<in> on_stack s" "ix s y0 = low s n" "(n, y0) \<in> reaches g"
    using inv by (auto simp: loop_inv_def)
  obtain h0 where h0: "h0 \<in> insert n opened" "ix s h0 \<le> ix s y0" "(y0, h0) \<in> reaches g"
    using inv' y0(1) unfolding search_inv_def by blast
  have "h0 \<noteq> n" using h0(2) y0(2) less by auto
  then have h0': "h0 \<in> opened" using h0(1) by simp
  have "\<exists>h \<in> opened. ix s h \<le> ix s y \<and> (y, h) \<in> reaches g" if y: "y \<in> on_stack s" for y
  proof -
    obtain h where h: "h \<in> insert n opened" "ix s h \<le> ix s y" "(y, h) \<in> reaches g"
      using inv' y unfolding search_inv_def by blast
    show ?thesis
    proof (cases "h \<in> opened")
      case False
      then have "h = n" using h(1) by simp
      then have "(y, h0) \<in> reaches g" using h(3) y0(3) h0(3) by (meson rtrancl_trans)
      moreover have "ix s h0 \<le> ix s y" using h(2) h0(2) y0(2) less \<open>h = n\<close> by simp
      ultimately show ?thesis using h0' by blast
    qed (use h in blast)
  qed
  moreover have "y \<in> indexed s" if "x \<in> indexed s - opened" "(x, y) \<in> edges g" for x y
    using search_invD(6) [OF inv', of x y] loop_invD(7) [OF inv, of y] all that by (cases "x = n") blast+
  moreover have "opened \<subseteq> on_stack s" using sub extends_stack [OF ext] by blast
  ultimately have "search_inv g opened s"
    using search_invD(1,2,4) [OF inv'] unfolding search_inv_def by blast
  moreover have "low s n \<le> ix s v" if "u \<in> on_stack s - on_stack s0" "v \<in> on_stack s0" "(u, v) \<in> edges g" for u v
    using loop_exit_edge(2) [OF inv all sub _ _ that(3)] that by simp
  ultimately show ?thesis using ext n y0 by (auto simp: visit_post_def)
qed

lemma scc_of_mem: "x \<in> scc_of g n \<Longrightarrow> scc_of g x = scc_of g n"
  by (auto simp: scc_of_def intro: rtrancl_trans)

lemma strict_sorted_distinct: "sorted_wrt (\<lambda>x y. f y < (f x :: int)) xs \<Longrightarrow> distinct xs"
  by (induction xs) auto

lemma popped_component:
  assumes inv: "loop_inv g opened n s0 processed s" and all: "\<forall>y. (n, y) \<in> edges g \<longrightarrow> y \<in> processed"
    and base: "search_inv g opened s0" and top: "low s n = ix s n"
    and new: "scc_stack s = new @ n # scc_stack s0"
  defines "c \<equiv> set (new @ [n])"
  shows "u \<in> c \<Longrightarrow> (u, v) \<in> edges g \<Longrightarrow> v \<in> c \<or> v \<in> emitted s" and "c = scc_of g n"
    and "c \<inter> on_stack s0 = {}" and "c \<inter> emitted s = {}" and "distinct (new @ [n])"
proof -
  have inv': "search_inv g (insert n opened) s" and wf: "state_wf s"
    using loop_invD(1) [OF inv] search_invD(1) by blast+
  have wf0: "state_wf s0" and sub: "opened \<subseteq> on_stack s0" using search_invD(1,3) [OF base] by auto
  have "sorted_wrt (\<lambda>x y. ix s y < ix s x) (scc_stack s)" using wf by (simp add: state_wf_def)
  then have "distinct (scc_stack s)" by (rule strict_sorted_distinct)
  then show distinct_c: "distinct (new @ [n])" and off_base: "c \<inter> on_stack s0 = {}"
    using new by (auto simp: c_def)
  show off_emitted: "c \<inter> emitted s = {}" using wf new by (auto simp: c_def state_wf_def)
  have c_stack: "c \<subseteq> on_stack s" using new by (auto simp: c_def)
  have exits: "v \<in> c \<or> v \<in> emitted s" if "u \<in> c" "(u, v) \<in> edges g" for u v
  proof (rule ccontr)
    assume out: "\<not> (v \<in> c \<or> v \<in> emitted s)"
    have u: "u \<in> on_stack s" "u \<notin> on_stack s0" using that(1) c_stack off_base by auto
    have "v \<in> indexed s" by (rule loop_exit_edge(1) [OF inv all sub u that(2)])
    then have "v \<in> on_stack s0" using out wf new by (auto simp: state_wf_def c_def)
    then have "low s n \<le> ix s v" "ix s v < ix s n"
      using loop_exit_edge(2) [OF inv all sub u that(2)] base_below [OF inv wf0] by auto
    with top show False by simp
  qed
  then show "u \<in> c \<Longrightarrow> (u, v) \<in> edges g \<Longrightarrow> v \<in> c \<or> v \<in> emitted s" by blast
  have stays: "y \<in> c \<or> y \<in> emitted s" if path: "(x, y) \<in> reaches g" and x: "x \<in> c" for x y
  proof (rule ccontr)
    assume "\<not> (y \<in> c \<or> y \<in> emitted s)"
    then obtain u v where "u \<in> c" "v \<notin> c" "(u, v) \<in> edges g" "(v, y) \<in> reaches g"
      using leaving_edge [OF path x] by blast
    moreover from this exits have "v \<in> emitted s" by blast
    ultimately have "y \<in> emitted s" using emitted_closed [OF search_invD(2) [OF inv']] by blast
    with \<open>\<not> (y \<in> c \<or> y \<in> emitted s)\<close> show False by simp
  qed
  have n: "n \<in> c" "n \<notin> emitted s" using off_emitted by (auto simp: c_def)
  show "c = scc_of g n"
  proof
    show "c \<subseteq> scc_of g n"
    proof
      fix x assume x: "x \<in> c"
      then have "x = n \<or> ix s n < ix s x" using wf new by (auto simp: c_def state_wf_def sorted_wrt_append)
      then have "(n, x) \<in> reaches g"
        using search_invD(4) [OF inv' subsetD [OF c_stack n(1)] subsetD [OF c_stack x]] by auto
      moreover obtain h where h: "h \<in> insert n opened" "(x, h) \<in> reaches g"
        using search_invD(5) [OF inv', of x] x c_stack by blast
      have "h = n"
      proof (rule ccontr)
        assume "h \<noteq> n"
        then have h0: "h \<in> on_stack s0" using h(1) sub by blast
        then have "h \<notin> c" "h \<in> on_stack s" using off_base new by auto
        then have "h \<in> emitted s" using stays [OF h(2) x] by blast
        with \<open>h \<in> on_stack s\<close> wf show False by (auto simp: state_wf_def)
      qed
      with h(2) have "(x, n) \<in> reaches g" by simp
      ultimately show "x \<in> scc_of g n" by (simp add: scc_of_def)
    qed
    show "scc_of g n \<subseteq> c"
    proof
      fix z assume "z \<in> scc_of g n"
      then have z: "(n, z) \<in> reaches g" "(z, n) \<in> reaches g" by (auto simp: scc_of_def)
      have "z \<notin> emitted s" using emitted_closed [OF search_invD(2) [OF inv'] _ z(2)] n by blast
      with stays [OF z(1) n(1)] show "z \<in> c" by simp
    qed
  qed
qed

lemma leave_pops:
  assumes inv: "loop_inv g opened n s0 processed s" and all: "\<forall>y. (n, y) \<in> edges g \<longrightarrow> y \<in> processed"
    and base: "search_inv g opened s0" and top: "low s n = ix s n"
    and new: "scc_stack s = new @ n # scc_stack s0"
    and fields: "scc_stack s' = scc_stack s0" "set (onStack s') = set (onStack s) - set (new @ [n])"
      "scc_components s' = scc_components s @ [sort_by cmp (new @ [n])]"
      "indices s' = indices s" "lowLinks s' = lowLinks s" "nextIndex s' = nextIndex s"
  shows "visit_post g opened n s0 s'"
proof -
  define c where "c = set (new @ [n])"
  note popped = popped_component [OF inv all base top new, folded c_def]
  have inv': "search_inv g (insert n opened) s" and wf: "state_wf s" and ok: "components_ok g s"
    using loop_invD(1) [OF inv] search_invD(1,2) by blast+
  have wf0: "state_wf s0" and sub: "opened \<subseteq> on_stack s0" using search_invD(1,3) [OF base] by auto
  have stack: "on_stack s = c \<union> on_stack s0" using new by (auto simp: c_def)
  have emitted: "emitted s' = emitted s \<union> c" by (auto simp: emitted_def fields c_def)
  have "sorted_wrt (\<lambda>x y. ix s y < ix s x) (scc_stack s0)"
    using wf new by (simp add: state_wf_def sorted_wrt_append)
  then have wf': "state_wf s'"
    using wf stack popped(3,4) unfolding state_wf_def emitted fields c_def [symmetric] by auto
  have "distinct (concat (scc_components s'))"
    using ok popped(4,5) by (auto simp: components_ok_def fields emitted_def c_def)
  moreover have "\<forall>c' \<in> set (scc_components s'). c' \<noteq> [] \<and> (\<forall>x \<in> set c'. set c' = scc_of g x)"
  proof
    fix c' assume "c' \<in> set (scc_components s')"
    then consider "c' \<in> set (scc_components s)" | "c' = sort_by cmp (new @ [n])" by (auto simp: fields)
    then show "c' \<noteq> [] \<and> (\<forall>x \<in> set c'. set c' = scc_of g x)"
    proof cases
      case 1
      with ok show ?thesis by (simp add: components_ok_def)
    next
      case 2
      then have "c' \<noteq> []" "set c' = c" by (simp_all add: c_def)
      moreover have "scc_of g x = c" if "x \<in> c" for x using scc_of_mem [of x g n] that popped(2) by simp
      ultimately show ?thesis by simp
    qed
  qed
  moreover have "\<forall>x \<in> emitted s'. \<forall>y. (x, y) \<in> edges g \<longrightarrow> y \<in> emitted s'"
    using ok popped(1) unfolding components_ok_def emitted by blast
  ultimately have ok': "components_ok g s'" by (simp add: components_ok_def)
  have "\<exists>h \<in> opened. ix s h \<le> ix s y \<and> (y, h) \<in> reaches g" if y: "y \<in> on_stack s0" for y
  proof -
    obtain h where h: "h \<in> insert n opened" "ix s h \<le> ix s y" "(y, h) \<in> reaches g"
      using search_invD(5) [OF inv', of y] y stack by blast
    moreover have "ix s y < ix s n" by (rule base_below [OF inv wf0 y])
    ultimately have "h \<noteq> n" by auto
    with h show ?thesis by blast
  qed
  moreover have "y \<in> indexed s" if "x \<in> indexed s - opened" "(x, y) \<in> edges g" for x y
    using search_invD(6) [OF inv', of x y] loop_invD(7) [OF inv, of y] all that by (cases "x = n") blast+
  ultimately have "search_inv g opened s'"
    using wf' ok' sub search_invD(4) [OF inv'] stack unfolding search_inv_def fields by blast
  moreover have "extends s0 s'"
    using loop_invD(2) [OF inv] unfolding extends_def fields by simp
  moreover have "n \<in> indexed s'" "n \<notin> on_stack s'" "low s' n = ix s' n"
    using loop_invD(3) [OF inv] top popped(3) by (auto simp: fields c_def)
  ultimately show ?thesis by (simp add: visit_post_def fields)
qed

section \<open>The whole search\<close>

lemma visit_correct:
  "visit depth cmp g n s = Some s' \<Longrightarrow> search_inv g opened s \<Longrightarrow> n \<notin> indexed s \<Longrightarrow>
   \<forall>h \<in> opened. (h, n) \<in> reaches g \<Longrightarrow> visit_post g opened n s s'"
  and visit_neighbours_correct:
  "visit_neighbours depth cmp g n ms s = Some s' \<Longrightarrow> loop_inv g opened n s0 processed s \<Longrightarrow>
   search_inv g opened s0 \<Longrightarrow> \<forall>h \<in> opened. (h, n) \<in> reaches g \<Longrightarrow> set ms \<subseteq> set (targets g n) \<Longrightarrow>
   loop_inv g opened n s0 (processed \<union> set ms) s'"
proof (induction depth cmp g n s and depth cmp g n ms s arbitrary: s' opened and s' opened s0 processed
    rule: visit_visit_neighbours.induct)
  case (2 depth cmp g node s)
  obtain t where t: "visit_neighbours depth cmp g node (sort_by cmp (targets g node)) (enter_node node s) = Some t"
    and s': "s' = leave_node cmp node t" using 2(2) by auto
  have loop: "loop_inv g opened node s (set (targets g node)) t"
    using 2(1) [OF t loop_start [OF 2(3,4,5)] 2(3,5)] by simp
  have all: "\<forall>y. (node, y) \<in> edges g \<longrightarrow> y \<in> set (targets g node)" by (simp add: edges_def)
  from loop show ?case
  proof (cases rule: leave_node_cases [of _ _ _ _ _ _ cmp])
    case stays
    then show ?thesis using leave_stays [OF loop all 2(3)] s' by simp
  next
    case (pops new)
    show ?thesis unfolding s' by (rule leave_pops [OF loop all 2(3) pops(1,2) pops(4-9)])
  qed
next
  case (4 depth cmp g node m ms s)
  have edge: "(node, m) \<in> edges g" using 4(9) by (simp add: edges_def)
  show ?case
  proof (cases "map_of (indices s) m = None")
    case True
    then have fresh: "m \<notin> indexed s" by (simp add: domIff)
    obtain t where t: "visit depth cmp g m s = Some t"
      and rest: "visit_neighbours depth cmp g node ms (lower_link node (low t m) t) = Some s'"
      using 4(5) True by (auto split: option.splits)
    have "\<forall>h \<in> insert node opened. (h, m) \<in> reaches g"
      using 4(8) edge by (auto intro: rtrancl_into_rtrancl)
    then have "visit_post g (insert node opened) m s t"
      by (intro 4(1) [OF True t loop_invD(1) [OF 4(6)] fresh])
    from 4(2) [OF True t rest loop_descended [OF 4(6) edge fresh this] 4(7,8)] 4(9) show ?thesis by simp
  next
    case False
    then have indexed: "m \<in> indexed s" by (simp add: domIff)
    have wf: "state_wf s" using loop_invD(1) [OF 4(6)] by (rule search_invD)
    show ?thesis
    proof (cases "m \<in> set (onStack s)")
      case True
      then have on: "m \<in> on_stack s" using wf by (simp add: state_wf_def)
      have "visit_neighbours depth cmp g node ms (lower_link node (ix s m) s) = Some s'"
        using 4(5) False True by (simp del: not_None_eq)
      from 4(3) [OF False True this loop_visited [OF 4(6) edge indexed on] 4(7,8)] 4(9) show ?thesis by simp
    next
      case notOn: False
      then have off: "m \<notin> on_stack s" using wf by (simp add: state_wf_def)
      have "visit_neighbours depth cmp g node ms s = Some s'"
        using 4(5) False notOn by (simp del: not_None_eq)
      from 4(4) [OF False notOn this loop_skipped [OF 4(6) indexed off] 4(7,8)] 4(9) show ?thesis by simp
    qed
  qed
qed auto

lemma search_inv_empty: "search_inv g {} s \<Longrightarrow> on_stack s = {}"
  using search_invD(5) by fastforce

lemma visit_roots_correct:
  "visit_roots depth cmp g ns s = Some s' \<Longrightarrow> search_inv g {} s \<Longrightarrow>
   search_inv g {} s' \<and> indexed s \<union> set ns \<subseteq> indexed s'"
proof (induction ns arbitrary: s)
  case (Cons n ns)
  show ?case
  proof (cases "map_of (indices s) n = None")
    case True
    then obtain t where t: "visit depth cmp g n s = Some t" "visit_roots depth cmp g ns t = Some s'"
      using Cons.prems(1) by (auto split: option.splits)
    then have "visit_post g {} n s t" using True Cons.prems(2) by (intro visit_correct) (auto simp: domIff)
    then have "search_inv g {} t" "indexed s \<subseteq> indexed t" "n \<in> indexed t"
      by (auto simp: visit_post_def extends_def)
    with Cons.IH [OF t(2)] show ?thesis by auto
  next
    case False
    with Cons show ?thesis by (fastforce simp: domIff simp del: not_None_eq)
  qed
qed simp

lemma search_inv_start: "search_inv g {} scc_start"
  by (simp add: search_inv_def state_wf_def components_ok_def scc_start_def emitted_def)

lemma components_of_state:
  assumes "stronglyConnectedComponents cmp g = Some cs"
  obtains s where "search_inv g {} s" "set (nodes g) \<subseteq> emitted s" "mset cs = mset (scc_components s)"
proof -
  obtain s where s: "visit_roots (Suc (length (mentioned g))) cmp g (sort_by cmp (nodes g)) scc_start = Some s"
    and cs: "cs = sort_by (\<lambda>l r. cmp (hd l) (hd r)) (scc_components s)"
    using assms by (auto simp: stronglyConnectedComponents_def)
  note inv = visit_roots_correct [OF s search_inv_start]
  then have "state_wf s" "on_stack s = {}" using search_inv_empty search_invD(1) by blast+
  then have "indexed s = emitted s" by (simp add: state_wf_def)
  with inv cs show thesis by (intro that [of s]) auto
qed

lemma distinct_concat_mset: "mset xs = mset ys \<Longrightarrow> distinct (concat xs) \<longleftrightarrow> distinct (concat ys)"
proof -
  assume "mset xs = mset ys"
  then have "sum_list (map mset xs) = sum_list (map mset ys)"
    by (metis mset_map sum_mset_sum_list)
  then have "mset (concat xs) = mset (concat ys)" by (simp add: mset_concat)
  then show ?thesis by (rule mset_eq_imp_distinct_iff)
qed

lemma components_spec:
  assumes "stronglyConnectedComponents cmp g = Some cs"
  shows "set (nodes g) \<subseteq> set (concat cs)" and "distinct (concat cs)"
    and "c \<in> set cs \<Longrightarrow> c \<noteq> []" and "c \<in> set cs \<Longrightarrow> x \<in> set c \<Longrightarrow> set c = scc_of g x"
proof -
  obtain s where s: "search_inv g {} s" "set (nodes g) \<subseteq> emitted s" "mset cs = mset (scc_components s)"
    using components_of_state [OF assms] .
  have ok: "components_ok g s" by (rule search_invD(2) [OF s(1)])
  have same: "set cs = set (scc_components s)" using s(3) by (rule mset_eq_setD)
  show "set (nodes g) \<subseteq> set (concat cs)" using s(2) same by (simp add: emitted_def)
  show "distinct (concat cs)" using ok distinct_concat_mset [OF s(3)] by (simp add: components_ok_def)
  show "c \<in> set cs \<Longrightarrow> c \<noteq> []" and "c \<in> set cs \<Longrightarrow> x \<in> set c \<Longrightarrow> set c = scc_of g x"
    using ok same by (auto simp: components_ok_def)
qed

text \<open>
  C28. The search returns, for every graph, and what it returns are the strongly connected components of
  the nodes: no node occurs twice, every node occurs, and a component with a node x holds exactly the
  nodes that x reaches and that reach x.
\<close>

theorem stronglyConnectedComponents_correct:
  "\<exists>cs. stronglyConnectedComponents cmp g = Some cs \<and> distinct (concat cs) \<and>
     set (nodes g) \<subseteq> set (concat cs) \<and> (\<forall>c \<in> set cs. c \<noteq> [] \<and> (\<forall>x \<in> set c. set c = scc_of g x))"
proof -
  obtain cs where cs: "stronglyConnectedComponents cmp g = Some cs"
    using stronglyConnectedComponents_returns by blast
  note spec = components_spec [OF cs]
  have "\<forall>c \<in> set cs. c \<noteq> [] \<and> (\<forall>x \<in> set c. set c = scc_of g x)"
    using spec(3,4) by blast
  with cs spec(1,2) show ?thesis by blast
qed

text \<open>The pair 1, 2 of a two-node cycle is one component.\<close>

lemma stronglyConnectedComponents_correct_witness:
  "\<exists>cs. stronglyConnectedComponents compareText
      \<lparr>nodes = [1, 2 :: nat], outgoing = [(1, [2]), (2, [1])]\<rparr> = Some cs \<and> {1, 2} \<subseteq> set (concat cs)"
  using stronglyConnectedComponents_correct
    [of compareText "\<lparr>nodes = [1, 2 :: nat], outgoing = [(1, [2]), (2, [1])]\<rparr>"]
  by auto

end
