(* ===== verification/Resolver_Properties.thy ===== *)
theory Resolver_Properties
  imports Resolver_Correct Graph_Components
begin

text \<open>
  The properties of the capability resolver: soundness of a successful resolution, the exact condition
  under which a resolution succeeds, and the loss decision behind every required capability that stays
  without provider.
\<close>

section \<open>Reachability\<close>

lemma reachable_from_closed:
  assumes "\<forall>v \<in> set visited. \<forall>t. (v, t) \<in> edges g \<longrightarrow> t \<in> set visited \<union> set pending"
    and "goal \<notin> set visited"
  shows "reachable_from g pending visited goal \<longleftrightarrow>
    (\<exists>p \<in> set visited \<union> set pending. (p, goal) \<in> reaches g)"
  using assms
proof (induction g pending visited goal rule: reachable_from.induct)
  case (1 g visited goal)
  have "goal \<in> set visited" if "(p, goal) \<in> reaches g" "p \<in> set visited" for p
    using that 1(1) by (induction rule: rtrancl_induct) auto
  with 1(2) show ?case by auto
next
  case (2 g current pending visited goal)
  show ?case
  proof (cases "current = goal")
    case False
    show ?thesis
    proof (cases "current \<in> set visited")
      case True
      have "reachable_from g pending visited goal \<longleftrightarrow> (\<exists>p \<in> set visited \<union> set pending. (p, goal) \<in> reaches g)"
        using 2(3,4) True by (intro 2(1) [OF False True]) auto
      with False True show ?thesis by auto
    next
      case new: False
      let ?ts = "rev (targets g current)"
      have "reachable_from g (?ts @ pending) (current # visited) goal \<longleftrightarrow>
          (\<exists>p \<in> set (current # visited) \<union> set (?ts @ pending). (p, goal) \<in> reaches g)"
        using 2(3,4) False by (intro 2(2) [OF False new]) (auto simp: edges_def)
      also have "\<dots> \<longleftrightarrow> (\<exists>p \<in> set visited \<union> set (current # pending). (p, goal) \<in> reaches g)"
        by (auto simp: edges_def intro: converse_rtrancl_into_rtrancl)
      finally show ?thesis using False new by simp
    qed
  qed auto
qed

lemma reachable_from_start: "reachable_from g [start] [] goal \<longleftrightarrow> (start, goal) \<in> reaches g"
  using reachable_from_closed [of "[]" g "[start]" goal] by simp

section \<open>Cycles\<close>

lemma scc_of_self: "x \<in> scc_of g x"
  by (simp add: scc_of_def)

lemma cyclic_component_iff:
  assumes ok: "graph_ok g" and cs: "stronglyConnectedComponents cmp g = Some cs"
  shows "list_ex (cyclic_component g) cs \<longleftrightarrow> \<not> acyclic (edges g)"
proof
  note spec = components_spec [OF cs]
  assume "list_ex (cyclic_component g) cs"
  then obtain c where c: "c \<in> set cs" "cyclic_component g c" by (auto simp: list_ex_iff)
  show "\<not> acyclic (edges g)"
  proof (cases "1 < length c")
    case True
    then obtain x y rest where xy: "c = x # y # rest" by (cases c; cases "tl c") auto
    moreover have "distinct c" using spec(2) c(1) by (auto simp: distinct_concat_iff)
    ultimately have "x \<noteq> y" "y \<in> scc_of g x" using spec(4) [OF c(1), of x] by auto
    then have "(x, y) \<in> (edges g)\<^sup>+" "(y, x) \<in> (edges g)\<^sup>+" by (auto simp: scc_of_def rtrancl_eq_or_trancl)
    then have "(x, x) \<in> (edges g)\<^sup>+" by (rule trancl_trans)
    then show ?thesis by (auto simp: acyclic_def)
  next
    case False
    with c(2) obtain x where "x \<in> set (targets g x)"
      by (auto simp: cyclic_component_def split: list.splits)
    then have "(x, x) \<in> (edges g)\<^sup>+" by (intro r_into_trancl) (simp add: edges_def)
    then show ?thesis by (auto simp: acyclic_def)
  qed
next
  note spec = components_spec [OF cs]
  assume "\<not> acyclic (edges g)"
  then obtain x where "(x, x) \<in> (edges g)\<^sup>+" by (auto simp: acyclic_def)
  then obtain y where y: "(x, y) \<in> edges g" "(y, x) \<in> reaches g" by (meson tranclD)
  have "x \<in> set (nodes g)" using targets_ok(3) [OF ok y(1)] by simp
  then obtain c where c: "c \<in> set cs" "x \<in> set c" using spec(1) by auto
  have scc: "set c = scc_of g x" by (rule spec(4) [OF c])
  have "y \<in> set c" using y scc by (auto simp: scc_of_def)
  have "cyclic_component g c"
  proof (cases "1 < length c")
    case False
    then have "c = [x]" using c(2) by (cases c; cases "tl c") auto
    with \<open>y \<in> set c\<close> y(1) show ?thesis by (simp add: cyclic_component_def edges_def)
  qed (simp add: cyclic_component_def)
  with c(1) show "list_ex (cyclic_component g) cs" by (auto simp: list_ex_iff)
qed

lemma cycle_diagnostics_Nil:
  assumes "graph_ok g"
  shows "cycle_diagnostics env g = [] \<longleftrightarrow> acyclic (edges g)"
proof -
  obtain cs where cs: "stronglyConnectedComponents compareText g = Some cs"
    using stronglyConnectedComponents_returns by blast
  have "cycle_diagnostics env g = [] \<longleftrightarrow> \<not> list_ex (cyclic_component g) cs"
    by (simp add: cycle_diagnostics_def cs filter_empty_conv list_ex_iff)
  with cyclic_component_iff [OF assms cs] show ?thesis by simp
qed

lemma add_optional_edges_acyclic:
  "required_ok env m \<Longrightarrow> \<forall>(a, b) \<in> set es. a \<in> deployment_key ` set (en_deployments env) \<and>
     b \<in> deployment_key ` set (en_deployments env) \<Longrightarrow> acyclic (required_edges env m) \<Longrightarrow>
   acyclic (required_edges env (fold (add_optional_edge env) es m))"
proof (induction es arbitrary: m)
  case (Cons e es)
  obtain a b where e: "e = (a, b)" by (cases e)
  have ab: "a \<in> deployment_key ` set (en_deployments env)" "b \<in> deployment_key ` set (en_deployments env)"
    using Cons.prems(2) e by auto
  have "acyclic (required_edges env (add_optional_edge env e m))"
    using add_edge_ok(2) [OF Cons.prems(1) ab] Cons.prems(3)
    by (auto simp: add_optional_edge_def e reachable_from_start acyclic_insert simp del: reachable_from.simps)
  moreover have "required_ok env (add_optional_edge env e m)"
    using add_optional_edge_ok [OF Cons.prems(1) ab] e by simp
  ultimately show ?case using Cons.IH Cons.prems(2) by simp
qed simp

section \<open>Properties\<close>

text \<open>
  C26. A successful resolution is sound. Every requirement of every deployment has exactly one binding,
  and it meets the specification: a bound provider is a ready deployment of the consumer's application
  with a provision of that name in the required range, it is the explicitly or previously selected one
  if there is such a selection and otherwise the only ready compatible one; a requirement without an
  explicit selection is left unbound only where its previously selected provider is present but not ready, or
  where it has none, is optional and no ready deployment of the application can provide it. The start order lists every deployment once, and every provider of a
  required capability before its consumer.
\<close>

theorem resolution_sound:
  assumes "rr_resolved (resolveCapabilities input) = Some (bindings, order)"
  shows "list_all2 (binding_ok (resolution_env_of input))
      (concat (map consumer_requirements (en_deployments (resolution_env_of input)))) bindings \<and>
    mset order = mset (map rd_identity (ri_deployments input)) \<and>
    (\<forall>b \<in> set bindings. case rb_provider b of
       Some (i, p) \<Rightarrow> nr_optional (rb_requirement b) \<or> starts_before order i (rb_consumer b)
     | None \<Rightarrow> True)"
proof -
  define env where "env = resolution_env_of input"
  define previous where "previous = (case ri_previousBindings input of None \<Rightarrow> [] | Some bs \<Rightarrow> bs)"
  obtain st required keys where ok: "env_ok env previous" and st: "st = resolve_all env (initial_state env)"
    and clean: "st_diagnostics st = []"
    and required: "required = fold (add_optional_edge env) (sort_by compareEdges (st_optional st)) (st_required st)"
    and topo: "topologicalOrder compareText (required_graph env required) = Some keys"
    and result: "bindings = st_bindings st" "order = identities_of env keys"
    using resolveCapabilities_SomeD [OF assms env_def previous_def] by metis
  have state: "state_ok env st" and loop: "loop_result env (concat (map consumer_requirements (en_deployments env))) bindings st"
    using resolve_all_ok [OF ok] clean by (simp_all add: st result)
  have req: "required_ok env required" "required_edges env (st_required st) \<subseteq> required_edges env required"
    using add_optional_edges_ok [of env "st_required st" "sort_by compareEdges (st_optional st)"] state
    by (auto simp: state_ok_def required)
  have keys: "distinct keys" "set keys = deployment_key ` set (en_deployments env)"
    and forward: "forward_order (required_graph env required) keys"
    using topologicalOrder_spec [of "required_graph env required" compareText] topo req(1)
    by (auto simp: required_ok_def required_graph_def)
  have order: "order = map (identity_at env) keys" using identities_of_keys [OF ok] keys(2) result(2) by simp
  have "mset order = mset (map rd_identity (en_deployments env))"
    using order_identities [OF ok keys] result(2) by simp
  then have all: "mset order = mset (map rd_identity (ri_deployments input))"
    by (simp add: env_def resolution_env_of_def Let_def)
  have bs: "list_all2 (binding_ok env) (concat (map consumer_requirements (en_deployments env))) bindings"
    using loop by (simp add: loop_result_def)
  have "starts_before order i (rb_consumer b)"
    if b: "b \<in> set bindings" "rb_provider b = Some (i, p)" "\<not> nr_optional (rb_requirement b)" for b i p
  proof -
    obtain c s where cs: "(c, s) \<in> set (concat (map consumer_requirements (en_deployments env)))"
      and binding: "binding_ok env (c, s) b"
      using bs b(1) by (metis list_all2_conv_all_nth in_set_conv_nth surj_pair)
    have c: "c \<in> set (en_deployments env)" using consumer_requirements_mem [OF cs] by simp
    obtain d where d: "d \<in> set (en_deployments env)" "rd_identity d = i" "rb_consumer b = rd_identity c"
      using binding b(2) by (auto simp: binding_ok_def)
    have "(deployment_key d, deployment_key c) \<in> required_edges env required"
    proof -
      have "(identityKey i, identityKey (rb_consumer b)) \<in> required_edges env (st_required st)"
        using loop b unfolding loop_result_def by blast
      with req(2) d show ?thesis by (auto simp: deployment_key_def)
    qed
    then have "starts_before keys (deployment_key d) (deployment_key c)"
      using forward_order_before [OF forward] keys(2) c by blast
    from starts_before_map [OF this, of "identity_at env"]
    show ?thesis using identity_at_deployment [OF ok] d c order by simp
  qed
  then show ?thesis using bs all by (auto simp: env_def split: option.split)
qed

text \<open>A deployment that requires \<open>cap@^1.0.0\<close> and one that provides \<open>cap@1.2.0\<close>, in the application \<open>a\<close>.\<close>

definition example_identity :: "string \<Rightarrow> deployment_identity" where
  "example_identity p = \<lparr>di_applicationId = js ''a'', di_pluginId = js p\<rparr>"

definition example_consumer :: resolution_deployment where
  "example_consumer = \<lparr>rd_identity = example_identity ''c'', rd_activated = True, rd_ready = False,
     rd_provides = [], rd_requires = [\<lparr>cr_name = js ''cap'', cr_protocolRange = js ''^1.0.0'',
       cr_optional = None, cr_lossPolicy = None\<rparr>], rd_bindings = []\<rparr>"

definition example_provider :: "bool \<Rightarrow> resolution_deployment" where
  "example_provider ready = \<lparr>rd_identity = example_identity ''p'', rd_activated = True, rd_ready = ready,
     rd_provides = [\<lparr>pv_name = js ''cap'', pv_protocolVersion = js ''1.2.0''\<rparr>], rd_requires = [], rd_bindings = []\<rparr>"

definition example_previous :: previous_binding where
  "example_previous = \<lparr>pb_consumer = example_identity ''c'', pb_capability = js ''cap'', pb_provider = example_identity ''p''\<rparr>"

definition example_binding :: "bool \<Rightarrow> resolved_binding" where
  "example_binding bound = \<lparr>rb_consumer = example_identity ''c'',
     rb_requirement = \<lparr>nr_name = js ''cap'', nr_protocolRange = js ''^1.0.0'', nr_optional = False, nr_lossPolicy = Fail\<rparr>,
     rb_provider = (if bound then Some (example_identity ''p'', \<lparr>pv_name = js ''cap'', pv_protocolVersion = js ''1.2.0''\<rparr>)
                    else None)\<rparr>"

lemma example_resolution:
  "rr_resolved (resolveCapabilities \<lparr>ri_deployments = [example_consumer, example_provider True],
     ri_previousBindings = None\<rparr>) = Some ([example_binding True], [example_identity ''p'', example_identity ''c''])"
  by code_simp

lemma resolution_sound_witness:
  "mset [example_identity ''p'', example_identity ''c''] =
     mset (map rd_identity [example_consumer, example_provider True]) \<and>
   starts_before [example_identity ''p'', example_identity ''c''] (example_identity ''p'') (example_identity ''c'')"
  using resolution_sound [OF example_resolution]
  by (simp add: example_binding_def)

text \<open>
  C27. A resolution succeeds exactly when its input passes the checks, no requirement is in error and the
  required dependencies have no cycle: optional dependencies are only preferences of the start order, an
  edge of one is added only where it closes no cycle, and they never make a resolution fail.
\<close>

theorem resolution_succeeds_iff:
  "rr_resolved (resolveCapabilities input) \<noteq> None \<longleftrightarrow>
     inputDiagnostics (en_deployments (resolution_env_of input))
       (case ri_previousBindings input of None \<Rightarrow> [] | Some bs \<Rightarrow> bs) = [] \<and>
     st_diagnostics (resolve_all (resolution_env_of input) (initial_state (resolution_env_of input))) = [] \<and>
     acyclic (required_edges (resolution_env_of input)
       (st_required (resolve_all (resolution_env_of input) (initial_state (resolution_env_of input)))))"
proof -
  define env where "env = resolution_env_of input"
  define previous where "previous = (case ri_previousBindings input of None \<Rightarrow> [] | Some bs \<Rightarrow> bs)"
  define st where "st = resolve_all env (initial_state env)"
  define required where "required = fold (add_optional_edge env) (sort_by compareEdges (st_optional st)) (st_required st)"
  have result: "rr_resolved (resolveCapabilities input) \<noteq> None \<longleftrightarrow>
      inputDiagnostics (en_deployments env) previous = [] \<and> st_diagnostics st = [] \<and>
      cycle_diagnostics env (required_graph env (st_required st)) = [] \<and>
      topologicalOrder compareText (required_graph env required) \<noteq> None"
    by (auto simp: resolveCapabilities_def Let_def env_def previous_def st_def required_def split: option.splits)
  have "cycle_diagnostics env (required_graph env (st_required st)) = [] \<longleftrightarrow> acyclic (required_edges env (st_required st))"
    and "acyclic (required_edges env (st_required st)) \<Longrightarrow> topologicalOrder compareText (required_graph env required) \<noteq> None"
    if valid: "inputDiagnostics (en_deployments env) previous = []"
  proof -
    have "env_ok env previous" unfolding env_def by (rule env_ok_input [OF valid [unfolded env_def] previous_def])
    then have state: "state_ok env st" unfolding st_def by (rule resolve_all_ok)
    then show "cycle_diagnostics env (required_graph env (st_required st)) = [] \<longleftrightarrow>
        acyclic (required_edges env (st_required st))"
      by (simp add: cycle_diagnostics_Nil state_ok_def required_ok_def)
    assume "acyclic (required_edges env (st_required st))"
    then have "acyclic (required_edges env required)" "graph_ok (required_graph env required)"
      using add_optional_edges_acyclic [of env "st_required st" "sort_by compareEdges (st_optional st)"]
        add_optional_edges_ok [of env "st_required st" "sort_by compareEdges (st_optional st)"] state
      by (auto simp: state_ok_def required_def required_ok_def)
    then show "topologicalOrder compareText (required_graph env required) \<noteq> None"
      using topologicalOrder_spec [of "required_graph env required" compareText] by (auto split: option.splits)
  qed
  with result show ?thesis unfolding env_def previous_def st_def by blast
qed

section \<open>Provider loss\<close>

definition portable_identity :: "deployment_identity \<Rightarrow> bool" where
  "portable_identity i \<longleftrightarrow> 47 \<notin> set (di_applicationId i) \<and> 47 \<notin> set (di_pluginId i)"

lemma slash_split: "47 \<notin> set a \<Longrightarrow> 47 \<notin> set b \<Longrightarrow> a @ 47 # s = b @ 47 # t \<longleftrightarrow> a = b \<and> s = t" for a b s t :: jstring
proof (induction a arbitrary: b)
  case Nil
  then show ?case by (cases b) auto
next
  case (Cons x a)
  then show ?case by (cases b) auto
qed

lemma find_distinct: "distinct (map f xs) \<Longrightarrow> x \<in> set xs \<Longrightarrow> find (\<lambda>y. f y = f x) xs = Some x"
  by (induction xs) (auto simp: rev_image_eqI)

lemma requirement_key_inj:
  assumes "portable_identity i" and "portable_identity j"
  shows "requirement_key i c = requirement_key j d \<longleftrightarrow> i = j \<and> c = d"
  using assms by (auto simp: requirement_key_def identityKey_def portable_identity_def slash_split)

text \<open>
  No required capability is left without provider in silence: if a successful resolution of an
  activated consumer leaves a requirement that is not optional unbound, it also returns a loss decision
  for that consumer and capability, with the loss policy of the requirement.
\<close>

theorem unbound_requirement_has_loss:
  assumes res: "rr_resolved (resolveCapabilities input) = Some (bindings, order)"
    and portable: "\<forall>d \<in> set (ri_deployments input). portable_identity (rd_identity d)"
      "ri_previousBindings input = Some previous" "\<forall>b \<in> set previous. portable_identity (pb_consumer b)"
    and b: "b \<in> set bindings" "rb_provider b = None" "\<not> nr_optional (rb_requirement b)"
    and active: "\<forall>d \<in> set (ri_deployments input). rd_identity d = rb_consumer b \<longrightarrow> rd_activated d"
  shows "\<exists>l \<in> set (rr_providerLossActions (resolveCapabilities input)).
    ld_consumer l = rb_consumer b \<and> ld_capability l = nr_name (rb_requirement b) \<and>
    ld_action l = nr_lossPolicy (rb_requirement b)"
proof -
  define env where "env = resolution_env_of input"
  have prev: "previous = (case ri_previousBindings input of None \<Rightarrow> [] | Some bs \<Rightarrow> bs)" using portable by simp
  obtain st where ok: "env_ok env previous" and st: "st = resolve_all env (initial_state env)"
    and clean: "st_diagnostics st = []" and bindings: "bindings = st_bindings st"
    and losses: "rr_providerLossActions (resolveCapabilities input) = providerLossDecisions previous (en_byIdentity env)"
    using resolveCapabilities_SomeD [OF res env_def prev] by metis
  have deps: "set (en_deployments env) = set (ri_deployments input)" by (simp add: env_def resolution_env_of_def Let_def)
  have "list_all2 (binding_ok env) (concat (map consumer_requirements (en_deployments env))) bindings"
    using resolve_all_ok(2) [OF ok] clean by (simp add: st bindings loop_result_def)
  then obtain c s where cs: "(c, s) \<in> set (concat (map consumer_requirements (en_deployments env)))"
    and binding: "binding_ok env (c, s) b"
    using b(1) by (metis list_all2_conv_all_nth in_set_conv_nth surj_pair)
  have c: "c \<in> set (en_deployments env)" "s \<in> set (rd_requires c)" using consumer_requirements_mem [OF cs] by auto
  have fields: "rb_consumer b = rd_identity c" "rb_requirement b = normalizeRequirement s"
    and unbound: "unbound_allowed env c s" using binding b(2) by (auto simp: binding_ok_def)
  obtain i d where i: "persisted_selection env c s = Some i" "explicit_selection c s = None"
    and d: "d \<in> set (en_deployments env)" "deployment_key d = identityKey i" "\<not> rd_ready d"
    using unbound b(3) fields by (auto simp: unbound_allowed_def split: option.splits)
  obtain p where p: "p \<in> set previous" "requirement_key (pb_consumer p) (pb_capability p) = requirement_key (rd_identity c) (cr_name s)"
    "pb_provider p = i"
    using i(1) ok by (auto simp: persisted_selection_def env_ok_def)
  have same: "pb_consumer p = rd_identity c" "pb_capability p = cr_name s"
    using p portable c(1) deps requirement_key_inj by auto
  have consumer: "map_of (en_byIdentity env) (identityKey (pb_consumer p)) = Some c"
    and provider: "map_of (en_byIdentity env) (identityKey (pb_provider p)) = Some d"
    using ok c(1) d p(3) same(1) by (auto simp: env_ok_def deployment_key_def)
  have "distinct (map cr_name (rd_requires c))" using ok c(1) by (simp add: env_ok_def)
  then have found: "find (\<lambda>r. cr_name r = pb_capability p) (rd_requires c) = Some s"
    using find_distinct [OF _ c(2), of cr_name] same(2) by simp
  have "rd_activated c" using active c(1) deps fields(1) by simp
  then have "loss_decision_for (en_byIdentity env) p = Some \<lparr>ld_action = nr_lossPolicy (normalizeRequirement s),
      ld_capability = cr_name s, ld_consumer = rd_identity c, ld_provider = i\<rparr>"
    using i(2) d(3) \<open>rd_activated c\<close>
    by (simp add: loss_decision_for_def same p(3) consumer [unfolded same] provider [unfolded p(3)]
        found [unfolded same] ownBinding_def explicit_selection_def)
  then have "\<lparr>ld_action = nr_lossPolicy (normalizeRequirement s),
      ld_capability = cr_name s, ld_consumer = rd_identity c, ld_provider = i\<rparr>
      \<in> set (rr_providerLossActions (resolveCapabilities input))"
    using p(1) by (force simp: losses providerLossDecisions_def List.map_filter_def)
  then show ?thesis using fields by force
qed

lemma example_loss:
  "rr_resolved (resolveCapabilities \<lparr>ri_deployments = [example_consumer, example_provider False],
     ri_previousBindings = Some [example_previous]\<rparr>) =
   Some ([example_binding False], [example_identity ''p'', example_identity ''c''])"
  by code_simp

lemma unbound_requirement_has_loss_witness:
  "\<exists>l \<in> set (rr_providerLossActions (resolveCapabilities
      \<lparr>ri_deployments = [example_consumer, example_provider False], ri_previousBindings = Some [example_previous]\<rparr>)).
    ld_action l = Fail"
proof -
  have "\<forall>d \<in> set [example_consumer, example_provider False]. portable_identity (rd_identity d)"
    "\<forall>b \<in> set [example_previous]. portable_identity (pb_consumer b)"
    "\<forall>d \<in> set [example_consumer, example_provider False]. rd_identity d = rb_consumer (example_binding False) \<longrightarrow> rd_activated d"
    by (simp_all add: example_consumer_def example_provider_def example_previous_def example_identity_def portable_identity_def)
  with unbound_requirement_has_loss [OF example_loss, of "[example_previous]" "example_binding False"]
  show ?thesis by (force simp: example_binding_def)
qed

end
