(* ===== verification/Placement.thy ===== *)
theory Placement
  imports Permission_Gate
begin

text \<open>
  The placement of a component (\<open>packages/runtime/src/reconcile/placement.ts\<close>): the first executor kind
  in the order of preference that the component and the node support and that the granted permissions
  allow, and for the remote kind the first worker, by identifier, that is prepared and allowed.
\<close>

section \<open>Data\<close>

datatype executor_kind = ExProcess | ExThread | ExRemote

fun executor_text :: "executor_kind \<Rightarrow> jstring" where
  "executor_text ExProcess = js ''process''"
| "executor_text ExThread = js ''thread''"
| "executor_text ExRemote = js ''remote''"

text \<open>The lists of a worker are \<open>None\<close> where \<open>Array.isArray\<close> fails.\<close>

record placement_worker =
  pw_workerId :: jstring
  pw_labels :: "(jstring \<times> jstring) list"
  pw_resources :: worker_resources
  pw_executors :: "executor_kind list option"
  pw_preparedArtifacts :: "jstring list option"

record component_placement =
  cp_executor :: executor_kind
  cp_workerId :: "jstring option"

text \<open>Of the component, its identifier and its executors are read.\<close>

record placement_input =
  pi_artifactDigest :: jstring
  pi_componentId :: jstring
  pi_componentExecutors :: "executor_kind list"
  pi_grantedPermissions :: jsvalue
  pi_supportedExecutors :: "executor_kind list"
  pi_workers :: "placement_worker list option"

datatype placement_diagnostic =
    ExecutorUnavailable jstring
  | GrantExceedsRequest jstring

type_synonym placement_decision = "placement_diagnostic + component_placement"

definition executorPreference :: "executor_kind list" where
  "executorPreference = [ExProcess, ExThread, ExRemote]"

section \<open>The plan\<close>

definition executor_attempt :: "executor_kind \<Rightarrow> jsvalue" where
  "executor_attempt executor =
     VObject True [(js ''kind'', Data (VString (js ''executor''))),
                   (js ''executor'', Data (VString (executor_text executor)))]"

definition worker_attempt :: "placement_worker \<Rightarrow> jsvalue" where
  "worker_attempt worker =
     VObject True
       [(js ''kind'', Data (VString (js ''worker''))),
        (js ''labels'', Data (VObject True (map (\<lambda>(k, v). (k, Data (VString v))) (pw_labels worker)))),
        (js ''resources'', Data (VObject True
           [(js ''cpuMillis'', Data (VInt (cpuMillis (pw_resources worker)))),
            (js ''memoryBytes'', Data (VInt (memoryBytes (pw_resources worker)))),
            (js ''storageBytes'', Data (VInt (storageBytes (pw_resources worker))))]))]"

definition executor_allowed :: "(jstring \<Rightarrow> jstring) \<Rightarrow> placement_input \<Rightarrow> executor_kind \<Rightarrow> bool" where
  "executor_allowed toASCII input executor =
     (gatePermission toASCII (pi_grantedPermissions input) (executor_attempt executor) = GateAllowed)"

definition worker_prepared :: "placement_input \<Rightarrow> placement_worker \<Rightarrow> bool" where
  "worker_prepared input worker =
     (case (pw_preparedArtifacts worker, pw_executors worker) of
        (Some artifacts, Some kinds) \<Rightarrow>
          pi_artifactDigest input \<in> set artifacts \<and>
          list_ex (\<lambda>e. e \<in> set (pi_componentExecutors input)) kinds
      | _ \<Rightarrow> False)"

definition worker_allowed :: "(jstring \<Rightarrow> jstring) \<Rightarrow> placement_input \<Rightarrow> placement_worker \<Rightarrow> bool" where
  "worker_allowed toASCII input worker =
     (gatePermission toASCII (pi_grantedPermissions input) (worker_attempt worker) = GateAllowed)"

fun first_worker :: "(jstring \<Rightarrow> jstring) \<Rightarrow> placement_input \<Rightarrow> placement_worker list \<Rightarrow> jstring option" where
  "first_worker toASCII input [] = None"
| "first_worker toASCII input (worker # workers) =
     (if \<not> worker_prepared input worker then first_worker toASCII input workers
      else if worker_allowed toASCII input worker then Some (pw_workerId worker)
      else first_worker toASCII input workers)"

definition sorted_workers :: "placement_input \<Rightarrow> placement_worker list" where
  "sorted_workers input =
     sort_by (\<lambda>l r. compareText (pw_workerId l) (pw_workerId r))
       (case pi_workers input of None \<Rightarrow> [] | Some workers \<Rightarrow> workers)"

fun place_executors ::
  "(jstring \<Rightarrow> jstring) \<Rightarrow> placement_input \<Rightarrow> executor_kind list \<Rightarrow> bool \<Rightarrow> placement_decision" where
  "place_executors toASCII input [] permissionDenied =
     Inl (if permissionDenied then GrantExceedsRequest (pi_componentId input)
          else ExecutorUnavailable (pi_componentId input))"
| "place_executors toASCII input (executor # rest) permissionDenied =
     (if executor \<notin> set (pi_componentExecutors input) \<or> executor \<notin> set (pi_supportedExecutors input)
      then place_executors toASCII input rest permissionDenied
      else if \<not> executor_allowed toASCII input executor then place_executors toASCII input rest True
      else if executor \<noteq> ExRemote then Inr \<lparr>cp_executor = executor, cp_workerId = None\<rparr>
      else (case first_worker toASCII input (sorted_workers input) of
              Some workerId \<Rightarrow> Inr \<lparr>cp_executor = executor, cp_workerId = Some workerId\<rparr>
            | None \<Rightarrow> place_executors toASCII input rest permissionDenied))"

definition planPlacement :: "(jstring \<Rightarrow> jstring) \<Rightarrow> placement_input \<Rightarrow> placement_decision" where
  "planPlacement toASCII input = place_executors toASCII input executorPreference False"

definition placementIsEligible :: "(jstring \<Rightarrow> jstring) \<Rightarrow> placement_input \<Rightarrow> component_placement \<Rightarrow> bool" where
  "placementIsEligible toASCII input expected =
     (if cp_executor expected \<notin> set (pi_supportedExecutors input) then False
      else
        (case planPlacement toASCII
           (if cp_executor expected = ExRemote
            then input\<lparr>pi_supportedExecutors := [cp_executor expected],
                       pi_workers := Some (filter (\<lambda>w. Some (pw_workerId w) = cp_workerId expected)
                         (case pi_workers input of None \<Rightarrow> [] | Some workers \<Rightarrow> workers))\<rparr>
            else input\<lparr>pi_supportedExecutors := [cp_executor expected]\<rparr>) of
           Inl d \<Rightarrow> False
         | Inr placement \<Rightarrow> cp_executor placement = cp_executor expected \<and>
             cp_workerId placement = cp_workerId expected))"

section \<open>What a placement promises\<close>

definition usable :: "(jstring \<Rightarrow> jstring) \<Rightarrow> placement_input \<Rightarrow> executor_kind \<Rightarrow> bool" where
  "usable toASCII input executor \<longleftrightarrow>
     executor \<in> set (pi_componentExecutors input) \<and> executor \<in> set (pi_supportedExecutors input) \<and>
     executor_allowed toASCII input executor"

definition worker_ok :: "(jstring \<Rightarrow> jstring) \<Rightarrow> placement_input \<Rightarrow> placement_worker \<Rightarrow> bool" where
  "worker_ok toASCII input worker \<longleftrightarrow> worker_prepared input worker \<and> worker_allowed toASCII input worker"

definition input_workers :: "placement_input \<Rightarrow> placement_worker list" where
  "input_workers input = (case pi_workers input of None \<Rightarrow> [] | Some workers \<Rightarrow> workers)"

lemma first_worker_find:
  "first_worker toASCII input ws = map_option pw_workerId (find (worker_ok toASCII input) ws)"
  by (induction ws) (auto simp: worker_ok_def)

interpretation worker_order: total_comparator
  "\<lambda>l r. compareText (pw_workerId l) (pw_workerId r)"
  by (rule total_comparator_key) unfold_locales

lemma find_sorted_least:
  assumes "sorted_wrt (\<lambda>x y. f x \<le> (f y :: 'b :: linorder)) xs" and "find P xs = Some x" and "y \<in> set xs" and "P y"
  shows "f x \<le> f y"
  using assms by (induction xs) (auto split: if_splits)

lemma sorted_workers_sorted: "sorted_wrt (\<lambda>x y. pw_workerId x \<le> pw_workerId y) (sorted_workers input)"
  using worker_order.sorted_sort_by [of "input_workers input"]
  by (simp add: sorted_workers_def input_workers_def)

text \<open>The specification: which placement is right for an input.\<close>

definition placement_right :: "(jstring \<Rightarrow> jstring) \<Rightarrow> placement_input \<Rightarrow> component_placement \<Rightarrow> bool" where
  "placement_right toASCII input p \<longleftrightarrow> usable toASCII input (cp_executor p) \<and>
     (case cp_executor p of
        ExProcess \<Rightarrow> cp_workerId p = None
      | ExThread \<Rightarrow> cp_workerId p = None \<and> \<not> usable toASCII input ExProcess
      | ExRemote \<Rightarrow> \<not> usable toASCII input ExProcess \<and> \<not> usable toASCII input ExThread \<and>
          (\<exists>w \<in> set (input_workers input). cp_workerId p = Some (pw_workerId w) \<and> worker_ok toASCII input w \<and>
             (\<forall>w' \<in> set (input_workers input). worker_ok toASCII input w' \<longrightarrow> pw_workerId w \<le> pw_workerId w')))"

lemma first_worker_least:
  assumes "first_worker toASCII input (sorted_workers input) = Some i"
  shows "\<exists>w \<in> set (input_workers input). i = pw_workerId w \<and> worker_ok toASCII input w \<and>
    (\<forall>w' \<in> set (input_workers input). worker_ok toASCII input w' \<longrightarrow> i \<le> pw_workerId w')"
proof -
  obtain w where w: "find (worker_ok toASCII input) (sorted_workers input) = Some w" "i = pw_workerId w"
    using assms by (auto simp: first_worker_find)
  then have "w \<in> set (sorted_workers input)" "worker_ok toASCII input w"
    by (auto simp: find_Some_iff)
  moreover have "set (sorted_workers input) = set (input_workers input)"
    by (simp add: sorted_workers_def input_workers_def)
  ultimately show ?thesis
    using find_sorted_least [OF sorted_workers_sorted w(1)] w(2) by blast
qed

lemma first_worker_None:
  "first_worker toASCII input (sorted_workers input) = None \<longleftrightarrow>
     (\<forall>w \<in> set (input_workers input). \<not> worker_ok toASCII input w)"
  by (auto simp: first_worker_find find_None_iff sorted_workers_def input_workers_def)

lemma planPlacement_cases:
  "planPlacement toASCII input =
     (if usable toASCII input ExProcess then Inr \<lparr>cp_executor = ExProcess, cp_workerId = None\<rparr>
      else if usable toASCII input ExThread then Inr \<lparr>cp_executor = ExThread, cp_workerId = None\<rparr>
      else if usable toASCII input ExRemote \<and> first_worker toASCII input (sorted_workers input) \<noteq> None
        then Inr \<lparr>cp_executor = ExRemote, cp_workerId = first_worker toASCII input (sorted_workers input)\<rparr>
      else Inl (if \<exists>e. e \<in> set (pi_componentExecutors input) \<and> e \<in> set (pi_supportedExecutors input) \<and>
                       \<not> executor_allowed toASCII input e
                then GrantExceedsRequest (pi_componentId input) else ExecutorUnavailable (pi_componentId input)))"
proof -
  have all: "(\<exists>e. P e) \<longleftrightarrow> P ExProcess \<or> P ExThread \<or> P ExRemote" for P
    by (metis executor_kind.exhaust)
  show ?thesis
    unfolding planPlacement_def executorPreference_def usable_def all
    by (auto split: option.split)
qed

lemma placement_spec:
  "case planPlacement toASCII input of
     Inr p \<Rightarrow> placement_right toASCII input p
   | Inl d \<Rightarrow> (\<forall>p. \<not> placement_right toASCII input p) \<and>
       (d = GrantExceedsRequest (pi_componentId input) \<longleftrightarrow>
          (\<exists>e. e \<in> set (pi_componentExecutors input) \<and> e \<in> set (pi_supportedExecutors input) \<and>
             \<not> executor_allowed toASCII input e))"
proof (cases "usable toASCII input ExProcess \<or> usable toASCII input ExThread")
  case True
  then show ?thesis by (auto simp: planPlacement_cases placement_right_def)
next
  case False
  show ?thesis
  proof (cases "first_worker toASCII input (sorted_workers input)")
    case None
    have "\<not> placement_right toASCII input p" for p
      using False None first_worker_None [of toASCII input]
      by (cases "cp_executor p") (auto simp: placement_right_def)
    with False None show ?thesis by (simp add: planPlacement_cases)
  next
    case (Some i)
    show ?thesis
    proof (cases "usable toASCII input ExRemote")
      case True
      with False Some first_worker_least [OF Some] show ?thesis
        by (auto simp: planPlacement_cases placement_right_def)
    next
      case no_remote: False
      have "\<not> placement_right toASCII input p" for p
        using False no_remote by (cases "cp_executor p") (auto simp: placement_right_def)
      with False no_remote show ?thesis by (simp add: planPlacement_cases)
    qed
  qed
qed

lemma placement_planned: "planPlacement toASCII input = Inr p \<Longrightarrow> placement_right toASCII input p"
  using placement_spec [of toASCII input] by simp

text \<open>
  C20. A component is placed exactly where it should be: a planned placement is on the first executor
  kind, in the order process, thread, remote, that the component lists, the node supports and the grant
  allows, a remote one on the least worker that has prepared the artifact, shares an executor with the
  component and is allowed; without a placement no such executor or worker exists, and the diagnostic
  blames the grant exactly when it refused a kind both sides support.
\<close>

theorem placement_first_allowed:
  "case planPlacement toASCII input of
     Inr p \<Rightarrow> placement_right toASCII input p
   | Inl d \<Rightarrow> (\<forall>p. \<not> placement_right toASCII input p) \<and>
       (d = GrantExceedsRequest (pi_componentId input) \<longleftrightarrow>
          (\<exists>e. e \<in> set (pi_componentExecutors input) \<and> e \<in> set (pi_supportedExecutors input) \<and>
             \<not> executor_allowed toASCII input e))"
  by (rule placement_spec)

lemma planned_eligible:
  assumes "planPlacement toASCII input = Inr p"
  shows "placementIsEligible toASCII input p"
proof -
  let ?only = "\<lambda>i. i\<lparr>pi_supportedExecutors := [cp_executor p]\<rparr>"
  have allowed: "executor_allowed toASCII (?only i) e = executor_allowed toASCII i e" for i e
    by (simp add: executor_allowed_def)
  show ?thesis
  proof (cases "cp_executor p = ExRemote")
    case False
    then have "usable toASCII input (cp_executor p)" "cp_workerId p = None"
      using assms by (auto simp: planPlacement_cases split: if_splits)
    then show ?thesis
      using False by (cases "cp_executor p")
        (auto simp: placementIsEligible_def planPlacement_cases usable_def executor_allowed_def)
  next
    case True
    then obtain i where i: "usable toASCII input ExRemote" "cp_workerId p = Some i"
      "first_worker toASCII input (sorted_workers input) = Some i"
      using assms by (auto simp: planPlacement_cases split: if_splits)
    let ?input = "input\<lparr>pi_supportedExecutors := [ExRemote],
      pi_workers := Some (filter (\<lambda>w. Some (pw_workerId w) = cp_workerId p) (input_workers input))\<rparr>"
    obtain w where w: "w \<in> set (input_workers input)" "i = pw_workerId w" "worker_ok toASCII input w"
      using first_worker_least [OF i(3)] by blast
    have same: "worker_ok toASCII ?input v = worker_ok toASCII input v" for v
      by (cases "pw_preparedArtifacts v"; cases "pw_executors v")
        (simp_all add: worker_ok_def worker_prepared_def worker_allowed_def)
    have "w \<in> set (input_workers ?input)" using w i(2) by (simp add: input_workers_def)
    with w(3) same have "first_worker toASCII ?input (sorted_workers ?input) \<noteq> None"
      unfolding first_worker_None by blast
    then obtain j where j: "first_worker toASCII ?input (sorted_workers ?input) = Some j" by blast
    then have "j = i" using first_worker_least [OF j] i(2) by (auto simp: input_workers_def)
    with j i True show ?thesis
      by (auto simp: placementIsEligible_def planPlacement_cases usable_def executor_allowed_def input_workers_def)
  qed
qed

text \<open>
  A planned placement stays eligible: \<open>placementIsEligible\<close>, which plans again with only the expected
  executor and worker, accepts every placement that \<open>planPlacement\<close> returns for the same input.
\<close>

theorem planned_placement_eligible:
  assumes "planPlacement toASCII input = Inr p"
  shows "placementIsEligible toASCII input p"
  using assms by (rule planned_eligible)

text \<open>An input with a granted process executor, for the witness.\<close>

definition example_placement :: placement_input where
  "example_placement =
     \<lparr>pi_artifactDigest = [], pi_componentId = js ''c'', pi_componentExecutors = [ExProcess],
      pi_grantedPermissions = VArray [Data (VObject True
        [(js ''kind'', Data (VString (js ''executor''))),
         (js ''executors'', Data (VArray [Data (VString (js ''process''))] False))])] False,
      pi_supportedExecutors = [ExProcess], pi_workers = None\<rparr>"

lemma example_placement_planned:
  "planPlacement id example_placement = Inr \<lparr>cp_executor = ExProcess, cp_workerId = None\<rparr>"
  by code_simp

lemma planned_placement_eligible_witness:
  "placementIsEligible id example_placement \<lparr>cp_executor = ExProcess, cp_workerId = None\<rparr>"
  by (rule planned_placement_eligible [OF example_placement_planned])

end
