(* ===== verification/Plan.thy ===== *)
theory Plan
  imports Placement Lifecycle Identity Resolver
begin

text \<open>
  The reconcile planner (\<open>packages/runtime/src/reconcile/plan.ts\<close>): the stable identities of instances
  and effects, the next step of an instance of an old, disabled or suspended generation and of a current
  one, and the plan of a deployment. \<open>createHash("sha256")\<close> is the parameter \<open>sha256\<close> (a text to the
  hexadecimal text of its digest) and the URL parser behind the permission gate is \<open>toASCII\<close>.
\<close>

section \<open>Stable identities\<close>

fun replace_unit :: "code_unit \<Rightarrow> jstring \<Rightarrow> jstring \<Rightarrow> jstring" where
  "replace_unit c r [] = []"
| "replace_unit c r (x # xs) = (if x = c then r else [x]) @ replace_unit c r xs"

text \<open>95 is the underscore, 46 the dot, 117 and 100 are the letters u and d.\<close>

definition escape_part :: "jstring \<Rightarrow> jstring" where
  "escape_part part = replace_unit 46 [95, 100] (replace_unit 95 [95, 117] part)"

definition stable_candidate :: "jstring list \<Rightarrow> jstring" where
  "stable_candidate parts = join [46] (map escape_part parts)"

definition portableStableId :: "(jstring \<Rightarrow> jstring) \<Rightarrow> jstring list \<Rightarrow> jstring" where
  "portableStableId sha256 parts =
     (let candidate = stable_candidate parts
      in if length candidate \<le> 128 then candidate
         else take 63 candidate @ [46] @ sha256 (stringify (JArr (map JStr parts))))"

datatype effect_kind = Drain | Prepare | Start | Stop

fun kind_name :: "effect_kind \<Rightarrow> jstring" where
  "kind_name Drain = js ''drain''"
| "kind_name Prepare = js ''prepare''"
| "kind_name Start = js ''start''"
| "kind_name Stop = js ''stop''"

datatype deployment_state = DeploymentActive | DeploymentDisabled

record plugin_deployment =
  pd_applicationId :: jstring
  pd_pluginId :: jstring
  pd_version :: jstring
  pd_artifactDigest :: jstring
  pd_generation :: jstring
  pd_state :: deployment_state
  pd_essential :: bool
  pd_configuration :: json
  pd_permissionGrants :: jsvalue
  pd_capabilityBindings :: "(jstring, deployment_identity) jsmap"

text \<open>The deployment fields an identity is made of: \<open>Pick<PluginDeployment, ...>\<close>.\<close>

record deployment_scope =
  ds_applicationId :: jstring
  ds_pluginId :: jstring
  ds_generation :: jstring

definition scope_of :: "plugin_deployment \<Rightarrow> deployment_scope" where
  "scope_of d = \<lparr>ds_applicationId = pd_applicationId d, ds_pluginId = pd_pluginId d, ds_generation = pd_generation d\<rparr>"

record effect_identity =
  ei_instanceId :: jstring
  ei_operationId :: jstring
  ei_messageId :: jstring

text \<open>\<open>parseOperationId\<close> and \<open>parseMessageId\<close> are the portable-identifier check.\<close>

definition identities_for ::
  "(jstring \<Rightarrow> jstring) \<Rightarrow> jstring \<Rightarrow> jstring list \<Rightarrow> effect_identity result" where
  "identities_for sha256 instanceId effect_parts =
     (let effectId = portableStableId sha256 effect_parts
      in and_then (parseIdentity (JStr effectId)) (\<lambda>operationId.
         and_then (parseIdentity (JStr effectId)) (\<lambda>messageId.
           Inr \<lparr>ei_instanceId = instanceId, ei_operationId = operationId, ei_messageId = messageId\<rparr>)))"

text \<open>103 and 97 are the letters g and a.\<close>

definition reconcileEffectIdentities ::
  "(jstring \<Rightarrow> jstring) \<Rightarrow> deployment_scope \<Rightarrow> jstring \<Rightarrow> effect_kind \<Rightarrow> jstring \<Rightarrow> effect_identity result" where
  "reconcileEffectIdentities sha256 d componentId kind activation =
     and_then (parseActivation (JStr activation)) (\<lambda>canonical.
       identities_for sha256
         (portableStableId sha256
           [ds_applicationId d, ds_pluginId d, componentId, 103 # ds_generation d, 97 # canonical])
         [js ''reconcile'', ds_applicationId d, ds_pluginId d, componentId, 103 # ds_generation d,
          97 # canonical, kind_name kind])"

definition legacyReconcileInstanceId :: "(jstring \<Rightarrow> jstring) \<Rightarrow> deployment_scope \<Rightarrow> jstring \<Rightarrow> jstring" where
  "legacyReconcileInstanceId sha256 d componentId =
     portableStableId sha256 [ds_applicationId d, ds_pluginId d, componentId, 103 # ds_generation d]"

definition legacyReconcileEffectIdentities ::
  "(jstring \<Rightarrow> jstring) \<Rightarrow> deployment_scope \<Rightarrow> jstring \<Rightarrow> effect_kind \<Rightarrow> effect_identity result" where
  "legacyReconcileEffectIdentities sha256 d componentId kind =
     identities_for sha256 (legacyReconcileInstanceId sha256 d componentId)
       [js ''reconcile'', ds_applicationId d, ds_pluginId d, componentId, 103 # ds_generation d, kind_name kind]"

section \<open>Instances and steps\<close>

text \<open>Of a diagnostic only the code is kept. An absent legacy flag is \<open>False\<close>.\<close>

record component_instance =
  ci_instanceId :: jstring
  ci_activation :: jstring
  ci_legacyActivation :: bool
  ci_hasStarted :: "bool option"
  ci_applicationId :: jstring
  ci_pluginId :: jstring
  ci_componentId :: jstring
  ci_deploymentGeneration :: jstring
  ci_observedGeneration :: jstring
  ci_lifecycle :: component_state
  ci_executor :: executor_kind
  ci_workerId :: "jstring option"
  ci_artifactDigest :: "jstring option"
  ci_executionBinding :: "json option"
  ci_attempt :: "number option"
  ci_retryAt :: "jstring option"
  ci_retryEffect :: "effect_kind option"
  ci_diagnostic :: "jstring option"
  ci_completedOperationId :: "jstring option"
  ci_completedOperationIds :: "jstring list option"
  ci_revision :: jstring

record reconcile_effect =
  re_kind :: effect_kind
  re_activation :: jstring
  re_operationId :: jstring
  re_messageId :: jstring
  re_instanceId :: jstring
  re_applicationId :: jstring
  re_pluginId :: jstring
  re_componentId :: jstring
  re_deploymentGeneration :: jstring
  re_artifactDigest :: jstring
  re_executor :: executor_kind
  re_workerId :: "jstring option"
  re_executionBinding :: "json option"

datatype expected_step_revision = StepAbsent | StepRevision jstring

record plan_step =
  ps_operationId :: jstring
  ps_messageId :: jstring
  ps_instanceId :: jstring
  ps_deploymentGeneration :: jstring
  ps_effect :: reconcile_effect
  ps_expectedRevision :: expected_step_revision
  ps_currentLifecycle :: component_state
  ps_legacyActivation :: bool

definition step ::
  "(jstring \<Rightarrow> jstring) \<Rightarrow> plugin_deployment \<Rightarrow> jstring \<Rightarrow> effect_kind \<Rightarrow> component_placement \<Rightarrow>
   expected_step_revision \<Rightarrow> component_state \<Rightarrow> jstring \<Rightarrow> bool \<Rightarrow> json option \<Rightarrow> plan_step result" where
  "step sha256 d componentId kind placement expected lifecycle activation legacy binding =
     and_then
       (if legacy then legacyReconcileEffectIdentities sha256 (scope_of d) componentId kind
        else reconcileEffectIdentities sha256 (scope_of d) componentId kind activation)
       (\<lambda>identity. Inr
          \<lparr>ps_operationId = ei_operationId identity, ps_messageId = ei_messageId identity,
           ps_instanceId = ei_instanceId identity, ps_deploymentGeneration = pd_generation d,
           ps_effect =
             \<lparr>re_kind = kind, re_activation = activation, re_operationId = ei_operationId identity,
              re_messageId = ei_messageId identity, re_instanceId = ei_instanceId identity,
              re_applicationId = pd_applicationId d, re_pluginId = pd_pluginId d, re_componentId = componentId,
              re_deploymentGeneration = pd_generation d, re_artifactDigest = pd_artifactDigest d,
              re_executor = cp_executor placement, re_workerId = cp_workerId placement,
              re_executionBinding = binding\<rparr>,
           ps_expectedRevision = expected, ps_currentLifecycle = lifecycle, ps_legacyActivation = legacy\<rparr>)"

definition later_than :: "jstring option \<Rightarrow> jstring \<Rightarrow> bool" where
  "later_than retryAt now = (case retryAt of None \<Rightarrow> False | Some t \<Rightarrow> now < t)"

text \<open>The step for an instance itself, with its revision, activation and binding.\<close>

definition instance_step ::
  "(jstring \<Rightarrow> jstring) \<Rightarrow> plugin_deployment \<Rightarrow> component_instance \<Rightarrow> jstring \<Rightarrow> component_placement \<Rightarrow> jstring \<Rightarrow>
   effect_kind \<Rightarrow> plan_step option result" where
  "instance_step sha256 d i componentId placement activation kind =
     and_then (step sha256 d componentId kind placement (StepRevision (ci_revision i)) (ci_lifecycle i)
                 activation (ci_legacyActivation i) (ci_executionBinding i)) (\<lambda>s. Inr (Some s))"

definition old_deployment :: "plugin_deployment \<Rightarrow> component_instance \<Rightarrow> plugin_deployment" where
  "old_deployment d i = d\<lparr>pd_generation := ci_deploymentGeneration i,
     pd_artifactDigest := (case ci_artifactDigest i of None \<Rightarrow> pd_artifactDigest d | Some a \<Rightarrow> a)\<rparr>"

definition instance_placement :: "component_instance \<Rightarrow> component_placement" where
  "instance_placement i = \<lparr>cp_executor = ci_executor i, cp_workerId = ci_workerId i\<rparr>"

definition oldInstanceStep ::
  "(jstring \<Rightarrow> jstring) \<Rightarrow> plugin_deployment \<Rightarrow> component_instance \<Rightarrow> jstring \<Rightarrow> plan_step option result" where
  "oldInstanceStep sha256 d i now =
     (let old = old_deployment d i;
          plan = instance_step sha256 old i (ci_componentId i) (instance_placement i) (ci_activation i)
      in if ci_lifecycle i = CsFailed then
           (case ci_retryEffect i of
              None \<Rightarrow> Inr None
            | Some kind \<Rightarrow> if later_than (ci_retryAt i) now then Inr None else plan kind)
         else if ci_lifecycle i = CsDraining then
           and_then
             (if ci_legacyActivation i then legacyReconcileEffectIdentities sha256 (scope_of old) (ci_componentId i) Drain
              else reconcileEffectIdentities sha256 (scope_of old) (ci_componentId i) Drain (ci_activation i))
             (\<lambda>drain.
                if ci_completedOperationId i \<noteq> Some (ei_operationId drain) \<and>
                   (case ci_completedOperationIds i of
                      None \<Rightarrow> True | Some ids \<Rightarrow> ei_operationId drain \<notin> set ids)
                then plan Drain else plan Stop)
         else if ci_lifecycle i = CsStopping then plan Stop
         else if ci_lifecycle i = CsStopped then Inr None
         else plan Drain)"

definition currentInstanceStep ::
  "(jstring \<Rightarrow> jstring) \<Rightarrow> plugin_deployment \<Rightarrow> jstring \<Rightarrow> component_instance option \<Rightarrow> jstring \<Rightarrow>
   component_placement \<Rightarrow> jstring \<Rightarrow> plan_step option result" where
  "currentInstanceStep sha256 d now instance componentId placement activation =
     (case instance of
        None \<Rightarrow>
          and_then (step sha256 d componentId Prepare placement StepAbsent CsCreated activation False None)
            (\<lambda>s. Inr (Some s))
      | Some i \<Rightarrow>
          if ci_diagnostic i = Some (js ''LIFECYCLE_RESTORE_FAILED'') \<and> later_than (ci_retryAt i) now then Inr None
          else if ci_lifecycle i = CsStopped then
            and_then (step sha256 d componentId Prepare placement StepAbsent CsCreated activation False None)
              (\<lambda>s. Inr (Some s))
          else if ci_lifecycle i = CsCreated then instance_step sha256 d i componentId placement activation Prepare
          else if ci_lifecycle i = CsPreparing \<or> ci_lifecycle i = CsStarting
            then instance_step sha256 d i componentId placement activation Start
          else if ci_lifecycle i = CsDraining \<or> ci_lifecycle i = CsStopping
            then instance_step sha256 d i componentId placement activation Stop
          else if ci_lifecycle i = CsFailed \<and> \<not> later_than (ci_retryAt i) now then
            (case ci_retryEffect i of
               None \<Rightarrow> Inr None
             | Some kind \<Rightarrow> instance_step sha256 d i componentId placement activation kind)
          else Inr None)"

section \<open>The plan\<close>

record manifest_component =
  mc_componentId :: jstring
  mc_executors :: "executor_kind list"

record reconcile_snapshot =
  sn_deployment :: plugin_deployment
  sn_components :: "manifest_component list"
  sn_resolutionOk :: bool
  sn_resolutionDiagnostics :: "jstring list"
  sn_permissionAllowed :: bool
  sn_permissionDiagnostics :: "jstring list"
  sn_granted :: "jsvalue option"
  sn_instances :: "component_instance list"
  sn_now :: jstring
  sn_supportedExecutors :: "executor_kind list"
  sn_workers :: "placement_worker list option"
  sn_suspended :: bool
  sn_activations :: "(jstring, jstring) jsmap option"

datatype plan_diagnostic =
    GateDiagnostic jstring
  | InstanceInconsistent jstring "jstring list"
  | PlacementFailed placement_diagnostic

record reconcile_plan =
  rp_deploymentGeneration :: jstring
  rp_blocked :: bool
  rp_diagnostics :: "plan_diagnostic list"
  rp_steps :: "plan_step list"

definition plan_instances :: "reconcile_snapshot \<Rightarrow> component_instance list" where
  "plan_instances sn =
     sort_by (\<lambda>l r. compareText (ci_instanceId l) (ci_instanceId r))
       (filter (\<lambda>i. ci_applicationId i = pd_applicationId (sn_deployment sn)) (sn_instances sn))"

definition current_instances :: "reconcile_snapshot \<Rightarrow> jstring \<Rightarrow> component_instance list" where
  "current_instances sn componentId =
     filter (\<lambda>i. ci_componentId i = componentId \<and>
               ci_deploymentGeneration i = pd_generation (sn_deployment sn)) (plan_instances sn)"

definition inconsistent_components :: "reconcile_snapshot \<Rightarrow> plan_diagnostic list" where
  "inconsistent_components sn =
     List.map_filter (\<lambda>c.
       let live = filter (\<lambda>i. ci_lifecycle i \<noteq> CsFailed \<and> ci_lifecycle i \<noteq> CsStopped)
                    (current_instances sn (mc_componentId c))
       in if 1 < length live then Some (InstanceInconsistent (mc_componentId c) (map ci_instanceId live)) else None)
       (sn_components sn)"

definition obsolete_instance :: "reconcile_snapshot \<Rightarrow> component_instance \<Rightarrow> bool" where
  "obsolete_instance sn i \<longleftrightarrow> pd_state (sn_deployment sn) = DeploymentDisabled \<or>
     ci_deploymentGeneration i \<noteq> pd_generation (sn_deployment sn) \<or> sn_suspended sn"

fun obsolete_steps ::
  "(jstring \<Rightarrow> jstring) \<Rightarrow> reconcile_snapshot \<Rightarrow> component_instance list \<Rightarrow> plan_step list result" where
  "obsolete_steps sha256 sn [] = Inr []"
| "obsolete_steps sha256 sn (i # is) =
     and_then (if obsolete_instance sn i then oldInstanceStep sha256 (sn_deployment sn) i (sn_now sn) else Inr None)
       (\<lambda>s. and_then (obsolete_steps sha256 sn is)
         (\<lambda>ss. Inr (case s of None \<Rightarrow> ss | Some x \<Rightarrow> x # ss)))"

text \<open>\<open>BigInt(activation)\<close>; the activations of stored instances have passed \<open>parseActivation\<close>.\<close>

definition highest_activation :: "component_instance list \<Rightarrow> jstring option" where
  "highest_activation is =
     foldl (\<lambda>highest i.
       case highest of
         None \<Rightarrow> Some (ci_activation i)
       | Some h \<Rightarrow> if decimal_value (ci_activation i) > decimal_value h then Some (ci_activation i) else highest) None is"

definition component_activation :: "reconcile_snapshot \<Rightarrow> jstring \<Rightarrow> jstring" where
  "component_activation sn componentId =
     (case (case sn_activations sn of None \<Rightarrow> None | Some m \<Rightarrow> map_of m componentId) of
        Some a \<Rightarrow> a
      | None \<Rightarrow> (case highest_activation (current_instances sn componentId) of
                   Some a \<Rightarrow> a | None \<Rightarrow> js ''1''))"

definition component_placement_input :: "reconcile_snapshot \<Rightarrow> manifest_component \<Rightarrow> placement_input" where
  "component_placement_input sn c =
     \<lparr>pi_artifactDigest = pd_artifactDigest (sn_deployment sn), pi_componentId = mc_componentId c,
      pi_componentExecutors = mc_executors c,
      pi_grantedPermissions = (case sn_granted sn of None \<Rightarrow> VArray [] False | Some g \<Rightarrow> g),
      pi_supportedExecutors = sn_supportedExecutors sn, pi_workers = sn_workers sn\<rparr>"

definition component_next ::
  "(jstring \<Rightarrow> jstring) \<Rightarrow> reconcile_snapshot \<Rightarrow> manifest_component \<Rightarrow> component_placement \<Rightarrow> plan_step option result" where
  "component_next sha256 sn c placement =
     (let activation = component_activation sn (mc_componentId c)
      in currentInstanceStep sha256 (sn_deployment sn) (sn_now sn)
           (find (\<lambda>i. ci_activation i = activation) (current_instances sn (mc_componentId c)))
           (mc_componentId c) placement activation)"

fun component_steps ::
  "(jstring \<Rightarrow> jstring) \<Rightarrow> (jstring \<Rightarrow> jstring) \<Rightarrow> reconcile_snapshot \<Rightarrow> manifest_component list \<Rightarrow>
   (plan_step list \<times> placement_diagnostic list) result" where
  "component_steps sha256 toASCII sn [] = Inr ([], [])"
| "component_steps sha256 toASCII sn (c # cs) =
     (case planPlacement toASCII (component_placement_input sn c) of
        Inl d \<Rightarrow> and_then (component_steps sha256 toASCII sn cs) (\<lambda>(ss, ds). Inr (ss, d # ds))
      | Inr placement \<Rightarrow>
          and_then (component_next sha256 sn c placement) (\<lambda>s.
          and_then (component_steps sha256 toASCII sn cs) (\<lambda>(ss, ds).
            Inr (case s of None \<Rightarrow> ss | Some x \<Rightarrow> x # ss, ds))))"

definition sorted_components :: "reconcile_snapshot \<Rightarrow> manifest_component list" where
  "sorted_components sn = sort_by (\<lambda>l r. compareText (mc_componentId l) (mc_componentId r)) (sn_components sn)"

definition planReconcile ::
  "(jstring \<Rightarrow> jstring) \<Rightarrow> (jstring \<Rightarrow> jstring) \<Rightarrow> reconcile_snapshot \<Rightarrow> reconcile_plan result" where
  "planReconcile sha256 toASCII sn =
     (let generation = pd_generation (sn_deployment sn);
          gateDiagnostics = map GateDiagnostic (sn_resolutionDiagnostics sn @ sn_permissionDiagnostics sn);
          inconsistent = inconsistent_components sn
      in if \<not> sn_resolutionOk sn \<or> \<not> sn_permissionAllowed sn
         then Inr \<lparr>rp_deploymentGeneration = generation, rp_blocked = True, rp_diagnostics = gateDiagnostics, rp_steps = []\<rparr>
         else if inconsistent \<noteq> []
         then Inr \<lparr>rp_deploymentGeneration = generation, rp_blocked = True, rp_diagnostics = inconsistent, rp_steps = []\<rparr>
         else
           and_then (obsolete_steps sha256 sn (plan_instances sn)) (\<lambda>old.
           and_then
             (if pd_state (sn_deployment sn) = DeploymentActive \<and> \<not> sn_suspended sn
              then component_steps sha256 toASCII sn (sorted_components sn) else Inr ([], []))
             (\<lambda>(current, placementDiagnostics). Inr
               \<lparr>rp_deploymentGeneration = generation, rp_blocked = placementDiagnostics \<noteq> [],
                rp_diagnostics = gateDiagnostics @ map PlacementFailed placementDiagnostics,
                rp_steps = (if placementDiagnostics \<noteq> [] then [] else old @ current)\<rparr>)))"

end
