(* ===== verification/Component_Instances.thy ===== *)
theory Component_Instances
  imports Plan
begin

text \<open>
  What the reconciler (\<open>packages/runtime/src/reconcile/reconciler.ts\<close>) keeps and loads: persisted component
  instances, installations, capability bindings and provider losses, with the keys they are stored under,
  the checks of a loaded instance and the effects rebuilt from it. Loading yields the typed records; the
  schema validation behind \<open>parsePluginDeployment\<close> and \<open>parsePluginInstallation\<close> is not part of the model.
\<close>

section \<open>Persisted records\<close>

record persisted_instance =
  pci_instanceId :: jstring
  pci_activation :: "jstring option"
  pci_hasStarted :: "bool option"
  pci_applicationId :: jstring
  pci_pluginId :: jstring
  pci_componentId :: jstring
  pci_deploymentGeneration :: jstring
  pci_observedGeneration :: jstring
  pci_lifecycle :: component_state
  pci_executor :: executor_kind
  pci_workerId :: "jstring option"
  pci_artifactDigest :: "jstring option"
  pci_executionBinding :: "json option"
  pci_attempt :: "number option"
  pci_retryAt :: "jstring option"
  pci_retryEffect :: "effect_kind option"
  pci_diagnostic :: "jstring option"
  pci_completedOperationId :: "jstring option"
  pci_completedOperationIds :: "jstring list option"

record plugin_manifest =
  mf_components :: "manifest_component list"
  mf_permissions :: jsvalue
  mf_provides :: "provision list"
  mf_requires :: "capability_requirement list"

record plugin_installation =
  pn_pluginId :: jstring
  pn_version :: jstring
  pn_digest :: jstring
  pn_manifest :: plugin_manifest

datatype binding_source = Automatic | Explicit

text \<open>A binding or a loss as loaded: the identifier of its key, its value and its revision.\<close>

record capability_binding =
  cb_consumer :: deployment_identity
  cb_capability :: jstring
  cb_provider :: deployment_identity
  cb_source :: binding_source
  cb_deploymentGeneration :: jstring
  cb_updatedAt :: jstring

record loaded_binding =
  lb_id :: jstring
  lb_value :: capability_binding
  lb_revision :: jstring

record binding_prerequisite =
  bp_capability :: jstring
  bp_provider :: deployment_identity

record provider_loss =
  pl_consumer :: deployment_identity
  pl_deploymentGeneration :: jstring
  pl_action :: loss_action
  pl_capabilities :: "jstring list"
  pl_providers :: "deployment_identity list"
  pl_bindingPrerequisites :: "binding_prerequisite list option"
  pl_recoveryActivations :: "(jstring, jstring) jsmap option"
  pl_updatedAt :: jstring

record loaded_loss =
  ll_id :: jstring
  ll_value :: provider_loss
  ll_revision :: jstring

record loaded_instance =
  li_storageId :: jstring
  li_value :: component_instance
  li_legacyActivation :: bool

section \<open>Keys and activations\<close>

definition deploymentKey :: "deployment_identity \<Rightarrow> jstring" where
  "deploymentKey identity = di_applicationId identity @ [47] @ di_pluginId identity"

definition deployment_identity_of :: "plugin_deployment \<Rightarrow> deployment_identity" where
  "deployment_identity_of d = \<lparr>di_applicationId = pd_applicationId d, di_pluginId = pd_pluginId d\<rparr>"

text \<open>\<open>BigInt\<close> of an activation that \<open>parseActivation\<close> accepted.\<close>

definition compareActivations :: "jstring \<Rightarrow> jstring \<Rightarrow> int" where
  "compareActivations left right = compareText (decimal_value left) (decimal_value right)"

definition nextActivation :: "jstring \<Rightarrow> jstring result" where
  "nextActivation current =
     and_then (parseActivation (JStr current))
       (\<lambda>a. parseActivation (JStr (decimal_string (decimal_value a + 1))))"

definition capabilityBindingKey :: "deployment_identity \<Rightarrow> jstring \<Rightarrow> jstring" where
  "capabilityBindingKey consumer capability =
     di_applicationId consumer @ [47] @ di_pluginId consumer @ [47] @ capability"

section \<open>Loaded instances\<close>

definition parsePersistedActivation :: "persisted_instance \<Rightarrow> jstring result" where
  "parsePersistedActivation i =
     parseActivation (JStr (case pci_activation i of Some a \<Rightarrow> a | None \<Rightarrow> js ''1''))"

definition inferComponentHasStarted :: "bool option \<Rightarrow> component_state \<Rightarrow> bool" where
  "inferComponentHasStarted hasStarted lifecycle =
     (case hasStarted of Some b \<Rightarrow> b | None \<Rightarrow> lifecycle = CsReady \<or> lifecycle = CsDegraded)"

definition loaded_value :: "persisted_instance \<Rightarrow> jstring \<Rightarrow> jstring \<Rightarrow> component_instance" where
  "loaded_value i activation revision =
     \<lparr>ci_instanceId = pci_instanceId i, ci_activation = activation,
      ci_legacyActivation = (pci_activation i = None), ci_hasStarted = pci_hasStarted i,
      ci_applicationId = pci_applicationId i, ci_pluginId = pci_pluginId i, ci_componentId = pci_componentId i,
      ci_deploymentGeneration = pci_deploymentGeneration i, ci_observedGeneration = pci_observedGeneration i,
      ci_lifecycle = pci_lifecycle i, ci_executor = pci_executor i, ci_workerId = pci_workerId i,
      ci_artifactDigest = pci_artifactDigest i, ci_executionBinding = pci_executionBinding i,
      ci_attempt = pci_attempt i, ci_retryAt = pci_retryAt i, ci_retryEffect = pci_retryEffect i,
      ci_diagnostic = pci_diagnostic i, ci_completedOperationId = pci_completedOperationId i,
      ci_completedOperationIds = pci_completedOperationIds i, ci_revision = revision\<rparr>"

definition load_instance :: "jstring \<Rightarrow> persisted_instance \<Rightarrow> jstring \<Rightarrow> loaded_instance result" where
  "load_instance storageId i revision =
     and_then (parsePersistedActivation i) (\<lambda>activation.
       Inr \<lparr>li_storageId = storageId, li_value = loaded_value i activation revision,
            li_legacyActivation = (pci_activation i = None)\<rparr>)"

definition loadInstances :: "(jstring \<times> persisted_instance \<times> jstring) list \<Rightarrow> loaded_instance list result" where
  "loadInstances records = map_result (\<lambda>(storageId, i, revision). load_instance storageId i revision) records"

definition instance_scope :: "component_instance \<Rightarrow> deployment_scope" where
  "instance_scope i = \<lparr>ds_applicationId = ci_applicationId i, ds_pluginId = ci_pluginId i,
     ds_generation = ci_deploymentGeneration i\<rparr>"

definition isCanonicalInstance :: "(jstring \<Rightarrow> jstring) \<Rightarrow> loaded_instance \<Rightarrow> bool result" where
  "isCanonicalInstance sha256 r =
     (let i = li_value r
      in if li_storageId r \<noteq> ci_instanceId i then Inr False
         else and_then
           (if li_legacyActivation r then Inr (legacyReconcileInstanceId sha256 (instance_scope i) (ci_componentId i))
            else and_then (reconcileEffectIdentities sha256 (instance_scope i) (ci_componentId i) Prepare (ci_activation i))
                   (\<lambda>ids. Inr (ei_instanceId ids)))
           (\<lambda>canonical. Inr (canonical = ci_instanceId i)))"

definition isInstanceContextConsistent ::
  "(jstring \<Rightarrow> jstring) \<Rightarrow> loaded_instance \<Rightarrow> plugin_deployment list \<Rightarrow> bool result" where
  "isInstanceContextConsistent sha256 r deployments =
     and_then (isCanonicalInstance sha256 r) (\<lambda>canonical.
       if \<not> canonical then Inr False
       else
         (let i = li_value r
          in case find (\<lambda>d. pd_applicationId d = ci_applicationId i \<and> pd_pluginId d = ci_pluginId i \<and>
                      pd_generation d = ci_deploymentGeneration i) deployments of
               None \<Rightarrow> Inr True
             | Some current \<Rightarrow>
                 Inr (ci_artifactDigest i = Some (pd_artifactDigest current) \<and>
                      ci_observedGeneration i = pd_generation current)))"

section \<open>Effects rebuilt from an instance\<close>

definition instance_identities ::
  "(jstring \<Rightarrow> jstring) \<Rightarrow> component_instance \<Rightarrow> effect_kind \<Rightarrow> effect_identity result" where
  "instance_identities sha256 i kind =
     (if ci_legacyActivation i then legacyReconcileEffectIdentities sha256 (instance_scope i) (ci_componentId i) kind
      else reconcileEffectIdentities sha256 (instance_scope i) (ci_componentId i) kind (ci_activation i))"

definition restorationOperationId :: "(jstring \<Rightarrow> jstring) \<Rightarrow> component_instance \<Rightarrow> jstring result" where
  "restorationOperationId sha256 i =
     and_then (instance_identities sha256 i Prepare) (\<lambda>ids.
       let prepared = ei_operationId ids
       in parseIdentity (JStr (take (length prepared - length (js ''prepare'')) prepared @ js ''restore'')))"

definition startingEffect :: "(jstring \<Rightarrow> jstring) \<Rightarrow> component_instance \<Rightarrow> reconcile_effect result" where
  "startingEffect sha256 i =
     (case ci_artifactDigest i of
        None \<Rightarrow> Inl TypeError
      | Some digest \<Rightarrow>
          if ci_lifecycle i \<noteq> CsStarting then Inl TypeError
          else and_then (instance_identities sha256 i Start) (\<lambda>ids. Inr
            \<lparr>re_kind = Start, re_activation = ci_activation i, re_operationId = ei_operationId ids,
             re_messageId = ei_messageId ids, re_instanceId = ei_instanceId ids,
             re_applicationId = ci_applicationId i, re_pluginId = ci_pluginId i, re_componentId = ci_componentId i,
             re_deploymentGeneration = ci_deploymentGeneration i, re_artifactDigest = digest,
             re_executor = ci_executor i, re_workerId = ci_workerId i,
             re_executionBinding = ci_executionBinding i\<rparr>))"

end
