(* ===== verification/Provider_Loss.thy ===== *)
theory Provider_Loss
  imports Component_Instances
begin

text \<open>
  Loss of capability providers, as the reconciler records it, holds the consumer and recovers from it
  (\<open>packages/runtime/src/reconcile/reconciler.ts\<close>): the readiness of a provider, the bindings a recovery
  needs, the exactness of those bindings, and the decision of one pass for one deployment. \<open>live\<close> is
  the answer of the component executor's \<open>isLive\<close> (\<open>False\<close> where the executor has none). Capability and
  component names have passed their parsers when the manifest was installed.
\<close>

section \<open>Lookups\<close>

definition deployment_at :: "plugin_deployment list \<Rightarrow> deployment_identity \<Rightarrow> plugin_deployment option" where
  "deployment_at deployments identity = find (\<lambda>d. deployment_identity_of d = identity) deployments"

definition installation_of :: "plugin_installation list \<Rightarrow> plugin_deployment \<Rightarrow> plugin_installation option" where
  "installation_of installations d =
     find (\<lambda>n. pn_pluginId n = pd_pluginId d \<and> pn_version n = pd_version d \<and> pn_digest n = pd_artifactDigest d)
       installations"

text \<open>\<open>.sort((left, right) => compareActivations(right.activation, left.activation))[0]\<close>\<close>

definition latest_instance :: "component_instance list \<Rightarrow> component_instance option" where
  "latest_instance is =
     (case sort_by (\<lambda>l r. compareActivations (ci_activation r) (ci_activation l)) is of
        [] \<Rightarrow> None | i # _ \<Rightarrow> Some i)"

definition compareDeploymentKeys :: "deployment_identity \<Rightarrow> deployment_identity \<Rightarrow> int" where
  "compareDeploymentKeys left right = compareText (deploymentKey left) (deploymentKey right)"

text \<open>\<open>[...new Map(xs.map((x) => [deploymentKey(x), x])).values()]\<close>\<close>

definition unique_deployments :: "deployment_identity list \<Rightarrow> deployment_identity list" where
  "unique_deployments xs = map snd (fold (\<lambda>x. AList.update (deploymentKey x) x) xs [])"

section \<open>Readiness of a provider\<close>

definition isReadyAndLive :: "(component_instance \<Rightarrow> bool) \<Rightarrow> component_instance \<Rightarrow> bool" where
  "isReadyAndLive live i \<longleftrightarrow> ci_lifecycle i = CsReady \<and> live i"

record component_evidence =
  ce_key :: jstring
  ce_instance :: "component_instance option"

record readiness_snapshot =
  rs_evidence :: "component_evidence list"
  rs_ready :: bool

definition provider_instances :: "plugin_deployment \<Rightarrow> jstring \<Rightarrow> component_instance list \<Rightarrow> component_instance list" where
  "provider_instances d componentId is =
     filter (\<lambda>i. ci_applicationId i = pd_applicationId d \<and> ci_pluginId i = pd_pluginId d \<and>
               ci_deploymentGeneration i = pd_generation d \<and> ci_observedGeneration i = pd_generation d \<and>
               ci_artifactDigest i = Some (pd_artifactDigest d) \<and> ci_componentId i = componentId) is"

definition provider_evidence ::
  "(jstring \<Rightarrow> jstring) \<Rightarrow> plugin_deployment \<Rightarrow> component_instance list \<Rightarrow> manifest_component \<Rightarrow> component_evidence result" where
  "provider_evidence sha256 d is c =
     (case latest_instance (provider_instances d (mc_componentId c) is) of
        Some i \<Rightarrow> Inr \<lparr>ce_key = ci_instanceId i, ce_instance = Some i\<rparr>
      | None \<Rightarrow> and_then (reconcileEffectIdentities sha256 (scope_of d) (mc_componentId c) Prepare (js ''1''))
                 (\<lambda>ids. Inr \<lparr>ce_key = ei_instanceId ids, ce_instance = None\<rparr>))"

definition providerReadiness ::
  "(jstring \<Rightarrow> jstring) \<Rightarrow> (component_instance \<Rightarrow> bool) \<Rightarrow> deployment_identity \<Rightarrow> plugin_deployment list \<Rightarrow>
   plugin_installation list \<Rightarrow> component_instance list \<Rightarrow> readiness_snapshot result" where
  "providerReadiness sha256 live provider deployments installations is =
     (case deployment_at deployments provider of
        None \<Rightarrow> Inr \<lparr>rs_evidence = [], rs_ready = False\<rparr>
      | Some d \<Rightarrow>
          (case installation_of installations d of
             None \<Rightarrow> Inr \<lparr>rs_evidence = [], rs_ready = False\<rparr>
           | Some n \<Rightarrow>
               and_then (map_result (provider_evidence sha256 d is) (mf_components (pn_manifest n)))
                 (\<lambda>evidence. Inr
                    \<lparr>rs_evidence = evidence,
                     rs_ready = (pd_state d = DeploymentActive \<and>
                       list_all (\<lambda>e. case ce_instance e of
                           None \<Rightarrow> False
                         | Some i \<Rightarrow> ci_applicationId i = pd_applicationId d \<and> ci_pluginId i = pd_pluginId d \<and>
                             ci_deploymentGeneration i = pd_generation d \<and> isReadyAndLive live i) evidence)\<rparr>)))"

section \<open>Bindings a recovery needs\<close>

definition binding_matches :: "deployment_identity \<Rightarrow> jstring \<Rightarrow> jstring \<Rightarrow> loaded_binding \<Rightarrow> bool" where
  "binding_matches consumer capability generation b \<longleftrightarrow>
     cb_consumer (lb_value b) = consumer \<and> cb_capability (lb_value b) = capability \<and>
     cb_deploymentGeneration (lb_value b) = generation"

text \<open>The requirements that a recovery has to restore: all but the optional ones that were not lost.\<close>

definition recovery_requirements :: "capability_requirement list \<Rightarrow> jstring list \<Rightarrow> capability_requirement list" where
  "recovery_requirements rs lost = filter (\<lambda>r. cr_optional r \<noteq> Some True \<or> cr_name r \<in> set lost) rs"

fun binding_prerequisites ::
  "deployment_identity \<Rightarrow> jstring \<Rightarrow> plugin_deployment list \<Rightarrow> loaded_binding list \<Rightarrow> capability_requirement list \<Rightarrow>
   binding_prerequisite list option" where
  "binding_prerequisites consumer generation deployments bindings [] = Some []"
| "binding_prerequisites consumer generation deployments bindings (r # rs) =
     (case filter (binding_matches consumer (cr_name r) generation) bindings of
        [b] \<Rightarrow>
          (case deployment_at deployments (cb_provider (lb_value b)) of
             None \<Rightarrow> None
           | Some _ \<Rightarrow>
               (case binding_prerequisites consumer generation deployments bindings rs of
                  None \<Rightarrow> None
                | Some ps \<Rightarrow> Some (\<lparr>bp_capability = cr_name r, bp_provider = cb_provider (lb_value b)\<rparr> # ps)))
      | _ \<Rightarrow> None)"

text \<open>\<open>requires\<close> is that of the gate's manifest; there are no prerequisites without a gate.\<close>

definition bindingPrerequisites ::
  "plugin_deployment \<Rightarrow> capability_requirement list option \<Rightarrow> plugin_deployment list \<Rightarrow> loaded_binding list \<Rightarrow>
   jstring list \<Rightarrow> binding_prerequisite list option" where
  "bindingPrerequisites d requires deployments bindings lossCapabilities =
     (case requires of
        None \<Rightarrow> None
      | Some rs \<Rightarrow>
          binding_prerequisites (deployment_identity_of d) (pd_generation d) deployments bindings
            (sort_by (\<lambda>l r. compareText (cr_name l) (cr_name r)) (recovery_requirements rs lossCapabilities)))"

fun lost_prerequisites :: "binding_prerequisite list \<Rightarrow> jstring list \<Rightarrow> binding_prerequisite list option" where
  "lost_prerequisites prerequisites [] = Some []"
| "lost_prerequisites prerequisites (c # cs) =
     (case find (\<lambda>p. bp_capability p = c) prerequisites of
        None \<Rightarrow> None
      | Some p \<Rightarrow> (case lost_prerequisites prerequisites cs of None \<Rightarrow> None | Some ps \<Rightarrow> Some (p # ps)))"

definition requirement_restored ::
  "provider_loss \<Rightarrow> binding_prerequisite list \<Rightarrow> plugin_deployment list \<Rightarrow> plugin_installation list \<Rightarrow>
   loaded_binding list \<Rightarrow> capability_requirement \<Rightarrow> bool" where
  "requirement_restored loss prerequisites deployments installations bindings r =
     (case find (\<lambda>p. bp_capability p = cr_name r) prerequisites of
        None \<Rightarrow> False
      | Some p \<Rightarrow>
          (case filter (binding_matches (pl_consumer loss) (cr_name r) (pl_deploymentGeneration loss)) bindings of
             [b] \<Rightarrow>
               cb_provider (lb_value b) = bp_provider p \<and>
               (case deployment_at deployments (bp_provider p) of
                  None \<Rightarrow> False
                | Some d \<Rightarrow>
                    (case installation_of installations d of
                       None \<Rightarrow> False
                     | Some n \<Rightarrow> list_ex (\<lambda>v. pv_name v = cr_name r \<and>
                         satisfiesVersionRange (pv_protocolVersion v) (cr_protocolRange r)) (mf_provides (pn_manifest n))))
           | _ \<Rightarrow> False))"

definition sorted_texts :: "jstring list \<Rightarrow> jstring list" where
  "sorted_texts = sort_by compareText"

definition recoveryBindingsAreExact ::
  "provider_loss \<Rightarrow> plugin_deployment list \<Rightarrow> plugin_installation list \<Rightarrow> loaded_binding list \<Rightarrow> bool" where
  "recoveryBindingsAreExact loss deployments installations bindings =
     (case find (\<lambda>d. deployment_identity_of d = pl_consumer loss \<and> pd_generation d = pl_deploymentGeneration loss)
             deployments of
        None \<Rightarrow> False
      | Some consumer \<Rightarrow>
          (case installation_of installations consumer of
             None \<Rightarrow> False
           | Some n \<Rightarrow>
               (let requirements = recovery_requirements (mf_requires (pn_manifest n)) (pl_capabilities loss)
                in case pl_bindingPrerequisites loss of
                     None \<Rightarrow> requirements = [] \<and> pl_capabilities loss = [] \<and> pl_providers loss = []
                   | Some prerequisites \<Rightarrow>
                       length prerequisites = length requirements \<and>
                       distinct (map bp_capability prerequisites) \<and>
                       sorted_texts (map bp_capability prerequisites) = sorted_texts (map cr_name requirements) \<and>
                       (case lost_prerequisites prerequisites (pl_capabilities loss) of
                          None \<Rightarrow> False
                        | Some lost \<Rightarrow>
                            sort_by compareDeploymentKeys (pl_providers loss) =
                            sort_by compareDeploymentKeys (unique_deployments (map bp_provider lost))) \<and>
                       list_all (requirement_restored loss prerequisites deployments installations bindings)
                         requirements)))"

definition recoveryPrerequisitesReady ::
  "(jstring \<Rightarrow> jstring) \<Rightarrow> (component_instance \<Rightarrow> bool) \<Rightarrow> provider_loss \<Rightarrow> plugin_deployment list \<Rightarrow>
   plugin_installation list \<Rightarrow> component_instance list \<Rightarrow> loaded_binding list \<Rightarrow> bool result" where
  "recoveryPrerequisitesReady sha256 live loss deployments installations is bindings =
     (if \<not> recoveryBindingsAreExact loss deployments installations bindings then Inr False
      else and_then
        (map_result (\<lambda>p. providerReadiness sha256 live (bp_provider p) deployments installations is)
          (case pl_bindingPrerequisites loss of None \<Rightarrow> [] | Some ps \<Rightarrow> ps))
        (\<lambda>snapshots. Inr (list_all rs_ready snapshots)))"

end
