(* ===== verification/Gate_Deployment.thy ===== *)
theory Gate_Deployment
  imports Provider_Loss
begin

text \<open>
  The gate of a deployment (\<open>#gateDeployment\<close> and \<open>#persistResolvedBindings\<close> of
  \<open>packages/runtime/src/reconcile/reconciler.ts\<close>): its installation and artifact, the resolution of its
  capabilities among all deployments, the grant of its permissions, and the bindings written back to the
  store. \<open>validate\<close> is the artifact service: the code of the diagnostic it throws (\<open>ARTIFACT_VALIDATION_FAILED\<close>
  for any other exception) or the manifest of the validated artifact. Of diagnostics the codes are kept.
\<close>

section \<open>Permissions as values\<close>

text \<open>A canonical permission as the object \<open>validatePermissionGrant\<close> returns; members in the written order.\<close>

definition text_value :: "jstring \<Rightarrow> slot" where
  "text_value s = Data (VString s)"

definition array_value :: "slot list \<Rightarrow> slot" where
  "array_value xs = Data (VArray xs False)"

definition object_value :: "(string \<times> slot) list \<Rightarrow> slot" where
  "object_value ms = Data (VObject True (map (\<lambda>(k, v). (js k, v)) ms))"

fun permission_value :: "permission \<Rightarrow> slot" where
  "permission_value (CapabilityPermission es) =
     object_value [(''kind'', text_value (js ''capability'')), (''capabilities'', array_value (map (\<lambda>(name, ms).
       object_value [(''name'', text_value name), (''methods'', array_value (map text_value ms))]) es))]"
| "permission_value (EnvironmentPermission ns) =
     object_value [(''kind'', text_value (js ''environment'')), (''names'', array_value (map text_value ns))]"
| "permission_value (ExecutorPermission xs) =
     object_value [(''kind'', text_value (js ''executor'')), (''executors'', array_value (map text_value xs))]"
| "permission_value (FilesystemPermission rs) =
     object_value [(''kind'', text_value (js ''filesystem'')), (''roots'', array_value (map (\<lambda>(path, access).
       object_value [(''path'', text_value path), (''access'', array_value (map text_value access))]) rs))]"
| "permission_value (NetworkPermission hs ps ms) =
     object_value [(''kind'', text_value (js ''network'')), (''hosts'', array_value (map text_value hs)),
       (''ports'', array_value (map (\<lambda>p. Data (VInt p)) ps)), (''methods'', array_value (map text_value ms))]"
| "permission_value (SecretPermission ns) =
     object_value [(''kind'', text_value (js ''secret'')), (''names'', array_value (map text_value ns))]"
| "permission_value (WorkerPermission ls r) =
     object_value [(''kind'', text_value (js ''worker'')),
       (''labels'', Data (VObject True (map (\<lambda>(k, v). (k, text_value v)) ls))),
       (''resources'', object_value [(''cpuMillis'', Data (VInt (cpuMillis r))),
          (''memoryBytes'', Data (VInt (memoryBytes r))), (''storageBytes'', Data (VInt (storageBytes r)))])]"

definition permissions_value :: "permission list \<Rightarrow> jsvalue" where
  "permissions_value ps = VArray (map permission_value ps) False"

section \<open>The gate\<close>

record artifact_gate =
  ag_components :: "manifest_component list"
  ag_requires :: "capability_requirement list"
  ag_resolutionOk :: bool
  ag_resolutionDiagnostics :: "jstring list"
  ag_lossActions :: "loss_decision list"
  ag_bindings :: "resolved_binding list option"
  ag_order :: "deployment_identity list option"
  ag_permissionAllowed :: bool
  ag_permissionDiagnostics :: "jstring list"
  ag_granted :: "jsvalue option"

datatype gate_outcome = GateConflict | GateError jstring | GateReady artifact_gate

text \<open>What \<open>deployment\<close>s of the other plugins look like to the resolver; a plugin's own installation is shared.\<close>

definition candidate_installation ::
  "plugin_deployment \<Rightarrow> plugin_installation \<Rightarrow> plugin_installation list \<Rightarrow> plugin_deployment \<Rightarrow> plugin_installation option" where
  "candidate_installation d own installations candidate =
     (if pd_pluginId candidate = pd_pluginId d then Some own else installation_of installations candidate)"

definition resolution_candidate ::
  "(component_instance \<Rightarrow> bool) \<Rightarrow> component_instance list \<Rightarrow> plugin_deployment \<Rightarrow> plugin_installation \<Rightarrow> resolution_deployment" where
  "resolution_candidate live is candidate n =
     (let own = filter (\<lambda>i. ci_applicationId i = pd_applicationId candidate \<and>
                  ci_pluginId i = pd_pluginId candidate \<and> ci_deploymentGeneration i = pd_generation candidate) is;
          covered = (\<lambda>P. list_all (\<lambda>c. list_ex (\<lambda>i. ci_componentId i = mc_componentId c \<and> P i) own)
                           (mf_components (pn_manifest n)))
      in \<lparr>rd_identity = deployment_identity_of candidate,
          rd_activated = covered (\<lambda>i. inferComponentHasStarted (ci_hasStarted i) (ci_lifecycle i)),
          rd_ready = (pd_state candidate = DeploymentActive \<and> covered (isReadyAndLive live)),
          rd_provides = mf_provides (pn_manifest n), rd_requires = mf_requires (pn_manifest n),
          rd_bindings = pd_capabilityBindings candidate\<rparr>)"

definition resolution_candidates ::
  "(component_instance \<Rightarrow> bool) \<Rightarrow> plugin_deployment \<Rightarrow> plugin_installation \<Rightarrow> plugin_installation list \<Rightarrow>
   component_instance list \<Rightarrow> plugin_deployment list \<Rightarrow> resolution_deployment list" where
  "resolution_candidates live d own installations is deployments =
     List.map_filter (\<lambda>candidate. map_option (resolution_candidate live is candidate)
       (candidate_installation d own installations candidate)) deployments"

definition persisted_previous ::
  "plugin_deployment list \<Rightarrow> loaded_binding \<Rightarrow> (jstring, previous_binding) jsmap \<Rightarrow> (jstring, previous_binding) jsmap" where
  "persisted_previous deployments b m =
     (let v = lb_value b
      in case deployment_at deployments (cb_consumer v) of
           None \<Rightarrow> m
         | Some candidate \<Rightarrow>
             if pd_generation candidate \<noteq> cb_deploymentGeneration v then m
             else AList.update (capabilityBindingKey (cb_consumer v) (cb_capability v))
               \<lparr>pb_consumer = cb_consumer v, pb_capability = cb_capability v, pb_provider = cb_provider v\<rparr> m)"

definition explicit_previous :: "plugin_deployment \<Rightarrow> (jstring, previous_binding) jsmap \<Rightarrow> (jstring, previous_binding) jsmap" where
  "explicit_previous candidate m =
     fold (\<lambda>(capability, provider).
        AList.update (capabilityBindingKey (deployment_identity_of candidate) capability)
          \<lparr>pb_consumer = deployment_identity_of candidate, pb_capability = capability, pb_provider = provider\<rparr>)
       (pd_capabilityBindings candidate) m"

definition previous_bindings :: "plugin_deployment list \<Rightarrow> loaded_binding list \<Rightarrow> previous_binding list" where
  "previous_bindings deployments bindings =
     sort_by (\<lambda>l r. compareText (capabilityBindingKey (pb_consumer l) (pb_capability l))
                      (capabilityBindingKey (pb_consumer r) (pb_capability r)))
       (map snd (fold explicit_previous deployments (fold (persisted_previous deployments) bindings [])))"

definition concerns :: "deployment_identity \<Rightarrow> resolution_diagnostic \<Rightarrow> bool" where
  "concerns identity d =
     (case dg_consumer d of Some consumer \<Rightarrow> consumer = identity | None \<Rightarrow> identity \<in> set (dg_candidates d))"

definition empty_gate :: "manifest_component list \<Rightarrow> capability_requirement list \<Rightarrow> jsvalue \<Rightarrow> artifact_gate" where
  "empty_gate components requires granted =
     \<lparr>ag_components = components, ag_requires = requires, ag_resolutionOk = True, ag_resolutionDiagnostics = [],
      ag_lossActions = [], ag_bindings = Some [], ag_order = Some [], ag_permissionAllowed = True,
      ag_permissionDiagnostics = [], ag_granted = Some granted\<rparr>"

definition local_resolution :: "deployment_identity \<Rightarrow> resolution_result \<Rightarrow> artifact_gate \<Rightarrow> artifact_gate" where
  "local_resolution identity r g =
     (let diagnostics = filter (concerns identity) (rr_diagnostics r)
      in g\<lparr>ag_resolutionOk := (diagnostics = []), ag_resolutionDiagnostics := map dg_code diagnostics,
           ag_lossActions := filter (\<lambda>l. ld_consumer l = identity) (rr_providerLossActions r),
           ag_bindings := map_option (\<lambda>(bs, _). filter (\<lambda>b. rb_consumer b = identity) bs) (rr_resolved r),
           ag_order := map_option snd (rr_resolved r)\<rparr>)"

definition permission_gate :: "permission_decision \<Rightarrow> artifact_gate \<Rightarrow> artifact_gate" where
  "permission_gate decision g =
     (case decision of
        EnvelopeInvalid \<Rightarrow> g\<lparr>ag_permissionAllowed := False,
          ag_permissionDiagnostics := [js ''PERMISSION_ENVELOPE_INVALID''], ag_granted := None\<rparr>
      | ExceedsRequest _ _ grt \<Rightarrow> g\<lparr>ag_permissionAllowed := False,
          ag_permissionDiagnostics := [js ''PERMISSION_GRANT_EXCEEDS_REQUEST''], ag_granted := Some (permissions_value grt)\<rparr>
      | GrantAllowed _ grt \<Rightarrow> g\<lparr>ag_permissionAllowed := True, ag_permissionDiagnostics := [],
          ag_granted := Some (permissions_value grt)\<rparr>)"

section \<open>Writing the bindings back\<close>

text \<open>
  The stored bindings with their revisions, the generation of each stored deployment, and the counters
  the transaction touches: the last revision of the store and the reconciler's number of replans.
\<close>

record binding_store =
  bs_bindings :: "(jstring, capability_binding \<times> jstring) jsmap"
  bs_generations :: "(jstring, jstring) jsmap"
  bs_revision :: nat
  bs_replanCount :: nat

datatype binding_mutation =
    DeleteBinding jstring jstring
  | PutBinding jstring capability_binding expected_step_revision

fun mutation_key :: "binding_mutation \<Rightarrow> jstring" where
  "mutation_key (DeleteBinding key _) = key"
| "mutation_key (PutBinding key _ _) = key"

definition bound_providers :: "resolved_binding list \<Rightarrow> (jstring, deployment_identity) jsmap" where
  "bound_providers bindings =
     fold (\<lambda>b m. case rb_provider b of None \<Rightarrow> m
                  | Some (provider, _) \<Rightarrow> AList.update (nr_name (rb_requirement b)) provider m) bindings []"

definition current_bindings :: "deployment_identity \<Rightarrow> loaded_binding list \<Rightarrow> (jstring, loaded_binding) jsmap" where
  "current_bindings consumer bindings =
     fold (\<lambda>b. AList.update (cb_capability (lb_value b)) b)
       (filter (\<lambda>b. cb_consumer (lb_value b) = consumer) bindings) []"

definition desired_binding :: "plugin_deployment \<Rightarrow> jstring \<Rightarrow> jstring \<Rightarrow> deployment_identity \<Rightarrow> capability_binding" where
  "desired_binding d now capability provider =
     \<lparr>cb_consumer = deployment_identity_of d, cb_capability = capability, cb_provider = provider,
      cb_source = (if map_of (pd_capabilityBindings d) capability \<noteq> None then Explicit else Automatic),
      cb_deploymentGeneration = pd_generation d, cb_updatedAt = now\<rparr>"

text \<open>The loop over the current bindings; it also returns the resolved bindings that are left.\<close>

fun current_mutations ::
  "plugin_deployment \<Rightarrow> jstring list \<Rightarrow> jstring \<Rightarrow> (jstring \<times> loaded_binding) list \<Rightarrow>
   (jstring, deployment_identity) jsmap \<Rightarrow> binding_mutation list \<times> (jstring, deployment_identity) jsmap" where
  "current_mutations d requirementNames now [] resolved = ([], resolved)"
| "current_mutations d requirementNames now ((capability, current) # rest) resolved =
     (let stale = cb_deploymentGeneration (lb_value current) \<noteq> pd_generation d \<or> capability \<notin> set requirementNames
      in case map_of resolved capability of
           None \<Rightarrow>
             (let (ms, left) = current_mutations d requirementNames now rest resolved
              in (if stale then DeleteBinding (lb_id current) (lb_revision current) # ms else ms, left))
         | Some provider \<Rightarrow>
             (let value = desired_binding d now capability provider;
                  (ms, left) = current_mutations d requirementNames now rest (AList.delete capability resolved)
              in if \<not> stale \<and> cb_provider (lb_value current) = cb_provider value \<and>
                    cb_source (lb_value current) = cb_source value
                 then (ms, left)
                 else (PutBinding (capabilityBindingKey (deployment_identity_of d) capability) value
                         (StepRevision (lb_revision current)) # ms, left)))"

definition binding_mutations ::
  "plugin_deployment \<Rightarrow> jstring list \<Rightarrow> jstring \<Rightarrow> resolved_binding list \<Rightarrow> loaded_binding list \<Rightarrow> binding_mutation list" where
  "binding_mutations d requirementNames now resolvedBindings loaded =
     (let (ms, left) = current_mutations d requirementNames now
            (current_bindings (deployment_identity_of d) loaded) (bound_providers resolvedBindings)
      in sort_by (\<lambda>l r. compareText (mutation_key l) (mutation_key r))
           (ms @ map (\<lambda>(capability, provider).
              PutBinding (capabilityBindingKey (deployment_identity_of d) capability)
                (desired_binding d now capability provider) StepAbsent) left))"

definition expected_here :: "(jstring, 'v \<times> jstring) jsmap \<Rightarrow> jstring \<Rightarrow> expected_step_revision \<Rightarrow> bool" where
  "expected_here m key expected =
     (case expected of
        StepAbsent \<Rightarrow> map_of m key = None
      | StepRevision r \<Rightarrow> (case map_of m key of None \<Rightarrow> False | Some (_, r') \<Rightarrow> r' = r))"

fun mutation_expected :: "(jstring, capability_binding \<times> jstring) jsmap \<Rightarrow> binding_mutation \<Rightarrow> bool" where
  "mutation_expected m (DeleteBinding key r) = expected_here m key (StepRevision r)"
| "mutation_expected m (PutBinding key v expected) = expected_here m key expected"

fun apply_mutation ::
  "jstring \<Rightarrow> binding_mutation \<Rightarrow> (jstring, capability_binding \<times> jstring) jsmap \<Rightarrow>
   (jstring, capability_binding \<times> jstring) jsmap" where
  "apply_mutation revision (DeleteBinding key r) m = AList.delete key m"
| "apply_mutation revision (PutBinding key v expected) m = AList.update key (v, revision) m"

text \<open>
  \<open>custom\<close> says that the deployments come from \<open>options.loadDeployments\<close>. A commit whose expected revisions
  do not hold is a \<open>STATE_REVISION_CONFLICT\<close>, which the reconciler turns into a replan.
\<close>

definition persistResolvedBindings ::
  "bool \<Rightarrow> plugin_deployment \<Rightarrow> jstring list \<Rightarrow> jstring \<Rightarrow> resolved_binding list \<Rightarrow> loaded_binding list \<Rightarrow>
   binding_store \<Rightarrow> bool \<times> binding_store" where
  "persistResolvedBindings custom d requirementNames now resolvedBindings loaded st =
     (if custom then (True, st)
      else
        (let ms = binding_mutations d requirementNames now resolvedBindings loaded
         in if ms = [] then (True, st)
            else if map_of (bs_generations st) (deploymentKey (deployment_identity_of d)) \<noteq> Some (pd_generation d)
                 \<or> \<not> list_all (mutation_expected (bs_bindings st)) ms
            then (False, st\<lparr>bs_replanCount := bs_replanCount st + 1\<rparr>)
            else (True, st\<lparr>bs_bindings := fold (apply_mutation (decimal_string (bs_revision st + 1))) ms (bs_bindings st),
                            bs_revision := bs_revision st + 1\<rparr>)))"

text \<open>The parts of the reconciler's options and of one pass that a gate depends on.\<close>

record gate_env =
  ge_custom :: bool
  ge_validate :: "jstring \<Rightarrow> jstring + plugin_manifest"
  ge_live :: "component_instance \<Rightarrow> bool"
  ge_toASCII :: "jstring \<Rightarrow> jstring"
  ge_now :: jstring

definition active_gate ::
  "gate_env \<Rightarrow> plugin_deployment \<Rightarrow> plugin_installation \<Rightarrow> plugin_manifest \<Rightarrow> plugin_deployment list \<Rightarrow>
   plugin_installation list \<Rightarrow> component_instance list \<Rightarrow> loaded_binding list \<Rightarrow> artifact_gate" where
  "active_gate env d own manifest deployments installations is bindings =
     permission_gate (validatePermissionGrant (ge_toASCII env) (mf_permissions manifest) (pd_permissionGrants d))
       (local_resolution (deployment_identity_of d)
          (resolveCapabilities
             \<lparr>ri_deployments = resolution_candidates (ge_live env) d own installations is deployments,
              ri_previousBindings = Some (previous_bindings deployments bindings)\<rparr>)
          (empty_gate (mf_components manifest) (mf_requires manifest) (pd_permissionGrants d)))"

definition gateDeployment ::
  "gate_env \<Rightarrow> plugin_deployment \<Rightarrow> plugin_deployment list \<Rightarrow> plugin_installation list \<Rightarrow>
   component_instance list \<Rightarrow> loaded_binding list \<Rightarrow> binding_store \<Rightarrow> gate_outcome \<times> binding_store" where
  "gateDeployment env d deployments installations is bindings st =
     (case installation_of installations d of
        None \<Rightarrow>
          if pd_state d = DeploymentDisabled
          then (GateReady (empty_gate [] [] (pd_permissionGrants d)), st)
          else (GateError (js ''DEPLOYMENT_INSTALLATION_MISSING''), st)
      | Some n \<Rightarrow>
          if pd_state d = DeploymentDisabled then
            (case persistResolvedBindings (ge_custom env) d (map cr_name (mf_requires (pn_manifest n))) (ge_now env) [] bindings st of
               (saved, st') \<Rightarrow>
                 (if saved then GateReady (empty_gate (mf_components (pn_manifest n)) (mf_requires (pn_manifest n)) (pd_permissionGrants d))
                  else GateConflict, st'))
          else
            (case ge_validate env (pd_artifactDigest d) of
               Inl code \<Rightarrow> (GateError code, st)
             | Inr manifest \<Rightarrow>
                 (let g = active_gate env d n manifest deployments installations is bindings
                  in case persistResolvedBindings (ge_custom env) d (map cr_name (mf_requires manifest)) (ge_now env)
                            (case ag_bindings g of None \<Rightarrow> [] | Some bs \<Rightarrow> bs) bindings st of
                       (saved, st') \<Rightarrow> (if saved then GateReady g else GateConflict, st'))))"

end
