(* ===== verification/Effects.thy ===== *)
theory Effects
  imports Gate_Deployment Dates
begin

text \<open>
  The effects of the reconciler (\<open>packages/runtime/src/reconcile/reconciler.ts\<close>): the outbox message of an
  effect, the step that plans one (\<open>#persistStep\<close>), the decision on a claimed message (\<open>#executeClaim\<close>),
  and the transactions that authorize, complete, fail or abandon it. The world keeps what these transactions
  read and write: the instances and provider losses with their revisions, the outbox, the journal (operation
  and status), the number of replans and the effects performed so far.
\<close>

section \<open>Messages\<close>

record effect_message =
  em_messageId :: jstring
  em_operationId :: jstring
  em_payload :: json

fun executor_name :: "executor_kind \<Rightarrow> jstring" where
  "executor_name ExProcess = js ''process''"
| "executor_name ExThread = js ''thread''"
| "executor_name ExRemote = js ''remote''"

definition optional_member :: "string \<Rightarrow> json option \<Rightarrow> (jstring \<times> json) list" where
  "optional_member name v = (case v of None \<Rightarrow> [] | Some x \<Rightarrow> [(js name, x)])"

text \<open>The effect as a payload; a step of a legacy instance leaves its activation out.\<close>

definition effect_payload :: "bool \<Rightarrow> reconcile_effect \<Rightarrow> json" where
  "effect_payload legacy e = JObj
     ([(js ''kind'', JStr (kind_name (re_kind e)))] @
      (if legacy then [] else [(js ''activation'', JStr (re_activation e))]) @
      [(js ''operationId'', JStr (re_operationId e)), (js ''messageId'', JStr (re_messageId e)),
       (js ''instanceId'', JStr (re_instanceId e)), (js ''applicationId'', JStr (re_applicationId e)),
       (js ''pluginId'', JStr (re_pluginId e)), (js ''componentId'', JStr (re_componentId e)),
       (js ''deploymentGeneration'', JStr (re_deploymentGeneration e)),
       (js ''artifactDigest'', JStr (re_artifactDigest e)), (js ''executor'', JStr (executor_name (re_executor e)))] @
      optional_member ''workerId'' (map_option JStr (re_workerId e)) @
      optional_member ''executionBinding'' (re_executionBinding e))"

fun parse_kind :: "json option \<Rightarrow> effect_kind result" where
  "parse_kind (Some (JStr s)) =
     (if s = js ''prepare'' then Inr Prepare else if s = js ''start'' then Inr Start
      else if s = js ''drain'' then Inr Drain else if s = js ''stop'' then Inr Stop else Inl TypeError)"
| "parse_kind _ = Inl TypeError"

fun parse_instance_id :: "json option \<Rightarrow> jstring result" where
  "parse_instance_id (Some (JStr s)) = (if s = [] then Inl TypeError else Inr s)"
| "parse_instance_id _ = Inl TypeError"

fun parse_executor :: "json option \<Rightarrow> executor_kind result" where
  "parse_executor (Some (JStr s)) =
     (if s = js ''process'' then Inr ExProcess else if s = js ''thread'' then Inr ExThread
      else if s = js ''remote'' then Inr ExRemote else Inl TypeError)"
| "parse_executor _ = Inl TypeError"

fun parse_worker :: "json option \<Rightarrow> jstring option result" where
  "parse_worker None = Inr None"
| "parse_worker (Some (JStr s)) = Inr (Some s)"
| "parse_worker (Some _) = Inl TypeError"

text \<open>The result also says whether the payload is a legacy one. An absent member fails its parser as \<open>null\<close> does.\<close>

definition parseReconcileEffect ::
  "(json \<Rightarrow> json result) \<Rightarrow> effect_message \<Rightarrow> (reconcile_effect \<times> bool) result" where
  "parseReconcileEffect parseBinding message =
     (case em_payload message of
        JObj value \<Rightarrow>
          and_then (parse_kind (map_of value (js ''kind''))) (\<lambda>kind.
          and_then (parse_instance_id (map_of value (js ''instanceId''))) (\<lambda>instanceId.
          and_then (parse_executor (map_of value (js ''executor''))) (\<lambda>executor.
          and_then (parse_worker (map_of value (js ''workerId''))) (\<lambda>workerId.
            let legacy = (map_of value (js ''activation'') = None)
            in and_then (parseActivation (if legacy then JStr (js ''1'') else member value ''activation'')) (\<lambda>activation.
               and_then (parseIdentity (member value ''applicationId'')) (\<lambda>applicationId.
               and_then (parseArtifactDigest (member value ''artifactDigest'')) (\<lambda>artifactDigest.
               and_then (parseIdentity (member value ''componentId'')) (\<lambda>componentId.
               and_then (parseGeneration (member value ''deploymentGeneration'')) (\<lambda>generation.
               and_then (parseIdentity (member value ''messageId'')) (\<lambda>messageId.
               and_then (parseIdentity (member value ''operationId'')) (\<lambda>operationId.
               and_then (parseIdentity (member value ''pluginId'')) (\<lambda>pluginId.
               and_then (case map_of value (js ''executionBinding'') of None \<Rightarrow> Inr None
                         | Some b \<Rightarrow> and_then (parseBinding b) (\<lambda>x. Inr (Some x))) (\<lambda>binding.
                 if messageId \<noteq> em_messageId message \<or> operationId \<noteq> em_operationId message then Inl TypeError
                 else Inr
                   (\<lparr>re_kind = kind, re_activation = activation, re_operationId = operationId,
                     re_messageId = messageId, re_instanceId = instanceId, re_applicationId = applicationId,
                     re_pluginId = pluginId, re_componentId = componentId, re_deploymentGeneration = generation,
                     re_artifactDigest = artifactDigest, re_executor = executor, re_workerId = workerId,
                     re_executionBinding = binding\<rparr>, legacy))))))))))))))
      | _ \<Rightarrow> Inl TypeError)"

section \<open>The world of the reconciler\<close>

datatype message_state = MessageWaiting | MessageRetry jstring | MessageCompleted

datatype journal_status = Planned | Executing | Completed | Failed

record effect_world =
  ew_instances :: "(jstring, persisted_instance \<times> jstring) jsmap"
  ew_losses :: "(jstring, provider_loss \<times> jstring) jsmap"
  ew_outbox :: "(jstring, effect_message \<times> message_state) jsmap"
  ew_journal :: "(jstring \<times> journal_status) list"
  ew_revision :: nat
  ew_replanCount :: nat
  ew_performed :: "reconcile_effect list"

definition replan :: "effect_world \<Rightarrow> effect_world" where
  "replan w = w\<lparr>ew_replanCount := ew_replanCount w + 1\<rparr>"

definition conflict :: "js_error \<Rightarrow> bool" where
  "conflict e \<longleftrightarrow> e = Diagnostic ''STATE_REVISION_CONFLICT''"

text \<open>One transaction that puts an instance under its expected revision and appends to the journal.\<close>

definition put_instance ::
  "jstring \<Rightarrow> persisted_instance \<Rightarrow> expected_step_revision \<Rightarrow> (jstring \<times> journal_status) list \<Rightarrow>
   effect_world \<Rightarrow> effect_world result" where
  "put_instance key i expected entries w =
     (if \<not> expected_here (ew_instances w) key expected then Inl (Diagnostic ''STATE_REVISION_CONFLICT'')
      else Inr (w\<lparr>ew_instances := AList.update key (i, decimal_string (ew_revision w + 1)) (ew_instances w),
                  ew_journal := ew_journal w @ entries, ew_revision := ew_revision w + 1\<rparr>))"

text \<open>
  \<open>enqueueOutbox\<close>: a message that is new, or whose last acknowledgement asked for a retry, is stored to be
  delivered; the same message again changes nothing and another one is a conflict.
\<close>

definition enqueue_message :: "effect_message \<Rightarrow> effect_world \<Rightarrow> effect_world result" where
  "enqueue_message message w =
     (case map_of (ew_outbox w) (em_messageId message) of
        Some (existing, MessageRetry _) \<Rightarrow>
          Inr (w\<lparr>ew_outbox := AList.update (em_messageId message) (message, MessageWaiting) (ew_outbox w)\<rparr>)
      | Some (existing, _) \<Rightarrow>
          if em_operationId existing = em_operationId message \<and>
             stringify (canon (em_payload existing)) = stringify (canon (em_payload message))
          then Inr w else Inl (Diagnostic ''STATE_IDEMPOTENCY_CONFLICT'')
      | None \<Rightarrow>
          Inr (w\<lparr>ew_outbox := AList.update (em_messageId message) (message, MessageWaiting) (ew_outbox w)\<rparr>))"

definition acknowledge :: "jstring \<Rightarrow> message_state \<Rightarrow> effect_world \<Rightarrow> effect_world" where
  "acknowledge messageId outcome w =
     (case map_of (ew_outbox w) messageId of
        None \<Rightarrow> w
      | Some (message, _) \<Rightarrow> w\<lparr>ew_outbox := AList.update messageId (message, outcome) (ew_outbox w)\<rparr>)"

section \<open>Planning an effect\<close>

text \<open>\<open>#preEffectLifecycle\<close>\<close>

definition preEffectLifecycle :: "effect_kind \<Rightarrow> component_state \<Rightarrow> component_state result" where
  "preEffectLifecycle kind lifecycle =
     (case kind of
        Start \<Rightarrow> if lifecycle = CsStarting then Inr CsStarting else transitionComponentLifecycle lifecycle CsStarting
      | Drain \<Rightarrow> if lifecycle = CsDraining then Inr CsDraining else transitionComponentLifecycle lifecycle CsDraining
      | Stop \<Rightarrow> if lifecycle = CsStopping then Inr CsStopping else transitionComponentLifecycle lifecycle CsStopping
      | Prepare \<Rightarrow> Inr lifecycle)"

definition new_instance :: "plan_step \<Rightarrow> persisted_instance" where
  "new_instance s =
     (let e = ps_effect s in
      \<lparr>pci_instanceId = ps_instanceId s,
       pci_activation = (if ps_legacyActivation s then None else Some (re_activation e)),
       pci_hasStarted = Some False, pci_applicationId = re_applicationId e, pci_pluginId = re_pluginId e,
       pci_componentId = re_componentId e, pci_deploymentGeneration = re_deploymentGeneration e,
       pci_observedGeneration = re_deploymentGeneration e, pci_lifecycle = CsCreated, pci_executor = re_executor e,
       pci_workerId = re_workerId e, pci_artifactDigest = Some (re_artifactDigest e), pci_executionBinding = None,
       pci_attempt = None, pci_retryAt = None, pci_retryEffect = None, pci_diagnostic = None,
       pci_completedOperationId = None, pci_completedOperationIds = None\<rparr>)"

definition stepped_instance :: "plan_step \<Rightarrow> persisted_instance \<Rightarrow> persisted_instance result" where
  "stepped_instance s i =
     (let e = ps_effect s;
          i1 = (if re_kind e = Prepare \<and> (pci_lifecycle i = CsCreated \<or> pci_lifecycle i = CsFailed)
                then i\<lparr>pci_workerId := re_workerId e, pci_artifactDigest := Some (re_artifactDigest e),
                       pci_activation := (if ps_legacyActivation s then pci_activation i else Some (re_activation e)),
                       pci_executor := re_executor e\<rparr>
                else i)
      in and_then (preEffectLifecycle (re_kind e) (pci_lifecycle i1))
           (\<lambda>next. Inr (i1\<lparr>pci_lifecycle := next\<rparr>)))"

definition step_message :: "plan_step \<Rightarrow> effect_message" where
  "step_message s =
     \<lparr>em_messageId = ps_messageId s, em_operationId = ps_operationId s,
      em_payload = effect_payload (ps_legacyActivation s) (ps_effect s)\<rparr>"

definition deployment_unchanged :: "plugin_deployment list \<Rightarrow> plugin_deployment \<Rightarrow> bool" where
  "deployment_unchanged deployments d =
     (case deployment_at deployments (deployment_identity_of d) of
        None \<Rightarrow> False
      | Some desired \<Rightarrow> pd_generation desired = pd_generation d \<and> pd_state desired = pd_state d \<and>
          pd_artifactDigest desired = pd_artifactDigest d)"

text \<open>
  \<open>deployments\<close> are those loaded at this moment. The read and the transaction see one world; a commit between
  them shows as a revision conflict, which counts a replan and changes nothing else.
\<close>

definition persistStep ::
  "plugin_deployment list \<Rightarrow> plugin_deployment \<Rightarrow> plan_step \<Rightarrow> effect_world \<Rightarrow> effect_world result" where
  "persistStep deployments d s w =
     (if \<not> deployment_unchanged deployments d then Inr (replan w)
      else if \<not> expected_here (ew_instances w) (ps_instanceId s) (ps_expectedRevision s) then Inr (replan w)
      else
        and_then (case map_of (ew_instances w) (ps_instanceId s) of
                    None \<Rightarrow> Inr (new_instance s, StepAbsent)
                  | Some (i, r) \<Rightarrow> and_then (stepped_instance s i) (\<lambda>i'. Inr (i', StepRevision r)))
          (\<lambda>(i, expected).
             case and_then (put_instance (ps_instanceId s) i expected [(ps_operationId s, Planned)] w)
                    (enqueue_message (step_message s)) of
               Inr w' \<Rightarrow> Inr w'
             | Inl e \<Rightarrow> if conflict e then Inr (replan w)
                        else if e = Diagnostic ''STATE_IDEMPOTENCY_CONFLICT'' then Inr w else Inl e))"

section \<open>The decision on a claimed message\<close>

datatype claim_outcome =
    ClaimConflict
  | ClaimRejected
  | ClaimCompleted bool
  | ClaimRetried bool "jstring option"
  | ClaimBlocked
  | ClaimPerform "component_state option" bool

text \<open>
  What the decision reads besides the instance: the time, the desired deployments, installations, consistent
  instances, losses and bindings, the gate of the effect's deployment (absent without a deployment), and the
  executors and workers of the node. The flag of \<open>ClaimCompleted\<close> and \<open>ClaimRetried\<close> says whether a replan
  is counted, that of \<open>ClaimPerform\<close> whether the effect belongs to a recovery.
\<close>

record claim_context =
  cc_now :: jstring
  cc_deployments :: "plugin_deployment list"
  cc_installations :: "plugin_installation list"
  cc_instances :: "component_instance list"
  cc_losses :: "provider_loss list"
  cc_bindings :: "loaded_binding list"
  cc_gate :: "gate_outcome option"
  cc_live :: "component_instance \<Rightarrow> bool"
  cc_supported :: "executor_kind list"
  cc_workers :: "placement_worker list option"

definition effect_scope :: "reconcile_effect \<Rightarrow> deployment_scope" where
  "effect_scope e = \<lparr>ds_applicationId = re_applicationId e, ds_pluginId = re_pluginId e,
     ds_generation = re_deploymentGeneration e\<rparr>"

definition effect_consumer :: "reconcile_effect \<Rightarrow> deployment_identity" where
  "effect_consumer e = \<lparr>di_applicationId = re_applicationId e, di_pluginId = re_pluginId e\<rparr>"

definition canonical_identities ::
  "(jstring \<Rightarrow> jstring) \<Rightarrow> bool \<Rightarrow> reconcile_effect \<Rightarrow> effect_identity result" where
  "canonical_identities sha256 legacy e =
     (if legacy then legacyReconcileEffectIdentities sha256 (effect_scope e) (re_componentId e) (re_kind e)
      else reconcileEffectIdentities sha256 (effect_scope e) (re_componentId e) (re_kind e) (re_activation e))"

definition canonical_effect :: "effect_identity \<Rightarrow> reconcile_effect \<Rightarrow> bool" where
  "canonical_effect ids e \<longleftrightarrow> re_instanceId e = ei_instanceId ids \<and> re_operationId e = ei_operationId ids \<and>
     re_messageId e = ei_messageId ids"

text \<open>Deep equality of bindings ignores the order of members; it includes the fingerprint.\<close>

definition same_binding :: "json option \<Rightarrow> json option \<Rightarrow> bool" where
  "same_binding a b = (map_option canon a = map_option canon b)"

definition tuple_matches :: "reconcile_effect \<Rightarrow> jstring \<Rightarrow> persisted_instance \<Rightarrow> bool" where
  "tuple_matches e activation i \<longleftrightarrow>
     pci_instanceId i = re_instanceId e \<and> activation = re_activation e \<and>
     pci_applicationId i = re_applicationId e \<and> pci_pluginId i = re_pluginId e \<and>
     pci_componentId i = re_componentId e \<and> pci_deploymentGeneration i = re_deploymentGeneration e \<and>
     pci_observedGeneration i = re_deploymentGeneration e \<and> pci_artifactDigest i = Some (re_artifactDigest e) \<and>
     pci_executor i = re_executor e \<and> pci_workerId i = re_workerId e \<and>
     same_binding (pci_executionBinding i) (re_executionBinding e)"

definition operation_completed :: "jstring \<Rightarrow> persisted_instance \<Rightarrow> bool" where
  "operation_completed operationId i \<longleftrightarrow> pci_completedOperationId i = Some operationId \<or>
     (case pci_completedOperationIds i of None \<Rightarrow> False | Some ids \<Rightarrow> operationId \<in> set ids)"

definition restoration_waits :: "jstring \<Rightarrow> reconcile_effect \<Rightarrow> persisted_instance \<Rightarrow> bool" where
  "restoration_waits now e i \<longleftrightarrow> re_kind e = Start \<and> pci_lifecycle i = CsStarting \<and>
     pci_diagnostic i = Some (js ''LIFECYCLE_RESTORE_FAILED'') \<and> later_than (pci_retryAt i) now"

definition loss_hold :: "provider_loss list \<Rightarrow> deployment_identity \<Rightarrow> jstring \<Rightarrow> provider_loss option" where
  "loss_hold losses consumer generation =
     find (\<lambda>l. pl_consumer l = consumer \<and> pl_deploymentGeneration l = generation \<and>
             (pl_action l = Fail \<or> pl_action l = Suspend)) losses"

definition suspension :: "provider_loss option \<Rightarrow> provider_loss option" where
  "suspension hold = (case hold of Some l \<Rightarrow> if pl_action l = Suspend then Some l else None | None \<Rightarrow> None)"

definition recovery_activation :: "provider_loss option \<Rightarrow> jstring \<Rightarrow> jstring option" where
  "recovery_activation suspended componentId =
     (case suspended of None \<Rightarrow> None
      | Some l \<Rightarrow> (case pl_recoveryActivations l of None \<Rightarrow> None | Some m \<Rightarrow> map_of m componentId))"

definition expected_lifecycle :: "effect_kind \<Rightarrow> component_state" where
  "expected_lifecycle kind =
     (case kind of Prepare \<Rightarrow> CsCreated | Start \<Rightarrow> CsStarting | Drain \<Rightarrow> CsDraining | Stop \<Rightarrow> CsStopping)"

definition retryable_failure :: "jstring \<Rightarrow> reconcile_effect \<Rightarrow> persisted_instance \<Rightarrow> bool" where
  "retryable_failure now e i \<longleftrightarrow> pci_lifecycle i = CsFailed \<and> pci_retryEffect i = Some (re_kind e) \<and>
     \<not> later_than (pci_retryAt i) now"

definition effect_current :: "plugin_deployment option \<Rightarrow> reconcile_effect \<Rightarrow> bool" where
  "effect_current desired e =
     (case desired of None \<Rightarrow> False
      | Some d \<Rightarrow> pd_state d = DeploymentActive \<and> pd_generation d = re_deploymentGeneration e \<and>
          pd_artifactDigest d = re_artifactDigest e)"

definition is_starting :: "reconcile_effect \<Rightarrow> bool" where
  "is_starting e \<longleftrightarrow> re_kind e = Prepare \<or> re_kind e = Start"

definition effect_placement_input :: "claim_context \<Rightarrow> artifact_gate \<Rightarrow> reconcile_effect \<Rightarrow> manifest_component \<Rightarrow> placement_input" where
  "effect_placement_input cx g e c =
     \<lparr>pi_artifactDigest = re_artifactDigest e, pi_componentId = mc_componentId c,
      pi_componentExecutors = mc_executors c,
      pi_grantedPermissions = (case ag_granted g of None \<Rightarrow> VArray [] False | Some v \<Rightarrow> v),
      pi_supportedExecutors = cc_supported cx, pi_workers = cc_workers cx\<rparr>"

text \<open>The checks after the gate: the component, its placement, and the state of the instance.\<close>

definition placement_verdict ::
  "(jstring \<Rightarrow> jstring) \<Rightarrow> claim_context \<Rightarrow> artifact_gate \<Rightarrow> reconcile_effect \<Rightarrow> claim_outcome option" where
  "placement_verdict toASCII cx g e =
     (case find (\<lambda>c. mc_componentId c = re_componentId e) (ag_components g) of
        None \<Rightarrow> Some (ClaimCompleted True)
      | Some c \<Rightarrow>
          if placementIsEligible toASCII (effect_placement_input cx g e c)
               \<lparr>cp_executor = re_executor e, cp_workerId = re_workerId e\<rparr>
          then None else Some (ClaimRetried True None))"

definition lifecycle_decision :: "jstring \<Rightarrow> bool \<Rightarrow> reconcile_effect \<Rightarrow> persisted_instance \<Rightarrow> claim_outcome" where
  "lifecycle_decision now exactRecovery e i =
     (let retryable = retryable_failure now e i
      in if pci_lifecycle i \<noteq> expected_lifecycle (re_kind e) \<and> \<not> retryable then ClaimCompleted True
         else ClaimPerform
           (if retryable \<and> (re_kind e = Start \<or> re_kind e = Stop) then Some (expected_lifecycle (re_kind e)) else None)
           exactRecovery)"

text \<open>The decision once losses are known: \<open>suspended\<close> and \<open>exactRecovery\<close> as the handler computes them.\<close>

definition admitted_decision ::
  "(jstring \<Rightarrow> jstring) \<Rightarrow> claim_context \<Rightarrow> bool \<Rightarrow> bool \<Rightarrow> reconcile_effect \<Rightarrow> persisted_instance \<Rightarrow> claim_outcome" where
  "admitted_decision toASCII cx suspended exactRecovery e i =
     (let desired = deployment_at (cc_deployments cx) (effect_consumer e)
      in if is_starting e then
           if \<not> effect_current desired e \<or> suspended
           then (if exactRecovery then ClaimRetried True None else ClaimCompleted True)
           else
             (case cc_gate cx of
                Some (GateReady g) \<Rightarrow>
                  if \<not> ag_resolutionOk g \<or> \<not> ag_permissionAllowed g then ClaimBlocked
                  else (case placement_verdict toASCII cx g e of
                          Some outcome \<Rightarrow> outcome
                        | None \<Rightarrow> lifecycle_decision (cc_now cx) exactRecovery e i)
              | Some (GateError _) \<Rightarrow> ClaimBlocked
              | _ \<Rightarrow> ClaimCompleted True)
         else if \<not> suspended \<and> effect_current desired e then ClaimCompleted True
         else lifecycle_decision (cc_now cx) exactRecovery e i)"

definition recovery_permitted :: "(jstring \<Rightarrow> jstring) \<Rightarrow> claim_context \<Rightarrow> provider_loss option \<Rightarrow> bool \<Rightarrow> bool result" where
  "recovery_permitted sha256 cx suspended exactRecovery =
     (case suspended of
        Some l \<Rightarrow>
          if exactRecovery
          then recoveryPrerequisitesReady sha256 (cc_live cx) l (cc_deployments cx) (cc_installations cx)
                 (cc_instances cx) (cc_bindings cx)
          else Inr False
      | None \<Rightarrow> Inr False)"

definition effect_held :: "provider_loss option \<Rightarrow> bool \<Rightarrow> bool" where
  "effect_held hold permitted \<longleftrightarrow>
     (case hold of Some l \<Rightarrow> pl_action l = Fail | None \<Rightarrow> False) \<or> (suspension hold \<noteq> None \<and> \<not> permitted)"

definition exact_recovery :: "provider_loss option \<Rightarrow> reconcile_effect \<Rightarrow> bool" where
  "exact_recovery hold e \<longleftrightarrow> recovery_activation (suspension hold) (re_componentId e) = Some (re_activation e)"

definition executeClaim ::
  "(jstring \<Rightarrow> jstring) \<Rightarrow> (jstring \<Rightarrow> jstring) \<Rightarrow> (json \<Rightarrow> json result) \<Rightarrow> claim_context \<Rightarrow> effect_world \<Rightarrow>
   effect_message \<Rightarrow> (claim_outcome \<times> reconcile_effect option) result" where
  "executeClaim sha256 toASCII parseBinding cx w message =
     (case parseReconcileEffect parseBinding message of
        Inl _ \<Rightarrow> Inr (ClaimRejected, None)
      | Inr (e, legacyPayload) \<Rightarrow>
          (let current = map_of (ew_instances w) (re_instanceId e);
               legacy = (legacyPayload \<and> (case current of None \<Rightarrow> False | Some (i, _) \<Rightarrow> pci_activation i = None))
           in and_then (canonical_identities sha256 legacy e) (\<lambda>ids.
                if \<not> canonical_effect ids e then Inr (ClaimRejected, Some e)
                else case current of
                  None \<Rightarrow> Inr (ClaimCompleted True, Some e)
                | Some (i, _) \<Rightarrow>
                    and_then (parsePersistedActivation i) (\<lambda>activation.
                      if \<not> tuple_matches e activation i then Inr (ClaimRejected, Some e)
                      else if operation_completed (re_operationId e) i then Inr (ClaimCompleted False, Some e)
                      else if restoration_waits (cc_now cx) e i then Inr (ClaimRetried False (pci_retryAt i), Some e)
                      else if cc_gate cx = Some GateConflict then Inr (ClaimConflict, Some e)
                      else
                        (let hold = loss_hold (cc_losses cx) (effect_consumer e) (re_deploymentGeneration e);
                             exactRecovery = exact_recovery hold e
                         in and_then (recovery_permitted sha256 cx (suspension hold) exactRecovery) (\<lambda>permitted.
                              Inr (admitted_decision toASCII cx (effect_held hold permitted) exactRecovery e i, Some e)))))))"

section \<open>Authorizing the effect of a recovery\<close>

datatype recovery_authorization = RecoveryAbandoned | RecoveryAuthorized | RecoveryRetry | RecoverySuperseded

text \<open>The fields of an effect or an instance that the authorization reads.\<close>

record recovery_subject =
  su_activation :: jstring
  su_applicationId :: jstring
  su_artifactDigest :: "jstring option"
  su_componentId :: jstring
  su_deploymentGeneration :: jstring
  su_instanceId :: jstring
  su_pluginId :: jstring

definition subject_of_effect :: "reconcile_effect \<Rightarrow> recovery_subject" where
  "subject_of_effect e =
     \<lparr>su_activation = re_activation e, su_applicationId = re_applicationId e,
      su_artifactDigest = Some (re_artifactDigest e), su_componentId = re_componentId e,
      su_deploymentGeneration = re_deploymentGeneration e, su_instanceId = re_instanceId e,
      su_pluginId = re_pluginId e\<rparr>"

definition clear_failure :: "persisted_instance \<Rightarrow> persisted_instance" where
  "clear_failure i = i\<lparr>pci_attempt := None, pci_diagnostic := None, pci_retryAt := None, pci_retryEffect := None\<rparr>"

definition world_instances :: "effect_world \<Rightarrow> (persisted_instance \<times> component_instance) list result" where
  "world_instances w =
     map_result (\<lambda>(_, i, r). and_then (parsePersistedActivation i) (\<lambda>a. Inr (i, loaded_value i a r))) (ew_instances w)"

definition subject_matches :: "recovery_subject \<Rightarrow> component_instance \<Rightarrow> bool" where
  "subject_matches su i \<longleftrightarrow>
     ci_instanceId i = su_instanceId su \<and> ci_activation i = su_activation su \<and>
     ci_applicationId i = su_applicationId su \<and> ci_pluginId i = su_pluginId su \<and>
     ci_componentId i = su_componentId su \<and> ci_deploymentGeneration i = su_deploymentGeneration su \<and>
     ci_observedGeneration i = su_deploymentGeneration su \<and> ci_artifactDigest i = su_artifactDigest su"

definition consumer_matches :: "plugin_deployment list \<Rightarrow> recovery_subject \<Rightarrow> bool" where
  "consumer_matches deployments su =
     (case deployment_at deployments \<lparr>di_applicationId = su_applicationId su, di_pluginId = su_pluginId su\<rparr> of
        None \<Rightarrow> False
      | Some d \<Rightarrow> pd_state d = DeploymentActive \<and> pd_generation d = su_deploymentGeneration su \<and>
          Some (pd_artifactDigest d) = su_artifactDigest su)"

text \<open>
  \<open>#authorizeRecoveryEffect\<close>, inside its transaction. A recovery that lost its prerequisites is abandoned: the
  loss forgets its recovery activations and the instance is stopped, written with its activation.
\<close>

definition authorizeRecoveryEffect ::
  "(jstring \<Rightarrow> jstring) \<Rightarrow> claim_context \<Rightarrow> recovery_subject \<Rightarrow> component_state \<Rightarrow> jstring \<Rightarrow> effect_world \<Rightarrow>
   (recovery_authorization \<times> effect_world) result" where
  "authorizeRecoveryEffect sha256 cx su expectedLifecycle expectedRevision w =
     (let key = deploymentKey \<lparr>di_applicationId = su_applicationId su, di_pluginId = su_pluginId su\<rparr>
      in case map_of (ew_losses w) key of
           None \<Rightarrow> Inr (RecoverySuperseded, w)
         | Some (loss, _) \<Rightarrow>
             if pl_action loss \<noteq> Suspend \<or> pl_deploymentGeneration loss \<noteq> su_deploymentGeneration su \<or>
                recovery_activation (Some loss) (su_componentId su) \<noteq> Some (su_activation su)
             then Inr (RecoverySuperseded, w)
             else
               and_then (world_instances w) (\<lambda>instances.
                 case find (\<lambda>(_, v). subject_matches su v) instances of
                   None \<Rightarrow> Inr (RecoverySuperseded, w)
                 | Some (i, v) \<Rightarrow>
                     if ci_lifecycle v \<noteq> expectedLifecycle then Inr (RecoverySuperseded, w)
                     else if ci_revision v \<noteq> expectedRevision then Inr (RecoveryRetry, w)
                     else
                       and_then
                         (if consumer_matches (cc_deployments cx) su
                          then recoveryPrerequisitesReady sha256 (cc_live cx) loss (cc_deployments cx)
                                 (cc_installations cx) (map snd instances) (cc_bindings cx)
                          else Inr False)
                         (\<lambda>ready.
                            if ready then Inr (RecoveryAuthorized, w)
                            else
                              and_then
                                (put_instance (su_instanceId su)
                                  ((clear_failure i)\<lparr>pci_activation := Some (ci_activation v), pci_lifecycle := CsStopped\<rparr>)
                                  (StepRevision expectedRevision) [] w)
                                (\<lambda>w'. Inr (RecoveryAbandoned,
                                   w'\<lparr>ew_losses := AList.update (deploymentKey (pl_consumer loss))
                                        (loss\<lparr>pl_recoveryActivations := None\<rparr>, decimal_string (ew_revision w'))
                                        (ew_losses w')\<rparr>)))))"

section \<open>Performing an effect\<close>

text \<open>
  The first transaction of a claim to perform: the authorization of a recovery, the state a retried start or
  stop is performed in, and the journal entry.
\<close>

definition authorize_effect ::
  "(jstring \<Rightarrow> jstring) \<Rightarrow> claim_context \<Rightarrow> reconcile_effect \<Rightarrow> component_state option \<Rightarrow> bool \<Rightarrow>
   persisted_instance \<Rightarrow> jstring \<Rightarrow> effect_world \<Rightarrow> (recovery_authorization \<times> effect_world) result" where
  "authorize_effect sha256 cx e preState exactRecovery i revision w =
     and_then
       (if exactRecovery
        then authorizeRecoveryEffect sha256 cx (subject_of_effect e) (pci_lifecycle i) revision w
        else Inr (RecoveryAuthorized, w))
       (\<lambda>(authorization, w1).
          if authorization \<noteq> RecoveryAuthorized then Inr (authorization, w1)
          else case preState of
            None \<Rightarrow> Inr (RecoveryAuthorized, w1\<lparr>ew_journal := ew_journal w1 @ [(re_operationId e, Executing)]\<rparr>)
          | Some lifecycle \<Rightarrow>
              and_then (put_instance (re_instanceId e) (i\<lparr>pci_lifecycle := lifecycle\<rparr>) (StepRevision revision)
                          [(re_operationId e, Executing)] w1)
                (\<lambda>w2. Inr (RecoveryAuthorized, w2)))"

text \<open>The second authorization of a recovery, with the revision that was read before the first one.\<close>

definition reauthorize_effect ::
  "(jstring \<Rightarrow> jstring) \<Rightarrow> claim_context \<Rightarrow> reconcile_effect \<Rightarrow> component_state option \<Rightarrow> bool \<Rightarrow>
   persisted_instance \<Rightarrow> jstring \<Rightarrow> effect_world \<Rightarrow> (recovery_authorization \<times> effect_world) result" where
  "reauthorize_effect sha256 cx e preState exactRecovery i revision w =
     (if exactRecovery
      then authorizeRecoveryEffect sha256 cx (subject_of_effect e)
             (case preState of Some lifecycle \<Rightarrow> lifecycle | None \<Rightarrow> pci_lifecycle i) revision w
      else Inr (RecoveryAuthorized, w))"

definition successfulLifecycle :: "effect_kind \<Rightarrow> component_state \<Rightarrow> component_state result" where
  "successfulLifecycle kind lifecycle =
     (let next = (case kind of Prepare \<Rightarrow> CsPreparing | Start \<Rightarrow> CsReady | Stop \<Rightarrow> CsStopped | Drain \<Rightarrow> CsDraining)
      in if lifecycle = next then Inr next else transitionComponentLifecycle lifecycle next)"

definition failedLifecycle :: "component_state \<Rightarrow> component_state result" where
  "failedLifecycle lifecycle =
     (if lifecycle = CsFailed then Inr CsFailed else transitionComponentLifecycle lifecycle CsFailed)"

text \<open>\<open>.filter((operationId, index, all) => all.indexOf(operationId) === index)\<close>\<close>

definition first_occurrences :: "'a list \<Rightarrow> 'a list" where
  "first_occurrences xs = rev (remdups (rev xs))"

definition completed_instance ::
  "reconcile_effect \<Rightarrow> json option \<Rightarrow> component_state \<Rightarrow> persisted_instance \<Rightarrow> persisted_instance" where
  "completed_instance e binding lifecycle i = (clear_failure i)
     \<lparr>pci_lifecycle := lifecycle,
      pci_executionBinding := (if re_kind e = Prepare \<and> binding \<noteq> None then binding else pci_executionBinding i),
      pci_hasStarted := (if re_kind e = Start then Some True else pci_hasStarted i),
      pci_observedGeneration := re_deploymentGeneration e,
      pci_completedOperationId := Some (re_operationId e),
      pci_completedOperationIds := Some (first_occurrences
        ((case pci_completedOperationIds i of None \<Rightarrow> [] | Some ids \<Rightarrow> ids) @ [re_operationId e]))\<rparr>"

definition failed_instance ::
  "reconcile_effect \<Rightarrow> nat \<Rightarrow> jstring \<Rightarrow> component_state \<Rightarrow> persisted_instance \<Rightarrow> persisted_instance" where
  "failed_instance e attempt retryAt lifecycle i = i
     \<lparr>pci_lifecycle := lifecycle, pci_attempt := Some (Num (of_nat attempt)), pci_retryAt := Some retryAt,
      pci_retryEffect := Some (re_kind e),
      pci_diagnostic := Some (js ''LIFECYCLE_'' @
        (case re_kind e of Start \<Rightarrow> js ''START'' | Prepare \<Rightarrow> js ''PREPARE'' | Drain \<Rightarrow> js ''DRAIN'' | Stop \<Rightarrow> js ''STOP'') @
        js ''_FAILED'')\<rparr>"

text \<open>
  The result of an attempt to record an outcome: nothing to record, a revision conflict, or a commit. Between
  the read and the transaction of an attempt other commits may happen (\<open>interfere\<close>).
\<close>

datatype attempt_result = Nothing_recorded effect_world | Conflicted effect_world | Committed effect_world

definition record_attempt ::
  "reconcile_effect \<Rightarrow> (persisted_instance \<Rightarrow> persisted_instance result) \<Rightarrow> journal_status \<Rightarrow>
   (effect_world \<Rightarrow> effect_world) \<Rightarrow> effect_world \<Rightarrow> attempt_result result" where
  "record_attempt e change status interfere w =
     (case map_of (ew_instances w) (re_instanceId e) of
        None \<Rightarrow> Inr (Nothing_recorded w)
      | Some (i, revision) \<Rightarrow>
          and_then (parsePersistedActivation i) (\<lambda>activation.
            if activation \<noteq> re_activation e \<or> pci_deploymentGeneration i \<noteq> re_deploymentGeneration e \<or>
               pci_componentId i \<noteq> re_componentId e
            then Inr (Nothing_recorded (replan w))
            else
              and_then (change i) (\<lambda>i'.
                let w' = interfere w
                in case put_instance (re_instanceId e) i' (StepRevision revision) [(re_operationId e, status)] w' of
                     Inl _ \<Rightarrow> Inr (Conflicted (replan w'))
                   | Inr w'' \<Rightarrow> Inr (Committed w''))))"

fun record_outcome ::
  "reconcile_effect \<Rightarrow> (persisted_instance \<Rightarrow> persisted_instance result) \<Rightarrow> journal_status \<Rightarrow> message_state \<Rightarrow>
   (effect_world \<Rightarrow> effect_world) list \<Rightarrow> effect_world \<Rightarrow> effect_world result" where
  "record_outcome e change status ack [] w = Inr w"
| "record_outcome e change status ack (interfere # rest) w =
     and_then (record_attempt e change status interfere w) (\<lambda>r.
       case r of
         Nothing_recorded w' \<Rightarrow> Inr w'
       | Conflicted w' \<Rightarrow> record_outcome e change status ack rest w'
       | Committed w' \<Rightarrow> Inr (acknowledge (re_messageId e) ack w'))"

text \<open>\<open>#commitEffect\<close> and \<open>#commitFailedEffect\<close>: three attempts, the list of interferences has three elements.\<close>

definition commitEffect ::
  "reconcile_effect \<Rightarrow> json option \<Rightarrow> (effect_world \<Rightarrow> effect_world) list \<Rightarrow> effect_world \<Rightarrow> effect_world result" where
  "commitEffect e binding interferences w =
     record_outcome e
       (\<lambda>i. and_then (successfulLifecycle (re_kind e) (pci_lifecycle i))
              (\<lambda>lifecycle. Inr (completed_instance e binding lifecycle i)))
       Completed MessageCompleted interferences w"

definition failure_retry_at :: "reconcile_effect \<Rightarrow> nat \<Rightarrow> int \<Rightarrow> jstring result" where
  "failure_retry_at e attempt epochMs =
     and_then (deterministicRetryDelay
         \<lparr>ri_attempt = Num (of_nat attempt), ri_baseDelayMs = Num 1000, ri_maxDelayMs = Num 60000,
          ri_operationId = re_operationId e\<rparr>)
       (\<lambda>delay. toISOString (epochMs + delay))"

definition commitFailedEffect ::
  "reconcile_effect \<Rightarrow> nat \<Rightarrow> int \<Rightarrow> (effect_world \<Rightarrow> effect_world) list \<Rightarrow> effect_world \<Rightarrow> effect_world result" where
  "commitFailedEffect e attempt epochMs interferences w =
     and_then (failure_retry_at e attempt epochMs) (\<lambda>retryAt.
       record_outcome e
         (\<lambda>i. and_then (failedLifecycle (pci_lifecycle i))
                (\<lambda>lifecycle. Inr (failed_instance e attempt retryAt lifecycle i)))
         Failed (MessageRetry retryAt) interferences w)"

text \<open>\<open>#retryClaim\<close>: the requested time where it lies ahead, a minute from now otherwise.\<close>

definition retry_claim_at :: "int \<Rightarrow> jstring option \<Rightarrow> jstring result" where
  "retry_claim_at epochMs requested =
     toISOString (case (case requested of None \<Rightarrow> None | Some t \<Rightarrow> parse_iso t) of
                    Some ahead \<Rightarrow> if ahead > epochMs then ahead else epochMs + 60000
                  | None \<Rightarrow> epochMs + 60000)"

definition retryClaim :: "jstring \<Rightarrow> jstring option \<Rightarrow> int \<Rightarrow> effect_world \<Rightarrow> effect_world result" where
  "retryClaim messageId requested epochMs w =
     and_then (retry_claim_at epochMs requested) (\<lambda>t. Inr (acknowledge messageId (MessageRetry t) w))"

text \<open>\<open>#rejectInvalidClaim\<close>\<close>

definition rejectInvalidClaim :: "effect_message \<Rightarrow> int \<Rightarrow> effect_world \<Rightarrow> effect_world result" where
  "rejectInvalidClaim message epochMs w =
     retryClaim (em_messageId message) None epochMs
       (w\<lparr>ew_journal := ew_journal w @ [(em_operationId message, Failed)]\<rparr>)"

section \<open>Handling a claim\<close>

text \<open>What the handler does with a decision that performs nothing; a blocked deployment is also observed.\<close>

definition settle_claim :: "claim_outcome \<Rightarrow> effect_message \<Rightarrow> int \<Rightarrow> effect_world \<Rightarrow> effect_world result" where
  "settle_claim outcome message epochMs w =
     (case outcome of
        ClaimConflict \<Rightarrow> Inr w
      | ClaimRejected \<Rightarrow> rejectInvalidClaim message epochMs w
      | ClaimCompleted counted \<Rightarrow>
          Inr (acknowledge (em_messageId message) MessageCompleted (if counted then replan w else w))
      | ClaimRetried counted requested \<Rightarrow>
          retryClaim (em_messageId message) requested epochMs (if counted then replan w else w)
      | ClaimBlocked \<Rightarrow> retryClaim (em_messageId message) None epochMs (replan w)
      | ClaimPerform _ _ \<Rightarrow> Inr w)"

text \<open>An effect that was not authorized is retried or given up.\<close>

definition refuse_effect :: "recovery_authorization \<Rightarrow> effect_message \<Rightarrow> int \<Rightarrow> effect_world \<Rightarrow> effect_world result" where
  "refuse_effect authorization message epochMs w =
     (if authorization = RecoveryRetry then retryClaim (em_messageId message) None epochMs (replan w)
      else Inr (acknowledge (em_messageId message) MessageCompleted (replan w)))"

definition record_performed :: "reconcile_effect \<Rightarrow> effect_world \<Rightarrow> effect_world" where
  "record_performed e w = w\<lparr>ew_performed := ew_performed w @ [e]\<rparr>"

end
