(* ===== verification/Effect_System.thy ===== *)
theory Effect_System
  imports Effects
begin

text \<open>
  The reconciler's effects as a transition system. A step plans an effect, settles a claimed message,
  performs an effect and records its success or its failure, is interrupted after the effect, or is refused
  by the authorization. The handlers of one reconciler do not overlap, and the fencing of the store keeps a
  former one from committing, so the recording steps run without interference.
\<close>

record reconcile_env =
  rv_sha256 :: "jstring \<Rightarrow> jstring"
  rv_toASCII :: "jstring \<Rightarrow> jstring"
  rv_parseBinding :: "json \<Rightarrow> json result"

text \<open>A claim that is to be performed, authorized twice: the effect and the world it is performed in.\<close>

definition performs ::
  "reconcile_env \<Rightarrow> claim_context \<Rightarrow> effect_message \<Rightarrow> effect_world \<Rightarrow> reconcile_effect \<Rightarrow> effect_world \<Rightarrow> bool" where
  "performs env cx message w e w' \<longleftrightarrow>
     (\<exists>preState recovery i revision w1.
        executeClaim (rv_sha256 env) (rv_toASCII env) (rv_parseBinding env) cx w message =
          Inr (ClaimPerform preState recovery, Some e) \<and>
        map_of (ew_instances w) (re_instanceId e) = Some (i, revision) \<and>
        authorize_effect (rv_sha256 env) cx e preState recovery i revision w = Inr (RecoveryAuthorized, w1) \<and>
        reauthorize_effect (rv_sha256 env) cx e preState recovery i revision w1 = Inr (RecoveryAuthorized, w'))"

inductive reconcile_step :: "reconcile_env \<Rightarrow> effect_world \<Rightarrow> effect_world \<Rightarrow> bool" for env where
  step_planned:
    "persistStep deployments d s w = Inr w' \<Longrightarrow> reconcile_step env w w'"
| step_settled:
    "executeClaim (rv_sha256 env) (rv_toASCII env) (rv_parseBinding env) cx w message = Inr (outcome, e) \<Longrightarrow>
     settle_claim outcome message epochMs w = Inr w' \<Longrightarrow> reconcile_step env w w'"
| step_refused:
    "executeClaim (rv_sha256 env) (rv_toASCII env) (rv_parseBinding env) cx w message =
       Inr (ClaimPerform preState recovery, Some e) \<Longrightarrow>
     map_of (ew_instances w) (re_instanceId e) = Some (i, revision) \<Longrightarrow>
     authorize_effect (rv_sha256 env) cx e preState recovery i revision w = Inr (authorization, w1) \<Longrightarrow>
     authorization \<noteq> RecoveryAuthorized \<Longrightarrow>
     refuse_effect authorization message epochMs w1 = Inr w' \<Longrightarrow> reconcile_step env w w'"
| step_refused_again:
    "executeClaim (rv_sha256 env) (rv_toASCII env) (rv_parseBinding env) cx w message =
       Inr (ClaimPerform preState recovery, Some e) \<Longrightarrow>
     map_of (ew_instances w) (re_instanceId e) = Some (i, revision) \<Longrightarrow>
     authorize_effect (rv_sha256 env) cx e preState recovery i revision w = Inr (RecoveryAuthorized, w1) \<Longrightarrow>
     reauthorize_effect (rv_sha256 env) cx e preState recovery i revision w1 = Inr (authorization, w2) \<Longrightarrow>
     authorization \<noteq> RecoveryAuthorized \<Longrightarrow>
     refuse_effect authorization message epochMs w2 = Inr w' \<Longrightarrow> reconcile_step env w w'"
| step_performed:
    "performs env cx message w e w1 \<Longrightarrow>
     commitEffect e binding [id, id, id] (record_performed e w1) = Inr w' \<Longrightarrow> reconcile_step env w w'"
| step_failed:
    "performs env cx message w e w1 \<Longrightarrow>
     commitFailedEffect e attempt epochMs [id, id, id] (record_performed e w1) = Inr w' \<Longrightarrow> reconcile_step env w w'"
| step_interrupted:
    "performs env cx message w e w1 \<Longrightarrow> reconcile_step env w (record_performed e w1)"

section \<open>The world is well formed\<close>

text \<open>The operation completed last is one of the completed ones; every instance is stored under its own id.\<close>

definition completed_listed :: "persisted_instance \<Rightarrow> bool" where
  "completed_listed i \<longleftrightarrow> (\<forall>op. pci_completedOperationId i = Some op \<longrightarrow>
     (\<exists>ids. pci_completedOperationIds i = Some ids \<and> op \<in> set ids))"

definition world_ok :: "effect_world \<Rightarrow> bool" where
  "world_ok w \<longleftrightarrow> map_ok (ew_instances w) \<and>
     (\<forall>k i r. map_of (ew_instances w) k = Some (i, r) \<longrightarrow> pci_instanceId i = k \<and> completed_listed i)"

lemma world_okD:
  assumes "world_ok w" and "map_of (ew_instances w) k = Some (i, r)"
  shows "pci_instanceId i = k" and "completed_listed i"
  using assms by (auto simp: world_ok_def)

text \<open>
  How an instance may change under a step: its identity stays, its completed operations stay completed, and
  its life cycle follows the component's; only where \<open>stops\<close> allows it may it be stopped from any state.
\<close>

definition same_instance :: "persisted_instance \<Rightarrow> persisted_instance \<Rightarrow> bool" where
  "same_instance i j \<longleftrightarrow>
     pci_instanceId j = pci_instanceId i \<and> pci_applicationId j = pci_applicationId i \<and>
     pci_pluginId j = pci_pluginId i \<and> pci_componentId j = pci_componentId i \<and>
     pci_deploymentGeneration j = pci_deploymentGeneration i"

definition instance_evolves :: "bool \<Rightarrow> persisted_instance \<Rightarrow> persisted_instance \<Rightarrow> bool" where
  "instance_evolves stops i j \<longleftrightarrow>
     same_instance i j \<and> (\<forall>op. operation_completed op i \<longrightarrow> operation_completed op j) \<and>
     (component_step\<^sup>*\<^sup>* (pci_lifecycle i) (pci_lifecycle j) \<or> stops \<and> pci_lifecycle j = CsStopped)"

definition world_evolves :: "(jstring \<Rightarrow> bool) \<Rightarrow> effect_world \<Rightarrow> effect_world \<Rightarrow> bool" where
  "world_evolves stops w w' \<longleftrightarrow>
     (\<forall>k i r. map_of (ew_instances w) k = Some (i, r) \<longrightarrow>
        (\<exists>j r'. map_of (ew_instances w') k = Some (j, r') \<and> instance_evolves (stops k) i j))"

lemma stopped_final: "component_step\<^sup>*\<^sup>* CsStopped t \<Longrightarrow> t = CsStopped"
  by (induction rule: rtranclp_induct) (auto simp: component_step_iff)

lemma instance_evolves_refl [simp]: "instance_evolves stops i i"
  by (simp add: instance_evolves_def same_instance_def)

lemma instance_evolves_mono: "instance_evolves stops i j \<Longrightarrow> (stops \<Longrightarrow> stops') \<Longrightarrow> instance_evolves stops' i j"
  by (auto simp: instance_evolves_def)

lemma instance_evolves_trans: "instance_evolves stops i j \<Longrightarrow> instance_evolves stops j k \<Longrightarrow> instance_evolves stops i k"
  unfolding instance_evolves_def same_instance_def by (metis (no_types, lifting) rtranclp_trans stopped_final)

lemma world_evolves_refl [simp]: "world_evolves stops w w"
  by (simp add: world_evolves_def)

lemma world_evolves_mono: "world_evolves stops w v \<Longrightarrow> (\<And>k. stops k \<Longrightarrow> stops' k) \<Longrightarrow> world_evolves stops' w v"
  unfolding world_evolves_def by (blast intro: instance_evolves_mono)

lemma world_evolves_trans: "world_evolves stops w v \<Longrightarrow> world_evolves stops v u \<Longrightarrow> world_evolves stops w u"
  unfolding world_evolves_def by (meson instance_evolves_trans)

lemma same_instances:
  assumes "ew_instances w' = ew_instances w"
  shows "world_ok w' = world_ok w" "world_evolves stops v w' = world_evolves stops v w" "world_evolves stops w' u = world_evolves stops w u"
  using assms by (simp_all add: world_ok_def world_evolves_def)

text \<open>Steps that leave the instances alone.\<close>

lemma replan_simps [simp]:
  "ew_instances (replan w) = ew_instances w" "ew_performed (replan w) = ew_performed w"
  "ew_outbox (replan w) = ew_outbox w" "ew_losses (replan w) = ew_losses w" "ew_revision (replan w) = ew_revision w"
  by (simp_all add: replan_def)

lemma record_performed_simps [simp]:
  "ew_instances (record_performed e w) = ew_instances w"
  "ew_performed (record_performed e w) = ew_performed w @ [e]"
  by (simp_all add: record_performed_def)

lemma acknowledge_simps [simp]:
  "ew_instances (acknowledge m s w) = ew_instances w" "ew_performed (acknowledge m s w) = ew_performed w"
  by (simp_all add: acknowledge_def split: option.splits)

lemma enqueue_message_frame:
  "enqueue_message m w = Inr w' \<Longrightarrow> ew_instances w' = ew_instances w \<and> ew_performed w' = ew_performed w"
  by (auto simp: enqueue_message_def split: option.splits message_state.splits if_splits)

lemma retryClaim_frame:
  "retryClaim m t now w = Inr w' \<Longrightarrow> ew_instances w' = ew_instances w \<and> ew_performed w' = ew_performed w"
  by (auto simp: retryClaim_def)

lemma settle_claim_frame:
  "settle_claim outcome m now w = Inr w' \<Longrightarrow> ew_instances w' = ew_instances w \<and> ew_performed w' = ew_performed w"
  by (auto simp: settle_claim_def rejectInvalidClaim_def split: claim_outcome.splits if_splits dest!: retryClaim_frame)

lemma refuse_effect_frame:
  "refuse_effect a m now w = Inr w' \<Longrightarrow> ew_instances w' = ew_instances w \<and> ew_performed w' = ew_performed w"
  by (auto simp: refuse_effect_def split: if_splits dest!: retryClaim_frame)

section \<open>Writing an instance\<close>

lemma put_instance_InrE:
  assumes "put_instance k i expected es w = Inr w'"
  shows "ew_instances w' = AList.update k (i, decimal_string (ew_revision w + 1)) (ew_instances w)"
    and "ew_performed w' = ew_performed w" and "ew_losses w' = ew_losses w" and "ew_outbox w' = ew_outbox w"
    and "ew_revision w' = ew_revision w + 1" and "expected_here (ew_instances w) k expected"
  using assms by (auto simp: put_instance_def split: if_splits)

lemma put_new:
  assumes "put_instance k j expected es w = Inr w'" and "map_of (ew_instances w) k = None"
    and "pci_instanceId j = k" and "completed_listed j" and "world_ok w"
  shows "world_ok w' \<and> world_evolves stops w w'"
  using assms by (auto simp: world_ok_def world_evolves_def put_instance_InrE(1) update_conv' split: if_splits)

lemma put_evolved:
  assumes "put_instance k j expected es w = Inr w'" and "map_of (ew_instances w) k = Some (i, r)"
    and "instance_evolves (stops k) i j" and "completed_listed j" and "world_ok w"
  shows "world_ok w' \<and> world_evolves stops w w'"
  using assms
  by (auto simp: world_ok_def world_evolves_def put_instance_InrE(1) update_conv' instance_evolves_def same_instance_def split: if_splits)

lemma preEffectLifecycle_step: "preEffectLifecycle kind l = Inr l' \<Longrightarrow> l' = l \<or> component_step l l'"
  by (auto simp: preEffectLifecycle_def component_step_def transitionComponentLifecycle_def
      split: effect_kind.splits if_splits)

lemma successfulLifecycle_step: "successfulLifecycle kind l = Inr l' \<Longrightarrow> l' = l \<or> component_step l l'"
  by (auto simp: successfulLifecycle_def component_step_def transitionComponentLifecycle_def Let_def
      split: effect_kind.splits if_splits)

lemma failedLifecycle_step: "failedLifecycle l = Inr l' \<Longrightarrow> l' = l \<or> component_step l l'"
  by (auto simp: failedLifecycle_def component_step_def transitionComponentLifecycle_def split: if_splits)

lemma operation_completed_cong:
  "pci_completedOperationId j = pci_completedOperationId i \<Longrightarrow>
   pci_completedOperationIds j = pci_completedOperationIds i \<Longrightarrow>
   operation_completed op j = operation_completed op i"
  by (simp add: operation_completed_def)

lemma completed_listed_cong:
  "pci_completedOperationId j = pci_completedOperationId i \<Longrightarrow>
   pci_completedOperationIds j = pci_completedOperationIds i \<Longrightarrow> completed_listed j = completed_listed i"
  by (simp add: completed_listed_def)

lemma stepped_instance_evolves:
  assumes "stepped_instance s i = Inr j"
  shows "instance_evolves stops i j" and "completed_listed j = completed_listed i"
proof -
  from assms obtain l where l: "preEffectLifecycle (re_kind (ps_effect s)) (pci_lifecycle i) = Inr l"
    "pci_lifecycle j = l" "same_instance i j"
    "pci_completedOperationId j = pci_completedOperationId i"
    "pci_completedOperationIds j = pci_completedOperationIds i"
    by (auto simp: stepped_instance_def same_instance_def Let_def split: if_splits)
  have "operation_completed op j = operation_completed op i" for op using l by (intro operation_completed_cong)
  with l preEffectLifecycle_step [OF l(1)] show "instance_evolves stops i j"
    by (auto simp: instance_evolves_def)
  show "completed_listed j = completed_listed i" using l by (intro completed_listed_cong)
qed

lemma set_first_occurrences [simp]: "set (first_occurrences xs) = set xs"
  by (simp add: first_occurrences_def)

lemma completed_instance_evolves:
  assumes "successfulLifecycle (re_kind e) (pci_lifecycle i) = Inr l" and "completed_listed i"
  shows "instance_evolves stops i (completed_instance e b l i)" and "completed_listed (completed_instance e b l i)"
    and "operation_completed (re_operationId e) (completed_instance e b l i)"
  using assms(2) successfulLifecycle_step [OF assms(1)]
  by (cases "pci_completedOperationId i"; cases "pci_completedOperationIds i";
      auto simp: instance_evolves_def same_instance_def completed_instance_def clear_failure_def completed_listed_def
        operation_completed_def)+

lemma failed_instance_evolves:
  assumes "failedLifecycle (pci_lifecycle i) = Inr l"
  shows "instance_evolves stops i (failed_instance e n t l i)"
  using failedLifecycle_step [OF assms]
  by (auto simp: instance_evolves_def same_instance_def failed_instance_def operation_completed_def)

lemma failed_instance_listed: "completed_listed (failed_instance e n t l i) = completed_listed i"
  by (simp add: failed_instance_def completed_listed_def)

section \<open>Every step\<close>

lemma persistStep_ok:
  assumes "persistStep deployments d s w = Inr w'" and "world_ok w"
  shows "world_ok w' \<and> world_evolves stops w w' \<and> ew_performed w' = ew_performed w"
proof -
  consider (same) "ew_instances w' = ew_instances w" "ew_performed w' = ew_performed w"
    | (put) i expected w1 where "put_instance (ps_instanceId s) i expected [(ps_operationId s, Planned)] w = Inr w1"
        "enqueue_message (step_message s) w1 = Inr w'"
        "(case map_of (ew_instances w) (ps_instanceId s) of None \<Rightarrow> i = new_instance s
          | Some (j, r) \<Rightarrow> stepped_instance s j = Inr i)"
  proof (cases "deployment_unchanged deployments d \<and> expected_here (ew_instances w) (ps_instanceId s) (ps_expectedRevision s)")
    case False
    then have "w' = replan w" using assms(1) by (auto simp: persistStep_def split: if_splits)
    then show ?thesis by (intro same) simp_all
  next
    case True
    let ?source = "case map_of (ew_instances w) (ps_instanceId s) of None \<Rightarrow> Inr (new_instance s, StepAbsent)
      | Some (j, r) \<Rightarrow> and_then (stepped_instance s j) (\<lambda>i. Inr (i, StepRevision r))"
    from True assms(1) obtain i expected where source: "?source = Inr (i, expected)"
      by (cases ?source) (auto simp: persistStep_def)
    let ?stored = "and_then (put_instance (ps_instanceId s) i expected [(ps_operationId s, Planned)] w)
      (enqueue_message (step_message s))"
    from True source assms(1) have stored: "case ?stored of Inr v \<Rightarrow> w' = v | Inl e \<Rightarrow> w' = w \<or> w' = replan w"
      by (auto simp: persistStep_def split: sum.splits if_splits)
    show ?thesis
    proof (cases ?stored)
      case (Inl e)
      with stored show ?thesis by (auto intro: same)
    next
      case (Inr v)
      with stored source show ?thesis by (auto intro!: put split: option.splits)
    qed
  qed
  then show ?thesis
  proof cases
    case same
    with assms(2) show ?thesis by (simp add: world_ok_def world_evolves_def)
  next
    case put
    have "world_ok w1 \<and> world_evolves stops w w1"
    proof (cases "map_of (ew_instances w) (ps_instanceId s)")
      case None
      with put assms(2) show ?thesis
        by (intro put_new [OF put(1)]) (simp_all add: new_instance_def Let_def completed_listed_def)
    next
      case (Some jr)
      then obtain j r where j: "map_of (ew_instances w) (ps_instanceId s) = Some (j, r)" "stepped_instance s j = Inr i"
        using put(3) by (cases jr) auto
      then have "completed_listed i"
        using world_okD(2) [OF assms(2) j(1)] stepped_instance_evolves(2) by blast
      with j show ?thesis
        by (intro put_evolved [OF put(1) j(1)] stepped_instance_evolves(1) assms(2))
    qed
    moreover have "ew_instances w' = ew_instances w1" "ew_performed w' = ew_performed w"
      using enqueue_message_frame [OF put(2)] put_instance_InrE(2) [OF put(1)] by simp_all
    ultimately show ?thesis by (simp add: world_ok_def world_evolves_def)
  qed
qed

lemma record_attempt_committed:
  assumes "record_attempt e change status id w = Inr r"
  shows "case r of
      Nothing_recorded w' \<Rightarrow> ew_instances w' = ew_instances w \<and> ew_performed w' = ew_performed w
    | Conflicted w' \<Rightarrow> False
    | Committed w' \<Rightarrow> (\<exists>i revision i'. map_of (ew_instances w) (re_instanceId e) = Some (i, revision) \<and>
        change i = Inr i' \<and>
        put_instance (re_instanceId e) i' (StepRevision revision) [(re_operationId e, status)] w = Inr w')"
  using assms
  by (auto simp: record_attempt_def put_instance_def expected_here_def Let_def
      split: option.splits if_splits sum.splits)

lemma record_outcome_ok:
  assumes "record_outcome e change status ack (id # rest) w = Inr w'" and "world_ok w"
    and change: "\<And>i i'. completed_listed i \<Longrightarrow> change i = Inr i' \<Longrightarrow> (\<forall>stops. instance_evolves stops i i') \<and> completed_listed i'"
  shows "world_ok w' \<and> world_evolves stops w w' \<and> ew_performed w' = ew_performed w"
proof -
  from assms(1) obtain r where r: "record_attempt e change status id w = Inr r"
    "(case r of Nothing_recorded v \<Rightarrow> Inr v | Conflicted v \<Rightarrow> record_outcome e change status ack rest v
      | Committed v \<Rightarrow> Inr (acknowledge (re_messageId e) ack v)) = Inr w'" by auto
  show ?thesis
  proof (cases r)
    case (Nothing_recorded v)
    with r record_attempt_committed [OF r(1)] assms(2) show ?thesis by (simp add: world_ok_def world_evolves_def)
  next
    case (Conflicted v)
    with record_attempt_committed [OF r(1)] show ?thesis by simp
  next
    case (Committed v)
    with record_attempt_committed [OF r(1)] obtain i revision i' where
      i: "map_of (ew_instances w) (re_instanceId e) = Some (i, revision)" "change i = Inr i'"
      "put_instance (re_instanceId e) i' (StepRevision revision) [(re_operationId e, status)] w = Inr v" by auto
    from change [OF world_okD(2) [OF assms(2) i(1)] i(2)] have "world_ok v \<and> world_evolves stops w v"
      by (intro put_evolved [OF i(3,1)] assms(2)) simp_all
    then show ?thesis
      using Committed r(2) put_instance_InrE(2) [OF i(3)] same_instances [OF acknowledge_simps(1)] by auto
  qed
qed

lemma commitEffect_ok:
  assumes "commitEffect e binding [id, id, id] w = Inr w'" and "world_ok w"
  shows "world_ok w' \<and> world_evolves stops w w' \<and> ew_performed w' = ew_performed w"
  using assms unfolding commitEffect_def
  by (intro record_outcome_ok [OF _ assms(2)]) (auto intro: completed_instance_evolves)

lemma commitFailedEffect_ok:
  assumes "commitFailedEffect e n now [id, id, id] w = Inr w'" and "world_ok w"
  shows "world_ok w' \<and> world_evolves stops w w' \<and> ew_performed w' = ew_performed w"
proof -
  from assms(1) obtain t where "record_outcome e (\<lambda>i. and_then (failedLifecycle (pci_lifecycle i))
      (\<lambda>lifecycle. Inr (failed_instance e n t lifecycle i))) Failed (MessageRetry t) [id, id, id] w = Inr w'"
    unfolding commitFailedEffect_def by auto
  then show ?thesis
    by (rule record_outcome_ok [OF _ assms(2)])
      (auto simp: failed_instance_evolves failed_instance_listed)
qed

text \<open>An abandoned recovery stops the instance its subject names.\<close>

lemma find_list_all2:
  assumes "list_all2 P xs ys" and "find Q ys = Some y"
  shows "\<exists>x \<in> set xs. P x y"
  using assms by (induction rule: list_all2_induct) (auto split: if_splits)

lemma world_instances_mem:
  assumes "world_instances w = Inr vs" and "find Q vs = Some (i, v)" and "map_ok (ew_instances w)"
  shows "\<exists>k r a. map_of (ew_instances w) k = Some (i, r) \<and> v = loaded_value i a r \<and> parsePersistedActivation i = Inr a"
proof -
  from assms(1) have "list_all2 (\<lambda>x y. (case x of (_, i, r) \<Rightarrow> and_then (parsePersistedActivation i)
      (\<lambda>a. Inr (i, loaded_value i a r))) = Inr y) (ew_instances w) vs"
    unfolding world_instances_def map_result_eq_Inr .
  from find_list_all2 [OF this assms(2)] obtain k j r a where
    "(k, j, r) \<in> set (ew_instances w)" "parsePersistedActivation j = Inr a" "(j, loaded_value j a r) = (i, v)"
    by auto
  with assms(3) show ?thesis by (auto simp: map_ok_def map_of_eq_Some_iff)
qed

definition stopped_instance :: "persisted_instance \<Rightarrow> jstring \<Rightarrow> persisted_instance" where
  "stopped_instance i a = (clear_failure i)\<lparr>pci_activation := Some a, pci_lifecycle := CsStopped\<rparr>"

lemma stopped_instance_evolves:
  "instance_evolves True i (stopped_instance i a)" "completed_listed (stopped_instance i a) = completed_listed i"
  by (simp_all add: stopped_instance_def clear_failure_def instance_evolves_def same_instance_def operation_completed_def
      completed_listed_def)

lemma authorizeRecoveryEffect_cases:
  assumes "authorizeRecoveryEffect sha256 cx su l r w = Inr (authorization, w')"
  obtains (unchanged) "w' = w" "authorization \<noteq> RecoveryAbandoned"
  | (abandoned) vs i v w1 where "authorization = RecoveryAbandoned"
      "world_instances w = Inr vs" "find (\<lambda>(_, v). subject_matches su v) vs = Some (i, v)"
      "put_instance (su_instanceId su) (stopped_instance i (ci_activation v)) (StepRevision r) [] w = Inr w1"
      "ew_instances w' = ew_instances w1" "ew_performed w' = ew_performed w1"
proof -
  note d = assms [unfolded authorizeRecoveryEffect_def Let_def, folded stopped_instance_def]
  show ?thesis
  proof (cases "map_of (ew_losses w) (deploymentKey \<lparr>di_applicationId = su_applicationId su, di_pluginId = su_pluginId su\<rparr>)")
    case None
    with d show ?thesis by (intro unchanged) auto
  next
    case (Some lr)
    then obtain loss lrev where loss: "map_of (ew_losses w)
        (deploymentKey \<lparr>di_applicationId = su_applicationId su, di_pluginId = su_pluginId su\<rparr>) = Some (loss, lrev)"
      by (cases lr) auto
    show ?thesis
    proof (cases "pl_action loss \<noteq> Suspend \<or> pl_deploymentGeneration loss \<noteq> su_deploymentGeneration su \<or>
        recovery_activation (Some loss) (su_componentId su) \<noteq> Some (su_activation su)")
      case True
      with d loss show ?thesis by (intro unchanged) auto
    next
      case False
      with d loss obtain vs where vs: "world_instances w = Inr vs" by auto
      show ?thesis
      proof (cases "find (\<lambda>(_, v). subject_matches su v) vs")
        case None
        with d loss False vs show ?thesis by (intro unchanged) auto
      next
        case (Some iv)
        then obtain i v where iv: "find (\<lambda>(_, v). subject_matches su v) vs = Some (i, v)" by (cases iv) auto
        show ?thesis
        proof (cases "ci_lifecycle v \<noteq> l \<or> ci_revision v \<noteq> r")
          case True
          with d loss False vs iv show ?thesis by (intro unchanged) (auto split: if_splits)
        next
          case live: False
          from d loss False vs iv live obtain ready where ready:
            "(if ready then Inr (RecoveryAuthorized, w) else
              and_then (put_instance (su_instanceId su) (stopped_instance i (ci_activation v)) (StepRevision r) [] w)
                (\<lambda>w'. Inr (RecoveryAbandoned, w'\<lparr>ew_losses := AList.update (deploymentKey (pl_consumer loss))
                  (loss\<lparr>pl_recoveryActivations := None\<rparr>, decimal_string (ew_revision w')) (ew_losses w')\<rparr>)))
              = Inr (authorization, w')"
            by auto
          show ?thesis
          proof (cases ready)
            case True
            with ready show ?thesis by (intro unchanged) auto
          next
            case False
            with ready vs iv show ?thesis by (auto intro!: abandoned)
          qed
        qed
      qed
    qed
  qed
qed

lemma authorizeRecoveryEffect_ok:
  assumes "authorizeRecoveryEffect sha256 cx su l r w = Inr (authorization, w')" and "world_ok w"
  shows "world_ok w' \<and> world_evolves (\<lambda>k. authorization = RecoveryAbandoned \<and> k = su_instanceId su) w w' \<and> ew_performed w' = ew_performed w"
  using assms(1)
proof (cases rule: authorizeRecoveryEffect_cases)
  case unchanged
  with assms(2) show ?thesis by simp
next
  case (abandoned vs i v w1)
  have "subject_matches su v" using abandoned(3) by (auto simp: find_Some_iff)
  moreover obtain k r' a where k: "map_of (ew_instances w) k = Some (i, r')" "v = loaded_value i a r'"
    using world_instances_mem [OF abandoned(2,3)] assms(2) by (auto simp: world_ok_def)
  ultimately have "k = su_instanceId su"
    using world_okD(1) [OF assms(2) k(1)] by (simp add: subject_matches_def loaded_value_def)
  with k have here: "map_of (ew_instances w) (su_instanceId su) = Some (i, r')" by simp
  have "world_ok w1 \<and> world_evolves (\<lambda>k. authorization = RecoveryAbandoned \<and> k = su_instanceId su) w w1"
    using world_okD(2) [OF assms(2) here]
    by (intro put_evolved [OF abandoned(4) here] assms(2)) (simp_all add: stopped_instance_evolves abandoned(1))
  with abandoned(6) put_instance_InrE(2) [OF abandoned(4)] same_instances [OF abandoned(5)] show ?thesis by simp
qed

lemma authorizeRecoveryEffect_authorized:
  "authorizeRecoveryEffect sha256 cx su l r w = Inr (RecoveryAuthorized, w') \<Longrightarrow> w' = w"
  by (erule authorizeRecoveryEffect_cases) simp_all

section \<open>When an effect is performed\<close>

lemma lifecycle_performed:
  assumes "lifecycle_decision now exactRecovery e i = ClaimPerform preState recovery"
  shows "recovery = exactRecovery"
    and "(preState = None \<and> (pci_lifecycle i = expected_lifecycle (re_kind e) \<or>
           pci_lifecycle i = CsFailed \<and> re_kind e \<in> {Prepare, Drain})) \<or>
         (preState = Some (expected_lifecycle (re_kind e)) \<and> pci_lifecycle i = CsFailed \<and> re_kind e \<in> {Start, Stop})"
  using assms by (cases "re_kind e"; auto simp: lifecycle_decision_def retryable_failure_def Let_def split: if_splits)+

lemma admitted_performed:
  assumes "admitted_decision toASCII cx suspended exactRecovery e i = ClaimPerform preState recovery"
  shows "lifecycle_decision (cc_now cx) exactRecovery e i = ClaimPerform preState recovery"
    and "is_starting e \<Longrightarrow> \<not> suspended \<and>
      effect_current (deployment_at (cc_deployments cx) (effect_consumer e)) e \<and>
      (\<exists>g c. cc_gate cx = Some (GateReady g) \<and> ag_resolutionOk g \<and> ag_permissionAllowed g \<and>
         find (\<lambda>c. mc_componentId c = re_componentId e) (ag_components g) = Some c \<and>
         placementIsEligible toASCII (effect_placement_input cx g e c)
           \<lparr>cp_executor = re_executor e, cp_workerId = re_workerId e\<rparr>)"
    and "\<not> is_starting e \<Longrightarrow> suspended \<or>
      \<not> effect_current (deployment_at (cc_deployments cx) (effect_consumer e)) e"
  using assms
  by (auto simp: admitted_decision_def placement_verdict_def Let_def
      split: if_splits option.splits gate_outcome.splits)

lemma executeClaim_effect:
  assumes "executeClaim sha256 toASCII parse cx w message = Inr (ClaimPerform preState recovery, eo)"
  obtains e legacy ids i revision activation permitted where
    "eo = Some e" "parseReconcileEffect parse message = Inr (e, legacy)"
    "map_of (ew_instances w) (re_instanceId e) = Some (i, revision)"
    "canonical_identities sha256 (legacy \<and> pci_activation i = None) e = Inr ids" "canonical_effect ids e"
    "parsePersistedActivation i = Inr activation" "tuple_matches e activation i"
    "\<not> operation_completed (re_operationId e) i"
    "recovery_permitted sha256 cx (suspension (loss_hold (cc_losses cx) (effect_consumer e) (re_deploymentGeneration e)))
       recovery = Inr permitted"
    "recovery = exact_recovery (loss_hold (cc_losses cx) (effect_consumer e) (re_deploymentGeneration e)) e"
    "admitted_decision toASCII cx
       (effect_held (loss_hold (cc_losses cx) (effect_consumer e) (re_deploymentGeneration e)) permitted)
       recovery e i = ClaimPerform preState recovery"
proof -
  note d = assms [unfolded executeClaim_def Let_def]
  from d obtain e legacy where e: "parseReconcileEffect parse message = Inr (e, legacy)"
    by (auto split: sum.splits)
  note d = d [unfolded e, simplified]
  from d obtain i revision where i: "map_of (ew_instances w) (re_instanceId e) = Some (i, revision)"
    by (auto split: option.splits if_splits)
  note d = d [unfolded i, simplified]
  from d obtain ids where ids: "canonical_identities sha256 (legacy \<and> pci_activation i = None) e = Inr ids"
    "canonical_effect ids e" by (auto split: if_splits)
  note d = d [unfolded ids(1), simplified, simplified ids(2), simplified]
  from d obtain activation where activation: "parsePersistedActivation i = Inr activation" by auto
  note d = d [unfolded activation, simplified]
  define hold where "hold = loss_hold (cc_losses cx) (effect_consumer e) (re_deploymentGeneration e)"
  from d obtain permitted where permitted: "tuple_matches e activation i" "\<not> operation_completed (re_operationId e) i"
    "recovery_permitted sha256 cx (suspension hold) (exact_recovery hold e) = Inr permitted"
    "admitted_decision toASCII cx (effect_held hold permitted) (exact_recovery hold e) e i = ClaimPerform preState recovery"
    "eo = Some e"
    unfolding hold_def by (auto split: if_splits)
  have "recovery = exact_recovery hold e"
    using lifecycle_performed(1) [OF admitted_performed(1) [OF permitted(4)]] .
  with permitted e i ids activation show ?thesis
    unfolding hold_def by (intro that) simp_all
qed

lemma preState_step:
  assumes "executeClaim sha256 toASCII parse cx w message = Inr (ClaimPerform preState recovery, Some e)"
    and "map_of (ew_instances w) (re_instanceId e) = Some (i, revision)" and "preState = Some l"
  shows "component_step (pci_lifecycle i) l"
proof -
  obtain suspended where
    "admitted_decision toASCII cx suspended recovery e i = ClaimPerform preState recovery"
    by (rule executeClaim_effect [OF assms(1)]) (use assms(2) in auto)
  from lifecycle_performed(2) [OF admitted_performed(1) [OF this]] assms(3) show ?thesis
    by (cases "re_kind e") (auto simp: component_step_iff expected_lifecycle_def)
qed

lemma authorize_effect_ok:
  assumes "authorize_effect sha256 cx e preState recovery i revision w = Inr (authorization, w')"
    and "map_of (ew_instances w) (re_instanceId e) = Some (i, revision)" and "world_ok w"
    and "\<And>l. preState = Some l \<Longrightarrow> component_step (pci_lifecycle i) l"
  shows "world_ok w' \<and> world_evolves (\<lambda>k. authorization = RecoveryAbandoned \<and> k = re_instanceId e) w w' \<and> ew_performed w' = ew_performed w"
proof -
  from assms(1) obtain w1 where w1: "(if recovery then authorizeRecoveryEffect sha256 cx (subject_of_effect e)
      (pci_lifecycle i) revision w else Inr (RecoveryAuthorized, w)) = Inr (authorization, w1)"
    and rest: "authorization \<noteq> RecoveryAuthorized \<longrightarrow> w' = w1"
      "authorization = RecoveryAuthorized \<longrightarrow> (case preState of
        None \<Rightarrow> w' = w1\<lparr>ew_journal := ew_journal w1 @ [(re_operationId e, Executing)]\<rparr>
      | Some l \<Rightarrow> put_instance (re_instanceId e) (i\<lparr>pci_lifecycle := l\<rparr>) (StepRevision revision)
          [(re_operationId e, Executing)] w1 = Inr w')"
    unfolding authorize_effect_def
    by (auto split: if_splits option.splits)
  show ?thesis
  proof (cases "authorization = RecoveryAuthorized")
    case False
    with w1 rest assms(3) show ?thesis by (auto split: if_splits dest: authorizeRecoveryEffect_ok simp: subject_of_effect_def)
  next
    case True
    with w1 have same: "w1 = w" by (auto split: if_splits dest: authorizeRecoveryEffect_authorized)
    show ?thesis
    proof (cases preState)
      case None
      with rest True same assms(3) show ?thesis by (simp add: world_ok_def world_evolves_def)
    next
      case (Some l)
      with rest True same have put: "put_instance (re_instanceId e) (i\<lparr>pci_lifecycle := l\<rparr>)
          (StepRevision revision) [(re_operationId e, Executing)] w = Inr w'" by simp
      have "instance_evolves stops i (i\<lparr>pci_lifecycle := l\<rparr>)" "completed_listed (i\<lparr>pci_lifecycle := l\<rparr>)" for stops
        using assms(4) [OF Some] world_okD(2) [OF assms(3,2)]
        by (auto simp: instance_evolves_def same_instance_def operation_completed_def completed_listed_def)
      then show ?thesis
        using put_evolved [OF put assms(2) _ _ assms(3)] put_instance_InrE(2) [OF put] by simp
    qed
  qed
qed

lemma reauthorize_effect_ok:
  assumes "reauthorize_effect sha256 cx e preState recovery i revision w = Inr (authorization, w')" and "world_ok w"
  shows "world_ok w' \<and> world_evolves (\<lambda>k. authorization = RecoveryAbandoned \<and> k = re_instanceId e) w w' \<and> ew_performed w' = ew_performed w"
  using assms by (auto simp: reauthorize_effect_def subject_of_effect_def split: if_splits dest: authorizeRecoveryEffect_ok)

lemma performs_ok:
  assumes "performs env cx message w e w1" and "world_ok w"
  shows "world_ok w1 \<and> world_evolves stops w w1 \<and> ew_performed w1 = ew_performed w"
proof -
  from assms(1) obtain preState recovery i revision w0 where
    claim: "executeClaim (rv_sha256 env) (rv_toASCII env) (rv_parseBinding env) cx w message =
      Inr (ClaimPerform preState recovery, Some e)"
    and i: "map_of (ew_instances w) (re_instanceId e) = Some (i, revision)"
    and w0: "authorize_effect (rv_sha256 env) cx e preState recovery i revision w = Inr (RecoveryAuthorized, w0)"
    and w1: "reauthorize_effect (rv_sha256 env) cx e preState recovery i revision w0 = Inr (RecoveryAuthorized, w1)"
    unfolding performs_def by blast
  from authorize_effect_ok [OF w0 i assms(2) preState_step [OF claim i]] reauthorize_effect_ok [OF w1]
  have "world_ok w1 \<and> world_evolves (\<lambda>_. False) w w1 \<and> ew_performed w1 = ew_performed w"
    by (auto intro: world_evolves_trans)
  then show ?thesis by (auto intro: world_evolves_mono)
qed

text \<open>The step refuses an effect of the instance because its recovery was abandoned.\<close>

definition recovery_abandoned :: "reconcile_env \<Rightarrow> jstring \<Rightarrow> effect_world \<Rightarrow> effect_world \<Rightarrow> bool" where
  "recovery_abandoned env k w w' \<longleftrightarrow>
     (\<exists>cx message preState e i revision w0 w1 epochMs.
        executeClaim (rv_sha256 env) (rv_toASCII env) (rv_parseBinding env) cx w message =
          Inr (ClaimPerform preState True, Some e) \<and>
        re_instanceId e = k \<and> map_of (ew_instances w) k = Some (i, revision) \<and>
        (authorize_effect (rv_sha256 env) cx e preState True i revision w = Inr (RecoveryAbandoned, w1) \<or>
         authorize_effect (rv_sha256 env) cx e preState True i revision w = Inr (RecoveryAuthorized, w0) \<and>
         reauthorize_effect (rv_sha256 env) cx e preState True i revision w0 = Inr (RecoveryAbandoned, w1)) \<and>
        refuse_effect RecoveryAbandoned message epochMs w1 = Inr w')"

definition performs_once :: "effect_world \<Rightarrow> effect_world \<Rightarrow> bool" where
  "performs_once w w' \<longleftrightarrow> ew_performed w' = ew_performed w \<or>
     (\<exists>e i r. ew_performed w' = ew_performed w @ [e] \<and> map_of (ew_instances w) (re_instanceId e) = Some (i, r) \<and>
        \<not> operation_completed (re_operationId e) i)"

lemma performs_not_completed:
  assumes "performs env cx message w e w1"
  shows "\<exists>i r. map_of (ew_instances w) (re_instanceId e) = Some (i, r) \<and> \<not> operation_completed (re_operationId e) i"
proof -
  from assms obtain preState recovery where claim:
    "executeClaim (rv_sha256 env) (rv_toASCII env) (rv_parseBinding env) cx w message =
      Inr (ClaimPerform preState recovery, Some e)"
    unfolding performs_def by blast
  show ?thesis by (rule executeClaim_effect [OF claim]) auto
qed

lemma reconcile_step_ok:
  assumes "reconcile_step env w w'" and "world_ok w"
  shows "world_ok w' \<and> world_evolves (\<lambda>k. recovery_abandoned env k w w') w w' \<and> performs_once w w'"
  using assms(1)
proof cases
  case (step_planned deployments d s)
  with persistStep_ok [OF _ assms(2)] show ?thesis by (simp add: performs_once_def)
next
  case (step_settled cx message outcome e epochMs)
  with settle_claim_frame [OF step_settled(2)] same_instances [of w' w] assms(2)
  show ?thesis by (simp add: performs_once_def)
next
  case (step_refused cx message preState recovery e i revision authorization w1 epochMs)
  note authorized = authorize_effect_ok [OF step_refused(3,2) assms(2) preState_step [OF step_refused(1,2)]]
  have "recovery_abandoned env k w w'" if "authorization = RecoveryAbandoned \<and> k = re_instanceId e" for k
  proof -
    have recovery: "recovery = True" using step_refused(3,4) by (cases recovery) (auto simp: authorize_effect_def split: option.splits)
    show ?thesis unfolding recovery_abandoned_def using that step_refused [unfolded recovery] by blast
  qed
  then have "world_evolves (\<lambda>k. recovery_abandoned env k w w') w w1"
    using authorized by (blast intro: world_evolves_mono)
  with authorized refuse_effect_frame [OF step_refused(5)] same_instances [of w' w1]
  show ?thesis by (simp add: performs_once_def)
next
  case (step_refused_again cx message preState recovery e i revision w1 authorization w2 epochMs)
  note authorized = authorize_effect_ok [OF step_refused_again(3,2) assms(2) preState_step [OF step_refused_again(1,2)]]
  note again = reauthorize_effect_ok [OF step_refused_again(4)]
  have "recovery_abandoned env k w w'" if "authorization = RecoveryAbandoned \<and> k = re_instanceId e" for k
  proof -
    have recovery: "recovery = True" using step_refused_again(4,5) by (cases recovery) (auto simp: reauthorize_effect_def)
    show ?thesis unfolding recovery_abandoned_def using that step_refused_again [unfolded recovery] by blast
  qed
  then have "world_evolves (\<lambda>k. recovery_abandoned env k w w') w1 w2"
    using again authorized by (blast intro: world_evolves_mono)
  moreover have "world_evolves (\<lambda>k. recovery_abandoned env k w w') w w1"
    using authorized by (auto intro: world_evolves_mono)
  ultimately have "world_evolves (\<lambda>k. recovery_abandoned env k w w') w w2" by (rule world_evolves_trans [rotated])
  with authorized again refuse_effect_frame [OF step_refused_again(6)] same_instances [of w' w2]
  show ?thesis by (simp add: performs_once_def)
next
  case (step_performed cx message e w1 binding)
  from performs_ok [OF step_performed(1) assms(2), of "\<lambda>k. recovery_abandoned env k w w'"] same_instances [OF record_performed_simps(1)]
    commitEffect_ok [OF step_performed(2), of "\<lambda>k. recovery_abandoned env k w w'"] performs_not_completed [OF step_performed(1)]
  show ?thesis by (auto simp: performs_once_def intro: world_evolves_trans)
next
  case (step_failed cx message e w1 attempt epochMs)
  from performs_ok [OF step_failed(1) assms(2), of "\<lambda>k. recovery_abandoned env k w w'"] same_instances [OF record_performed_simps(1)]
    commitFailedEffect_ok [OF step_failed(2), of "\<lambda>k. recovery_abandoned env k w w'"] performs_not_completed [OF step_failed(1)]
  show ?thesis by (auto simp: performs_once_def intro: world_evolves_trans)
next
  case (step_interrupted cx message e w1)
  from performs_ok [OF step_interrupted(2) assms(2), of "\<lambda>k. recovery_abandoned env k w (record_performed e w1)"] same_instances [OF record_performed_simps(1)]
    performs_not_completed [OF step_interrupted(2)]
  show ?thesis unfolding step_interrupted(1) by (simp add: performs_once_def)
qed

text \<open>Along a run the recovery of the instance was abandoned.\<close>

definition abandoned_during :: "reconcile_env \<Rightarrow> effect_world \<Rightarrow> effect_world \<Rightarrow> jstring \<Rightarrow> bool" where
  "abandoned_during env w w' k \<longleftrightarrow>
     (\<exists>u v. (reconcile_step env)\<^sup>*\<^sup>* w u \<and> recovery_abandoned env k u v \<and> (reconcile_step env)\<^sup>*\<^sup>* v w')"

lemma reconcile_steps_ok:
  assumes "(reconcile_step env)\<^sup>*\<^sup>* w w'" and "world_ok w"
  shows "world_ok w' \<and> world_evolves (abandoned_during env w w') w w'"
  using assms
proof (induction rule: rtranclp_induct)
  case (step v u)
  have "abandoned_during env w u k" if "abandoned_during env w v k" for k
    using that step.hyps(2) unfolding abandoned_during_def by (meson rtranclp.rtrancl_into_rtrancl)
  then have "world_evolves (abandoned_during env w u) w v"
    using step.IH [OF step.prems] by (blast intro: world_evolves_mono)
  moreover have "abandoned_during env w u k" if "recovery_abandoned env k v u" for k
    using that step.hyps(1) unfolding abandoned_during_def by blast
  then have "world_evolves (abandoned_during env w u) v u"
    using reconcile_step_ok [OF step.hyps(2)] step.IH [OF step.prems] by (blast intro: world_evolves_mono)
  ultimately show ?case
    using reconcile_step_ok [OF step.hyps(2)] step.IH [OF step.prems] by (blast intro: world_evolves_trans)
qed simp

end
