(* ===== verification/Plan_Correct.thy ===== *)
theory Plan_Correct
  imports Plan Json_Text
begin

text \<open>
  What the reconcile planner guarantees: the identifier of an effect determines the effect, every step
  fits the life cycle of its instance, work is started only for an admitted deployment, and a plan
  without steps is one of a converged deployment.
\<close>

section \<open>Stable identities\<close>

fun escape_unit :: "code_unit \<Rightarrow> jstring" where
  "escape_unit c = (if c = 95 then [95, 117] else if c = 46 then [95, 100] else [c])"

declare escape_unit.simps [simp del]

lemma replace_unit_append: "replace_unit c r (s @ t) = replace_unit c r s @ replace_unit c r t"
  by (induction s) auto

lemma escape_part_Cons: "escape_part (c # s) = escape_unit c @ escape_part s"
  by (auto simp: escape_part_def escape_unit.simps)

lemma escape_part_Nil [simp]: "escape_part [] = []"
  by (simp add: escape_part_def)

lemma escape_no_dot: "46 \<notin> set (escape_part s)"
  by (induction s) (auto simp: escape_part_Cons escape_unit.simps)

lemma escape_unit_prefix: "escape_unit c @ s = escape_unit d @ t \<Longrightarrow> c = d \<and> s = t"
  by (auto simp: escape_unit.simps split: if_splits)

lemma escape_unit_neq_Nil [simp]: "escape_unit c \<noteq> []"
  by (simp add: escape_unit.simps)

lemma escape_part_inj: "escape_part s = escape_part t \<Longrightarrow> s = t"
proof (induction s arbitrary: t)
  case Nil
  then show ?case by (cases t) (auto simp: escape_part_Cons)
next
  case (Cons c s)
  then show ?case
    by (cases t) (auto simp: escape_part_Cons dest: escape_unit_prefix)
qed

lemma split_on_free: "sep \<notin> set s \<Longrightarrow> split_on sep s = [s]"
  by (induction s) auto

lemma split_on_join:
  "ps \<noteq> [] \<Longrightarrow> \<forall>p \<in> set ps. sep \<notin> set p \<Longrightarrow> split_on sep (join [sep] ps) = ps"
  by (induction ps rule: induct_list012) (auto simp: split_on_free split_on_append)

lemma split_stable_candidate: "ps \<noteq> [] \<Longrightarrow> split_on 46 (stable_candidate ps) = map escape_part ps"
  by (simp add: stable_candidate_def split_on_join escape_no_dot)

fun quoted_tail :: "jstring list \<Rightarrow> jstring" where
  "quoted_tail [] = [93]"
| "quoted_tail (p # ps) = 44 # quoted p @ quoted_tail ps"

lemma join_quoted: "join [44] (map quoted (p # ps)) @ [93] = quoted p @ quoted_tail ps"
  by (induction ps arbitrary: p) simp_all

lemma quoted_tail_inj: "quoted_tail ps = quoted_tail qs \<Longrightarrow> ps = qs"
proof (induction ps arbitrary: qs)
  case Nil
  then show ?case by (cases qs) auto
next
  case (Cons p ps)
  then show ?case by (cases qs) (auto simp: quoted_prefix_inj)
qed

lemma quoted_list_inj:
  "join [44] (map quoted ps) @ [93] = join [44] (map quoted qs) @ [93] \<longleftrightarrow> ps = qs"
proof (cases ps)
  case Nil
  then show ?thesis by (cases qs) (simp_all only: join_quoted, simp_all add: quoted_def)
next
  case (Cons p ps')
  then show ?thesis
    by (cases qs) (simp_all only: join_quoted quoted_prefix_inj, auto simp: quoted_def dest: quoted_tail_inj)
qed

lemma stringify_texts_inj: "stringify (JArr (map JStr ps)) = stringify (JArr (map JStr qs)) \<longleftrightarrow> ps = qs"
  using quoted_list_inj [of ps qs] by (simp add: comp_def)

text \<open>A digest is 64 hexadecimal digits; a collision is two texts with one digest.\<close>

definition hex_digest :: "(jstring \<Rightarrow> jstring) \<Rightarrow> bool" where
  "hex_digest sha256 \<longleftrightarrow> (\<forall>s. length (sha256 s) = 64 \<and> list_all is_hex_digit (sha256 s))"

definition collision :: "(jstring \<Rightarrow> jstring) \<Rightarrow> jstring list \<Rightarrow> jstring list \<Rightarrow> bool" where
  "collision sha256 ps qs \<longleftrightarrow> stringify (JArr (map JStr ps)) \<noteq> stringify (JArr (map JStr qs)) \<and>
     sha256 (stringify (JArr (map JStr ps))) = sha256 (stringify (JArr (map JStr qs)))"

lemma hex_no_dot: "hex_digest sha256 \<Longrightarrow> 46 \<notin> set (sha256 s)"
  by (auto simp: hex_digest_def list_all_iff is_hex_digit_def is_digit_def dest!: spec [of _ s])

lemma last_split_digest:
  "hex_digest sha256 \<Longrightarrow> last (split_on 46 (s @ [46] @ sha256 t)) = sha256 t"
  using split_on_append [of 46 s "sha256 t"] by (simp add: split_on_free hex_no_dot)

lemma portableStableId_inj:
  assumes sha: "hex_digest sha256"
    and ps: "ps \<noteq> []" "length (escape_part (last ps)) < 64"
    and qs: "qs \<noteq> []" "length (escape_part (last qs)) < 64"
    and same: "portableStableId sha256 ps = portableStableId sha256 qs"
  shows "ps = qs \<or> collision sha256 ps qs"
proof -
  let ?long = "\<lambda>ps. 128 < length (stable_candidate ps)"
  have last_part: "length (last (split_on 46 (portableStableId sha256 rs))) = 64 \<longleftrightarrow> ?long rs"
    if "rs \<noteq> []" "length (escape_part (last rs)) < 64" for rs
  proof (cases "?long rs")
    case True
    then have "portableStableId sha256 rs =
        take 63 (stable_candidate rs) @ [46] @ sha256 (stringify (JArr (map JStr rs)))"
      by (simp add: portableStableId_def)
    then show ?thesis using True sha by (simp only: last_split_digest) (simp add: hex_digest_def)
  next
    case False
    then show ?thesis
      using that by (simp add: portableStableId_def split_stable_candidate last_map)
  qed
  show ?thesis
  proof (cases "?long ps")
    case True
    then have "?long qs" using last_part [OF ps] last_part [OF qs] same by simp
    with True same have "sha256 (stringify (JArr (map JStr ps))) = sha256 (stringify (JArr (map JStr qs)))"
      by (simp add: portableStableId_def)
    then show ?thesis by (auto simp only: collision_def stringify_texts_inj)
  next
    case False
    then have "\<not> ?long qs" using last_part [OF ps] last_part [OF qs] same by simp
    with False same have "stable_candidate ps = stable_candidate qs" by (simp add: portableStableId_def)
    then have "map escape_part ps = map escape_part qs"
      using split_stable_candidate [OF ps(1)] split_stable_candidate [OF qs(1)] by simp
    then have "ps = qs"
      by (metis escape_part_inj inj_onI map_inj_on)
    then show ?thesis ..
  qed
qed

section \<open>Steps\<close>

lemma parse_stable_id [simp]: "parseIdentity (JStr s) = Inr t \<longleftrightarrow> IDENTITY_PATTERN s \<and> t = s"
  by (auto simp: parseIdentity_def)

definition effect_parts :: "plan_step \<Rightarrow> jstring list" where
  "effect_parts s =
     (let e = ps_effect s
      in [js ''reconcile'', re_applicationId e, re_pluginId e, re_componentId e, 103 # re_deploymentGeneration e] @
         (if ps_legacyActivation s then [] else [97 # re_activation e]) @ [kind_name (re_kind e)])"

lemma step_InrD:
  assumes "step sha256 d c kind p expected l a legacy binding = Inr s"
  shows "re_kind (ps_effect s) = kind" "ps_currentLifecycle s = l" "ps_expectedRevision s = expected"
    "re_componentId (ps_effect s) = c" "re_deploymentGeneration (ps_effect s) = pd_generation d"
    "re_executor (ps_effect s) = cp_executor p" "re_workerId (ps_effect s) = cp_workerId p"
    "re_artifactDigest (ps_effect s) = pd_artifactDigest d" "re_activation (ps_effect s) = a"
    "ps_operationId s = portableStableId sha256 (effect_parts s)"
  using assms
  by (auto simp: step_def identities_for_def reconcileEffectIdentities_def legacyReconcileEffectIdentities_def
      effect_parts_def parseActivation_def Let_def scope_of_def legacyReconcileInstanceId_def split: if_splits)

lemma kind_name_inj: "kind_name k = kind_name l \<longleftrightarrow> k = l"
  by (cases k; cases l) simp_all

lemma kind_name_short: "length (escape_part (kind_name k)) < 64"
  by (cases k) (simp_all add: escape_part_Cons escape_unit.simps)

lemma effect_parts_determine:
  "effect_parts s = effect_parts t \<Longrightarrow>
     ps_legacyActivation s = ps_legacyActivation t \<and> re_kind (ps_effect s) = re_kind (ps_effect t) \<and>
     re_applicationId (ps_effect s) = re_applicationId (ps_effect t) \<and>
     re_pluginId (ps_effect s) = re_pluginId (ps_effect t) \<and>
     re_componentId (ps_effect s) = re_componentId (ps_effect t) \<and>
     re_deploymentGeneration (ps_effect s) = re_deploymentGeneration (ps_effect t) \<and>
     (\<not> ps_legacyActivation s \<longrightarrow> re_activation (ps_effect s) = re_activation (ps_effect t))"
  by (auto simp: effect_parts_def kind_name_inj Let_def split: if_splits)

text \<open>
  C16. An operation identifier determines its effect: two planned steps with one operation identifier
  agree in the application, plugin, component, generation, kind and (unless both are steps of a legacy
  instance) activation, whatever characters the names have and even where a long identifier is cut and ends in
  a digest. A digest is 64 hexadecimal digits, and the texts that name these two effects, where they differ,
  have different digests.
\<close>

theorem operation_determines_effect:
  assumes "hex_digest sha256"
    and s: "step sha256 d c kind p expected l a legacy binding = Inr s"
    and t: "step sha256 d' c' kind' p' expected' l' a' legacy' binding' = Inr t"
    and same: "ps_operationId s = ps_operationId t"
    and distinct: "\<not> collision sha256 (effect_parts s) (effect_parts t)"
  shows "ps_legacyActivation s = ps_legacyActivation t \<and> kind = kind' \<and>
      re_applicationId (ps_effect s) = re_applicationId (ps_effect t) \<and>
      re_pluginId (ps_effect s) = re_pluginId (ps_effect t) \<and> c = c' \<and> pd_generation d = pd_generation d' \<and>
      (\<not> ps_legacyActivation s \<longrightarrow> a = a')"
proof -
  have parts: "effect_parts u \<noteq> []" "length (escape_part (last (effect_parts u))) < 64" for u
    by (simp_all add: effect_parts_def Let_def kind_name_short)
  have "portableStableId sha256 (effect_parts s) = portableStableId sha256 (effect_parts t)"
    using step_InrD(10) [OF s] step_InrD(10) [OF t] same by simp
  from portableStableId_inj [OF assms(1) parts parts this] distinct have "effect_parts s = effect_parts t" by simp
  from effect_parts_determine [OF this] show ?thesis using step_InrD [OF s] step_InrD [OF t] by auto
qed

section \<open>Steps of a plan\<close>

lemma instance_step_Some:
  "instance_step sha256 d i c p a kind = Inr (Some s) \<longleftrightarrow>
     step sha256 d c kind p (StepRevision (ci_revision i)) (ci_lifecycle i) a (ci_legacyActivation i)
       (ci_executionBinding i) = Inr s"
  by (auto simp: instance_step_def)

text \<open>The state an effect is performed in, as \<open>#preEffectLifecycle\<close> enters it; \<open>prepare\<close> stays where it is.\<close>

fun entered_state :: "effect_kind \<Rightarrow> component_state" where
  "entered_state Drain = CsDraining"
| "entered_state Prepare = CsPreparing"
| "entered_state Start = CsStarting"
| "entered_state Stop = CsStopping"

definition step_fits :: "plan_step \<Rightarrow> bool" where
  "step_fits s \<longleftrightarrow> ps_currentLifecycle s = entered_state (re_kind (ps_effect s)) \<or>
     component_step (ps_currentLifecycle s) (entered_state (re_kind (ps_effect s)))"

lemma old_step_fits: "oldInstanceStep sha256 d i now = Inr (Some s) \<Longrightarrow> step_fits s"
  unfolding oldInstanceStep_def Let_def step_fits_def component_step_iff
  by (cases "ci_lifecycle i"; cases "the (ci_retryEffect i)")
    (auto simp: instance_step_Some step_InrD split: if_splits option.splits)

lemma current_step_fits: "currentInstanceStep sha256 d now i c p a = Inr (Some s) \<Longrightarrow> step_fits s"
  unfolding currentInstanceStep_def step_fits_def component_step_iff
  by (cases "ci_lifecycle (the i)"; cases "the (ci_retryEffect (the i))")
    (auto simp: instance_step_Some step_InrD split: if_splits option.splits)

text \<open>Where the steps of a plan come from.\<close>

lemma obsolete_steps_mem:
  "obsolete_steps sha256 sn is = Inr ss \<Longrightarrow>
     s \<in> set ss \<longleftrightarrow> (\<exists>i \<in> set is. obsolete_instance sn i \<and>
       oldInstanceStep sha256 (sn_deployment sn) i (sn_now sn) = Inr (Some s))"
proof (induction "is" arbitrary: ss)
  case Nil
  then show ?case by simp
next
  case (Cons i "is")
  from Cons.prems obtain r rs where r: "(if obsolete_instance sn i
      then oldInstanceStep sha256 (sn_deployment sn) i (sn_now sn) else Inr None) = Inr r"
    "obsolete_steps sha256 sn is = Inr rs" "ss = (case r of None \<Rightarrow> rs | Some x \<Rightarrow> x # rs)"
    by auto
  then show ?case using Cons.IH [OF r(2)] by (auto split: if_splits option.splits)
qed

lemma component_steps_mem:
  "component_steps sha256 toASCII sn cs = Inr (ss, ds) \<Longrightarrow>
     (s \<in> set ss \<longleftrightarrow> (\<exists>c \<in> set cs. \<exists>p. planPlacement toASCII (component_placement_input sn c) = Inr p \<and>
        component_next sha256 sn c p = Inr (Some s))) \<and>
     (d \<in> set ds \<longleftrightarrow> (\<exists>c \<in> set cs. planPlacement toASCII (component_placement_input sn c) = Inl d))"
proof (induction cs arbitrary: ss ds)
  case Nil
  then show ?case by simp
next
  case (Cons c cs)
  show ?case
  proof (cases "planPlacement toASCII (component_placement_input sn c)")
    case (Inl x)
    then show ?thesis using Cons by auto
  next
    case (Inr p)
    from Cons.prems Inr obtain r rs where r: "component_next sha256 sn c p = Inr r"
      "component_steps sha256 toASCII sn cs = Inr (rs, ds)" "ss = (case r of None \<Rightarrow> rs | Some x \<Rightarrow> x # rs)"
      by auto
    then show ?thesis using Cons.IH [OF r(2)] Inr by (auto split: option.splits)
  qed
qed

definition admitted :: "reconcile_snapshot \<Rightarrow> bool" where
  "admitted sn \<longleftrightarrow> sn_resolutionOk sn \<and> sn_permissionAllowed sn \<and> inconsistent_components sn = []"

definition serving :: "reconcile_snapshot \<Rightarrow> bool" where
  "serving sn \<longleftrightarrow> pd_state (sn_deployment sn) = DeploymentActive \<and> \<not> sn_suspended sn"

lemma planReconcile_InrD:
  assumes "planReconcile sha256 toASCII sn = Inr plan"
  shows "\<not> admitted sn \<Longrightarrow> rp_blocked plan \<and> rp_steps plan = []"
    and "admitted sn \<Longrightarrow> \<exists>old current ds. obsolete_steps sha256 sn (plan_instances sn) = Inr old \<and>
       (if serving sn then component_steps sha256 toASCII sn (sorted_components sn) else Inr ([], [])) = Inr (current, ds) \<and>
       rp_blocked plan = (ds \<noteq> []) \<and> rp_steps plan = (if ds \<noteq> [] then [] else old @ current)"
  using assms by (auto simp: planReconcile_def admitted_def serving_def Let_def split: if_splits) blast+

lemma plan_step_origin:
  assumes "planReconcile sha256 toASCII sn = Inr plan" and "s \<in> set (rp_steps plan)"
  shows "admitted sn"
    and "(\<exists>i \<in> set (plan_instances sn). obsolete_instance sn i \<and>
        oldInstanceStep sha256 (sn_deployment sn) i (sn_now sn) = Inr (Some s)) \<or>
      serving sn \<and> (\<exists>c \<in> set (sn_components sn). \<exists>p. planPlacement toASCII (component_placement_input sn c) = Inr p \<and>
        component_next sha256 sn c p = Inr (Some s))"
proof -
  show "admitted sn" using planReconcile_InrD(1) [OF assms(1)] assms(2) by fastforce
  from planReconcile_InrD(2) [OF assms(1) this] assms(2) show "(\<exists>i \<in> set (plan_instances sn). obsolete_instance sn i \<and>
        oldInstanceStep sha256 (sn_deployment sn) i (sn_now sn) = Inr (Some s)) \<or>
      serving sn \<and> (\<exists>c \<in> set (sn_components sn). \<exists>p. planPlacement toASCII (component_placement_input sn c) = Inr p \<and>
        component_next sha256 sn c p = Inr (Some s))"
    by (auto simp: obsolete_steps_mem component_steps_mem sorted_components_def split: if_splits)
qed


lemma old_start_is_retry:
  assumes "oldInstanceStep sha256 d i now = Inr (Some s)" and "re_kind (ps_effect s) \<in> {Prepare, Start}"
  shows "ci_lifecycle i = CsFailed \<and> ci_retryEffect i = Some (re_kind (ps_effect s)) \<and>
    \<not> later_than (ci_retryAt i) now"
  using assms unfolding oldInstanceStep_def Let_def
  by (auto simp: instance_step_Some step_InrD split: if_splits option.splits)

lemma current_step_for:
  assumes "currentInstanceStep sha256 d now i c p a = Inr (Some s)"
  shows "re_componentId (ps_effect s) = c" "re_deploymentGeneration (ps_effect s) = pd_generation d"
    "re_artifactDigest (ps_effect s) = pd_artifactDigest d"
    "re_executor (ps_effect s) = cp_executor p" "re_workerId (ps_effect s) = cp_workerId p"
  using assms unfolding currentInstanceStep_def
  by (auto simp: instance_step_Some step_InrD split: if_splits option.splits)


section \<open>Convergence\<close>

text \<open>
  A failed instance that gets no step: it has no effect to retry, or the time of its retry has not come.
\<close>

definition failed_for_good :: "component_instance \<Rightarrow> bool" where
  "failed_for_good i \<longleftrightarrow> ci_lifecycle i = CsFailed \<and> ci_retryEffect i = None"

definition retry_waits :: "reconcile_snapshot \<Rightarrow> component_instance \<Rightarrow> bool" where
  "retry_waits sn i \<longleftrightarrow> ci_lifecycle i = CsFailed \<and> ci_retryEffect i \<noteq> None \<and> later_than (ci_retryAt i) (sn_now sn)"

definition failure_rests :: "reconcile_snapshot \<Rightarrow> component_instance \<Rightarrow> bool" where
  "failure_rests sn i \<longleftrightarrow> failed_for_good i \<or> retry_waits sn i"

definition restore_waits :: "reconcile_snapshot \<Rightarrow> component_instance \<Rightarrow> bool" where
  "restore_waits sn i \<longleftrightarrow> ci_diagnostic i = Some (js ''LIFECYCLE_RESTORE_FAILED'') \<and>
     later_than (ci_retryAt i) (sn_now sn)"

definition chosen_instance :: "reconcile_snapshot \<Rightarrow> jstring \<Rightarrow> component_instance option" where
  "chosen_instance sn c =
     find (\<lambda>i. ci_activation i = component_activation sn c) (current_instances sn c)"

definition converged :: "reconcile_snapshot \<Rightarrow> bool" where
  "converged sn \<longleftrightarrow>
     (\<forall>i \<in> set (plan_instances sn). obsolete_instance sn i \<longrightarrow> ci_lifecycle i = CsStopped \<or> failure_rests sn i) \<and>
     (serving sn \<longrightarrow> (\<forall>c \<in> set (sn_components sn). \<exists>i. chosen_instance sn (mc_componentId c) = Some i \<and>
        (ci_lifecycle i \<in> {CsReady, CsDegraded} \<or> failure_rests sn i \<or> restore_waits sn i)))"

lemma old_step_None:
  assumes "oldInstanceStep sha256 (sn_deployment sn) i (sn_now sn) = Inr r"
  shows "r = None \<longleftrightarrow> ci_lifecycle i = CsStopped \<or> failure_rests sn i"
  using assms unfolding oldInstanceStep_def Let_def failure_rests_def failed_for_good_def retry_waits_def
  by (cases "ci_lifecycle i") (auto simp: instance_step_def split: if_splits option.splits)

lemma current_step_None:
  assumes "component_next sha256 sn c p = Inr r"
  shows "r = None \<longleftrightarrow> (\<exists>i. chosen_instance sn (mc_componentId c) = Some i \<and>
     (ci_lifecycle i \<in> {CsReady, CsDegraded} \<or> failure_rests sn i \<or> restore_waits sn i))"
proof (cases "chosen_instance sn (mc_componentId c)")
  case None
  then show ?thesis
    using assms by (auto simp: component_next_def currentInstanceStep_def chosen_instance_def Let_def)
next
  case (Some i)
  then have "currentInstanceStep sha256 (sn_deployment sn) (sn_now sn) (Some i) (mc_componentId c) p
      (component_activation sn (mc_componentId c)) = Inr r"
    using assms by (simp add: component_next_def chosen_instance_def Let_def)
  then show ?thesis
    unfolding currentInstanceStep_def Some failure_rests_def failed_for_good_def retry_waits_def restore_waits_def
    by (cases "ci_lifecycle i") (auto simp: instance_step_def split: if_splits option.splits)
qed

lemma obsolete_steps_defined:
  "obsolete_steps sha256 sn is = Inr ss \<Longrightarrow> i \<in> set is \<Longrightarrow> obsolete_instance sn i \<Longrightarrow>
     \<exists>r. oldInstanceStep sha256 (sn_deployment sn) i (sn_now sn) = Inr r"
  by (induction "is" arbitrary: ss) (auto split: if_splits)

lemma component_steps_defined:
  "component_steps sha256 toASCII sn cs = Inr (ss, ds) \<Longrightarrow> c \<in> set cs \<Longrightarrow>
     planPlacement toASCII (component_placement_input sn c) = Inr p \<Longrightarrow>
     \<exists>r. component_next sha256 sn c p = Inr r"
  by (induction cs arbitrary: ss ds) (auto split: sum.splits)

lemma obsolete_steps_Nil:
  assumes "obsolete_steps sha256 sn (plan_instances sn) = Inr old"
  shows "old = [] \<longleftrightarrow> (\<forall>i \<in> set (plan_instances sn). obsolete_instance sn i \<longrightarrow> ci_lifecycle i = CsStopped \<or> failure_rests sn i)"
proof
  assume none: "old = []"
  show "\<forall>i \<in> set (plan_instances sn). obsolete_instance sn i \<longrightarrow> ci_lifecycle i = CsStopped \<or> failure_rests sn i"
  proof (intro ballI impI)
    fix i assume i: "i \<in> set (plan_instances sn)" "obsolete_instance sn i"
    from obsolete_steps_defined [OF assms i] obtain r where
      r: "oldInstanceStep sha256 (sn_deployment sn) i (sn_now sn) = Inr r" by blast
    moreover have "r = None" using none r i obsolete_steps_mem [OF assms] by (cases r) auto
    ultimately show "ci_lifecycle i = CsStopped \<or> failure_rests sn i" using old_step_None by blast
  qed
next
  assume settled: "\<forall>i \<in> set (plan_instances sn). obsolete_instance sn i \<longrightarrow> ci_lifecycle i = CsStopped \<or> failure_rests sn i"
  have "s \<notin> set old" for s
    using settled old_step_None [of sha256 sn] obsolete_steps_mem [OF assms, of s] by blast
  then show "old = []" by (cases old) auto
qed

lemma component_steps_Nil:
  assumes "component_steps sha256 toASCII sn (sorted_components sn) = Inr (current, [])"
  shows "current = [] \<longleftrightarrow> (\<forall>c \<in> set (sn_components sn). \<exists>i. chosen_instance sn (mc_componentId c) = Some i \<and>
     (ci_lifecycle i \<in> {CsReady, CsDegraded} \<or> failure_rests sn i \<or> restore_waits sn i))"
proof -
  have components: "set (sorted_components sn) = set (sn_components sn)" by (simp add: sorted_components_def)
  have placed: "\<exists>p. planPlacement toASCII (component_placement_input sn c) = Inr p"
    if "c \<in> set (sn_components sn)" for c
    using that component_steps_mem [OF assms] components
    by (cases "planPlacement toASCII (component_placement_input sn c)") auto
  show ?thesis
  proof
    assume none: "current = []"
    show "\<forall>c \<in> set (sn_components sn). \<exists>i. chosen_instance sn (mc_componentId c) = Some i \<and>
      (ci_lifecycle i \<in> {CsReady, CsDegraded} \<or> failure_rests sn i \<or> restore_waits sn i)"
    proof
      fix c assume c: "c \<in> set (sn_components sn)"
      obtain p where p: "planPlacement toASCII (component_placement_input sn c) = Inr p" using placed [OF c] by blast
      from component_steps_defined [OF assms _ p] c components obtain r where
        r: "component_next sha256 sn c p = Inr r" by auto
      moreover have "r = None" using none r c p components component_steps_mem [OF assms] by (cases r) auto
      ultimately show "\<exists>i. chosen_instance sn (mc_componentId c) = Some i \<and>
        (ci_lifecycle i \<in> {CsReady, CsDegraded} \<or> failure_rests sn i \<or> restore_waits sn i)"
        using current_step_None by blast
    qed
  next
    assume settled: "\<forall>c \<in> set (sn_components sn). \<exists>i. chosen_instance sn (mc_componentId c) = Some i \<and>
      (ci_lifecycle i \<in> {CsReady, CsDegraded} \<or> failure_rests sn i \<or> restore_waits sn i)"
    have "s \<notin> set current" for s
    proof
      assume "s \<in> set current"
      with component_steps_mem [OF assms, of s] components obtain c p where
        "c \<in> set (sn_components sn)" "component_next sha256 sn c p = Inr (Some s)" by blast
      with current_step_None [of sha256 sn c p "Some s"] settled show False by blast
    qed
    then show "current = []" by (cases current) auto
  qed
qed

text \<open>
  C15. An unblocked plan is empty exactly where there is nothing to do: every obsolete instance is stopped or its
  failure rests (it has nothing to retry, or its retry time has not come), and, where the deployment serves,
  every component has an instance at its chosen activation that is ready or degraded, whose failure rests, or
  whose restoration waits. Other activations of a component are not looked at. So a component whose chosen
  instance is missing, stopped, in the middle of its life cycle or due for a retry always gets a step.
\<close>

theorem plan_empty_iff_converged:
  assumes "planReconcile sha256 toASCII sn = Inr plan" and "\<not> rp_blocked plan"
  shows "rp_steps plan = [] \<longleftrightarrow> converged sn"
proof -
  have "admitted sn" using planReconcile_InrD(1) [OF assms(1)] assms(2) by blast
  from planReconcile_InrD(2) [OF assms(1) this] assms(2) obtain old current where
    old: "obsolete_steps sha256 sn (plan_instances sn) = Inr old"
    and current: "(if serving sn then component_steps sha256 toASCII sn (sorted_components sn) else Inr ([], []))
      = Inr (current, [])"
    and steps: "rp_steps plan = old @ current"
    by auto
  show ?thesis
    using obsolete_steps_Nil [OF old] component_steps_Nil [of sha256 toASCII sn current] current steps
    by (auto simp: converged_def split: if_splits)
qed

section \<open>An example\<close>

definition example_deployment :: plugin_deployment where
  "example_deployment =
     \<lparr>pd_applicationId = js ''app'', pd_pluginId = js ''plug_in'', pd_version = js ''1.0.0'',
      pd_artifactDigest = js ''sha256:'' @ replicate 64 48, pd_generation = js ''1'', pd_state = DeploymentActive, pd_essential = True,
      pd_configuration = JNull, pd_permissionGrants = pi_grantedPermissions example_placement,
      pd_capabilityBindings = []\<rparr>"

definition example_snapshot :: reconcile_snapshot where
  "example_snapshot =
     \<lparr>sn_deployment = example_deployment,
      sn_components = [\<lparr>mc_componentId = js ''c'', mc_executors = [ExProcess]\<rparr>],
      sn_resolutionOk = True, sn_resolutionDiagnostics = [], sn_permissionAllowed = True,
      sn_permissionDiagnostics = [], sn_granted = Some (pi_grantedPermissions example_placement),
      sn_instances = [], sn_now = js ''2026-01-01T00:00:00.000Z'', sn_supportedExecutors = [ExProcess],
      sn_workers = None, sn_suspended = False, sn_activations = None\<rparr>"

definition zero_digest :: "jstring \<Rightarrow> jstring" where
  "zero_digest s = replicate 64 48"

definition example_step :: plan_step where
  "example_step = (case step zero_digest example_deployment (js ''c'') Prepare
     \<lparr>cp_executor = ExProcess, cp_workerId = None\<rparr> StepAbsent CsCreated (js ''1'') False None of Inr s \<Rightarrow> s)"

lemma example_step_planned:
  "step zero_digest example_deployment (js ''c'') Prepare \<lparr>cp_executor = ExProcess, cp_workerId = None\<rparr>
     StepAbsent CsCreated (js ''1'') False None = Inr example_step"
  unfolding example_step_def by code_simp

lemma example_plan:
  "planReconcile zero_digest id example_snapshot =
     Inr \<lparr>rp_deploymentGeneration = js ''1'', rp_blocked = False, rp_diagnostics = [], rp_steps = [example_step]\<rparr>"
  unfolding example_step_def by code_simp

definition example_restart :: plan_step where
  "example_restart = (case step zero_digest example_deployment (js ''c'') Prepare
     \<lparr>cp_executor = ExThread, cp_workerId = None\<rparr> (StepRevision (js ''7'')) CsCreated (js ''1'') False None of Inr s \<Rightarrow> s)"

lemma example_restart_planned:
  "step zero_digest example_deployment (js ''c'') Prepare \<lparr>cp_executor = ExThread, cp_workerId = None\<rparr>
     (StepRevision (js ''7'')) CsCreated (js ''1'') False None = Inr example_restart"
  unfolding example_restart_def by code_simp

lemma operation_determines_effect_witness:
  "ps_operationId example_step = ps_operationId example_restart \<and>
   re_pluginId (ps_effect example_step) = re_pluginId (ps_effect example_restart)"
proof -
  have hex: "hex_digest zero_digest"
    by (simp add: hex_digest_def zero_digest_def is_hex_digit_def is_digit_def list_all_iff)
  have same: "ps_operationId example_step = ps_operationId example_restart"
    unfolding example_step_def example_restart_def by code_simp
  have "effect_parts example_step = effect_parts example_restart"
    unfolding example_step_def example_restart_def by code_simp
  then have "\<not> collision zero_digest (effect_parts example_step) (effect_parts example_restart)"
    by (simp add: collision_def)
  from operation_determines_effect [OF hex example_step_planned example_restart_planned same this] same
  show ?thesis by simp
qed


lemma example_step_kind: "re_kind (ps_effect example_step) = Prepare"
  using step_InrD(1) [OF example_step_planned] .


lemma plan_empty_iff_converged_witness: "\<not> converged example_snapshot"
  using plan_empty_iff_converged [OF example_plan] by simp

end
