(* ===== verification/Effect_Properties.thy ===== *)
theory Effect_Properties
  imports Effect_System Plan_Correct
begin

text \<open>
  What the effect protocol of the reconciler guarantees: completed effects are not repeated, instances follow
  the component life cycle, performed effects are admitted and can be recorded, and a planned effect survives
  its trip through the outbox.
\<close>

section \<open>Completed effects\<close>

definition performed_as :: "jstring \<Rightarrow> jstring \<Rightarrow> effect_world \<Rightarrow> reconcile_effect list" where
  "performed_as k op w = filter (\<lambda>e. re_instanceId e = k \<and> re_operationId e = op) (ew_performed w)"

lemma performs_once_completed:
  assumes "performs_once w w'" and "map_of (ew_instances w) k = Some (i, r)" and "operation_completed op i"
  shows "performed_as k op w' = performed_as k op w"
  using assms by (auto simp: performs_once_def performed_as_def)

lemma completed_not_repeated:
  assumes "(reconcile_step env)\<^sup>*\<^sup>* w w'" and "world_ok w"
    and "map_of (ew_instances w) k = Some (i, r)" and "operation_completed op i"
  shows "performed_as k op w' = performed_as k op w"
  using assms
proof (induction rule: rtranclp_induct)
  case base
  then show ?case by simp
next
  case (step v u)
  from reconcile_steps_ok [OF step.hyps(1) step.prems(1)] step.prems(2,3) obtain j r' where
    j: "map_of (ew_instances v) k = Some (j, r')" "operation_completed op j" and v: "world_ok v"
    unfolding world_evolves_def instance_evolves_def by blast
  have "performed_as k op u = performed_as k op v"
    using reconcile_step_ok [OF step.hyps(2) v] performs_once_completed [OF _ j] by blast
  with step.IH [OF step.prems] show ?case by simp
qed

text \<open>
  C3. A completed effect is never performed again: from the moment an instance records an operation as
  completed, no sequence of planning, claiming, performing, failing, interrupting and refusing steps hands
  that operation of the instance to the executor once more, whatever messages are still in the outbox.
\<close>

theorem completed_effect_not_repeated:
  assumes "(reconcile_step env)\<^sup>*\<^sup>* w w'" and "world_ok w"
    and "map_of (ew_instances w) k = Some (i, r)" and "operation_completed op i"
  shows "performed_as k op w' = performed_as k op w"
  using assms by (rule completed_not_repeated)

text \<open>
  C5. Instances live by the component life cycle: along every run of planning, claiming, performing, failing,
  interrupting and refusing steps a stored instance is never lost, keeps its application, plugin, component and
  generation, and moves along accepted transitions, or ends stopped because a step of the run abandoned its
  recovery; and a stopped instance stays stopped. The run starts where every instance is stored once, under its own
  identifier, and lists its last completed operation among its completed ones.
\<close>

theorem instances_follow_lifecycle:
  assumes "(reconcile_step env)\<^sup>*\<^sup>* w w'" and "world_ok w" and "map_of (ew_instances w) k = Some (i, r)"
  shows "\<exists>j r'. map_of (ew_instances w') k = Some (j, r') \<and>
    pci_applicationId j = pci_applicationId i \<and> pci_pluginId j = pci_pluginId i \<and>
    pci_componentId j = pci_componentId i \<and> pci_deploymentGeneration j = pci_deploymentGeneration i \<and>
    (component_step\<^sup>*\<^sup>* (pci_lifecycle i) (pci_lifecycle j) \<or>
      pci_lifecycle j = CsStopped \<and> (\<exists>u v. (reconcile_step env)\<^sup>*\<^sup>* w u \<and> recovery_abandoned env k u v \<and>
        (reconcile_step env)\<^sup>*\<^sup>* v w')) \<and>
    (pci_lifecycle i = CsStopped \<longrightarrow> pci_lifecycle j = CsStopped)"
proof -
  from reconcile_steps_ok [OF assms(1,2)] assms(3) obtain j r' where
    "map_of (ew_instances w') k = Some (j, r')" "instance_evolves (abandoned_during env w w' k) i j"
    unfolding world_evolves_def by blast
  then show ?thesis
    by (auto simp: instance_evolves_def same_instance_def abandoned_during_def dest: stopped_final)
qed

section \<open>Performed effects\<close>

lemma find_SomeD: "find P xs = Some x \<Longrightarrow> x \<in> set xs \<and> P x"
  by (auto simp: find_Some_iff)

text \<open>
  C4. An effect is performed only when it is admitted: its message carries the identifiers that are derived from
  the effect, the effect names the stored instance in every field of its identity, placement, artifact and
  binding, the operation is not completed, and the instance is in the state the effect needs or failed in this
  very effect. A preparation or start needs the active deployment of the same generation and artifact, a gate
  that resolves and grants, an eligible placement and no failed provider; a suspended consumer is started only
  for a recovery whose prerequisites are ready. A drain or stop needs the deployment to have changed or to be
  held.
\<close>

theorem performed_effect_admitted:
  assumes "executeClaim sha256 toASCII parse cx w message = Inr (ClaimPerform preState recovery, Some e)"
  shows "\<exists>i revision hold. map_of (ew_instances w) (re_instanceId e) = Some (i, revision) \<and>
    hold = loss_hold (cc_losses cx) (effect_consumer e) (re_deploymentGeneration e) \<and>
    em_operationId message = re_operationId e \<and> em_messageId message = re_messageId e \<and>
    (\<exists>legacy ids. canonical_identities sha256 legacy e = Inr ids \<and> (legacy \<longrightarrow> pci_activation i = None) \<and>
      re_instanceId e = ei_instanceId ids \<and> re_operationId e = ei_operationId ids \<and> re_messageId e = ei_messageId ids) \<and>
    pci_instanceId i = re_instanceId e \<and> parsePersistedActivation i = Inr (re_activation e) \<and>
    pci_applicationId i = re_applicationId e \<and> pci_pluginId i = re_pluginId e \<and>
    pci_componentId i = re_componentId e \<and> pci_deploymentGeneration i = re_deploymentGeneration e \<and>
    pci_observedGeneration i = re_deploymentGeneration e \<and> pci_artifactDigest i = Some (re_artifactDigest e) \<and>
    pci_executor i = re_executor e \<and> pci_workerId i = re_workerId e \<and>
    same_binding (pci_executionBinding i) (re_executionBinding e) \<and>
    \<not> operation_completed (re_operationId e) i \<and>
    (pci_lifecycle i = expected_lifecycle (re_kind e) \<or>
      pci_lifecycle i = CsFailed \<and> pci_retryEffect i = Some (re_kind e) \<and> \<not> later_than (pci_retryAt i) (cc_now cx)) \<and>
    (if is_starting e
     then effect_current (deployment_at (cc_deployments cx) (effect_consumer e)) e \<and>
       (\<exists>g c. cc_gate cx = Some (GateReady g) \<and> ag_resolutionOk g \<and> ag_permissionAllowed g \<and>
          c \<in> set (ag_components g) \<and> mc_componentId c = re_componentId e \<and>
          placementIsEligible toASCII (effect_placement_input cx g e c)
            \<lparr>cp_executor = re_executor e, cp_workerId = re_workerId e\<rparr>) \<and>
       (case hold of None \<Rightarrow> True
        | Some l \<Rightarrow> pl_action l = Suspend \<and> recovery \<and>
            recoveryPrerequisitesReady sha256 (cc_live cx) l (cc_deployments cx) (cc_installations cx)
              (cc_instances cx) (cc_bindings cx) = Inr True)
     else \<not> effect_current (deployment_at (cc_deployments cx) (effect_consumer e)) e \<or> hold \<noteq> None)"
proof (rule executeClaim_effect [OF assms])
  fix e' legacy ids i revision activation permitted
  let ?hold = "loss_hold (cc_losses cx) (effect_consumer e') (re_deploymentGeneration e')"
  assume e': "Some e = Some e'" and parsed: "parseReconcileEffect parse message = Inr (e', legacy)"
    and i: "map_of (ew_instances w) (re_instanceId e') = Some (i, revision)"
    and ids: "canonical_identities sha256 (legacy \<and> pci_activation i = None) e' = Inr ids" "canonical_effect ids e'"
    and activation: "parsePersistedActivation i = Inr activation"
    and tuple: "tuple_matches e' activation i" and fresh: "\<not> operation_completed (re_operationId e') i"
    and permitted: "recovery_permitted sha256 cx (suspension ?hold) recovery = Inr permitted"
    and decision: "admitted_decision toASCII cx (effect_held ?hold permitted) recovery e' i = ClaimPerform preState recovery"
  note admitted = admitted_performed [OF decision]
  have message: "em_operationId message = re_operationId e'" "em_messageId message = re_messageId e'"
    using parsed by (auto simp: parseReconcileEffect_def Let_def split: json.splits if_splits)
  have canonical: "\<exists>legacy ids. canonical_identities sha256 legacy e' = Inr ids \<and> (legacy \<longrightarrow> pci_activation i = None) \<and>
      re_instanceId e' = ei_instanceId ids \<and> re_operationId e' = ei_operationId ids \<and> re_messageId e' = ei_messageId ids"
    using ids unfolding canonical_effect_def by blast
  have state: "pci_lifecycle i = expected_lifecycle (re_kind e') \<or> retryable_failure (cc_now cx) e' i"
    using admitted(1) by (auto simp: lifecycle_decision_def Let_def split: if_splits)
  have held: "case ?hold of None \<Rightarrow> \<not> effect_held ?hold permitted
    | Some l \<Rightarrow> (pl_action l = Fail \<or> pl_action l = Suspend) \<and> (\<not> effect_held ?hold permitted \<longrightarrow>
        pl_action l = Suspend \<and> recovery \<and> recoveryPrerequisitesReady sha256 (cc_live cx) l (cc_deployments cx)
          (cc_installations cx) (cc_instances cx) (cc_bindings cx) = Inr True)"
  proof (cases ?hold)
    case None
    then show ?thesis by (simp add: effect_held_def suspension_def)
  next
    case (Some l)
    then have "pl_action l = Fail \<or> pl_action l = Suspend" by (auto simp: loss_hold_def find_Some_iff)
    with Some permitted show ?thesis
      by (auto simp: effect_held_def suspension_def recovery_permitted_def split: if_splits)
  qed
  show ?thesis
  proof (cases "is_starting e'")
    case True
    with admitted(2) held message canonical activation state e' i tuple fresh show ?thesis
      by (auto simp: tuple_matches_def retryable_failure_def split: option.splits dest!: find_SomeD)
  next
    case False
    with admitted(3) held message canonical activation state e' i tuple fresh show ?thesis
      by (auto simp: tuple_matches_def retryable_failure_def split: option.splits)
  qed
qed

section \<open>Recording the outcome\<close>

definition performed_state :: "effect_kind \<Rightarrow> component_state" where
  "performed_state kind =
     (case kind of Prepare \<Rightarrow> CsPreparing | Start \<Rightarrow> CsReady | Drain \<Rightarrow> CsDraining | Stop \<Rightarrow> CsStopped)"

lemma performs_instance:
  assumes "performs env cx message w e w1"
  obtains i revision where "map_of (ew_instances w1) (re_instanceId e) = Some (i, revision)"
    "parsePersistedActivation i = Inr (re_activation e)" "pci_deploymentGeneration i = re_deploymentGeneration e"
    "pci_componentId i = re_componentId e"
    "pci_lifecycle i = expected_lifecycle (re_kind e) \<or> pci_lifecycle i = CsFailed \<and> re_kind e \<in> {Prepare, Drain}"
proof -
  from assms obtain preState recovery i revision w0 where
    claim: "executeClaim (rv_sha256 env) (rv_toASCII env) (rv_parseBinding env) cx w message =
      Inr (ClaimPerform preState recovery, Some e)"
    and i: "map_of (ew_instances w) (re_instanceId e) = Some (i, revision)"
    and w0: "authorize_effect (rv_sha256 env) cx e preState recovery i revision w = Inr (RecoveryAuthorized, w0)"
    and w1: "reauthorize_effect (rv_sha256 env) cx e preState recovery i revision w0 = Inr (RecoveryAuthorized, w1)"
    unfolding performs_def by blast
  from w1 have same: "w1 = w0"
    by (auto simp: reauthorize_effect_def split: if_splits dest: authorizeRecoveryEffect_authorized)
  have facts: "parsePersistedActivation i = Inr (re_activation e) \<and> pci_deploymentGeneration i = re_deploymentGeneration e \<and>
      pci_componentId i = re_componentId e \<and> lifecycle_decision (cc_now cx) recovery e i = ClaimPerform preState recovery"
    by (rule executeClaim_effect [OF claim])
      (use i in \<open>auto simp: tuple_matches_def dest: admitted_performed(1)\<close>)
  then have decision: "lifecycle_decision (cc_now cx) recovery e i = ClaimPerform preState recovery" by blast
  show ?thesis
  proof (cases preState)
    case None
    with w0 have "ew_instances w0 = ew_instances w"
      by (auto simp: authorize_effect_def split: if_splits dest: authorizeRecoveryEffect_authorized)
    then show ?thesis
      using that [of i revision] i facts lifecycle_performed(2) [OF decision] None same by auto
  next
    case (Some l)
    with w0 have "put_instance (re_instanceId e) (i\<lparr>pci_lifecycle := l\<rparr>) (StepRevision revision)
        [(re_operationId e, Executing)] w = Inr w0"
      by (auto simp: authorize_effect_def split: if_splits dest: authorizeRecoveryEffect_authorized)
    then have "map_of (ew_instances w0) (re_instanceId e) =
        Some (i\<lparr>pci_lifecycle := l\<rparr>, decimal_string (ew_revision w + 1))"
      by (simp add: put_instance_InrE(1) update_conv')
    then show ?thesis
      using that facts lifecycle_performed(2) [OF decision] Some same
      by (auto simp: parsePersistedActivation_def)
  qed
qed

lemma record_outcome_commits:
  assumes "map_of (ew_instances w) (re_instanceId e) = Some (i, revision)"
    and "parsePersistedActivation i = Inr (re_activation e)" and "pci_deploymentGeneration i = re_deploymentGeneration e"
    and "pci_componentId i = re_componentId e" and "change i = Inr i'"
  shows "\<exists>w' r'. record_outcome e change status ack [id, id, id] w = Inr w' \<and>
    map_of (ew_instances w') (re_instanceId e) = Some (i', r') \<and>
    ew_journal w' = ew_journal w @ [(re_operationId e, status)]"
proof -
  let ?w = "w\<lparr>ew_instances := AList.update (re_instanceId e) (i', decimal_string (ew_revision w + 1)) (ew_instances w),
    ew_journal := ew_journal w @ [(re_operationId e, status)], ew_revision := ew_revision w + 1\<rparr>"
  have "put_instance (re_instanceId e) i' (StepRevision revision) [(re_operationId e, status)] w = Inr ?w"
    using assms(1) by (simp add: put_instance_def expected_here_def)
  then have "record_attempt e change status id w = Inr (Committed ?w)"
    using assms by (simp add: record_attempt_def Let_def)
  then show ?thesis
    by (simp add: update_conv') (simp add: acknowledge_def split: option.splits)
qed

lemma success_state:
  assumes "l = expected_lifecycle kind \<or> l = CsFailed \<and> kind \<in> {Prepare, Drain}"
  shows "successfulLifecycle kind l = Inr (performed_state kind)"
    and "failedLifecycle l = Inr CsFailed"
  using assms
  by (cases kind; auto simp: successfulLifecycle_def performed_state_def failedLifecycle_def expected_lifecycle_def
      transitionComponentLifecycle_def)+

text \<open>
  C6. Whatever the executor answers can be recorded: after an effect was performed, its success moves the
  instance to the state the effect leads to and lists the operation as completed, and its failure moves it to
  \<open>failed\<close> with the effect to retry -- no life cycle error stops the reconciler on either path.
\<close>

theorem performed_effect_recordable:
  assumes "performs env cx message w e w1"
  shows "(\<exists>w' i r. commitEffect e binding [id, id, id] (record_performed e w1) = Inr w' \<and>
      map_of (ew_instances w') (re_instanceId e) = Some (i, r) \<and> pci_lifecycle i = performed_state (re_kind e) \<and>
      operation_completed (re_operationId e) i) \<and>
    (failure_retry_at e attempt epochMs = Inr retryAt \<longrightarrow>
      (\<exists>w' i r. commitFailedEffect e attempt epochMs [id, id, id] (record_performed e w1) = Inr w' \<and>
        map_of (ew_instances w') (re_instanceId e) = Some (i, r) \<and> pci_lifecycle i = CsFailed \<and>
        pci_retryEffect i = Some (re_kind e) \<and> pci_retryAt i = Some retryAt))"
proof -
  obtain i revision where i: "map_of (ew_instances (record_performed e w1)) (re_instanceId e) = Some (i, revision)"
    "parsePersistedActivation i = Inr (re_activation e)" "pci_deploymentGeneration i = re_deploymentGeneration e"
    "pci_componentId i = re_componentId e"
    "pci_lifecycle i = expected_lifecycle (re_kind e) \<or> pci_lifecycle i = CsFailed \<and> re_kind e \<in> {Prepare, Drain}"
    by (rule performs_instance [OF assms], rule that) simp_all
  note state = success_state [OF i(5)]
  have settled: "pci_lifecycle (completed_instance e binding l i) = l"
    "operation_completed (re_operationId e) (completed_instance e binding l i)" for l
    by (simp_all add: completed_instance_def operation_completed_def)
  have "\<exists>w' i r. commitEffect e binding [id, id, id] (record_performed e w1) = Inr w' \<and>
      map_of (ew_instances w') (re_instanceId e) = Some (i, r) \<and> pci_lifecycle i = performed_state (re_kind e) \<and>
      operation_completed (re_operationId e) i"
    using record_outcome_commits [OF i(1-4), of "\<lambda>i. and_then (successfulLifecycle (re_kind e) (pci_lifecycle i))
        (\<lambda>lifecycle. Inr (completed_instance e binding lifecycle i))" _ Completed MessageCompleted] state(1) settled
    unfolding commitEffect_def by fastforce
  moreover have "\<exists>w' i r. commitFailedEffect e attempt epochMs [id, id, id] (record_performed e w1) = Inr w' \<and>
        map_of (ew_instances w') (re_instanceId e) = Some (i, r) \<and> pci_lifecycle i = CsFailed \<and>
        pci_retryEffect i = Some (re_kind e) \<and> pci_retryAt i = Some retryAt"
    if "failure_retry_at e attempt epochMs = Inr retryAt"
    using record_outcome_commits [OF i(1-4), of "\<lambda>i. and_then (failedLifecycle (pci_lifecycle i))
        (\<lambda>lifecycle. Inr (failed_instance e attempt retryAt lifecycle i))" _ Failed "MessageRetry retryAt"] state(2) that
    unfolding commitFailedEffect_def by (fastforce simp: failed_instance_def)
  ultimately show ?thesis by blast
qed

end
