(* ===== verification/Effect_Flow.thy ===== *)
theory Effect_Flow
  imports Effect_Properties
begin

text \<open>
  The way of a planned effect: its payload reads back as the effect it was written from, and a planned
  preparation of a new component is performed when its message is claimed. A retried start of a recovery is
  not: its second authorization expects the revision that the first transaction replaced.
\<close>

section \<open>Payloads\<close>

lemma join_two_neq_Nil: "join [46] (p # q # ps) \<noteq> []"
  by simp

lemma portableStableId_neq_Nil: "portableStableId sha256 (p # q # ps) \<noteq> []"
  by (simp add: portableStableId_def stable_candidate_def Let_def)

lemma step_fields:
  assumes "step sha256 d c kind p expected l a legacy binding = Inr s"
  shows "\<exists>ids. (if legacy then legacyReconcileEffectIdentities sha256 (scope_of d) c kind
       else reconcileEffectIdentities sha256 (scope_of d) c kind a) = Inr ids \<and>
     re_operationId (ps_effect s) = ei_operationId ids \<and> re_messageId (ps_effect s) = ei_messageId ids \<and>
     re_instanceId (ps_effect s) = ei_instanceId ids \<and>
     ps_operationId s = ei_operationId ids \<and> ps_messageId s = ei_messageId ids \<and> ps_instanceId s = ei_instanceId ids"
    and "re_applicationId (ps_effect s) = pd_applicationId d" "re_pluginId (ps_effect s) = pd_pluginId d"
    and "re_executionBinding (ps_effect s) = binding" "ps_legacyActivation s = legacy"
  using assms unfolding step_def by auto

lemma identity_fields:
  assumes "(if legacy then legacyReconcileEffectIdentities sha256 sc c kind
       else reconcileEffectIdentities sha256 sc c kind a) = Inr ids"
  shows "IDENTITY_PATTERN (ei_operationId ids) \<and> ei_messageId ids = ei_operationId ids \<and> ei_instanceId ids \<noteq> []"
  using assms portableStableId_neq_Nil
  by (auto simp: legacyReconcileEffectIdentities_def reconcileEffectIdentities_def identities_for_def Let_def
      legacyReconcileInstanceId_def parseIdentity_def split: if_splits)

text \<open>The texts an effect is made of pass their parsers.\<close>

definition effect_wf :: "(json \<Rightarrow> json result) \<Rightarrow> bool \<Rightarrow> reconcile_effect \<Rightarrow> bool" where
  "effect_wf parseBinding legacy e \<longleftrightarrow>
     IDENTITY_PATTERN (re_applicationId e) \<and> IDENTITY_PATTERN (re_pluginId e) \<and> IDENTITY_PATTERN (re_componentId e) \<and>
     SHA256_PATTERN (re_artifactDigest e) \<and>
     parseGeneration (JStr (re_deploymentGeneration e)) = Inr (re_deploymentGeneration e) \<and>
     parseActivation (JStr (re_activation e)) = Inr (re_activation e) \<and> (legacy \<longrightarrow> re_activation e = js ''1'') \<and>
     (case re_executionBinding e of None \<Rightarrow> True | Some b \<Rightarrow> parseBinding b = Inr b)"

lemma parse_kind_name: "parse_kind (Some (JStr (kind_name k))) = Inr k"
  by (cases k) simp_all

lemma parse_executor_name: "parse_executor (Some (JStr (executor_name x))) = Inr x"
  by (cases x) simp_all

lemma optional_member_lookup:
  "map_of (optional_member n v @ ms) (js n) = (case v of None \<Rightarrow> map_of ms (js n) | Some x \<Rightarrow> Some x)"
  by (simp add: optional_member_def split: option.splits)

lemma payload_lookups:
  assumes "effect_payload legacy e = JObj ms"
  shows "map_of ms (js ''kind'') = Some (JStr (kind_name (re_kind e)))"
    "map_of ms (js ''activation'') = (if legacy then None else Some (JStr (re_activation e)))"
    "map_of ms (js ''operationId'') = Some (JStr (re_operationId e))"
    "map_of ms (js ''messageId'') = Some (JStr (re_messageId e))"
    "map_of ms (js ''instanceId'') = Some (JStr (re_instanceId e))"
    "map_of ms (js ''applicationId'') = Some (JStr (re_applicationId e))"
    "map_of ms (js ''pluginId'') = Some (JStr (re_pluginId e))"
    "map_of ms (js ''componentId'') = Some (JStr (re_componentId e))"
    "map_of ms (js ''deploymentGeneration'') = Some (JStr (re_deploymentGeneration e))"
    "map_of ms (js ''artifactDigest'') = Some (JStr (re_artifactDigest e))"
    "map_of ms (js ''executor'') = Some (JStr (executor_name (re_executor e)))"
    "map_of ms (js ''workerId'') = map_option JStr (re_workerId e)"
    "map_of ms (js ''executionBinding'') = re_executionBinding e"
  using assms
  by (cases "re_workerId e"; cases "re_executionBinding e";
      auto simp: effect_payload_def optional_member_def js_inj simp del: js_simps)+

lemma payload_parses:
  assumes "effect_wf parseBinding legacy e" and "IDENTITY_PATTERN (re_operationId e)"
    and "IDENTITY_PATTERN (re_messageId e)" and "re_instanceId e \<noteq> []"
    and message: "em_payload m = effect_payload legacy e" "em_messageId m = re_messageId e"
      "em_operationId m = re_operationId e"
  shows "parseReconcileEffect parseBinding m = Inr (e, legacy)"
proof -
  obtain ms where ms: "effect_payload legacy e = JObj ms" by (simp add: effect_payload_def)
  have worker: "parse_worker (map_option JStr w) = Inr w" for w by (cases w) simp_all
  have binding: "(case re_executionBinding e of None \<Rightarrow> Inr None
      | Some b \<Rightarrow> and_then (parseBinding b) (\<lambda>x. Inr (Some x))) = Inr (re_executionBinding e)"
    using assms(1) by (auto simp: effect_wf_def split: option.splits)
  have "parse_instance_id (Some (JStr (re_instanceId e))) = Inr (re_instanceId e)" using assms(4) by simp
  moreover have "legacy \<Longrightarrow> parseActivation (JStr (js ''1'')) = Inr (re_activation e)"
    using assms(1) by (auto simp: effect_wf_def)
  ultimately show ?thesis
    using assms(1-3) message
    unfolding parseReconcileEffect_def message(1) ms
    by (cases legacy) (simp_all add: payload_lookups [OF ms] parse_kind_name parse_executor_name worker binding
        member_def effect_wf_def parseIdentity_def parseArtifactDigest_def Let_def
        del: js_simps parse_kind.simps parse_executor.simps parse_instance_id.simps)
qed

text \<open>
  C17. A planned effect survives its outbox message: the payload written for a step, with the activation left
  out for a legacy instance, is parsed back to exactly the effect of the step.
\<close>

theorem effect_payload_roundtrip:
  assumes "step sha256 d c kind p expected l a legacy binding = Inr s"
    and "effect_wf parseBinding legacy (ps_effect s)"
  shows "parseReconcileEffect parseBinding (step_message s) = Inr (ps_effect s, legacy)"
proof -
  from step_fields(1) [OF assms(1)] obtain ids where
    ids: "(if legacy then legacyReconcileEffectIdentities sha256 (scope_of d) c kind
       else reconcileEffectIdentities sha256 (scope_of d) c kind a) = Inr ids"
    "re_operationId (ps_effect s) = ei_operationId ids" "re_messageId (ps_effect s) = ei_messageId ids"
    "re_instanceId (ps_effect s) = ei_instanceId ids" "ps_operationId s = ei_operationId ids"
    "ps_messageId s = ei_messageId ids" by blast
  with identity_fields [OF ids(1)] show ?thesis
    by (intro payload_parses [OF assms(2)]) (simp_all add: step_message_def step_fields(5) [OF assms(1)])
qed

section \<open>From the plan to the executor\<close>

text \<open>A claim context that still sees what the plan saw, with no provider loss holding the deployment.\<close>

definition context_agrees :: "reconcile_snapshot \<Rightarrow> claim_context \<Rightarrow> bool" where
  "context_agrees sn cx \<longleftrightarrow>
     deployment_at (cc_deployments cx) (deployment_identity_of (sn_deployment sn)) = Some (sn_deployment sn) \<and>
     (\<exists>g. cc_gate cx = Some (GateReady g) \<and> ag_components g = sn_components sn \<and>
        ag_resolutionOk g = sn_resolutionOk sn \<and> ag_permissionAllowed g = sn_permissionAllowed sn \<and>
        ag_granted g = sn_granted sn) \<and>
     cc_supported cx = sn_supportedExecutors sn \<and> cc_workers cx = sn_workers sn \<and>
     loss_hold (cc_losses cx) (deployment_identity_of (sn_deployment sn)) (pd_generation (sn_deployment sn)) = None"

lemma find_distinct_key:
  "distinct (map f xs) \<Longrightarrow> x \<in> set xs \<Longrightarrow> find (\<lambda>y. f y = f x) xs = Some x"
  by (induction xs) auto

lemma new_step:
  assumes "planReconcile sha256 toASCII sn = Inr plan" and "s \<in> set (rp_steps plan)"
    and "ps_expectedRevision s = StepAbsent"
  obtains c p a where "admitted sn" "serving sn" "c \<in> set (sn_components sn)"
    "planPlacement toASCII (component_placement_input sn c) = Inr p"
    "step sha256 (sn_deployment sn) (mc_componentId c) Prepare p StepAbsent CsCreated a False None = Inr s"
proof -
  have current: "\<exists>a. step sha256 (sn_deployment sn) (mc_componentId c) Prepare p StepAbsent CsCreated a False None = Inr s"
    if "component_next sha256 sn c p = Inr (Some s)" for c p
    using that assms(3) unfolding component_next_def Let_def currentInstanceStep_def
    by (auto simp: instance_step_Some dest: step_InrD(3) split: option.splits if_splits)
  have "oldInstanceStep sha256 (sn_deployment sn) i (sn_now sn) \<noteq> Inr (Some s)" for i
    using assms(3) unfolding oldInstanceStep_def Let_def
    by (auto simp: instance_step_Some dest: step_InrD(3) split: option.splits if_splits)
  with plan_step_origin [OF assms(1,2)] show ?thesis
    using that current by blast
qed

lemma new_step_decision:
  assumes "context_agrees sn cx" and "admitted sn" and "serving sn"
    and "distinct (map mc_componentId (sn_components sn))" and "c \<in> set (sn_components sn)"
    and "planPlacement toASCII (component_placement_input sn c) = Inr p"
    and "step sha256 (sn_deployment sn) (mc_componentId c) Prepare p StepAbsent CsCreated a False None = Inr s"
    and "pci_lifecycle i = CsCreated"
  shows "admitted_decision toASCII cx False False (ps_effect s) i = ClaimPerform None False"
proof -
  note e = step_InrD [OF assms(7)] step_fields(2-4) [OF assms(7)]
  let ?e = "ps_effect s"
  have consumer: "effect_consumer ?e = deployment_identity_of (sn_deployment sn)"
    using e by (simp add: effect_consumer_def deployment_identity_of_def)
  from assms(1) obtain g where g: "cc_gate cx = Some (GateReady g)" "ag_components g = sn_components sn"
    "ag_resolutionOk g" "ag_permissionAllowed g" "ag_granted g = sn_granted sn"
    and here: "deployment_at (cc_deployments cx) (effect_consumer ?e) = Some (sn_deployment sn)"
    "cc_supported cx = sn_supportedExecutors sn" "cc_workers cx = sn_workers sn"
    using assms(2) consumer by (auto simp: context_agrees_def admitted_def)
  have "effect_placement_input cx g ?e c = component_placement_input sn c"
    using e g here by (simp add: effect_placement_input_def component_placement_input_def)
  moreover have "\<lparr>cp_executor = re_executor ?e, cp_workerId = re_workerId ?e\<rparr> = p" using e by simp
  ultimately have eligible: "placementIsEligible toASCII (effect_placement_input cx g ?e c)
      \<lparr>cp_executor = re_executor ?e, cp_workerId = re_workerId ?e\<rparr>"
    using planned_eligible [OF assms(6)] by simp
  have "find (\<lambda>c. mc_componentId c = re_componentId ?e) (ag_components g) = Some c"
    using find_distinct_key [OF assms(4,5)] e g by simp
  with eligible have "placement_verdict toASCII cx g ?e = None" by (simp add: placement_verdict_def)
  moreover have "effect_current (Some (sn_deployment sn)) ?e"
    using assms(3) e by (simp add: effect_current_def serving_def)
  ultimately show ?thesis
    using here g e assms(8)
    by (simp add: admitted_decision_def is_starting_def lifecycle_decision_def retryable_failure_def expected_lifecycle_def)
qed

lemma planned_prepare_claimed:
  assumes plan: "planReconcile sha256 toASCII sn = Inr plan" "s \<in> set (rp_steps plan)"
    and new: "ps_expectedRevision s = StepAbsent" "map_of (ew_instances w) (ps_instanceId s) = None"
      "map_of (ew_outbox w) (ps_messageId s) = None"
    and "distinct (map mc_componentId (sn_components sn))" and "effect_wf parseBinding False (ps_effect s)"
    and agrees: "context_agrees sn cx"
  shows "\<exists>w'. persistStep (cc_deployments cx) (sn_deployment sn) s w = Inr w' \<and>
    map_of (ew_outbox w') (ps_messageId s) = Some (step_message s, MessageWaiting) \<and>
    executeClaim sha256 toASCII parseBinding cx w' (step_message s) = Inr (ClaimPerform None False, Some (ps_effect s))"
proof -
  let ?e = "ps_effect s"
  obtain c p a where c: "admitted sn" "serving sn" "c \<in> set (sn_components sn)"
    "planPlacement toASCII (component_placement_input sn c) = Inr p"
    "step sha256 (sn_deployment sn) (mc_componentId c) Prepare p StepAbsent CsCreated a False None = Inr s"
    by (rule new_step [OF plan new(1)])
  note e = step_InrD [OF c(5)] step_fields(2-5) [OF c(5)]
  from step_fields(1) [OF c(5)] obtain ids where
    ids: "reconcileEffectIdentities sha256 (scope_of (sn_deployment sn)) (mc_componentId c) Prepare a = Inr ids"
    "re_operationId ?e = ei_operationId ids" "re_messageId ?e = ei_messageId ids" "re_instanceId ?e = ei_instanceId ids"
    "ps_operationId s = ei_operationId ids" "ps_messageId s = ei_messageId ids" "ps_instanceId s = ei_instanceId ids"
    by auto
  define w1 where "w1 = w\<lparr>ew_instances := AList.update (ps_instanceId s)
      (new_instance s, decimal_string (ew_revision w + 1)) (ew_instances w),
    ew_journal := ew_journal w @ [(ps_operationId s, Planned)], ew_revision := ew_revision w + 1\<rparr>"
  define w' where "w' = w1\<lparr>ew_outbox := AList.update (ps_messageId s) (step_message s, MessageWaiting) (ew_outbox w1)\<rparr>"
  have "put_instance (ps_instanceId s) (new_instance s) StepAbsent [(ps_operationId s, Planned)] w = Inr w1"
    using new by (simp add: put_instance_def expected_here_def w1_def)
  moreover have "enqueue_message (step_message s) w1 = Inr w'"
    using new by (simp add: enqueue_message_def w'_def w1_def step_message_def)
  moreover have "deployment_unchanged (cc_deployments cx) (sn_deployment sn)"
    using agrees by (simp add: deployment_unchanged_def context_agrees_def)
  ultimately have persisted: "persistStep (cc_deployments cx) (sn_deployment sn) s w = Inr w'"
    using new by (simp add: persistStep_def expected_here_def)
  have parsed: "parseReconcileEffect parseBinding (step_message s) = Inr (?e, False)"
    using identity_fields [of False, simplified, OF ids(1)] ids e
    by (intro payload_parses [OF assms(7)]) (simp_all add: step_message_def)
  have stored: "map_of (ew_instances w') (re_instanceId ?e) = Some (new_instance s, decimal_string (ew_revision w + 1))"
    by (simp add: w'_def w1_def update_conv' ids)
  have activation: "parsePersistedActivation (new_instance s) = Inr (re_activation ?e)"
    using assms(7) e by (simp add: parsePersistedActivation_def new_instance_def Let_def effect_wf_def)
  have canonical: "canonical_identities sha256 False ?e = Inr ids" "canonical_effect ids ?e"
    using ids e by (simp_all add: canonical_identities_def effect_scope_def scope_of_def canonical_effect_def)
  have instance_facts: "tuple_matches ?e (re_activation ?e) (new_instance s)"
    "\<not> operation_completed (re_operationId ?e) (new_instance s)" "\<not> restoration_waits (cc_now cx) ?e (new_instance s)"
    "pci_lifecycle (new_instance s) = CsCreated" "pci_activation (new_instance s) \<noteq> None"
    using e ids by (simp_all add: tuple_matches_def new_instance_def Let_def same_binding_def operation_completed_def
        restoration_waits_def)
  have hold: "loss_hold (cc_losses cx) (effect_consumer ?e) (re_deploymentGeneration ?e) = None"
    "cc_gate cx \<noteq> Some GateConflict"
    using agrees e by (auto simp: context_agrees_def effect_consumer_def deployment_identity_of_def)
  have "executeClaim sha256 toASCII parseBinding cx w' (step_message s) = Inr (ClaimPerform None False, Some ?e)"
    using new_step_decision [OF agrees c(1,2) assms(6) c(3-5) instance_facts(4)]
    by (simp add: executeClaim_def parsed stored activation canonical instance_facts hold Let_def
        exact_recovery_def suspension_def recovery_activation_def recovery_permitted_def effect_held_def)
  with persisted show ?thesis by (auto simp: w'_def update_conv')
qed

text \<open>
  C7. A planned preparation reaches the executor: once the step of a new component is persisted in a world
  that has neither its instance nor its message, the stored message is claimed to be performed, with the
  planned effect, as long as the deployment, its gate and the node are what the plan saw and no provider loss
  holds the deployment.
\<close>

theorem planned_prepare_performed:
  assumes plan: "planReconcile sha256 toASCII sn = Inr plan" "s \<in> set (rp_steps plan)"
    and new: "ps_expectedRevision s = StepAbsent" "map_of (ew_instances w) (ps_instanceId s) = None"
      "map_of (ew_outbox w) (ps_messageId s) = None"
    and "distinct (map mc_componentId (sn_components sn))" and "effect_wf parseBinding False (ps_effect s)"
    and agrees: "context_agrees sn cx"
  shows "\<exists>w'. persistStep (cc_deployments cx) (sn_deployment sn) s w = Inr w' \<and>
    map_of (ew_outbox w') (ps_messageId s) = Some (step_message s, MessageWaiting) \<and>
    executeClaim sha256 toASCII parseBinding cx w' (step_message s) = Inr (ClaimPerform None False, Some (ps_effect s))"
  by (rule planned_prepare_claimed [OF assms])

section \<open>An example\<close>

definition example_gate :: artifact_gate where
  "example_gate = empty_gate (sn_components example_snapshot) [] (pi_grantedPermissions example_placement)"

definition example_context :: claim_context where
  "example_context =
     \<lparr>cc_now = js ''2026-01-01T00:00:00.000Z'', cc_deployments = [example_deployment], cc_installations = [],
      cc_instances = [], cc_losses = [], cc_bindings = [], cc_gate = Some (GateReady example_gate),
      cc_live = (\<lambda>_. True), cc_supported = [ExProcess], cc_workers = None\<rparr>"

definition empty_world :: effect_world where
  "empty_world = \<lparr>ew_instances = [], ew_losses = [], ew_outbox = [], ew_journal = [], ew_revision = 0,
     ew_replanCount = 0, ew_performed = []\<rparr>"

definition example_env :: reconcile_env where
  "example_env = \<lparr>rv_sha256 = zero_digest, rv_toASCII = id, rv_parseBinding = Inr\<rparr>"

lemma example_effect_wf: "effect_wf Inr False (ps_effect example_step)"
  unfolding example_step_def by code_simp

lemma example_context_agrees: "context_agrees example_snapshot example_context"
  by (simp add: context_agrees_def example_context_def example_gate_def empty_gate_def example_snapshot_def
      deployment_at_def loss_hold_def)

lemma example_new_step: "ps_expectedRevision example_step = StepAbsent"
  using step_InrD(3) [OF example_step_planned] .

lemma example_claimed:
  obtains w where "persistStep [example_deployment] example_deployment example_step empty_world = Inr w"
    "executeClaim zero_digest id Inr example_context w (step_message example_step) =
       Inr (ClaimPerform None False, Some (ps_effect example_step))"
proof -
  have "\<exists>w'. persistStep (cc_deployments example_context) (sn_deployment example_snapshot) example_step empty_world = Inr w' \<and>
    map_of (ew_outbox w') (ps_messageId example_step) = Some (step_message example_step, MessageWaiting) \<and>
    executeClaim zero_digest id Inr example_context w' (step_message example_step) =
      Inr (ClaimPerform None False, Some (ps_effect example_step))"
    by (rule planned_prepare_claimed [OF example_plan])
      (simp_all add: example_new_step empty_world_def example_effect_wf example_context_agrees,
       simp add: example_snapshot_def)
  then show ?thesis using that by (auto simp: example_context_def example_snapshot_def)
qed

lemma planned_prepare_performed_witness:
  "\<exists>w'. persistStep [example_deployment] example_deployment example_step empty_world = Inr w' \<and>
    map_of (ew_outbox w') (ps_messageId example_step) = Some (step_message example_step, MessageWaiting) \<and>
    executeClaim zero_digest id Inr example_context w' (step_message example_step) =
      Inr (ClaimPerform None False, Some (ps_effect example_step))"
proof -
  have "\<exists>w'. persistStep (cc_deployments example_context) (sn_deployment example_snapshot) example_step empty_world = Inr w' \<and>
    map_of (ew_outbox w') (ps_messageId example_step) = Some (step_message example_step, MessageWaiting) \<and>
    executeClaim zero_digest id Inr example_context w' (step_message example_step) =
      Inr (ClaimPerform None False, Some (ps_effect example_step))"
    by (rule planned_prepare_performed [OF example_plan])
      (simp_all add: example_new_step empty_world_def example_effect_wf example_context_agrees,
       simp add: example_snapshot_def)
  then show ?thesis by (simp add: example_context_def example_snapshot_def)
qed

lemma effect_payload_roundtrip_witness:
  "parseReconcileEffect Inr (step_message example_step) = Inr (ps_effect example_step, False)"
  by (rule effect_payload_roundtrip [OF example_step_planned example_effect_wf])

lemma performed_effect_admitted_witness:
  "\<exists>w. executeClaim zero_digest id Inr example_context w (step_message example_step) =
       Inr (ClaimPerform None False, Some (ps_effect example_step)) \<and>
     effect_current (deployment_at (cc_deployments example_context) (effect_consumer (ps_effect example_step)))
       (ps_effect example_step)"
proof (rule example_claimed)
  fix w assume claim: "executeClaim zero_digest id Inr example_context w (step_message example_step) =
       Inr (ClaimPerform None False, Some (ps_effect example_step))"
  have "is_starting (ps_effect example_step)" by (simp add: is_starting_def example_step_kind)
  with performed_effect_admitted [OF claim] claim show ?thesis by auto
qed

lemma example_performs:
  obtains w where "performs example_env example_context (step_message example_step) w (ps_effect example_step)
    (w\<lparr>ew_journal := ew_journal w @ [(re_operationId (ps_effect example_step), Executing)]\<rparr>)"
proof (rule example_claimed)
  fix w assume claim: "executeClaim zero_digest id Inr example_context w (step_message example_step) =
       Inr (ClaimPerform None False, Some (ps_effect example_step))"
  then obtain i revision where "map_of (ew_instances w) (re_instanceId (ps_effect example_step)) = Some (i, revision)"
    by (auto elim!: executeClaim_effect)
  with claim show ?thesis
    by (intro that [of w])
      (auto simp: performs_def example_env_def authorize_effect_def reauthorize_effect_def)
qed

lemma performed_effect_recordable_witness:
  "\<exists>w w' i r. commitEffect (ps_effect example_step) None [id, id, id] (record_performed (ps_effect example_step) w) = Inr w' \<and>
     map_of (ew_instances w') (re_instanceId (ps_effect example_step)) = Some (i, r) \<and> pci_lifecycle i = CsPreparing"
proof (rule example_performs)
  fix w assume "performs example_env example_context (step_message example_step) w (ps_effect example_step)
    (w\<lparr>ew_journal := ew_journal w @ [(re_operationId (ps_effect example_step), Executing)]\<rparr>)"
  from performed_effect_recordable [OF this, of None 1 0 "[]"] show ?thesis
    by (auto simp: example_step_kind performed_state_def)
qed

definition done_instance :: persisted_instance where
  "done_instance = completed_instance (ps_effect example_step) None CsPreparing (new_instance example_step)"

definition done_world :: effect_world where
  "done_world = empty_world\<lparr>ew_instances := [(ps_instanceId example_step, (done_instance, js ''2''))],
     ew_performed := [ps_effect example_step]\<rparr>"

lemma done_world_facts:
  "world_ok done_world" "map_of (ew_instances done_world) (ps_instanceId example_step) = Some (done_instance, js ''2'')"
  "operation_completed (ps_operationId example_step) done_instance" "pci_lifecycle done_instance = CsPreparing"
proof -
  have "re_operationId (ps_effect example_step) = ps_operationId example_step"
    using step_fields(1) [OF example_step_planned] by auto
  then show "world_ok done_world" "map_of (ew_instances done_world) (ps_instanceId example_step) = Some (done_instance, js ''2'')"
    "operation_completed (ps_operationId example_step) done_instance" "pci_lifecycle done_instance = CsPreparing"
    by (simp_all add: world_ok_def map_ok_def done_world_def done_instance_def completed_instance_def clear_failure_def
        new_instance_def Let_def completed_listed_def operation_completed_def)
qed

lemma done_world_steps: "(reconcile_step example_env)\<^sup>*\<^sup>* done_world (replan done_world)"
  by (rule r_into_rtranclp, rule step_planned [of "[]" example_deployment example_step])
    (simp add: persistStep_def deployment_unchanged_def deployment_at_def)

lemma completed_effect_not_repeated_witness:
  "performed_as (ps_instanceId example_step) (ps_operationId example_step) (replan done_world) =
   performed_as (ps_instanceId example_step) (ps_operationId example_step) done_world"
  by (rule completed_effect_not_repeated [OF done_world_steps done_world_facts(1-3)])

lemma instances_follow_lifecycle_witness:
  "\<exists>j r'. map_of (ew_instances (replan done_world)) (ps_instanceId example_step) = Some (j, r') \<and>
     (component_step\<^sup>*\<^sup>* CsPreparing (pci_lifecycle j) \<or> pci_lifecycle j = CsStopped)"
  using instances_follow_lifecycle [OF done_world_steps done_world_facts(1,2)] by (auto simp: done_world_facts(4))

end
