(* ===== verification/Change_Feed.thy ===== *)
theory Change_Feed
  imports Store_Invariants
begin

text \<open>
  The interface of a watch: an iterator that changes are pushed to, that callers pull from and that is
  closed once. The laws are what a watcher relies on; from them follows that nothing is lost, repeated or
  reordered; what is pushed is reported as its copy. The iterators of the in-memory store (\<open>MemoryWatchIterator\<close>) and of the local coordination
  (\<open>CoordinationWatchIterator\<close>, in \<open>Coordination\<close>) are its instances.
\<close>

locale change_feed =
  fixes copy :: "'c \<Rightarrow> 'c"
    and push :: "'c \<Rightarrow> 'i \<Rightarrow> 'i"
    and pull :: "nat \<Rightarrow> 'i \<Rightarrow> 'i"
    and close :: "'i \<Rightarrow> 'i"
    and sent :: "'i \<Rightarrow> 'c list"
    and queued :: "'i \<Rightarrow> 'c list"
    and ended :: "'i \<Rightarrow> bool"
    and steady :: "'i \<Rightarrow> bool"
  assumes steady_push: "steady i \<Longrightarrow> steady (push c i)"
    and steady_pull: "steady i \<Longrightarrow> steady (pull n i)"
    and steady_close: "steady i \<Longrightarrow> steady (close i)"
    and push_open: "steady i \<Longrightarrow> \<not> ended i \<Longrightarrow>
      sent (push c i) @ queued (push c i) = sent i @ queued i @ [copy c]"
    and push_ended: "ended i \<Longrightarrow> push c i = i"
    and ended_push: "ended (push c i) = ended i"
    and pull_open: "steady i \<Longrightarrow> \<not> ended i \<Longrightarrow>
      sent (pull n i) @ queued (pull n i) = sent i @ queued i"
    and pull_ended: "steady i \<Longrightarrow> ended i \<Longrightarrow> sent (pull n i) = sent i"
    and ended_pull: "ended (pull n i) = ended i"
    and close_sent: "sent (close i) = sent i"
    and ended_close: "ended (close i)"
begin

text \<open>The iterator reports exactly the given changes, or a prefix of them once it has ended.\<close>

definition reports :: "'c list \<Rightarrow> 'i \<Rightarrow> bool" where
  "reports cs i \<longleftrightarrow> steady i \<and> (\<exists>rest. sent i @ rest = cs \<and> (ended i \<or> rest = queued i))"

lemma reports_open: "steady i \<Longrightarrow> sent i = [] \<Longrightarrow> queued i = cs \<Longrightarrow> reports cs i"
  by (auto simp: reports_def)

lemma reports_push:
  assumes "reports cs i"
  shows "reports (cs @ [copy c]) (push c i)"
proof (cases "ended i")
  case True
  from assms obtain rest where "steady i" "sent i @ rest = cs" by (auto simp: reports_def)
  then have "sent i @ (rest @ [copy c]) = cs @ [copy c]" by simp
  with \<open>steady i\<close> True show ?thesis by (auto simp: reports_def push_ended)
next
  case False
  with assms push_open [of i c] show ?thesis by (auto simp: reports_def steady_push ended_push)
qed

lemma reports_pull: "reports cs i \<Longrightarrow> reports cs (pull n i)"
  unfolding reports_def using pull_open [of i n] pull_ended [of i n] steady_pull [of i n] ended_pull [of n i]
  by (cases "ended i") auto

lemma reports_close: "reports cs i \<Longrightarrow> reports cs (close i)"
  unfolding reports_def using close_sent [of i] steady_close [of i] ended_close [of i] by auto

lemma reports_pushes: "reports cs i \<Longrightarrow> reports (cs @ map copy ds) (fold push ds i)"
proof (induction ds arbitrary: cs i)
  case (Cons d ds)
  then show ?case using Cons.IH [OF reports_push [OF Cons.prems, of d]] by simp
qed simp

end

definition store_feed_steady :: "watch_iterator \<Rightarrow> bool" where
  "store_feed_steady it \<longleftrightarrow>
     (if it_closed it then it_queue it = [] \<and> it_waiters it = [] else it_queue it = [] \<or> it_waiters it = [])"

interpretation store_feed: change_feed id watch_push watch_next watch_close delivered it_queue it_closed store_feed_steady
  by unfold_locales
    (auto simp: store_feed_steady_def watch_push_def watch_next_def watch_close_def fold_answer_None
      split: list.splits if_splits)

end
