(* ===== verification/Coordination.thy ===== *)
theory Coordination
  imports Change_Feed
begin

text \<open>
  The local coordination provider (\<open>packages/drivers-local/src/local-coordination.ts\<close>): leadership handles,
  leases, epochs, the compare-and-set records with their change log, and the watches of that log. Every handle
  and every watch the provider has handed out stays in its state under a number; \<open>lost\<close> of a handle is
  resolved when it is released. The clock is an argument, in milliseconds.
\<close>

section \<open>Watches\<close>

record coordination_change =
  cg_key :: jstring
  cg_revision :: nat
  cg_value :: json

text \<open>\<open>cw_from\<close> is the revision the watch reports from, its cursor unless that lay ahead of the log.\<close>

record coordination_watch =
  cw_from :: nat
  cw_queue :: "coordination_change list"
  cw_waiters :: "nat list"
  cw_answers :: "(nat \<times> coordination_change option) list"
  cw_closed :: bool

definition clone_change :: "coordination_change \<Rightarrow> coordination_change" where
  "clone_change c = c\<lparr>cg_value := canon (cg_value c)\<rparr>"

definition new_watch :: "nat \<Rightarrow> coordination_change list \<Rightarrow> coordination_watch" where
  "new_watch start changes =
     \<lparr>cw_from = start, cw_queue = map clone_change changes, cw_waiters = [], cw_answers = [], cw_closed = False\<rparr>"

definition answer_waiter :: "nat \<Rightarrow> coordination_change option \<Rightarrow> coordination_watch \<Rightarrow> coordination_watch" where
  "answer_waiter waiter result w = w\<lparr>cw_answers := cw_answers w @ [(waiter, result)]\<rparr>"

definition next_change :: "nat \<Rightarrow> coordination_watch \<Rightarrow> coordination_watch" where
  "next_change waiter w =
     (case cw_queue w of
        change # rest \<Rightarrow> answer_waiter waiter (Some change) (w\<lparr>cw_queue := rest\<rparr>)
      | [] \<Rightarrow> if cw_closed w then answer_waiter waiter None w else w\<lparr>cw_waiters := cw_waiters w @ [waiter]\<rparr>)"

definition push_change :: "coordination_change \<Rightarrow> coordination_watch \<Rightarrow> coordination_watch" where
  "push_change change w =
     (if cw_closed w then w
      else (let cloned = clone_change change
            in case cw_waiters w of
                 [] \<Rightarrow> w\<lparr>cw_queue := cw_queue w @ [cloned]\<rparr>
               | waiter # rest \<Rightarrow> answer_waiter waiter (Some cloned) (w\<lparr>cw_waiters := rest\<rparr>)))"

definition close_watch :: "coordination_watch \<Rightarrow> coordination_watch" where
  "close_watch w =
     (if cw_closed w then w
      else fold (\<lambda>waiter. answer_waiter waiter None) (cw_waiters w)
             (w\<lparr>cw_closed := True, cw_queue := [], cw_waiters := []\<rparr>))"

section \<open>The provider\<close>

record leadership_handle =
  lh_resource :: jstring
  lh_released :: bool

datatype coordination_lifecycle = CoordinationClosed | CoordinationCreated | CoordinationOpen

record coordination =
  co_records :: "(jstring, json \<times> nat) jsmap"
  co_leadership :: "(jstring, nat) jsmap"
  co_handles :: "(nat, leadership_handle) jsmap"
  co_changes :: "coordination_change list"
  co_watchers :: "(nat, coordination_watch) jsmap"
  co_revision :: nat
  co_lifecycle :: coordination_lifecycle

definition new_coordination :: coordination where
  "new_coordination =
     \<lparr>co_records = [], co_leadership = [], co_handles = [], co_changes = [], co_watchers = [], co_revision = 0,
      co_lifecycle = CoordinationCreated\<rparr>"

definition localEpoch :: jstring where
  "localEpoch = js ''1''"

definition coordination_open :: "coordination \<Rightarrow> unit result" where
  "coordination_open s =
     (if co_lifecycle s \<noteq> CoordinationOpen then Inl (Diagnostic ''COORDINATION_CLOSED'') else Inr ())"

definition invalid_request :: js_error where
  "invalid_request = Diagnostic ''COORDINATION_REQUEST_INVALID''"

definition assertResource :: "jstring \<Rightarrow> unit result" where
  "assertResource name = (if name = [] then Inl invalid_request else Inr ())"

definition open_coordination :: "coordination \<Rightarrow> coordination result" where
  "open_coordination s =
     (if co_lifecycle s = CoordinationClosed then Inl (Diagnostic ''COORDINATION_CLOSED'')
      else Inr (s\<lparr>co_lifecycle := CoordinationOpen\<rparr>))"

text \<open>The handle of a campaign: the one that holds the resource, or a new one.\<close>

definition campaign :: "jstring \<Rightarrow> coordination \<Rightarrow> (nat \<times> coordination) result" where
  "campaign name s =
     and_then (coordination_open s) (\<lambda>_. and_then (assertResource name) (\<lambda>_.
       case map_of (co_leadership s) name of
         Some handle \<Rightarrow> Inr (handle, s)
       | None \<Rightarrow>
           (let handle = length (co_handles s)
            in Inr (handle, s\<lparr>co_handles := co_handles s @ [(handle, \<lparr>lh_resource = name, lh_released = False\<rparr>)],
                              co_leadership := AList.update name handle (co_leadership s)\<rparr>))))"

definition release :: "nat \<Rightarrow> coordination \<Rightarrow> coordination" where
  "release handle s =
     (case map_of (co_handles s) handle of
        None \<Rightarrow> s
      | Some h \<Rightarrow>
          if lh_released h then s
          else s\<lparr>co_handles := AList.update handle (h\<lparr>lh_released := True\<rparr>) (co_handles s),
                 co_leadership :=
                   (if map_of (co_leadership s) (lh_resource h) = Some handle
                    then AList.delete (lh_resource h) (co_leadership s) else co_leadership s)\<rparr>)"

record lease =
  ls_resource :: jstring
  ls_owner :: jstring
  ls_epoch :: jstring
  ls_acquiredAt :: jstring
  ls_expiresAt :: jstring

text \<open>\<open>new Date(acquiredAt.getTime() + durationMs)\<close> drops the fraction of a millisecond.\<close>

definition lease_end :: "int \<Rightarrow> rat \<Rightarrow> int" where
  "lease_end now duration =
     (let t = of_int now + duration in if t < 0 then \<lceil>t\<rceil> else \<lfloor>t\<rfloor>)"

definition acquireLease :: "jstring \<Rightarrow> jstring \<Rightarrow> number \<Rightarrow> int \<Rightarrow> coordination \<Rightarrow> lease result" where
  "acquireLease name owner durationMs now s =
     and_then (coordination_open s) (\<lambda>_. and_then (assertResource name) (\<lambda>_.
       if owner = [] then Inl invalid_request
       else case durationMs of
         Num duration \<Rightarrow>
           if duration \<le> 0 then Inl invalid_request
           else and_then (toISOString now) (\<lambda>acquiredAt. and_then (toISOString (lease_end now duration)) (\<lambda>expiresAt.
             Inr \<lparr>ls_resource = name, ls_owner = owner, ls_epoch = localEpoch, ls_acquiredAt = acquiredAt,
                  ls_expiresAt = expiresAt\<rparr>))
       | _ \<Rightarrow> Inl invalid_request))"

definition nextEpoch :: "jstring \<Rightarrow> coordination \<Rightarrow> jstring result" where
  "nextEpoch name s =
     and_then (coordination_open s) (\<lambda>_. and_then (assertResource name) (\<lambda>_. Inr localEpoch))"

record cas_result =
  cas_applied :: bool
  cas_current :: "(json \<times> nat) option"

definition revision_expected :: "expected_revision \<Rightarrow> (json \<times> nat) option \<Rightarrow> bool" where
  "revision_expected expected current =
     (case expected of
        AnyRevision \<Rightarrow> True
      | Absent \<Rightarrow> current = None
      | ExactRevision n \<Rightarrow> map_option snd current = Some n)"

definition compareAndSet ::
  "jstring \<Rightarrow> expected_revision \<Rightarrow> json \<Rightarrow> coordination \<Rightarrow> (cas_result \<times> coordination) result" where
  "compareAndSet key expected v s =
     and_then (coordination_open s) (\<lambda>_.
       if key = [] then Inl invalid_request
       else
         (let current = map_of (co_records s) key
          in if \<not> revision_expected expected current
             then Inr (\<lparr>cas_applied = False, cas_current = map_option (map_prod canon id) current\<rparr>, s)
             else
               (let revision = co_revision s + 1; value = canon v;
                    change = \<lparr>cg_key = key, cg_revision = revision, cg_value = canon value\<rparr>
                in Inr (\<lparr>cas_applied = True, cas_current = Some (canon value, revision)\<rparr>,
                     s\<lparr>co_revision := revision,
                       co_records := AList.update key (value, revision) (co_records s),
                       co_changes := co_changes s @ [change],
                       co_watchers := map (map_prod id (push_change change)) (co_watchers s)\<rparr>))))"

definition watch :: "nat \<Rightarrow> nat \<Rightarrow> coordination \<Rightarrow> coordination result" where
  "watch watcher cursor s =
     and_then (coordination_open s) (\<lambda>_. Inr (s\<lparr>co_watchers := AList.update watcher
       (new_watch (min cursor (co_revision s)) (filter (\<lambda>c. cg_revision c > cursor) (co_changes s)))
       (co_watchers s)\<rparr>))"

definition update_watch ::
  "nat \<Rightarrow> (coordination_watch \<Rightarrow> coordination_watch) \<Rightarrow> coordination \<Rightarrow> coordination" where
  "update_watch watcher f s =
     s\<lparr>co_watchers := map (\<lambda>(i, w). (i, if i = watcher then f w else w)) (co_watchers s)\<rparr>"

definition coordination_health :: "int \<Rightarrow> coordination \<Rightarrow> jstring result" where
  "coordination_health now s = and_then (coordination_open s) (\<lambda>_. toISOString now)"

text \<open>\<open>close\<close>: the handles are released at once, the watches end after their releases were awaited.\<close>

definition begin_close :: "coordination \<Rightarrow> coordination" where
  "begin_close s =
     (if co_lifecycle s = CoordinationClosed then s
      else fold release (map snd (co_leadership s)) (s\<lparr>co_lifecycle := CoordinationClosed\<rparr>))"

definition end_close :: "coordination \<Rightarrow> coordination" where
  "end_close s = s\<lparr>co_watchers := map (map_prod id close_watch) (co_watchers s)\<rparr>"

section \<open>Runs\<close>

inductive coordination_step :: "coordination \<Rightarrow> coordination \<Rightarrow> bool" where
  opened: "open_coordination s = Inr s' \<Longrightarrow> coordination_step s s'"
| campaigned: "campaign name s = Inr (handle, s') \<Longrightarrow> coordination_step s s'"
| released: "coordination_step s (release handle s)"
| compared: "compareAndSet key expected v s = Inr (r, s') \<Longrightarrow> coordination_step s s'"
| watched: "watch watcher cursor s = Inr s' \<Longrightarrow> watcher \<notin> fst ` set (co_watchers s) \<Longrightarrow> coordination_step s s'"
| pulled: "coordination_step s (update_watch watcher (next_change waiter) s)"
| returned: "coordination_step s (update_watch watcher close_watch s)"
| close_begun: "coordination_step s (begin_close s)"
| close_ended: "co_lifecycle s = CoordinationClosed \<Longrightarrow> coordination_step s (end_close s)"

definition coordination_reachable :: "coordination \<Rightarrow> bool" where
  "coordination_reachable s \<longleftrightarrow> coordination_step\<^sup>*\<^sup>* new_coordination s"

end
