(* ===== verification/Coordination_Correct.thy ===== *)
theory Coordination_Correct
  imports Coordination
begin

text \<open>
  Correctness of the local coordination: the change log is the history of the records, a resource has one
  leadership handle at a time, a compare-and-set has one winner, and watches report the log. The watches are
  an instance of the \<open>change_feed\<close> interface.
\<close>

section \<open>Watches as change feeds\<close>

definition cw_sent :: "coordination_watch \<Rightarrow> coordination_change list" where
  "cw_sent w = List.map_filter snd (cw_answers w)"

definition watch_steady :: "coordination_watch \<Rightarrow> bool" where
  "watch_steady w \<longleftrightarrow>
     (if cw_closed w then cw_queue w = [] \<and> cw_waiters w = [] else cw_queue w = [] \<or> cw_waiters w = [])"

lemma answer_waiter_simps [simp]:
  "cw_from (answer_waiter n r w) = cw_from w" "cw_queue (answer_waiter n r w) = cw_queue w"
  "cw_waiters (answer_waiter n r w) = cw_waiters w" "cw_closed (answer_waiter n r w) = cw_closed w"
  "cw_sent (answer_waiter n r w) = cw_sent w @ (case r of None \<Rightarrow> [] | Some c \<Rightarrow> [c])"
  by (simp_all add: answer_waiter_def cw_sent_def map_filter_def split: option.split)

lemma cw_sent_update [simp]:
  "cw_sent (w\<lparr>cw_queue := q\<rparr>) = cw_sent w" "cw_sent (w\<lparr>cw_waiters := ns\<rparr>) = cw_sent w"
  "cw_sent (w\<lparr>cw_closed := b\<rparr>) = cw_sent w"
  by (simp_all add: cw_sent_def)

lemma end_waiters [simp]:
  "cw_from (fold (\<lambda>n. answer_waiter n None) ns w) = cw_from w"
  "cw_queue (fold (\<lambda>n. answer_waiter n None) ns w) = cw_queue w"
  "cw_waiters (fold (\<lambda>n. answer_waiter n None) ns w) = cw_waiters w"
  "cw_closed (fold (\<lambda>n. answer_waiter n None) ns w) = cw_closed w"
  "cw_sent (fold (\<lambda>n. answer_waiter n None) ns w) = cw_sent w"
  by (induction ns arbitrary: w) simp_all

interpretation log_feed: change_feed clone_change push_change next_change close_watch
    cw_sent cw_queue cw_closed watch_steady
  by unfold_locales
    (auto simp: watch_steady_def push_change_def next_change_def close_watch_def Let_def
      split: list.splits if_splits)

section \<open>The invariant\<close>

definition log_replay :: "coordination_change list \<Rightarrow> jstring \<rightharpoonup> json \<times> nat" where
  "log_replay changes =
     fold (\<lambda>c m. m(cg_key c \<mapsto> (cg_value c, cg_revision c))) changes Map.empty"

definition log_ok :: "coordination \<Rightarrow> bool" where
  "log_ok s \<longleftrightarrow>
     map cg_revision (co_changes s) = [1..<co_revision s + 1] \<and>
     map clone_change (co_changes s) = co_changes s \<and>
     map_of (co_records s) = log_replay (co_changes s)"

definition handle_live :: "coordination \<Rightarrow> jstring \<Rightarrow> nat \<Rightarrow> bool" where
  "handle_live s name handle \<longleftrightarrow>
     map_of (co_handles s) handle = Some \<lparr>lh_resource = name, lh_released = False\<rparr>"

definition handles_agree :: "coordination \<Rightarrow> bool" where
  "handles_agree s \<longleftrightarrow>
     map fst (co_handles s) = [0..<length (co_handles s)] \<and> map_ok (co_leadership s) \<and>
     (\<forall>name handle. map_of (co_leadership s) name = Some handle \<longleftrightarrow> handle_live s name handle)"

definition handles_ok :: "coordination \<Rightarrow> bool" where
  "handles_ok s \<longleftrightarrow> handles_agree s \<and> (co_lifecycle s = CoordinationClosed \<longrightarrow> co_leadership s = [])"

definition watch_ok :: "coordination \<Rightarrow> coordination_watch \<Rightarrow> bool" where
  "watch_ok s w \<longleftrightarrow>
     cw_from w \<le> co_revision s \<and>
     log_feed.reports (filter (\<lambda>c. cw_from w < cg_revision c) (co_changes s)) w"

definition coordination_ok :: "coordination \<Rightarrow> bool" where
  "coordination_ok s \<longleftrightarrow> log_ok s \<and> handles_ok s \<and> (\<forall>(i, w) \<in> set (co_watchers s). watch_ok s w)"

lemma coordination_ok_new: "coordination_ok new_coordination"
  by (simp add: coordination_ok_def log_ok_def handles_ok_def handles_agree_def handle_live_def new_coordination_def log_replay_def)

lemma cw_from_ops [simp]:
  "cw_from (push_change c w) = cw_from w" "cw_from (next_change n w) = cw_from w" "cw_from (close_watch w) = cw_from w"
  by (auto simp: push_change_def next_change_def close_watch_def Let_def split: list.splits)

lemma watch_ok_cong:
  "co_revision t = co_revision s \<Longrightarrow> co_changes t = co_changes s \<Longrightarrow> watch_ok t w \<longleftrightarrow> watch_ok s w"
  by (simp add: watch_ok_def)

lemma watch_ok_ops:
  "watch_ok s w \<Longrightarrow> watch_ok s (next_change n w)" "watch_ok s w \<Longrightarrow> watch_ok s (close_watch w)"
  by (auto simp: watch_ok_def intro: log_feed.reports_pull log_feed.reports_close)

lemma watches_ok_map:
  assumes "\<forall>(i, w) \<in> set ws. watch_ok s w" and "\<And>w. watch_ok s w \<Longrightarrow> watch_ok s (f w)"
  shows "\<forall>(i, w) \<in> set (map (\<lambda>(i, w). (i, if P i then f w else w)) ws). watch_ok s w"
  using assms by fastforce

section \<open>Handles\<close>

lemma released_differs [simp]: "h\<lparr>lh_released := True\<rparr> \<noteq> \<lparr>lh_resource = name, lh_released = False\<rparr>"
  by (cases h) simp

lemma map_fst_update: "k \<in> fst ` set m \<Longrightarrow> map fst (AList.update k v m) = map fst m"
  by (induction m) auto

lemma update_present: "map_of m k = Some u \<Longrightarrow> map fst (AList.update k v m) = map fst m \<and>
    length (AList.update k v m) = length m"
  by (metis length_map map_fst_update map_of_eq_None_iff option.distinct(1))

lemma handles_agree_release:
  assumes "handles_agree s"
  shows "handles_agree (release handle s)"
proof (cases "map_of (co_handles s) handle")
  case None
  with assms show ?thesis by (simp add: release_def)
next
  case (Some h)
  show ?thesis
  proof (cases "lh_released h")
    case True
    with assms Some show ?thesis by (simp add: release_def)
  next
    case False
    then have h: "h = \<lparr>lh_resource = lh_resource h, lh_released = False\<rparr>" by simp
    with Some have live: "handle_live s (lh_resource h) handle" by (simp add: handle_live_def)
    have entry: "map_of (co_leadership s) k = Some h \<longleftrightarrow> handle_live s k h" for k h
      using assms by (simp add: handles_agree_def)
    from live have held: "map_of (co_leadership s) (lh_resource h) = Some handle" by (simp add: entry)
    have "map_of (AList.delete (lh_resource h) (co_leadership s)) name = Some k \<longleftrightarrow>
        map_of (AList.update handle (h\<lparr>lh_released := True\<rparr>) (co_handles s)) k =
          Some \<lparr>lh_resource = name, lh_released = False\<rparr>" for name k
    proof (cases "k = handle")
      case True
      have "map_of (co_leadership s) name = Some handle \<Longrightarrow> name = lh_resource h"
        using assms live by (auto simp: handles_agree_def handle_live_def)
      with True show ?thesis by (cases h) (auto simp: map_lookups)
    next
      case False
      then show ?thesis
        using entry [of name k] held by (cases "name = lh_resource h") (auto simp: map_lookups handle_live_def)
    qed
    with assms Some False held show ?thesis
      by (simp add: release_def handles_agree_def handle_live_def update_present [OF Some])
  qed
qed

lemma leadership_release:
  assumes "handles_agree s"
  shows "map_of (co_leadership (release handle s)) name = Some k \<longleftrightarrow>
    map_of (co_leadership s) name = Some k \<and> k \<noteq> handle"
proof -
  have "handle_live (release handle s) name k \<longleftrightarrow> handle_live s name k \<and> k \<noteq> handle"
    by (auto simp: handle_live_def release_def map_lookups split: option.splits)
  then show ?thesis using assms handles_agree_release [OF assms, of handle] by (simp add: handles_agree_def)
qed

lemma leadership_releases:
  "handles_agree s \<Longrightarrow> handles_agree (fold release hs s) \<and>
   (\<forall>name k. map_of (co_leadership (fold release hs s)) name = Some k \<longleftrightarrow>
      map_of (co_leadership s) name = Some k \<and> k \<notin> set hs)"
proof (induction hs arbitrary: s)
  case (Cons h hs)
  then show ?case
    using Cons.IH [OF handles_agree_release [OF Cons.prems, of h]] by (auto simp: leadership_release [OF Cons.prems])
qed simp

lemma release_frame [simp]:
  "co_records (release h s) = co_records s" "co_changes (release h s) = co_changes s"
  "co_watchers (release h s) = co_watchers s" "co_revision (release h s) = co_revision s"
  "co_lifecycle (release h s) = co_lifecycle s"
  by (simp_all add: release_def split: option.split)

lemma handles_agree_campaign:
  assumes "handles_agree s" and "campaign name s = Inr (handle, s')"
  shows "handles_agree s'" and "handle_live s' name handle"
    and "handle < length (co_handles s) \<longrightarrow> s' = s"
proof -
  let ?n = "length (co_handles s)"
  have fresh: "map_of (co_handles s) ?n = None"
  proof -
    have "fst ` set (co_handles s) = {0..<?n}" using assms(1) by (metis handles_agree_def set_map set_upt)
    then show ?thesis by (simp add: map_of_eq_None_iff)
  qed
  have entry: "map_of (co_leadership s) k = Some h \<longleftrightarrow> handle_live s k h" for k h
    using assms(1) by (simp add: handles_agree_def)
  show "handles_agree s'" "handle_live s' name handle" "handle < length (co_handles s) \<longrightarrow> s' = s"
  proof (atomize (full), cases "map_of (co_leadership s) name")
    case (Some h)
    with assms entry show "handles_agree s' \<and> handle_live s' name handle \<and> (handle < length (co_handles s) \<longrightarrow> s' = s)"
      by (auto simp: campaign_def)
  next
    case None
    define t where "t = s\<lparr>co_handles := co_handles s @ [(?n, \<lparr>lh_resource = name, lh_released = False\<rparr>)],
      co_leadership := AList.update name ?n (co_leadership s)\<rparr>"
    have s': "handle = ?n" "s' = t" "co_lifecycle s = CoordinationOpen"
      using assms(2) None by (auto simp: campaign_def t_def coordination_open_def Let_def split: if_splits)
    have "map_of (co_leadership t) k = Some h \<longleftrightarrow> handle_live t k h" for k h
    proof (cases "h = ?n")
      case True
      then show ?thesis using fresh entry [of k ?n]
        by (auto simp: t_def handle_live_def map_lookups map_add_def split: option.splits if_splits)
    next
      case False
      then show ?thesis using None entry [of k h] entry [of name h]
        by (auto simp: t_def handle_live_def map_lookups map_add_def split: option.splits if_splits)
    qed
    with assms(1) s' fresh show "handles_agree s' \<and> handle_live s' name handle \<and> (handle < length (co_handles s) \<longrightarrow> s' = s)"
      by (auto simp: handles_agree_def t_def handle_live_def map_add_def)
  qed
qed

section \<open>Every operation keeps the invariant\<close>

lemma log_replay_snoc: "log_replay (cs @ [c]) = (log_replay cs)(cg_key c \<mapsto> (cg_value c, cg_revision c))"
  by (simp add: log_replay_def)

lemma coordination_ok_handles:
  assumes "coordination_ok s" and "handles_ok t" and "co_changes t = co_changes s" and "co_records t = co_records s"
    and "co_revision t = co_revision s" and "co_watchers t = co_watchers s"
  shows "coordination_ok t"
  using assms by (auto simp: coordination_ok_def log_ok_def watch_ok_def)

lemma coordination_ok_watchers:
  assumes "coordination_ok s" and "\<forall>(i, w) \<in> set ws. watch_ok s w"
  shows "coordination_ok (s\<lparr>co_watchers := ws\<rparr>)"
proof -
  let ?t = "s\<lparr>co_watchers := ws\<rparr>"
  have "log_ok ?t = log_ok s" by (simp add: log_ok_def)
  moreover have "handles_ok ?t = handles_ok s" by (simp add: handles_ok_def handles_agree_def handle_live_def)
  moreover have "watch_ok ?t = watch_ok s" by (rule ext) (simp add: watch_ok_def)
  ultimately show ?thesis using assms by (simp add: coordination_ok_def)
qed

lemma log_bound:
  assumes "log_ok s" and "c \<in> set (co_changes s)"
  shows "0 < cg_revision c" and "cg_revision c \<le> co_revision s" and "clone_change c = c"
proof -
  have "set (map cg_revision (co_changes s)) = {1..<co_revision s + 1}"
    using assms(1) by (simp add: log_ok_def del: upt_Suc)
  moreover have "cg_revision c \<in> set (map cg_revision (co_changes s))" using assms(2) by simp
  ultimately have "cg_revision c \<in> {1..<co_revision s + 1}" by blast
  then show "0 < cg_revision c" "cg_revision c \<le> co_revision s" by auto
  show "clone_change c = c" using assms by (metis log_ok_def map_eq_conv map_idI list.map_ident)
qed

lemma compareAndSet_cases:
  assumes "compareAndSet key expected v s = Inr (r, s')"
  obtains (refused) "\<not> revision_expected expected (map_of (co_records s) key)" "s' = s" "\<not> cas_applied r"
      "cas_current r = map_option (map_prod canon id) (map_of (co_records s) key)"
  | (applied) change where "revision_expected expected (map_of (co_records s) key)" "key \<noteq> []"
      "cas_applied r" "cas_current r = Some (canon v, co_revision s + 1)"
      "change = \<lparr>cg_key = key, cg_revision = co_revision s + 1, cg_value = canon v\<rparr>"
      "s' = s\<lparr>co_revision := co_revision s + 1,
             co_records := AList.update key (canon v, co_revision s + 1) (co_records s),
             co_changes := co_changes s @ [change],
             co_watchers := map (map_prod id (push_change change)) (co_watchers s)\<rparr>"
  using assms by (auto simp: compareAndSet_def Let_def canon_idem split: if_splits)

lemma coordination_ok_compare:
  assumes "coordination_ok s" and "compareAndSet key expected v s = Inr (r, s')"
  shows "coordination_ok s'"
  using assms(2)
proof (cases rule: compareAndSet_cases)
  case refused
  with assms(1) show ?thesis by simp
next
  case (applied change)
  let ?n = "co_revision s + 1"
  have clone: "clone_change change = change" using applied by (simp add: clone_change_def canon_idem)
  have rev: "cg_revision change = ?n" using applied by simp
  have log: "log_ok s" and watches: "\<forall>(i, w) \<in> set (co_watchers s). watch_ok s w"
    using assms(1) by (simp_all add: coordination_ok_def)
  have "log_ok s'"
    using log applied clone rev by (simp add: log_ok_def log_replay_snoc update_conv' del: upt_Suc) (simp add: upt_Suc_append)
  moreover have "handles_ok s'"
    using assms(1) applied by (simp add: coordination_ok_def handles_ok_def handles_agree_def handle_live_def)
  moreover have "watch_ok s' (push_change change w)" if "watch_ok s w" for w
    using that applied rev clone log_feed.reports_push [of _ w change] by (auto simp: watch_ok_def)
  ultimately show ?thesis
    using watches applied by (fastforce simp: coordination_ok_def)
qed

lemma coordination_ok_watch:
  assumes "coordination_ok s" and "watch watcher cursor s = Inr s'" and "watcher \<notin> fst ` set (co_watchers s)"
  shows "coordination_ok s'"
proof -
  let ?start = "min cursor (co_revision s)"
  let ?new = "new_watch ?start (filter (\<lambda>c. cg_revision c > cursor) (co_changes s))"
  have log: "log_ok s" using assms(1) by (simp add: coordination_ok_def)
  have filters: "filter (\<lambda>c. cg_revision c > cursor) (co_changes s) = filter (\<lambda>c. ?start < cg_revision c) (co_changes s)"
  proof (rule filter_cong [OF refl])
    fix c assume "c \<in> set (co_changes s)"
    from log_bound(2) [OF log this] show "(cg_revision c > cursor) = (?start < cg_revision c)" by auto
  qed
  have "map clone_change (filter P (co_changes s)) = filter P (co_changes s)" for P
    using log_bound(3) [OF log] by (intro map_idI) auto
  then have "log_feed.reports (filter (\<lambda>c. ?start < cg_revision c) (co_changes s)) ?new"
    by (intro log_feed.reports_open) (simp_all add: new_watch_def watch_steady_def cw_sent_def map_filter_def filters)
  then have new: "watch_ok s ?new" by (simp add: watch_ok_def new_watch_def)
  have s': "s' = s\<lparr>co_watchers := AList.update watcher ?new (co_watchers s)\<rparr>"
    using assms(2) by (auto simp: watch_def)
  have "\<forall>(i, w) \<in> set (AList.update watcher ?new (co_watchers s)). watch_ok s w"
    using assms(1) new set_update_alist [of watcher ?new "co_watchers s"] by (auto simp: coordination_ok_def)
  with assms(1) show ?thesis unfolding s' by (rule coordination_ok_watchers)
qed

lemma coordination_ok_update_watch:
  assumes "coordination_ok s" and "\<And>w. watch_ok s w \<Longrightarrow> watch_ok s (f w)"
  shows "coordination_ok (update_watch watcher f s)"
proof -
  have "\<forall>(i, w) \<in> set (map (\<lambda>(i, w). (i, if i = watcher then f w else w)) (co_watchers s)). watch_ok s w"
    using assms by (intro watches_ok_map) (auto simp: coordination_ok_def)
  with assms(1) show ?thesis unfolding update_watch_def by (rule coordination_ok_watchers)
qed

lemma handles_ok_release: "handles_ok s \<Longrightarrow> handles_ok (release handle s)"
  by (auto simp: handles_ok_def handles_agree_release) (auto simp: release_def split: option.splits)

lemma handles_ok_campaign:
  assumes "handles_ok s" and "campaign name s = Inr (handle, s')"
  shows "handles_ok s'"
proof -
  have "co_lifecycle s' = CoordinationOpen"
    using assms(2) by (auto simp: campaign_def coordination_open_def Let_def split: option.splits if_splits)
  with assms show ?thesis by (auto simp: handles_ok_def intro: handles_agree_campaign(1))
qed

lemma releases_frame [simp]:
  "co_records (fold release hs s) = co_records s" "co_changes (fold release hs s) = co_changes s"
  "co_watchers (fold release hs s) = co_watchers s" "co_revision (fold release hs s) = co_revision s"
  "co_lifecycle (fold release hs s) = co_lifecycle s"
  by (induction hs arbitrary: s) simp_all

lemma handles_ok_close:
  assumes "handles_ok s"
  shows "handles_ok (begin_close s)"
proof (cases "co_lifecycle s = CoordinationClosed")
  case True
  with assms show ?thesis by (simp add: begin_close_def)
next
  case False
  let ?s = "s\<lparr>co_lifecycle := CoordinationClosed\<rparr>"
  have agree: "handles_agree ?s" using assms by (simp add: handles_ok_def handles_agree_def handle_live_def)
  note closing = leadership_releases [OF agree, of "map snd (co_leadership s)"]
  have "map_of (co_leadership (begin_close s)) name \<noteq> Some k" for name k
    using closing False by (auto simp: begin_close_def dest!: map_of_SomeD) (metis image_eqI snd_conv)
  then have "map_of (co_leadership (begin_close s)) = Map.empty" by (meson ext not_Some_eq)
  then have "co_leadership (begin_close s) = []" by simp
  with closing False show ?thesis by (simp add: handles_ok_def begin_close_def)
qed

lemma coordination_ok_step:
  assumes "coordination_step s s'" and "coordination_ok s"
  shows "coordination_ok s'"
  using assms
proof cases
  case opened
  then have s': "s' = s\<lparr>co_lifecycle := CoordinationOpen\<rparr>" by (auto simp: open_coordination_def split: if_splits)
  have "handles_ok s'"
    using assms(2) by (simp add: s' coordination_ok_def handles_ok_def handles_agree_def handle_live_def)
  then show ?thesis by (rule coordination_ok_handles [OF assms(2)]) (simp_all add: s')
next
  case (campaigned name handle)
  then have frame: "co_changes s' = co_changes s" "co_records s' = co_records s" "co_revision s' = co_revision s"
    "co_watchers s' = co_watchers s"
    by (auto simp: campaign_def Let_def split: option.splits)
  from campaigned assms(2) have "handles_ok s'" by (auto simp: coordination_ok_def intro: handles_ok_campaign)
  then show ?thesis by (rule coordination_ok_handles [OF assms(2)]) (simp_all add: frame)
next
  case (released handle)
  from assms(2) have "handles_ok s'" by (simp add: released coordination_ok_def handles_ok_release)
  then show ?thesis by (rule coordination_ok_handles [OF assms(2)]) (simp_all add: released)
next
  case (compared key expected v r)
  with assms(2) show ?thesis by (auto intro: coordination_ok_compare)
next
  case (watched watcher cursor)
  with assms(2) show ?thesis by (auto intro: coordination_ok_watch)
next
  case (pulled watcher waiter)
  with assms(2) show ?thesis by (auto intro: coordination_ok_update_watch watch_ok_ops)
next
  case (returned watcher)
  with assms(2) show ?thesis by (auto intro: coordination_ok_update_watch watch_ok_ops)
next
  case close_begun
  have frame: "co_changes (begin_close s) = co_changes s" "co_records (begin_close s) = co_records s"
    "co_revision (begin_close s) = co_revision s" "co_watchers (begin_close s) = co_watchers s"
    by (auto simp: begin_close_def)
  from assms(2) have "handles_ok s'" by (simp add: close_begun coordination_ok_def handles_ok_close)
  then show ?thesis by (rule coordination_ok_handles [OF assms(2)]) (simp_all add: close_begun frame)
next
  case close_ended
  have "\<forall>(i, w) \<in> set (map (map_prod id close_watch) (co_watchers s)). watch_ok s w"
    using assms(2) by (fastforce simp: coordination_ok_def intro: watch_ok_ops)
  with assms(2) show ?thesis unfolding close_ended end_close_def by (rule coordination_ok_watchers)
qed

lemma coordination_ok_steps: "coordination_step\<^sup>*\<^sup>* s s' \<Longrightarrow> coordination_ok s \<Longrightarrow> coordination_ok s'"
  by (induction rule: rtranclp_induct) (auto intro: coordination_ok_step)

lemma coordination_reachable_ok: "coordination_reachable s \<Longrightarrow> coordination_ok s"
  using coordination_ok_steps coordination_ok_new by (auto simp: coordination_reachable_def)

end
