(* ===== verification/Coordination_Properties.thy ===== *)
theory Coordination_Properties
  imports Coordination_Correct
begin

text \<open>
  What the coordination promises its clients: the log and the records agree, a compare-and-set round has one
  winner, a resource has one leader, and a watch reports the log.
\<close>

section \<open>Records only move forward\<close>

fun advanced :: "(json \<times> nat) option \<Rightarrow> (json \<times> nat) option \<Rightarrow> bool" where
  "advanced None y \<longleftrightarrow> True"
| "advanced (Some (v, n)) None \<longleftrightarrow> False"
| "advanced (Some (v, n)) (Some (v', n')) \<longleftrightarrow> n < n' \<or> v' = v \<and> n' = n"

lemma advanced_refl: "advanced x x"
  by (cases "(x, x)" rule: advanced.cases) auto

lemma advanced_trans: "advanced x y \<Longrightarrow> advanced y z \<Longrightarrow> advanced x z"
  by (cases "(x, y)" rule: advanced.cases; cases "(y, z)" rule: advanced.cases) auto

definition record_advanced :: "coordination \<Rightarrow> coordination \<Rightarrow> bool" where
  "record_advanced s t \<longleftrightarrow> (\<forall>key. advanced (map_of (co_records s) key) (map_of (co_records t) key))"

lemma record_advanced_refl: "record_advanced s s"
  by (simp add: record_advanced_def advanced_refl)

lemma record_advanced_same: "co_records t = co_records s \<Longrightarrow> record_advanced s t"
  by (simp add: record_advanced_def advanced_refl)

lemma record_advanced_trans: "record_advanced s t \<Longrightarrow> record_advanced t u \<Longrightarrow> record_advanced s u"
  unfolding record_advanced_def by (meson advanced_trans)

lemma log_replay_bound:
  assumes "\<forall>c \<in> set cs. cg_revision c \<le> n" and "log_replay cs key = Some (v, m)"
  shows "m \<le> n"
  using assms
proof (induction cs rule: rev_induct)
  case Nil
  then show ?case by (simp add: log_replay_def)
next
  case (snoc c cs)
  then show ?case by (auto simp: log_replay_snoc split: if_splits)
qed

lemma record_bound:
  assumes "coordination_ok s" and "map_of (co_records s) key = Some (v, n)"
  shows "n \<le> co_revision s"
proof -
  have log: "log_ok s" using assms(1) by (simp add: coordination_ok_def)
  then have "map_of (co_records s) = log_replay (co_changes s)" by (simp add: log_ok_def)
  with assms(2) have "log_replay (co_changes s) key = Some (v, n)" by metis
  then show ?thesis by (rule log_replay_bound [rotated]) (simp add: log_bound(2) [OF log])
qed

lemma record_advanced_step:
  assumes "coordination_step s t" and "coordination_ok s"
  shows "record_advanced s t"
  using assms(1)
proof cases
  case (compared key expected v r)
  from compared(1) show ?thesis
  proof (cases rule: compareAndSet_cases)
    case refused
    then show ?thesis by (simp add: record_advanced_refl)
  next
    case (applied change)
    have "advanced (map_of (co_records s) k) (map_of (co_records t) k)" for k
    proof (cases "k = key")
      case True
      with applied show ?thesis
        using record_bound [OF assms(2), of key] by (cases "map_of (co_records s) key") (auto simp: map_lookups less_Suc_eq_le)
    next
      case False
      with applied show ?thesis by (simp add: map_lookups advanced_refl)
    qed
    then show ?thesis by (simp add: record_advanced_def)
  qed
qed (auto intro!: record_advanced_same simp: open_coordination_def campaign_def watch_def update_watch_def begin_close_def
      end_close_def Let_def split: option.splits if_splits)

lemma record_advanced_steps:
  "coordination_step\<^sup>*\<^sup>* s t \<Longrightarrow> coordination_ok s \<Longrightarrow> record_advanced s t"
proof (induction rule: rtranclp_induct)
  case base
  then show ?case by (simp add: record_advanced_refl)
next
  case (step t u)
  then show ?case
    by (meson record_advanced_trans record_advanced_step coordination_ok_steps)
qed

section \<open>Properties\<close>

text \<open>
  The log is the history of the records: in every reachable state the changes carry the revisions from
  1 to the revision of the provider, each once and in order, and replaying them gives exactly the records
  with their values and revisions.
\<close>

theorem coordination_log_exact:
  assumes "coordination_reachable s"
  shows "map cg_revision (co_changes s) = [1..<co_revision s + 1] \<and>
    map_of (co_records s) = log_replay (co_changes s)"
  using coordination_reachable_ok [OF assms] by (simp add: coordination_ok_def log_ok_def)

text \<open>
  C33. A compare-and-set round has one winner: after a request that named the absence or the revision it
  expected was applied in a reachable state, no later request on the key with the same expectation is applied,
  and each is answered with a later record of the key.
\<close>

theorem compare_and_set_one_winner:
  assumes "coordination_reachable s" and "compareAndSet key expected v s = Inr (r, s')"
    and "cas_applied r" and "expected \<noteq> AnyRevision"
    and "coordination_step\<^sup>*\<^sup>* s' t" and "compareAndSet key expected v' t = Inr (r', t')"
  shows "\<not> cas_applied r' \<and> t' = t \<and>
    (\<exists>current n. cas_current r' = Some (current, n) \<and> co_revision s < n)"
proof -
  have ok: "coordination_ok s" by (rule coordination_reachable_ok [OF assms(1)])
  have step: "coordination_step s s'" by (rule coordination_step.compared [OF assms(2)])
  then have "record_advanced s' t" using assms(5) ok coordination_ok_step record_advanced_steps by blast
  moreover from assms(2,3) have "map_of (co_records s') key = Some (canon v, co_revision s + 1)"
    and fits: "revision_expected expected (map_of (co_records s) key)"
    by (cases rule: compareAndSet_cases; simp add: map_lookups)+
  ultimately have "advanced (Some (canon v, co_revision s + 1)) (map_of (co_records t) key)"
    unfolding record_advanced_def by metis
  then obtain current n where t: "map_of (co_records t) key = Some (current, n)" "co_revision s < n"
    by (cases "map_of (co_records t) key") auto
  have "\<not> revision_expected expected (map_of (co_records t) key)"
  proof (cases "map_of (co_records s) key")
    case None
    with fits assms(4) t(1) show ?thesis by (simp add: revision_expected_def split: expected_revision.splits)
  next
    case (Some x)
    with record_bound [OF ok, of key "fst x" "snd x"] t(2) have "snd x \<noteq> n" by simp
    with Some fits assms(4) t(1) show ?thesis
      by (auto simp: revision_expected_def split: expected_revision.splits)
  qed
  from assms(6) show ?thesis
  proof (cases rule: compareAndSet_cases)
    case refused
    with t show ?thesis by simp
  next
    case (applied change)
    with \<open>\<not> revision_expected expected (map_of (co_records t) key)\<close> show ?thesis by simp
  qed
qed

text \<open>
  C34. A resource has one leader: in a reachable state two handles of one resource that are not released are
  the same handle; a campaign returns it, or a handle that was never given out before, and leaves it as the
  only live handle of the resource; the release of a handle ends that handle and leaves every other one as it was,
  of its own resource or of another; a closed provider has no live handle.
\<close>

theorem leadership_exclusive:
  assumes "coordination_reachable s"
  shows "(\<forall>name h k. handle_live s name h \<longrightarrow> handle_live s name k \<longrightarrow> h = k) \<and>
    (\<forall>name h s'. campaign name s = Inr (h, s') \<longrightarrow>
       {k. handle_live s' name k} = {h} \<and> (handle_live s name h \<and> s' = s \<or> map_of (co_handles s) h = None)) \<and>
    (\<forall>name h k. handle_live (release h s) name k \<longleftrightarrow> handle_live s name k \<and> k \<noteq> h) \<and>
    (co_lifecycle s = CoordinationClosed \<longrightarrow> (\<forall>name h. \<not> handle_live s name h))"
proof -
  have ok: "handles_ok s" using coordination_reachable_ok [OF assms] by (simp add: coordination_ok_def)
  have unique: "handle_live u name h \<Longrightarrow> handle_live u name k \<Longrightarrow> h = k" if "handles_agree u" for u name h k
    using that unfolding handles_agree_def by (metis option.inject)
  have agree: "handles_agree s" using ok by (simp add: handles_ok_def)
  have "{k. handle_live s' name k} = {h} \<and> (handle_live s name h \<and> s' = s \<or> map_of (co_handles s) h = None)"
    if c: "campaign name s = Inr (h, s')" for name h s'
  proof -
    have live: "handle_live s' name h" by (rule handles_agree_campaign(2) [OF agree c])
    have "fst ` set (co_handles s) = {0..<length (co_handles s)}"
      using agree by (metis handles_agree_def set_map set_upt)
    then have "map_of (co_handles s) h = None \<or> h < length (co_handles s)" by (auto simp: map_of_eq_None_iff)
    moreover have "{k. handle_live s' name k} = {h}"
      using live unique [OF handles_agree_campaign(1) [OF agree c]] by blast
    ultimately show ?thesis using handles_agree_campaign(3) [OF agree c] live by auto
  qed
  moreover have "handle_live (release h s) name k \<longleftrightarrow> handle_live s name k \<and> k \<noteq> h" for name h k
    by (auto simp: handle_live_def release_def map_lookups split: option.splits)
  moreover have "\<not> handle_live s name h" if "co_lifecycle s = CoordinationClosed" for name h
    using ok that by (auto simp: handles_ok_def handles_agree_def)
  ultimately show ?thesis using unique [OF agree] by blast
qed

text \<open>
  A watch of the coordination loses, repeats and reorders nothing: in every reachable state what it has
  answered followed by what it holds queued is exactly the list of changes after the revision it reports from;
  a closed watch has answered a prefix of that list.
\<close>

theorem coordination_watch_complete:
  assumes "coordination_reachable s" and "map_of (co_watchers s) i = Some w"
  shows "\<exists>rest. cw_sent w @ rest = filter (\<lambda>c. cw_from w < cg_revision c) (co_changes s) \<and>
    (cw_closed w \<or> rest = cw_queue w)"
proof -
  have "watch_ok s w"
    using coordination_reachable_ok [OF assms(1)] map_of_SomeD [OF assms(2)] by (auto simp: coordination_ok_def)
  then show ?thesis by (simp add: watch_ok_def log_feed.reports_def)
qed

section \<open>Witnesses\<close>

definition opened_coordination :: coordination where
  "opened_coordination = new_coordination\<lparr>co_lifecycle := CoordinationOpen\<rparr>"

lemma opened_reachable: "coordination_reachable opened_coordination"
  unfolding coordination_reachable_def
  by (intro r_into_rtranclp coordination_step.opened)
    (simp add: open_coordination_def opened_coordination_def new_coordination_def)

lemma opened_step:
  "coordination_step opened_coordination s \<Longrightarrow> coordination_reachable s"
  using opened_reachable unfolding coordination_reachable_def by (rule rtranclp.rtrancl_into_rtrancl)

definition first_change :: coordination_change where
  "first_change = \<lparr>cg_key = [107], cg_revision = 1, cg_value = JNull\<rparr>"

definition written_coordination :: coordination where
  "written_coordination = opened_coordination\<lparr>co_records := [([107], (JNull, 1))], co_changes := [first_change],
     co_revision := 1\<rparr>"

lemma first_write:
  "compareAndSet [107] Absent JNull opened_coordination =
     Inr (\<lparr>cas_applied = True, cas_current = Some (JNull, 1)\<rparr>, written_coordination)"
  by (simp add: compareAndSet_def opened_coordination_def new_coordination_def coordination_open_def
      revision_expected_def written_coordination_def first_change_def)

lemma written_reachable: "coordination_reachable written_coordination"
  by (rule opened_step, rule coordination_step.compared [OF first_write])

lemma coordination_log_exact_witness:
  "map_of (co_records written_coordination) = log_replay [first_change]"
  using coordination_log_exact [OF written_reachable] by (simp add: written_coordination_def)

lemma compare_and_set_one_winner_witness:
  "compareAndSet [107] Absent (JBool True) written_coordination =
     Inr (\<lparr>cas_applied = False, cas_current = Some (JNull, 1)\<rparr>, written_coordination) \<and>
   (\<exists>current n. Some (JNull, 1::nat) = Some (current, n) \<and> co_revision opened_coordination < n)"
proof -
  have second: "compareAndSet [107] Absent (JBool True) written_coordination =
     Inr (\<lparr>cas_applied = False, cas_current = Some (JNull, 1)\<rparr>, written_coordination)"
    by (simp add: compareAndSet_def written_coordination_def opened_coordination_def coordination_open_def
        revision_expected_def)
  have "\<not> cas_applied \<lparr>cas_applied = False, cas_current = Some (JNull, 1)\<rparr> \<and> written_coordination = written_coordination \<and>
    (\<exists>current n. cas_current \<lparr>cas_applied = False, cas_current = Some (JNull, 1)\<rparr> = Some (current, n) \<and>
       co_revision opened_coordination < n)"
    by (rule compare_and_set_one_winner [OF opened_reachable first_write _ _ rtranclp.rtrancl_refl second]) simp_all
  with second show ?thesis by simp
qed

lemma leadership_exclusive_witness:
  "\<exists>h s'. campaign [114] opened_coordination = Inr (h, s') \<and> {k. handle_live s' [114] k} = {h}"
proof -
  obtain h s' where c: "campaign [114] opened_coordination = Inr (h, s')"
    by (simp add: campaign_def opened_coordination_def new_coordination_def coordination_open_def assertResource_def Let_def)
  from leadership_exclusive [OF opened_reachable, THEN conjunct2, THEN conjunct1, rule_format, OF c] c
  show ?thesis by auto
qed

lemma coordination_watch_complete_witness:
  "\<exists>rest. cw_sent (new_watch 0 []) @ rest = filter (\<lambda>c. 0 < cg_revision c) [] \<and> rest = []"
proof -
  let ?s = "opened_coordination\<lparr>co_watchers := [(0, new_watch 0 [])]\<rparr>"
  have "watch 0 0 opened_coordination = Inr ?s"
    by (simp add: watch_def coordination_open_def opened_coordination_def new_coordination_def)
  then have "coordination_step opened_coordination ?s"
    by (rule coordination_step.watched) (simp add: opened_coordination_def new_coordination_def)
  from coordination_watch_complete [OF opened_step [OF this], of 0 "new_watch 0 []"] show ?thesis
    by (simp add: new_watch_def opened_coordination_def new_coordination_def)
qed

end
