(* ===== verification/Worker_Epochs.thy ===== *)
theory Worker_Epochs
  imports Store_System Permission_Gate
begin

text \<open>
  Session epochs of the workers (\<open>packages/transport-websocket/src/state-worker-epoch-allocator.ts\<close>): one
  transaction of the state store reads the epoch record of a worker and writes the next one under the revision
  it read. What the allocator needs of a store is the interface \<open>versioned_store\<close>; the in-memory store
  provides it.
\<close>

section \<open>Reading and writing under a revision\<close>

locale versioned_store =
  fixes reads :: "'s \<Rightarrow> state_key \<Rightarrow> (json \<times> nat) option"
    and writes :: "'s \<Rightarrow> state_key \<Rightarrow> json \<Rightarrow> expected_revision \<Rightarrow> 's result"
    and sound :: "'s \<Rightarrow> bool"
    and later :: "'s \<Rightarrow> 's \<Rightarrow> bool"
  assumes revision_identifies: "sound s \<Longrightarrow> later s t \<Longrightarrow> reads s k = Some (v, n) \<Longrightarrow> reads t k = Some (v', n) \<Longrightarrow> v' = v"
    and writes_expected: "writes s k v e = Inr t \<Longrightarrow> spec_expected (reads s k) e"
    and writes_reads: "writes s k v e = Inr t \<Longrightarrow> \<exists>n. reads t = (reads s)(k \<mapsto> (canon v, n))"
    and writes_sound: "sound s \<Longrightarrow> writes s k v e = Inr t \<Longrightarrow> sound t \<and> later s t"
begin

definition expected_of :: "(json \<times> nat) option \<Rightarrow> expected_revision" where
  "expected_of r = (case r of None \<Rightarrow> Absent | Some (_, n) \<Rightarrow> ExactRevision n)"

text \<open>A write under the revision an earlier read returned finds the value of that read.\<close>

lemma read_then_write:
  assumes "sound s" and "later s t" and "writes t k v (expected_of (reads s k)) = Inr u"
  shows "map_option fst (reads t k) = map_option fst (reads s k)"
proof (cases "reads s k")
  case None
  with writes_expected [OF assms(3)] show ?thesis by (simp add: expected_of_def spec_expected_def)
next
  case (Some r)
  then obtain x n where r: "reads s k = Some (x, n)" by (cases r) auto
  with writes_expected [OF assms(3)] obtain y where "reads t k = Some (y, n)"
    by (auto simp: expected_of_def spec_expected_def)
  with revision_identifies [OF assms(1,2) r this] r show ?thesis by simp
qed

end

text \<open>The in-memory store: one transaction that puts one record.\<close>

definition plain_options :: "fencing option \<Rightarrow> transaction_options" where
  "plain_options fencing = \<lparr>opt_fencing = fencing, opt_idempotencyKey = None, opt_idempotencyFingerprint = None\<rparr>"

definition put_staged :: "state_key \<Rightarrow> json \<Rightarrow> expected_revision \<Rightarrow> staged_transaction" where
  "put_staged k v e = \<lparr>st_mutations = [PutMutation k (canon v) e], st_operations = [], st_outbox = []\<rparr>"

definition store_writes ::
  "fencing option \<Rightarrow> memory_store \<Rightarrow> state_key \<Rightarrow> json \<Rightarrow> expected_revision \<Rightarrow> memory_store result" where
  "store_writes fencing s k v e =
     and_then (commit s (plain_options fencing) None (put_staged k v e) JNull) (\<lambda>(t, _). Inr t)"

lemma put_staged_ok: "staged_ok (put_staged k v e)"
  by (simp add: staged_ok_def put_staged_def)

lemma commit_without_identity:
  assumes "commit s options None staged result = Inr (t, r)"
  shows "commit s options None staged JNull = Inr (t, JNull)"
  using assms by (auto simp: commit_def Let_def)

lemma store_writes_commit:
  assumes "store_writes fencing s k v e = Inr t"
  shows "commit s (plain_options fencing) None (put_staged k v e) JNull = Inr (t, JNull)"
proof -
  from assms obtain r where "commit s (plain_options fencing) None (put_staged k v e) JNull = Inr (t, r)"
    by (auto simp: store_writes_def)
  then show ?thesis by (rule commit_without_identity)
qed

interpretation records: versioned_store abs_records "store_writes fencing" store_ok evolves for fencing
proof unfold_locales
  fix s t :: memory_store and k v n v'
  assume ok: "store_ok s" and "evolves s t" and s: "abs_records s k = Some (v, n)" and t: "abs_records t k = Some (v', n)"
  obtain r where r: "map_of (ms_records s) (serializedKey k) = Some r" "v = rec_value r" "n = rec_revision r"
    using s by (auto simp: abs_records_def)
  then have "n \<le> ms_revision s" using ok by (auto simp: store_ok_def records_ok_def dest: map_of_SomeD)
  obtain r' where r': "map_of (ms_records t) (serializedKey k) = Some r'" "v' = rec_value r'" "n = rec_revision r'"
    using t by (auto simp: abs_records_def)
  have "map_of (ms_records t) (serializedKey k) = map_of (ms_records s) (serializedKey k) \<or>
      (\<forall>x. map_of (ms_records t) (serializedKey k) = Some x \<longrightarrow> ms_revision s < rec_revision x)"
    using \<open>evolves s t\<close> by (simp add: evolves_def)
  with r r' \<open>n \<le> ms_revision s\<close> show "v' = v" by auto
next
  fix s t :: memory_store and k v e
  assume w: "store_writes fencing s k v e = Inr t"
  note c = commit_records [OF put_staged_ok store_writes_commit [OF w]]
  from c show "spec_expected (abs_records s k) e"
    by (simp add: put_staged_def spec_commit_def split: if_splits)
  from c have "abs_records t = (abs_records s)(k \<mapsto> (canon v, ms_revision s + 1))"
    by (auto simp: put_staged_def spec_commit_def canon_idem split: if_splits)
  then show "\<exists>n. abs_records t = (abs_records s)(k \<mapsto> (canon v, n))" by blast
  assume ok: "store_ok s"
  have "transact_commit s (plain_options fencing) None (put_staged k v e) JNull = (t, Inr JNull)"
    using store_writes_commit [OF w] by (simp add: transact_commit_def clear_inFlight_def)
  then show "store_ok t \<and> evolves s t"
    using evolves_commit(1) [OF put_staged_ok store_writes_commit [OF w]] store_ok_transact_commit [OF ok] by simp
qed

section \<open>The allocator\<close>

definition epochKey :: "jstring \<Rightarrow> state_key" where
  "epochKey workerId =
     \<lparr>key_namespace = js ''tego'', key_collection = js ''worker-session-epochs'', key_id = workerId\<rparr>"

abbreviation invalid_epoch_record :: js_error where
  "invalid_epoch_record \<equiv> Diagnostic ''WORKER_EPOCH_RECORD_INVALID''"

text \<open>The epoch of a record that names its worker; every failure inside the \<open>try\<close> is an invalid record.\<close>

definition recorded_epoch :: "jstring \<Rightarrow> json \<Rightarrow> nat result" where
  "recorded_epoch workerId v =
     (case v of
        JObj ms \<Rightarrow>
          if map_of ms (js ''workerId'') \<noteq> Some (JStr workerId) \<or> parseIdentity (JStr workerId) \<noteq> Inr workerId
          then Inl invalid_epoch_record
          else (case parseDecimalIdentity (member ms ''epoch'') of
                  Inl _ \<Rightarrow> Inl invalid_epoch_record
                | Inr epoch \<Rightarrow> Inr (decimal_value epoch))
      | _ \<Rightarrow> Inl invalid_epoch_record)"

definition epoch_record :: "jstring \<Rightarrow> jstring \<Rightarrow> json" where
  "epoch_record workerId epoch = JObj [(js ''workerId'', JStr workerId), (js ''epoch'', JStr epoch)]"

text \<open>\<open>next\<close>, the body of the transaction.\<close>

definition next_epoch :: "jstring \<Rightarrow> memory_transaction \<Rightarrow> (memory_transaction \<times> jstring) result" where
  "next_epoch workerIdValue tx =
     and_then (parseIdentity (JStr workerIdValue)) (\<lambda>workerId.
     and_then (tx_get tx (epochKey workerId)) (\<lambda>current.
     and_then (case current of None \<Rightarrow> Inr 0 | Some r \<Rightarrow> recorded_epoch workerId (ver_value r)) (\<lambda>previous.
       if previous \<ge> 2 ^ 64 - 1 then Inl (Diagnostic ''WORKER_EPOCH_LIMIT_EXCEEDED'')
       else (case parseDecimalIdentity (JStr (decimal_string (previous + 1))) of
               Inl _ \<Rightarrow> Inl invalid_epoch_record
             | Inr epoch \<Rightarrow>
                 and_then (tx_put tx (epochKey workerId) (epoch_record workerId epoch)
                    (case current of None \<Rightarrow> Absent | Some r \<Rightarrow> ExactRevision (ver_revision r)))
                   (\<lambda>tx'. Inr (tx', epoch))))))"

section \<open>Allocators at work\<close>

text \<open>
  Any number of allocations are open at a time: each has run its body on the snapshot its transaction began
  with and commits or fails later. Between them the store changes in any other way that leaves the epoch
  records alone. An event is an epoch handed out.
\<close>

record epoch_system =
  es_store :: memory_store
  es_open :: "(nat, jstring \<times> jstring \<times> memory_transaction) jsmap"

inductive epoch_step ::
  "fencing option \<Rightarrow> epoch_system \<Rightarrow> (jstring \<times> jstring) list \<Rightarrow> epoch_system \<Rightarrow> bool" for fencing where
  begins: "transact_begin (es_store s) (plain_options fencing) = Inr (store, Started None tx) \<Longrightarrow>
     next_epoch workerId tx = Inr (tx', epoch) \<Longrightarrow> map_of (es_open s) n = None \<Longrightarrow>
     epoch_step fencing s [] (s\<lparr>es_store := store, es_open := AList.update n (workerId, epoch, tx') (es_open s)\<rparr>)"
| commits: "map_of (es_open s) n = Some (workerId, epoch, tx) \<Longrightarrow>
     transact_return tx (JStr epoch) = Inr (staged, result) \<Longrightarrow>
     transact_commit (es_store s) (plain_options fencing) None staged result = (store, Inr r) \<Longrightarrow>
     epoch_step fencing s [(workerId, epoch)] (s\<lparr>es_store := store, es_open := AList.delete n (es_open s)\<rparr>)"
| fails: "map_of (es_open s) n = Some (workerId, epoch, tx) \<Longrightarrow>
     transact_return tx (JStr epoch) = Inr (staged, result) \<Longrightarrow>
     transact_commit (es_store s) (plain_options fencing) None staged result = (store, Inl e) \<Longrightarrow>
     epoch_step fencing s [] (s\<lparr>es_store := store, es_open := AList.delete n (es_open s)\<rparr>)"
| elsewhere: "evolves (es_store s) store \<Longrightarrow> store_ok store \<Longrightarrow>
     (\<And>workerId. abs_records store (epochKey workerId) = abs_records (es_store s) (epochKey workerId)) \<Longrightarrow>
     epoch_step fencing s [] (s\<lparr>es_store := store\<rparr>)"

inductive epoch_run ::
  "fencing option \<Rightarrow> epoch_system \<Rightarrow> (jstring \<times> jstring) list \<Rightarrow> epoch_system \<Rightarrow> bool" for fencing where
  idle: "epoch_run fencing s [] s"
| more: "epoch_run fencing s events t \<Longrightarrow> epoch_step fencing t handed u \<Longrightarrow>
     epoch_run fencing s (events @ handed) u"

section \<open>What an open allocation knows\<close>

definition epoch_of :: "memory_store \<Rightarrow> jstring \<Rightarrow> nat option" where
  "epoch_of s workerId =
     (case abs_records s (epochKey workerId) of
        None \<Rightarrow> Some 0
      | Some (v, _) \<Rightarrow> (case recorded_epoch workerId v of Inl _ \<Rightarrow> None | Inr n \<Rightarrow> Some n))"

definition allocation_ok :: "memory_store \<Rightarrow> jstring \<Rightarrow> jstring \<Rightarrow> memory_transaction \<Rightarrow> bool" where
  "allocation_ok s workerId epoch tx \<longleftrightarrow>
     (\<exists>s0 previous. store_ok s0 \<and> evolves s0 s \<and> parseIdentity (JStr workerId) = Inr workerId \<and>
        epoch_of s0 workerId = Some previous \<and> previous < 2 ^ 64 - 1 \<and> epoch = decimal_string (previous + 1) \<and>
        tx_active tx \<and>
        (\<forall>tx' staged. tx_finish tx = Inr (tx', staged) \<longrightarrow>
           staged = put_staged (epochKey workerId) (epoch_record workerId epoch)
             (records.expected_of (abs_records s0 (epochKey workerId)))))"

definition epochs_ok :: "epoch_system \<Rightarrow> bool" where
  "epochs_ok s \<longleftrightarrow>
     store_ok (es_store s) \<and>
     (\<forall>n workerId epoch tx. map_of (es_open s) n = Some (workerId, epoch, tx) \<longrightarrow>
        allocation_ok (es_store s) workerId epoch tx)"

lemma fresh_get:
  assumes "store_ok s" and "tx_get (begin_transaction (ms_records s)) k = Inr current"
  shows "abs_records s k = map_option (\<lambda>r. (ver_value r, ver_revision r)) current"
proof (cases "map_of (ms_records s) (serializedKey k)")
  case None
  with assms(2) show ?thesis
    by (auto simp: tx_get_def begin_transaction_def Let_def abs_records_def)
next
  case (Some r)
  then have "canon (rec_value r) = rec_value r"
    using assms(1) by (auto simp: store_ok_def records_ok_def dest: map_of_SomeD)
  with assms(2) Some show ?thesis
    by (auto simp: tx_get_def begin_transaction_def Let_def abs_records_def)
qed

lemma fresh_put:
  assumes "tx_put (begin_transaction records) k v e = Inr tx"
  shows "tx_active tx" and "tx_finish tx = Inr (tx', staged) \<Longrightarrow> staged = put_staged k v e"
  using assms by (auto simp: tx_put_def begin_transaction_def tx_finish_def put_staged_def assertActive_def split: if_splits)

lemma next_epoch_begins:
  assumes "store_ok s" and "next_epoch workerId (begin_transaction (ms_records s)) = Inr (tx, epoch)"
  shows "allocation_ok s workerId epoch tx"
proof -
  from assms(2) obtain w current previous where
    w: "parseIdentity (JStr workerId) = Inr w"
    and get: "tx_get (begin_transaction (ms_records s)) (epochKey w) = Inr current"
    and previous: "(case current of None \<Rightarrow> Inr 0 | Some r \<Rightarrow> recorded_epoch w (ver_value r)) = Inr previous"
    and below: "\<not> previous \<ge> 2 ^ 64 - 1" and epoch: "epoch = decimal_string (previous + 1)"
    and put: "tx_put (begin_transaction (ms_records s)) (epochKey w) (epoch_record w epoch)
      (case current of None \<Rightarrow> Absent | Some r \<Rightarrow> ExactRevision (ver_revision r)) = Inr tx"
    by (auto simp: next_epoch_def parseDecimalIdentity_def split: if_splits)
  have "w = workerId" using w by (simp add: parseIdentity_def split: if_splits)
  note current = fresh_get [OF assms(1) get]
  have e: "(case current of None \<Rightarrow> Absent | Some r \<Rightarrow> ExactRevision (ver_revision r)) =
      records.expected_of (abs_records s (epochKey w))"
    by (simp add: current records.expected_of_def split: option.split)
  have "epoch_of s w = Some previous" using previous by (auto simp: epoch_of_def current split: option.splits)
  with assms(1) w below epoch fresh_put [OF put] evolves_refl [of s] show ?thesis
    unfolding allocation_ok_def \<open>w = workerId\<close> [symmetric] e by (metis not_le)
qed

lemma allocation_ok_later: "allocation_ok s w e tx \<Longrightarrow> evolves s t \<Longrightarrow> allocation_ok t w e tx"
  unfolding allocation_ok_def by (blast intro: evolves_trans)

lemma epochKey_inj: "epochKey w = epochKey w' \<longleftrightarrow> w = w'"
  by (simp add: epochKey_def)

lemma epoch_of_cong: "abs_records t (epochKey w) = abs_records s (epochKey w) \<Longrightarrow> epoch_of t w = epoch_of s w"
  by (simp add: epoch_of_def)

lemma epoch_of_record:
  assumes "abs_records s (epochKey w) = Some (canon (epoch_record w (decimal_string n)), r)"
    and "parseIdentity (JStr w) = Inr w"
  shows "epoch_of s w = Some n"
  using assms by (simp add: epoch_of_def epoch_record_def recorded_epoch_def member_def parseDecimalIdentity_def
      compareMembers_def compareText_def)

text \<open>A commit of an allocation hands out the epoch after the recorded one, and records it.\<close>

lemma allocation_commits:
  assumes "store_ok s" and "allocation_ok s w epoch tx"
    and "transact_return tx (JStr epoch) = Inr (staged, result)"
    and "transact_commit s (plain_options fencing) None staged result = (t, Inr r)"
  shows "store_ok t" and "evolves s t"
    and "\<exists>n. epoch_of s w = Some n \<and> n < 2 ^ 64 - 1 \<and> epoch = decimal_string (n + 1) \<and> epoch_of t w = Some (n + 1)"
    and "w' \<noteq> w \<Longrightarrow> epoch_of t w' = epoch_of s w'"
proof -
  from assms(2) obtain s0 previous where
    s0: "store_ok s0" "evolves s0 s" and w: "parseIdentity (JStr w) = Inr w"
    and previous: "epoch_of s0 w = Some previous" "previous < 2 ^ 64 - 1" "epoch = decimal_string (previous + 1)"
    and stages: "\<And>tx' staged. tx_finish tx = Inr (tx', staged) \<Longrightarrow>
        staged = put_staged (epochKey w) (epoch_record w epoch) (records.expected_of (abs_records s0 (epochKey w)))"
    unfolding allocation_ok_def by blast
  have staged: "staged = put_staged (epochKey w) (epoch_record w epoch) (records.expected_of (abs_records s0 (epochKey w)))"
    using assms(3) stages by (auto simp: transact_return_def)
  have "\<exists>x. commit s (plain_options fencing) None staged result = Inr (t, x)"
    using assms(4) by (auto simp: transact_commit_def clear_inFlight_def split: sum.splits)
  then have written: "store_writes fencing s (epochKey w) (epoch_record w epoch)
      (records.expected_of (abs_records s0 (epochKey w))) = Inr t"
    using commit_without_identity by (auto simp: store_writes_def staged)
  from records.writes_sound [OF assms(1) written] show "store_ok t" "evolves s t" by simp_all
  from records.read_then_write [OF s0 written] have "epoch_of s w = Some previous"
    using previous(1) by (auto simp: epoch_of_def split: option.splits)
  moreover obtain n where t: "abs_records t = (abs_records s)(epochKey w \<mapsto> (canon (epoch_record w epoch), n))"
    using records.writes_reads [OF written] by blast
  then have "epoch_of t w = Some (previous + 1)"
    using w by (intro epoch_of_record [where r = n]) (simp_all add: previous(3))
  ultimately show "\<exists>n. epoch_of s w = Some n \<and> n < 2 ^ 64 - 1 \<and> epoch = decimal_string (n + 1) \<and> epoch_of t w = Some (n + 1)"
    using previous by blast
  show "w' \<noteq> w \<Longrightarrow> epoch_of t w' = epoch_of s w'"
    by (rule epoch_of_cong) (simp add: t epochKey_inj)
qed

text \<open>What a step does to the recorded epochs.\<close>

definition handed_out :: "memory_store \<Rightarrow> (jstring \<times> jstring) list \<Rightarrow> memory_store \<Rightarrow> bool" where
  "handed_out s handed t \<longleftrightarrow>
     handed = [] \<and> (\<forall>w. epoch_of t w = epoch_of s w) \<or>
     (\<exists>w n. handed = [(w, decimal_string (n + 1))] \<and> epoch_of s w = Some n \<and> n < 2 ^ 64 - 1 \<and>
        epoch_of t w = Some (n + 1) \<and> (\<forall>w'. w' \<noteq> w \<longrightarrow> epoch_of t w' = epoch_of s w'))"

lemma epochs_ok_later:
  assumes "epochs_ok s" and "store_ok store" and "evolves (es_store s) store"
    and "\<And>n x. map_of opened n = Some x \<Longrightarrow> map_of (es_open s) n = Some x"
  shows "epochs_ok (s\<lparr>es_store := store, es_open := opened\<rparr>)"
  unfolding epochs_ok_def
proof (intro conjI allI impI)
  show "store_ok (es_store (s\<lparr>es_store := store, es_open := opened\<rparr>))" using assms(2) by simp
  fix n w e tx assume "map_of (es_open (s\<lparr>es_store := store, es_open := opened\<rparr>)) n = Some (w, e, tx)"
  then have "map_of (es_open s) n = Some (w, e, tx)" using assms(4) by simp
  with assms(1) have "allocation_ok (es_store s) w e tx" by (simp add: epochs_ok_def)
  from allocation_ok_later [OF this assms(3)]
  show "allocation_ok (es_store (s\<lparr>es_store := store, es_open := opened\<rparr>)) w e tx" by simp
qed

lemma epoch_step_ok:
  assumes "epoch_step fencing s handed t" and "epochs_ok s"
  shows "epochs_ok t \<and> handed_out (es_store s) handed (es_store t)"
  using assms(1)
proof cases
  case (begins store tx workerId tx' epoch n)
  then have store: "store = es_store s" "tx = begin_transaction (ms_records (es_store s))"
    by (auto simp: transact_begin_def plain_options_def idempotencyIdentity_def)
  have "store_ok (es_store s)" using assms(2) by (simp add: epochs_ok_def)
  then have "allocation_ok (es_store s) workerId epoch tx'"
    by (rule next_epoch_begins) (use begins(4) store in simp)
  with assms(2) begins store show ?thesis by (auto simp: epochs_ok_def map_lookups handed_out_def)
next
  case (commits n workerId epoch tx staged result store r)
  have ok: "store_ok (es_store s)" "allocation_ok (es_store s) workerId epoch tx"
    using assms(2) commits(3) by (auto simp: epochs_ok_def)
  note c = allocation_commits [OF ok commits(4,5)]
  have "epochs_ok t"
    unfolding commits(2) by (rule epochs_ok_later [OF assms(2) c(1,2)]) (auto simp: map_lookups split: if_splits)
  with commits(1,2) c(3,4) show ?thesis by (auto simp: handed_out_def)
next
  case (fails n workerId epoch tx staged result store e)
  then have "store = es_store s" by (auto simp: transact_commit_def clear_inFlight_def split: sum.splits prod.splits)
  moreover have "epochs_ok (s\<lparr>es_store := es_store s, es_open := AList.delete n (es_open s)\<rparr>)"
    using assms(2) by (intro epochs_ok_later evolves_refl) (auto simp: epochs_ok_def map_lookups split: if_splits)
  ultimately show ?thesis using fails by (simp add: handed_out_def)
next
  case (elsewhere store)
  have "epochs_ok (s\<lparr>es_store := store, es_open := es_open s\<rparr>)"
    by (rule epochs_ok_later [OF assms(2) elsewhere(4,3)])
  moreover have "epoch_of store w = epoch_of (es_store s) w" for w by (intro epoch_of_cong elsewhere(5))
  ultimately show ?thesis using elsewhere by (simp add: handed_out_def)
qed

lemma epoch_run_ok:
  assumes "epoch_run fencing s events t" and "epochs_ok s"
  shows "epochs_ok t \<and>
    sorted_wrt (\<lambda>a b. fst a = fst b \<longrightarrow> decimal_value (snd a) < decimal_value (snd b)) events \<and>
    (\<forall>(w, e) \<in> set events. \<exists>m n. epoch_of (es_store s) w = Some m \<and> epoch_of (es_store t) w = Some n \<and>
       m < decimal_value e \<and> decimal_value e \<le> n \<and> decimal_value e < 2 ^ 64 \<and> is_decimal e) \<and>
    (\<forall>w. epoch_of (es_store s) w = epoch_of (es_store t) w \<or>
       (\<exists>m n. epoch_of (es_store s) w = Some m \<and> epoch_of (es_store t) w = Some n \<and> m < n))"
  using assms
proof (induction rule: epoch_run.induct)
  case (idle s)
  then show ?case by simp
next
  case (more s events t handed u)
  note IH = more.IH [OF more.prems]
  have before: "\<exists>m. epoch_of (es_store s) w = Some m \<and> m \<le> n" if "epoch_of (es_store t) w = Some n" for w n
  proof -
    from IH have "epoch_of (es_store s) w = epoch_of (es_store t) w \<or>
       (\<exists>m n. epoch_of (es_store s) w = Some m \<and> epoch_of (es_store t) w = Some n \<and> m < n)" by blast
    with that show ?thesis by auto
  qed
  from epoch_step_ok [OF more.hyps(2)] IH have u: "epochs_ok u" "handed_out (es_store t) handed (es_store u)" by auto
  from u(2) consider "handed = []" "\<And>w. epoch_of (es_store u) w = epoch_of (es_store t) w"
    | (one) w n where "handed = [(w, decimal_string (n + 1))]" "epoch_of (es_store t) w = Some n" "n < 2 ^ 64 - 1"
        "epoch_of (es_store u) w = Some (n + 1)" "\<And>w'. w' \<noteq> w \<Longrightarrow> epoch_of (es_store u) w' = epoch_of (es_store t) w'"
    unfolding handed_out_def by blast
  then show ?case
  proof cases
    case 1
    with IH u(1) show ?thesis by simp
  next
    case one
    have later: "\<exists>n'. epoch_of (es_store u) w' = Some n' \<and> m \<le> n'" if "epoch_of (es_store t) w' = Some m" for w' m
      using that one by (cases "w' = w") auto
    have sorted: "sorted_wrt (\<lambda>a b. fst a = fst b \<longrightarrow> decimal_value (snd a) < decimal_value (snd b)) (events @ handed)"
      using IH one(1,2) by (fastforce simp: sorted_wrt_append)
    have start: "epoch_of (es_store s) w' = epoch_of (es_store u) w' \<or>
        (\<exists>m n. epoch_of (es_store s) w' = Some m \<and> epoch_of (es_store u) w' = Some n \<and> m < n)" for w'
    proof (cases "w' = w")
      case True
      obtain m where "epoch_of (es_store s) w = Some m" "m \<le> n" using before [OF one(2)] by blast
      with one(4) True show ?thesis by auto
    next
      case False
      with IH one(5) show ?thesis by metis
    qed
    have "\<exists>m n. epoch_of (es_store s) w' = Some m \<and> epoch_of (es_store u) w' = Some n \<and>
       m < decimal_value e \<and> decimal_value e \<le> n \<and> decimal_value e < 2 ^ 64 \<and> is_decimal e"
      if "(w', e) \<in> set (events @ handed)" for w' e
    proof (cases "(w', e) \<in> set events")
      case True
      with IH obtain m k where "epoch_of (es_store s) w' = Some m" "epoch_of (es_store t) w' = Some k"
        "m < decimal_value e" "decimal_value e \<le> k" "decimal_value e < 2 ^ 64" "is_decimal e" by fastforce
      moreover obtain k' where "epoch_of (es_store u) w' = Some k'" "k \<le> k'" using later calculation(2) by blast
      ultimately show ?thesis by auto
    next
      case False
      with that one(1) have e: "w' = w" "e = decimal_string (n + 1)" by auto
      obtain m where "epoch_of (es_store s) w = Some m" "m \<le> n" using before [OF one(2)] by blast
      with one(3,4) e show ?thesis by auto
    qed
    with u(1) sorted start show ?thesis by blast
  qed
qed

section \<open>Property\<close>

text \<open>
  C32. A session epoch is never handed out twice: in every run of concurrent allocations over the in-memory
  store, whatever else the store does, the epochs handed out for one worker strictly increase, each is above
  the epoch recorded at the start, and each is the canonical text of an unsigned 64-bit number.
\<close>

theorem worker_epochs_increase:
  assumes "epoch_run fencing s events t" and "store_ok (es_store s)" and "es_open s = []"
  shows "sorted_wrt (\<lambda>a b. fst a = fst b \<longrightarrow> decimal_value (snd a) < decimal_value (snd b)) events \<and>
    (\<forall>(w, e) \<in> set events. is_decimal e \<and> decimal_value e < 2 ^ 64 \<and>
       (\<exists>m. epoch_of (es_store s) w = Some m \<and> m < decimal_value e))"
proof -
  have "epochs_ok s" using assms(2,3) by (simp add: epochs_ok_def)
  from epoch_run_ok [OF assms(1) this] show ?thesis by (fast dest: less_le_trans)
qed

definition epoch_store :: memory_store where
  "epoch_store = new_store\<lparr>ms_lifecycle := StoreOpen\<rparr>"

definition first_transaction :: memory_transaction where
  "first_transaction = (begin_transaction [])
     \<lparr>tx_mutations := [(serializedKey (epochKey [119]),
        PutMutation (epochKey [119]) (canon (epoch_record [119] (decimal_string 1))) Absent)]\<rparr>"

lemma first_next_epoch: "next_epoch [119] (begin_transaction []) = Inr (first_transaction, decimal_string 1)"
proof -
  have portable: "isPortableStateString (js ''tego'')" "isPortableStateString (js ''worker-session-epochs'')"
    "isPortableStateString [119]" by code_simp+
  have get: "tx_get (begin_transaction []) (epochKey [119]) = Inr None"
    using portable by (simp add: tx_get_def begin_transaction_def assertActive_def assertStateKey_def epochKey_def Let_def)
  have put: "tx_put (begin_transaction []) (epochKey [119]) (epoch_record [119] (decimal_string 1)) Absent = Inr first_transaction"
    using portable by (simp add: tx_put_def begin_transaction_def assertActive_def assertStateKey_def epochKey_def
        first_transaction_def)
  have "parseIdentity (JStr [119]) = Inr [119]" by code_simp
  then show ?thesis by (simp add: next_epoch_def get put parseDecimalIdentity_def del: One_nat_def)
qed

lemma worker_epochs_increase_witness:
  "\<exists>t. epoch_run None \<lparr>es_store = epoch_store, es_open = []\<rparr> [([119], decimal_string 1)] t \<and>
     is_decimal (decimal_string 1) \<and> 0 < decimal_value (decimal_string 1)"
proof -
  let ?s = "\<lparr>es_store = epoch_store, es_open = []\<rparr>"
  let ?o = "\<lparr>es_store = epoch_store, es_open = [(0, [119], decimal_string 1, first_transaction)]\<rparr>"
  let ?staged = "put_staged (epochKey [119]) (epoch_record [119] (decimal_string 1)) Absent"
  have began: "epoch_step None ?s [] ?o"
    using epoch_step.begins [of ?s None epoch_store "begin_transaction []" "[119]" first_transaction "decimal_string 1" 0]
      first_next_epoch
    by (simp add: transact_begin_def assertOpen_def epoch_store_def idempotencyIdentity_def plain_options_def new_store_def)
  have return: "transact_return first_transaction (JStr (decimal_string 1)) = Inr (?staged, JStr (decimal_string 1))"
    by (simp add: transact_return_def tx_finish_def assertActive_def first_transaction_def begin_transaction_def put_staged_def)
  obtain u r where c: "transact_commit epoch_store (plain_options None) None ?staged (JStr (decimal_string 1)) = (u, Inr r)"
    by (simp add: transact_commit_def commit_eq assertOpen_def matchesExpectedRevision_def epoch_store_def new_store_def
        assertFence_def plain_options_def put_staged_def)
  have committed: "epoch_step None ?o [([119], decimal_string 1)] \<lparr>es_store = u, es_open = []\<rparr>"
    using epoch_step.commits [of ?o 0 "[119]" "decimal_string 1" first_transaction ?staged _ None, OF _ return] c by simp
  have run: "epoch_run None ?s (([] @ []) @ [([119], decimal_string 1)]) \<lparr>es_store = u, es_open = []\<rparr>"
    by (rule epoch_run.more [OF epoch_run.more [OF epoch_run.idle began] committed])
  have "store_ok epoch_store" using store_ok_new by (simp add: epoch_store_def store_ok_def)
  from worker_epochs_increase [OF run] this have "is_decimal (decimal_string 1) \<and> 0 < decimal_value (decimal_string 1)"
    by (auto simp: epoch_store_def)
  with run show ?thesis by auto
qed

end
