(* ===== verification/Utf8.thy ===== *)
theory Utf8
  imports Json_Text
begin

text \<open>
  UTF-8 as the sources use it: \<open>Buffer.from(text, "utf8")\<close>, which writes the replacement character for a lone
  surrogate, and \<open>new TextDecoder("utf-8", { fatal: true }).decode(bytes)\<close>, which skips a byte order mark at the
  start and rejects every ill-formed sequence. A text without lone surrogates survives both, and
  \<open>JSON.stringify\<close> writes such texts.
\<close>

type_synonym bytes = "8 word list"

section \<open>Encoding\<close>

definition utf8_point :: "nat \<Rightarrow> nat list" where
  "utf8_point n =
     (if n < 128 then [n]
      else if n < 2048 then [192 + n div 64, 128 + n mod 64]
      else if n < 65536 then [224 + n div 4096, 128 + n div 64 mod 64, 128 + n mod 64]
      else [240 + n div 262144, 128 + n div 4096 mod 64, 128 + n div 64 mod 64, 128 + n mod 64])"

definition surrogate_point :: "code_unit \<Rightarrow> code_unit \<Rightarrow> nat" where
  "surrogate_point c d = 65536 + (unat c - 55296) * 1024 + (unat d - 56320)"

fun utf8_points :: "jstring \<Rightarrow> nat list" where
  "utf8_points [] = []"
| "utf8_points (c # s) =
     (if lead_surrogate c then
        (case s of
           d # t \<Rightarrow>
             if trail_surrogate d then utf8_point (surrogate_point c d) @ utf8_points t
             else utf8_point 65533 @ utf8_points s
         | [] \<Rightarrow> utf8_point 65533)
      else if trail_surrogate c then utf8_point 65533 @ utf8_points s
      else utf8_point (unat c) @ utf8_points s)"

definition utf8_encode :: "jstring \<Rightarrow> bytes" where
  "utf8_encode s = map of_nat (utf8_points s)"

section \<open>Decoding\<close>

definition continuation :: "nat \<Rightarrow> bool" where
  "continuation b \<longleftrightarrow> 128 \<le> b \<and> b < 192"

fun decode_points :: "nat list \<Rightarrow> jstring option" where
  "decode_points [] = Some []"
| "decode_points (a # r) =
     (if a < 128 then map_option (Cons (of_nat a)) (decode_points r)
      else (case r of [] \<Rightarrow> None | b # r1 \<Rightarrow>
        if 194 \<le> a \<and> a < 224 then
          (if continuation b then map_option (Cons (of_nat ((a - 192) * 64 + (b - 128)))) (decode_points r1) else None)
        else (case r1 of [] \<Rightarrow> None | c # r2 \<Rightarrow>
          if 224 \<le> a \<and> a < 240 then
            (let n = ((a - 224) * 64 + (b - 128)) * 64 + (c - 128)
             in if continuation b \<and> continuation c \<and> 2048 \<le> n \<and> \<not> (55296 \<le> n \<and> n < 57344)
                then map_option (Cons (of_nat n)) (decode_points r2) else None)
          else (case r2 of [] \<Rightarrow> None | d # r3 \<Rightarrow>
            if 240 \<le> a \<and> a < 245 then
              (let n = (((a - 240) * 64 + (b - 128)) * 64 + (c - 128)) * 64 + (d - 128)
               in if continuation b \<and> continuation c \<and> continuation d \<and> 65536 \<le> n \<and> n < 1114112
                  then map_option (\<lambda>s. of_nat (55296 + (n - 65536) div 1024) # of_nat (56320 + (n - 65536) mod 1024) # s)
                         (decode_points r3)
                  else None)
            else None))))"

definition utf8_decode :: "bytes \<Rightarrow> jstring option" where
  "utf8_decode bytes =
     (let points = map unat bytes
      in decode_points (if take 3 points = [239, 187, 191] then drop 3 points else points))"

section \<open>Round trip\<close>

text \<open>Every lead surrogate is followed by a trail surrogate, and only so.\<close>

fun well_formed :: "jstring \<Rightarrow> bool" where
  "well_formed [] \<longleftrightarrow> True"
| "well_formed (c # s) \<longleftrightarrow>
     (if lead_surrogate c then (case s of d # t \<Rightarrow> trail_surrogate d \<and> well_formed t | [] \<Rightarrow> False)
      else \<not> trail_surrogate c \<and> well_formed s)"

lemma surrogate_nat:
  "lead_surrogate c \<longleftrightarrow> 55296 \<le> unat c \<and> unat c < 56320"
  "trail_surrogate c \<longleftrightarrow> 56320 \<le> unat c \<and> unat c < 57344"
  unfolding lead_surrogate_def trail_surrogate_def by (auto simp: word_le_nat_alt)

lemma unit_bound: "unat (c :: code_unit) < 65536"
  using unsigned_less [of c] by simp

lemma digits_base_64:
  fixes n :: nat
  shows "n div 4096 * 64 + n div 64 mod 64 = n div 64" "n div 64 * 64 + n mod 64 = n"
    "n div 262144 * 64 + n div 4096 mod 64 = n div 4096"
  using div_mult_mod_eq [of "n div 64" 64] div_mult_mod_eq [of n 64] div_mult_mod_eq [of "n div 4096" 64]
  by (simp_all add: div_mult2_eq [symmetric])

lemma decode_unit:
  assumes "n < 65536" and "\<not> (55296 \<le> n \<and> n < 57344)"
  shows "decode_points (utf8_point n @ r) = map_option (Cons (of_nat n)) (decode_points r)"
proof -
  consider "n < 128" | "128 \<le> n" "n < 2048" | "2048 \<le> n" by linarith
  then show ?thesis
  proof cases
    case 1
    then show ?thesis by (simp add: utf8_point_def)
  next
    case 2
    then have "2 \<le> n div 64" "n div 64 < 32" by simp_all
    with 2 show ?thesis by (simp add: utf8_point_def continuation_def)
  next
    case 3
    have "n div 4096 < 16" using assms(1) by simp
    with 3 assms show ?thesis
      by (simp add: utf8_point_def continuation_def digits_base_64)
  qed
qed

lemma decode_pair:
  assumes "lead_surrogate c" and "trail_surrogate d"
  shows "decode_points (utf8_point (surrogate_point c d) @ r) = map_option (\<lambda>s. c # d # s) (decode_points r)"
proof -
  define n where "n = surrogate_point c d"
  have l: "55296 \<le> unat c" "unat c < 56320" and t: "56320 \<le> unat d" "unat d < 57344"
    using assms by (simp_all add: surrogate_nat)
  then have n: "65536 \<le> n" "n < 1114112" by (simp_all add: n_def surrogate_point_def)
  have "n - 65536 = (unat c - 55296) * 1024 + (unat d - 56320)" by (simp add: n_def surrogate_point_def)
  moreover have "unat d - 56320 < 1024" using t by simp
  ultimately have "(n - 65536) div 1024 = unat c - 55296" "(n - 65536) mod 1024 = unat d - 56320" by simp_all
  then have units: "(of_nat (55296 + (n - 65536) div 1024) :: code_unit) = c"
    "(of_nat (56320 + (n - 65536) mod 1024) :: code_unit) = d"
    using l t by (simp_all del: of_nat_add)
  have "n div 262144 < 5" using n by simp
  with n units show ?thesis
    unfolding n_def [symmetric] by (simp add: utf8_point_def continuation_def digits_base_64 Let_def del: of_nat_add)
qed

lemma decode_points_points: "well_formed s \<Longrightarrow> decode_points (utf8_points s) = Some s"
proof (induction s rule: well_formed.induct)
  case 1
  then show ?case by simp
next
  case (2 c s)
  show ?case
  proof (cases "lead_surrogate c")
    case True
    with 2 obtain d t where s: "s = d # t" "trail_surrogate d" "well_formed t" by (auto split: list.splits)
    with 2 True show ?thesis by (simp add: decode_pair)
  next
    case False
    with 2 have "\<not> trail_surrogate c" "well_formed s" by auto
    have "\<not> (55296 \<le> unat c \<and> unat c < 57344)"
      using False \<open>\<not> trail_surrogate c\<close> by (auto simp: surrogate_nat)
    from decode_unit [OF unit_bound this, of "utf8_points s"] 2(2) \<open>well_formed s\<close> \<open>\<not> trail_surrogate c\<close> False
    show ?thesis by simp
  qed
qed

lemma utf8_points_bytes: "\<forall>b \<in> set (utf8_points s). b < 256"
proof -
  have point: "n < 1114112 \<Longrightarrow> \<forall>b \<in> set (utf8_point n). b < 256" for n by (auto simp: utf8_point_def)
  have pair: "surrogate_point c d < 1114112" if "lead_surrogate c" "trail_surrogate d" for c d
  proof -
    have "unat c - 55296 \<le> 1023" "unat d < 57344" using that by (auto simp: surrogate_nat)
    then have "(unat c - 55296) * 1024 \<le> 1023 * 1024" by (intro mult_le_mono1)
    with \<open>unat d < 57344\<close> show ?thesis by (simp add: surrogate_point_def)
  qed
  have unit: "unat c < 1114112" for c :: code_unit using unit_bound [of c] by simp
  show ?thesis
  proof (induction s rule: utf8_points.induct)
    case (2 c s)
    have units: "\<forall>b \<in> set (utf8_point 65533). b < 256" "\<forall>b \<in> set (utf8_point (unat c)). b < 256"
      by (rule point, simp, rule point, rule unit)
    show ?case
    proof (cases "lead_surrogate c")
      case lead: True
      show ?thesis
      proof (cases s)
        case Nil
        with lead units show ?thesis by simp
      next
        case (Cons d t)
        show ?thesis
        proof (cases "trail_surrogate d")
          case True
          have "\<forall>b \<in> set (utf8_point (surrogate_point c d)). b < 256" by (rule point, rule pair [OF lead True])
          with lead Cons True 2(1) show ?thesis by auto
        next
          case False
          with lead Cons 2(2) units show ?thesis by auto
        qed
      qed
    next
      case False
      with 2(3,4) units show ?thesis by (cases "trail_surrogate c") auto
    qed
  qed simp
qed

lemma unat_utf8_encode: "map unat (utf8_encode s) = utf8_points s"
proof -
  have "map (\<lambda>b. unat (of_nat b :: 8 word)) (utf8_points s) = map (\<lambda>b. b) (utf8_points s)"
    using utf8_points_bytes [of s] by (intro map_cong refl) (simp add: unat_of_nat)
  then show ?thesis by (simp add: utf8_encode_def comp_def)
qed

text \<open>The byte order mark is the encoding of U+FEFF.\<close>

lemma utf8_decode_encode:
  assumes "well_formed s" and "s = [] \<or> unat (hd s) < 128"
  shows "utf8_decode (utf8_encode s) = Some s"
proof -
  have "take 3 (utf8_points s) \<noteq> [239, 187, 191]"
  proof (cases s)
    case (Cons c t)
    with assms(2) have "\<not> lead_surrogate c" "\<not> trail_surrogate c" "unat c < 128" by (auto simp: surrogate_nat)
    with Cons show ?thesis by (simp add: utf8_point_def)
  qed simp
  with assms(1) show ?thesis by (simp add: utf8_decode_def unat_utf8_encode decode_points_points)
qed

section \<open>What \<open>JSON.stringify\<close> writes\<close>

definition ascii :: "jstring \<Rightarrow> bool" where
  "ascii s \<longleftrightarrow> list_all (\<lambda>c. unat c < 128) s"

lemma ascii_simps [simp]: "ascii []" "ascii (c # s) \<longleftrightarrow> unat c < 128 \<and> ascii s" "ascii (s @ t) \<longleftrightarrow> ascii s \<and> ascii t"
  by (auto simp: ascii_def)

lemma ascii_unit: "unat c < 128 \<Longrightarrow> \<not> lead_surrogate c \<and> \<not> trail_surrogate c"
  by (simp add: surrogate_nat)

lemma well_formed_append: "well_formed s \<Longrightarrow> well_formed (s @ t) \<longleftrightarrow> well_formed t"
proof (induction s rule: well_formed.induct)
  case (2 c s)
  show ?case
  proof (cases "lead_surrogate c")
    case True
    with 2(3) obtain d u where "s = d # u" "trail_surrogate d" "well_formed u" by (auto split: list.splits)
    with 2(1) True show ?thesis by simp
  next
    case False
    with 2 show ?thesis by simp
  qed
qed simp

lemma well_formed_ascii: "ascii s \<Longrightarrow> well_formed s"
  by (induction s) (auto simp: ascii_unit)

lemma ascii_escape: "ascii (unicode_escape c)"
proof -
  have "n < 16 \<Longrightarrow> unat (hex_char n) < 128" for n
    unfolding hex_char_def by (subst unat_of_nat) auto
  moreover have "unat c div 4096 < 16" using unit_bound [of c] by (simp add: less_mult_imp_div_less)
  ultimately show ?thesis by (simp add: unicode_escape_def Let_def)
qed

lemma well_formed_quote: "well_formed (quote_units s)"
proof (induction "length s" arbitrary: s rule: less_induct)
  case less
  have escape: "well_formed (unicode_escape c @ t) \<longleftrightarrow> well_formed t" for c t
    by (simp add: well_formed_append well_formed_ascii ascii_escape)
  show ?case
  proof (cases s)
    case s: (Cons c t)
    have IH: "well_formed (quote_units t)" using s by (intro less) simp
    consider (short) "c = 34 \<or> c = 92 \<or> c = 8 \<or> c = 9 \<or> c = 10 \<or> c = 12 \<or> c = 13"
      | (long) "c \<noteq> 34" "c \<noteq> 92" "c \<noteq> 8" "c \<noteq> 9" "c \<noteq> 10" "c \<noteq> 12" "c \<noteq> 13"
      by blast
    then show ?thesis
    proof cases
      case short
      then obtain e where "quote_units s = [92, e] @ quote_units t" "ascii [92, e]"
        unfolding s by (elim disjE) (simp_all only: quote_units_short, auto)
      with IH well_formed_append [OF well_formed_ascii [of "[92, e]"]] show ?thesis by metis
    next
      case long
      consider (control) "c < 32 \<or> trail_surrogate c" | (pair) d u where "lead_surrogate c" "\<not> (c < 32 \<or> trail_surrogate c)" "t = d # u" "trail_surrogate d"
        | (lone) "lead_surrogate c" "\<not> (c < 32 \<or> trail_surrogate c)" "\<forall>d u. t = d # u \<longrightarrow> \<not> trail_surrogate d"
        | (plain) "\<not> lead_surrogate c" "\<not> (c < 32 \<or> trail_surrogate c)"
        by blast
      then show ?thesis
      proof cases
        case control
        with long IH show ?thesis by (simp add: s escape)
      next
        case (pair d u)
        then have "well_formed (quote_units u)" using s by (intro less) simp
        with pair long show ?thesis by (simp add: s)
      next
        case lone
        with long IH escape [of c "[]"] show ?thesis by (cases t) (simp_all add: s escape)
      next
        case plain
        with long IH show ?thesis by (simp add: s)
      qed
    qed
  qed simp
qed

lemma well_formed_quoted: "well_formed (quoted s)"
  by (simp add: quoted_def well_formed_append well_formed_quote surrogate_nat)

lemma well_formed_join: "list_all well_formed ss \<Longrightarrow> well_formed (join [44] ss)"
  by (induction "[44] :: jstring" ss rule: join.induct) (auto simp: well_formed_append surrogate_nat)

text \<open>The texts of numbers outside the safe integers are ASCII; nothing else is asked of a value.\<close>

fun reals_ascii :: "json \<Rightarrow> bool" where
  "reals_ascii (JReal s) \<longleftrightarrow> s \<noteq> [] \<and> ascii s"
| "reals_ascii (JArr xs) \<longleftrightarrow> list_all reals_ascii xs"
| "reals_ascii (JObj ms) \<longleftrightarrow> list_all (\<lambda>m. reals_ascii (snd m)) ms"
| "reals_ascii _ \<longleftrightarrow> True"

lemma ascii_int_text: "ascii (int_text n)" "int_text n \<noteq> []"
proof -
  have "unat (of_nat (48 + d) :: code_unit) < 128" if "d < 10" for d
    using that by (subst unat_of_nat) auto
  then have "ascii (decimal_string m)" for m
    using is_decimal_decimal_string [of m]
    by (auto simp: ascii_def is_decimal_def list_all_iff is_digit_iff_unat)
  then show "ascii (int_text n)" "int_text n \<noteq> []" by (simp_all add: int_text_def)
qed

lemma int_text_well_formed: "well_formed (int_text n) \<and> unat (hd (int_text n)) < 128"
  using ascii_int_text [of n] well_formed_ascii [of "int_text n"]
  by (cases "int_text n") (auto simp: ascii_def)

lemma quoted_head: "quoted s \<noteq> []" "hd (quoted s) = 34"
  by (simp_all add: quoted_def)

lemma stringify_well_formed:
  "reals_ascii v \<Longrightarrow> well_formed (stringify v) \<and> stringify v \<noteq> [] \<and> unat (hd (stringify v)) < 128"
proof (induction v rule: reals_ascii.induct)
  case (1 s)
  then show ?case using well_formed_ascii [of s] by (cases s) (auto simp del: well_formed.simps)
next
  case (2 xs)
  then have "list_all well_formed (map stringify xs)" by (auto simp: list_all_iff)
  from well_formed_join [OF this] show ?case
    by (simp add: well_formed_append surrogate_nat)
next
  case (3 ms)
  then have "list_all well_formed (map (\<lambda>(k, t). quoted k @ [58] @ t) (map (map_prod id stringify) ms))"
    by (fastforce simp: list_all_iff well_formed_append well_formed_quoted surrogate_nat)
  from well_formed_join [OF this] show ?case
    by (simp add: well_formed_append surrogate_nat)
qed (simp_all add: surrogate_nat int_text_well_formed ascii_int_text well_formed_quoted quoted_head)

text \<open>So a value's text survives its bytes.\<close>

lemma utf8_stringify: "reals_ascii v \<Longrightarrow> utf8_decode (utf8_encode (stringify v)) = Some (stringify v)"
  using stringify_well_formed [of v] by (intro utf8_decode_encode) auto

end
