(* ===== verification/Process_Frames.thy ===== *)
theory Process_Frames
  imports Utf8
begin

text \<open>
  The frames between the main process and its executors (\<open>packages/executor-node/src/process/framing.ts\<close>): the
  complexity check with its explicit stack, the encoder, and the incremental decoder with the state it keeps
  between chunks. \<open>JSON.parse\<close> is the parameter \<open>parse\<close>, from a text to the value or nothing where it throws
  (its numbers are IEEE doubles, which the model of JSON data does not compute with).
\<close>

section \<open>Complexity of a value\<close>

definition MAX_FRAME_BYTES :: nat where
  "MAX_FRAME_BYTES = 1024 * 1024"

definition MAX_FRAME_DEPTH :: nat where
  "MAX_FRAME_DEPTH = 64"

definition MAX_FRAME_NODES :: nat where
  "MAX_FRAME_NODES = 100000"

fun children :: "json \<Rightarrow> json list" where
  "children (JArr xs) = xs"
| "children (JObj ms) = map snd ms"
| "children _ = []"

lemma size_children: "sum_list (map (\<lambda>c. Suc (size c)) (children v)) \<le> size v"
proof (cases v)
  case (JObj ms)
  have "sum_list (map (\<lambda>c. Suc (size c)) (map snd ms)) \<le> size_list (\<lambda>m. size_prod (\<lambda>x. 0) size m) ms"
    by (induction ms) auto
  then show ?thesis using JObj by simp
next
  case (JArr xs)
  have "sum_list (map (\<lambda>c. Suc (size c)) xs) \<le> size_list size xs" by (induction xs) auto
  then show ?thesis using JArr by simp
qed auto

text \<open>The stack is a list with its top first; the children of a value are pushed in order.\<close>

function complexity_loop :: "(json \<times> nat) list \<Rightarrow> nat \<Rightarrow> unit result" where
  "complexity_loop [] nodes = Inr ()"
| "complexity_loop ((v, depth) # pending) nodes =
     (if nodes + 1 > MAX_FRAME_NODES \<or> depth > MAX_FRAME_DEPTH
      then Inl (Diagnostic ''PROTOCOL_PROCESS_FRAME_COMPLEXITY_EXCEEDED'')
      else complexity_loop (rev (map (\<lambda>c. (c, depth + 1)) (children v)) @ pending) (nodes + 1))"
  by pat_completeness auto
termination
proof (relation "measure (\<lambda>(pending, _). sum_list (map (\<lambda>(v, _). Suc (size v)) pending))")
  fix v :: json and depth nodes :: nat and pending :: "(json \<times> nat) list"
  have "sum_list (map (\<lambda>(v, _). Suc (size v)) (rev (map (\<lambda>c. (c, depth + 1)) cs))) = sum_list (map (\<lambda>c. Suc (size c)) cs)" for cs
    by (simp add: rev_map [symmetric] comp_def)
  from this [of "children v"] show "((rev (map (\<lambda>c. (c, depth + 1)) (children v)) @ pending, nodes + 1), (v, depth) # pending, nodes)
      \<in> measure (\<lambda>(pending, _). sum_list (map (\<lambda>(v, _). Suc (size v)) pending))"
    using size_children [of v] by simp
qed simp

definition validateComplexity :: "json \<Rightarrow> unit result" where
  "validateComplexity v = complexity_loop [(v, 0)] 0"

text \<open>What the loop measures, by recursion on the value.\<close>

primrec node_count :: "json \<Rightarrow> nat" where
  "node_count JNull = 1"
| "node_count (JBool b) = 1"
| "node_count (JInt n) = 1"
| "node_count (JReal s) = 1"
| "node_count (JStr s) = 1"
| "node_count (JArr xs) = 1 + sum_list (map node_count xs)"
| "node_count (JObj ms) = 1 + sum_list (map snd (map (map_prod id node_count) ms))"

primrec nesting :: "json \<Rightarrow> nat" where
  "nesting JNull = 0"
| "nesting (JBool b) = 0"
| "nesting (JInt n) = 0"
| "nesting (JReal s) = 0"
| "nesting (JStr s) = 0"
| "nesting (JArr xs) = foldr (\<lambda>h. max (Suc h)) (map nesting xs) 0"
| "nesting (JObj ms) = foldr (\<lambda>h. max (Suc h)) (map snd (map (map_prod id nesting) ms)) 0"

lemma node_count_children: "node_count v = 1 + sum_list (map node_count (children v))"
proof (cases v)
  case (JObj ms)
  have "map snd (map (map_prod id node_count) ms) = map node_count (map snd ms)" by simp
  with JObj show ?thesis by (simp only: node_count.simps children.simps)
qed simp_all

lemma nesting_le:
  assumes "depth \<le> bound"
  shows "depth + nesting v \<le> bound \<longleftrightarrow> (\<forall>c \<in> set (children v). depth + 1 + nesting c \<le> bound)"
proof -
  have "nesting v = foldr (\<lambda>h. max (Suc h)) (map nesting (children v)) 0"
  proof (cases v)
    case (JObj ms)
    have "map snd (map (map_prod id nesting) ms) = map nesting (map snd ms)" by simp
    with JObj show ?thesis by (simp only: nesting.simps children.simps)
  qed simp_all
  moreover have "depth + foldr (\<lambda>h. max (Suc h)) (map nesting cs) 0 \<le> bound \<longleftrightarrow> (\<forall>c \<in> set cs. depth + 1 + nesting c \<le> bound)" for cs
    by (induction cs) (use assms in auto)
  ultimately show ?thesis by simp
qed

lemma complexity_loop_iff:
  "complexity_loop pending nodes = Inr () \<longleftrightarrow>
     pending = [] \<or>
     nodes + sum_list (map (node_count \<circ> fst) pending) \<le> MAX_FRAME_NODES \<and>
     (\<forall>(v, depth) \<in> set pending. depth + nesting v \<le> MAX_FRAME_DEPTH)"
proof (induction pending nodes rule: complexity_loop.induct)
  case (2 v depth pending nodes)
  show ?case
  proof (cases "nodes + 1 > MAX_FRAME_NODES \<or> depth > MAX_FRAME_DEPTH")
    case True
    then show ?thesis by (auto simp: node_count_children [of v])
  next
    case False
    have "sum_list (map (node_count \<circ> fst) (rev (map (\<lambda>c. (c, depth + 1)) (children v)))) = sum_list (map node_count (children v))"
      by (simp add: rev_map [symmetric] comp_def)
    then have total: "nodes + sum_list (map (node_count \<circ> fst) ((v, depth) # pending)) =
        nodes + 1 + sum_list (map (node_count \<circ> fst) (rev (map (\<lambda>c. (c, depth + 1)) (children v)) @ pending))"
      by (simp add: node_count_children [of v])
    have levels: "(\<forall>(v, depth) \<in> set ((v, depth) # pending). depth + nesting v \<le> MAX_FRAME_DEPTH) \<longleftrightarrow>
        (\<forall>(v, depth) \<in> set (rev (map (\<lambda>c. (c, depth + 1)) (children v)) @ pending). depth + nesting v \<le> MAX_FRAME_DEPTH)"
      using False by (simp add: nesting_le ball_Un)
    have step: "complexity_loop ((v, depth) # pending) nodes =
        complexity_loop (rev (map (\<lambda>c. (c, depth + 1)) (children v)) @ pending) (nodes + 1)"
      using False by simp
    show ?thesis unfolding step total levels 2 [OF False] using False by auto
  qed
qed simp

lemma complexity_loop_error:
  "complexity_loop pending nodes = Inr () \<or>
   complexity_loop pending nodes = Inl (Diagnostic ''PROTOCOL_PROCESS_FRAME_COMPLEXITY_EXCEEDED'')"
  by (induction pending nodes rule: complexity_loop.induct) simp_all

section \<open>Encoding\<close>

definition be32 :: "nat \<Rightarrow> bytes" where
  "be32 n = [of_nat (n div 16777216), of_nat (n div 65536 mod 256), of_nat (n div 256 mod 256), of_nat (n mod 256)]"

fun read_be32 :: "bytes \<Rightarrow> nat" where
  "read_be32 [a, b, c, d] = ((unat a * 256 + unat b) * 256 + unat c) * 256 + unat d"
| "read_be32 _ = 0"

definition encodeProcessFrame :: "string \<Rightarrow> json \<Rightarrow> bytes result" where
  "encodeProcessFrame oversizedCode v =
     (let payload = utf8_encode (stringify v)
      in if payload = [] \<or> length payload > MAX_FRAME_BYTES then Inl (Diagnostic oversizedCode)
         else Inr (be32 (length payload) @ payload))"

section \<open>Decoding\<close>

text \<open>The header bytes received so far, and the payload being received with its length.\<close>

record frame_decoder =
  fd_header :: bytes
  fd_payload :: "(nat \<times> bytes) option"

definition new_decoder :: frame_decoder where
  "new_decoder = \<lparr>fd_header = [], fd_payload = None\<rparr>"

definition decode_payload :: "(jstring \<Rightarrow> json option) \<Rightarrow> bytes \<Rightarrow> json result" where
  "decode_payload parse payload =
     (case utf8_decode payload of
        None \<Rightarrow> Inl (Diagnostic ''PROTOCOL_PROCESS_FRAME_INVALID'')
      | Some text \<Rightarrow>
          (case parse text of
             None \<Rightarrow> Inl (Diagnostic ''PROTOCOL_PROCESS_FRAME_INVALID'')
           | Some v \<Rightarrow> and_then (validateComplexity v) (\<lambda>_. Inr v)))"

text \<open>One round of the loop of \<open>push\<close>: what it delivers, the decoder afterwards and the input that is left.\<close>

definition receive_payload ::
  "(jstring \<Rightarrow> json option) \<Rightarrow> frame_decoder \<Rightarrow> nat \<Rightarrow> bytes \<Rightarrow> bytes \<Rightarrow> json option result \<times> frame_decoder \<times> bytes" where
  "receive_payload parse d expected received input =
     (let n = min (expected - length received) (length input);
          received' = received @ take n input; rest = drop n input
      in if length received' < expected then (Inr None, d\<lparr>fd_payload := Some (expected, received')\<rparr>, rest)
         else (and_then (decode_payload parse received') (\<lambda>v. Inr (Some v)), d\<lparr>fd_payload := None\<rparr>, rest))"

definition receive_round ::
  "(jstring \<Rightarrow> json option) \<Rightarrow> frame_decoder \<Rightarrow> bytes \<Rightarrow> json option result \<times> frame_decoder \<times> bytes" where
  "receive_round parse d input =
     (case fd_payload d of
        Some (expected, received) \<Rightarrow> receive_payload parse d expected received input
      | None \<Rightarrow>
          (let n = min (4 - length (fd_header d)) (length input);
               header = fd_header d @ take n input; rest = drop n input
           in if length header < 4 then (Inr None, d\<lparr>fd_header := header\<rparr>, rest)
              else (let expected = read_be32 header; d' = d\<lparr>fd_header := []\<rparr>
                    in if expected = 0 \<or> expected > MAX_FRAME_BYTES
                       then (Inl (Diagnostic ''PROTOCOL_PROCESS_FRAME_LENGTH_INVALID''), d', rest)
                       else receive_payload parse d' expected [] rest)))"

lemma receive_payload_rest:
  "receive_payload parse d expected received input = (r, d', rest) \<Longrightarrow>
   length rest \<le> length input \<and>
   (length rest < length input \<or> input = [] \<or> fd_payload d' = None \<and> expected \<le> length received)"
  by (auto simp: receive_payload_def Let_def split: if_splits)

lemma receive_header_short:
  "fd_payload d = None \<Longrightarrow> length (fd_header d) + length input < 4 \<Longrightarrow>
   receive_round parse d input = (Inr None, d\<lparr>fd_header := fd_header d @ input\<rparr>, [])"
  by (simp add: receive_round_def Let_def)

lemma receive_header_full:
  assumes "fd_payload d = None" and "4 \<le> length (fd_header d) + length input"
  defines "n \<equiv> 4 - length (fd_header d)"
  shows "receive_round parse d input =
    (let expected = read_be32 (fd_header d @ take n input)
     in if expected = 0 \<or> expected > MAX_FRAME_BYTES
        then (Inl (Diagnostic ''PROTOCOL_PROCESS_FRAME_LENGTH_INVALID''), d\<lparr>fd_header := []\<rparr>, drop n input)
        else receive_payload parse (d\<lparr>fd_header := []\<rparr>) expected [] (drop n input))"
proof -
  have "min n (length input) = n" "\<not> length (fd_header d) + n < 4" using assms(2) by (simp_all add: n_def)
  then show ?thesis using assms(1,2) by (simp add: receive_round_def Let_def flip: n_def)
qed

lemma receive_round_progress:
  assumes "receive_round parse d input = (Inr r, d', rest)" and "input \<noteq> []"
  shows "2 * length rest + (if fd_payload d' = None then 0 else 1) < 2 * length input + (if fd_payload d = None then 0 else (1::nat))"
proof (cases "fd_payload d")
  case (Some p)
  then show ?thesis using assms receive_payload_rest [of parse d "fst p" "snd p" input "Inr r" d' rest]
    by (auto simp: receive_round_def split: prod.splits)
next
  case None
  show ?thesis
  proof (cases "length (fd_header d) + length input < 4")
    case True
    with assms None receive_header_short [OF None True, of parse] show ?thesis by auto
  next
    case False
    define n where "n = 4 - length (fd_header d)"
    from False assms(1) receive_header_full [OF None, of input parse] obtain expected where "0 < expected"
      and "receive_payload parse (d\<lparr>fd_header := []\<rparr>) expected [] (drop n input) = (Inr r, d', rest)"
      by (auto simp: Let_def n_def split: if_splits)
    from receive_payload_rest [OF this(2)] this(1)
    have "length rest \<le> length (drop n input)" "length rest < length (drop n input) \<or> drop n input = []" by auto
    moreover have "0 < n \<or> drop n input = input" by (cases n) auto
    ultimately have "length rest < length input" using assms(2) by auto
    then show ?thesis using None by simp
  qed
qed

function push_loop ::
  "(jstring \<Rightarrow> json option) \<Rightarrow> frame_decoder \<Rightarrow> bytes \<Rightarrow> json list \<Rightarrow> json list result \<times> frame_decoder" where
  "push_loop parse d input values =
     (if input = [] then (Inr values, d)
      else case receive_round parse d input of
             (Inl e, d', _) \<Rightarrow> (Inl e, d')
           | (Inr None, d', rest) \<Rightarrow> push_loop parse d' rest values
           | (Inr (Some v), d', rest) \<Rightarrow> push_loop parse d' rest (values @ [v]))"
  by pat_completeness auto
termination
  by (relation "measure (\<lambda>(parse, d, input, values). 2 * length input + (if fd_payload d = None then 0 else 1))")
    (auto dest!: receive_round_progress [OF sym])

declare push_loop.simps [simp del]

definition push :: "(jstring \<Rightarrow> json option) \<Rightarrow> frame_decoder \<Rightarrow> bytes \<Rightarrow> json list result \<times> frame_decoder" where
  "push parse d chunk = push_loop parse d chunk []"

definition finish :: "frame_decoder \<Rightarrow> unit result" where
  "finish d =
     (if fd_header d \<noteq> [] \<or> fd_payload d \<noteq> None then Inl (Diagnostic ''PROTOCOL_PROCESS_FRAME_TRUNCATED'')
      else Inr ())"

text \<open>The owner of a decoder pushes the chunks as they arrive and stops at the first error.\<close>

fun push_all :: "(jstring \<Rightarrow> json option) \<Rightarrow> frame_decoder \<Rightarrow> bytes list \<Rightarrow> json list result \<times> frame_decoder" where
  "push_all parse d [] = (Inr [], d)"
| "push_all parse d (c # cs) =
     (case push parse d c of
        (Inl e, d') \<Rightarrow> (Inl e, d')
      | (Inr vs, d') \<Rightarrow>
          (case push_all parse d' cs of
             (Inl e, d'') \<Rightarrow> (Inl e, d'')
           | (Inr ws, d'') \<Rightarrow> (Inr (vs @ ws), d'')))"

section \<open>Any division into chunks\<close>

text \<open>The decoder between two rounds: at most one of the two buffers is in use, and neither is full.\<close>

definition decoder_ok :: "frame_decoder \<Rightarrow> bool" where
  "decoder_ok d \<longleftrightarrow> length (fd_header d) < 4 \<and>
     (case fd_payload d of
        None \<Rightarrow> True
      | Some (expected, received) \<Rightarrow>
          fd_header d = [] \<and> length received < expected \<and> expected \<le> MAX_FRAME_BYTES)"

lemma decoder_ok_new [simp]: "decoder_ok new_decoder"
  by (simp add: decoder_ok_def new_decoder_def)

lemma receive_payload_ok:
  "receive_payload parse d expected received input = (r, d', rest) \<Longrightarrow> fd_header d = [] \<Longrightarrow>
   expected \<le> MAX_FRAME_BYTES \<Longrightarrow> decoder_ok d'"
  by (auto simp: receive_payload_def Let_def decoder_ok_def split: if_splits)

lemma receive_round_ok:
  assumes "receive_round parse d input = (r, d', rest)" and "decoder_ok d"
  shows "decoder_ok d'"
proof (cases "fd_payload d")
  case (Some p)
  then show ?thesis using assms receive_payload_ok [of parse d "fst p" "snd p" input r d' rest]
    by (simp add: receive_round_def decoder_ok_def [of d] split: prod.splits)
next
  case None
  show ?thesis
  proof (cases "length (fd_header d) + length input < 4")
    case True
    with assms None receive_header_short [OF None True, of parse] show ?thesis by (auto simp: decoder_ok_def)
  next
    case False
    define n where "n = 4 - length (fd_header d)"
    show ?thesis using False assms None receive_header_full [OF None, of input parse]
        receive_payload_ok [of parse "d\<lparr>fd_header := []\<rparr>" _ "[]" "drop n input" r d' rest]
      by (auto simp: Let_def decoder_ok_def n_def split: if_splits)
  qed
qed

text \<open>A round that leaves input or delivers something does not look at what comes after its input; one that
  takes all its input and delivers nothing is continued by the next.\<close>

lemma receive_payload_append:
  assumes payload: "receive_payload parse d expected received xs = (r, d', rest)"
  shows "rest \<noteq> [] \<or> r \<noteq> Inr None \<Longrightarrow>
      receive_payload parse d expected received (xs @ ys) = (r, d', rest @ ys)"
    and "rest = [] \<Longrightarrow> r = Inr None \<Longrightarrow>
      d' = d\<lparr>fd_payload := Some (expected, received @ xs)\<rparr> \<and> length (received @ xs) < expected"
proof -
  define n where "n = expected - length received"
  have taken: "receive_payload parse d expected received zs =
      (and_then (decode_payload parse (received @ take n zs)) (\<lambda>v. Inr (Some v)), d\<lparr>fd_payload := None\<rparr>, drop n zs)"
    if "n \<le> length zs" for zs
  proof -
    have "min n (length zs) = n" "\<not> length received + n < expected" using that by (simp_all add: n_def)
    then show ?thesis by (simp add: receive_payload_def Let_def flip: n_def)
  qed
  have short: "receive_payload parse d expected received zs = (Inr None, d\<lparr>fd_payload := Some (expected, received @ zs)\<rparr>, [])"
    if "length zs < n" for zs using that by (simp add: receive_payload_def Let_def n_def)
  have delivered: "and_then x (\<lambda>v. Inr (Some v)) \<noteq> Inr None" for x :: "json result" by (cases x) simp_all
  show "rest \<noteq> [] \<or> r \<noteq> Inr None \<Longrightarrow>
      receive_payload parse d expected received (xs @ ys) = (r, d', rest @ ys)"
  proof -
    assume "rest \<noteq> [] \<or> r \<noteq> Inr None"
    have "n \<le> length xs"
    proof (rule ccontr)
      assume "\<not> n \<le> length xs"
      with short [of xs] payload \<open>rest \<noteq> [] \<or> r \<noteq> Inr None\<close> show False by simp
    qed
    then have "(r, d', rest) = (and_then (decode_payload parse (received @ take n xs)) (\<lambda>v. Inr (Some v)),
        d\<lparr>fd_payload := None\<rparr>, drop n xs)" "n \<le> length (xs @ ys)"
      using payload taken [of xs] by simp_all
    then show ?thesis using \<open>n \<le> length xs\<close> by (simp only: taken) simp
  qed
  show "rest = [] \<Longrightarrow> r = Inr None \<Longrightarrow>
      d' = d\<lparr>fd_payload := Some (expected, received @ xs)\<rparr> \<and> length (received @ xs) < expected"
  proof -
    assume r: "r = Inr None"
    have n: "length xs < n"
    proof (rule ccontr)
      assume "\<not> length xs < n"
      then have "r = and_then (decode_payload parse (received @ take n xs)) (\<lambda>v. Inr (Some v))"
        using payload taken [of xs] by simp
      with r delivered show False by metis
    qed
    from short [OF this] payload have "d' = d\<lparr>fd_payload := Some (expected, received @ xs)\<rparr>" by simp
    with n show ?thesis by (simp add: n_def)
  qed
qed

lemma receive_payload_more:
  assumes "length (received @ xs) < expected"
  shows "receive_payload parse d expected received (xs @ ys) = receive_payload parse (d\<lparr>fd_payload := p\<rparr>) expected (received @ xs) ys"
proof -
  define m where "m = expected - length (received @ xs)"
  have "expected - length received = length xs + m" using assms by (simp add: m_def)
  then have n: "min (expected - length received) (length (xs @ ys)) = length xs + min m (length ys)"
    by (simp add: min_add_distrib_right)
  show ?thesis unfolding receive_payload_def n Let_def m_def [symmetric] by simp
qed

lemma receive_round_append:
  assumes round: "receive_round parse d xs = (r, d', rest)"
  shows "rest \<noteq> [] \<or> r \<noteq> Inr None \<Longrightarrow> receive_round parse d (xs @ ys) = (r, d', rest @ ys)"
    and "rest = [] \<Longrightarrow> r = Inr None \<Longrightarrow> ys \<noteq> [] \<Longrightarrow> receive_round parse d (xs @ ys) = receive_round parse d' ys"
proof -
  have "(rest \<noteq> [] \<or> r \<noteq> Inr None \<longrightarrow> receive_round parse d (xs @ ys) = (r, d', rest @ ys)) \<and>
    (rest = [] \<and> r = Inr None \<and> ys \<noteq> [] \<longrightarrow> receive_round parse d (xs @ ys) = receive_round parse d' ys)"
  proof (cases "fd_payload d")
    case (Some p)
    obtain expected received where p: "p = (expected, received)" by (cases p)
    have "receive_payload parse d expected received xs = (r, d', rest)"
      using round Some p by (simp add: receive_round_def)
    from receive_payload_append [OF this] show ?thesis using Some p
      by (simp add: receive_round_def receive_payload_more [where d = d])
  next
    case None
    show ?thesis
    proof (cases "length (fd_header d) + length xs < 4")
      case short: True
      with round None have d': "d' = d\<lparr>fd_header := fd_header d @ xs\<rparr>" "r = Inr None" "rest = []"
        by (simp_all add: receive_header_short)
      with None have None': "fd_payload d' = None" by simp
      show ?thesis
      proof (cases "length (fd_header d) + length (xs @ ys) < 4")
        case True
        with d' None None' show ?thesis by (simp add: receive_header_short)
      next
        case False
        then show ?thesis using short d' None
          by (simp add: receive_header_full Let_def)
      qed
    next
      case full: False
      define n where "n = 4 - length (fd_header d)"
      have n: "take n (xs @ ys) = take n xs" "drop n (xs @ ys) = drop n xs @ ys" using full by (simp_all add: n_def)
      define expected where "expected = read_be32 (fd_header d @ take n xs)"
      show ?thesis
      proof (cases "expected = 0 \<or> expected > MAX_FRAME_BYTES")
        case True
        with round full None n show ?thesis by (auto simp: receive_header_full Let_def expected_def n_def)
      next
        case False
        define e where "e = d\<lparr>fd_header := []\<rparr>"
        have "receive_payload parse e expected [] (drop n xs) = (r, d', rest)"
          and "receive_round parse d (xs @ ys) = receive_payload parse e expected [] (drop n xs @ ys)"
          using round full None False n by (auto simp: receive_header_full Let_def expected_def n_def e_def)
        note payload = receive_payload_append [OF this(1)] this(2)
        show ?thesis
        proof (cases "rest \<noteq> [] \<or> r \<noteq> Inr None")
          case True
          then show ?thesis using payload(1,3) by auto
        next
          case False
          with payload(2) have d': "d' = e\<lparr>fd_payload := Some (expected, drop n xs)\<rparr>"
            and "length ([] @ drop n xs) < expected" by auto
          from receive_payload_more [OF this(2), of parse e ys "fd_payload d'"] d' payload(3) False
          have "receive_round parse d (xs @ ys) = receive_round parse d' ys"
            by (simp add: receive_round_def [of parse "e\<lparr>fd_payload := _\<rparr>"])
          with False show ?thesis by simp
        qed
      qed
    qed
  qed
  then show "rest \<noteq> [] \<or> r \<noteq> Inr None \<Longrightarrow> receive_round parse d (xs @ ys) = (r, d', rest @ ys)"
    and "rest = [] \<Longrightarrow> r = Inr None \<Longrightarrow> ys \<noteq> [] \<Longrightarrow> receive_round parse d (xs @ ys) = receive_round parse d' ys"
    by blast+
qed

lemma push_loop_Nil [simp]: "push_loop parse d [] vs = (Inr vs, d)"
  by (simp add: push_loop.simps)

lemma push_loop_append:
  "push_loop parse d (xs @ ys) vs =
    (case push_loop parse d xs vs of (Inl e, d') \<Rightarrow> (Inl e, d') | (Inr ws, d') \<Rightarrow> push_loop parse d' ys ws)"
proof (induction parse d xs vs rule: push_loop.induct)
  case (1 parse d xs vs)
  show ?case
  proof (cases "xs = []")
    case False
    obtain r d' rest where round: "receive_round parse d xs = (r, d', rest)" by (cases "receive_round parse d xs") auto
    note append = receive_round_append [OF round, of ys]
    show ?thesis
    proof (cases "rest \<noteq> [] \<or> r \<noteq> Inr None")
      case True
      note whole = append(1) [OF True]
      show ?thesis
      proof (cases r)
        case (Inl e)
        with False round whole show ?thesis by (simp add: push_loop.simps [of parse d])
      next
        case (Inr delivered)
        with False round whole 1 show ?thesis
          by (cases delivered) (simp_all add: push_loop.simps [of parse d])
      qed
    next
      case False
      with \<open>xs \<noteq> []\<close> round append(2) show ?thesis
        by (cases "ys = []") (simp_all add: push_loop.simps [of parse d] push_loop.simps [of parse d' ys])
    qed
  qed simp
qed

lemma push_all_concat:
  "push_all parse d chunks = push_loop parse d (concat chunks) []"
proof -
  have shift: "push_loop parse d xs (us @ vs) =
      (case push_loop parse d xs vs of (Inl e, d') \<Rightarrow> (Inl e, d') | (Inr ws, d') \<Rightarrow> (Inr (us @ ws), d'))" for d xs us vs
  proof (induction parse d xs vs rule: push_loop.induct)
    case (1 parse d xs vs)
    show ?case
    proof (cases "xs = []")
      case False
      obtain r d' rest where round: "receive_round parse d xs = (r, d', rest)" by (cases "receive_round parse d xs") auto
      with False 1 show ?thesis
        by (cases r rule: sum.exhaust; cases "projr r") (simp_all add: push_loop.simps [of parse d])
    qed simp
  qed
  show ?thesis
  proof (induction chunks arbitrary: d)
    case (Cons c cs)
    obtain r d' where first: "push_loop parse d c [] = (r, d')" by (cases "push_loop parse d c []")
    show ?case
    proof (cases r)
      case (Inr vs)
      with first Cons shift [of d' "concat cs" vs "[]"] show ?thesis
        by (simp add: push_def push_loop_append split: prod.splits sum.splits)
    qed (simp add: push_def push_loop_append first)
  qed simp
qed

section \<open>Round trip\<close>

lemma read_be32_be32: "n < 2 ^ 32 \<Longrightarrow> read_be32 (be32 n) = n"
proof -
  assume "n < 2 ^ 32"
  then have byte: "n div 16777216 mod 256 = n div 16777216" by (simp add: less_mult_imp_div_less)
  have "(n div 16777216 * 256 + n div 65536 mod 256) = n div 65536"
    using div_mult_mod_eq [of "n div 65536" 256] by (simp flip: div_mult2_eq)
  moreover have "n div 65536 * 256 + n div 256 mod 256 = n div 256"
    using div_mult_mod_eq [of "n div 256" 256] by (simp flip: div_mult2_eq)
  ultimately show ?thesis 
    by (simp add: be32_def byte unat_of_nat del: distrib_right_numeral distrib_left_numeral)
qed

lemma length_be32 [simp]: "length (be32 n) = 4"
  by (simp add: be32_def)

lemma encodeProcessFrame_cases:
  assumes "encodeProcessFrame code v = Inr frame"
  obtains payload where "payload = utf8_encode (stringify v)" "frame = be32 (length payload) @ payload"
    "payload \<noteq> []" "length payload \<le> MAX_FRAME_BYTES"
  using assms by (auto simp: encodeProcessFrame_def Let_def split: if_splits)

lemma receive_frame:
  assumes "encodeProcessFrame code v = Inr frame"
    and "parse (stringify v) = Some v" and "reals_ascii v" and "validateComplexity v = Inr ()"
  shows "receive_round parse new_decoder (frame @ rest) = (Inr (Some v), new_decoder, rest)"
proof -
  from assms(1) obtain payload where payload: "payload = utf8_encode (stringify v)"
    and frame: "frame = be32 (length payload) @ payload" and bounds: "payload \<noteq> []" "length payload \<le> MAX_FRAME_BYTES"
    by (rule encodeProcessFrame_cases)
  have "decode_payload parse payload = Inr v"
    using assms(2-4) by (simp add: decode_payload_def payload utf8_stringify)
  moreover have "read_be32 (be32 (length payload)) = length payload"
    by (rule read_be32_be32) (use bounds in \<open>simp add: MAX_FRAME_BYTES_def\<close>)
  ultimately show ?thesis using bounds
    by (simp add: receive_header_full new_decoder_def frame receive_payload_def)
qed

lemma push_frames:
  assumes "list_all2 (\<lambda>v frame. encodeProcessFrame code v = Inr frame) vs frames"
    and "\<forall>v \<in> set vs. parse (stringify v) = Some v \<and> reals_ascii v \<and> validateComplexity v = Inr ()"
  shows "push_loop parse new_decoder (concat frames @ rest) ws = push_loop parse new_decoder rest (ws @ vs)"
  using assms
proof (induction vs frames arbitrary: ws rule: list_all2_induct)
  case (Cons v vs frame frames)
  have "frame \<noteq> []" using Cons.hyps(1) by (rule encodeProcessFrame_cases) (simp add: be32_def)
  with Cons receive_frame [of code v frame parse "concat frames @ rest"] show ?case
    by (simp add: push_loop.simps [of parse new_decoder "frame @ _"])
qed simp

lemma push_part:
  assumes "encodeProcessFrame code v = Inr (part @ missing)" and "part \<noteq> []" and "missing \<noteq> []"
  shows "\<exists>d. push_loop parse new_decoder part ws = (Inr ws, d) \<and> finish d = Inl (Diagnostic ''PROTOCOL_PROCESS_FRAME_TRUNCATED'')"
proof -
  from assms(1) obtain payload where frame: "part @ missing = be32 (length payload) @ payload"
    and bounds: "payload \<noteq> []" "length payload \<le> MAX_FRAME_BYTES"
    by (rule encodeProcessFrame_cases)
  have "\<exists>d. receive_round parse new_decoder part = (Inr None, d, []) \<and>
      finish d = Inl (Diagnostic ''PROTOCOL_PROCESS_FRAME_TRUNCATED'')"
  proof (cases "length part < 4")
    case True
    with assms(2) show ?thesis by (simp add: receive_header_short new_decoder_def finish_def)
  next
    case False
    define received where "received = drop 4 part"
    have "take 4 part = be32 (length payload)" "received @ missing = payload"
      using arg_cong [OF frame, of "take 4"] arg_cong [OF frame, of "drop 4"] False by (simp_all add: received_def)
    then have part: "part = be32 (length payload) @ received"
      using append_take_drop_id [of 4 part] by (simp add: received_def)
    note \<open>received @ missing = payload\<close>
    with assms(3) have short: "length received < length payload" by (cases missing) auto
    have "read_be32 (be32 (length payload)) = length payload"
      by (rule read_be32_be32) (use bounds in \<open>simp add: MAX_FRAME_BYTES_def\<close>)
    with bounds short show ?thesis
      by (simp add: receive_header_full new_decoder_def part receive_payload_def finish_def)
  qed
  with assms(2) show ?thesis by (auto simp: push_loop.simps [of parse new_decoder part])
qed

lemma encoded_null: "encodeProcessFrame code JNull = Inr [0, 0, 0, 4, 110, 117, 108, 108]"
proof -
  have "utf8_encode (stringify JNull) = [110, 117, 108, 108]" by code_simp
  then show ?thesis by (simp add: encodeProcessFrame_def be32_def MAX_FRAME_BYTES_def del: stringify.simps)
qed

lemma encoded_true: "encodeProcessFrame code (JBool True) = Inr [0, 0, 0, 4, 116, 114, 117, 101]"
proof -
  have "utf8_encode (stringify (JBool True)) = [116, 114, 117, 101]" by code_simp
  then show ?thesis by (simp add: encodeProcessFrame_def be32_def MAX_FRAME_BYTES_def del: stringify.simps)
qed

section \<open>The properties\<close>

text \<open>
  C19. The complexity check of a frame accepts a value exactly when it has at most 100000 nodes and no node is
  nested deeper than 64 levels, whatever the order in which its explicit stack visits the nodes; any other value is
  rejected with the complexity error.
\<close>

theorem complexity_exact:
  "validateComplexity v =
     (if node_count v \<le> 100000 \<and> nesting v \<le> 64 then Inr ()
      else Inl (Diagnostic ''PROTOCOL_PROCESS_FRAME_COMPLEXITY_EXCEEDED''))"
  using complexity_loop_iff [of "[(v, 0)]" 0] complexity_loop_error [of "[(v, 0)]" 0]
  by (auto simp: validateComplexity_def MAX_FRAME_NODES_def MAX_FRAME_DEPTH_def)

text \<open>
  C18. However the bytes of a sequence of encoded frames are divided into chunks, pushing the chunks delivers the
  encoded values in order, leaves the decoder as new and lets it finish, provided the parser reads back the texts of
  the values, the texts of their numbers are ASCII, and the values are within the complexity limits, which the
  encoder does not check.
\<close>

theorem process_frames_roundtrip:
  assumes "list_all2 (\<lambda>v frame. encodeProcessFrame code v = Inr frame) vs frames"
    and "\<forall>v \<in> set vs. parse (stringify v) = Some v \<and> reals_ascii v \<and> validateComplexity v = Inr ()"
    and "concat chunks = concat frames"
  shows "push_all parse new_decoder chunks = (Inr vs, new_decoder) \<and> finish new_decoder = Inr ()"
  using push_frames [OF assms(1,2), of "[]" "[]"] assms(3)
  by (simp add: push_all_concat finish_def new_decoder_def)

lemma process_frames_roundtrip_witness:
  "push_all (\<lambda>t. if t = stringify JNull then Some JNull else if t = stringify (JBool True) then Some (JBool True) else None)
     new_decoder [[0, 0], [0, 4, 110, 117], [108, 108, 0, 0, 0, 4, 116], [], [114, 117, 101]] =
     (Inr [JNull, JBool True], new_decoder) \<and> finish new_decoder = Inr ()"
proof (rule process_frames_roundtrip
    [of "''EXECUTOR_INPUT_LIMIT_EXCEEDED''" _ "[[0, 0, 0, 4, 110, 117, 108, 108], [0, 0, 0, 4, 116, 114, 117, 101]]"])
  show "list_all2 (\<lambda>v frame. encodeProcessFrame ''EXECUTOR_INPUT_LIMIT_EXCEEDED'' v = Inr frame) [JNull, JBool True]
      [[0, 0, 0, 4, 110, 117, 108, 108], [0, 0, 0, 4, 116, 114, 117, 101]]"
    by (simp add: encoded_null encoded_true)
qed (simp_all add: js_def validateComplexity_def MAX_FRAME_NODES_def MAX_FRAME_DEPTH_def)

text \<open>
  When the stream ends inside a frame, the frames before it are delivered and nothing of the incomplete one,
  and finishing fails with the truncation error.
\<close>

theorem process_stream_truncated:
  assumes "list_all2 (\<lambda>v frame. encodeProcessFrame code v = Inr frame) vs frames"
    and "\<forall>v \<in> set vs. parse (stringify v) = Some v \<and> reals_ascii v \<and> validateComplexity v = Inr ()"
    and "encodeProcessFrame code v = Inr (part @ missing)" and "part \<noteq> []" and "missing \<noteq> []"
    and "concat chunks = concat frames @ part"
  shows "\<exists>d. push_all parse new_decoder chunks = (Inr vs, d) \<and> finish d = Inl (Diagnostic ''PROTOCOL_PROCESS_FRAME_TRUNCATED'')"
  using push_frames [OF assms(1,2), of part "[]"] push_part [OF assms(3-5), of parse vs] assms(6)
  by (simp add: push_all_concat)

lemma process_stream_truncated_witness:
  "\<exists>d. push_all (\<lambda>t. if t = stringify JNull then Some JNull else None) new_decoder [[0, 0], [0, 4, 110, 117, 108, 108, 0], [0, 0, 4, 116]] =
     (Inr [JNull], d) \<and> finish d = Inl (Diagnostic ''PROTOCOL_PROCESS_FRAME_TRUNCATED'')"
proof (rule process_stream_truncated
    [of "''EXECUTOR_INPUT_LIMIT_EXCEEDED''" _ "[[0, 0, 0, 4, 110, 117, 108, 108]]" _ "JBool True" "[0, 0, 0, 4, 116]" "[114, 117, 101]"])
  show "list_all2 (\<lambda>v frame. encodeProcessFrame ''EXECUTOR_INPUT_LIMIT_EXCEEDED'' v = Inr frame) [JNull]
      [[0, 0, 0, 4, 110, 117, 108, 108]]"
    by (simp add: encoded_null)
  show "encodeProcessFrame ''EXECUTOR_INPUT_LIMIT_EXCEEDED'' (JBool True) = Inr ([0, 0, 0, 4, 116] @ [114, 117, 101])"
    by (simp add: encoded_true)
qed (simp_all add: js_def validateComplexity_def MAX_FRAME_NODES_def MAX_FRAME_DEPTH_def)

end
