(* ===== verification/Component_Registry.thy ===== *)
theory Component_Registry
  imports Plan
begin

text \<open>
  The registry of live component bindings (\<open>packages/runtime/src/components/component-registry.ts\<close>): the
  binding an effect registered, its state, and the guards under which an effect may move, take over or remove it.
  Frozen copies are the values themselves; a component descriptor is the JSON value the manifest holds.
\<close>

section \<open>Bindings\<close>

record runtime_authority =
  au_resource :: jstring
  au_epoch :: jstring

record prepared_artifact =
  pa_digest :: jstring
  pa_pluginId :: jstring
  pa_components :: "json list"

record binding_preparation =
  bn_instanceId :: jstring
  bn_activation :: jstring
  bn_executor :: executor_kind
  bn_workerId :: "jstring option"
  bn_artifact :: prepared_artifact
  bn_deployment :: plugin_deployment
  bn_component :: json
  bn_authority :: "runtime_authority option"

record component_binding = binding_preparation +
  bn_executionBinding :: json

datatype binding_state = BindingActive | BindingDraining | BindingPrepared | BindingStopping

record registered_component =
  rg_binding :: component_binding
  rg_state :: binding_state
  rg_acceptingTasks :: bool
  rg_hostStopped :: bool
  rg_artifactReleased :: bool

type_synonym component_registry = "(jstring, registered_component) jsmap"

definition json_member :: "string \<Rightarrow> json \<Rightarrow> json option" where
  "json_member name v = (case v of JObj ms \<Rightarrow> map_of ms (js name) | _ \<Rightarrow> None)"

definition names_component :: "jstring \<Rightarrow> json \<Rightarrow> bool" where
  "names_component componentId c \<longleftrightarrow> json_member ''componentId'' c = Some (JStr componentId)"

definition runs_on :: "executor_kind \<Rightarrow> json \<Rightarrow> bool" where
  "runs_on executor c =
     (case json_member ''executors'' c of Some (JArr xs) \<Rightarrow> JStr (executor_text executor) \<in> set xs | _ \<Rightarrow> False)"

section \<open>Guards\<close>

text \<open>An absent authority equals only an absent one, as the optional chaining of the source has it.\<close>

definition sameAuthority :: "runtime_authority option \<Rightarrow> runtime_authority option \<Rightarrow> bool" where
  "sameAuthority left right \<longleftrightarrow>
     map_option au_resource left = map_option au_resource right \<and> map_option au_epoch left = map_option au_epoch right"

definition identity_fields_match :: "reconcile_effect \<Rightarrow> component_binding \<Rightarrow> bool" where
  "identity_fields_match e b \<longleftrightarrow>
     pa_digest (bn_artifact b) = re_artifactDigest e \<and>
     pd_applicationId (bn_deployment b) = re_applicationId e \<and> pd_pluginId (bn_deployment b) = re_pluginId e \<and>
     pd_generation (bn_deployment b) = re_deploymentGeneration e \<and> bn_executor b = re_executor e \<and>
     bn_workerId b = re_workerId e \<and> names_component (re_componentId e) (bn_component b)"

definition execution_binding_matches :: "reconcile_effect \<Rightarrow> component_binding \<Rightarrow> bool" where
  "execution_binding_matches e b =
     (case re_executionBinding e of
        None \<Rightarrow> True
      | Some x \<Rightarrow> json_member ''fingerprint'' (bn_executionBinding b) = json_member ''fingerprint'' x \<and>
          canon (bn_executionBinding b) = canon x)"

definition matchesIdentity :: "reconcile_effect \<Rightarrow> registered_component \<Rightarrow> bool result" where
  "matchesIdentity e entry =
     (let b = rg_binding entry
      in and_then (parseActivation (JStr (re_activation e))) (\<lambda>effectActivation.
         and_then (parseActivation (JStr (bn_activation b))) (\<lambda>bindingActivation.
         Inr (bn_instanceId b = re_instanceId e \<and> bindingActivation = effectActivation \<and>
              identity_fields_match e b \<and> execution_binding_matches e b))))"

definition entry_matches ::
  "reconcile_effect \<Rightarrow> registered_component \<Rightarrow> runtime_authority option \<Rightarrow> bool result" where
  "entry_matches e entry authority =
     and_then (matchesIdentity e entry) (\<lambda>identity.
       Inr (identity \<and> sameAuthority (bn_authority (rg_binding entry)) authority))"

abbreviation identity_mismatch :: js_error where
  "identity_mismatch \<equiv> Diagnostic ''LIFECYCLE_INSTANCE_IDENTITY_MISMATCH''"

abbreviation transition_invalid :: js_error where
  "transition_invalid \<equiv> Diagnostic ''LIFECYCLE_TRANSITION_INVALID''"

abbreviation component_mismatch :: js_error where
  "component_mismatch \<equiv> Diagnostic ''LIFECYCLE_COMPONENT_IDENTITY_MISMATCH''"

definition assertMatches ::
  "reconcile_effect \<Rightarrow> registered_component \<Rightarrow> runtime_authority option \<Rightarrow> unit result" where
  "assertMatches e entry authority =
     and_then (entry_matches e entry authority) (\<lambda>ok. if ok then Inr () else Inl identity_mismatch)"

text \<open>The manifest entry of the component must have the descriptor's text; equal texts include equal entry points.\<close>

definition assertBinding ::
  "reconcile_effect \<Rightarrow> component_binding \<Rightarrow> runtime_authority option \<Rightarrow> unit result" where
  "assertBinding e b authority =
     (if bn_instanceId b \<noteq> re_instanceId e \<or> bn_activation b \<noteq> re_activation e \<or> bn_executor b \<noteq> re_executor e \<or>
         bn_workerId b \<noteq> re_workerId e \<or> pa_digest (bn_artifact b) \<noteq> re_artifactDigest e \<or>
         pd_applicationId (bn_deployment b) \<noteq> re_applicationId e \<or> pd_pluginId (bn_deployment b) \<noteq> re_pluginId e \<or>
         pd_generation (bn_deployment b) \<noteq> re_deploymentGeneration e \<or>
         pd_artifactDigest (bn_deployment b) \<noteq> re_artifactDigest e \<or>
         \<not> names_component (re_componentId e) (bn_component b) \<or>
         (case find (names_component (re_componentId e)) (pa_components (bn_artifact b)) of
            None \<Rightarrow> True
          | Some c \<Rightarrow> json_member ''entrypoint'' c \<noteq> json_member ''entrypoint'' (bn_component b) \<or>
              stringify c \<noteq> stringify (bn_component b)) \<or>
         \<not> runs_on (re_executor e) (bn_component b) \<or> \<not> sameAuthority (bn_authority b) authority
      then Inl component_mismatch else Inr ())"

section \<open>Operations\<close>

definition require_entry :: "jstring \<Rightarrow> component_registry \<Rightarrow> registered_component result" where
  "require_entry instanceId entries =
     (case map_of entries instanceId of
        None \<Rightarrow> Inl (Diagnostic ''LIFECYCLE_INSTANCE_MISSING'')
      | Some entry \<Rightarrow> Inr entry)"

definition set_entry ::
  "reconcile_effect \<Rightarrow> registered_component \<Rightarrow> component_registry \<Rightarrow> registered_component \<times> component_registry" where
  "set_entry e entry entries = (entry, AList.update (re_instanceId e) entry entries)"

definition prepared_entry ::
  "component_binding \<Rightarrow> runtime_authority option \<Rightarrow> registered_component" where
  "prepared_entry b authority =
     \<lparr>rg_binding = b\<lparr>bn_authority := authority\<rparr>, rg_state = BindingPrepared, rg_acceptingTasks = False,
      rg_hostStopped = False, rg_artifactReleased = False\<rparr>"

definition register ::
  "reconcile_effect \<Rightarrow> component_binding \<Rightarrow> runtime_authority option \<Rightarrow> component_registry \<Rightarrow>
   (registered_component \<times> component_registry) result" where
  "register e b authority entries =
     and_then (parseActivation (JStr (re_activation e))) (\<lambda>_.
     and_then (parseActivation (JStr (bn_activation b))) (\<lambda>_.
     and_then (assertBinding e b authority) (\<lambda>_.
       case map_of entries (re_instanceId e) of
         Some existing \<Rightarrow>
           and_then (assertMatches e existing authority) (\<lambda>_.
             let known = bn_component (rg_binding existing)
             in if json_member ''componentId'' known \<noteq> json_member ''componentId'' (bn_component b) \<or>
                   json_member ''entrypoint'' known \<noteq> json_member ''entrypoint'' (bn_component b) \<or>
                   stringify known \<noteq> stringify (bn_component b)
                then Inl component_mismatch else Inr (existing, entries))
       | None \<Rightarrow> Inr (set_entry e (prepared_entry b authority) entries))))"

definition transition ::
  "reconcile_effect \<Rightarrow> binding_state \<Rightarrow> binding_state \<Rightarrow> runtime_authority option \<Rightarrow> component_registry \<Rightarrow>
   (registered_component \<times> component_registry) result" where
  "transition e current next authority entries =
     and_then (require_entry (re_instanceId e) entries) (\<lambda>entry.
     and_then (assertMatches e entry authority) (\<lambda>_.
       if rg_state entry \<noteq> current then Inl transition_invalid
       else Inr (set_entry e (entry\<lparr>rg_state := next, rg_acceptingTasks := (next = BindingActive)\<rparr>) entries)))"

definition remove_entry ::
  "reconcile_effect \<Rightarrow> runtime_authority option \<Rightarrow> component_registry \<Rightarrow>
   (registered_component \<times> component_registry) result" where
  "remove_entry e authority entries =
     and_then (require_entry (re_instanceId e) entries) (\<lambda>entry.
     and_then (assertMatches e entry authority) (\<lambda>_.
       if rg_state entry = BindingStopping \<and> (\<not> rg_hostStopped entry \<or> \<not> rg_artifactReleased entry)
       then Inl (Diagnostic ''LIFECYCLE_STOP_INCOMPLETE'')
       else Inr (entry, AList.delete (re_instanceId e) entries)))"

definition updateStopProgress ::
  "reconcile_effect \<Rightarrow> bool \<Rightarrow> bool \<Rightarrow> runtime_authority option \<Rightarrow> component_registry \<Rightarrow>
   (registered_component \<times> component_registry) result" where
  "updateStopProgress e hostStopped artifactReleased authority entries =
     and_then (require_entry (re_instanceId e) entries) (\<lambda>entry.
     and_then (assertMatches e entry authority) (\<lambda>_.
       if rg_state entry \<noteq> BindingStopping then Inl transition_invalid
       else Inr (set_entry e
         (entry\<lparr>rg_hostStopped := rg_hostStopped entry \<or> hostStopped,
                rg_artifactReleased := rg_artifactReleased entry \<or> artifactReleased\<rparr>) entries)))"

text \<open>Epochs are decimal texts; \<open>BigInt\<close> of one is its value.\<close>

definition newer_authority :: "runtime_authority option \<Rightarrow> runtime_authority option \<Rightarrow> bool" where
  "newer_authority old new =
     (case (old, new) of
        (Some a, Some b) \<Rightarrow> au_resource a = au_resource b \<and> decimal_value (au_epoch b) > decimal_value (au_epoch a)
      | _ \<Rightarrow> False)"

definition takeoverStopping ::
  "reconcile_effect \<Rightarrow> runtime_authority option \<Rightarrow> component_registry \<Rightarrow>
   (registered_component \<times> component_registry) result" where
  "takeoverStopping e authority entries =
     and_then (require_entry (re_instanceId e) entries) (\<lambda>entry.
       if rg_state entry \<noteq> BindingStopping then Inl transition_invalid
       else and_then (matchesIdentity e entry) (\<lambda>ok.
         if \<not> ok then Inl identity_mismatch
         else if \<not> newer_authority (bn_authority (rg_binding entry)) authority then Inl identity_mismatch
         else Inr (set_entry e
           (entry\<lparr>rg_binding := (rg_binding entry)\<lparr>bn_authority := authority\<rparr>\<rparr>) entries)))"

section \<open>What the operations keep\<close>

text \<open>A registered binding has a canonical activation and names its component.\<close>

definition binding_ok :: "component_binding \<Rightarrow> bool" where
  "binding_ok b \<longleftrightarrow> parseActivation (JStr (bn_activation b)) = Inr (bn_activation b) \<and>
     (\<exists>componentId. names_component componentId (bn_component b))"

text \<open>An entry accepts tasks exactly while it is active, and its cleanup is recorded only while it stops.\<close>

definition entry_ok :: "registered_component \<Rightarrow> bool" where
  "entry_ok entry \<longleftrightarrow> binding_ok (rg_binding entry) \<and> (rg_acceptingTasks entry \<longleftrightarrow> rg_state entry = BindingActive) \<and>
     (rg_state entry \<noteq> BindingStopping \<longrightarrow> \<not> rg_hostStopped entry \<and> \<not> rg_artifactReleased entry)"

definition registry_ok :: "component_registry \<Rightarrow> bool" where
  "registry_ok entries \<longleftrightarrow> map_ok entries \<and>
     (\<forall>(i, entry) \<in> set entries. bn_instanceId (rg_binding entry) = i \<and> entry_ok entry)"

lemma registry_ok_Nil [simp]: "registry_ok []"
  by (simp add: registry_ok_def)

lemma registry_ok_get:
  "registry_ok entries \<Longrightarrow> map_of entries i = Some entry \<Longrightarrow> bn_instanceId (rg_binding entry) = i \<and> entry_ok entry"
  by (auto simp: registry_ok_def dest: map_of_SomeD)

lemma registry_ok_update:
  assumes "registry_ok entries" and "bn_instanceId (rg_binding entry) = i" and "entry_ok entry"
  shows "registry_ok (AList.update i entry entries)"
proof -
  have "set (AList.update i entry entries) \<subseteq> insert (i, entry) (set entries)"
    by (induction entries) auto
  with assms show ?thesis by (fastforce simp: registry_ok_def)
qed

lemma registry_ok_delete: "registry_ok entries \<Longrightarrow> registry_ok (AList.delete i entries)"
  using map_ok_delete [of entries i] by (auto simp: registry_ok_def AList.delete_eq)

lemma sameAuthority_iff: "sameAuthority left right \<longleftrightarrow> left = right"
  by (cases left; cases right) (auto simp: sameAuthority_def)

text \<open>Matching looks at the binding only.\<close>

lemma assertMatches_updates [simp]:
  "assertMatches e (entry\<lparr>rg_state := state\<rparr>) authority = assertMatches e entry authority"
  "assertMatches e (entry\<lparr>rg_acceptingTasks := accepting\<rparr>) authority = assertMatches e entry authority"
  "assertMatches e (entry\<lparr>rg_hostStopped := stopped\<rparr>) authority = assertMatches e entry authority"
  "assertMatches e (entry\<lparr>rg_artifactReleased := released\<rparr>) authority = assertMatches e entry authority"
  by (simp_all add: assertMatches_def entry_matches_def matchesIdentity_def Let_def)

lemma assertMatches_Inr:
  assumes "assertMatches e entry authority = Inr u"
  shows "bn_instanceId (rg_binding entry) = re_instanceId e" and "bn_authority (rg_binding entry) = authority"
    and "pa_digest (bn_artifact (rg_binding entry)) = re_artifactDigest e"
  using assms
  by (auto simp: assertMatches_def entry_matches_def matchesIdentity_def Let_def identity_fields_match_def
      sameAuthority_iff split: if_splits)

lemma require_entry_Inr: "require_entry i entries = Inr entry \<longleftrightarrow> map_of entries i = Some entry"
  by (simp add: require_entry_def split: option.splits)

lemma transition_Inr:
  "transition e current next authority entries = Inr (entry', entries') \<longleftrightarrow>
   (\<exists>entry. map_of entries (re_instanceId e) = Some entry \<and> assertMatches e entry authority = Inr () \<and>
      rg_state entry = current \<and> entry' = entry\<lparr>rg_state := next, rg_acceptingTasks := (next = BindingActive)\<rparr> \<and>
      entries' = AList.update (re_instanceId e) entry' entries)"
  by (auto simp: transition_def require_entry_Inr set_entry_def split: if_splits)

lemma updateStopProgress_Inr:
  "updateStopProgress e hostStopped artifactReleased authority entries = Inr (entry', entries') \<longleftrightarrow>
   (\<exists>entry. map_of entries (re_instanceId e) = Some entry \<and> assertMatches e entry authority = Inr () \<and>
      rg_state entry = BindingStopping \<and>
      entry' = entry\<lparr>rg_hostStopped := rg_hostStopped entry \<or> hostStopped,
                     rg_artifactReleased := rg_artifactReleased entry \<or> artifactReleased\<rparr> \<and>
      entries' = AList.update (re_instanceId e) entry' entries)"
  by (auto simp: updateStopProgress_def require_entry_Inr set_entry_def split: if_splits)

lemma remove_entry_Inr:
  "remove_entry e authority entries = Inr (entry, entries') \<longleftrightarrow>
   map_of entries (re_instanceId e) = Some entry \<and> assertMatches e entry authority = Inr () \<and>
   (rg_state entry = BindingStopping \<longrightarrow> rg_hostStopped entry \<and> rg_artifactReleased entry) \<and>
   entries' = AList.delete (re_instanceId e) entries"
  by (auto simp: remove_entry_def require_entry_Inr split: if_splits)

lemma takeoverStopping_Inr:
  "takeoverStopping e authority entries = Inr (entry', entries') \<longleftrightarrow>
   (\<exists>entry. map_of entries (re_instanceId e) = Some entry \<and> rg_state entry = BindingStopping \<and>
      matchesIdentity e entry = Inr True \<and> newer_authority (bn_authority (rg_binding entry)) authority \<and>
      entry' = entry\<lparr>rg_binding := (rg_binding entry)\<lparr>bn_authority := authority\<rparr>\<rparr> \<and>
      entries' = AList.update (re_instanceId e) entry' entries)"
  by (auto simp: takeoverStopping_def require_entry_Inr set_entry_def split: if_splits)

lemma executionBinding_authority [simp]:
  "bn_executionBinding (b\<lparr>bn_authority := authority\<rparr>) = bn_executionBinding b"
  by (cases b) simp

lemma matchesIdentity_authority:
  "matchesIdentity e (entry\<lparr>rg_binding := (rg_binding entry)\<lparr>bn_authority := authority\<rparr>\<rparr>) = matchesIdentity e entry"
  by (simp add: matchesIdentity_def Let_def identity_fields_match_def execution_binding_matches_def split: option.split)

text \<open>A takeover leaves an entry that matches under the new authority.\<close>

lemma takeover_matches:
  "matchesIdentity e entry = Inr True \<Longrightarrow>
   assertMatches e (entry\<lparr>rg_binding := (rg_binding entry)\<lparr>bn_authority := authority\<rparr>\<rparr>) authority = Inr ()"
  by (simp add: assertMatches_def entry_matches_def matchesIdentity_authority sameAuthority_iff)

end
