(* ===== verification/Result_Run.thy ===== *)
theory Result_Run
  imports Prelude
begin

text \<open>
  Operations that may throw over an explicit state: an operation that throws keeps what it did to the state
  before. The \<open>rely_guarantee\<close> logic is for operations that pause at every \<open>await\<close>, where others run: each
  pause applies the next of a list of changes the others make. The asynchronous components use it.
\<close>

type_synonym ('s, 'a) run = "'s \<Rightarrow> 'a result \<times> 's"

definition run_return :: "'a \<Rightarrow> ('s, 'a) run" where
  "run_return x s = (Inr x, s)"

definition run_result :: "'a result \<Rightarrow> ('s, 'a) run" where
  "run_result r s = (r, s)"

definition run_then :: "('s, 'a) run \<Rightarrow> ('a \<Rightarrow> ('s, 'b) run) \<Rightarrow> ('s, 'b) run" where
  "run_then m f s = (case m s of (Inl e, s') \<Rightarrow> (Inl e, s') | (Inr x, s') \<Rightarrow> f x s')"

definition run_catch :: "('s, 'a) run \<Rightarrow> (js_error \<Rightarrow> ('s, 'a) run) \<Rightarrow> ('s, 'a) run" where
  "run_catch m handler s = (case m s of (Inl e, s') \<Rightarrow> handler e s' | (Inr x, s') \<Rightarrow> (Inr x, s'))"

section \<open>Runs with interference\<close>

type_synonym ('w, 'a) paused_run = "(('w \<Rightarrow> 'w) list \<times> 'w, 'a) run"

definition run_await :: "('w, unit) paused_run" where
  "run_await = (\<lambda>(changes, w). (Inr (), (tl changes, (case changes of [] \<Rightarrow> w | change # _ \<Rightarrow> change w))))"

definition run_world :: "('w, 'w) paused_run" where
  "run_world = (\<lambda>(changes, w). (Inr w, (changes, w)))"

definition run_change :: "('w \<Rightarrow> 'w) \<Rightarrow> ('w, unit) paused_run" where
  "run_change f = (\<lambda>(changes, w). (Inr (), (changes, f w)))"

text \<open>A synchronous step that reads the state and may change it or throw.\<close>

definition run_step :: "('w \<Rightarrow> ('a \<times> 'w) result) \<Rightarrow> ('w, 'a) paused_run" where
  "run_step f = (\<lambda>(changes, w). case f w of Inl e \<Rightarrow> (Inl e, (changes, w)) | Inr (x, w') \<Rightarrow> (Inr x, (changes, w')))"

definition run_check :: "('w \<Rightarrow> 'a result) \<Rightarrow> ('w, 'a) paused_run" where
  "run_check f = run_step (\<lambda>w. and_then (f w) (\<lambda>x. Inr (x, w)))"

text \<open>An answer from outside, which arrives after others ran.\<close>

definition run_paused :: "'a result \<Rightarrow> ('w, 'a) paused_run" where
  "run_paused r = run_then run_await (\<lambda>_. run_result r)"

text \<open>\<open>finally\<close>: the second operation does not throw.\<close>

definition run_finally :: "('w, 'a) paused_run \<Rightarrow> ('w \<Rightarrow> 'w) \<Rightarrow> ('w, 'a) paused_run" where
  "run_finally m f = (\<lambda>s. case m s of (r, (changes, w)) \<Rightarrow> (r, (changes, f w)))"

locale rely_guarantee =
  fixes later :: "'w \<Rightarrow> 'w \<Rightarrow> bool"
    and sound :: "'w \<Rightarrow> bool"
  assumes later_refl: "later w w"
    and later_trans: "later u v \<Longrightarrow> later v w \<Longrightarrow> later u w"
begin

definition relied :: "('w \<Rightarrow> 'w) list \<Rightarrow> bool" where
  "relied changes \<longleftrightarrow> (\<forall>f \<in> set changes. \<forall>w. sound w \<longrightarrow> later w (f w) \<and> sound (f w))"

definition stable :: "('w \<Rightarrow> bool) \<Rightarrow> bool" where
  "stable P \<longleftrightarrow> (\<forall>w w'. P w \<longrightarrow> later w w' \<longrightarrow> P w')"

text \<open>Started where \<open>P\<close> holds, the operation guarantees \<open>later\<close> and \<open>sound\<close>, and \<open>Q\<close> of what it returns.\<close>

definition triple :: "('w \<Rightarrow> bool) \<Rightarrow> ('w, 'a) paused_run \<Rightarrow> ('a \<Rightarrow> 'w \<Rightarrow> bool) \<Rightarrow> bool" where
  "triple P m Q \<longleftrightarrow>
     (\<forall>changes w r changes' w'. relied changes \<longrightarrow> sound w \<longrightarrow> P w \<longrightarrow> m (changes, w) = (r, (changes', w')) \<longrightarrow>
        relied changes' \<and> sound w' \<and> later w w' \<and> (\<forall>x. r = Inr x \<longrightarrow> Q x w'))"

lemma tripleI:
  assumes "\<And>changes w r changes' w'. relied changes \<Longrightarrow> sound w \<Longrightarrow> P w \<Longrightarrow> m (changes, w) = (r, (changes', w')) \<Longrightarrow>
    relied changes' \<and> sound w' \<and> later w w' \<and> (\<forall>x. r = Inr x \<longrightarrow> Q x w')"
  shows "triple P m Q"
  using assms unfolding triple_def by blast

lemma tripleD:
  assumes "triple P m Q" and "relied changes" and "sound w" and "P w" and "m (changes, w) = (r, (changes', w'))"
  shows "relied changes'" and "sound w'" and "later w w'" and "r = Inr x \<Longrightarrow> Q x w'"
  using assms unfolding triple_def by blast+

lemma triple_weaken: "triple P m Q \<Longrightarrow> (\<And>w. P' w \<Longrightarrow> P w) \<Longrightarrow> (\<And>x w. Q x w \<Longrightarrow> Q' x w) \<Longrightarrow> triple P' m Q'"
  unfolding triple_def by blast

lemma triple_return: "(\<And>w. P w \<Longrightarrow> Q x w) \<Longrightarrow> triple P (run_return x) Q"
  by (rule tripleI) (auto simp: run_return_def later_refl)

lemma triple_result: "(\<And>x w. r = Inr x \<Longrightarrow> P w \<Longrightarrow> Q x w) \<Longrightarrow> triple P (run_result r) Q"
  by (rule tripleI) (auto simp: run_result_def later_refl)

lemma triple_throw: "triple P (run_result (Inl e)) Q"
  by (rule triple_result) simp

lemma triple_world: "triple P run_world (\<lambda>x w. P w \<and> x = w)"
  by (rule tripleI) (auto simp: run_world_def later_refl)

lemma triple_change:
  "(\<And>w. sound w \<Longrightarrow> P w \<Longrightarrow> sound (f w) \<and> later w (f w) \<and> Q () (f w)) \<Longrightarrow> triple P (run_change f) Q"
  by (rule tripleI) (auto simp: run_change_def)

lemma triple_step:
  "(\<And>w x w'. sound w \<Longrightarrow> P w \<Longrightarrow> f w = Inr (x, w') \<Longrightarrow> sound w' \<and> later w w' \<and> Q x w') \<Longrightarrow> triple P (run_step f) Q"
  by (rule tripleI) (auto simp: run_step_def later_refl split: sum.splits)

lemma triple_check: "(\<And>w x. sound w \<Longrightarrow> P w \<Longrightarrow> f w = Inr x \<Longrightarrow> Q x w) \<Longrightarrow> triple P (run_check f) Q"
  unfolding run_check_def by (rule triple_step) (auto simp: and_then_def later_refl split: sum.splits)

lemma triple_await: "stable P \<Longrightarrow> triple P run_await (\<lambda>_. P)"
  by (rule tripleI) (auto simp: run_await_def relied_def stable_def later_refl split: list.splits)

lemma triple_then:
  assumes "triple P m R" and "\<And>x. triple (R x) (f x) Q"
  shows "triple P (run_then m f) Q"
proof (rule tripleI)
  fix changes w r changes' w'
  assume start: "relied changes" "sound w" "P w" and run: "run_then m f (changes, w) = (r, (changes', w'))"
  obtain r1 c1 w1 where m: "m (changes, w) = (r1, (c1, w1))" by (metis prod_cases3)
  note m' = tripleD [OF assms(1) start m]
  show "relied changes' \<and> sound w' \<and> later w w' \<and> (\<forall>x. r = Inr x \<longrightarrow> Q x w')"
  proof (cases r1)
    case (Inl e)
    with m run m' show ?thesis by (auto simp: run_then_def)
  next
    case (Inr x)
    with m run have "f x (c1, w1) = (r, (changes', w'))" by (simp add: run_then_def)
    from tripleD [OF assms(2) m'(1,2) m'(4) [OF Inr] this] m'(3) show ?thesis by (blast intro: later_trans)
  qed
qed

lemma triple_paused: "stable P \<Longrightarrow> triple P (run_paused r) (\<lambda>_. P)"
  unfolding run_paused_def by (rule triple_then [OF triple_await]) (auto intro: triple_result)

lemma triple_catch:
  assumes "triple P m Q" and "stable P" and "\<And>e. triple P (handler e) Q"
  shows "triple P (run_catch m handler) Q"
proof (rule tripleI)
  fix changes w r changes' w'
  assume start: "relied changes" "sound w" "P w" and run: "run_catch m handler (changes, w) = (r, (changes', w'))"
  obtain r1 c1 w1 where m: "m (changes, w) = (r1, (c1, w1))" by (metis prod_cases3)
  note m' = tripleD [OF assms(1) start m]
  show "relied changes' \<and> sound w' \<and> later w w' \<and> (\<forall>x. r = Inr x \<longrightarrow> Q x w')"
  proof (cases r1)
    case (Inl e)
    with m run have "handler e (c1, w1) = (r, (changes', w'))" by (simp add: run_catch_def)
    moreover have "P w1" using assms(2) start(3) m'(3) by (auto simp: stable_def)
    ultimately show ?thesis using tripleD [OF assms(3) m'(1,2)] m'(3) by (blast intro: later_trans)
  next
    case (Inr x)
    with m run m' show ?thesis by (auto simp: run_catch_def)
  qed
qed

lemma triple_finally:
  assumes "triple P m Q" and "\<And>w. sound w \<Longrightarrow> sound (f w) \<and> later w (f w)" and "\<And>x w. Q x w \<Longrightarrow> Q' x (f w)"
  shows "triple P (run_finally m f) Q'"
proof (rule tripleI)
  fix changes w r changes' w'
  assume start: "relied changes" "sound w" "P w" and run: "run_finally m f (changes, w) = (r, (changes', w'))"
  obtain r1 c1 w1 where m: "m (changes, w) = (r1, (c1, w1))" by (metis prod_cases3)
  note m' = tripleD [OF assms(1) start m]
  from m run have "r = r1" "changes' = c1" "w' = f w1" by (simp_all add: run_finally_def)
  with m' assms(2) [OF m'(2)] assms(3) show "relied changes' \<and> sound w' \<and> later w w' \<and> (\<forall>x. r = Inr x \<longrightarrow> Q' x w')"
    by (blast intro: later_trans)
qed

lemma triple_if: "(b \<Longrightarrow> triple P m Q) \<Longrightarrow> (\<not> b \<Longrightarrow> triple P n Q) \<Longrightarrow> triple P (if b then m else n) Q"
  by simp

text \<open>A stable fact that holds before still holds after.\<close>

lemma triple_frame:
  assumes "triple P m Q" and "stable F"
  shows "triple (\<lambda>w. P w \<and> F w) m (\<lambda>x w. Q x w \<and> F w)"
proof (rule tripleI)
  fix changes w r changes' w'
  assume start: "relied changes" "sound w" "P w \<and> F w" and run: "m (changes, w) = (r, (changes', w'))"
  note m' = tripleD [OF assms(1) start(1,2) _ run]
  show "relied changes' \<and> sound w' \<and> later w w' \<and> (\<forall>x. r = Inr x \<longrightarrow> Q x w' \<and> F w')"
    using m' start(3) assms(2) unfolding stable_def by blast
qed

end

end
