(* ===== verification/Component_Effects.thy ===== *)
theory Component_Effects
  imports Component_Registry Result_Run
begin

text \<open>
  The executor of reconcile effects (\<open>packages/runtime/src/components/component-effects.ts\<close>): prepare, start,
  drain, stop, the restorations and the closing of an authority, over the registry, the lifecycle host and the
  references of the prepared artifact cache (\<open>prepared-artifact-cache.ts\<close>, \<open>prepare\<close> and \<open>release\<close>). The
  model runs one operation after another; what an awaited call answers, and the authority that holds when it
  returns, are given by \<open>effect_answers\<close>. Operations in flight at once, which the source joins, are not modelled.
\<close>

section \<open>State\<close>

datatype host_call = HostPrepare jstring | HostStart jstring | HostDrain jstring | HostRestore jstring | HostStop jstring

datatype cached_status = OperationPending | OperationSucceeded "json option"

record cached_operation =
  op_fingerprint :: jstring
  op_instanceId :: jstring
  op_authority :: "runtime_authority option"
  op_status :: cached_status

text \<open>\<open>fx_calls\<close> records the calls to the host and whether they succeeded, in order; the source keeps no such log.\<close>

record effects_state =
  fx_registry :: component_registry
  fx_operations :: "(jstring, cached_operation) jsmap"
  fx_fingerprints :: "(jstring, jstring \<times> jstring) jsmap"
  fx_stoppedOperations :: "jstring list"
  fx_failedOperations :: "jstring list"
  fx_closingAuthorities :: "jstring list"
  fx_closeAttempts :: "jstring list"
  fx_references :: "(jstring, nat) jsmap"
  fx_calls :: "(host_call \<times> bool) list"

definition new_effects :: effects_state where
  "new_effects =
     \<lparr>fx_registry = [], fx_operations = [], fx_fingerprints = [], fx_stoppedOperations = [], fx_failedOperations = [],
      fx_closingAuthorities = [], fx_closeAttempts = [], fx_references = [], fx_calls = []\<rparr>"

record effect_answers =
  fa_authority :: "runtime_authority option"
  fa_resolved :: "(plugin_deployment \<times> prepared_artifact) option result"
  fa_prepared :: "prepared_artifact result"
  fa_authorityPrepared :: "runtime_authority option"
  fa_binding :: "json result"
  fa_started :: "unit result"
  fa_drained :: "unit result"
  fa_restored :: "unit result"
  fa_authorityAfter :: "runtime_authority option"
  fa_stopped :: "unit result"

section \<open>Sequencing\<close>

type_synonym 'a effect_run = "(effects_state, 'a) run"

definition on_registry :: "(component_registry \<Rightarrow> ('a \<times> component_registry) result) \<Rightarrow> 'a effect_run" where
  "on_registry f s =
     (case f (fx_registry s) of Inl e \<Rightarrow> (Inl e, s) | Inr (x, entries) \<Rightarrow> (Inr x, s\<lparr>fx_registry := entries\<rparr>))"

definition require_component :: "jstring \<Rightarrow> registered_component effect_run" where
  "require_component instanceId s = (require_entry instanceId (fx_registry s), s)"

definition host_calls :: "host_call \<Rightarrow> 'a result \<Rightarrow> 'a effect_run" where
  "host_calls c answer s = (answer, s\<lparr>fx_calls := fx_calls s @ [(c, case answer of Inl _ \<Rightarrow> False | Inr _ \<Rightarrow> True)]\<rparr>)"

section \<open>References of the prepared artifacts\<close>

definition references :: "jstring \<Rightarrow> effects_state \<Rightarrow> nat" where
  "references digest s = (case map_of (fx_references s) digest of None \<Rightarrow> 0 | Some n \<Rightarrow> n)"

definition acquire_artifact :: "jstring \<Rightarrow> prepared_artifact result \<Rightarrow> prepared_artifact effect_run" where
  "acquire_artifact digest answer s =
     (case answer of
        Inl e \<Rightarrow> (Inl e, s)
      | Inr artifact \<Rightarrow>
          (Inr artifact, s\<lparr>fx_references := AList.update digest (references digest s + 1) (fx_references s)\<rparr>))"

definition release_artifact :: "jstring \<Rightarrow> unit effect_run" where
  "release_artifact digest s =
     (if references digest s = 0 then (Inl (Diagnostic ''ARTIFACT_REFERENCE_INVALID''), s)
      else (Inr (), s\<lparr>fx_references := AList.update digest (references digest s - 1) (fx_references s)\<rparr>))"

section \<open>Bookkeeping of operations\<close>

definition MAX_STOPPED_OPERATIONS :: nat where
  "MAX_STOPPED_OPERATIONS = 256"

definition MAX_FAILED_OPERATIONS :: nat where
  "MAX_FAILED_OPERATIONS = 256"

definition effectFingerprint :: "reconcile_effect \<Rightarrow> jstring" where
  "effectFingerprint e = stringify (JArr
     [JStr (kind_name (re_kind e)), JStr (re_instanceId e), JStr (re_applicationId e), JStr (re_pluginId e),
      JStr (re_componentId e), JStr (re_deploymentGeneration e), JStr (re_activation e), JStr (re_artifactDigest e),
      JStr (executor_text (re_executor e)), (case re_workerId e of None \<Rightarrow> JNull | Some w \<Rightarrow> JStr w),
      (case re_executionBinding e of None \<Rightarrow> JNull | Some b \<Rightarrow> b), JStr (re_messageId e)])"

text \<open>Both loops drop the oldest entries beyond their limit.\<close>

definition trim_stopped :: "effects_state \<Rightarrow> effects_state" where
  "trim_stopped s =
     (let excess = length (fx_stoppedOperations s) - MAX_STOPPED_OPERATIONS;
          expired = take excess (fx_stoppedOperations s)
      in s\<lparr>fx_stoppedOperations := drop excess (fx_stoppedOperations s),
           fx_operations := filter (\<lambda>(k, _). k \<notin> set expired) (fx_operations s),
           fx_fingerprints := filter (\<lambda>(k, _). k \<notin> set expired) (fx_fingerprints s)\<rparr>)"

definition forgetInstanceOperations :: "jstring \<Rightarrow> jstring \<Rightarrow> effects_state \<Rightarrow> effects_state" where
  "forgetInstanceOperations instanceId retained s =
     (let forgotten = map fst (filter (\<lambda>(k, operation). op_instanceId operation = instanceId \<and> k \<noteq> retained) (fx_operations s))
      in trim_stopped (s\<lparr>
           fx_operations := filter (\<lambda>(k, _). k \<notin> set forgotten) (fx_operations s),
           fx_fingerprints :=
             filter (\<lambda>(k, known). k \<notin> set forgotten \<and> \<not> (snd known = instanceId \<and> k \<noteq> retained)) (fx_fingerprints s),
           fx_stoppedOperations := fx_stoppedOperations s @ [retained]\<rparr>))"

definition retainFailedOperation :: "jstring \<Rightarrow> effects_state \<Rightarrow> effects_state" where
  "retainFailedOperation operationId s =
     (let failed = fx_failedOperations s @ [operationId]; excess = length failed - MAX_FAILED_OPERATIONS;
          expired = take excess failed
      in s\<lparr>fx_failedOperations := drop excess failed,
           fx_fingerprints :=
             filter (\<lambda>(k, _). k \<notin> set expired \<or> k \<in> fst ` set (fx_operations s)) (fx_fingerprints s)\<rparr>)"

definition removeFailedOperation :: "jstring \<Rightarrow> effects_state \<Rightarrow> effects_state" where
  "removeFailedOperation operationId s = s\<lparr>fx_failedOperations := remove1 operationId (fx_failedOperations s)\<rparr>"

definition authority_prefix :: "runtime_authority option \<Rightarrow> jstring" where
  "authority_prefix authority =
     (case authority of None \<Rightarrow> [0, 0] | Some a \<Rightarrow> au_resource a @ [0] @ au_epoch a @ [0])"

abbreviation authority_lost :: js_error where
  "authority_lost \<equiv> Diagnostic ''LIFECYCLE_AUTHORITY_LOST''"

abbreviation host_unavailable :: js_error where
  "host_unavailable \<equiv> Diagnostic ''LIFECYCLE_COMPONENT_HOST_UNAVAILABLE''"

section \<open>Preparing\<close>

definition deployment_resolved :: "reconcile_effect \<Rightarrow> (plugin_deployment \<times> prepared_artifact) option \<Rightarrow> bool" where
  "deployment_resolved e resolved =
     (case resolved of
        None \<Rightarrow> False
      | Some (d, artifact) \<Rightarrow>
          pa_digest artifact = re_artifactDigest e \<and> pa_pluginId artifact = re_pluginId e \<and>
          pd_applicationId d = re_applicationId e \<and> pd_pluginId d = re_pluginId e \<and>
          pd_generation d = re_deploymentGeneration e \<and> pd_artifactDigest d = re_artifactDigest e)"

definition selected_component ::
  "reconcile_effect \<Rightarrow> prepared_artifact \<Rightarrow> prepared_artifact \<Rightarrow> json result" where
  "selected_component e validated artifact =
     (case (find (names_component (re_componentId e)) (pa_components validated),
            find (names_component (re_componentId e)) (pa_components artifact)) of
        (Some v, Some p) \<Rightarrow>
          if pa_digest artifact \<noteq> re_artifactDigest e \<or> pa_pluginId artifact \<noteq> re_pluginId e \<or>
             stringify v \<noteq> stringify p \<or> \<not> runs_on (re_executor e) v
          then Inl (Diagnostic ''LIFECYCLE_ARTIFACT_IDENTITY_MISMATCH'') else Inr v
      | _ \<Rightarrow> Inl (Diagnostic ''LIFECYCLE_ARTIFACT_IDENTITY_MISMATCH''))"

definition effect_worker :: "reconcile_effect \<Rightarrow> jstring option result" where
  "effect_worker e =
     (case re_workerId e of None \<Rightarrow> Inr None | Some w \<Rightarrow> and_then (parseIdentity (JStr w)) (\<lambda>x. Inr (Some x)))"

text \<open>The \<open>try\<close> block of \<open>#prepare\<close>, once the artifact is acquired.\<close>

definition bind_component ::
  "effect_answers \<Rightarrow> reconcile_effect \<Rightarrow> runtime_authority option \<Rightarrow> plugin_deployment \<Rightarrow> prepared_artifact \<Rightarrow>
   prepared_artifact \<Rightarrow> json effect_run" where
  "bind_component a e authority d validated artifact =
     (if fa_authorityPrepared a \<noteq> authority then run_result (Inl authority_lost)
      else
        run_then (run_result (selected_component e validated artifact)) (\<lambda>component.
        run_then (run_result (effect_worker e)) (\<lambda>worker.
        run_then (host_calls (HostPrepare (re_instanceId e)) (fa_binding a)) (\<lambda>executionBinding.
        run_then (on_registry (register e
            \<lparr>bn_instanceId = re_instanceId e, bn_activation = re_activation e, bn_executor = re_executor e,
             bn_workerId = worker, bn_artifact = artifact, bn_deployment = d, bn_component = component,
             bn_authority = authority, bn_executionBinding = executionBinding\<rparr> authority)) (\<lambda>_.
        run_return executionBinding)))))"

definition prepare_effect ::
  "effect_answers \<Rightarrow> reconcile_effect \<Rightarrow> runtime_authority option \<Rightarrow> json effect_run" where
  "prepare_effect a e authority s =
     (case map_of (fx_registry s) (re_instanceId e) of
        Some current \<Rightarrow>
          run_result (and_then (assertMatches e current authority) (\<lambda>_. Inr (bn_executionBinding (rg_binding current)))) s
      | None \<Rightarrow>
          (case fa_resolved a of
             Inl err \<Rightarrow> (Inl err, s)
           | Inr resolved \<Rightarrow>
               if \<not> deployment_resolved e resolved then (Inl (Diagnostic ''LIFECYCLE_DEPLOYMENT_IDENTITY_MISMATCH''), s)
               else (case resolved of
                 None \<Rightarrow> (Inl (Diagnostic ''LIFECYCLE_DEPLOYMENT_IDENTITY_MISMATCH''), s)
               | Some (d, validated) \<Rightarrow>
                   run_then (acquire_artifact (re_artifactDigest e) (fa_prepared a)) (\<lambda>artifact.
                     run_catch (bind_component a e authority d validated artifact) (\<lambda>err.
                       run_then
                         (run_catch (release_artifact (re_artifactDigest e))
                           (\<lambda>_. run_result (Inl (Diagnostic ''LIFECYCLE_PREPARE_ROLLBACK_FAILED''))))
                         (\<lambda>_. run_result (Inl err)))) s)))"

section \<open>Stopping\<close>

text \<open>Each cleanup step records its failure and goes on; the entry is the one the registry holds afterwards.\<close>

definition stop_host ::
  "effect_answers \<Rightarrow> reconcile_effect \<Rightarrow> runtime_authority option \<Rightarrow> registered_component \<times> js_error list \<Rightarrow>
   (registered_component \<times> js_error list) effect_run" where
  "stop_host a e authority progress =
     run_catch
       (run_then (host_calls (HostStop (re_instanceId e)) (fa_stopped a)) (\<lambda>_.
        run_then (on_registry (updateStopProgress e True False authority)) (\<lambda>entry. run_return (entry, snd progress))))
       (\<lambda>err. run_return (fst progress, snd progress @ [err]))"

definition stop_artifact ::
  "reconcile_effect \<Rightarrow> runtime_authority option \<Rightarrow> registered_component \<times> js_error list \<Rightarrow>
   (registered_component \<times> js_error list) effect_run" where
  "stop_artifact e authority progress =
     run_catch
       (run_then (release_artifact (re_artifactDigest e)) (\<lambda>_.
        run_then (on_registry (updateStopProgress e False True authority)) (\<lambda>entry. run_return (entry, snd progress))))
       (\<lambda>err. run_return (fst progress, snd progress @ [err]))"

definition remaining_cleanup ::
  "effect_answers \<Rightarrow> reconcile_effect \<Rightarrow> runtime_authority option \<Rightarrow> registered_component \<times> js_error list \<Rightarrow>
   (registered_component \<times> js_error list) effect_run" where
  "remaining_cleanup a e authority progress =
     run_then (if rg_hostStopped (fst progress) then run_return progress else stop_host a e authority progress) (\<lambda>progress.
       if rg_artifactReleased (fst progress) then run_return progress else stop_artifact e authority progress)"

definition forget_stopped :: "reconcile_effect \<Rightarrow> unit effect_run" where
  "forget_stopped e s = (Inr (), forgetInstanceOperations (re_instanceId e) (re_operationId e) s)"

definition remove_stopped :: "reconcile_effect \<Rightarrow> runtime_authority option \<Rightarrow> unit effect_run" where
  "remove_stopped e authority =
     run_then (on_registry (remove_entry e authority)) (\<lambda>_. forget_stopped e)"

text \<open>The four states of a binding all pass the first guard of \<open>#stop\<close>.\<close>

definition stop_effect ::
  "effect_answers \<Rightarrow> reconcile_effect \<Rightarrow> registered_component \<Rightarrow> runtime_authority option \<Rightarrow> unit effect_run" where
  "stop_effect a e entry authority =
     run_then (if rg_state entry = BindingStopping then run_return entry
               else on_registry (transition e (rg_state entry) BindingStopping authority)) (\<lambda>stopping.
     run_then (remaining_cleanup a e authority (stopping, [])) (\<lambda>(progress, failures).
       if failures \<noteq> [] then run_result (Inl (Diagnostic ''LIFECYCLE_STOP_FAILED''))
       else if \<not> rg_hostStopped progress \<or> \<not> rg_artifactReleased progress
       then run_result (Inl (Diagnostic ''LIFECYCLE_STOP_INCOMPLETE''))
       else remove_stopped e authority))"

definition cleanupAfterAuthorityLoss ::
  "effect_answers \<Rightarrow> reconcile_effect \<Rightarrow> registered_component \<Rightarrow> runtime_authority option \<Rightarrow> unit effect_run" where
  "cleanupAfterAuthorityLoss a e entry authority =
     run_then (on_registry (transition e (rg_state entry) BindingStopping authority)) (\<lambda>stopping.
     run_then (stop_host a e authority (stopping, [])) (\<lambda>progress.
     run_then (stop_artifact e authority progress) (\<lambda>(progress, failures).
     run_then (if rg_hostStopped progress \<and> rg_artifactReleased progress then remove_stopped e authority
               else run_return ()) (\<lambda>_.
       if failures \<noteq> [] then run_result (Inl (Diagnostic ''LIFECYCLE_AUTHORITY_CLEANUP_FAILED'')) else run_return ()))))"

section \<open>Performing\<close>

text \<open>A start or a drain: the host call, the check that the authority still holds, and the transition.\<close>

definition run_component ::
  "effect_answers \<Rightarrow> reconcile_effect \<Rightarrow> registered_component \<Rightarrow> runtime_authority option \<Rightarrow> host_call \<Rightarrow> unit result \<Rightarrow>
   binding_state \<Rightarrow> binding_state \<Rightarrow> unit effect_run" where
  "run_component a e entry authority c answer current next =
     run_then (host_calls c answer) (\<lambda>_.
       if fa_authorityAfter a \<noteq> authority
       then run_then (cleanupAfterAuthorityLoss a e entry authority) (\<lambda>_. run_result (Inl authority_lost))
       else run_then (on_registry (transition e current next authority)) (\<lambda>_. run_return ()))"

definition admitted_entry ::
  "reconcile_effect \<Rightarrow> runtime_authority option \<Rightarrow> registered_component effect_run" where
  "admitted_entry e authority s =
     (case require_entry (re_instanceId e) (fx_registry s) of
        Inl err \<Rightarrow> (Inl err, s)
      | Inr entry \<Rightarrow>
          if re_kind e = Stop \<and> rg_state entry = BindingStopping \<and>
             \<not> sameAuthority (bn_authority (rg_binding entry)) authority
          then on_registry (takeoverStopping e authority) s
          else run_result (and_then (assertMatches e entry authority) (\<lambda>_. Inr entry)) s)"

definition perform_effect ::
  "executor_kind list \<Rightarrow> effect_answers \<Rightarrow> reconcile_effect \<Rightarrow> runtime_authority option \<Rightarrow> json option effect_run" where
  "perform_effect supportedExecutors a e authority =
     (if re_executor e \<notin> set supportedExecutors then run_result (Inl (Diagnostic ''LIFECYCLE_EXECUTOR_UNSUPPORTED''))
      else if re_kind e = Prepare
      then run_then (prepare_effect a e authority) (\<lambda>executionBinding. run_return (Some executionBinding))
      else run_then (admitted_entry e authority) (\<lambda>entry.
        run_then
          (case re_kind e of
             Start \<Rightarrow>
               if rg_state entry \<noteq> BindingPrepared then run_result (Inl transition_invalid)
               else run_component a e entry authority (HostStart (re_instanceId e)) (fa_started a) BindingPrepared BindingActive
           | Drain \<Rightarrow>
               if rg_state entry \<noteq> BindingActive then run_result (Inl transition_invalid)
               else run_component a e entry authority (HostDrain (re_instanceId e)) (fa_drained a) BindingActive BindingDraining
           | _ \<Rightarrow> stop_effect a e entry authority)
          (\<lambda>_. run_return None)))"

text \<open>
  A known operation: its recorded result, or the refusal to replay it under another authority. Between two
  operations none is pending (\<open>no_pending\<close> in \<open>Component_Effects_Correct\<close>).
\<close>

definition replayed_operation ::
  "reconcile_effect \<Rightarrow> runtime_authority option \<Rightarrow> cached_operation \<Rightarrow> component_registry \<Rightarrow> json option result" where
  "replayed_operation e authority operation entries =
     (case op_status operation of
        OperationPending \<Rightarrow> Inl authority_lost
      | OperationSucceeded result \<Rightarrow>
          if \<not> sameAuthority (op_authority operation) authority \<and>
             \<not> (re_kind e = Stop \<and> map_of entries (re_instanceId e) = None)
          then Inl authority_lost else Inr result)"

definition begin_operation :: "reconcile_effect \<Rightarrow> runtime_authority option \<Rightarrow> effects_state \<Rightarrow> effects_state" where
  "begin_operation e authority s =
     (let s' = removeFailedOperation (re_operationId e) s; fingerprint = effectFingerprint e
      in s'\<lparr>fx_fingerprints := AList.update (re_operationId e) (fingerprint, re_instanceId e) (fx_fingerprints s'),
            fx_operations := AList.update (re_operationId e)
              \<lparr>op_fingerprint = fingerprint, op_instanceId = re_instanceId e, op_authority = authority,
               op_status = OperationPending\<rparr> (fx_operations s')\<rparr>)"

definition end_operation :: "jstring \<Rightarrow> json option result \<Rightarrow> effects_state \<Rightarrow> effects_state" where
  "end_operation operationId outcome s =
     (case map_of (fx_operations s) operationId of
        None \<Rightarrow> s
      | Some operation \<Rightarrow>
          (case outcome of
             Inr result \<Rightarrow>
               s\<lparr>fx_operations := AList.update operationId (operation\<lparr>op_status := OperationSucceeded result\<rparr>) (fx_operations s)\<rparr>
           | Inl _ \<Rightarrow>
               retainFailedOperation operationId (s\<lparr>fx_operations := AList.delete operationId (fx_operations s)\<rparr>)))"

definition perform ::
  "executor_kind list \<Rightarrow> effect_answers \<Rightarrow> reconcile_effect \<Rightarrow> json option effect_run" where
  "perform supportedExecutors a e s = (let authority = fa_authority a in
     case parseActivation (JStr (re_activation e)) of
        Inl err \<Rightarrow> (Inl err, s)
      | Inr _ \<Rightarrow>
          if authority_prefix authority \<in> set (fx_closingAuthorities s) then (Inl host_unavailable, s)
          else if (case map_of (fx_fingerprints s) (re_operationId e) of
                     Some known \<Rightarrow> fst known \<noteq> effectFingerprint e | None \<Rightarrow> False)
          then (Inl (Diagnostic ''LIFECYCLE_OPERATION_CONFLICT''), s)
          else (case map_of (fx_operations s) (re_operationId e) of
                  Some operation \<Rightarrow> (replayed_operation e authority operation (fx_registry s), s)
                | None \<Rightarrow>
                    (case perform_effect supportedExecutors a e authority (begin_operation e authority s) of
                       (outcome, s') \<Rightarrow> (outcome, end_operation (re_operationId e) outcome s'))))"

section \<open>Restoring\<close>

definition restoration_effect ::
  "(jstring \<Rightarrow> jstring) \<Rightarrow> component_instance \<Rightarrow> effect_kind \<Rightarrow> reconcile_effect result" where
  "restoration_effect sha256 i kind =
     (let lifecycle = ci_lifecycle i;
          retryingTermination = (kind = Stop \<and> lifecycle = CsFailed \<and>
            (ci_retryEffect i = Some Drain \<or> ci_retryEffect i = Some Stop))
      in case ci_artifactDigest i of
           None \<Rightarrow> Inl TypeError
         | Some artifactDigest \<Rightarrow>
             if (if kind = Prepare then lifecycle \<notin> {CsPreparing, CsStopping}
                 else lifecycle \<notin> {CsReady, CsDegraded, CsDraining, CsStopping} \<and> \<not> retryingTermination)
             then Inl TypeError
             else and_then (parseIdentity (JStr (js ''restore.'' @ kind_name kind @ js ''.'' @ sha256 (ci_instanceId i))))
               (\<lambda>identity. Inr
                 \<lparr>re_kind = kind, re_activation = ci_activation i, re_operationId = identity, re_messageId = identity,
                  re_instanceId = ci_instanceId i, re_applicationId = ci_applicationId i, re_pluginId = ci_pluginId i,
                  re_componentId = ci_componentId i, re_deploymentGeneration = ci_deploymentGeneration i,
                  re_artifactDigest = artifactDigest, re_executor = ci_executor i, re_workerId = ci_workerId i,
                  re_executionBinding = ci_executionBinding i\<rparr>))"

definition assertCurrentAuthority :: "effect_answers \<Rightarrow> runtime_authority option \<Rightarrow> unit result" where
  "assertCurrentAuthority a expected = (if fa_authority a \<noteq> expected then Inl authority_lost else Inr ())"

text \<open>The binding a restoration starts; \<open>None\<close> where the component already is as its instance says.\<close>

definition restorable_entry ::
  "effect_answers \<Rightarrow> component_instance \<Rightarrow> reconcile_effect \<Rightarrow> runtime_authority option \<Rightarrow>
   registered_component option effect_run" where
  "restorable_entry a i e authority s =
     (case map_of (fx_registry s) (ci_instanceId i) of
        Some entry \<Rightarrow>
          run_result (and_then (assertMatches e entry authority) (\<lambda>_.
            if rg_state entry = BindingActive \<or> ci_lifecycle i = CsDraining \<and> rg_state entry = BindingDraining then Inr None
            else if rg_state entry \<noteq> BindingPrepared then Inl transition_invalid else Inr (Some entry))) s
      | None \<Rightarrow>
          run_then (prepare_effect a e authority) (\<lambda>_.
            run_then (require_component (ci_instanceId i)) (\<lambda>entry. run_return (Some entry))) s)"

definition restore_effect ::
  "effect_answers \<Rightarrow> component_instance \<Rightarrow> reconcile_effect \<Rightarrow> runtime_authority option \<Rightarrow> unit effect_run" where
  "restore_effect a i e authority =
     run_then (run_result (assertCurrentAuthority a authority)) (\<lambda>_.
       if re_kind e = Prepare then run_then (prepare_effect a e authority) (\<lambda>_. run_return ())
       else run_then (restorable_entry a i e authority) (\<lambda>restorable.
         case restorable of
           None \<Rightarrow> run_return ()
         | Some entry \<Rightarrow>
             run_component a e entry authority (HostStart (ci_instanceId i)) (fa_started a) BindingPrepared BindingActive))"

definition restore ::
  "(jstring \<Rightarrow> jstring) \<Rightarrow> effect_answers \<Rightarrow> component_instance \<Rightarrow> runtime_authority option \<Rightarrow> unit effect_run" where
  "restore sha256 a i authority s =
     (case and_then (parseActivation (JStr (ci_activation i))) (\<lambda>_.
             restoration_effect sha256 i
               (if ci_lifecycle i = CsPreparing \<or> ci_lifecycle i = CsStopping then Prepare else Start)) of
        Inl err \<Rightarrow> (Inl err, s)
      | Inr e \<Rightarrow>
          if authority_prefix authority \<in> set (fx_closingAuthorities s) then (Inl host_unavailable, s)
          else restore_effect a i e authority s)"

definition restoreTermination ::
  "(jstring \<Rightarrow> jstring) \<Rightarrow> effect_answers \<Rightarrow> component_instance \<Rightarrow> runtime_authority option \<Rightarrow> unit effect_run" where
  "restoreTermination sha256 a i authority =
     run_then (run_result (parseActivation (JStr (ci_activation i)))) (\<lambda>_.
     run_then (run_result (restoration_effect sha256 i Stop)) (\<lambda>e.
     run_then (run_result (assertCurrentAuthority a authority)) (\<lambda>_.
     run_then (prepare_effect a e authority) (\<lambda>_.
     run_then (require_component (ci_instanceId i)) (\<lambda>entry.
     run_then (run_result (assertMatches e entry authority)) (\<lambda>_.
       if rg_state entry = BindingStopping then run_return ()
       else if ci_lifecycle i \<notin> {CsReady, CsDegraded, CsDraining, CsStopping} \<and>
               \<not> (ci_lifecycle i = CsFailed \<and> (ci_retryEffect i = Some Drain \<or> ci_retryEffect i = Some Stop))
       then run_result (Inl transition_invalid)
       else run_then (host_calls (HostRestore (ci_instanceId i)) (fa_restored a)) (\<lambda>_.
            run_then (on_registry (transition e (rg_state entry) BindingStopping authority)) (\<lambda>_. run_return ()))))))))"

definition restoreStarting ::
  "executor_kind list \<Rightarrow> effect_answers \<Rightarrow> reconcile_effect \<Rightarrow> unit effect_run" where
  "restoreStarting supportedExecutors a e s =
     (if re_kind e \<noteq> Start then (Inl TypeError, s)
      else case parseActivation (JStr (re_activation e)) of
        Inl err \<Rightarrow> (Inl err, s)
      | Inr _ \<Rightarrow>
          if re_executor e \<notin> set supportedExecutors then (Inl (Diagnostic ''LIFECYCLE_EXECUTOR_UNSUPPORTED''), s)
          else if authority_prefix (fa_authority a) \<in> set (fx_closingAuthorities s) then (Inl host_unavailable, s)
          else run_then (prepare_effect a e (fa_authority a)) (\<lambda>_. run_return ()) s)"

definition isLive ::
  "(jstring \<Rightarrow> jstring) \<Rightarrow> runtime_authority option \<Rightarrow> component_instance \<Rightarrow> runtime_authority option \<Rightarrow>
   effects_state \<Rightarrow> bool result" where
  "isLive sha256 current i authority s =
     (if ci_artifactDigest i = None then Inr False
      else case map_of (fx_registry s) (ci_instanceId i) of
        None \<Rightarrow> Inr False
      | Some entry \<Rightarrow>
          if rg_state entry \<noteq> BindingActive then Inr False
          else and_then (restoration_effect sha256 i Start) (\<lambda>e.
            if current \<noteq> authority then Inr False else entry_matches e entry authority))"

section \<open>Closing\<close>

text \<open>The instance that stands for a registered binding.\<close>

definition binding_instance :: "component_binding \<Rightarrow> component_instance" where
  "binding_instance b =
     \<lparr>ci_instanceId = bn_instanceId b, ci_activation = bn_activation b, ci_legacyActivation = False,
      ci_hasStarted = None, ci_applicationId = pd_applicationId (bn_deployment b),
      ci_pluginId = pd_pluginId (bn_deployment b),
      ci_componentId = (case json_member ''componentId'' (bn_component b) of Some (JStr c) \<Rightarrow> c | _ \<Rightarrow> []),
      ci_deploymentGeneration = pd_generation (bn_deployment b),
      ci_observedGeneration = pd_generation (bn_deployment b), ci_lifecycle = CsReady, ci_executor = bn_executor b,
      ci_workerId = bn_workerId b, ci_artifactDigest = Some (pa_digest (bn_artifact b)),
      ci_executionBinding = None, ci_attempt = None, ci_retryAt = None, ci_retryEffect = None, ci_diagnostic = None,
      ci_completedOperationId = None, ci_completedOperationIds = None, ci_revision = js ''0''\<rparr>"

definition drain_active ::
  "effect_answers \<Rightarrow> reconcile_effect \<Rightarrow> registered_component \<Rightarrow> runtime_authority option \<Rightarrow>
   (registered_component \<times> js_error list) effect_run" where
  "drain_active a e entry authority =
     (if rg_state entry = BindingActive
      then run_catch
        (run_then (host_calls (HostDrain (re_instanceId e)) (fa_drained a)) (\<lambda>_.
         run_then (on_registry (transition e BindingActive BindingDraining authority)) (\<lambda>entry'. run_return (entry', []))))
        (\<lambda>err. run_return (entry, [err]))
      else run_return (entry, []))"

definition close_entry ::
  "effect_answers \<Rightarrow> reconcile_effect \<Rightarrow> registered_component \<Rightarrow> runtime_authority option \<Rightarrow> js_error list effect_run" where
  "close_entry a e entry authority =
     run_then (drain_active a e entry authority) (\<lambda>(progress, failures).
     run_then (if rg_state progress = BindingStopping then run_return progress
               else on_registry (transition e (rg_state progress) BindingStopping authority)) (\<lambda>stopping.
     run_then (remaining_cleanup a e authority (stopping, failures)) (\<lambda>(progress, failures).
     run_then (if rg_hostStopped progress \<and> rg_artifactReleased progress then remove_stopped e authority
               else run_return ()) (\<lambda>_. run_return failures))))"

text \<open>Every entry of the authority in turn; the answers are given per instance.\<close>

fun close_entries ::
  "(jstring \<Rightarrow> jstring) \<Rightarrow> (jstring \<Rightarrow> effect_answers) \<Rightarrow> runtime_authority option \<Rightarrow> registered_component list \<Rightarrow>
   js_error list effect_run" where
  "close_entries sha256 answers authority [] = run_return []"
| "close_entries sha256 answers authority (entry # rest) =
     (if \<not> sameAuthority (bn_authority (rg_binding entry)) authority then close_entries sha256 answers authority rest
      else run_then (run_result (restoration_effect sha256 (binding_instance (rg_binding entry)) Stop)) (\<lambda>e.
           run_then (close_entry (answers (re_instanceId e)) e entry authority) (\<lambda>failures.
           run_then (close_entries sha256 answers authority rest) (\<lambda>more. run_return (failures @ more)))))"

definition close_authority ::
  "(jstring \<Rightarrow> jstring) \<Rightarrow> (jstring \<Rightarrow> effect_answers) \<Rightarrow> runtime_authority option \<Rightarrow> unit effect_run" where
  "close_authority sha256 answers authority s =
     run_then (close_entries sha256 answers authority (map snd (fx_registry s))) (\<lambda>failures.
       if failures \<noteq> [] then run_result (Inl (Diagnostic ''LIFECYCLE_CLOSE_FAILED'')) else run_return ()) s"

text \<open>\<open>close\<close>; an attempt that failed is forgotten and may be made again.\<close>

definition close_effects ::
  "(jstring \<Rightarrow> jstring) \<Rightarrow> (jstring \<Rightarrow> effect_answers) \<Rightarrow> runtime_authority option \<Rightarrow> unit effect_run" where
  "close_effects sha256 answers authority s =
     (let prefix = authority_prefix authority
      in if prefix \<in> set (fx_closeAttempts s) then (Inr (), s)
         else (case close_authority sha256 answers authority
                      (s\<lparr>fx_closingAuthorities := List.insert prefix (fx_closingAuthorities s)\<rparr>) of
                 (Inl err, s') \<Rightarrow> (Inl err, s')
               | (Inr _, s') \<Rightarrow> (Inr (), s'\<lparr>fx_closeAttempts := prefix # fx_closeAttempts s'\<rparr>)))"

section \<open>Runs\<close>

text \<open>
  Artifacts are addressed by the digest of their archive: what was resolved and what was prepared under one
  digest has one manifest.
\<close>

definition one_manifest :: "effect_answers \<Rightarrow> bool" where
  "one_manifest a =
     (case (fa_resolved a, fa_prepared a) of
        (Inr (Some (_, validated)), Inr artifact) \<Rightarrow>
          pa_digest validated = pa_digest artifact \<longrightarrow> pa_components validated = pa_components artifact
      | _ \<Rightarrow> True)"

inductive effects_step ::
  "(jstring \<Rightarrow> jstring) \<Rightarrow> executor_kind list \<Rightarrow> effects_state \<Rightarrow> effects_state \<Rightarrow> bool" for sha256 supported where
  performed: "one_manifest a \<Longrightarrow> perform supported a e s = (r, s') \<Longrightarrow> effects_step sha256 supported s s'"
| restored: "one_manifest a \<Longrightarrow> restore sha256 a i authority s = (r, s') \<Longrightarrow> effects_step sha256 supported s s'"
| terminating:
    "one_manifest a \<Longrightarrow> restoreTermination sha256 a i authority s = (r, s') \<Longrightarrow> effects_step sha256 supported s s'"
| starting: "one_manifest a \<Longrightarrow> restoreStarting supported a e s = (r, s') \<Longrightarrow> effects_step sha256 supported s s'"
| closing: "close_effects sha256 answers authority s = (r, s') \<Longrightarrow> effects_step sha256 supported s s'"

definition effects_reachable ::
  "(jstring \<Rightarrow> jstring) \<Rightarrow> executor_kind list \<Rightarrow> effects_state \<Rightarrow> bool" where
  "effects_reachable sha256 supported s \<longleftrightarrow> (effects_step sha256 supported)\<^sup>*\<^sup>* new_effects s"

end
