(* ===== verification/Component_Effects_Correct.thy ===== *)
theory Component_Effects_Correct
  imports Component_Effects
begin

text \<open>
  What every operation on live components keeps. An invariant that survives the primitive changes - a transition,
  a takeover, a finished cleanup step, a removal after cleanup, a registration with its artifact and its host
  session - survives every operation (locale \<open>effect_invariant\<close>); the references of the artifacts, the sessions
  of the host and the history of an entry are its instances.
\<close>

section \<open>Triples\<close>

text \<open>From a state with \<open>I\<close> and \<open>P\<close> a run ends with \<open>I\<close>, and with \<open>Q\<close> where it returns.\<close>

definition runs_to ::
  "(effects_state \<Rightarrow> bool) \<Rightarrow> (effects_state \<Rightarrow> bool) \<Rightarrow> 'a effect_run \<Rightarrow> ('a \<Rightarrow> effects_state \<Rightarrow> bool) \<Rightarrow> bool" where
  "runs_to I P m Q \<longleftrightarrow>
     (\<forall>s r s'. I s \<longrightarrow> P s \<longrightarrow> m s = (r, s') \<longrightarrow> I s' \<and> (\<forall>x. r = Inr x \<longrightarrow> Q x s'))"

lemma runs_to_keeps: "runs_to I P m Q \<Longrightarrow> m s = (r, s') \<Longrightarrow> I s \<Longrightarrow> P s \<Longrightarrow> I s'"
  unfolding runs_to_def by blast

lemma runs_to_return: "(\<And>s. I s \<Longrightarrow> P s \<Longrightarrow> Q x s) \<Longrightarrow> runs_to I P (run_return x) Q"
  by (simp add: runs_to_def run_return_def)

lemma runs_to_result: "(\<And>s x. I s \<Longrightarrow> P s \<Longrightarrow> r = Inr x \<Longrightarrow> Q x s) \<Longrightarrow> runs_to I P (run_result r) Q"
  by (simp add: runs_to_def run_result_def)

lemma runs_to_then:
  assumes "runs_to I P m R" and "\<And>x. runs_to I (R x) (f x) Q"
  shows "runs_to I P (run_then m f) Q"
  unfolding runs_to_def
proof (intro allI impI)
  fix s r s' assume s: "I s" "P s" and run: "run_then m f s = (r, s')"
  obtain r1 s1 where first: "m s = (r1, s1)" by (cases "m s")
  show "I s' \<and> (\<forall>x. r = Inr x \<longrightarrow> Q x s')"
  proof (cases r1)
    case (Inl e)
    with run first assms(1) s show ?thesis by (auto simp: run_then_def runs_to_def)
  next
    case (Inr x)
    with assms(1) s first have "I s1" "R x s1" by (auto simp: runs_to_def)
    with run first Inr assms(2) [of x] show ?thesis by (auto simp: run_then_def runs_to_def)
  qed
qed

lemma runs_to_weaken:
  "runs_to I P' m Q' \<Longrightarrow> (\<And>s. I s \<Longrightarrow> P s \<Longrightarrow> P' s) \<Longrightarrow> (\<And>x s. I s \<Longrightarrow> Q' x s \<Longrightarrow> Q x s) \<Longrightarrow> runs_to I P m Q"
  unfolding runs_to_def by blast

lemma runs_to_if:
  "(b \<Longrightarrow> runs_to I P m Q) \<Longrightarrow> (\<not> b \<Longrightarrow> runs_to I P n Q) \<Longrightarrow> runs_to I P (if b then m else n) Q"
  by simp

section \<open>Registration\<close>

definition effect_binding ::
  "reconcile_effect \<Rightarrow> runtime_authority option \<Rightarrow> plugin_deployment \<Rightarrow> prepared_artifact \<Rightarrow> json \<Rightarrow> json \<Rightarrow> component_binding" where
  "effect_binding e authority d artifact component executionBinding =
     \<lparr>bn_instanceId = re_instanceId e, bn_activation = re_activation e, bn_executor = re_executor e,
      bn_workerId = re_workerId e, bn_artifact = artifact, bn_deployment = d, bn_component = component,
      bn_authority = authority, bn_executionBinding = executionBinding\<rparr>"

lemma effect_worker_Inr: "effect_worker e = Inr worker \<Longrightarrow> worker = re_workerId e"
  by (auto simp: effect_worker_def parseIdentity_def split: option.splits if_splits)

text \<open>A binding made from an effect is registered: none of the registry's checks can fail.\<close>

lemma register_effect_binding:
  fixes authority :: "runtime_authority option" and executionBinding :: json
  assumes "parseActivation (JStr (re_activation e)) = Inr activation" and "map_of entries (re_instanceId e) = None"
    and "deployment_resolved e (Some (d, validated))" and "selected_component e validated artifact = Inr component"
    and "pa_digest validated = pa_digest artifact \<longrightarrow> pa_components validated = pa_components artifact"
  defines "b \<equiv> effect_binding e authority d artifact component executionBinding"
  shows "register e b authority entries =
      Inr (prepared_entry b authority, AList.update (re_instanceId e) (prepared_entry b authority) entries)"
    and "binding_ok b" and "pa_digest (bn_artifact b) = re_artifactDigest e" and "bn_instanceId b = re_instanceId e"
proof -
  have selected: "find (names_component (re_componentId e)) (pa_components validated) = Some component"
    "pa_digest artifact = re_artifactDigest e" "runs_on (re_executor e) component"
    using assms(4) by (auto simp: selected_component_def split: option.splits if_splits)
  with assms(3,5) have same: "find (names_component (re_componentId e)) (pa_components artifact) = Some component"
    by (simp add: deployment_resolved_def)
  have named: "names_component (re_componentId e) component"
    using selected(1) by (auto simp: find_Some_iff)
  show digest: "pa_digest (bn_artifact b) = re_artifactDigest e" and "bn_instanceId b = re_instanceId e"
    using selected(2) by (simp_all add: b_def effect_binding_def)
  have activation: "activation = re_activation e"
    using assms(1) by (auto simp: parseActivation_def split: if_splits)
  then show "binding_ok b" using assms(1) named by (auto simp: binding_ok_def b_def effect_binding_def)
  have "assertBinding e b authority = Inr ()"
    using selected same named assms(3)
    by (simp add: assertBinding_def b_def effect_binding_def deployment_resolved_def sameAuthority_iff)
  then show "register e b authority entries =
      Inr (prepared_entry b authority, AList.update (re_instanceId e) (prepared_entry b authority) entries)"
    using assms(1,2) by (simp add: register_def set_entry_def b_def effect_binding_def)
qed

text \<open>The body of a preparation ends before the host call, after its failure, or with the registration.\<close>

lemma bind_component_cases:
  assumes "bind_component a e authority d validated artifact s = (r, s')"
    and "parseActivation (JStr (re_activation e)) = Inr activation" and "map_of (fx_registry s) (re_instanceId e) = None"
    and "deployment_resolved e (Some (d, validated))"
    and "pa_digest validated = pa_digest artifact \<longrightarrow> pa_components validated = pa_components artifact"
  obtains (refused) err where "r = Inl err" "s' = s"
    | (failed) err where "r = Inl err" "s' = s\<lparr>fx_calls := fx_calls s @ [(HostPrepare (re_instanceId e), False)]\<rparr>"
    | (bound) b where "r = Inr (bn_executionBinding b)" "binding_ok b" "bn_instanceId b = re_instanceId e"
        "pa_digest (bn_artifact b) = re_artifactDigest e"
        "s' = s\<lparr>fx_calls := fx_calls s @ [(HostPrepare (re_instanceId e), True)],
               fx_registry := AList.update (re_instanceId e) (prepared_entry b authority) (fx_registry s)\<rparr>"
proof (cases "fa_authorityPrepared a = authority")
  case False
  with assms(1) refused show ?thesis by (auto simp: bind_component_def run_result_def)
next
  case current: True
  show ?thesis
  proof (cases "selected_component e validated artifact")
    case (Inl err)
    with assms(1) current refused [of err] show ?thesis by (simp add: bind_component_def run_result_def run_then_def)
  next
    case component: (Inr component)
    show ?thesis
    proof (cases "effect_worker e")
      case (Inl err)
      with assms(1) current component refused [of err] show ?thesis by (simp add: bind_component_def run_result_def run_then_def)
    next
      case worker: (Inr worker)
      show ?thesis
      proof (cases "fa_binding a")
        case (Inl err)
        with assms(1) current component worker failed [of err] show ?thesis
          by (simp add: bind_component_def run_result_def run_then_def host_calls_def)
      next
        case (Inr executionBinding)
        define b where "b = effect_binding e authority d artifact component executionBinding"
        note registered = register_effect_binding [OF assms(2,3,4) component assms(5), of authority executionBinding, folded b_def]
        have "r = Inr executionBinding" "s' = s\<lparr>fx_calls := fx_calls s @ [(HostPrepare (re_instanceId e), True)],
               fx_registry := AList.update (re_instanceId e) (prepared_entry b authority) (fx_registry s)\<rparr>"
          using assms(1) current component worker Inr effect_worker_Inr [OF worker] registered(1)
          by (auto simp: bind_component_def run_result_def run_then_def host_calls_def on_registry_def run_return_def
              b_def effect_binding_def)
        with bound [of b] registered(2-4) show ?thesis by (simp add: b_def effect_binding_def)
      qed
    qed
  qed
qed

lemma references_update:
  "references d (s\<lparr>fx_references := AList.update digest n (fx_references s)\<rparr>) = (if d = digest then n else references d s)"
  by (simp add: references_def map_lookups)

lemma prepare_effect_cases:
  assumes run: "prepare_effect a e authority s = (r, s')" and "one_manifest a"
    and activation: "parseActivation (JStr (re_activation e)) = Inr activation"
  obtains (unchanged) "fx_registry s' = fx_registry s" "\<And>d. references d s' = references d s" "fx_calls s' = fx_calls s"
        "map_of (fx_registry s) (re_instanceId e) = None \<Longrightarrow> \<exists>err. r = Inl err"
    | (failed) err where "r = Inl err" "fx_registry s' = fx_registry s" "\<And>d. references d s' = references d s"
        "fx_calls s' = fx_calls s @ [(HostPrepare (re_instanceId e), False)]"
    | (bound) b where "r = Inr (bn_executionBinding b)" "map_of (fx_registry s) (bn_instanceId b) = None" "binding_ok b"
        "bn_instanceId b = re_instanceId e"
        "s' = s\<lparr>fx_references := AList.update (pa_digest (bn_artifact b))
                  (references (pa_digest (bn_artifact b)) s + 1) (fx_references s),
               fx_calls := fx_calls s @ [(HostPrepare (bn_instanceId b), True)],
               fx_registry := AList.update (bn_instanceId b) (prepared_entry b authority) (fx_registry s)\<rparr>"
proof (cases "\<exists>d validated artifact. map_of (fx_registry s) (re_instanceId e) = None \<and>
      fa_resolved a = Inr (Some (d, validated)) \<and> deployment_resolved e (Some (d, validated)) \<and> fa_prepared a = Inr artifact")
  case False
  with run have "s' = s \<and> (map_of (fx_registry s) (re_instanceId e) = None \<longrightarrow> (\<exists>err. r = Inl err))"
    by (auto simp: prepare_effect_def run_result_def run_then_def acquire_artifact_def deployment_resolved_def
        split: option.splits sum.splits if_splits)
  with unchanged show ?thesis by simp
next
  case True
  then obtain d validated artifact where new: "map_of (fx_registry s) (re_instanceId e) = None"
    and resolved: "fa_resolved a = Inr (Some (d, validated))" "deployment_resolved e (Some (d, validated))"
    and artifact: "fa_prepared a = Inr artifact" by blast
  define digest where "digest = re_artifactDigest e"
  define s1 where "s1 = s\<lparr>fx_references := AList.update digest (references digest s + 1) (fx_references s)\<rparr>"
  obtain r2 s2 where body: "bind_component a e authority d validated artifact s1 = (r2, s2)"
    by (cases "bind_component a e authority d validated artifact s1")
  have same: "pa_digest validated = pa_digest artifact \<longrightarrow> pa_components validated = pa_components artifact"
    using assms(2) resolved artifact by (simp add: one_manifest_def)
  have new1: "map_of (fx_registry s1) (re_instanceId e) = None" using new by (simp add: s1_def)
  have rollback: "r = Inl err \<and> s' = s2\<lparr>fx_references := AList.update digest (references digest s) (fx_references s2)\<rparr>"
    if "r2 = Inl err" "references digest s2 = references digest s + 1" for err
    using run new resolved artifact body that
    by (auto simp: prepare_effect_def run_then_def run_catch_def acquire_artifact_def release_artifact_def run_result_def
        digest_def s1_def)
  from body show ?thesis
  proof (cases rule: bind_component_cases [OF _ activation new1 resolved(2) same, consumes 1, case_names stopped answered bound_here])
    case (stopped err)
    have "references digest s2 = references digest s + 1" using stopped(2) by (simp add: s1_def references_update)
    from rollback [OF stopped(1) this] stopped(2) show ?thesis
      by (intro unchanged) (auto simp: references_update s1_def)
  next
    case (answered err)
    have "references digest s2 = references digest s + 1" using answered(2) by (simp add: references_def s1_def map_lookups)
    from rollback [OF answered(1) this] answered(2) show ?thesis
      by (intro failed [of err]) (auto simp: references_def s1_def map_lookups)
  next
    case (bound_here b)
    have "s' = s2" "r = r2" using run new resolved artifact body bound_here(1)
      by (auto simp: prepare_effect_def run_then_def run_catch_def acquire_artifact_def digest_def s1_def)
    with bound_here new show ?thesis by (intro bound [of b]) (auto simp: s1_def digest_def)
  qed
qed

section \<open>What a run may touch\<close>

definition touches_only :: "jstring \<Rightarrow> 'a effect_run \<Rightarrow> bool" where
  "touches_only i m \<longleftrightarrow>
     (\<forall>s r s'. m s = (r, s') \<longrightarrow> (\<forall>j. j \<noteq> i \<longrightarrow> map_of (fx_registry s') j = map_of (fx_registry s) j))"

named_theorems touches \<open>parts of a run that touch one entry only\<close>

lemma touches_basic [touches]:
  "touches_only i (run_return x)" "touches_only i (run_result r)" "touches_only i (host_calls c answer)"
  "touches_only i (release_artifact digest)" "touches_only i (forget_stopped e)"
  by (auto simp: touches_only_def run_return_def run_result_def host_calls_def release_artifact_def forget_stopped_def
      forgetInstanceOperations_def trim_stopped_def Let_def split: if_splits)

lemma touches_then [touches]:
  assumes "touches_only i m" and "\<And>x. touches_only i (f x)"
  shows "touches_only i (run_then m f)"
  unfolding touches_only_def
proof (intro allI impI)
  fix s r s' j assume run: "run_then m f s = (r, s')" and "j \<noteq> i"
  obtain r1 s1 where first: "m s = (r1, s1)" by (cases "m s")
  with run assms \<open>j \<noteq> i\<close> show "map_of (fx_registry s') j = map_of (fx_registry s) j"
    by (cases r1) (auto simp: run_then_def touches_only_def)
qed

lemma touches_catch [touches]:
  assumes "touches_only i m" and "\<And>e. touches_only i (handler e)"
  shows "touches_only i (run_catch m handler)"
  unfolding touches_only_def
proof (intro allI impI)
  fix s r s' j assume run: "run_catch m handler s = (r, s')" and "j \<noteq> i"
  obtain r1 s1 where first: "m s = (r1, s1)" by (cases "m s")
  with run assms \<open>j \<noteq> i\<close> show "map_of (fx_registry s') j = map_of (fx_registry s) j"
    by (cases r1) (auto simp: run_catch_def touches_only_def)
qed

lemma touches_if [touches]:
  "touches_only i m \<Longrightarrow> touches_only i n \<Longrightarrow> touches_only i (if b then m else n)"
  by simp

lemma touches_registry [touches]:
  "touches_only (re_instanceId e) (on_registry (transition e current next authority))"
  "touches_only (re_instanceId e) (on_registry (updateStopProgress e hostStopped artifactReleased authority))"
  "touches_only (re_instanceId e) (on_registry (remove_entry e authority))"
  by (auto simp: touches_only_def on_registry_def transition_Inr updateStopProgress_Inr remove_entry_Inr map_lookups
      split: sum.splits prod.splits)

lemma touches_close_entry: "touches_only (re_instanceId e) (close_entry a e entry authority)"
  unfolding close_entry_def drain_active_def remaining_cleanup_def stop_host_def stop_artifact_def remove_stopped_def
  by (auto intro!: touches split: prod.split)

text \<open>The effect that closes a registered entry matches it.\<close>

lemma closing_effect_matches:
  assumes "restoration_effect sha256 (binding_instance (rg_binding entry)) Stop = Inr e" and "entry_ok entry"
  shows "assertMatches e entry (bn_authority (rg_binding entry)) = Inr ()"
    and "re_instanceId e = bn_instanceId (rg_binding entry)"
proof -
  define b where "b = rg_binding entry"
  obtain c where c: "json_member ''componentId'' (bn_component b) = Some (JStr c)"
    and activation: "parseActivation (JStr (bn_activation b)) = Inr (bn_activation b)"
    using assms(2) by (auto simp: entry_ok_def binding_ok_def names_component_def b_def)
  have e: "re_instanceId e = bn_instanceId b" "re_activation e = bn_activation b" "re_componentId e = c"
    "re_artifactDigest e = pa_digest (bn_artifact b)" "re_applicationId e = pd_applicationId (bn_deployment b)"
    "re_pluginId e = pd_pluginId (bn_deployment b)" "re_deploymentGeneration e = pd_generation (bn_deployment b)"
    "re_executor e = bn_executor b" "re_workerId e = bn_workerId b" "re_executionBinding e = None"
    using assms(1) c by (auto simp: restoration_effect_def binding_instance_def Let_def b_def)
  show "assertMatches e entry (bn_authority (rg_binding entry)) = Inr ()"
    unfolding assertMatches_def entry_matches_def matchesIdentity_def Let_def b_def [symmetric]
    by (simp add: e activation c identity_fields_match_def execution_binding_matches_def sameAuthority_iff names_component_def)
  show "re_instanceId e = bn_instanceId (rg_binding entry)"
    using e(1) by (simp add: b_def)
qed

section \<open>Invariants of the operations\<close>

text \<open>The entry an operation works on is the one the registry holds, and matches its effect.\<close>

definition entry_here :: "reconcile_effect \<Rightarrow> runtime_authority option \<Rightarrow> registered_component \<Rightarrow> effects_state \<Rightarrow> bool" where
  "entry_here e authority entry s \<longleftrightarrow>
     map_of (fx_registry s) (re_instanceId e) = Some entry \<and> assertMatches e entry authority = Inr ()"

definition stopping_here :: "reconcile_effect \<Rightarrow> runtime_authority option \<Rightarrow> registered_component \<Rightarrow> effects_state \<Rightarrow> bool" where
  "stopping_here e authority entry s \<longleftrightarrow> entry_here e authority entry s \<and> rg_state entry = BindingStopping"

fun session_call :: "host_call \<times> bool \<Rightarrow> bool" where
  "session_call (HostPrepare i, ok) = ok"
| "session_call (HostStop i, ok) = ok"
| "session_call _ = False"

definition allowed_move :: "binding_state \<Rightarrow> binding_state \<Rightarrow> bool" where
  "allowed_move current next \<longleftrightarrow> next = BindingStopping \<or> (current = BindingPrepared \<and> next = BindingActive) \<or>
     (current = BindingActive \<and> next = BindingDraining)"

locale effect_invariant =
  fixes I :: "effects_state \<Rightarrow> bool"
  assumes books: "I s \<Longrightarrow> fx_registry s' = fx_registry s \<Longrightarrow> (\<And>d. references d s' = references d s) \<Longrightarrow>
      fx_calls s' = fx_calls s \<Longrightarrow> I s'"
    and registered_ok: "I s \<Longrightarrow> registry_ok (fx_registry s)"
    and plain_call: "I s \<Longrightarrow> \<not> session_call c \<Longrightarrow> I (s\<lparr>fx_calls := fx_calls s @ [c]\<rparr>)"
    and moved: "I s \<Longrightarrow> entry_here e authority entry s \<Longrightarrow> allowed_move (rg_state entry) next \<Longrightarrow>
      I (s\<lparr>fx_registry := AList.update (re_instanceId e)
            (entry\<lparr>rg_state := next, rg_acceptingTasks := (next = BindingActive)\<rparr>) (fx_registry s)\<rparr>)"
    and taken_over: "I s \<Longrightarrow> takeoverStopping e authority (fx_registry s) = Inr (entry, entries) \<Longrightarrow>
      I (s\<lparr>fx_registry := entries\<rparr>)"
    and host_stopped: "I s \<Longrightarrow> stopping_here e authority entry s \<Longrightarrow> \<not> rg_hostStopped entry \<Longrightarrow>
      I (s\<lparr>fx_calls := fx_calls s @ [(HostStop (re_instanceId e), True)],
           fx_registry := AList.update (re_instanceId e) (entry\<lparr>rg_hostStopped := True\<rparr>) (fx_registry s)\<rparr>)"
    and released: "I s \<Longrightarrow> stopping_here e authority entry s \<Longrightarrow> \<not> rg_artifactReleased entry \<Longrightarrow>
      0 < references (re_artifactDigest e) s \<Longrightarrow>
      I (s\<lparr>fx_references := AList.update (re_artifactDigest e) (references (re_artifactDigest e) s - 1) (fx_references s),
           fx_registry := AList.update (re_instanceId e) (entry\<lparr>rg_artifactReleased := True\<rparr>) (fx_registry s)\<rparr>)"
    and removed: "I s \<Longrightarrow> stopping_here e authority entry s \<Longrightarrow> rg_hostStopped entry \<Longrightarrow> rg_artifactReleased entry \<Longrightarrow>
      I (s\<lparr>fx_registry := AList.delete (re_instanceId e) (fx_registry s)\<rparr>)"
    and prepared: "I s \<Longrightarrow> binding_ok b \<Longrightarrow> map_of (fx_registry s) (bn_instanceId b) = None \<Longrightarrow>
      I (s\<lparr>fx_references := AList.update (pa_digest (bn_artifact b)) (references (pa_digest (bn_artifact b)) s + 1) (fx_references s),
           fx_calls := fx_calls s @ [(HostPrepare (bn_instanceId b), True)],
           fx_registry := AList.update (bn_instanceId b) (prepared_entry b authority) (fx_registry s)\<rparr>)"
begin

lemma keeps_call:
  assumes "\<not> session_call (c, True)"
  shows "runs_to I P (host_calls c answer) (\<lambda>_ _. True)"
proof -
  have "\<not> session_call (c, ok)" for ok using assms by (cases c) auto
  then show ?thesis by (auto simp: runs_to_def host_calls_def intro: plain_call)
qed

lemma keeps_transition:
  assumes "allowed_move current next"
  shows "runs_to I P (on_registry (transition e current next authority)) (\<lambda>entry s.
    entry_here e authority entry s \<and> rg_state entry = next \<and>
    (current \<noteq> BindingStopping \<longrightarrow> \<not> rg_hostStopped entry \<and> \<not> rg_artifactReleased entry))"
  unfolding runs_to_def
proof (intro allI impI)
  fix s r s' assume s: "I s" and run: "on_registry (transition e current next authority) s = (r, s')"
  show "I s' \<and> (\<forall>entry. r = Inr entry \<longrightarrow> entry_here e authority entry s' \<and> rg_state entry = next \<and>
      (current \<noteq> BindingStopping \<longrightarrow> \<not> rg_hostStopped entry \<and> \<not> rg_artifactReleased entry))"
  proof (cases "transition e current next authority (fx_registry s)")
    case (Inl err)
    with run s show ?thesis by (auto simp: on_registry_def)
  next
    case (Inr result)
    then obtain entry' entries where t: "transition e current next authority (fx_registry s) = Inr (entry', entries)"
      by (cases result) auto
    then obtain entry where entry: "entry_here e authority entry s" "rg_state entry = current"
      and entry': "entry' = entry\<lparr>rg_state := next, rg_acceptingTasks := (next = BindingActive)\<rparr>"
      and entries: "entries = AList.update (re_instanceId e) entry' (fx_registry s)"
      by (auto simp: transition_Inr entry_here_def)
    from run t have r: "r = Inr entry'" "s' = s\<lparr>fx_registry := entries\<rparr>" by (auto simp: on_registry_def)
    have "I s'" using moved [OF s entry(1)] entry(2) assms by (simp add: r entries entry')
    moreover have "entry_here e authority entry' s'"
      using entry(1) by (simp add: entry_here_def r entries entry' map_lookups)
    moreover have "entry_ok entry" using registry_ok_get [OF registered_ok [OF s]] entry(1) by (auto simp: entry_here_def)
    ultimately show ?thesis using entry(2) by (auto simp: r entry' entry_ok_def)
  qed
qed

lemma keeps_stop_host:
  "runs_to I (\<lambda>s. stopping_here e authority (fst progress) s \<and> \<not> rg_hostStopped (fst progress))
     (stop_host a e authority progress)
     (\<lambda>progress' s. stopping_here e authority (fst progress') s \<and>
        rg_artifactReleased (fst progress') = rg_artifactReleased (fst progress))"
  unfolding runs_to_def
proof (intro allI impI)
  fix s r s'
  assume s: "I s" and P: "stopping_here e authority (fst progress) s \<and> \<not> rg_hostStopped (fst progress)"
    and run: "stop_host a e authority progress s = (r, s')"
  define entry where "entry = fst progress"
  have here: "map_of (fx_registry s) (re_instanceId e) = Some entry" "assertMatches e entry authority = Inr ()"
    "rg_state entry = BindingStopping" "\<not> rg_hostStopped entry"
    using P by (simp_all add: stopping_here_def entry_here_def entry_def)
  have binding: "assertMatches e (entry\<lparr>rg_hostStopped := True\<rparr>) authority = Inr ()"
    using here(2) by simp
  show "I s' \<and> (\<forall>progress'. r = Inr progress' \<longrightarrow> stopping_here e authority (fst progress') s' \<and>
      rg_artifactReleased (fst progress') = rg_artifactReleased (fst progress))"
  proof (cases "fa_stopped a")
    case (Inl err)
    with run have "s' = s\<lparr>fx_calls := fx_calls s @ [(HostStop (re_instanceId e), False)]\<rparr>" "r = Inr (entry, snd progress @ [err])"
      by (auto simp: stop_host_def run_catch_def run_then_def host_calls_def run_return_def entry_def)
    with P plain_call [OF s] here show ?thesis by (simp add: stopping_here_def entry_here_def entry_def)
  next
    case (Inr u)
    let ?entry = "entry\<lparr>rg_hostStopped := True\<rparr>"
    have "updateStopProgress e True False authority (fx_registry s) =
        Inr (?entry, AList.update (re_instanceId e) ?entry (fx_registry s))"
      using here by (simp add: updateStopProgress_Inr)
    with run Inr have "r = Inr (?entry, snd progress)"
      and "s' = s\<lparr>fx_calls := fx_calls s @ [(HostStop (re_instanceId e), True)],
                 fx_registry := AList.update (re_instanceId e) ?entry (fx_registry s)\<rparr>"
      by (auto simp: stop_host_def run_catch_def run_then_def host_calls_def run_return_def on_registry_def)
    with host_stopped [OF s, of e authority entry] P here binding show ?thesis
      by (simp add: stopping_here_def entry_here_def entry_def map_lookups)
  qed
qed

lemma keeps_stop_artifact:
  "runs_to I (\<lambda>s. stopping_here e authority (fst progress) s \<and> \<not> rg_artifactReleased (fst progress))
     (stop_artifact e authority progress)
     (\<lambda>progress' s. stopping_here e authority (fst progress') s)"
  unfolding runs_to_def
proof (intro allI impI)
  fix s r s'
  assume s: "I s" and P: "stopping_here e authority (fst progress) s \<and> \<not> rg_artifactReleased (fst progress)"
    and run: "stop_artifact e authority progress s = (r, s')"
  define entry where "entry = fst progress"
  have here: "map_of (fx_registry s) (re_instanceId e) = Some entry" "assertMatches e entry authority = Inr ()"
    "rg_state entry = BindingStopping" "\<not> rg_artifactReleased entry"
    using P by (simp_all add: stopping_here_def entry_here_def entry_def)
  have binding: "assertMatches e (entry\<lparr>rg_artifactReleased := True\<rparr>) authority = Inr ()"
    using here(2) by simp
  show "I s' \<and> (\<forall>progress'. r = Inr progress' \<longrightarrow> stopping_here e authority (fst progress') s')"
  proof (cases "references (re_artifactDigest e) s = 0")
    case True
    with run have "s' = s" "r = Inr (entry, snd progress @ [Diagnostic ''ARTIFACT_REFERENCE_INVALID''])"
      by (auto simp: stop_artifact_def run_catch_def run_then_def release_artifact_def run_return_def entry_def)
    with P s here show ?thesis by (simp add: stopping_here_def entry_here_def entry_def)
  next
    case False
    let ?entry = "entry\<lparr>rg_artifactReleased := True\<rparr>"
    have "updateStopProgress e False True authority (fx_registry s) =
        Inr (?entry, AList.update (re_instanceId e) ?entry (fx_registry s))"
      using here by (simp add: updateStopProgress_Inr)
    with run False have "r = Inr (?entry, snd progress)"
      and "s' = s\<lparr>fx_references := AList.update (re_artifactDigest e) (references (re_artifactDigest e) s - 1) (fx_references s),
                 fx_registry := AList.update (re_instanceId e) ?entry (fx_registry s)\<rparr>"
      by (auto simp: stop_artifact_def run_catch_def run_then_def release_artifact_def run_return_def on_registry_def)
    with released [OF s, of e authority entry] P here binding False show ?thesis
      by (simp add: stopping_here_def entry_here_def entry_def map_lookups)
  qed
qed

lemma keeps_remaining_cleanup:
  "runs_to I (stopping_here e authority (fst progress)) (remaining_cleanup a e authority progress)
     (\<lambda>progress' s. stopping_here e authority (fst progress') s)"
  unfolding remaining_cleanup_def
proof (rule runs_to_then [where R = "\<lambda>progress' s. stopping_here e authority (fst progress') s"])
  show "runs_to I (stopping_here e authority (fst progress))
      (if rg_hostStopped (fst progress) then run_return progress else stop_host a e authority progress)
      (\<lambda>progress' s. stopping_here e authority (fst progress') s)"
    by (rule runs_to_if, rule runs_to_return, simp, rule runs_to_weaken, rule keeps_stop_host) auto
  show "runs_to I (stopping_here e authority (fst progress'))
      (if rg_artifactReleased (fst progress') then run_return progress' else stop_artifact e authority progress')
      (\<lambda>progress' s. stopping_here e authority (fst progress') s)" for progress'
    by (rule runs_to_if, rule runs_to_return, simp, rule runs_to_weaken, rule keeps_stop_artifact) auto
qed

lemma keeps_forget: "I s \<Longrightarrow> I (forgetInstanceOperations i retained s)"
  by (rule books) (simp_all add: forgetInstanceOperations_def trim_stopped_def references_def Let_def)

lemma keeps_remove_stopped:
  "runs_to I (\<lambda>s. stopping_here e authority entry s \<and> rg_hostStopped entry \<and> rg_artifactReleased entry)
     (remove_stopped e authority) (\<lambda>_ _. True)"
  unfolding runs_to_def
proof (intro allI impI)
  fix s r s'
  assume s: "I s" and P: "stopping_here e authority entry s \<and> rg_hostStopped entry \<and> rg_artifactReleased entry"
    and run: "remove_stopped e authority s = (r, s')"
  then have "remove_entry e authority (fx_registry s) = Inr (entry, AList.delete (re_instanceId e) (fx_registry s))"
    by (simp add: stopping_here_def entry_here_def remove_entry_Inr)
  with run have "s' = forgetInstanceOperations (re_instanceId e) (re_operationId e)
      (s\<lparr>fx_registry := AList.delete (re_instanceId e) (fx_registry s)\<rparr>)"
    by (auto simp: remove_stopped_def run_then_def on_registry_def forget_stopped_def)
  with keeps_forget [OF removed [OF s]] P show "I s' \<and> (\<forall>x. r = Inr x \<longrightarrow> True)" by blast
qed

lemma keeps_removal_if:
  "runs_to I (stopping_here e authority entry)
     (if rg_hostStopped entry \<and> rg_artifactReleased entry then remove_stopped e authority else run_return ()) (\<lambda>_ _. True)"
  by (rule runs_to_if, rule runs_to_weaken, rule keeps_remove_stopped) (auto intro: runs_to_return)

lemma keeps_to_stopping:
  "runs_to I (\<lambda>s. rg_state entry = BindingStopping \<longrightarrow> entry_here e authority entry s)
     (if rg_state entry = BindingStopping then run_return entry
      else on_registry (transition e (rg_state entry) BindingStopping authority))
     (\<lambda>entry s. stopping_here e authority entry s)"
  by (rule runs_to_if, rule runs_to_return, simp add: stopping_here_def, rule runs_to_weaken,
      rule keeps_transition) (auto simp: allowed_move_def stopping_here_def)

lemma keeps_stop_effect:
  "runs_to I (entry_here e authority entry) (stop_effect a e entry authority) (\<lambda>_ _. True)"
  unfolding stop_effect_def
proof (rule runs_to_then [where R = "\<lambda>entry s. stopping_here e authority entry s"])
  show "runs_to I (entry_here e authority entry)
      (if rg_state entry = BindingStopping then run_return entry
       else on_registry (transition e (rg_state entry) BindingStopping authority))
      (\<lambda>entry s. stopping_here e authority entry s)"
    by (rule runs_to_weaken [OF keeps_to_stopping]) auto
  fix stopping
  show "runs_to I (stopping_here e authority stopping)
      (run_then (remaining_cleanup a e authority (stopping, [])) (\<lambda>(progress, failures).
         if failures \<noteq> [] then run_result (Inl (Diagnostic ''LIFECYCLE_STOP_FAILED''))
         else if \<not> rg_hostStopped progress \<or> \<not> rg_artifactReleased progress
         then run_result (Inl (Diagnostic ''LIFECYCLE_STOP_INCOMPLETE''))
         else remove_stopped e authority)) (\<lambda>_ _. True)"
  proof (rule runs_to_then)
    show "runs_to I (stopping_here e authority stopping) (remaining_cleanup a e authority (stopping, []))
        (\<lambda>progress' s. stopping_here e authority (fst progress') s)"
      using keeps_remaining_cleanup [of e authority "(stopping, [])" a] by simp
    show "runs_to I (stopping_here e authority (fst x)) (case x of (progress, failures) \<Rightarrow>
        if failures \<noteq> [] then run_result (Inl (Diagnostic ''LIFECYCLE_STOP_FAILED''))
        else if \<not> rg_hostStopped progress \<or> \<not> rg_artifactReleased progress
        then run_result (Inl (Diagnostic ''LIFECYCLE_STOP_INCOMPLETE''))
        else remove_stopped e authority) (\<lambda>_ _. True)" for x
      using runs_to_weaken [OF keeps_remove_stopped [of e authority "fst x"], of "stopping_here e authority (fst x)" "\<lambda>_ _. True"]
      by (cases x) (auto intro: runs_to_result)
  qed
qed

lemma keeps_cleanup_after_loss:
  assumes "rg_state entry \<noteq> BindingStopping"
  shows "runs_to I P (cleanupAfterAuthorityLoss a e entry authority) (\<lambda>_ _. True)"
  unfolding cleanupAfterAuthorityLoss_def
proof (rule runs_to_then)
  show "runs_to I P (on_registry (transition e (rg_state entry) BindingStopping authority))
      (\<lambda>entry s. stopping_here e authority entry s \<and> \<not> rg_hostStopped entry \<and> \<not> rg_artifactReleased entry)"
    by (rule runs_to_weaken, rule keeps_transition) (use assms in \<open>auto simp: allowed_move_def stopping_here_def\<close>)
  fix stopping
  show "runs_to I (\<lambda>s. stopping_here e authority stopping s \<and> \<not> rg_hostStopped stopping \<and> \<not> rg_artifactReleased stopping)
    (run_then (stop_host a e authority (stopping, [])) (\<lambda>progress.
     run_then (stop_artifact e authority progress) (\<lambda>(progress, failures).
     run_then (if rg_hostStopped progress \<and> rg_artifactReleased progress then remove_stopped e authority
               else run_return ()) (\<lambda>_.
       if failures \<noteq> [] then run_result (Inl (Diagnostic ''LIFECYCLE_AUTHORITY_CLEANUP_FAILED'')) else run_return ())))) (\<lambda>_ _. True)"
  proof (rule runs_to_then)
    show "runs_to I (\<lambda>s. stopping_here e authority stopping s \<and> \<not> rg_hostStopped stopping \<and> \<not> rg_artifactReleased stopping)
        (stop_host a e authority (stopping, []))
        (\<lambda>progress s. stopping_here e authority (fst progress) s \<and> \<not> rg_artifactReleased (fst progress))"
    proof (cases "rg_artifactReleased stopping")
      case False
      then show ?thesis by (intro runs_to_weaken [OF keeps_stop_host [of e authority "(stopping, [])" a]]) auto
    qed (simp add: runs_to_def)
    fix progress
    show "runs_to I (\<lambda>s. stopping_here e authority (fst progress) s \<and> \<not> rg_artifactReleased (fst progress))
      (run_then (stop_artifact e authority progress) (\<lambda>(progress, failures).
       run_then (if rg_hostStopped progress \<and> rg_artifactReleased progress then remove_stopped e authority
                 else run_return ()) (\<lambda>_.
         if failures \<noteq> [] then run_result (Inl (Diagnostic ''LIFECYCLE_AUTHORITY_CLEANUP_FAILED'')) else run_return ()))) (\<lambda>_ _. True)"
    proof (rule runs_to_then, rule keeps_stop_artifact)
      fix progress' :: "registered_component \<times> js_error list"
      obtain entry' failures where p: "progress' = (entry', failures)" by (cases progress')
      have "runs_to I (stopping_here e authority entry')
         (run_then (if rg_hostStopped entry' \<and> rg_artifactReleased entry' then remove_stopped e authority else run_return ())
           (\<lambda>_. if failures \<noteq> [] then run_result (Inl (Diagnostic ''LIFECYCLE_AUTHORITY_CLEANUP_FAILED'')) else run_return ()))
         (\<lambda>_ _. True)"
        by (rule runs_to_then, rule keeps_removal_if) (auto intro: runs_to_result runs_to_return)
      then show "runs_to I (stopping_here e authority (fst progress'))
         (case progress' of (progress, failures) \<Rightarrow>
           run_then (if rg_hostStopped progress \<and> rg_artifactReleased progress then remove_stopped e authority else run_return ())
           (\<lambda>_. if failures \<noteq> [] then run_result (Inl (Diagnostic ''LIFECYCLE_AUTHORITY_CLEANUP_FAILED'')) else run_return ()))
         (\<lambda>_ _. True)"
        by (simp add: p)
    qed
  qed
qed

lemma keeps_run_component:
  assumes "rg_state entry = current" and "current \<noteq> BindingStopping" and "allowed_move current next" and "\<not> session_call (c, True)"
  shows "runs_to I P (run_component a e entry authority c answer current next) (\<lambda>_ _. True)"
  unfolding run_component_def
proof (rule runs_to_then, rule keeps_call [OF assms(4)], rule runs_to_if)
  have "rg_state entry \<noteq> BindingStopping" using assms by simp
  then show "runs_to I (\<lambda>_. True) (run_then (cleanupAfterAuthorityLoss a e entry authority) (\<lambda>_. run_result (Inl authority_lost))) (\<lambda>_ _. True)"
    by (intro runs_to_then [OF keeps_cleanup_after_loss] runs_to_result TrueI)
  show "runs_to I (\<lambda>_. True) (run_then (on_registry (transition e current next authority)) (\<lambda>_. run_return ())) (\<lambda>_ _. True)"
    by (rule runs_to_then, rule keeps_transition [OF assms(3)], rule runs_to_return) simp
qed

lemma keeps_admitted_entry:
  "runs_to I P (admitted_entry e authority) (\<lambda>entry s. entry_here e authority entry s)"
  unfolding runs_to_def
proof (intro allI impI)
  fix s r s' assume s: "I s" and run: "admitted_entry e authority s = (r, s')"
  show "I s' \<and> (\<forall>entry. r = Inr entry \<longrightarrow> entry_here e authority entry s')"
  proof (cases "map_of (fx_registry s) (re_instanceId e)")
    case None
    with run s show ?thesis by (auto simp: admitted_entry_def require_entry_def)
  next
    case (Some entry)
    show ?thesis
    proof (cases "re_kind e = Stop \<and> rg_state entry = BindingStopping \<and> \<not> sameAuthority (bn_authority (rg_binding entry)) authority")
      case True
      show ?thesis
      proof (cases "takeoverStopping e authority (fx_registry s)")
        case (Inl err)
        with True Some run s show ?thesis by (auto simp: admitted_entry_def require_entry_def on_registry_def)
      next
        case (Inr result)
        then obtain entry' entries where t: "takeoverStopping e authority (fx_registry s) = Inr (entry', entries)"
          by (cases result) auto
        with True Some run have r: "r = Inr entry'" "s' = s\<lparr>fx_registry := entries\<rparr>"
          by (auto simp: admitted_entry_def require_entry_def on_registry_def)
        have "entry_here e authority entry' s'"
          using t by (auto simp: takeoverStopping_Inr r entry_here_def map_lookups intro: takeover_matches)
        with taken_over [OF s t] show ?thesis by (simp add: r)
      qed
    next
      case False
      with Some run s show ?thesis
        by (auto simp: admitted_entry_def require_entry_def run_result_def entry_here_def)
    qed
  qed
qed

lemma keeps_prepare_effect:
  assumes "one_manifest a" and "parseActivation (JStr (re_activation e)) = Inr activation"
  shows "runs_to I P (prepare_effect a e authority) (\<lambda>_ _. True)"
  unfolding runs_to_def
proof (intro allI impI)
  fix s r s' assume s: "I s" and run: "prepare_effect a e authority s = (r, s')"
  from run have "I s'"
  proof (cases rule: prepare_effect_cases [OF _ assms, consumes 1, case_names unchanged failed bound])
    case unchanged
    then show ?thesis by (intro books [OF s]) auto
  next
    case (failed err)
    then show ?thesis
      by (intro books [OF plain_call [OF s, of "(HostPrepare (re_instanceId e), False)"]]) (auto simp: references_def)
  next
    case (bound b)
    with prepared [OF s bound(3), of authority] show ?thesis by simp
  qed
  then show "I s' \<and> (\<forall>x. r = Inr x \<longrightarrow> True)" by simp
qed

lemma keeps_perform_effect:
  assumes "one_manifest a" and "parseActivation (JStr (re_activation e)) = Inr activation"
  shows "runs_to I P (perform_effect supported a e authority) (\<lambda>_ _. True)"
  unfolding perform_effect_def
proof (intro runs_to_if)
  show "runs_to I P (run_result (Inl (Diagnostic ''LIFECYCLE_EXECUTOR_UNSUPPORTED''))) (\<lambda>_ _. True)"
    by (rule runs_to_result) simp
  show "runs_to I P (run_then (prepare_effect a e authority) (\<lambda>b. run_return (Some b))) (\<lambda>_ _. True)"
    by (rule runs_to_then, rule keeps_prepare_effect [OF assms], rule runs_to_return) simp
  have "runs_to I (entry_here e authority entry)
      (case re_kind e of
         Start \<Rightarrow>
           if rg_state entry \<noteq> BindingPrepared then run_result (Inl transition_invalid)
           else run_component a e entry authority (HostStart (re_instanceId e)) (fa_started a) BindingPrepared BindingActive
       | Drain \<Rightarrow>
           if rg_state entry \<noteq> BindingActive then run_result (Inl transition_invalid)
           else run_component a e entry authority (HostDrain (re_instanceId e)) (fa_drained a) BindingActive BindingDraining
       | _ \<Rightarrow> stop_effect a e entry authority) (\<lambda>_ _. True)" for entry
    by (cases "re_kind e") (auto intro!: keeps_stop_effect keeps_run_component runs_to_result simp: allowed_move_def)
  then show "runs_to I P (run_then (admitted_entry e authority) (\<lambda>entry. run_then
      (case re_kind e of
         Start \<Rightarrow>
           if rg_state entry \<noteq> BindingPrepared then run_result (Inl transition_invalid)
           else run_component a e entry authority (HostStart (re_instanceId e)) (fa_started a) BindingPrepared BindingActive
       | Drain \<Rightarrow>
           if rg_state entry \<noteq> BindingActive then run_result (Inl transition_invalid)
           else run_component a e entry authority (HostDrain (re_instanceId e)) (fa_drained a) BindingActive BindingDraining
       | _ \<Rightarrow> stop_effect a e entry authority) (\<lambda>_. run_return None))) (\<lambda>_ _. True)"
    by (intro runs_to_then [OF keeps_admitted_entry] runs_to_then runs_to_return TrueI)
qed

lemma keeps_end_operation: "I s \<Longrightarrow> I (end_operation operationId outcome s)"
  by (erule books) (auto simp: end_operation_def retainFailedOperation_def references_def Let_def split: option.splits sum.splits)

lemma keeps_begin_operation: "I s \<Longrightarrow> I (begin_operation e authority s)"
  by (erule books) (auto simp: begin_operation_def removeFailedOperation_def references_def Let_def)

lemma keeps_perform:
  assumes "one_manifest a" and "perform supported a e s = (r, s')" and "I s"
  shows "I s'"
proof (cases "parseActivation (JStr (re_activation e))")
  case (Inl err)
  with assms show ?thesis by (simp add: perform_def Let_def)
next
  case (Inr activation)
  obtain outcome t where run: "perform_effect supported a e (fa_authority a) (begin_operation e (fa_authority a) s) = (outcome, t)"
    by (cases "perform_effect supported a e (fa_authority a) (begin_operation e (fa_authority a) s)")
  have "I t" using keeps_perform_effect [OF assms(1) Inr] run keeps_begin_operation [OF assms(3)]
    by (rule runs_to_keeps) (rule TrueI)
  with assms(2,3) Inr run keeps_end_operation show ?thesis
    by (auto simp: perform_def Let_def split: if_splits option.splits)
qed

lemma keeps_require:
  "runs_to I P (require_component i) (\<lambda>entry s. map_of (fx_registry s) i = Some entry)"
  by (auto simp: runs_to_def require_component_def require_entry_Inr)

lemma keeps_restorable_entry:
  assumes "one_manifest a" and "parseActivation (JStr (re_activation e)) = Inr activation"
    and "re_instanceId e = ci_instanceId i"
  shows "runs_to I P (restorable_entry a i e authority)
    (\<lambda>restorable _. \<forall>entry. restorable = Some entry \<longrightarrow> rg_state entry = BindingPrepared)"
  unfolding runs_to_def
proof (intro allI impI)
  fix s r s' assume s: "I s" and run: "restorable_entry a i e authority s = (r, s')"
  show "I s' \<and> (\<forall>x. r = Inr x \<longrightarrow> (\<forall>entry. x = Some entry \<longrightarrow> rg_state entry = BindingPrepared))"
  proof (cases "map_of (fx_registry s) (ci_instanceId i)")
    case (Some entry)
    with run s show ?thesis by (auto simp: restorable_entry_def run_result_def split: if_splits)
  next
    case None
    obtain r1 s1 where prepare: "prepare_effect a e authority s = (r1, s1)" by (cases "prepare_effect a e authority s")
    have s1: "I s1" using keeps_prepare_effect [OF assms(1,2)] prepare s by (rule runs_to_keeps) (rule TrueI)
    from prepare show ?thesis
    proof (cases rule: prepare_effect_cases [OF _ assms(1,2), consumes 1, case_names unchanged failed bound])
      case unchanged
      with None assms(3) obtain err where "r1 = Inl err" by auto
      with run None prepare s1 show ?thesis by (auto simp: restorable_entry_def run_then_def)
    next
      case (failed err)
      with run None prepare s1 show ?thesis by (auto simp: restorable_entry_def run_then_def)
    next
      case (bound b)
      then have "map_of (fx_registry s1) (ci_instanceId i) = Some (prepared_entry b authority)"
        using assms(3) by (simp add: map_lookups)
      with run None prepare s1 bound(1) show ?thesis
        by (auto simp: restorable_entry_def run_then_def require_component_def require_entry_def run_return_def prepared_entry_def)
    qed
  qed
qed

lemma keeps_restore_effect:
  assumes "one_manifest a" and "parseActivation (JStr (re_activation e)) = Inr activation"
    and "re_instanceId e = ci_instanceId i"
  shows "runs_to I P (restore_effect a i e authority) (\<lambda>_ _. True)"
  unfolding restore_effect_def
proof (intro runs_to_then [OF runs_to_result] runs_to_if)
  show "True" ..
  show "runs_to I (\<lambda>_. True) (run_then (prepare_effect a e authority) (\<lambda>_. run_return ())) (\<lambda>_ _. True)"
    by (rule runs_to_then, rule keeps_prepare_effect [OF assms(1,2)], rule runs_to_return) simp
  have prepared_state: "runs_to I (\<lambda>_. True) (restorable_entry a i e authority)
      (\<lambda>restorable _. \<forall>entry. restorable = Some entry \<longrightarrow> rg_state entry = BindingPrepared)"
    by (rule keeps_restorable_entry [OF assms])
  show "runs_to I (\<lambda>_. True) (run_then (restorable_entry a i e authority) (\<lambda>restorable. case restorable of
       None \<Rightarrow> run_return ()
     | Some entry \<Rightarrow> run_component a e entry authority (HostStart (ci_instanceId i)) (fa_started a) BindingPrepared BindingActive))
     (\<lambda>_ _. True)"
  proof (rule runs_to_then [OF prepared_state])
    fix restorable
    show "runs_to I (\<lambda>_. \<forall>entry. restorable = Some entry \<longrightarrow> rg_state entry = BindingPrepared)
      (case restorable of None \<Rightarrow> run_return ()
        | Some entry \<Rightarrow> run_component a e entry authority (HostStart (ci_instanceId i)) (fa_started a) BindingPrepared BindingActive)
      (\<lambda>_ _. True)"
    proof (cases restorable)
      case None
      then show ?thesis by (simp add: runs_to_return)
    next
      case (Some entry)
      show ?thesis
      proof (cases "rg_state entry = BindingPrepared")
        case True
        then show ?thesis using Some by (auto intro!: keeps_run_component simp: allowed_move_def)
      qed (simp add: Some runs_to_def)
    qed
  qed
qed

lemma restoration_effect_fields:
  "restoration_effect sha256 i kind = Inr e \<Longrightarrow> re_instanceId e = ci_instanceId i \<and> re_activation e = ci_activation i"
  by (auto simp: restoration_effect_def Let_def split: option.splits if_splits)

lemma keeps_restore:
  assumes "one_manifest a" and "restore sha256 a i authority s = (r, s')" and "I s"
  shows "I s'"
proof (cases "and_then (parseActivation (JStr (ci_activation i))) (\<lambda>_. restoration_effect sha256 i
    (if ci_lifecycle i = CsPreparing \<or> ci_lifecycle i = CsStopping then Prepare else Start))")
  case (Inl err)
  with assms(2,3) show ?thesis by (simp add: restore_def)
next
  case (Inr e)
  then obtain activation where "parseActivation (JStr (re_activation e)) = Inr activation" "re_instanceId e = ci_instanceId i"
    by (auto dest: restoration_effect_fields)
  from runs_to_keeps [OF keeps_restore_effect [OF assms(1) this] _ assms(3) TrueI, of authority r s'] assms(2,3) Inr show ?thesis
    by (auto simp: restore_def split: if_splits)
qed

lemma keeps_restoreTermination:
  assumes "one_manifest a"
  shows "runs_to I P (restoreTermination sha256 a i authority) (\<lambda>_ _. True)"
  unfolding restoreTermination_def
proof (rule runs_to_then [where R = "\<lambda>activation _. parseActivation (JStr (ci_activation i)) = Inr activation"])
  fix activation
  show "runs_to I (\<lambda>_. parseActivation (JStr (ci_activation i)) = Inr activation)
     (run_then (run_result (restoration_effect sha256 i Stop)) (\<lambda>e.
      run_then (run_result (assertCurrentAuthority a authority)) (\<lambda>_.
      run_then (prepare_effect a e authority) (\<lambda>_.
      run_then (require_component (ci_instanceId i)) (\<lambda>entry.
      run_then (run_result (assertMatches e entry authority)) (\<lambda>_.
        if rg_state entry = BindingStopping then run_return ()
        else if ci_lifecycle i \<notin> {CsReady, CsDegraded, CsDraining, CsStopping} \<and>
                \<not> (ci_lifecycle i = CsFailed \<and> (ci_retryEffect i = Some Drain \<or> ci_retryEffect i = Some Stop))
        then run_result (Inl transition_invalid)
        else run_then (host_calls (HostRestore (ci_instanceId i)) (fa_restored a)) (\<lambda>_.
             run_then (on_registry (transition e (rg_state entry) BindingStopping authority)) (\<lambda>_. run_return ())))))))) (\<lambda>_ _. True)"
  proof (rule runs_to_then [where R = "\<lambda>e _. parseActivation (JStr (re_activation e)) = Inr activation"])
    show "runs_to I (\<lambda>_. parseActivation (JStr (ci_activation i)) = Inr activation) (run_result (restoration_effect sha256 i Stop))
        (\<lambda>e _. parseActivation (JStr (re_activation e)) = Inr activation)"
      by (rule runs_to_result) (simp add: restoration_effect_fields)
    fix e
    show "runs_to I (\<lambda>_. parseActivation (JStr (re_activation e)) = Inr activation)
     (run_then (run_result (assertCurrentAuthority a authority)) (\<lambda>_.
      run_then (prepare_effect a e authority) (\<lambda>_.
      run_then (require_component (ci_instanceId i)) (\<lambda>entry.
      run_then (run_result (assertMatches e entry authority)) (\<lambda>_.
        if rg_state entry = BindingStopping then run_return ()
        else if ci_lifecycle i \<notin> {CsReady, CsDegraded, CsDraining, CsStopping} \<and>
                \<not> (ci_lifecycle i = CsFailed \<and> (ci_retryEffect i = Some Drain \<or> ci_retryEffect i = Some Stop))
        then run_result (Inl transition_invalid)
        else run_then (host_calls (HostRestore (ci_instanceId i)) (fa_restored a)) (\<lambda>_.
             run_then (on_registry (transition e (rg_state entry) BindingStopping authority)) (\<lambda>_. run_return ()))))))) (\<lambda>_ _. True)"
    proof (cases "parseActivation (JStr (re_activation e)) = Inr activation")
      case True
      have move: "allowed_move current BindingStopping" for current by (simp add: allowed_move_def)
      show ?thesis
        by (intro runs_to_then [OF runs_to_result] runs_to_then [OF keeps_prepare_effect [OF assms True]]
            runs_to_then [OF keeps_require] runs_to_if runs_to_then [OF keeps_call] runs_to_then [OF keeps_transition [OF move]]
            runs_to_return runs_to_result TrueI) auto
    qed (simp add: runs_to_def)
  qed
qed (simp add: runs_to_result)

lemma keeps_restoreStarting:
  assumes "one_manifest a" and "restoreStarting supported a e s = (r, s')" and "I s"
  shows "I s'"
proof (cases "parseActivation (JStr (re_activation e))")
  case (Inl err)
  with assms(2,3) show ?thesis by (auto simp: restoreStarting_def split: if_splits)
next
  case (Inr activation)
  have "runs_to I (\<lambda>_. True) (run_then (prepare_effect a e (fa_authority a)) (\<lambda>_. run_return ())) (\<lambda>_ _. True)"
    by (rule runs_to_then, rule keeps_prepare_effect [OF assms(1) Inr], rule runs_to_return) simp
  from runs_to_keeps [OF this _ assms(3) TrueI, of r s'] assms(2,3) Inr show ?thesis
    by (auto simp: restoreStarting_def split: if_splits)
qed

lemma keeps_drain_active:
  "runs_to I (entry_here e authority entry) (drain_active a e entry authority)
     (\<lambda>progress s. entry_here e authority (fst progress) s)"
proof (cases "rg_state entry = BindingActive")
  case False
  then show ?thesis by (auto simp: drain_active_def intro: runs_to_return)
next
  case True
  show ?thesis
    unfolding runs_to_def
  proof (intro allI impI)
    fix s r s' assume s: "I s" and here: "entry_here e authority entry s" and run: "drain_active a e entry authority s = (r, s')"
    define t where "t ok = s\<lparr>fx_calls := fx_calls s @ [(HostDrain (re_instanceId e), ok)]\<rparr>" for ok
    have t: "I (t ok)" "entry_here e authority entry (t ok)" for ok
      using plain_call [OF s] here by (simp_all add: t_def entry_here_def)
    let ?drained = "entry\<lparr>rg_state := BindingDraining, rg_acceptingTasks := False\<rparr>"
    have "transition e BindingActive BindingDraining authority (fx_registry (t ok)) =
        Inr (?drained, AList.update (re_instanceId e) ?drained (fx_registry (t ok)))" for ok
      using t(2) [of ok] True by (simp add: transition_Inr entry_here_def)
    with run True consider err where "r = Inr (entry, [err])" "s' = t False"
      | "r = Inr (?drained, [])" "s' = (t True)\<lparr>fx_registry := AList.update (re_instanceId e) ?drained (fx_registry (t True))\<rparr>"
      by (cases "fa_drained a") (auto simp: drain_active_def run_catch_def run_then_def host_calls_def on_registry_def run_return_def t_def)
    then show "I s' \<and> (\<forall>x. r = Inr x \<longrightarrow> entry_here e authority (fst x) s')"
    proof cases
      case 1
      with t show ?thesis by simp
    next
      case 2
      have "I s'" using moved [OF t, of BindingDraining] True 2(2) by (simp add: allowed_move_def)
      with 2 here show ?thesis by (simp add: entry_here_def map_lookups)
    qed
  qed
qed

lemma keeps_close_rest:
  "runs_to I (entry_here e authority progress)
    (run_then (if rg_state progress = BindingStopping then run_return progress
               else on_registry (transition e (rg_state progress) BindingStopping authority)) (\<lambda>stopping.
     run_then (remaining_cleanup a e authority (stopping, failures)) (\<lambda>(progress, failures).
     run_then (if rg_hostStopped progress \<and> rg_artifactReleased progress then remove_stopped e authority
               else run_return ()) (\<lambda>_. run_return failures)))) (\<lambda>_ _. True)"
proof (rule runs_to_then [where R = "\<lambda>entry s. stopping_here e authority entry s"])
  show "runs_to I (entry_here e authority progress)
      (if rg_state progress = BindingStopping then run_return progress
       else on_registry (transition e (rg_state progress) BindingStopping authority))
      (\<lambda>entry s. stopping_here e authority entry s)"
    by (rule runs_to_weaken [OF keeps_to_stopping]) auto
  fix stopping
  show "runs_to I (stopping_here e authority stopping)
    (run_then (remaining_cleanup a e authority (stopping, failures)) (\<lambda>(progress, failures).
     run_then (if rg_hostStopped progress \<and> rg_artifactReleased progress then remove_stopped e authority
               else run_return ()) (\<lambda>_. run_return failures))) (\<lambda>_ _. True)"
  proof (rule runs_to_then, rule keeps_remaining_cleanup [where progress = "(stopping, failures)", unfolded fst_conv], goal_cases)
    case (1 y)
    show ?case
      by (cases y, simp only: prod.case fst_conv, rule runs_to_then, rule keeps_removal_if, rule runs_to_return, rule TrueI)
  qed
qed

lemma keeps_close_entry:
  "runs_to I (entry_here e authority entry) (close_entry a e entry authority) (\<lambda>_ _. True)"
  unfolding close_entry_def
proof (rule runs_to_then [OF keeps_drain_active], goal_cases)
  case (1 x)
  show ?case by (cases x, simp only: prod.case fst_conv, rule keeps_close_rest)
qed

lemma keeps_close_entries:
  assumes "distinct (map (\<lambda>entry. bn_instanceId (rg_binding entry)) entries)" and "I s"
    and "\<forall>entry \<in> set entries. map_of (fx_registry s) (bn_instanceId (rg_binding entry)) = Some entry"
    and "close_entries sha256 answers authority entries s = (r, s')"
  shows "I s'"
  using assms
proof (induction entries arbitrary: s r s')
  case Nil
  then show ?case by (simp add: run_return_def)
next
  case (Cons entry rest)
  show ?case
  proof (cases "sameAuthority (bn_authority (rg_binding entry)) authority")
    case False
    with Cons show ?thesis by auto
  next
    case same: True
    show ?thesis
    proof (cases "restoration_effect sha256 (binding_instance (rg_binding entry)) Stop")
      case (Inl err)
      with Cons.prems same show ?thesis by (auto simp: run_then_def run_result_def)
    next
      case (Inr e)
      have entry: "map_of (fx_registry s) (bn_instanceId (rg_binding entry)) = Some entry" using Cons.prems(3) by simp
      then have "entry_ok entry" using registry_ok_get [OF registered_ok [OF Cons.prems(2)]] by blast
      from closing_effect_matches [OF Inr this] same entry
      have here: "entry_here e authority entry s" and i: "re_instanceId e = bn_instanceId (rg_binding entry)"
        by (simp_all add: entry_here_def sameAuthority_iff)
      obtain r1 s1 where close: "close_entry (answers (re_instanceId e)) e entry authority s = (r1, s1)"
        by (cases "close_entry (answers (re_instanceId e)) e entry authority s")
      have s1: "I s1" using keeps_close_entry close Cons.prems(2) here by (rule runs_to_keeps)
      have rest: "\<forall>other \<in> set rest. map_of (fx_registry s1) (bn_instanceId (rg_binding other)) = Some other"
      proof
        fix other assume other: "other \<in> set rest"
        then have "bn_instanceId (rg_binding other) \<noteq> re_instanceId e" using Cons.prems(1) i by (auto simp: image_iff)
        then have "map_of (fx_registry s1) (bn_instanceId (rg_binding other)) = map_of (fx_registry s) (bn_instanceId (rg_binding other))"
          using touches_close_entry close unfolding touches_only_def by blast
        with Cons.prems(3) other show "map_of (fx_registry s1) (bn_instanceId (rg_binding other)) = Some other" by simp
      qed
      obtain r2 s2 where more: "close_entries sha256 answers authority rest s1 = (r2, s2)"
        by (cases "close_entries sha256 answers authority rest s1")
      have "I s2" using Cons.IH [OF _ s1 rest more] Cons.prems(1) by simp
      with Cons.prems(4) same Inr close more s1 show ?thesis
        by (cases r1; cases r2) (auto simp: run_then_def run_result_def run_return_def)
    qed
  qed
qed

lemma keeps_close_effects:
  assumes "close_effects sha256 answers authority s = (r, s')" and "I s"
  shows "I s'"
proof -
  define prefix where "prefix = authority_prefix authority"
  define t where "t = s\<lparr>fx_closingAuthorities := List.insert prefix (fx_closingAuthorities s)\<rparr>"
  have t: "I t" by (rule books [OF assms(2)]) (simp_all add: t_def references_def)
  have ok: "registry_ok (fx_registry t)" by (rule registered_ok [OF t])
  obtain r1 s1 where entries: "close_entries sha256 answers authority (map snd (fx_registry t)) t = (r1, s1)"
    by (cases "close_entries sha256 answers authority (map snd (fx_registry t)) t")
  have ids: "map (\<lambda>entry. bn_instanceId (rg_binding entry)) (map snd (fx_registry t)) = map fst (fx_registry t)"
    using ok by (auto simp: registry_ok_def)
  have "I s1"
  proof (rule keeps_close_entries [OF _ t _ entries])
    show "distinct (map (\<lambda>entry. bn_instanceId (rg_binding entry)) (map snd (fx_registry t)))"
      unfolding ids using ok by (simp add: registry_ok_def map_ok_def)
    show "\<forall>entry \<in> set (map snd (fx_registry t)). map_of (fx_registry t) (bn_instanceId (rg_binding entry)) = Some entry"
      using ok by (auto simp: registry_ok_def map_ok_def)
  qed
  then have "I (s1\<lparr>fx_closeAttempts := prefix # fx_closeAttempts s1\<rparr>)"
    by (rule books) (simp_all add: references_def)
  with \<open>I s1\<close> assms entries show ?thesis
    by (cases r1) (auto simp: close_effects_def close_authority_def Let_def run_then_def run_result_def run_return_def t_def prefix_def
        split: if_splits)
qed

lemma keeps_step:
  assumes "effects_step sha256 supported s s'" and "I s"
  shows "I s'"
  using assms
proof cases
  case (performed a e r)
  then show ?thesis using keeps_perform assms(2) by blast
next
  case (restored a i authority r)
  then show ?thesis using keeps_restore assms(2) by blast
next
  case (terminating a i authority r)
  show ?thesis using keeps_restoreTermination [OF terminating(1)] terminating(2) assms(2) by (rule runs_to_keeps) (rule TrueI)
next
  case (starting a e r)
  then show ?thesis using keeps_restoreStarting assms(2) by blast
next
  case (closing answers authority r)
  then show ?thesis using keeps_close_effects assms(2) by blast
qed

lemma keeps_steps: "(effects_step sha256 supported)\<^sup>*\<^sup>* s s' \<Longrightarrow> I s \<Longrightarrow> I s'"
  by (induction rule: rtranclp_induct) (auto intro: keeps_step)

end

end
