(* ===== verification/Component_Effects_Properties.thy ===== *)
theory Component_Effects_Properties
  imports Component_Effects_Correct
begin

text \<open>
  The instances of \<open>effect_invariant\<close> and what they show: every artifact reference is held by exactly one
  registered component, the sessions of the host are opened and closed in turn and stand for the registered
  components, and a registered component only moves on. The locale \<open>operation_fact\<close> is for facts of the bookkeeping
  that every run keeps; from it, a performed operation is answered from its record while the record stands. The
  stop of a component completes, also when it is presented again after a failure.
\<close>

section \<open>References of the artifacts\<close>

definition holds_artifact :: "jstring \<Rightarrow> registered_component \<Rightarrow> bool" where
  "holds_artifact digest entry \<longleftrightarrow> pa_digest (bn_artifact (rg_binding entry)) = digest \<and> \<not> rg_artifactReleased entry"

definition held :: "jstring \<Rightarrow> component_registry \<Rightarrow> nat" where
  "held digest entries = length (filter (\<lambda>(_, entry). holds_artifact digest entry) entries)"

lemma held_simps [simp]:
  "held digest [] = 0"
  "held digest ((i, entry) # entries) = of_bool (holds_artifact digest entry) + held digest entries"
  by (simp_all add: held_def)

lemma held_update:
  "map_of entries i = Some old \<Longrightarrow>
   held digest (AList.update i entry entries) + of_bool (holds_artifact digest old) =
   held digest entries + of_bool (holds_artifact digest entry)"
  by (induction entries) (auto split: if_splits)

lemma held_new:
  "map_of entries i = None \<Longrightarrow>
   held digest (AList.update i entry entries) = held digest entries + of_bool (holds_artifact digest entry)"
  by (induction entries) (auto split: if_splits)

lemma held_delete:
  "map_ok entries \<Longrightarrow> map_of entries i = Some old \<Longrightarrow>
   held digest (AList.delete i entries) + of_bool (holds_artifact digest old) = held digest entries"
proof (induction entries)
  case (Cons p entries)
  obtain j entry where p: "p = (j, entry)" by (cases p)
  show ?case
  proof (cases "j = i")
    case True
    with Cons.prems p have "i \<notin> fst ` set entries" by (auto simp: map_ok_def)
    then have "AList.delete i entries = entries" by (rule delete_id)
    with True Cons.prems p show ?thesis by simp
  next
    case False
    with Cons p show ?thesis by (simp add: map_ok_def)
  qed
qed simp

definition artifacts_balanced :: "effects_state \<Rightarrow> bool" where
  "artifacts_balanced s \<longleftrightarrow> registry_ok (fx_registry s) \<and> (\<forall>digest. references digest s = held digest (fx_registry s))"

lemma takeover_holds [simp]:
  "holds_artifact digest (entry\<lparr>rg_binding := (rg_binding entry)\<lparr>bn_authority := authority\<rparr>\<rparr>) = holds_artifact digest entry"
  by (simp add: holds_artifact_def)

text \<open>The well-formedness of the registry is common to the instances.\<close>

lemma entry_here_ok:
  "registry_ok (fx_registry s) \<Longrightarrow> entry_here e authority entry s \<Longrightarrow>
   map_of (fx_registry s) (re_instanceId e) = Some entry \<and> bn_instanceId (rg_binding entry) = re_instanceId e \<and>
   entry_ok entry \<and> pa_digest (bn_artifact (rg_binding entry)) = re_artifactDigest e"
  using registry_ok_get by (auto simp: entry_here_def dest: assertMatches_Inr)

lemma moved_ok:
  "entry_ok entry \<Longrightarrow> allowed_move (rg_state entry) next \<Longrightarrow>
   entry_ok (entry\<lparr>rg_state := next, rg_acceptingTasks := (next = BindingActive)\<rparr>)"
  by (auto simp: entry_ok_def allowed_move_def)

lemma prepared_ok: "binding_ok b \<Longrightarrow> entry_ok (prepared_entry b authority)"
  by (simp add: entry_ok_def prepared_entry_def binding_ok_def)

lemma takeover_ok:
  assumes "takeoverStopping e authority entries = Inr (entry', entries')" and "registry_ok entries"
  obtains entry where "map_of entries (re_instanceId e) = Some entry" "rg_state entry = BindingStopping"
    "newer_authority (bn_authority (rg_binding entry)) authority"
    "entry' = entry\<lparr>rg_binding := (rg_binding entry)\<lparr>bn_authority := authority\<rparr>\<rparr>"
    "entries' = AList.update (re_instanceId e) entry' entries" "registry_ok entries'"
proof -
  from assms(1) obtain entry where entry: "map_of entries (re_instanceId e) = Some entry" "rg_state entry = BindingStopping"
    "newer_authority (bn_authority (rg_binding entry)) authority"
    "entry' = entry\<lparr>rg_binding := (rg_binding entry)\<lparr>bn_authority := authority\<rparr>\<rparr>"
    "entries' = AList.update (re_instanceId e) entry' entries"
    by (auto simp: takeoverStopping_Inr)
  from registry_ok_get [OF assms(2) entry(1)] have "bn_instanceId (rg_binding entry') = re_instanceId e" "entry_ok entry'"
    by (auto simp: entry(4) entry_ok_def binding_ok_def)
  with assms(2) have "registry_ok entries'" unfolding entry(5) by (intro registry_ok_update)
  with entry that show thesis by blast
qed

interpretation artifacts: effect_invariant artifacts_balanced
proof
  fix s s' assume "artifacts_balanced s" "fx_registry s' = fx_registry s" "\<And>d. references d s' = references d s"
  then show "artifacts_balanced s'" by (simp add: artifacts_balanced_def)
next
  fix s assume "artifacts_balanced s"
  then show "registry_ok (fx_registry s)" by (simp add: artifacts_balanced_def)
next
  fix s c assume "artifacts_balanced s"
  then show "artifacts_balanced (s\<lparr>fx_calls := fx_calls s @ [c]\<rparr>)" by (simp add: artifacts_balanced_def references_def)
next
  fix s e authority entry "next"
  assume s: "artifacts_balanced s" and here: "entry_here e authority entry s" and move: "allowed_move (rg_state entry) next"
  let ?entry = "entry\<lparr>rg_state := next, rg_acceptingTasks := (next = BindingActive)\<rparr>"
  note ok = entry_here_ok [OF artifacts_balanced_def [THEN iffD1, THEN conjunct1, OF s] here]
  have "held d (AList.update (re_instanceId e) ?entry (fx_registry s)) = held d (fx_registry s)" for d
    using held_update [of "fx_registry s" "re_instanceId e" entry d ?entry] ok by (simp add: holds_artifact_def)
  with s ok moved_ok [OF _ move] show "artifacts_balanced (s\<lparr>fx_registry := AList.update (re_instanceId e) ?entry (fx_registry s)\<rparr>)"
    by (auto simp: artifacts_balanced_def references_def intro: registry_ok_update)
next
  fix s e authority entry' entries'
  assume s: "artifacts_balanced s" and takeover: "takeoverStopping e authority (fx_registry s) = Inr (entry', entries')"
  have "registry_ok (fx_registry s)" using s by (simp add: artifacts_balanced_def)
  with takeover obtain entry where entry: "map_of (fx_registry s) (re_instanceId e) = Some entry"
    "entry' = entry\<lparr>rg_binding := (rg_binding entry)\<lparr>bn_authority := authority\<rparr>\<rparr>"
    "entries' = AList.update (re_instanceId e) entry' (fx_registry s)" "registry_ok entries'"
    by (rule takeover_ok)
  have "held d entries' = held d (fx_registry s)" for d
    using held_update [OF entry(1), of d entry'] by (simp add: entry(2,3))
  with s entry(4) show "artifacts_balanced (s\<lparr>fx_registry := entries'\<rparr>)"
    by (simp add: artifacts_balanced_def references_def)
next
  fix s e authority entry
  assume s: "artifacts_balanced s" and here: "stopping_here e authority entry s"
  let ?entry = "entry\<lparr>rg_hostStopped := True\<rparr>"
  have ok: "map_of (fx_registry s) (re_instanceId e) = Some entry" "bn_instanceId (rg_binding entry) = re_instanceId e"
    "entry_ok ?entry"
    using entry_here_ok [of s e authority entry] s here by (auto simp: artifacts_balanced_def stopping_here_def entry_ok_def)
  have "held d (AList.update (re_instanceId e) ?entry (fx_registry s)) = held d (fx_registry s)" for d
    using held_update [OF ok(1), of d ?entry] by (simp add: holds_artifact_def)
  with s ok show "artifacts_balanced (s\<lparr>fx_calls := fx_calls s @ [(HostStop (re_instanceId e), True)],
      fx_registry := AList.update (re_instanceId e) ?entry (fx_registry s)\<rparr>)"
    by (auto simp: artifacts_balanced_def references_def intro: registry_ok_update)
next
  fix s e authority entry
  assume s: "artifacts_balanced s" and here: "stopping_here e authority entry s" and held: "\<not> rg_artifactReleased entry"
  let ?entry = "entry\<lparr>rg_artifactReleased := True\<rparr>"
  have ok: "map_of (fx_registry s) (re_instanceId e) = Some entry" "bn_instanceId (rg_binding entry) = re_instanceId e"
    "entry_ok ?entry" "pa_digest (bn_artifact (rg_binding entry)) = re_artifactDigest e"
    using entry_here_ok [of s e authority entry] s here by (auto simp: artifacts_balanced_def stopping_here_def entry_ok_def)
  have held': "held d (AList.update (re_instanceId e) ?entry (fx_registry s)) =
      (if d = re_artifactDigest e then references d s - 1 else references d s)" for d
  proof -
    have "references d s = held d (fx_registry s)" using s by (simp add: artifacts_balanced_def)
    with held_update [OF ok(1), of d ?entry] held ok(4) show ?thesis
      by (cases "d = re_artifactDigest e") (simp_all add: holds_artifact_def)
  qed
  have "registry_ok (AList.update (re_instanceId e) ?entry (fx_registry s))"
    using s ok by (intro registry_ok_update) (simp_all add: artifacts_balanced_def)
  with held' show "artifacts_balanced (s\<lparr>fx_references := AList.update (re_artifactDigest e) (references (re_artifactDigest e) s - 1) (fx_references s),
      fx_registry := AList.update (re_instanceId e) ?entry (fx_registry s)\<rparr>)"
    by (simp add: artifacts_balanced_def references_def map_lookups)
next
  fix s e authority entry
  assume s: "artifacts_balanced s" and here: "stopping_here e authority entry s"
    and finished: "rg_hostStopped entry" "rg_artifactReleased entry"
  have "map_ok (fx_registry s)" "map_of (fx_registry s) (re_instanceId e) = Some entry"
    using s here by (auto simp: artifacts_balanced_def registry_ok_def stopping_here_def entry_here_def)
  from held_delete [OF this] finished(2)
  have "held d (AList.delete (re_instanceId e) (fx_registry s)) = held d (fx_registry s)" for d
    by (simp add: holds_artifact_def)
  with s show "artifacts_balanced (s\<lparr>fx_registry := AList.delete (re_instanceId e) (fx_registry s)\<rparr>)"
    by (simp add: artifacts_balanced_def references_def registry_ok_delete)
next
  fix s b authority
  assume s: "artifacts_balanced s" and b: "binding_ok b" and new: "map_of (fx_registry s) (bn_instanceId b) = None"
  have "held d (AList.update (bn_instanceId b) (prepared_entry b authority) (fx_registry s)) =
      held d (fx_registry s) + of_bool (d = pa_digest (bn_artifact b))" for d
    using held_new [OF new, of d "prepared_entry b authority"] by (auto simp: holds_artifact_def prepared_entry_def)
  moreover have "registry_ok (AList.update (bn_instanceId b) (prepared_entry b authority) (fx_registry s))"
    using s prepared_ok [OF b] by (intro registry_ok_update) (auto simp: artifacts_balanced_def prepared_entry_def)
  ultimately show "artifacts_balanced (s\<lparr>fx_references := AList.update (pa_digest (bn_artifact b)) (references (pa_digest (bn_artifact b)) s + 1) (fx_references s),
      fx_calls := fx_calls s @ [(HostPrepare (bn_instanceId b), True)],
      fx_registry := AList.update (bn_instanceId b) (prepared_entry b authority) (fx_registry s)\<rparr>)"
    using s by (auto simp: artifacts_balanced_def references_def map_lookups)
qed

section \<open>Sessions of the host\<close>

text \<open>
  Whether the session of an instance is open after the calls, or nothing where a call prepared an open session or
  stopped one that was not open.
\<close>

fun session_step :: "jstring \<Rightarrow> host_call \<times> bool \<Rightarrow> bool option \<Rightarrow> bool option" where
  "session_step i (HostPrepare j, ok) running = (if ok \<and> j = i then (if running = Some False then Some True else None) else running)"
| "session_step i (HostStop j, ok) running = (if ok \<and> j = i then (if running = Some True then Some False else None) else running)"
| "session_step i _ running = running"

definition session :: "jstring \<Rightarrow> (host_call \<times> bool) list \<Rightarrow> bool option" where
  "session i calls = fold (session_step i) calls (Some False)"

lemma session_snoc [simp]: "session i [] = Some False" "session i (calls @ [c]) = session_step i c (session i calls)"
  by (simp_all add: session_def)

lemma session_plain: "\<not> session_call c \<Longrightarrow> session_step i c running = running"
  by (cases c rule: session_call.cases) auto

definition registered_session :: "jstring \<Rightarrow> component_registry \<Rightarrow> bool" where
  "registered_session i entries = (case map_of entries i of None \<Rightarrow> False | Some entry \<Rightarrow> \<not> rg_hostStopped entry)"

definition sessions_agree :: "effects_state \<Rightarrow> bool" where
  "sessions_agree s \<longleftrightarrow> registry_ok (fx_registry s) \<and>
     (\<forall>i. session i (fx_calls s) = Some (registered_session i (fx_registry s)))"

interpretation sessions: effect_invariant sessions_agree
proof
  fix s s' :: effects_state assume "sessions_agree s" "fx_registry s' = fx_registry s" "fx_calls s' = fx_calls s"
  then show "sessions_agree s'" by (simp add: sessions_agree_def)
next
  fix s assume "sessions_agree s"
  then show "registry_ok (fx_registry s)" by (simp add: sessions_agree_def)
next
  fix s c assume "sessions_agree s" "\<not> session_call c"
  then show "sessions_agree (s\<lparr>fx_calls := fx_calls s @ [c]\<rparr>)" by (simp add: sessions_agree_def session_plain)
next
  fix s e authority entry "next"
  assume s: "sessions_agree s" and here: "entry_here e authority entry s" and move: "allowed_move (rg_state entry) next"
  note ok = entry_here_ok [OF sessions_agree_def [THEN iffD1, THEN conjunct1, OF s] here]
  with s moved_ok [OF _ move] show "sessions_agree (s\<lparr>fx_registry := AList.update (re_instanceId e)
      (entry\<lparr>rg_state := next, rg_acceptingTasks := (next = BindingActive)\<rparr>) (fx_registry s)\<rparr>)"
    by (auto simp: sessions_agree_def registered_session_def map_lookups intro: registry_ok_update)
next
  fix s e authority entry' entries'
  assume s: "sessions_agree s" and takeover: "takeoverStopping e authority (fx_registry s) = Inr (entry', entries')"
  have "registry_ok (fx_registry s)" using s by (simp add: sessions_agree_def)
  with takeover obtain entry where entry: "map_of (fx_registry s) (re_instanceId e) = Some entry"
    "entry' = entry\<lparr>rg_binding := (rg_binding entry)\<lparr>bn_authority := authority\<rparr>\<rparr>"
    "entries' = AList.update (re_instanceId e) entry' (fx_registry s)" "registry_ok entries'"
    by (rule takeover_ok)
  with s show "sessions_agree (s\<lparr>fx_registry := entries'\<rparr>)"
    by (auto simp: sessions_agree_def registered_session_def map_lookups)
next
  fix s e authority entry
  assume s: "sessions_agree s" and here: "stopping_here e authority entry s" and running: "\<not> rg_hostStopped entry"
  have ok: "map_of (fx_registry s) (re_instanceId e) = Some entry" "bn_instanceId (rg_binding entry) = re_instanceId e"
    "entry_ok (entry\<lparr>rg_hostStopped := True\<rparr>)"
    using entry_here_ok [of s e authority entry] s here by (auto simp: sessions_agree_def stopping_here_def entry_ok_def)
  with s running show "sessions_agree (s\<lparr>fx_calls := fx_calls s @ [(HostStop (re_instanceId e), True)],
      fx_registry := AList.update (re_instanceId e) (entry\<lparr>rg_hostStopped := True\<rparr>) (fx_registry s)\<rparr>)"
    by (auto simp: sessions_agree_def registered_session_def map_lookups intro: registry_ok_update)
next
  fix s e authority entry
  assume s: "sessions_agree s" and here: "stopping_here e authority entry s"
  have ok: "map_of (fx_registry s) (re_instanceId e) = Some entry" "bn_instanceId (rg_binding entry) = re_instanceId e"
    "entry_ok (entry\<lparr>rg_artifactReleased := True\<rparr>)"
    using entry_here_ok [of s e authority entry] s here by (auto simp: sessions_agree_def stopping_here_def entry_ok_def)
  with s show "sessions_agree (s\<lparr>fx_references := AList.update (re_artifactDigest e) (references (re_artifactDigest e) s - 1) (fx_references s),
      fx_registry := AList.update (re_instanceId e) (entry\<lparr>rg_artifactReleased := True\<rparr>) (fx_registry s)\<rparr>)"
    by (auto simp: sessions_agree_def registered_session_def map_lookups intro: registry_ok_update)
next
  fix s e authority entry
  assume s: "sessions_agree s" and here: "stopping_here e authority entry s" and finished: "rg_hostStopped entry"
  then show "sessions_agree (s\<lparr>fx_registry := AList.delete (re_instanceId e) (fx_registry s)\<rparr>)"
    by (auto simp: sessions_agree_def registered_session_def map_lookups registry_ok_delete stopping_here_def entry_here_def)
next
  fix s b authority
  assume s: "sessions_agree s" and b: "binding_ok b" and new: "map_of (fx_registry s) (bn_instanceId b) = None"
  have "registry_ok (AList.update (bn_instanceId b) (prepared_entry b authority) (fx_registry s))"
    using s prepared_ok [OF b] by (intro registry_ok_update) (auto simp: sessions_agree_def prepared_entry_def)
  with s new show "sessions_agree (s\<lparr>fx_references := AList.update (pa_digest (bn_artifact b)) (references (pa_digest (bn_artifact b)) s + 1) (fx_references s),
      fx_calls := fx_calls s @ [(HostPrepare (bn_instanceId b), True)],
      fx_registry := AList.update (bn_instanceId b) (prepared_entry b authority) (fx_registry s)\<rparr>)"
    by (auto simp: sessions_agree_def registered_session_def map_lookups prepared_entry_def)
qed

section \<open>The history of an entry\<close>

fun binding_rank :: "binding_state \<Rightarrow> nat" where
  "binding_rank BindingPrepared = 0"
| "binding_rank BindingActive = 1"
| "binding_rank BindingDraining = 2"
| "binding_rank BindingStopping = 3"

text \<open>
  A later entry of the same registration: the same binding, a state not behind the earlier one, cleanup steps
  not undone, and another authority only for a stopping component and only a newer one of the same resource.
\<close>

definition advances :: "registered_component \<Rightarrow> registered_component \<Rightarrow> bool" where
  "advances x y \<longleftrightarrow>
     (rg_binding y)\<lparr>bn_authority := None\<rparr> = (rg_binding x)\<lparr>bn_authority := None\<rparr> \<and>
     binding_rank (rg_state x) \<le> binding_rank (rg_state y) \<and>
     (rg_hostStopped x \<longrightarrow> rg_hostStopped y) \<and> (rg_artifactReleased x \<longrightarrow> rg_artifactReleased y) \<and>
     (bn_authority (rg_binding y) = bn_authority (rg_binding x) \<or>
      rg_state y = BindingStopping \<and> newer_authority (bn_authority (rg_binding x)) (bn_authority (rg_binding y)))"

lemma advances_refl [simp]: "advances x x"
  by (simp add: advances_def)

lemma newer_trans: "newer_authority a b \<Longrightarrow> newer_authority b c \<Longrightarrow> newer_authority a c"
  by (auto simp: newer_authority_def split: option.splits)

lemma advances_trans:
  assumes "advances x y" and "advances y z"
  shows "advances x z"
proof -
  have "rg_state y = BindingStopping \<Longrightarrow> rg_state z = BindingStopping"
    using assms(2) by (cases "rg_state z") (simp_all add: advances_def)
  with assms show ?thesis unfolding advances_def using newer_trans by auto
qed

definition entry_history :: "effects_state \<Rightarrow> effects_state \<Rightarrow> bool" where
  "entry_history s0 s \<longleftrightarrow> registry_ok (fx_registry s) \<and>
     (\<exists>new. fx_calls s = fx_calls s0 @ new \<and>
       (\<forall>i x y. map_of (fx_registry s0) i = Some x \<longrightarrow> map_of (fx_registry s) i = Some y \<longrightarrow>
          (HostPrepare i, True) \<in> set new \<or> advances x y))"

lemma entry_history_update:
  assumes "entry_history s0 s" and "map_of (fx_registry s) i = Some old" and "advances old entry"
    and "bn_instanceId (rg_binding entry) = i" and "entry_ok entry"
    and "fx_registry s' = AList.update i entry (fx_registry s)" and "\<exists>more. fx_calls s' = fx_calls s @ more"
  shows "entry_history s0 s'"
proof -
  from assms(1) obtain new where new: "fx_calls s = fx_calls s0 @ new"
    and later: "\<And>j x y. map_of (fx_registry s0) j = Some x \<Longrightarrow> map_of (fx_registry s) j = Some y \<Longrightarrow>
      (HostPrepare j, True) \<in> set new \<or> advances x y"
    unfolding entry_history_def by blast
  from assms(7) obtain more where "fx_calls s' = fx_calls s0 @ (new @ more)" using new by auto
  moreover have "(HostPrepare j, True) \<in> set (new @ more) \<or> advances x y"
    if "map_of (fx_registry s0) j = Some x" "map_of (fx_registry s') j = Some y" for j x y
  proof (cases "j = i")
    case True
    with that assms(6) have "y = entry" by (simp add: map_lookups)
    with later [OF that(1)] True assms(2,3) show ?thesis by (auto intro: advances_trans)
  next
    case False
    with that assms(6) later [OF that(1)] show ?thesis by (auto simp: map_lookups)
  qed
  moreover have "registry_ok (fx_registry s')"
    using assms(1,4,5) unfolding assms(6) by (intro registry_ok_update) (simp_all add: entry_history_def)
  ultimately show ?thesis unfolding entry_history_def by blast
qed

lemma entry_history_ok: "entry_history s0 s \<Longrightarrow> registry_ok (fx_registry s)"
  by (simp add: entry_history_def)

lemma advances_moved:
  "allowed_move (rg_state entry) next \<Longrightarrow> advances entry (entry\<lparr>rg_state := next, rg_acceptingTasks := accepting\<rparr>)"
  by (cases "rg_state entry"; cases "next") (auto simp: advances_def allowed_move_def)

interpretation history: effect_invariant "entry_history s0" for s0
proof
  fix s s' :: effects_state
  assume "entry_history s0 s" "fx_registry s' = fx_registry s" "fx_calls s' = fx_calls s"
  then show "entry_history s0 s'" by (simp add: entry_history_def)
next
  fix s assume "entry_history s0 s"
  then show "registry_ok (fx_registry s)" by (rule entry_history_ok)
next
  fix s c assume "entry_history s0 s"
  then obtain new where "fx_calls s @ [c] = fx_calls s0 @ (new @ [c])" "registry_ok (fx_registry s)"
    "\<forall>i x y. map_of (fx_registry s0) i = Some x \<longrightarrow> map_of (fx_registry s) i = Some y \<longrightarrow>
          (HostPrepare i, True) \<in> set (new @ [c]) \<or> advances x y"
    unfolding entry_history_def by auto
  then show "entry_history s0 (s\<lparr>fx_calls := fx_calls s @ [c]\<rparr>)" unfolding entry_history_def by auto
next
  fix s e authority entry "next"
  assume s: "entry_history s0 s" and here: "entry_here e authority entry s" and move: "allowed_move (rg_state entry) next"
  note ok = entry_here_ok [OF entry_history_ok [OF s] here]
  with moved_ok [OF _ move] show "entry_history s0 (s\<lparr>fx_registry := AList.update (re_instanceId e)
      (entry\<lparr>rg_state := next, rg_acceptingTasks := (next = BindingActive)\<rparr>) (fx_registry s)\<rparr>)"
    by (intro entry_history_update [OF s _ advances_moved [OF move]]) simp_all
next
  fix s e authority entry' entries'
  assume s: "entry_history s0 s" and takeover: "takeoverStopping e authority (fx_registry s) = Inr (entry', entries')"
  from takeover entry_history_ok [OF s] obtain entry where entry: "map_of (fx_registry s) (re_instanceId e) = Some entry"
    "rg_state entry = BindingStopping" "newer_authority (bn_authority (rg_binding entry)) authority"
    "entry' = entry\<lparr>rg_binding := (rg_binding entry)\<lparr>bn_authority := authority\<rparr>\<rparr>"
    "entries' = AList.update (re_instanceId e) entry' (fx_registry s)" "registry_ok entries'"
    by (rule takeover_ok)
  have "map_of entries' (re_instanceId e) = Some entry'" by (simp add: entry(5) map_lookups)
  from registry_ok_get [OF entry(6) this] have "bn_instanceId (rg_binding entry') = re_instanceId e" "entry_ok entry'" by auto
  moreover have "advances entry entry'" using entry(2,3) by (simp add: entry(4) advances_def)
  ultimately show "entry_history s0 (s\<lparr>fx_registry := entries'\<rparr>)"
    by (intro entry_history_update [OF s entry(1)]) (simp_all add: entry(5))
next
  fix s e authority entry
  assume s: "entry_history s0 s" and here: "stopping_here e authority entry s"
  note ok = entry_here_ok [OF entry_history_ok [OF s] here [unfolded stopping_here_def, THEN conjunct1]]
  have stopping: "rg_state entry = BindingStopping" using here by (simp add: stopping_here_def)
  show "entry_history s0 (s\<lparr>fx_calls := fx_calls s @ [(HostStop (re_instanceId e), True)],
      fx_registry := AList.update (re_instanceId e) (entry\<lparr>rg_hostStopped := True\<rparr>) (fx_registry s)\<rparr>)"
    using ok stopping by (intro entry_history_update [OF s, of "re_instanceId e" entry "entry\<lparr>rg_hostStopped := True\<rparr>"])
      (auto simp: advances_def entry_ok_def)
next
  fix s e authority entry
  assume s: "entry_history s0 s" and here: "stopping_here e authority entry s"
  note ok = entry_here_ok [OF entry_history_ok [OF s] here [unfolded stopping_here_def, THEN conjunct1]]
  have stopping: "rg_state entry = BindingStopping" using here by (simp add: stopping_here_def)
  show "entry_history s0 (s\<lparr>fx_references := AList.update (re_artifactDigest e) (references (re_artifactDigest e) s - 1) (fx_references s),
      fx_registry := AList.update (re_instanceId e) (entry\<lparr>rg_artifactReleased := True\<rparr>) (fx_registry s)\<rparr>)"
    using ok stopping by (intro entry_history_update [OF s, of "re_instanceId e" entry "entry\<lparr>rg_artifactReleased := True\<rparr>"])
      (auto simp: advances_def entry_ok_def)
next
  fix s e
  assume "entry_history s0 s"
  then show "entry_history s0 (s\<lparr>fx_registry := AList.delete (re_instanceId e) (fx_registry s)\<rparr>)"
    by (force simp: entry_history_def map_lookups registry_ok_delete)
next
  fix s b authority
  assume s: "entry_history s0 s" and b: "binding_ok b"
  let ?entries = "AList.update (bn_instanceId b) (prepared_entry b authority) (fx_registry s)"
  have "registry_ok ?entries"
    using entry_history_ok [OF s] prepared_ok [OF b] by (intro registry_ok_update) (auto simp: prepared_entry_def)
  moreover obtain new where new: "fx_calls s = fx_calls s0 @ new"
    and later: "\<And>i x y. map_of (fx_registry s0) i = Some x \<Longrightarrow> map_of (fx_registry s) i = Some y \<Longrightarrow>
      (HostPrepare i, True) \<in> set new \<or> advances x y"
    using s unfolding entry_history_def by blast
  have "(HostPrepare i, True) \<in> set (new @ [(HostPrepare (bn_instanceId b), True)]) \<or> advances x y"
    if "map_of (fx_registry s0) i = Some x" "map_of ?entries i = Some y" for i x y
    using later [OF that(1)] that(2) by (cases "i = bn_instanceId b") (auto simp: map_lookups)
  moreover have "fx_calls s @ [(HostPrepare (bn_instanceId b), True)] = fx_calls s0 @ (new @ [(HostPrepare (bn_instanceId b), True)])"
    using new by simp
  ultimately show "entry_history s0 (s\<lparr>fx_references := AList.update (pa_digest (bn_artifact b)) (references (pa_digest (bn_artifact b)) s + 1) (fx_references s),
      fx_calls := fx_calls s @ [(HostPrepare (bn_instanceId b), True)],
      fx_registry := ?entries\<rparr>)"
    unfolding entry_history_def by auto
qed

section \<open>Properties\<close>

lemma new_effects_ok: "artifacts_balanced new_effects" "sessions_agree new_effects"
  by (simp_all add: artifacts_balanced_def sessions_agree_def new_effects_def references_def registered_session_def)

lemma reachable_ok:
  assumes "effects_reachable sha256 supported s"
  shows "artifacts_balanced s" and "sessions_agree s"
  using assms artifacts.keeps_steps sessions.keeps_steps new_effects_ok by (auto simp: effects_reachable_def)

text \<open>
  C21. After any sequence of operations on live components, failed ones included, the references the artifact cache
  counts for a digest are exactly the registered components of that digest that have not released it: no
  reference leaks and none is released twice.
\<close>

theorem artifact_references_exact:
  assumes "effects_reachable sha256 supported s"
  shows "references digest s = length (filter
    (\<lambda>(_, entry). pa_digest (bn_artifact (rg_binding entry)) = digest \<and> \<not> rg_artifactReleased entry) (fx_registry s))"
  using reachable_ok(1) [OF assms] by (simp add: artifacts_balanced_def held_def holds_artifact_def)

text \<open>
  C22. The host is asked to prepare an instance only while it has no session of it and to stop one only while it has,
  as far as these calls succeed; and it has a session exactly while the instance is registered and not yet stopped.
\<close>

theorem host_sessions_exact:
  assumes "effects_reachable sha256 supported s"
  shows "session i (fx_calls s) = Some (case map_of (fx_registry s) i of None \<Rightarrow> False | Some entry \<Rightarrow> \<not> rg_hostStopped entry)"
  using reachable_ok(2) [OF assms] by (simp add: sessions_agree_def registered_session_def)

text \<open>
  C23. Between two moments of a run, as long as the host has not prepared the instance anew, its entry keeps its
  binding, moves only from prepared over active and draining to stopping, undoes no cleanup step, and changes its
  authority only while stopping and only to a newer epoch of the same resource; it accepts tasks exactly while active.
\<close>

theorem registered_component_advances:
  assumes "effects_reachable sha256 supported s" and "(effects_step sha256 supported)\<^sup>*\<^sup>* s t"
    and "map_of (fx_registry s) i = Some x" and "map_of (fx_registry t) i = Some y"
    and "(HostPrepare i, True) \<notin> set (drop (length (fx_calls s)) (fx_calls t))"
  shows "advances x y \<and> (rg_acceptingTasks y \<longleftrightarrow> rg_state y = BindingActive)"
proof -
  have ok: "registry_ok (fx_registry s)" using reachable_ok(1) [OF assms(1)] by (simp add: artifacts_balanced_def)
  have "entry_history s s" unfolding entry_history_def using ok by auto
  from history.keeps_steps [OF assms(2) this] have "entry_history s t" .
  then obtain new where "registry_ok (fx_registry t)" "fx_calls t = fx_calls s @ new"
    "\<And>i x y. map_of (fx_registry s) i = Some x \<Longrightarrow> map_of (fx_registry t) i = Some y \<Longrightarrow>
      (HostPrepare i, True) \<in> set new \<or> advances x y"
    unfolding entry_history_def by blast
  with assms(3-5) have "registry_ok (fx_registry t)" "advances x y" by auto
  with registry_ok_get [OF this(1) assms(4)] show ?thesis by (simp add: entry_ok_def)
qed

section \<open>A run\<close>

definition example_component :: json where
  "example_component = JObj [(js ''componentId'', JStr (js ''web'')), (js ''entrypoint'', JStr (js ''w.js'')),
     (js ''executors'', JArr [JStr (js ''process'')])]"

definition example_deployment :: plugin_deployment where
  "example_deployment =
     \<lparr>pd_applicationId = js ''app'', pd_pluginId = js ''shop'', pd_version = js ''1.0.0'', pd_artifactDigest = js ''d'',
      pd_generation = js ''1'', pd_state = DeploymentActive, pd_essential = True, pd_configuration = JNull,
      pd_permissionGrants = VNull, pd_capabilityBindings = []\<rparr>"

definition example_artifact :: prepared_artifact where
  "example_artifact = \<lparr>pa_digest = js ''d'', pa_pluginId = js ''shop'', pa_components = [example_component]\<rparr>"

definition example_effect :: "effect_kind \<Rightarrow> reconcile_effect" where
  "example_effect kind =
     \<lparr>re_kind = kind, re_activation = js ''1'', re_operationId = kind_name kind, re_messageId = js ''m'', re_instanceId = js ''i'',
      re_applicationId = js ''app'', re_pluginId = js ''shop'', re_componentId = js ''web'', re_deploymentGeneration = js ''1'',
      re_artifactDigest = js ''d'', re_executor = ExProcess, re_workerId = None, re_executionBinding = None\<rparr>"

definition example_answers :: effect_answers where
  "example_answers =
     \<lparr>fa_authority = None, fa_resolved = Inr (Some (example_deployment, example_artifact)), fa_prepared = Inr example_artifact,
      fa_authorityPrepared = None, fa_binding = Inr JNull, fa_started = Inr (), fa_drained = Inr (), fa_restored = Inr (),
      fa_authorityAfter = None, fa_stopped = Inr ()\<rparr>"

definition example_run :: "effect_kind \<Rightarrow> effects_state \<Rightarrow> effects_state" where
  "example_run kind s = snd (perform [ExProcess] example_answers (example_effect kind) s)"

lemma example_reachable:
  "effects_reachable sha256 [ExProcess] s \<Longrightarrow> effects_reachable sha256 [ExProcess] (example_run kind s)"
  "effects_step sha256 [ExProcess] s (example_run kind s)"
proof -
  have "one_manifest example_answers" by (simp add: one_manifest_def example_answers_def)
  then show step: "effects_step sha256 [ExProcess] s (example_run kind s)"
    unfolding example_run_def by (rule effects_step.performed) (rule prod.collapse [symmetric])
  show "effects_reachable sha256 [ExProcess] s \<Longrightarrow> effects_reachable sha256 [ExProcess] (example_run kind s)"
    unfolding effects_reachable_def by (rule rtranclp.rtrancl_into_rtrancl, assumption, rule step)
qed

lemma reachable_new: "effects_reachable sha256 supported new_effects"
  by (simp add: effects_reachable_def)

section \<open>Replay\<close>

definition bookkeeping :: "effects_state \<Rightarrow> (jstring, cached_operation) jsmap \<times> (jstring, jstring \<times> jstring) jsmap \<times>
    jstring list \<times> jstring list" where
  "bookkeeping s = (fx_operations s, fx_fingerprints s, fx_stoppedOperations s, fx_closingAuthorities s)"

definition quiet :: "'a effect_run \<Rightarrow> bool" where
  "quiet m \<longleftrightarrow> (\<forall>s r s'. m s = (r, s') \<longrightarrow> bookkeeping s' = bookkeeping s)"

named_theorems quiets \<open>parts of a run that leave the bookkeeping of operations alone\<close>

lemma quiet_basic [quiets]:
  "quiet (run_return x)" "quiet (run_result r)" "quiet (host_calls c answer)" "quiet (release_artifact digest)"
  "quiet (acquire_artifact digest artifact)" "quiet (on_registry f)"
  by (auto simp: quiet_def bookkeeping_def run_return_def run_result_def host_calls_def release_artifact_def
      acquire_artifact_def on_registry_def split: if_splits sum.splits prod.splits)

lemma quiet_then [quiets]:
  assumes "quiet m" and "\<And>x. quiet (f x)"
  shows "quiet (run_then m f)"
  unfolding quiet_def
proof (intro allI impI)
  fix s r s' assume run: "run_then m f s = (r, s')"
  obtain r1 s1 where first: "m s = (r1, s1)" by (cases "m s")
  with run assms show "bookkeeping s' = bookkeeping s" by (cases r1) (auto simp: run_then_def quiet_def)
qed

lemma quiet_catch [quiets]:
  assumes "quiet m" and "\<And>e. quiet (handler e)"
  shows "quiet (run_catch m handler)"
  unfolding quiet_def
proof (intro allI impI)
  fix s r s' assume run: "run_catch m handler s = (r, s')"
  obtain r1 s1 where first: "m s = (r1, s1)" by (cases "m s")
  with run assms show "bookkeeping s' = bookkeeping s" by (cases r1) (auto simp: run_catch_def quiet_def)
qed

lemma quiet_if [quiets]: "quiet m \<Longrightarrow> quiet n \<Longrightarrow> quiet (if b then m else n)"
  by simp

lemma quiet_remaining_cleanup [quiets]: "quiet (remaining_cleanup a e authority progress)"
  unfolding remaining_cleanup_def stop_host_def stop_artifact_def by (intro quiets)

lemma quiet_admitted_entry [quiets]: "quiet (admitted_entry e authority)"
  unfolding quiet_def
proof (intro allI impI)
  fix s r s' assume "admitted_entry e authority s = (r, s')"
  then show "bookkeeping s' = bookkeeping s"
    using quiet_basic(6) [of "takeoverStopping e authority"]
    by (auto simp: admitted_entry_def run_result_def quiet_def split: sum.splits if_splits)
qed

lemma quiet_prepare_effect [quiets]: "quiet (prepare_effect a e authority)"
  unfolding quiet_def
proof (intro allI impI)
  fix s r s' assume run: "prepare_effect a e authority s = (r, s')"
  have body: "quiet (run_then (acquire_artifact (re_artifactDigest e) (fa_prepared a)) (\<lambda>artifact.
      run_catch (bind_component a e authority d validated artifact) (\<lambda>err.
        run_then (run_catch (release_artifact (re_artifactDigest e))
          (\<lambda>_. run_result (Inl (Diagnostic ''LIFECYCLE_PREPARE_ROLLBACK_FAILED''))))
          (\<lambda>_. run_result (Inl err)))))" for d validated
    unfolding bind_component_def by (intro quiets)
  show "bookkeeping s' = bookkeeping s"
    using run body unfolding prepare_effect_def
    by (auto simp: run_result_def quiet_def split: option.splits sum.splits if_splits)
qed

lemma quiet_require [quiets]: "quiet (require_component i)"
  by (auto simp: quiet_def require_component_def)

lemma quiet_restorable_entry [quiets]: "quiet (restorable_entry a i e authority)"
proof -
  have "quiet (run_then (prepare_effect a e authority) (\<lambda>_.
      run_then (require_component (ci_instanceId i)) (\<lambda>entry. run_return (Some entry))))" by (intro quiets)
  then show ?thesis by (auto simp: quiet_def restorable_entry_def run_result_def split: option.splits)
qed

lemma run_then_Inr: "run_then m f s = (Inr r, s') \<longleftrightarrow> (\<exists>x t. m s = (Inr x, t) \<and> f x t = (Inr r, s'))"
  by (cases "m s") (auto simp: run_then_def split: sum.splits)

lemma run_component_success:
  assumes "run_component a e entry authority c answer current next s = (Inr u, s')"
  shows "bookkeeping s' = bookkeeping s"
proof (cases "fa_authorityAfter a = authority")
  case True
  have "quiet (run_then (host_calls c answer) (\<lambda>_. run_then (on_registry (transition e current next authority)) (\<lambda>_. run_return ())))"
    by (intro quiets)
  moreover have "run_component a e entry authority c answer current next =
      run_then (host_calls c answer) (\<lambda>_. run_then (on_registry (transition e current next authority)) (\<lambda>_. run_return ()))"
    using True by (simp add: run_component_def)
  ultimately show ?thesis using assms unfolding quiet_def by metis
next
  case False
  with assms show ?thesis by (auto simp: run_component_def run_then_Inr run_result_def)
qed

lemma perform_effect_success:
  assumes "perform_effect supported a e authority s = (Inr r, s')" and "re_kind e \<noteq> Stop"
  shows "bookkeeping s' = bookkeeping s"
proof (cases "re_kind e = Prepare")
  case True
  have "quiet (run_then (prepare_effect a e authority) (\<lambda>b. run_return (Some b)))" by (intro quiets)
  with assms True show ?thesis by (auto simp: perform_effect_def run_result_def quiet_def split: if_splits)
next
  case False
  with assms obtain entry t u where first: "admitted_entry e authority s = (Inr entry, t)"
    and body: "(case re_kind e of
         Start \<Rightarrow>
           if rg_state entry \<noteq> BindingPrepared then run_result (Inl transition_invalid)
           else run_component a e entry authority (HostStart (re_instanceId e)) (fa_started a) BindingPrepared BindingActive
       | Drain \<Rightarrow>
           if rg_state entry \<noteq> BindingActive then run_result (Inl transition_invalid)
           else run_component a e entry authority (HostDrain (re_instanceId e)) (fa_drained a) BindingActive BindingDraining
       | _ \<Rightarrow> stop_effect a e entry authority) t = (Inr u, s')"
    by (auto simp: perform_effect_def run_then_Inr run_result_def run_return_def split: if_splits)
  from body False assms(2) have "bookkeeping s' = bookkeeping t"
    by (cases "re_kind e") (auto simp: run_result_def split: if_splits dest: run_component_success)
  moreover have "bookkeeping t = bookkeeping s" using first quiet_admitted_entry by (auto simp: quiet_def)
  ultimately show ?thesis by simp
qed

text \<open>
  Facts of the bookkeeping that a run keeps. Only the removal of a stopped instance forgets operations;
  \<open>may_forget\<close> says of which instances, and which operation is retained.
\<close>

locale operation_fact =
  fixes F :: "effects_state \<Rightarrow> bool" and may_forget :: "jstring \<Rightarrow> jstring \<Rightarrow> bool"
  assumes same_books: "F s \<Longrightarrow> bookkeeping s' = bookkeeping s \<Longrightarrow> F s'"
    and forgets: "F s \<Longrightarrow> may_forget i retained \<Longrightarrow> F (forgetInstanceOperations i retained s)"
begin

definition preserves :: "'a effect_run \<Rightarrow> bool" where
  "preserves m \<longleftrightarrow> (\<forall>s r s'. F s \<longrightarrow> m s = (r, s') \<longrightarrow> F s')"

lemma preservesD: "preserves m \<Longrightarrow> m s = (r, s') \<Longrightarrow> F s \<Longrightarrow> F s'"
  by (simp add: preserves_def)

lemma preserves_quiet: "quiet m \<Longrightarrow> preserves m"
  unfolding quiet_def preserves_def using same_books by blast

lemma preserves_then:
  assumes "preserves m" and "\<And>x. preserves (f x)"
  shows "preserves (run_then m f)"
  unfolding preserves_def
proof (intro allI impI)
  fix s r s' assume start: "F s" and run: "run_then m f s = (r, s')"
  obtain r1 s1 where first: "m s = (r1, s1)" by (cases "m s")
  with start assms(1) have "F s1" by (auto simp: preserves_def)
  with first run assms(2) show "F s'" by (cases r1) (auto simp: run_then_def preserves_def)
qed

lemma preserves_catch:
  assumes "preserves m" and "\<And>e. preserves (handler e)"
  shows "preserves (run_catch m handler)"
  unfolding preserves_def
proof (intro allI impI)
  fix s r s' assume start: "F s" and run: "run_catch m handler s = (r, s')"
  obtain r1 s1 where first: "m s = (r1, s1)" by (cases "m s")
  with start assms(1) have "F s1" by (auto simp: preserves_def)
  with first run assms(2) show "F s'" by (cases r1) (auto simp: run_catch_def preserves_def)
qed

lemma preserves_if: "preserves m \<Longrightarrow> preserves n \<Longrightarrow> preserves (if b then m else n)"
  by simp

lemma preserves_pair: "(\<And>x y. preserves (f x y)) \<Longrightarrow> preserves (case p of (x, y) \<Rightarrow> f x y)"
  by (cases p) simp

lemmas preserves_rules = preserves_then preserves_if preserves_pair quiet_basic [THEN preserves_quiet]
  quiet_remaining_cleanup [THEN preserves_quiet] quiet_admitted_entry [THEN preserves_quiet]
  quiet_prepare_effect [THEN preserves_quiet]

lemma preserves_remove:
  assumes "may_forget (re_instanceId e) (re_operationId e)"
  shows "preserves (remove_stopped e authority)"
proof -
  have "preserves (forget_stopped e)" using assms forgets by (auto simp: preserves_def forget_stopped_def)
  then show ?thesis unfolding remove_stopped_def by (intro preserves_rules)
qed

lemma preserves_cleanup_steps: "preserves (stop_host a e authority p)" "preserves (stop_artifact e authority p)"
  unfolding stop_host_def stop_artifact_def by (intro preserves_rules preserves_catch)+

lemma preserves_run_component:
  assumes "may_forget (re_instanceId e) (re_operationId e)"
  shows "preserves (run_component a e entry authority c answer current next)"
  unfolding run_component_def cleanupAfterAuthorityLoss_def
  by (intro preserves_rules preserves_cleanup_steps preserves_remove assms)

lemma preserves_perform_effect:
  assumes "may_forget (re_instanceId e) (re_operationId e)"
  shows "preserves (perform_effect supported a e authority)"
proof -
  have stop: "preserves (stop_effect a e entry authority)" for entry
    unfolding stop_effect_def by (intro preserves_rules preserves_remove assms)
  have "preserves (case re_kind e of
      Start \<Rightarrow>
        if rg_state entry \<noteq> BindingPrepared then run_result (Inl transition_invalid)
        else run_component a e entry authority (HostStart (re_instanceId e)) (fa_started a) BindingPrepared BindingActive
    | Drain \<Rightarrow>
        if rg_state entry \<noteq> BindingActive then run_result (Inl transition_invalid)
        else run_component a e entry authority (HostDrain (re_instanceId e)) (fa_drained a) BindingActive BindingDraining
    | _ \<Rightarrow> stop_effect a e entry authority)" for entry
    using stop by (cases "re_kind e") (simp_all add: preserves_run_component [OF assms] preserves_quiet quiet_basic)
  then show ?thesis unfolding perform_effect_def by (intro preserves_rules)
qed

lemma preserves_state: "(\<And>x. preserves (m x)) \<Longrightarrow> preserves (\<lambda>s. m (f s) s)"
  by (auto simp: preserves_def)

text \<open>The other operations, where any instance may be forgotten.\<close>

lemma preserves_restore:
  assumes "\<And>i retained. may_forget i retained"
  shows "preserves (restore sha256 a i authority)" "preserves (restoreTermination sha256 a i authority)"
    "preserves (restoreStarting supported a e)"
proof -
  have removes: "preserves (run_component a e entry authority c answer current next)" for e entry c answer current "next"
    by (rule preserves_run_component [OF assms])
  have entry: "preserves (restorable_entry a i e authority)" for e
    by (rule preserves_quiet [OF quiet_restorable_entry])
  have "preserves (case entry of None \<Rightarrow> run_return () | Some entry \<Rightarrow>
      run_component a e entry authority (HostStart (ci_instanceId i)) (fa_started a) BindingPrepared BindingActive)" for entry e
    by (cases entry) (simp_all add: removes preserves_quiet quiet_basic)
  then have effect: "preserves (restore_effect a i e authority)" for e
    unfolding restore_effect_def by (intro preserves_rules entry)
  then show "preserves (restore sha256 a i authority)"
    unfolding restore_def preserves_def by (auto split: sum.splits if_splits)
  show "preserves (restoreTermination sha256 a i authority)"
    unfolding restoreTermination_def by (intro preserves_rules quiet_require [THEN preserves_quiet])
  have "preserves (run_then (prepare_effect a e authority) (\<lambda>_. run_return ()))" for authority by (intro preserves_rules)
  then show "preserves (restoreStarting supported a e)"
    unfolding restoreStarting_def preserves_def by (auto split: sum.splits if_splits)
qed

lemma preserves_close_entries:
  assumes "\<And>i retained. may_forget i retained"
  shows "preserves (close_entries sha256 answers authority entries)"
proof (induction entries)
  case Nil
  show ?case by (simp add: preserves_quiet quiet_basic)
next
  case (Cons entry rest)
  have "preserves (close_entry a e entry authority)" for a e
    unfolding close_entry_def drain_active_def by (intro preserves_rules preserves_catch preserves_remove assms)
  then show ?case using Cons by (simp, intro impI preserves_rules)
qed

lemma preserves_close_authority:
  assumes "\<And>i retained. may_forget i retained"
  shows "preserves (close_authority sha256 answers authority)"
proof -
  have "preserves (\<lambda>s. run_then (close_entries sha256 answers authority (map snd (fx_registry s))) (\<lambda>failures.
      if failures \<noteq> [] then run_result (Inl (Diagnostic ''LIFECYCLE_CLOSE_FAILED'')) else run_return ()) s)"
    by (rule preserves_state [where m = "\<lambda>entries. run_then (close_entries sha256 answers authority (map snd entries)) (\<lambda>failures.
        if failures \<noteq> [] then run_result (Inl (Diagnostic ''LIFECYCLE_CLOSE_FAILED'')) else run_return ())"])
      (intro preserves_rules preserves_close_entries assms)
  then show ?thesis by (simp only: close_authority_def [abs_def])
qed

end

definition operations_distinct :: "effects_state \<Rightarrow> bool" where
  "operations_distinct s \<longleftrightarrow> distinct (map fst (fx_operations s))"

lemma distinct_map_filter: "distinct (map f xs) \<Longrightarrow> distinct (map f (filter P xs))"
  by (induction xs) auto

lemma forget_distinct: "operations_distinct s \<Longrightarrow> operations_distinct (forgetInstanceOperations i retained s)"
  by (simp add: operations_distinct_def forgetInstanceOperations_def trim_stopped_def Let_def distinct_map_filter
      del: filter_filter)

interpretation distinct_operations: operation_fact operations_distinct "\<lambda>_ _. True"
  by unfold_locales (simp_all add: forget_distinct, simp add: operations_distinct_def bookkeeping_def)

lemma perform_distinct:
  assumes "perform supported a e s = (r, s')" and "operations_distinct s"
  shows "operations_distinct s'"
proof -
  have begins: "operations_distinct (begin_operation e authority s)" for authority
    using assms(2) by (simp add: operations_distinct_def begin_operation_def removeFailedOperation_def Let_def distinct_update)
  have ends: "operations_distinct t \<Longrightarrow> operations_distinct (end_operation k outcome t)" for k outcome t
    by (auto simp: operations_distinct_def end_operation_def retainFailedOperation_def Let_def distinct_update distinct_delete
        split: option.split sum.split)
  show ?thesis
    using assms begins ends distinct_operations.preservesD [OF distinct_operations.preserves_perform_effect]
    by (auto simp: perform_def Let_def split: sum.splits if_splits option.splits prod.splits)
qed

lemma step_distinct:
  assumes "effects_step sha256 supported s s'" and "operations_distinct s"
  shows "operations_distinct s'"
  using assms(1)
proof cases
  case (performed a e r)
  then show ?thesis using perform_distinct assms(2) by blast
next
  case (restored a i authority r)
  show ?thesis by (rule distinct_operations.preservesD [OF distinct_operations.preserves_restore(1) [OF TrueI] restored(2) assms(2)])
next
  case (terminating a i authority r)
  show ?thesis by (rule distinct_operations.preservesD [OF distinct_operations.preserves_restore(2) [OF TrueI] terminating(2) assms(2)])
next
  case (starting a e r)
  show ?thesis by (rule distinct_operations.preservesD [OF distinct_operations.preserves_restore(3) [OF TrueI] starting(2) assms(2)])
next
  case (closing answers authority r)
  define t where "t = s\<lparr>fx_closingAuthorities := List.insert (authority_prefix authority) (fx_closingAuthorities s)\<rparr>"
  have t: "operations_distinct t" using assms(2) by (simp add: t_def operations_distinct_def)
  show ?thesis
  proof (cases "authority_prefix authority \<in> set (fx_closeAttempts s)")
    case True
    with closing assms(2) show ?thesis by (simp add: close_effects_def Let_def)
  next
    case False
    obtain q u where run: "close_authority sha256 answers authority t = (q, u)" by (cases "close_authority sha256 answers authority t")
    have "operations_distinct u"
      by (rule distinct_operations.preservesD [OF distinct_operations.preserves_close_authority [OF TrueI] run t])
    with False closing run show ?thesis
      by (cases q) (auto simp: close_effects_def Let_def operations_distinct_def simp flip: t_def)
  qed
qed

lemma reachable_distinct:
  assumes "effects_reachable sha256 supported s"
  shows "operations_distinct s"
proof -
  have "(effects_step sha256 supported)\<^sup>*\<^sup>* s0 s \<Longrightarrow> operations_distinct s0 \<Longrightarrow> operations_distinct s" for s0
    by (induction rule: rtranclp_induct) (auto dest: step_distinct)
  then show ?thesis using assms by (simp add: effects_reachable_def operations_distinct_def new_effects_def)
qed

text \<open>The record of one operation, and what other instances do to it.\<close>

definition record_kept ::
  "jstring \<Rightarrow> cached_operation \<Rightarrow> jstring \<times> jstring \<Rightarrow> jstring list \<Rightarrow> effects_state \<Rightarrow> bool" where
  "record_kept k operation known closing s \<longleftrightarrow>
     operations_distinct s \<and> map_of (fx_operations s) k = Some operation \<and> map_of (fx_fingerprints s) k = Some known \<and>
     k \<notin> set (fx_stoppedOperations s) \<and> fx_closingAuthorities s = closing"

lemma map_of_filter_first: "map_of m k = Some v \<Longrightarrow> P (k, v) \<Longrightarrow> map_of (filter P m) k = Some v"
  by (induction m) (auto split: if_splits)

lemma forget_other:
  assumes kept: "record_kept k operation known closing s"
    and other: "i \<noteq> op_instanceId operation" "i \<noteq> snd known" "retained \<noteq> k"
  shows "record_kept k operation known closing (forgetInstanceOperations i retained s)"
proof -
  define forgotten where
    "forgotten = map fst (filter (\<lambda>(key, found). op_instanceId found = i \<and> key \<noteq> retained) (fx_operations s))"
  define waiting where "waiting = fx_stoppedOperations s @ [retained]"
  have distinct: "distinct (map fst (fx_operations s))" and operation: "map_of (fx_operations s) k = Some operation"
    and fingerprint: "map_of (fx_fingerprints s) k = Some known" and stopped: "k \<notin> set (fx_stoppedOperations s)"
    using kept by (simp_all add: record_kept_def operations_distinct_def)
  have "k \<notin> set forgotten"
  proof
    assume "k \<in> set forgotten"
    then obtain found where "(k, found) \<in> set (fx_operations s)" "op_instanceId found = i" by (auto simp: forgotten_def)
    with distinct operation other(1) show False by (auto dest: map_of_is_SomeI)
  qed
  moreover have unexpired: "k \<notin> set (take n waiting)" for n
    using stopped other(3) by (auto simp: waiting_def dest: in_set_takeD)
  ultimately have kept_maps: "map_of (filter (\<lambda>(key, _). key \<notin> set (take n waiting)) (filter (\<lambda>(key, _). key \<notin> set forgotten) (fx_operations s))) k =
      Some operation"
    "map_of (filter (\<lambda>(key, _). key \<notin> set (take n waiting))
      (filter (\<lambda>(key, known). key \<notin> set forgotten \<and> \<not> (snd known = i \<and> key \<noteq> retained)) (fx_fingerprints s))) k = Some known" for n
    using operation fingerprint other(2) by (simp_all add: map_of_filter_first del: filter_filter)
  have "operations_distinct (forgetInstanceOperations i retained s)"
    using kept by (simp add: record_kept_def forget_distinct)
  moreover have "k \<notin> set (drop n waiting)" for n
    using stopped other(3) by (auto simp: waiting_def dest: in_set_dropD)
  ultimately show ?thesis using kept kept_maps
    unfolding record_kept_def forgetInstanceOperations_def trim_stopped_def Let_def
    by (simp del: filter_filter flip: waiting_def forgotten_def)
qed

interpretation kept_record: operation_fact "record_kept k operation known closing"
    "\<lambda>i retained. i \<noteq> op_instanceId operation \<and> i \<noteq> snd known \<and> retained \<noteq> k" for k operation known closing
proof
  fix s s' assume "record_kept k operation known closing s" "bookkeeping s' = bookkeeping s"
  then show "record_kept k operation known closing s'" by (simp add: record_kept_def operations_distinct_def bookkeeping_def)
next
  fix s i retained assume "record_kept k operation known closing s"
    "i \<noteq> op_instanceId operation \<and> i \<noteq> snd known \<and> retained \<noteq> k"
  then show "record_kept k operation known closing (forgetInstanceOperations i retained s)" by (simp add: forget_other)
qed

text \<open>
  An effect that leaves a component's records alone: one of another instance, whatever comes of it, or one of the
  same instance that succeeds and is not its stop.
\<close>

definition leaves_records :: "jstring \<Rightarrow> reconcile_effect \<Rightarrow> json option result \<Rightarrow> bool" where
  "leaves_records instanceId e r \<longleftrightarrow> re_instanceId e \<noteq> instanceId \<or> re_kind e \<noteq> Stop \<and> (\<exists>x. r = Inr x)"

lemma begin_keeps_record:
  "record_kept k operation known closing s \<Longrightarrow> re_operationId e \<noteq> k \<Longrightarrow>
   record_kept k operation known closing (begin_operation e authority s)"
  by (simp add: record_kept_def operations_distinct_def begin_operation_def removeFailedOperation_def Let_def map_lookups distinct_update)

lemma end_keeps_record:
  assumes "record_kept k operation known closing s" and "key \<noteq> k"
  shows "record_kept k operation known closing (end_operation key outcome s)"
proof -
  have "map_of (AList.delete key (fx_operations s)) k = Some operation" using assms by (simp add: record_kept_def map_lookups)
  then have known: "k \<in> fst ` set (AList.delete key (fx_operations s))" by (force dest: map_of_SomeD)
  then have "map_of (filter (\<lambda>(x, _). x \<notin> expired \<or> x \<in> fst ` set (AList.delete key (fx_operations s))) (fx_fingerprints s)) k =
      Some known" for expired
    using assms(1) by (intro map_of_filter_first) (auto simp: record_kept_def)
  moreover have "operations_distinct (retainFailedOperation key (s\<lparr>fx_operations := AList.delete key (fx_operations s)\<rparr>))"
    and updated: "operations_distinct (s\<lparr>fx_operations := AList.update key found (fx_operations s)\<rparr>)" for found
    using assms(1) by (simp_all add: record_kept_def operations_distinct_def retainFailedOperation_def Let_def distinct_delete distinct_update)
  ultimately have "record_kept k operation known closing
      (retainFailedOperation key (s\<lparr>fx_operations := AList.delete key (fx_operations s)\<rparr>))"
    using assms unfolding record_kept_def by (simp add: retainFailedOperation_def Let_def map_lookups del: take_append drop_append)
  moreover have "record_kept k operation known closing
      (s\<lparr>fx_operations := AList.update key found (fx_operations s)\<rparr>)" for found
    using assms updated unfolding record_kept_def by (simp add: map_lookups)
  ultimately show ?thesis using assms(1) by (simp add: end_operation_def split: option.split sum.split)
qed

lemma perform_keeps_record:
  assumes kept: "record_kept k operation known closing s"
    and instances: "op_instanceId operation = i" "snd known = i"
    and run: "perform supported a e s = (r, s')" and leaves: "leaves_records i e r"
  shows "record_kept k operation known closing s'"
proof (cases "s' = s")
  case False
  define s0 where "s0 = begin_operation e (fa_authority a) s"
  obtain outcome t where effect: "perform_effect supported a e (fa_authority a) s0 = (outcome, t)"
    by (cases "perform_effect supported a e (fa_authority a) s0")
  from False run effect have unknown: "map_of (fx_operations s) (re_operationId e) = None"
    and ran: "r = outcome" "s' = end_operation (re_operationId e) outcome t"
    by (auto simp: perform_def Let_def s0_def split: sum.splits if_splits option.splits)
  from unknown kept have other: "re_operationId e \<noteq> k" by (auto simp: record_kept_def)
  with kept have start: "record_kept k operation known closing s0" by (simp add: s0_def begin_keeps_record)
  have "record_kept k operation known closing t"
  proof (cases "re_instanceId e = i")
    case True
    with leaves ran(1) effect have "bookkeeping t = bookkeeping s0"
      by (auto simp: leaves_records_def dest: perform_effect_success)
    with start show ?thesis by (rule kept_record.same_books)
  next
    case False
    with instances other have "re_instanceId e \<noteq> op_instanceId operation \<and> re_instanceId e \<noteq> snd known \<and> re_operationId e \<noteq> k"
      by simp
    from kept_record.preservesD [OF kept_record.preserves_perform_effect [OF this] effect start] show ?thesis .
  qed
  with other ran(2) show ?thesis by (simp add: end_keeps_record)
qed (use kept in simp)

lemma perform_records:
  assumes unknown: "map_of (fx_operations s) (re_operationId e) = None"
    and unstopped: "re_operationId e \<notin> set (fx_stoppedOperations s)" and kind: "re_kind e \<noteq> Stop"
    and distinct: "operations_distinct s" and run: "perform supported a e s = (Inr r, s')"
  shows "record_kept (re_operationId e)
    \<lparr>op_fingerprint = effectFingerprint e, op_instanceId = re_instanceId e, op_authority = fa_authority a,
     op_status = OperationSucceeded r\<rparr> (effectFingerprint e, re_instanceId e) (fx_closingAuthorities s) s'"
proof -
  define s0 where "s0 = begin_operation e (fa_authority a) s"
  obtain t where effect: "perform_effect supported a e (fa_authority a) s0 = (Inr r, t)"
    and s': "s' = end_operation (re_operationId e) (Inr r) t"
    using unknown run by (auto simp: perform_def Let_def s0_def split: sum.splits if_splits prod.splits)
  have "bookkeeping t = bookkeeping s0" using effect kind by (rule perform_effect_success)
  then show ?thesis using distinct unstopped
    by (simp add: s' s0_def record_kept_def bookkeeping_def operations_distinct_def begin_operation_def removeFailedOperation_def
        end_operation_def Let_def map_lookups distinct_update)
qed

lemma replays_record:
  assumes "record_kept (re_operationId e)
      \<lparr>op_fingerprint = effectFingerprint e, op_instanceId = re_instanceId e, op_authority = fa_authority a,
       op_status = OperationSucceeded r\<rparr> (effectFingerprint e, re_instanceId e) closing s"
    and "parseActivation (JStr (re_activation e)) = Inr activation" "authority_prefix (fa_authority a) \<notin> set closing"
  shows "perform supported a e s = (Inr r, s)"
  using assms by (simp add: record_kept_def perform_def Let_def replayed_operation_def sameAuthority_iff)

text \<open>
  C25. A prepare, start or drain that has succeeded is not performed again while its record stands: whatever is
  performed for other components afterwards, failed or not, and whatever succeeds for this one short of its stop,
  the effect presented again under the same authority returns the recorded result and changes nothing, no call to
  the host included. The operation is one that was not known before and that does not name a stopped component's
  last operation, whose record waits to expire.
\<close>

theorem perform_replayed:
  assumes reachable: "effects_reachable sha256 supported s" and kind: "re_kind e \<noteq> Stop"
    and fresh: "map_of (fx_operations s) (re_operationId e) = None" "re_operationId e \<notin> set (fx_stoppedOperations s)"
    and performed: "perform supported a e s = (Inr r, s')"
    and later: "(\<lambda>u v. \<exists>b f q. perform supported b f u = (q, v) \<and> leaves_records (re_instanceId e) f q)\<^sup>*\<^sup>* s' s''"
    and authority: "fa_authority a' = fa_authority a"
  shows "perform supported a' e s'' = (Inr r, s'')"
proof -
  obtain activation where activation: "parseActivation (JStr (re_activation e)) = Inr activation"
    and opened: "authority_prefix (fa_authority a) \<notin> set (fx_closingAuthorities s)"
    using performed by (auto simp: perform_def Let_def split: sum.splits if_splits)
  have "record_kept (re_operationId e)
    \<lparr>op_fingerprint = effectFingerprint e, op_instanceId = re_instanceId e, op_authority = fa_authority a,
     op_status = OperationSucceeded r\<rparr> (effectFingerprint e, re_instanceId e) (fx_closingAuthorities s) s''"
    using later
    by (induction rule: rtranclp_induct)
      (auto intro: perform_records [OF fresh kind reachable_distinct [OF reachable] performed] perform_keeps_record)
  with activation opened show ?thesis by (intro replays_record) (simp_all add: authority)
qed

section \<open>A stop completes\<close>

lemma stop_host_completes:
  assumes "stopping_here e authority x t" and "fa_stopped a = Inr ()"
  shows "stop_host a e authority (x, fs) t =
    (Inr (x\<lparr>rg_hostStopped := True\<rparr>, fs),
     t\<lparr>fx_calls := fx_calls t @ [(HostStop (re_instanceId e), True)],
       fx_registry := AList.update (re_instanceId e) (x\<lparr>rg_hostStopped := True\<rparr>) (fx_registry t)\<rparr>)"
proof -
  have "updateStopProgress e True False authority (fx_registry t) =
      Inr (x\<lparr>rg_hostStopped := True\<rparr>, AList.update (re_instanceId e) (x\<lparr>rg_hostStopped := True\<rparr>) (fx_registry t))"
    using assms(1) by (simp add: updateStopProgress_Inr stopping_here_def entry_here_def)
  with assms(2) show ?thesis
    by (simp add: stop_host_def run_catch_def run_then_def host_calls_def on_registry_def run_return_def)
qed

lemma stop_artifact_completes:
  assumes "stopping_here e authority x t" and "0 < references (re_artifactDigest e) t"
  shows "\<exists>t'. stop_artifact e authority (x, fs) t = (Inr (x\<lparr>rg_artifactReleased := True\<rparr>, fs), t') \<and>
    fx_registry t' = AList.update (re_instanceId e) (x\<lparr>rg_artifactReleased := True\<rparr>) (fx_registry t) \<and> fx_calls t' = fx_calls t \<and>
    (\<forall>d. references d t' = references d t - (if d = re_artifactDigest e then 1 else 0))"
proof -
  have "updateStopProgress e False True authority (fx_registry t) =
      Inr (x\<lparr>rg_artifactReleased := True\<rparr>, AList.update (re_instanceId e) (x\<lparr>rg_artifactReleased := True\<rparr>) (fx_registry t))"
    using assms(1) by (simp add: updateStopProgress_Inr stopping_here_def entry_here_def)
  with assms(2) show ?thesis
    by (simp add: stop_artifact_def run_catch_def run_then_def release_artifact_def on_registry_def run_return_def
        references_def map_lookups Let_def)
qed

lemma cleanup_completes:
  assumes "stopping_here e authority x t" and "fa_stopped a = Inr ()"
    and "\<not> rg_artifactReleased x \<Longrightarrow> 0 < references (re_artifactDigest e) t"
  shows "\<exists>y t'. remaining_cleanup a e authority (x, []) t = (Inr (y, []), t') \<and> stopping_here e authority y t' \<and>
    rg_hostStopped y \<and> rg_artifactReleased y \<and>
    fx_calls t' = fx_calls t @ (if rg_hostStopped x then [] else [(HostStop (re_instanceId e), True)]) \<and>
    (\<forall>d. references d t' = references d t - (if d = re_artifactDigest e \<and> \<not> rg_artifactReleased x then 1 else 0))"
proof -
  define x1 where "x1 = x\<lparr>rg_hostStopped := True\<rparr>"
  obtain t1 where first: "(if rg_hostStopped x then run_return (x, []) else stop_host a e authority (x, [])) t = (Inr (x1, []), t1)"
    and t1: "stopping_here e authority x1 t1" "fx_references t1 = fx_references t"
      "fx_calls t1 = fx_calls t @ (if rg_hostStopped x then [] else [(HostStop (re_instanceId e), True)])"
  proof (cases "rg_hostStopped x")
    case True
    then have "x1 = x" by (simp add: x1_def)
    with True assms(1) show ?thesis by (intro that [of t]) (simp_all add: run_return_def)
  next
    case False
    from stop_host_completes [OF assms(1,2), of "[]"] assms(1) False show ?thesis
      by (intro that [of "t\<lparr>fx_calls := fx_calls t @ [(HostStop (re_instanceId e), True)],
          fx_registry := AList.update (re_instanceId e) (x\<lparr>rg_hostStopped := True\<rparr>) (fx_registry t)\<rparr>"])
        (simp_all add: x1_def stopping_here_def entry_here_def map_lookups)
  qed
  obtain y t' where second: "(if rg_artifactReleased x1 then run_return (x1, []) else stop_artifact e authority (x1, [])) t1 = (Inr (y, []), t')"
    and "stopping_here e authority y t'" "rg_hostStopped y" "rg_artifactReleased y" "fx_calls t' = fx_calls t1"
      "\<forall>d. references d t' = references d t1 - (if d = re_artifactDigest e \<and> \<not> rg_artifactReleased x1 then 1 else 0)"
  proof (cases "rg_artifactReleased x1")
    case True
    with t1(1) show ?thesis by (intro that [of x1 t1]) (simp_all add: run_return_def x1_def)
  next
    case False
    then have "0 < references (re_artifactDigest e) t1" using assms(3) t1(2) by (simp add: x1_def references_def)
    from stop_artifact_completes [OF t1(1) this, of "[]"] obtain t' where
      "stop_artifact e authority (x1, []) t1 = (Inr (x1\<lparr>rg_artifactReleased := True\<rparr>, []), t')"
      "fx_registry t' = AList.update (re_instanceId e) (x1\<lparr>rg_artifactReleased := True\<rparr>) (fx_registry t1)" "fx_calls t' = fx_calls t1"
      "\<forall>d. references d t' = references d t1 - (if d = re_artifactDigest e then 1 else 0)"
      by blast
    with False t1(1) show ?thesis
      by (intro that [of "x1\<lparr>rg_artifactReleased := True\<rparr>" t']) (auto simp: x1_def stopping_here_def entry_here_def map_lookups)
  qed
  moreover have "references d t1 = references d t" for d using t1(2) by (simp add: references_def)
  ultimately show ?thesis using first second t1(3) by (auto simp: remaining_cleanup_def run_then_def x1_def)
qed

lemma held_positive:
  "map_of entries i = Some entry \<Longrightarrow> holds_artifact digest entry \<Longrightarrow> 0 < held digest entries"
  by (induction entries) (auto split: if_splits)

text \<open>
  C24. A stop that is presented under the authority of the component, for the first time or again after it failed,
  completes once the host answers, whatever the earlier attempt left undone: the component is removed; the host is
  asked to stop it once, or not at all where it had stopped already; and the artifact is released once, or not at
  all where it had been released already. The executor is one the host supports, the authority is not being closed,
  and the operation is not on record as performed or as another effect.
\<close>

theorem stop_completes:
  assumes reachable: "effects_reachable sha256 supported s" and kind: "re_kind e = Stop"
    and entry: "map_of (fx_registry s) (re_instanceId e) = Some entry" "assertMatches e entry (fa_authority a) = Inr ()"
    and admitted: "re_executor e \<in> set supported" "authority_prefix (fa_authority a) \<notin> set (fx_closingAuthorities s)"
      "map_of (fx_operations s) (re_operationId e) = None"
      "case map_of (fx_fingerprints s) (re_operationId e) of None \<Rightarrow> True | Some known \<Rightarrow> fst known = effectFingerprint e"
    and stopped: "fa_stopped a = Inr ()"
  shows "\<exists>s'. perform supported a e s = (Inr None, s') \<and> map_of (fx_registry s') (re_instanceId e) = None \<and>
    fx_calls s' = fx_calls s @ (if rg_hostStopped entry then [] else [(HostStop (re_instanceId e), True)]) \<and>
    (\<forall>digest. references digest s' =
       references digest s - (if digest = re_artifactDigest e \<and> \<not> rg_artifactReleased entry then 1 else 0))"
proof -
  define authority where "authority = fa_authority a"
  define s0 where "s0 = begin_operation e authority s"
  have s0: "fx_registry s0 = fx_registry s" "fx_references s0 = fx_references s" "fx_calls s0 = fx_calls s"
    by (simp_all add: s0_def begin_operation_def removeFailedOperation_def Let_def)
  have here: "entry_here e authority entry s0" using entry by (simp add: entry_here_def s0 authority_def)
  have activation: "\<exists>x. parseActivation (JStr (re_activation e)) = Inr x"
    using entry(2) by (auto simp: assertMatches_def entry_matches_def matchesIdentity_def Let_def split: if_splits)
  have "sameAuthority (bn_authority (rg_binding entry)) authority"
    using assertMatches_Inr(2) [OF entry(2)] by (simp add: sameAuthority_iff authority_def)
  then have admit: "admitted_entry e authority s0 = (Inr entry, s0)"
    using here by (simp add: admitted_entry_def entry_here_def require_entry_def run_result_def)
  define x where "x = entry\<lparr>rg_state := BindingStopping, rg_acceptingTasks := False\<rparr>"
  have ok: "entry_ok entry" "pa_digest (bn_artifact (rg_binding entry)) = re_artifactDigest e"
    using entry_here_ok [OF _ here] reachable_ok(1) [OF reachable] by (simp_all add: artifacts_balanced_def s0)
  obtain t where stopping: "(if rg_state entry = BindingStopping then run_return entry
        else on_registry (transition e (rg_state entry) BindingStopping authority)) s0 = (Inr x, t)"
    and t: "stopping_here e authority x t" "fx_references t = fx_references s" "fx_calls t = fx_calls s"
  proof (cases "rg_state entry = BindingStopping")
    case True
    with ok(1) have "x = entry" by (simp add: x_def entry_ok_def)
    with True here show ?thesis by (intro that [of s0]) (simp_all add: run_return_def stopping_here_def s0)
  next
    case False
    have "transition e (rg_state entry) BindingStopping authority (fx_registry s0) =
        Inr (x, AList.update (re_instanceId e) x (fx_registry s0))"
      using here by (simp add: transition_Inr entry_here_def x_def)
    with False here show ?thesis
      by (intro that [of "s0\<lparr>fx_registry := AList.update (re_instanceId e) x (fx_registry s0)\<rparr>"])
        (simp_all add: on_registry_def stopping_here_def entry_here_def x_def map_lookups s0)
  qed
  have "0 < references (re_artifactDigest e) t" if "\<not> rg_artifactReleased x"
  proof -
    have "holds_artifact (re_artifactDigest e) entry" using that ok(2) by (simp add: holds_artifact_def x_def)
    from held_positive [OF entry(1) this] reachable_ok(1) [OF reachable] t(2) show ?thesis
      by (simp add: artifacts_balanced_def references_def)
  qed
  from cleanup_completes [OF t(1) stopped this] obtain y t' where
    cleanup: "remaining_cleanup a e authority (x, []) t = (Inr (y, []), t')" "stopping_here e authority y t'"
      "rg_hostStopped y" "rg_artifactReleased y"
      "fx_calls t' = fx_calls s @ (if rg_hostStopped entry then [] else [(HostStop (re_instanceId e), True)])"
      "\<forall>digest. references digest t' =
         references digest s - (if digest = re_artifactDigest e \<and> \<not> rg_artifactReleased entry then 1 else 0)"
    using t(2,3) by (auto simp: x_def references_def)
  define u where "u = forgetInstanceOperations (re_instanceId e) (re_operationId e)
      (t'\<lparr>fx_registry := AList.delete (re_instanceId e) (fx_registry t')\<rparr>)"
  have "remove_stopped e authority t' = (Inr (), u)"
    using cleanup(2-4) by (simp add: remove_stopped_def run_then_def on_registry_def remove_entry_def require_entry_def
        stopping_here_def entry_here_def forget_stopped_def u_def)
  with stopping cleanup have "stop_effect a e entry authority s0 = (Inr (), u)"
    by (simp add: stop_effect_def run_then_def)
  then have "perform_effect supported a e authority s0 = (Inr None, u)"
    using admit kind admitted(1) by (simp add: perform_effect_def run_then_def run_return_def)
  then have "perform supported a e s = (Inr None, end_operation (re_operationId e) (Inr None) u)"
    using activation admitted(2-4) by (auto simp: perform_def Let_def s0_def authority_def split: option.splits)
  moreover have "fx_registry u = AList.delete (re_instanceId e) (fx_registry t')" "fx_calls u = fx_calls t'" "fx_references u = fx_references t'"
    by (simp_all add: u_def forgetInstanceOperations_def trim_stopped_def Let_def)
  then have "map_of (fx_registry (end_operation (re_operationId e) (Inr None) u)) (re_instanceId e) = None"
    "fx_calls (end_operation (re_operationId e) (Inr None) u) = fx_calls t'"
    "references digest (end_operation (re_operationId e) (Inr None) u) = references digest t'" for digest
    by (simp_all add: end_operation_def references_def map_lookups split: option.split)
  ultimately show ?thesis using cleanup(5,6) by auto
qed

section \<open>Witnesses\<close>

definition example_binding :: component_binding where
  "example_binding =
     \<lparr>bn_instanceId = js ''i'', bn_activation = js ''1'', bn_executor = ExProcess, bn_workerId = None,
      bn_artifact = example_artifact, bn_deployment = example_deployment, bn_component = example_component,
      bn_authority = None, bn_executionBinding = JNull\<rparr>"

definition succeeded :: "effect_kind \<Rightarrow> json option \<Rightarrow> jstring \<times> cached_operation" where
  "succeeded kind result = (kind_name kind,
     \<lparr>op_fingerprint = effectFingerprint (example_effect kind), op_instanceId = js ''i'', op_authority = None,
      op_status = OperationSucceeded result\<rparr>)"

definition known_fingerprint :: "effect_kind \<Rightarrow> jstring \<times> jstring \<times> jstring" where
  "known_fingerprint kind = (kind_name kind, effectFingerprint (example_effect kind), js ''i'')"

definition prepared_run :: effects_state where
  "prepared_run = new_effects\<lparr>fx_registry := [(js ''i'', prepared_entry example_binding None)],
     fx_operations := [succeeded Prepare (Some JNull)], fx_fingerprints := [known_fingerprint Prepare],
     fx_references := [(js ''d'', 1)], fx_calls := [(HostPrepare (js ''i''), True)]\<rparr>"

definition active_entry :: registered_component where
  "active_entry = (prepared_entry example_binding None)\<lparr>rg_state := BindingActive, rg_acceptingTasks := True\<rparr>"

definition started_run :: effects_state where
  "started_run = prepared_run\<lparr>fx_registry := [(js ''i'', active_entry)],
     fx_operations := [succeeded Prepare (Some JNull), succeeded Start None],
     fx_fingerprints := [known_fingerprint Prepare, known_fingerprint Start],
     fx_calls := [(HostPrepare (js ''i''), True), (HostStart (js ''i''), True)]\<rparr>"

lemma example_activation: "parseActivation (JStr (js ''1'')) = Inr (js ''1'')"
  by code_simp

lemma example_effect_fields:
  "re_kind (example_effect kind) = kind" "re_activation (example_effect kind) = js ''1''"
  "re_operationId (example_effect kind) = kind_name kind" "re_instanceId (example_effect kind) = js ''i''"
  "re_applicationId (example_effect kind) = js ''app''" "re_pluginId (example_effect kind) = js ''shop''"
  "re_componentId (example_effect kind) = js ''web''" "re_deploymentGeneration (example_effect kind) = js ''1''"
  "re_artifactDigest (example_effect kind) = js ''d''" "re_executor (example_effect kind) = ExProcess"
  "re_workerId (example_effect kind) = None" "re_executionBinding (example_effect kind) = None"
  by (simp_all add: example_effect_def)

lemma example_parts:
  "pa_digest example_artifact = js ''d''" "pa_pluginId example_artifact = js ''shop''"
  "pa_components example_artifact = [example_component]"
  "pd_applicationId example_deployment = js ''app''" "pd_pluginId example_deployment = js ''shop''"
  "pd_artifactDigest example_deployment = js ''d''" "pd_generation example_deployment = js ''1''"
  "names_component (js ''web'') example_component" "runs_on ExProcess example_component"
  by (simp_all add: example_artifact_def example_deployment_def names_component_def runs_on_def json_member_def
      example_component_def js_inj del: js_simps)

lemma example_effect_binding:
  "effect_binding (example_effect Prepare) None example_deployment example_artifact example_component JNull = example_binding"
  by (simp add: example_binding_def effect_binding_def example_effect_fields effect_worker_def del: js_simps)

lemma example_register:
  "register (example_effect Prepare) example_binding None [] =
     Inr (prepared_entry example_binding None, [(js ''i'', prepared_entry example_binding None)])"
  unfolding example_effect_binding [symmetric]
  by (subst register_effect_binding(1) [where activation = "js ''1''" and validated = example_artifact])
    (simp_all add: example_effect_fields example_activation deployment_resolved_def selected_component_def
      example_parts js_inj del: js_simps)

lemmas run_defs = run_then_def run_catch_def run_return_def run_result_def host_calls_def on_registry_def acquire_artifact_def

lemma prepared_performed:
  "perform [ExProcess] example_answers (example_effect Prepare) new_effects = (Inr (Some JNull), prepared_run)"
  by (simp add: perform_def Let_def example_effect_fields example_activation example_answers_def new_effects_def authority_prefix_def
     begin_operation_def removeFailedOperation_def perform_effect_def run_defs prepare_effect_def deployment_resolved_def
     example_parts bind_component_def selected_component_def example_binding_def [symmetric] effect_worker_def example_register js_inj
     references_def end_operation_def prepared_run_def succeeded_def known_fingerprint_def del: js_simps)

lemma example_entry_matches:
  "rg_binding entry = example_binding \<Longrightarrow> assertMatches (example_effect kind) entry None = Inr ()"
  by (simp add: assertMatches_def entry_matches_def matchesIdentity_def Let_def example_effect_fields example_activation
      identity_fields_match_def execution_binding_matches_def sameAuthority_def example_binding_def example_parts del: js_simps)

lemma example_binding_unowned: "example_binding\<lparr>bn_authority := None\<rparr> = example_binding"
  by (simp add: example_binding_def)

lemma started_performed:
  "perform [ExProcess] example_answers (example_effect Start) prepared_run = (Inr None, started_run)"
  by (simp add: perform_def Let_def example_effect_fields example_activation example_answers_def prepared_run_def authority_prefix_def
     begin_operation_def removeFailedOperation_def perform_effect_def run_defs admitted_entry_def require_entry_def
     example_entry_matches prepared_entry_def example_binding_unowned run_component_def transition_def set_entry_def new_effects_def
     end_operation_def started_run_def active_entry_def succeeded_def known_fingerprint_def js_inj del: js_simps)

lemma prepared_reachable: "effects_reachable sha256 [ExProcess] prepared_run"
  using example_reachable(1) [OF reachable_new, of sha256 Prepare] by (simp add: example_run_def prepared_performed)

lemma started_step: "effects_step sha256 [ExProcess] prepared_run started_run"
  using example_reachable(2) [of sha256 prepared_run Start] by (simp add: example_run_def started_performed)

lemma started_reachable: "effects_reachable sha256 [ExProcess] started_run"
  using prepared_reachable started_step unfolding effects_reachable_def by (rule rtranclp.rtrancl_into_rtrancl)

lemma example_registry:
  "map_of (fx_registry prepared_run) (js ''i'') = Some (prepared_entry example_binding None)"
  "map_of (fx_registry started_run) (js ''i'') = Some active_entry"
  by (simp_all add: prepared_run_def started_run_def)

lemma artifact_references_exact_witness:
  "references (js ''d'') started_run = length (filter
     (\<lambda>(_, entry). pa_digest (bn_artifact (rg_binding entry)) = js ''d'' \<and> \<not> rg_artifactReleased entry) (fx_registry started_run))"
  by (rule artifact_references_exact [OF started_reachable [of "\<lambda>_. []"]])

lemma host_sessions_exact_witness:
  "session (js ''i'') (fx_calls started_run) =
     Some (case map_of (fx_registry started_run) (js ''i'') of None \<Rightarrow> False | Some entry \<Rightarrow> \<not> rg_hostStopped entry)"
  by (rule host_sessions_exact [OF started_reachable [of "\<lambda>_. []"]])

lemma registered_component_advances_witness:
  "advances (prepared_entry example_binding None) active_entry \<and>
   (rg_acceptingTasks active_entry \<longleftrightarrow> rg_state active_entry = BindingActive)"
proof (rule registered_component_advances [OF prepared_reachable [of "\<lambda>_. []"] _ example_registry])
  show "(effects_step (\<lambda>_. []) [ExProcess])\<^sup>*\<^sup>* prepared_run started_run"
    by (rule r_into_rtranclp, rule started_step)
qed (simp add: prepared_run_def started_run_def new_effects_def del: js_simps)

lemma perform_replayed_witness:
  "perform [ExProcess] example_answers (example_effect Prepare) started_run = (Inr (Some JNull), started_run)"
proof (rule perform_replayed [OF reachable_new [of "\<lambda>_. []"] _ _ _ prepared_performed])
  have "leaves_records (js ''i'') (example_effect Start) (Inr None)"
    by (simp add: leaves_records_def example_effect_fields)
  then show "(\<lambda>u v. \<exists>b f q. perform [ExProcess] b f u = (q, v) \<and>
      leaves_records (re_instanceId (example_effect Prepare)) f q)\<^sup>*\<^sup>* prepared_run started_run"
    using started_performed by (intro r_into_rtranclp) (auto simp: example_effect_fields simp del: js_simps)
qed (simp_all add: new_effects_def example_effect_fields)

text \<open>A stop whose host call failed, and the state it leaves.\<close>

definition stopping_entry :: registered_component where
  "stopping_entry = active_entry\<lparr>rg_state := BindingStopping, rg_acceptingTasks := False, rg_artifactReleased := True\<rparr>"

definition failed_run :: effects_state where
  "failed_run = started_run\<lparr>fx_registry := [(js ''i'', stopping_entry)],
     fx_fingerprints := [known_fingerprint Prepare, known_fingerprint Start, known_fingerprint Stop],
     fx_failedOperations := [kind_name Stop], fx_references := [(js ''d'', 0)],
     fx_calls := [(HostPrepare (js ''i''), True), (HostStart (js ''i''), True), (HostStop (js ''i''), False)]\<rparr>"

lemma stop_failed:
  "perform [ExProcess] (example_answers\<lparr>fa_stopped := Inl host_unavailable\<rparr>) (example_effect Stop) started_run =
     (Inl (Diagnostic ''LIFECYCLE_STOP_FAILED''), failed_run)"
  by (simp add: perform_def Let_def example_effect_fields example_activation example_answers_def started_run_def prepared_run_def
     authority_prefix_def begin_operation_def removeFailedOperation_def perform_effect_def run_defs admitted_entry_def require_entry_def
     example_entry_matches active_entry_def prepared_entry_def example_binding_unowned stop_effect_def transition_def set_entry_def
     remaining_cleanup_def stop_host_def stop_artifact_def release_artifact_def references_def updateStopProgress_def
     new_effects_def end_operation_def retainFailedOperation_def MAX_FAILED_OPERATIONS_def failed_run_def stopping_entry_def
     succeeded_def known_fingerprint_def js_inj del: js_simps)

lemma failed_reachable: "effects_reachable sha256 [ExProcess] failed_run"
proof -
  have "one_manifest (example_answers\<lparr>fa_stopped := Inl host_unavailable\<rparr>)"
    by (simp add: one_manifest_def example_answers_def)
  then have "effects_step sha256 [ExProcess] started_run failed_run" by (rule performed [OF _ stop_failed])
  with started_reachable show ?thesis unfolding effects_reachable_def by (rule rtranclp.rtrancl_into_rtrancl)
qed

lemma stop_completes_witness:
  "\<exists>s'. perform [ExProcess] example_answers (example_effect Stop) failed_run = (Inr None, s') \<and>
     map_of (fx_registry s') (re_instanceId (example_effect Stop)) = None \<and>
     fx_calls s' = fx_calls failed_run @
       (if rg_hostStopped stopping_entry then [] else [(HostStop (re_instanceId (example_effect Stop)), True)]) \<and>
     (\<forall>digest. references digest s' = references digest failed_run -
       (if digest = re_artifactDigest (example_effect Stop) \<and> \<not> rg_artifactReleased stopping_entry then 1 else 0))"
proof (rule stop_completes [OF failed_reachable [of "\<lambda>_. []"]])
  show "map_of (fx_registry failed_run) (re_instanceId (example_effect Stop)) = Some stopping_entry"
    by (simp add: example_effect_fields failed_run_def del: js_simps)
  show "assertMatches (example_effect Stop) stopping_entry (fa_authority example_answers) = Inr ()"
    by (simp add: example_answers_def example_entry_matches stopping_entry_def active_entry_def prepared_entry_def example_binding_unowned)
  show "authority_prefix (fa_authority example_answers) \<notin> set (fx_closingAuthorities failed_run)"
    by (simp add: failed_run_def started_run_def prepared_run_def new_effects_def)
  show "map_of (fx_operations failed_run) (re_operationId (example_effect Stop)) = None"
    "case map_of (fx_fingerprints failed_run) (re_operationId (example_effect Stop)) of None \<Rightarrow> True
     | Some known \<Rightarrow> fst known = effectFingerprint (example_effect Stop)"
    by (simp_all add: failed_run_def started_run_def example_effect_fields succeeded_def known_fingerprint_def js_inj del: js_simps)
qed (simp_all add: example_effect_def example_answers_def)

end
