(* ===== verification/Task_Records.thy ===== *)
theory Task_Records
  imports Component_Registry Result_Run Dates
begin

text \<open>
  Task records (\<open>packages/contracts/src/operations.ts\<close>, \<open>execution.ts\<close>): the request, the immutable target and
  binding, the result of an attempt, and what \<open>parseTaskRecord\<close> requires of a record whose parts are already
  typed. The fingerprint check of bindings (a digest of canonical text) and the size of the serialized record
  are parameters.
\<close>

section \<open>Data\<close>

record task_target =
  tt_instanceId :: jstring
  tt_deploymentGeneration :: jstring
  tt_artifactDigest :: jstring
  tt_executorId :: jstring
  tt_executorType :: executor_kind
  tt_workerId :: "jstring option"

record task_binding =
  tb_fingerprint :: jstring
  tb_content :: json

record run_request =
  rq_applicationId :: jstring
  rq_pluginId :: jstring
  rq_componentId :: jstring
  rq_input :: json
  rq_deadline :: jstring
  rq_orphanPolicy :: jstring
  rq_operationId :: "jstring option"

datatype execution_status = WasCancelled | WasFailed | WasIndeterminate | WasRejected | WasSucceeded | WasTimedOut

record task_diagnostic =
  td_code :: string
  td_retryable :: bool
  td_observedAt :: jstring

record execution_result =
  xr_taskId :: jstring
  xr_attemptId :: jstring
  xr_kind :: executor_kind
  xr_workerId :: "jstring option"
  xr_status :: execution_status
  xr_output :: "json option"
  xr_diagnostic :: "task_diagnostic option"
  xr_startedAt :: jstring
  xr_completedAt :: jstring

datatype task_state = TaskAccepted | TaskRunning | TaskTerminal

record executor_ref =
  xf_id :: jstring
  xf_type :: executor_kind

record task_cancellation =
  tc_requestedAt :: jstring
  tc_authority :: runtime_authority

record task_record =
  tr_taskId :: jstring
  tr_attemptId :: jstring
  tr_request :: run_request
  tr_state :: task_state
  tr_createdAt :: jstring
  tr_updatedAt :: jstring
  tr_target :: "task_target option"
  tr_binding :: "task_binding option"
  tr_executor :: "executor_ref option"
  tr_authority :: "runtime_authority option"
  tr_cancellation :: "task_cancellation option"
  tr_diagnostic :: "task_diagnostic option"
  tr_result :: "execution_result option"

section \<open>Targets\<close>

definition targetMismatchedFields :: "task_target \<Rightarrow> task_target \<Rightarrow> string list" where
  "targetMismatchedFields expected selected =
     (if tt_artifactDigest expected \<noteq> tt_artifactDigest selected then [''artifactDigest''] else []) @
     (if tt_deploymentGeneration expected \<noteq> tt_deploymentGeneration selected then [''deploymentGeneration''] else []) @
     (if tt_executorId expected \<noteq> tt_executorId selected then [''executor.id''] else []) @
     (if tt_executorType expected \<noteq> tt_executorType selected then [''executor.type''] else []) @
     (if tt_workerId expected \<noteq> tt_workerId selected then [''executor.workerId''] else []) @
     (if tt_instanceId expected \<noteq> tt_instanceId selected then [''instanceId''] else [])"

definition sameTarget :: "task_target \<Rightarrow> task_target \<Rightarrow> bool" where
  "sameTarget left right \<longleftrightarrow> targetMismatchedFields left right = []"

lemma sameTarget_iff [simp]: "sameTarget left right \<longleftrightarrow> left = right"
  by (auto simp: sameTarget_def targetMismatchedFields_def split: if_splits)

definition target_executor :: "task_target \<Rightarrow> executor_ref" where
  "target_executor t = \<lparr>xf_id = tt_executorId t, xf_type = tt_executorType t\<rparr>"

definition result_kind :: "task_record \<Rightarrow> executor_kind" where
  "result_kind r =
     (case tr_target r of
        Some t \<Rightarrow> tt_executorType t
      | None \<Rightarrow> (case tr_executor r of Some x \<Rightarrow> xf_type x | None \<Rightarrow> ExProcess))"

text \<open>\<open>resultExecutor\<close>: the kind, and the worker of a remote target.\<close>

definition resultExecutor :: "task_record \<Rightarrow> executor_kind \<times> jstring option" where
  "resultExecutor r =
     (result_kind r, (case tr_target r of Some t \<Rightarrow> if tt_executorType t = ExRemote then tt_workerId t else None | None \<Rightarrow> None))"

section \<open>Checks of a record\<close>

abbreviation operation_invalid :: js_error where
  "operation_invalid \<equiv> Diagnostic ''PROTOCOL_OPERATION_INVALID''"

definition timestamp :: "jstring \<Rightarrow> bool" where
  "timestamp s \<longleftrightarrow> length s = 24 \<and> (case parse_iso s of None \<Rightarrow> False | Some t \<Rightarrow> toISOString t = Inr s)"

definition not_before :: "jstring \<Rightarrow> jstring \<Rightarrow> bool" where
  "not_before later earlier \<longleftrightarrow>
     (case (parse_iso later, parse_iso earlier) of (Some b, Some a) \<Rightarrow> a \<le> b | _ \<Rightarrow> False)"

definition runtimeOperationMaxBytes :: nat where
  "runtimeOperationMaxBytes = 1048576"

record task_codec =
  bindingMatches :: "run_request \<Rightarrow> task_target \<Rightarrow> task_binding \<Rightarrow> bool"
  serializedBytes :: "task_record \<Rightarrow> nat"

definition result_fits :: "task_record \<Rightarrow> execution_result \<Rightarrow> bool" where
  "result_fits r x \<longleftrightarrow>
     xr_taskId x = tr_taskId r \<and> xr_attemptId x = tr_attemptId r \<and>
     (case tr_target r of
        Some t \<Rightarrow> xr_kind x = tt_executorType t \<and>
          (if tt_executorType t = ExRemote then xr_workerId x = tt_workerId t else xr_workerId x = None)
      | None \<Rightarrow> (case tr_executor r of Some f \<Rightarrow> xr_kind x = xf_type f | None \<Rightarrow> True))"

definition binding_check :: "task_codec \<Rightarrow> task_record \<Rightarrow> unit result" where
  "binding_check c r =
     (case tr_binding r of
        None \<Rightarrow> Inr ()
      | Some b \<Rightarrow>
          (case tr_target r of
             None \<Rightarrow> Inl operation_invalid
           | Some t \<Rightarrow> if bindingMatches c (tr_request r) t b then Inr ()
                       else Inl (Diagnostic ''PROTOCOL_EXECUTION_BINDING_INVALID'')))"

definition executors_agree :: "task_record \<Rightarrow> bool" where
  "executors_agree r =
     (case (tr_target r, tr_executor r) of (Some t, Some x) \<Rightarrow> x = target_executor t | _ \<Rightarrow> True)"

definition parseTaskRecord :: "task_codec \<Rightarrow> task_record \<Rightarrow> task_record result" where
  "parseTaskRecord c r =
     and_then (binding_check c r) (\<lambda>_.
       if \<not> executors_agree r \<or>
          (case tr_cancellation r of Some x \<Rightarrow> \<not> timestamp (tc_requestedAt x) | None \<Rightarrow> False) \<or>
          (tr_state r = TaskTerminal) \<noteq> (tr_result r \<noteq> None) \<or>
          \<not> timestamp (tr_createdAt r) \<or> \<not> timestamp (tr_updatedAt r) \<or> \<not> not_before (tr_updatedAt r) (tr_createdAt r) \<or>
          (case tr_result r of Some x \<Rightarrow> \<not> result_fits r x | None \<Rightarrow> False) \<or>
          serializedBytes c r > runtimeOperationMaxBytes
       then Inl operation_invalid else Inr r)"

lemma parseTaskRecord_value: "parseTaskRecord c r = Inr r' \<Longrightarrow> r' = r"
  by (auto simp: parseTaskRecord_def and_then_def split: if_splits sum.splits)

lemma parseTaskRecord_facts:
  assumes "parseTaskRecord c r = Inr r'"
  shows "(tr_state r = TaskTerminal) = (tr_result r \<noteq> None)" and "tr_result r = Some x \<Longrightarrow> result_fits r x"
    and "tr_binding r = Some b \<Longrightarrow> tr_target r \<noteq> None"
  using assms by (auto simp: parseTaskRecord_def binding_check_def and_then_def split: if_splits sum.splits option.splits)

section \<open>Requests as text\<close>

definition request_json :: "run_request \<Rightarrow> json" where
  "request_json q = JObj
     ([(js ''applicationId'', JStr (rq_applicationId q)), (js ''pluginId'', JStr (rq_pluginId q)),
       (js ''componentId'', JStr (rq_componentId q)), (js ''input'', rq_input q), (js ''deadline'', JStr (rq_deadline q)),
       (js ''orphanPolicy'', JStr (rq_orphanPolicy q))] @
      (case rq_operationId q of None \<Rightarrow> [] | Some i \<Rightarrow> [(js ''operationId'', JStr i)]))"

text \<open>\<open>canonical\<close> writes the members in the order of their names.\<close>

definition fingerprint_of :: "run_request \<Rightarrow> jstring" where
  "fingerprint_of q = stringify (canon (request_json q))"

end
