(* ===== verification/Task_Service.thy ===== *)
theory Task_Service
  imports Task_Records
begin

text \<open>
  The task service (\<open>packages/runtime/src/tasks/task-service.ts\<close>) over the part of the state store it uses. The
  store follows the contract that \<open>commit_refines_compare_and_set\<close> shows of the in-memory store: a put commits
  only under its expected revision and an epoch that is not stale, and an idempotency key keeps its first
  result. At every \<open>await\<close> others run: other operations of the service, other services on the same store, and
  whatever changes the authority. Stored records are taken as the values they parse to.
\<close>

section \<open>State\<close>

record task_identity =
  ti_taskId :: jstring
  ti_attemptId :: jstring
  ti_fingerprint :: jstring

record task_selection =
  sl_target :: task_target
  sl_binding :: task_binding
  sl_executor :: executor_ref

record execution_request =
  xq_taskId :: jstring
  xq_attemptId :: jstring
  xq_applicationId :: jstring
  xq_pluginId :: jstring
  xq_componentId :: jstring
  xq_target :: task_target
  xq_binding :: task_binding
  xq_input :: json
  xq_deadline :: jstring
  xq_orphanPolicy :: jstring

datatype executor_call =
    SubmittedTo executor_ref execution_request
  | ObservedAt executor_ref jstring jstring
  | CancelledAt executor_ref jstring jstring
  | ResumedAt executor_ref jstring jstring

text \<open>The number of a registration stands for the identity of its object.\<close>

record task_registration =
  tg_number :: nat
  tg_executor :: executor_ref
  tg_authority :: runtime_authority

text \<open>An attempt whose handle has not settled yet.\<close>

record task_completion =
  tp_record :: task_record
  tp_authority :: runtime_authority
  tp_registration :: task_registration

record task_world =
  tw_tasks :: "(jstring, task_record \<times> nat) jsmap"
  tw_operations :: "(jstring, task_identity) jsmap"
  tw_replies :: "(jstring, jstring \<times> jstring) jsmap"
  tw_fences :: "(jstring, nat) jsmap"
  tw_revision :: nat
  tw_failure :: "js_error option"
  tw_now :: jstring
  ts_authority :: "runtime_authority option"
  ts_closed :: bool
  ts_records :: "(jstring, task_record \<times> nat) jsmap"
  ts_executors :: "(jstring, task_registration) jsmap"
  ts_registrations :: nat
  ts_dispatches :: "jstring list"
  ts_cancellations :: "jstring list"
  ts_completions :: "task_completion list"
  ts_remoteCompletions :: "(jstring, task_completion) jsmap"
  ts_ephemeral :: "(jstring, task_record) jsmap"
  ts_waiters :: "(jstring \<times> nat) list"
  ts_answers :: "(nat \<times> task_record result) list"
  ts_calls :: "executor_call list"

type_synonym 'a task_run = "(task_world, 'a) paused_run"

abbreviation not_leader :: js_error where
  "not_leader \<equiv> Diagnostic ''COORDINATION_NOT_LEADER''"

abbreviation fence_rejected :: js_error where
  "fence_rejected \<equiv> Diagnostic ''COORDINATION_FENCE_REJECTED''"

abbreviation revision_conflict :: js_error where
  "revision_conflict \<equiv> Diagnostic ''STATE_REVISION_CONFLICT''"

abbreviation service_stopped :: js_error where
  "service_stopped \<equiv> Diagnostic ''BOOTSTRAP_STOPPED''"

abbreviation task_missing :: js_error where
  "task_missing \<equiv> Diagnostic ''EXECUTOR_TASK_NOT_FOUND''"

abbreviation task_corrupt :: js_error where
  "task_corrupt \<equiv> Diagnostic ''STATE_TASK_CORRUPT''"

abbreviation idempotency_conflict :: js_error where
  "idempotency_conflict \<equiv> Diagnostic ''STATE_IDEMPOTENCY_CONFLICT''"

abbreviation result_invalid :: js_error where
  "result_invalid \<equiv> Diagnostic ''EXECUTOR_RESULT_INVALID''"

abbreviation target_mismatch :: js_error where
  "target_mismatch \<equiv> Diagnostic ''EXECUTOR_TARGET_MISMATCH''"

abbreviation target_unavailable :: js_error where
  "target_unavailable \<equiv> Diagnostic ''EXECUTOR_TARGET_UNAVAILABLE''"

section \<open>Guards\<close>

definition requireAuthority :: "task_world \<Rightarrow> runtime_authority result" where
  "requireAuthority w = (case ts_authority w of None \<Rightarrow> Inl not_leader | Some a \<Rightarrow> Inr a)"

definition assertAuthority :: "runtime_authority \<Rightarrow> task_world \<Rightarrow> unit result" where
  "assertAuthority expected w =
     and_then (requireAuthority w) (\<lambda>current. if current = expected then Inr () else Inl fence_rejected)"

definition assertRunning :: "task_world \<Rightarrow> unit result" where
  "assertRunning w = (if ts_closed w then Inl service_stopped else Inr ())"

definition store_reachable :: "task_world \<Rightarrow> unit result" where
  "store_reachable w = (case tw_failure w of None \<Rightarrow> Inr () | Some e \<Rightarrow> Inl e)"

section \<open>Records in the store\<close>

definition cache_record :: "jstring \<Rightarrow> task_record \<times> nat \<Rightarrow> task_world \<Rightarrow> task_world" where
  "cache_record taskId loaded w = w\<lparr>ts_records := AList.update taskId loaded (ts_records w)\<rparr>"

definition load_task :: "task_codec \<Rightarrow> jstring \<Rightarrow> (task_record \<times> nat) option task_run" where
  "load_task c taskId =
     run_then run_await (\<lambda>_.
     run_then (run_check (\<lambda>w. and_then (store_reachable w) (\<lambda>_. Inr (map_of (tw_tasks w) taskId)))) (\<lambda>stored.
     run_then run_await (\<lambda>_.
       case stored of
         None \<Rightarrow> run_return None
       | Some (r, revision) \<Rightarrow>
           run_then (run_result (parseTaskRecord c r)) (\<lambda>record.
           run_then (run_change (cache_record taskId (record, revision))) (\<lambda>_. run_return (Some (record, revision)))))))"

definition assertTaskFence :: "runtime_authority \<Rightarrow> task_world \<Rightarrow> unit result" where
  "assertTaskFence authority w =
     (case map_of (tw_fences w) (au_resource authority) of
        None \<Rightarrow> Inr ()
      | Some current \<Rightarrow>
          if decimal_value (au_epoch authority) < current then Inl (Diagnostic ''STATE_FENCE_STALE'') else Inr ())"

definition advanceTaskFence :: "runtime_authority \<Rightarrow> task_world \<Rightarrow> task_world" where
  "advanceTaskFence authority w =
     w\<lparr>tw_fences := AList.update (au_resource authority) (decimal_value (au_epoch authority)) (tw_fences w)\<rparr>"

text \<open>The commit of a transaction that puts one task record.\<close>

definition commit_task ::
  "runtime_authority \<Rightarrow> jstring \<Rightarrow> task_record \<Rightarrow> nat \<Rightarrow> task_world \<Rightarrow> (unit \<times> task_world) result" where
  "commit_task authority taskId next expected w =
     and_then (store_reachable w) (\<lambda>_.
       if map_option snd (map_of (tw_tasks w) taskId) \<noteq> Some expected then Inl revision_conflict
       else and_then (assertTaskFence authority w) (\<lambda>_.
         Inr ((), (advanceTaskFence authority w)\<lparr>
           tw_tasks := AList.update taskId (next, tw_revision w + 1) (tw_tasks w), tw_revision := tw_revision w + 1\<rparr>)))"

definition put_task :: "task_codec \<Rightarrow> runtime_authority \<Rightarrow> jstring \<Rightarrow> task_record \<Rightarrow> nat \<Rightarrow> task_record task_run" where
  "put_task c authority taskId next expected =
     run_then run_await (\<lambda>_.
     run_then (run_check (\<lambda>w. and_then (store_reachable w) (\<lambda>_. assertAuthority authority w))) (\<lambda>_.
     run_then run_await (\<lambda>_.
     run_then (run_step (commit_task authority taskId next expected)) (\<lambda>_.
     run_then run_await (\<lambda>_.
     run_then (run_check (assertAuthority authority)) (\<lambda>_.
     run_then (load_task c taskId) (\<lambda>persisted.
       case persisted of None \<Rightarrow> run_result (Inl task_corrupt) | Some (record, _) \<Rightarrow> run_return record)))))))"

text \<open>\<open>update\<close> is given the time of the clock.\<close>

fun transition_attempts ::
  "task_codec \<Rightarrow> nat \<Rightarrow> jstring \<Rightarrow> runtime_authority \<Rightarrow> (jstring \<Rightarrow> task_record \<Rightarrow> task_record) \<Rightarrow> task_record task_run" where
  "transition_attempts c 0 taskId authority update = run_result (Inl task_corrupt)"
| "transition_attempts c (Suc n) taskId authority update =
     run_then (run_check (assertAuthority authority)) (\<lambda>_.
     run_then (load_task c taskId) (\<lambda>loaded.
       case loaded of
         None \<Rightarrow> run_result (Inl task_missing)
       | Some (record, revision) \<Rightarrow>
           if tr_state record = TaskTerminal then run_return record
           else run_then (run_check (\<lambda>w. parseTaskRecord c (update (tw_now w) record))) (\<lambda>next.
                run_catch (put_task c authority taskId next revision)
                  (\<lambda>e. if e = revision_conflict then transition_attempts c n taskId authority update else run_result (Inl e)))))"

definition transition_task ::
  "task_codec \<Rightarrow> jstring \<Rightarrow> runtime_authority \<Rightarrow> (jstring \<Rightarrow> task_record \<Rightarrow> task_record) \<Rightarrow> task_record task_run" where
  "transition_task c = transition_attempts c 4"

section \<open>Waiters\<close>

definition notify_task :: "task_record \<Rightarrow> task_world \<Rightarrow> task_world" where
  "notify_task record w =
     w\<lparr>ts_answers := ts_answers w @ map (\<lambda>(_, n). (n, Inr record)) (filter (\<lambda>(t, _). t = tr_taskId record) (ts_waiters w)),
       ts_waiters := filter (\<lambda>(t, _). t \<noteq> tr_taskId record) (ts_waiters w)\<rparr>"

definition reject_waiter :: "nat \<Rightarrow> js_error \<Rightarrow> task_world \<Rightarrow> task_world" where
  "reject_waiter n e w =
     w\<lparr>ts_answers := ts_answers w @ [(n, Inl e)], ts_waiters := filter (\<lambda>(_, m). m \<noteq> n) (ts_waiters w)\<rparr>"

definition task_status :: "task_codec \<Rightarrow> jstring \<Rightarrow> task_record option task_run" where
  "task_status c taskId =
     run_then (run_check assertRunning) (\<lambda>_.
     run_then (load_task c taskId) (\<lambda>loaded.
       case loaded of
         Some (record, _) \<Rightarrow>
           if tr_state record = TaskTerminal
           then run_then (run_change (\<lambda>w. w\<lparr>ts_ephemeral := AList.delete taskId (ts_ephemeral w)\<rparr>))
                  (\<lambda>_. run_return (Some record))
           else run_check (\<lambda>w. Inr (case map_of (ts_ephemeral w) taskId of Some x \<Rightarrow> Some x | None \<Rightarrow> Some record))
       | None \<Rightarrow> run_check (\<lambda>w. Inr (map_of (ts_ephemeral w) taskId))))"

text \<open>The record where it is terminal already; otherwise the waiter is answered later.\<close>

definition wait_task :: "task_codec \<Rightarrow> nat \<Rightarrow> jstring \<Rightarrow> task_record option task_run" where
  "wait_task c n taskId =
     run_then (run_check assertRunning) (\<lambda>_.
     run_then (task_status c taskId) (\<lambda>current.
       case current of
         None \<Rightarrow> run_result (Inl task_missing)
       | Some record \<Rightarrow>
           if tr_state record = TaskTerminal then run_return (Some record)
           else
             run_then (run_change (\<lambda>w. w\<lparr>ts_waiters := ts_waiters w @ [(taskId, n)]\<rparr>)) (\<lambda>_.
             run_then run_world (\<lambda>w.
             run_then
               (if ts_closed w then run_change (reject_waiter n service_stopped)
                else run_catch
                  (run_then (task_status c taskId) (\<lambda>after.
                     case after of
                       Some r \<Rightarrow> if tr_state r = TaskTerminal then run_change (notify_task r) else run_return ()
                     | None \<Rightarrow> run_return ()))
                  (\<lambda>e. run_change (reject_waiter n e)))
               (\<lambda>_. run_return None)))))"

section \<open>Settling\<close>

definition specific_code :: "js_error \<Rightarrow> string option" where
  "specific_code e =
     (case e of
        Diagnostic code \<Rightarrow>
          if code \<in> {''EXECUTOR_TARGET_MISMATCH'', ''EXECUTOR_TARGET_UNAVAILABLE'', ''EXECUTOR_RESULT_INVALID''}
          then Some code else None
      | _ \<Rightarrow> None)"

definition indeterminate_record :: "jstring \<Rightarrow> js_error \<Rightarrow> task_record \<Rightarrow> task_record" where
  "indeterminate_record now e record =
     record\<lparr>tr_state := TaskTerminal, tr_updatedAt := now,
       tr_result := Some
         \<lparr>xr_taskId = tr_taskId record, xr_attemptId = tr_attemptId record, xr_kind = fst (resultExecutor record),
          xr_workerId = snd (resultExecutor record), xr_status = WasIndeterminate, xr_output = None,
          xr_diagnostic = Some
            \<lparr>td_code = (case specific_code e of Some code \<Rightarrow> code | None \<Rightarrow> ''EXECUTOR_RESULT_INDETERMINATE''),
             td_retryable = False, td_observedAt = now\<rparr>,
          xr_startedAt = tr_createdAt record, xr_completedAt = now\<rparr>\<rparr>"

definition settle_ephemeral :: "task_record \<Rightarrow> task_world \<Rightarrow> task_world" where
  "settle_ephemeral record w =
     notify_task record (w\<lparr>ts_ephemeral := AList.update (tr_taskId record) record (ts_ephemeral w)\<rparr>)"

definition settle_uncertain ::
  "task_codec \<Rightarrow> task_record \<Rightarrow> js_error \<Rightarrow> runtime_authority \<Rightarrow> bool \<Rightarrow> unit task_run" where
  "settle_uncertain c record e authority allowEphemeral =
     run_then run_world (\<lambda>w.
       if map_of (ts_ephemeral w) (tr_taskId record) \<noteq> None \<or> assertAuthority authority w \<noteq> Inr () then run_return ()
       else
         run_then (run_result (parseTaskRecord c (indeterminate_record (tw_now w) e record))) (\<lambda>indeterminate.
         run_catch
           (run_then (transition_task c (tr_taskId record) authority (\<lambda>_ _. indeterminate)) (\<lambda>persisted.
            run_change (notify_task persisted)))
           (\<lambda>err. run_then run_world (\<lambda>w.
              if assertAuthority authority w \<noteq> Inr () \<or> err = revision_conflict \<or> err = fence_rejected \<or> err = not_leader \<or>
                 \<not> allowEphemeral
              then run_return () else run_change (settle_ephemeral indeterminate)))))"

definition mark_record ::
  "task_codec \<Rightarrow> task_record \<Rightarrow> runtime_authority \<Rightarrow> string \<Rightarrow> unit task_run" where
  "mark_record c record authority code =
     run_then (transition_task c (tr_taskId record) authority
       (\<lambda>now current. current\<lparr>tr_authority := Some authority,
          tr_diagnostic := Some \<lparr>td_code = code, td_retryable = True, td_observedAt = now\<rparr>, tr_updatedAt := now\<rparr>))
     (\<lambda>_. run_return ())"

definition drop_registration :: "jstring \<Rightarrow> task_registration option \<Rightarrow> task_world \<Rightarrow> task_world" where
  "drop_registration taskId registration w =
     (if (case registration of
            None \<Rightarrow> True
          | Some r \<Rightarrow> map_option tg_number (map_of (ts_executors w) taskId) = Some (tg_number r))
      then w\<lparr>ts_executors := AList.delete taskId (ts_executors w)\<rparr> else w)"

definition maxResultBytes :: nat where
  "maxResultBytes = 1048576"

definition output_fits :: "execution_result \<Rightarrow> bool" where
  "output_fits x = (case xr_output x of None \<Rightarrow> True | Some v \<Rightarrow> utf8_length (stringify v) \<le> maxResultBytes)"

text \<open>\<open>input\<close> is what \<open>parseExecutionResult\<close> makes of the reported result.\<close>

definition complete_task ::
  "task_codec \<Rightarrow> task_record \<Rightarrow> execution_result result \<Rightarrow> runtime_authority \<Rightarrow> task_registration option \<Rightarrow> unit task_run" where
  "complete_task c record input authority registration =
     run_finally
       (run_catch
         (run_then (run_result input) (\<lambda>x.
            if xr_taskId x \<noteq> tr_taskId record \<or> xr_attemptId x \<noteq> tr_attemptId record \<or> \<not> output_fits x
            then run_result (Inl result_invalid)
            else run_then (transition_task c (tr_taskId record) authority
                   (\<lambda>now current. current\<lparr>tr_state := TaskTerminal, tr_authority := Some authority, tr_result := Some x,
                                          tr_updatedAt := now\<rparr>))
                 (\<lambda>terminal. run_change (notify_task terminal))))
         (\<lambda>e. settle_uncertain c record e authority True))
       (drop_registration (tr_taskId record) registration)"

section \<open>Executors\<close>

datatype select_outcome = SelectedExecutor task_selection | SelectFailed js_error | SelectAborted js_error | SelectTimedOut

datatype attempt_status = AttemptAccepted | AttemptRunning | AttemptTerminal "execution_result result"

datatype observation = Observed "attempt_status option" | ObservationTimedOut

text \<open>What the calls of one dispatch answer; a submission answers the identity of its handle.\<close>

record dispatch_answers =
  da_selected :: select_outcome
  da_submitted :: "(jstring \<times> jstring) result"
  da_observed :: "observation result"

text \<open>\<open>ra_resumed\<close> is \<open>None\<close> where the executor cannot resume.\<close>

record recover_answers =
  ra_selected :: select_outcome
  ra_cancelled :: "unit result"
  ra_observed :: "observation result"
  ra_resumed :: "(jstring \<times> jstring) option result option"
  ra_dispatch :: dispatch_answers
  ra_joined :: "task_record result"

definition call_executor :: "executor_call \<Rightarrow> 'a result \<Rightarrow> 'a task_run" where
  "call_executor x answer =
     run_then (run_change (\<lambda>w. w\<lparr>ts_calls := ts_calls w @ [x]\<rparr>)) (\<lambda>_. run_paused answer)"

definition select_bounded :: "runtime_authority \<Rightarrow> select_outcome \<Rightarrow> task_selection task_run" where
  "select_bounded authority outcome =
     run_then run_await (\<lambda>_.
       case outcome of
         SelectedExecutor x \<Rightarrow> run_then (run_check (assertAuthority authority)) (\<lambda>_. run_return x)
       | SelectAborted e \<Rightarrow> run_result (Inl e)
       | SelectFailed e \<Rightarrow>
           if e = service_stopped \<or> e = fence_rejected \<or> e = not_leader then run_result (Inl e)
           else run_result (Inl target_unavailable)
       | SelectTimedOut \<Rightarrow> run_result (Inl target_unavailable))"

definition validateSelection :: "task_selection \<Rightarrow> unit result" where
  "validateSelection x = (if sl_executor x \<noteq> target_executor (sl_target x) then Inl target_mismatch else Inr ())"

definition retained_executor :: "runtime_authority \<Rightarrow> jstring \<Rightarrow> task_target \<Rightarrow> task_world \<Rightarrow> executor_ref option" where
  "retained_executor authority taskId target w =
     (case map_of (ts_executors w) taskId of
        Some registration \<Rightarrow>
          if tg_authority registration = authority \<and> tg_executor registration = target_executor target
          then Some (tg_executor registration) else None
      | None \<Rightarrow> None)"

definition resolve_executor :: "select_outcome \<Rightarrow> task_record \<Rightarrow> runtime_authority \<Rightarrow> executor_ref task_run" where
  "resolve_executor outcome record authority =
     (case (tr_target record, tr_binding record) of
        (Some target, Some binding) \<Rightarrow>
          run_then run_world (\<lambda>w.
            case retained_executor authority (tr_taskId record) target w of
              Some executor \<Rightarrow> run_return executor
            | None \<Rightarrow>
                run_then (select_bounded authority outcome) (\<lambda>resolved.
                run_then (run_result (validateSelection resolved)) (\<lambda>_.
                  if \<not> sameTarget target (sl_target resolved) then run_result (Inl target_mismatch)
                  else if tb_fingerprint (sl_binding resolved) \<noteq> tb_fingerprint binding
                  then run_result (Inl target_mismatch)
                  else run_return (sl_executor resolved))))
      | _ \<Rightarrow> run_result (Inl result_invalid))"

definition register_executor ::
  "jstring \<Rightarrow> executor_ref \<Rightarrow> runtime_authority \<Rightarrow> task_registration task_run" where
  "register_executor taskId executor authority =
     run_step (\<lambda>w.
       let registration = \<lparr>tg_number = ts_registrations w, tg_executor = executor, tg_authority = authority\<rparr>
       in Inr (registration, w\<lparr>ts_executors := AList.update taskId registration (ts_executors w),
                               ts_registrations := ts_registrations w + 1\<rparr>))"

section \<open>Dispatch\<close>

text \<open>\<open>definiteAdmissionRejections\<close>: the codes that prove no attempt exists, and whether a retry may help.\<close>

definition classify_rejection :: "js_error \<Rightarrow> (string \<times> bool) option" where
  "classify_rejection e =
     (case e of
        Diagnostic code \<Rightarrow>
          map_option (Pair code) (map_of
            [(''EXECUTOR_ATTEMPT_CAPACITY_EXCEEDED'', True), (''EXECUTOR_DRAINING'', True),
             (''EXECUTOR_INPUT_LIMIT_EXCEEDED'', False), (''EXECUTOR_QUEUE_CAPACITY_EXCEEDED'', True)] code)
      | _ \<Rightarrow> None)"

definition rejected_record ::
  "runtime_authority \<Rightarrow> task_record \<Rightarrow> string \<Rightarrow> bool \<Rightarrow> jstring \<Rightarrow> task_record \<Rightarrow> task_record" where
  "rejected_record authority record code retryable now current =
     current\<lparr>tr_state := TaskTerminal, tr_authority := Some authority, tr_updatedAt := now,
       tr_result := Some
         \<lparr>xr_taskId = tr_taskId record, xr_attemptId = tr_attemptId record, xr_kind = fst (resultExecutor record),
          xr_workerId = snd (resultExecutor record), xr_status = WasRejected, xr_output = None,
          xr_diagnostic = Some \<lparr>td_code = code, td_retryable = retryable, td_observedAt = now\<rparr>,
          xr_startedAt = tr_createdAt record, xr_completedAt = now\<rparr>\<rparr>"

definition reject_admission ::
  "task_codec \<Rightarrow> task_record \<Rightarrow> string \<Rightarrow> runtime_authority \<Rightarrow> bool \<Rightarrow> task_record task_run" where
  "reject_admission c record code authority retryable =
     run_then (transition_task c (tr_taskId record) authority (rejected_record authority record code retryable)) (\<lambda>terminal.
     run_then (run_change (notify_task terminal)) (\<lambda>_. run_return terminal))"

definition observe_bounded :: "executor_ref \<Rightarrow> task_record \<Rightarrow> observation result \<Rightarrow> observation task_run" where
  "observe_bounded executor record answer = call_executor (ObservedAt executor (tr_taskId record) (tr_attemptId record)) answer"

definition status_or :: "task_codec \<Rightarrow> task_record \<Rightarrow> task_record task_run" where
  "status_or c record =
     run_then (task_status c (tr_taskId record)) (\<lambda>status.
       run_return (case status of Some r \<Rightarrow> r | None \<Rightarrow> record))"

definition execution_request_of :: "task_record \<Rightarrow> task_target \<Rightarrow> task_binding \<Rightarrow> execution_request" where
  "execution_request_of record target binding =
     (let q = tr_request record in
      \<lparr>xq_taskId = tr_taskId record, xq_attemptId = tr_attemptId record, xq_applicationId = rq_applicationId q,
       xq_pluginId = rq_pluginId q, xq_componentId = rq_componentId q, xq_target = target, xq_binding = binding,
       xq_input = rq_input q, xq_deadline = rq_deadline q, xq_orphanPolicy = rq_orphanPolicy q\<rparr>)"

text \<open>After a submission that failed without proving that there is no attempt.\<close>

definition submission_failed ::
  "task_codec \<Rightarrow> dispatch_answers \<Rightarrow> task_record \<Rightarrow> js_error \<Rightarrow> runtime_authority \<Rightarrow> task_registration \<Rightarrow> task_record task_run" where
  "submission_failed c a record e authority registration =
     run_then (run_catch (observe_bounded (tg_executor registration) record (da_observed a))
                 (\<lambda>_. run_return ObservationTimedOut)) (\<lambda>outcome.
     run_then
       (case outcome of
          Observed (Some (AttemptTerminal x)) \<Rightarrow> complete_task c record x authority (Some registration)
        | _ \<Rightarrow>
            if xf_type (tg_executor registration) \<noteq> ExRemote then settle_uncertain c record e authority True
            else mark_record c record authority ''EXECUTOR_SUBMISSION_UNKNOWN'')
       (\<lambda>_. status_or c record))"

definition running_record :: "runtime_authority \<Rightarrow> jstring \<Rightarrow> task_record \<Rightarrow> task_record" where
  "running_record authority now current =
     current\<lparr>tr_state := TaskRunning, tr_authority := Some authority, tr_updatedAt := now\<rparr>"

definition submission_accepted ::
  "task_codec \<Rightarrow> task_record \<Rightarrow> runtime_authority \<Rightarrow> task_registration \<Rightarrow> task_record task_run" where
  "submission_accepted c record authority registration =
     run_catch
       (run_then (transition_task c (tr_taskId record) authority (running_record authority)) (\<lambda>running.
        run_then (run_change (\<lambda>w. w\<lparr>ts_completions := ts_completions w @
            [\<lparr>tp_record = running, tp_authority = authority, tp_registration = registration\<rparr>]\<rparr>))
          (\<lambda>_. run_return running)))
       (\<lambda>e. run_then (settle_uncertain c record e authority True) (\<lambda>_.
            run_then run_world (\<lambda>w.
              case map_of (ts_ephemeral w) (tr_taskId record) of
                Some uncertain \<Rightarrow> run_return uncertain
              | None \<Rightarrow>
                  run_then (task_status c (tr_taskId record)) (\<lambda>persisted.
                    case persisted of Some r \<Rightarrow> run_return r | None \<Rightarrow> run_result (Inl e)))))"

definition dispatch_task ::
  "task_codec \<Rightarrow> dispatch_answers \<Rightarrow> task_record \<Rightarrow> runtime_authority \<Rightarrow> task_record task_run" where
  "dispatch_task c a record authority =
     run_then (run_check (assertAuthority authority)) (\<lambda>_.
     run_then (resolve_executor (da_selected a) record authority) (\<lambda>executor.
       case (tr_target record, tr_binding record) of
         (Some target, Some binding) \<Rightarrow>
           run_then (run_check (assertAuthority authority)) (\<lambda>_.
           run_then (register_executor (tr_taskId record) executor authority) (\<lambda>registration.
           run_then
             (run_catch
               (run_then (call_executor (SubmittedTo executor (execution_request_of record target binding)) (da_submitted a))
                 (\<lambda>handle. run_return (Inr handle)))
               (\<lambda>e. run_return (Inl e))) (\<lambda>submitted.
             case submitted of
               Inl e \<Rightarrow>
                 (case classify_rejection e of
                    Some (code, retryable) \<Rightarrow>
                      run_finally (reject_admission c record code authority retryable)
                        (drop_registration (tr_taskId record) (Some registration))
                  | None \<Rightarrow> submission_failed c a record e authority registration)
             | Inr (taskId, attemptId) \<Rightarrow>
                 if taskId \<noteq> tr_taskId record \<or> attemptId \<noteq> tr_attemptId record
                 then run_then (settle_uncertain c record result_invalid authority True) (\<lambda>_. status_or c record)
                 else submission_accepted c record authority registration)))
       | _ \<Rightarrow> run_result (Inl result_invalid)))"

definition ensure_dispatch ::
  "task_codec \<Rightarrow> dispatch_answers \<Rightarrow> task_record result \<Rightarrow> task_record \<Rightarrow> runtime_authority \<Rightarrow> task_record task_run" where
  "ensure_dispatch c a joined record authority =
     run_then run_world (\<lambda>w.
       if tr_taskId record \<in> set (ts_dispatches w) then run_paused joined
       else
         run_then (run_change (\<lambda>w. w\<lparr>ts_dispatches := tr_taskId record # ts_dispatches w\<rparr>)) (\<lambda>_.
           run_finally (dispatch_task c a record authority)
             (\<lambda>w. w\<lparr>ts_dispatches := filter (\<lambda>t. t \<noteq> tr_taskId record) (ts_dispatches w)\<rparr>)))"

end
