(* ===== verification/Task_Operations.thy ===== *)
theory Task_Operations
  imports Task_Service
begin

text \<open>
  The operations of the task service: recovery of pending tasks, \<open>run\<close>, \<open>cancel\<close>, \<open>setAuthority\<close>,
  \<open>recoverRemoteWorker\<close>, the settlement of attempts and \<open>close\<close>, and the steps of a system of services that
  share one store.
\<close>

section \<open>Recovery of one task\<close>

definition is_remote :: "task_record \<Rightarrow> bool" where
  "is_remote record = (case tr_target record of Some t \<Rightarrow> tt_executorType t = ExRemote | None \<Rightarrow> False)"

definition resume_remote ::
  "task_codec \<Rightarrow> recover_answers \<Rightarrow> task_record \<Rightarrow> executor_ref \<Rightarrow> runtime_authority \<Rightarrow> task_registration \<Rightarrow> unit task_run" where
  "resume_remote c a record executor authority registration =
     run_then run_world (\<lambda>w.
       case (map_of (ts_remoteCompletions w) (tr_taskId record), ra_resumed a) of
         (None, Some answer) \<Rightarrow>
           run_then (call_executor (ResumedAt executor (tr_taskId record) (tr_attemptId record)) answer) (\<lambda>handle.
             case handle of
               None \<Rightarrow> run_return ()
             | Some (taskId, attemptId) \<Rightarrow>
                 if taskId \<noteq> tr_taskId record \<or> attemptId \<noteq> tr_attemptId record
                 then settle_uncertain c record result_invalid authority True
                 else run_change (\<lambda>w. w\<lparr>ts_remoteCompletions := AList.update (tr_taskId record)
                        \<lparr>tp_record = record, tp_authority = authority, tp_registration = registration\<rparr>
                        (ts_remoteCompletions w)\<rparr>))
       | _ \<Rightarrow> run_return ())"

text \<open>The executor of a pending task; where there is none the failure is recorded.\<close>

definition recovered_executor ::
  "task_codec \<Rightarrow> recover_answers \<Rightarrow> task_record \<Rightarrow> runtime_authority \<Rightarrow> executor_ref option task_run" where
  "recovered_executor c a record authority =
     run_catch
       (run_then (resolve_executor (ra_selected a) record authority) (\<lambda>executor. run_return (Some executor)))
       (\<lambda>e. run_then
         (if e = target_mismatch then settle_uncertain c record e authority True
          else if e = target_unavailable \<and> is_remote record
          then mark_record c record authority ''EXECUTOR_TARGET_UNAVAILABLE''
          else if is_remote record then mark_record c record authority ''EXECUTOR_OBSERVATION_UNKNOWN''
          else settle_uncertain c record e authority True)
         (\<lambda>_. run_return None))"

definition recovered_observation ::
  "task_codec \<Rightarrow> recover_answers \<Rightarrow> task_record \<Rightarrow> executor_ref \<Rightarrow> runtime_authority \<Rightarrow>
   attempt_status option option task_run" where
  "recovered_observation c a record executor authority =
     run_catch
       (run_then (observe_bounded executor record (ra_observed a)) (\<lambda>outcome.
          case outcome of
            ObservationTimedOut \<Rightarrow>
              run_then (mark_record c record authority ''EXECUTOR_OBSERVATION_UNKNOWN'') (\<lambda>_. run_return None)
          | Observed status \<Rightarrow> run_return (Some status)))
       (\<lambda>e. if is_remote record then run_return None
            else run_then (settle_uncertain c record e authority True) (\<lambda>_. run_return None))"

definition apply_observation ::
  "task_codec \<Rightarrow> recover_answers \<Rightarrow> task_record \<Rightarrow> attempt_status option \<Rightarrow> executor_ref \<Rightarrow> runtime_authority \<Rightarrow>
   task_registration \<Rightarrow> unit task_run" where
  "apply_observation c a record observed executor authority registration =
     (case observed of
        Some (AttemptTerminal x) \<Rightarrow> complete_task c record x authority (Some registration)
      | Some status \<Rightarrow>
          run_then
            (if status = AttemptRunning \<and> tr_state record = TaskAccepted
             then run_then (transition_task c (tr_taskId record) authority (running_record authority)) (\<lambda>_. run_return ())
             else run_return ())
            (\<lambda>_. if is_remote record then resume_remote c a record executor authority registration else run_return ())
      | None \<Rightarrow>
          if is_remote record then mark_record c record authority ''EXECUTOR_OBSERVATION_UNKNOWN''
          else if tr_state record = TaskAccepted
          then run_then (ensure_dispatch c (ra_dispatch a) (ra_joined a) record authority) (\<lambda>_. run_return ())
          else settle_uncertain c record GenericError authority True)"

definition recover_record ::
  "task_codec \<Rightarrow> recover_answers \<Rightarrow> task_record \<Rightarrow> runtime_authority \<Rightarrow> unit task_run" where
  "recover_record c a record authority =
     (if tr_binding record = None then settle_uncertain c record result_invalid authority True
      else if tr_target record = None then settle_uncertain c record GenericError authority True
      else
        run_then (recovered_executor c a record authority) (\<lambda>resolved.
          case resolved of
            None \<Rightarrow> run_return ()
          | Some executor \<Rightarrow>
              run_then (run_check (assertAuthority authority)) (\<lambda>_.
              run_then (register_executor (tr_taskId record) executor authority) (\<lambda>registration.
              run_then
                (if tr_cancellation record = None then run_return ()
                 else run_then (call_executor (CancelledAt executor (tr_taskId record) (tr_attemptId record)) (ra_cancelled a))
                        (\<lambda>_. run_check (assertAuthority authority))) (\<lambda>_.
              run_then (recovered_observation c a record executor authority) (\<lambda>outcome.
                case outcome of
                  None \<Rightarrow> run_return ()
                | Some observed \<Rightarrow>
                    run_then (run_check (assertAuthority authority)) (\<lambda>_.
                      apply_observation c a record observed executor authority registration)))))))"

text \<open>
  All pending tasks; the source recovers them side by side, the model one after another with the others among
  what runs at the pauses. The first failure is thrown when all are done.
\<close>

fun recover_pending ::
  "task_codec \<Rightarrow> (jstring \<Rightarrow> recover_answers) \<Rightarrow> task_record list \<Rightarrow> runtime_authority \<Rightarrow> unit task_run" where
  "recover_pending c answers [] authority = run_return ()"
| "recover_pending c answers (record # pending) authority =
     run_then
       (run_catch
         (run_then
           (run_catch (recover_record c (answers (tr_taskId record)) record authority)
             (\<lambda>e. if is_remote record then run_return () else settle_uncertain c record e authority True))
           (\<lambda>_. run_return (Inr ())))
         (\<lambda>e. run_return (Inl e))) (\<lambda>outcome.
     run_then (recover_pending c answers pending authority) (\<lambda>_. run_result outcome))"

section \<open>Authority\<close>

fun recover_records :: "task_codec \<Rightarrow> (jstring \<times> task_record \<times> nat) list \<Rightarrow> unit task_run" where
  "recover_records c [] = run_return ()"
| "recover_records c ((key, (r, revision)) # rest) =
     run_then (run_result (parseTaskRecord c r)) (\<lambda>record.
     run_then (run_change (cache_record (tr_taskId record) (record, revision))) (\<lambda>_.
     run_then run_await (\<lambda>_. recover_records c rest)))"

definition recover :: "task_codec \<Rightarrow> unit task_run" where
  "recover c =
     run_then (run_check assertRunning) (\<lambda>_.
     run_then (run_change (\<lambda>w. w\<lparr>ts_records := []\<rparr>)) (\<lambda>_.
     run_then run_await (\<lambda>_.
     run_then (run_check (\<lambda>w. and_then (store_reachable w) (\<lambda>_. Inr (tw_tasks w)))) (\<lambda>entries.
     run_then run_await (\<lambda>_. recover_records c entries)))))"

definition pending_records :: "(task_record \<Rightarrow> bool) \<Rightarrow> task_world \<Rightarrow> task_record list" where
  "pending_records select w = filter (\<lambda>r. tr_state r \<noteq> TaskTerminal \<and> select r) (map (fst \<circ> snd) (ts_records w))"

definition setAuthority ::
  "task_codec \<Rightarrow> (jstring \<Rightarrow> recover_answers) \<Rightarrow> runtime_authority option \<Rightarrow> unit task_run" where
  "setAuthority c answers authority =
     run_then (run_check assertRunning) (\<lambda>_.
     run_then (run_change (\<lambda>w. w\<lparr>ts_authority := authority\<rparr>)) (\<lambda>_.
       case authority of
         None \<Rightarrow> run_return ()
       | Some a \<Rightarrow>
           run_then (recover c) (\<lambda>_.
           run_then (run_check (\<lambda>w. and_then (assertAuthority a w) (\<lambda>_. Inr (pending_records (\<lambda>_. True) w)))) (\<lambda>pending.
             recover_pending c answers pending a))))"

definition recoverRemoteWorker :: "task_codec \<Rightarrow> (jstring \<Rightarrow> recover_answers) \<Rightarrow> jstring \<Rightarrow> unit task_run" where
  "recoverRemoteWorker c answers workerId =
     run_then (run_check assertRunning) (\<lambda>_.
     run_then (run_check requireAuthority) (\<lambda>authority.
     run_then (run_check (\<lambda>w. Inr (pending_records
         (\<lambda>r. is_remote r \<and> (case tr_target r of Some t \<Rightarrow> tt_workerId t = Some workerId | None \<Rightarrow> False)) w))) (\<lambda>pending.
       recover_pending c answers pending authority)))"

section \<open>Admission\<close>

definition candidate_record ::
  "run_request \<Rightarrow> jstring \<times> jstring \<Rightarrow> task_selection \<Rightarrow> runtime_authority \<Rightarrow> jstring \<Rightarrow> task_record" where
  "candidate_record q identity selection authority now =
     \<lparr>tr_taskId = fst identity, tr_attemptId = snd identity, tr_request = q, tr_state = TaskAccepted,
      tr_createdAt = now, tr_updatedAt = now, tr_target = Some (sl_target selection),
      tr_binding = Some (sl_binding selection), tr_executor = None, tr_authority = Some authority,
      tr_cancellation = None, tr_diagnostic = None, tr_result = None\<rparr>"

text \<open>The body of the admitting transaction: the task it returns, and whether it puts the candidate.\<close>

definition admit_body :: "task_codec \<Rightarrow> task_record \<Rightarrow> task_world \<Rightarrow> (jstring \<times> bool) result" where
  "admit_body c candidate w =
     (let q = tr_request candidate; fingerprint = fingerprint_of q in
      case (case rq_operationId q of None \<Rightarrow> None | Some i \<Rightarrow> map_of (tw_operations w) i) of
        Some identity \<Rightarrow>
          if ti_fingerprint identity \<noteq> fingerprint then Inl idempotency_conflict
          else (case map_of (tw_tasks w) (ti_taskId identity) of
                  None \<Rightarrow> Inl task_corrupt
                | Some (existing, _) \<Rightarrow> and_then (parseTaskRecord c existing) (\<lambda>r. Inr (tr_taskId r, False)))
      | None \<Rightarrow>
          (case map_of (tw_tasks w) (tr_taskId candidate) of
             Some (existing, _) \<Rightarrow>
               and_then (parseTaskRecord c existing) (\<lambda>r.
                 if fingerprint_of (tr_request r) \<noteq> fingerprint then Inl idempotency_conflict else Inr (tr_taskId r, False))
           | None \<Rightarrow> Inr (tr_taskId candidate, True)))"

definition reply_key :: "jstring \<Rightarrow> jstring" where
  "reply_key operationId = js ''task:'' @ operationId"

text \<open>The recorded result of an idempotency key.\<close>

definition recorded_reply :: "run_request \<Rightarrow> task_world \<Rightarrow> jstring option result" where
  "recorded_reply q w =
     (case rq_operationId q of
        None \<Rightarrow> Inr None
      | Some i \<Rightarrow>
          (case map_of (tw_replies w) (reply_key i) of
             None \<Rightarrow> Inr None
           | Some (fingerprint, taskId) \<Rightarrow>
               if fingerprint \<noteq> fingerprint_of q then Inl idempotency_conflict else Inr (Some taskId)))"

definition put_candidate :: "task_record \<Rightarrow> task_world \<Rightarrow> task_world" where
  "put_candidate candidate w =
     w\<lparr>tw_tasks := AList.update (tr_taskId candidate) (candidate, tw_revision w + 1) (tw_tasks w),
       tw_operations :=
         (case rq_operationId (tr_request candidate) of
            None \<Rightarrow> tw_operations w
          | Some i \<Rightarrow> AList.update i
              \<lparr>ti_taskId = tr_taskId candidate, ti_attemptId = tr_attemptId candidate,
               ti_fingerprint = fingerprint_of (tr_request candidate)\<rparr> (tw_operations w)),
       tw_revision := tw_revision w + 1\<rparr>"

definition candidate_absent :: "task_record \<Rightarrow> task_world \<Rightarrow> bool" where
  "candidate_absent candidate w \<longleftrightarrow>
     map_of (tw_tasks w) (tr_taskId candidate) = None \<and>
     (case rq_operationId (tr_request candidate) of None \<Rightarrow> True | Some i \<Rightarrow> map_of (tw_operations w) i = None)"

definition record_reply :: "run_request \<Rightarrow> jstring \<Rightarrow> task_world \<Rightarrow> task_world" where
  "record_reply q taskId w =
     (case rq_operationId q of
        None \<Rightarrow> w
      | Some i \<Rightarrow> w\<lparr>tw_replies := AList.update (reply_key i) (fingerprint_of q, taskId) (tw_replies w)\<rparr>)"

text \<open>The commit. A transaction of the same key that ended first answers this one too.\<close>

definition admit_commit ::
  "runtime_authority \<Rightarrow> task_record \<Rightarrow> jstring \<times> bool \<Rightarrow> task_world \<Rightarrow> (jstring \<times> task_world) result" where
  "admit_commit authority candidate outcome w =
     and_then (store_reachable w) (\<lambda>_.
     and_then (recorded_reply (tr_request candidate) w) (\<lambda>reply.
       case reply of
         Some taskId \<Rightarrow> Inr (taskId, w)
       | None \<Rightarrow>
           if snd outcome \<and> \<not> candidate_absent candidate w then Inl revision_conflict
           else and_then (assertTaskFence authority w) (\<lambda>_.
             let w1 = (if snd outcome then put_candidate candidate w else w)
             in Inr (fst outcome, advanceTaskFence authority (record_reply (tr_request candidate) (fst outcome) w1)))))"

definition admit_task ::
  "task_codec \<Rightarrow> run_request \<Rightarrow> jstring \<times> jstring \<Rightarrow> task_selection \<Rightarrow> runtime_authority \<Rightarrow> task_record task_run" where
  "admit_task c q identity selection authority =
     run_then (run_check (assertAuthority authority)) (\<lambda>_.
     run_then (run_check (\<lambda>w. parseTaskRecord c (candidate_record q identity selection authority (tw_now w)))) (\<lambda>candidate.
     run_then run_await (\<lambda>_.
     run_then (run_check (\<lambda>w. and_then (store_reachable w) (\<lambda>_. recorded_reply q w))) (\<lambda>reply.
     run_then
       (case reply of
          Some taskId \<Rightarrow> run_paused (Inr taskId)
        | None \<Rightarrow>
            run_then (run_check (admit_body c candidate)) (\<lambda>outcome.
            run_then run_await (\<lambda>_.
            run_then (run_step (admit_commit authority candidate outcome)) (\<lambda>taskId. run_paused (Inr taskId))))) (\<lambda>taskId.
     run_then (run_check (assertAuthority authority)) (\<lambda>_.
     run_then (load_task c taskId) (\<lambda>loaded.
       case loaded of None \<Rightarrow> run_result (Inl task_corrupt) | Some (record, _) \<Rightarrow> run_return record)))))))"

section \<open>Running\<close>

definition find_replay :: "task_codec \<Rightarrow> run_request \<Rightarrow> task_record option task_run" where
  "find_replay c q =
     (case rq_operationId q of
        None \<Rightarrow> run_return None
      | Some i \<Rightarrow>
          run_then run_await (\<lambda>_.
          run_then (run_check (\<lambda>w. and_then (store_reachable w) (\<lambda>_. Inr (map_of (tw_operations w) i)))) (\<lambda>stored.
          run_then run_await (\<lambda>_.
            case stored of
              None \<Rightarrow> run_return None
            | Some identity \<Rightarrow>
                if ti_fingerprint identity \<noteq> fingerprint_of q then run_result (Inl idempotency_conflict)
                else run_then (load_task c (ti_taskId identity)) (\<lambda>task.
                  case task of None \<Rightarrow> run_result (Inl task_corrupt) | Some (r, _) \<Rightarrow> run_return (Some r))))))"

text \<open>\<open>rn_identity\<close> is what \<open>createIdentity\<close> proposes.\<close>

record run_answers =
  rn_identity :: "jstring \<times> jstring"
  rn_selected :: select_outcome
  rn_dispatch :: dispatch_answers
  rn_joined :: "task_record result"
  rn_recover :: recover_answers

definition replay_task :: "task_codec \<Rightarrow> run_answers \<Rightarrow> task_record \<Rightarrow> task_record task_run" where
  "replay_task c a replay =
     (if tr_state replay = TaskTerminal then run_return replay
      else run_then run_world (\<lambda>w.
        if tr_taskId replay \<in> set (ts_dispatches w) then run_paused (rn_joined a)
        else
          run_then (run_check requireAuthority) (\<lambda>authority.
          run_then (recover_record c (rn_recover a) replay authority) (\<lambda>_. status_or c replay))))"

text \<open>The executor of a fresh admission is kept where the admitted task has the selected target and binding.\<close>

definition keeps_selection :: "task_record \<Rightarrow> task_selection \<Rightarrow> bool" where
  "keeps_selection admitted selected \<longleftrightarrow>
     (case tr_target admitted of
        None \<Rightarrow> False
      | Some target \<Rightarrow>
          map_option tb_fingerprint (tr_binding admitted) = Some (tb_fingerprint (sl_binding selected)) \<and>
          sameTarget target (sl_target selected))"

definition fresh_task :: "task_codec \<Rightarrow> run_answers \<Rightarrow> run_request \<Rightarrow> runtime_authority \<Rightarrow> task_record task_run" where
  "fresh_task c a q authority =
     run_then (select_bounded authority (rn_selected a)) (\<lambda>selected.
     run_then (run_result (validateSelection selected)) (\<lambda>_.
     run_then (run_check (assertAuthority authority)) (\<lambda>_.
     run_then (admit_task c q (rn_identity a) selected authority) (\<lambda>admitted.
     run_then
       (if keeps_selection admitted selected
        then run_then (register_executor (tr_taskId admitted) (sl_executor selected) authority) (\<lambda>_. run_return ())
        else run_return ()) (\<lambda>_.
     run_then run_world (\<lambda>w.
       if tr_taskId admitted \<in> set (ts_dispatches w) then run_paused (rn_joined a)
       else if tr_state admitted \<noteq> TaskAccepted then run_return admitted
       else ensure_dispatch c (rn_dispatch a) (rn_joined a) admitted authority))))))"

definition run_task :: "task_codec \<Rightarrow> run_answers \<Rightarrow> run_request \<Rightarrow> task_record task_run" where
  "run_task c a q =
     run_then (run_check assertRunning) (\<lambda>_.
     run_then (run_check requireAuthority) (\<lambda>authority.
     run_then (find_replay c q) (\<lambda>replay.
       case replay of Some r \<Rightarrow> replay_task c a r | None \<Rightarrow> fresh_task c a q authority)))"

section \<open>Cancelling\<close>

text \<open>\<open>ca_waited\<close> is how the bounding sleep ends; \<open>ca_waiter\<close> numbers the waiter.\<close>

record cancel_answers =
  ca_joined :: "task_record result"
  ca_dispatched :: "task_record result"
  ca_cancelled :: "unit result"
  ca_observed :: "observation result"
  ca_waiter :: nat
  ca_waited :: "unit result"

definition wait_bounded :: "task_codec \<Rightarrow> cancel_answers \<Rightarrow> jstring \<Rightarrow> task_record option task_run" where
  "wait_bounded c a taskId =
     run_then (wait_task c (ca_waiter a) taskId) (\<lambda>settled.
       case settled of
         Some r \<Rightarrow> run_return (Some r)
       | None \<Rightarrow>
           run_then run_await (\<lambda>_.
           run_check (\<lambda>w.
             case map_of (ts_answers w) (ca_waiter a) of
               Some answer \<Rightarrow> and_then answer (\<lambda>r. Inr (Some r))
             | None \<Rightarrow> and_then (ca_waited a) (\<lambda>_. Inr None))))"

definition cancelled_record :: "runtime_authority \<Rightarrow> jstring \<Rightarrow> task_record \<Rightarrow> task_record" where
  "cancelled_record authority now current =
     current\<lparr>tr_cancellation := Some \<lparr>tc_requestedAt = now, tc_authority = authority\<rparr>, tr_updatedAt := now\<rparr>"

text \<open>The registered executor is asked to cancel and then observed.\<close>

definition cancel_attempt ::
  "task_codec \<Rightarrow> cancel_answers \<Rightarrow> task_record \<Rightarrow> runtime_authority \<Rightarrow> task_registration option \<Rightarrow> unit task_run" where
  "cancel_attempt c a intended authority active =
     (case active of
        None \<Rightarrow> run_check (assertAuthority authority)
      | Some registration \<Rightarrow>
          run_then (run_check (assertAuthority authority)) (\<lambda>_.
          run_then (call_executor (CancelledAt (tg_executor registration) (tr_taskId intended) (tr_attemptId intended))
                      (ca_cancelled a)) (\<lambda>_.
          run_then (run_check (assertAuthority authority)) (\<lambda>_.
          run_then (observe_bounded (tg_executor registration) intended (ca_observed a)) (\<lambda>observed.
          run_then (run_check (assertAuthority authority)) (\<lambda>_.
            case observed of
              Observed (Some (AttemptTerminal x)) \<Rightarrow> complete_task c intended x authority (Some registration)
            | _ \<Rightarrow> run_return ()))))))"

definition cancel_running ::
  "task_codec \<Rightarrow> cancel_answers \<Rightarrow> task_record \<Rightarrow> runtime_authority \<Rightarrow> task_record task_run" where
  "cancel_running c a current authority =
     run_then
       (if tr_cancellation current = None
        then transition_task c (tr_taskId current) authority (cancelled_record authority)
        else run_return current) (\<lambda>intended.
     run_then (run_check (assertAuthority authority)) (\<lambda>_.
     run_then run_world (\<lambda>w.
     run_then
       (if map_of (ts_executors w) (tr_taskId current) = None \<and> tr_taskId current \<in> set (ts_dispatches w)
        then run_await else run_return ()) (\<lambda>_.
     run_then run_world (\<lambda>w.
     run_then (cancel_attempt c a intended authority (map_of (ts_executors w) (tr_taskId current))) (\<lambda>_.
     run_then (wait_bounded c a (tr_taskId current)) (\<lambda>completed.
       case completed of
         Some r \<Rightarrow> run_return r
       | None \<Rightarrow>
           run_then (task_status c (tr_taskId current)) (\<lambda>after.
             case after of
               Some r \<Rightarrow>
                 if tr_state r = TaskTerminal then run_return r
                 else run_then (settle_uncertain c intended GenericError authority True) (\<lambda>_. status_or c intended)
             | None \<Rightarrow> run_then (settle_uncertain c intended GenericError authority True) (\<lambda>_. status_or c intended)))))))))"

definition cancel_inner :: "task_codec \<Rightarrow> cancel_answers \<Rightarrow> jstring \<Rightarrow> task_record task_run" where
  "cancel_inner c a taskId =
     run_then (run_check requireAuthority) (\<lambda>authority.
     run_then (task_status c taskId) (\<lambda>status.
       case status of
         None \<Rightarrow> run_result (Inl task_missing)
       | Some current \<Rightarrow>
           if tr_state current = TaskTerminal then run_return current else cancel_running c a current authority))"

text \<open>A cancellation that succeeded is kept and answers the later ones.\<close>

definition cancel_task :: "task_codec \<Rightarrow> cancel_answers \<Rightarrow> jstring \<Rightarrow> task_record task_run" where
  "cancel_task c a taskId =
     run_then (run_check assertRunning) (\<lambda>_.
     run_then (run_check requireAuthority) (\<lambda>_.
     run_then run_world (\<lambda>w.
       if taskId \<in> set (ts_cancellations w) then run_paused (ca_joined a)
       else
         run_then (run_change (\<lambda>w. w\<lparr>ts_cancellations := taskId # ts_cancellations w\<rparr>)) (\<lambda>_.
           run_catch (cancel_inner c a taskId)
             (\<lambda>e. run_then
                (run_change (\<lambda>w. w\<lparr>ts_cancellations := filter (\<lambda>t. t \<noteq> taskId) (ts_cancellations w)\<rparr>))
                (\<lambda>_. run_result (Inl e)))))))"

section \<open>Settlement of attempts, and closing\<close>

text \<open>The handle of a running attempt settles: its result, or the error of its promise.\<close>

definition attempt_settled ::
  "task_codec \<Rightarrow> task_completion \<Rightarrow> execution_result result result \<Rightarrow> unit task_run" where
  "attempt_settled c p outcome =
     (case outcome of
        Inr x \<Rightarrow> complete_task c (tp_record p) x (tp_authority p) (Some (tp_registration p))
      | Inl e \<Rightarrow> settle_uncertain c (tp_record p) e (tp_authority p) True)"

definition local_settled :: "task_codec \<Rightarrow> nat \<Rightarrow> execution_result result result \<Rightarrow> unit task_run" where
  "local_settled c n outcome =
     run_then run_world (\<lambda>w.
       if n < length (ts_completions w)
       then run_then (run_change (\<lambda>w. w\<lparr>ts_completions := take n (ts_completions w) @ drop (Suc n) (ts_completions w)\<rparr>))
              (\<lambda>_. attempt_settled c (ts_completions w ! n) outcome)
       else run_return ())"

definition remote_settled :: "task_codec \<Rightarrow> jstring \<Rightarrow> execution_result result result \<Rightarrow> unit task_run" where
  "remote_settled c taskId outcome =
     run_then run_world (\<lambda>w.
       case map_of (ts_remoteCompletions w) taskId of
         None \<Rightarrow> run_return ()
       | Some p \<Rightarrow> run_finally (attempt_settled c p outcome)
           (\<lambda>w. w\<lparr>ts_remoteCompletions := AList.delete taskId (ts_remoteCompletions w)\<rparr>))"

definition close_tasks :: "task_world \<Rightarrow> task_world" where
  "close_tasks w =
     (if ts_closed w then w
      else w\<lparr>ts_closed := True, ts_authority := None,
             ts_answers := ts_answers w @ map (\<lambda>(_, n). (n, Inl service_stopped)) (ts_waiters w), ts_waiters := []\<rparr>)"

end
