(* ===== verification/Task_Contract.thy ===== *)
theory Task_Contract
  imports Task_Operations
begin

text \<open>
  What the operations of the task service keep, whatever runs at their pauses: the records of the store only
  advance, and what a service remembers agrees with the store. Both are stated for the logic of
  \<open>Result_Run\<close>; each lemma is the triple of one operation.
\<close>

section \<open>Records that stand for one task\<close>

definition same_task :: "task_record \<Rightarrow> task_record \<Rightarrow> bool" where
  "same_task r x \<longleftrightarrow>
     tr_taskId x = tr_taskId r \<and> tr_attemptId x = tr_attemptId r \<and> tr_request x = tr_request r \<and>
     tr_createdAt x = tr_createdAt r \<and> tr_target x = tr_target r \<and> tr_binding x = tr_binding r \<and>
     tr_executor x = tr_executor r"

lemma same_task_refl [simp]: "same_task r r"
  by (simp add: same_task_def)

lemma same_task_sym: "same_task r x \<Longrightarrow> same_task x r"
  by (simp add: same_task_def)

lemma same_task_trans: "same_task r x \<Longrightarrow> same_task x y \<Longrightarrow> same_task r y"
  by (simp add: same_task_def)

definition task_advanced :: "task_record \<Rightarrow> task_record \<Rightarrow> bool" where
  "task_advanced r x \<longleftrightarrow> same_task r x \<and> (tr_state r = TaskRunning \<longrightarrow> tr_state x \<noteq> TaskAccepted)"

text \<open>From one moment to a later one: a stored task is kept; a terminal one is not written again.\<close>

definition entry_later :: "task_record \<times> nat \<Rightarrow> task_record \<times> nat \<Rightarrow> bool" where
  "entry_later old new \<longleftrightarrow>
     task_advanced (fst old) (fst new) \<and> snd old \<le> snd new \<and>
     (tr_state (fst old) = TaskTerminal \<or> snd new = snd old \<longrightarrow> new = old)"

definition task_later :: "task_world \<Rightarrow> task_world \<Rightarrow> bool" where
  "task_later w w' \<longleftrightarrow>
     tw_revision w \<le> tw_revision w' \<and>
     (\<forall>i entry. map_of (tw_tasks w) i = Some entry \<longrightarrow>
        (\<exists>entry'. map_of (tw_tasks w') i = Some entry' \<and> entry_later entry entry')) \<and>
     (\<forall>i identity. map_of (tw_operations w) i = Some identity \<longrightarrow> map_of (tw_operations w') i = Some identity) \<and>
     (\<forall>k reply. map_of (tw_replies w) k = Some reply \<longrightarrow> map_of (tw_replies w') k = Some reply)"

lemma entry_later_refl [simp]: "entry_later x x"
  by (simp add: entry_later_def task_advanced_def)

lemma entry_later_trans:
  assumes "entry_later x y" and "entry_later y z"
  shows "entry_later x z"
proof -
  have "task_advanced (fst x) (fst z)"
    using assms by (auto simp: entry_later_def task_advanced_def intro: same_task_trans) (metis task_state.exhaust)
  moreover have "snd x \<le> snd z" using assms by (simp add: entry_later_def)
  moreover have "z = x" if "tr_state (fst x) = TaskTerminal \<or> snd z = snd x"
    using that assms by (auto simp: entry_later_def)
  ultimately show ?thesis by (simp add: entry_later_def)
qed

lemma task_later_refl: "task_later w w"
  by (simp add: task_later_def)

lemma task_later_entry:
  "task_later w w' \<Longrightarrow> map_of (tw_tasks w) i = Some entry \<Longrightarrow>
   \<exists>entry'. map_of (tw_tasks w') i = Some entry' \<and> entry_later entry entry'"
  unfolding task_later_def by blast

lemma task_later_trans:
  assumes "task_later u v" and "task_later v w"
  shows "task_later u w"
proof -
  have "\<exists>entry''. map_of (tw_tasks w) i = Some entry'' \<and> entry_later entry entry''"
    if "map_of (tw_tasks u) i = Some entry" for i entry
    using task_later_entry [OF assms(1) that] task_later_entry [OF assms(2)] entry_later_trans by blast
  then show ?thesis using assms by (auto simp: task_later_def)
qed

definition stored :: "task_world \<Rightarrow> jstring \<Rightarrow> task_record option" where
  "stored w i = map_option fst (map_of (tw_tasks w) i)"

text \<open>A record the service holds is of a stored task; \<open>seen\<close> adds the revision it was read at.\<close>

definition known :: "task_record \<Rightarrow> task_world \<Rightarrow> bool" where
  "known x w \<longleftrightarrow> (\<exists>r. stored w (tr_taskId x) = Some r \<and> same_task r x)"

definition seen :: "task_record \<Rightarrow> nat \<Rightarrow> task_world \<Rightarrow> bool" where
  "seen x n w \<longleftrightarrow> (\<exists>entry. map_of (tw_tasks w) (tr_taskId x) = Some entry \<and> entry_later (x, n) entry)"

lemma seen_known: "seen x n w \<Longrightarrow> known x w"
  by (auto simp: seen_def known_def stored_def entry_later_def task_advanced_def intro: same_task_sym)

lemma known_later: "known x w \<Longrightarrow> task_later w w' \<Longrightarrow> known x w'"
  unfolding known_def stored_def task_later_def
  by (fastforce simp: entry_later_def task_advanced_def same_task_def)

lemma seen_later: "seen x n w \<Longrightarrow> task_later w w' \<Longrightarrow> seen x n w'"
  unfolding seen_def task_later_def by (blast intro: entry_later_trans)

lemma known_same: "known x w \<Longrightarrow> same_task x y \<Longrightarrow> known y w"
  unfolding known_def by (auto simp: same_task_def)

section \<open>Soundness\<close>

definition attempt_at :: "task_world \<Rightarrow> jstring \<Rightarrow> jstring \<Rightarrow> executor_ref \<Rightarrow> bool" where
  "attempt_at w i a f \<longleftrightarrow>
     (\<exists>r t. stored w i = Some r \<and> tr_attemptId r = a \<and> tr_target r = Some t \<and> f = target_executor t)"

definition call_ok :: "task_world \<Rightarrow> executor_call \<Rightarrow> bool" where
  "call_ok w x =
     (case x of
        SubmittedTo f q \<Rightarrow> (\<exists>r t b. stored w (xq_taskId q) = Some r \<and> tr_target r = Some t \<and> tr_binding r = Some b \<and>
          f = target_executor t \<and> q = execution_request_of r t b)
      | ObservedAt f i a \<Rightarrow> attempt_at w i a f
      | CancelledAt f i a \<Rightarrow> attempt_at w i a f
      | ResumedAt f i a \<Rightarrow> attempt_at w i a f)"

definition targets_task :: "task_world \<Rightarrow> jstring \<Rightarrow> executor_ref \<Rightarrow> bool" where
  "targets_task w i f \<longleftrightarrow> (\<exists>a. attempt_at w i a f)"

definition store_sound :: "task_codec \<Rightarrow> task_world \<Rightarrow> bool" where
  "store_sound c w \<longleftrightarrow>
     distinct (map fst (tw_tasks w)) \<and>
     (\<forall>i r n. map_of (tw_tasks w) i = Some (r, n) \<longrightarrow>
        tr_taskId r = i \<and> n \<le> tw_revision w \<and> parseTaskRecord c r = Inr r) \<and>
     (\<forall>i identity. map_of (tw_operations w) i = Some identity \<longrightarrow>
        (\<exists>r. stored w (ti_taskId identity) = Some r \<and> rq_operationId (tr_request r) = Some i \<and>
             ti_attemptId identity = tr_attemptId r \<and> ti_fingerprint identity = fingerprint_of (tr_request r))) \<and>
     (\<forall>j r i. stored w j = Some r \<longrightarrow> rq_operationId (tr_request r) = Some i \<longrightarrow>
        (\<exists>identity. map_of (tw_operations w) i = Some identity \<and> ti_taskId identity = j))"

text \<open>What the service \<open>w\<close> remembers agrees with the store \<open>v\<close>.\<close>

definition remembers :: "task_world \<Rightarrow> task_world \<Rightarrow> bool" where
  "remembers v w \<longleftrightarrow>
     (\<forall>entry \<in> snd ` set (ts_records w). known (fst entry) v) \<and>
     (\<forall>i registration. map_of (ts_executors w) i = Some registration \<longrightarrow> targets_task v i (tg_executor registration)) \<and>
     (\<forall>p \<in> set (ts_completions w). known (tp_record p) v) \<and>
     (\<forall>i p. map_of (ts_remoteCompletions w) i = Some p \<longrightarrow> known (tp_record p) v) \<and>
     (\<forall>i x. map_of (ts_ephemeral w) i = Some x \<longrightarrow> tr_taskId x = i \<and> known x v) \<and>
     (\<forall>x \<in> set (ts_calls w). call_ok v x)"

definition task_sound :: "task_codec \<Rightarrow> task_world \<Rightarrow> bool" where
  "task_sound c w \<longleftrightarrow> store_sound c w \<and> remembers w w"

interpretation tasks: rely_guarantee task_later "task_sound c" for c
  by unfold_locales (rule task_later_refl, rule task_later_trans)

section \<open>Changes of the service and of the store\<close>

lemma stored_later:
  assumes "stored w i = Some r" and "task_later w w'"
  shows "\<exists>r'. stored w' i = Some r' \<and> same_task r r'"
proof -
  from assms(1) obtain n where "map_of (tw_tasks w) i = Some (r, n)" by (auto simp: stored_def)
  from task_later_entry [OF assms(2) this] show ?thesis by (auto simp: stored_def entry_later_def task_advanced_def)
qed

lemma attempt_later:
  assumes "attempt_at w i a f" and "task_later w w'"
  shows "attempt_at w' i a f"
proof -
  from assms(1) obtain r t where r: "stored w i = Some r" "tr_attemptId r = a" "tr_target r = Some t" "f = target_executor t"
    by (auto simp: attempt_at_def)
  from stored_later [OF r(1) assms(2)] r(2-4) show ?thesis by (auto simp: attempt_at_def same_task_def)
qed

lemma targets_later: "targets_task w i f \<Longrightarrow> task_later w w' \<Longrightarrow> targets_task w' i f"
  unfolding targets_task_def by (blast intro: attempt_later)

lemma execution_request_same: "same_task r r' \<Longrightarrow> execution_request_of r' t b = execution_request_of r t b"
  by (simp add: same_task_def execution_request_of_def)

lemma call_ok_later:
  assumes "call_ok w x" and "task_later w w'"
  shows "call_ok w' x"
proof (cases x)
  case (SubmittedTo f q)
  with assms(1) obtain r t b where r: "stored w (xq_taskId q) = Some r" "tr_target r = Some t" "tr_binding r = Some b"
    "f = target_executor t" "q = execution_request_of r t b" by (auto simp: call_ok_def)
  obtain r' where "stored w' (xq_taskId q) = Some r'" "same_task r r'" using stored_later [OF r(1) assms(2)] by auto
  then show ?thesis using r SubmittedTo execution_request_same [of r r' t b]
    by (auto simp: call_ok_def same_task_def intro!: exI [of _ r'])
qed (use assms in \<open>simp_all add: call_ok_def attempt_later\<close>)

lemma remembers_later:
  assumes "remembers v w" and "task_later v v'"
  shows "remembers v' w"
  using assms known_later [OF _ assms(2)] targets_later [OF _ assms(2)] call_ok_later [OF _ assms(2)]
  unfolding remembers_def by fast

text \<open>Two worlds with one store and, for the second lemma, with one service.\<close>

lemma one_store:
  assumes "tw_tasks w' = tw_tasks w" and "tw_operations w' = tw_operations w" and "tw_replies w' = tw_replies w"
    and "tw_revision w' = tw_revision w"
  shows "task_later w w'" and "store_sound c w' = store_sound c w" and "known x w' = known x w"
    and "targets_task w' i f = targets_task w i f" and "remembers w' u = remembers w u" and "stored w' = stored w"
proof -
  show st: "stored w' = stored w" using assms by (simp add: stored_def fun_eq_iff)
  have at: "attempt_at w' = attempt_at w" unfolding attempt_at_def st by simp
  have known: "known x w' = known x w" for x unfolding known_def st ..
  have targets: "targets_task w' i f = targets_task w i f" for i f unfolding targets_task_def at ..
  show "known x w' = known x w" "targets_task w' i f = targets_task w i f" by (fact known targets)+
  have "call_ok w' y = call_ok w y" for y unfolding call_ok_def st at ..
  then show "remembers w' u = remembers w u" unfolding remembers_def known targets by simp
  show "task_later w w'" "store_sound c w' = store_sound c w"
    using assms task_later_refl [of w] st by (simp_all add: task_later_def store_sound_def)
qed

lemma one_service:
  assumes "ts_records w' = ts_records w" and "ts_executors w' = ts_executors w" and "ts_completions w' = ts_completions w"
    and "ts_remoteCompletions w' = ts_remoteCompletions w" and "ts_ephemeral w' = ts_ephemeral w" and "ts_calls w' = ts_calls w"
  shows "remembers v w' = remembers v w"
  unfolding remembers_def using assms by simp

text \<open>A step that leaves the store alone is described by what it does to the service.\<close>

definition store_kept :: "(task_world \<Rightarrow> task_world) \<Rightarrow> bool" where
  "store_kept f \<longleftrightarrow> (\<forall>w. tw_tasks (f w) = tw_tasks w \<and> tw_operations (f w) = tw_operations w \<and>
     tw_replies (f w) = tw_replies w \<and> tw_revision (f w) = tw_revision w)"

lemma kept_sound:
  assumes "store_kept f" and "task_sound c w" and "remembers w w \<Longrightarrow> remembers w (f w)"
  shows "task_sound c (f w) \<and> task_later w (f w)"
  using assms one_store [of "f w" w] by (auto simp: task_sound_def store_kept_def)

lemma triple_service:
  assumes "store_kept f" and "\<And>w. remembers w w \<Longrightarrow> P w \<Longrightarrow> remembers w (f w)" and "\<And>w. P w \<Longrightarrow> Q () (f w)"
  shows "tasks.triple c P (run_change f) Q"
  using assms kept_sound by (blast intro: tasks.triple_change)

lemma stable_known: "tasks.stable (known x)"
  by (auto simp: tasks.stable_def intro: known_later)

lemma stable_seen: "tasks.stable (seen x n)"
  by (auto simp: tasks.stable_def intro: seen_later)

lemma stable_True: "tasks.stable (\<lambda>_. True)"
  by (simp add: tasks.stable_def)

lemma stable_targets: "tasks.stable (\<lambda>w. targets_task w i f)"
  by (auto simp: tasks.stable_def intro: targets_later)

lemma stable_conj: "tasks.stable P \<Longrightarrow> tasks.stable Q \<Longrightarrow> tasks.stable (\<lambda>w. P w \<and> Q w)"
  by (auto simp: tasks.stable_def)

lemmas stable = stable_known stable_seen stable_True stable_targets stable_conj

section \<open>Loading and writing a record\<close>

lemma sound_entry:
  assumes "task_sound c w" and "map_of (tw_tasks w) i = Some (r, n)"
  shows "tr_taskId r = i" and "n \<le> tw_revision w" and "parseTaskRecord c r = Inr r"
  using assms by (auto simp: task_sound_def store_sound_def)

lemma entry_seen: "task_sound c w \<Longrightarrow> map_of (tw_tasks w) i = Some (r, n) \<Longrightarrow> seen r n w \<and> tr_taskId r = i"
  using sound_entry(1) [of c w i r n] by (auto simp: seen_def)

lemma remembers_cache:
  assumes "remembers v w" and "known r v"
  shows "remembers v (cache_record i (r, n) w)"
proof -
  have "known (fst entry) v" if "entry \<in> snd ` set (AList.update i (r, n) (ts_records w))" for entry
    using subsetD [OF snd_set_update that] assms unfolding remembers_def by (metis fst_conv insertE)
  then show ?thesis using assms unfolding remembers_def cache_record_def by simp
qed

lemma triple_load:
  assumes "tasks.stable P"
  shows "tasks.triple c P (load_task c i) (\<lambda>loaded w. P w \<and> (case loaded of None \<Rightarrow> True | Some (r, n) \<Rightarrow> tr_taskId r = i \<and> seen r n w))"
  unfolding load_task_def
proof (rule tasks.triple_then [OF tasks.triple_await [OF assms]])
  fix x :: unit
  let ?S = "\<lambda>stored w. P w \<and> (case stored of None \<Rightarrow> True | Some (r, n) \<Rightarrow> tr_taskId r = i \<and> seen r n w)"
  have stable: "tasks.stable (?S stored)" for stored
    using assms stable_seen by (cases stored) (auto simp: tasks.stable_def)
  have read: "tasks.triple c P (run_check (\<lambda>w. and_then (store_reachable w) (\<lambda>_. Inr (map_of (tw_tasks w) i)))) ?S"
    by (rule tasks.triple_check) (auto split: option.split dest: entry_seen)
  show "tasks.triple c P
      (run_then (run_check (\<lambda>w. and_then (store_reachable w) (\<lambda>_. Inr (map_of (tw_tasks w) i)))) (\<lambda>stored.
       run_then run_await (\<lambda>_. case stored of None \<Rightarrow> run_return None
         | Some (r, revision) \<Rightarrow>
             run_then (run_result (parseTaskRecord c r)) (\<lambda>record.
             run_then (run_change (cache_record i (record, revision))) (\<lambda>_. run_return (Some (record, revision)))))))
      (\<lambda>loaded. ?S loaded)"
  proof (rule tasks.triple_then [OF read], rule tasks.triple_then [OF tasks.triple_await [OF stable]])
    fix stored :: "(task_record \<times> nat) option" and y :: unit
    show "tasks.triple c (?S stored) (case stored of None \<Rightarrow> run_return None
         | Some (r, revision) \<Rightarrow>
             run_then (run_result (parseTaskRecord c r)) (\<lambda>record.
             run_then (run_change (cache_record i (record, revision))) (\<lambda>_. run_return (Some (record, revision))))) (\<lambda>loaded. ?S loaded)"
    proof (cases stored)
      case None
      then show ?thesis by (auto intro: tasks.triple_return)
    next
      case (Some entry)
      obtain r n where entry: "entry = (r, n)" by (cases entry)
      let ?P = "\<lambda>w. P w \<and> tr_taskId r = i \<and> seen r n w"
      have "tasks.triple c ?P (run_result (parseTaskRecord c r)) (\<lambda>x w. x = r \<and> ?P w)"
        by (rule tasks.triple_result) (auto dest: parseTaskRecord_value)
      moreover have "tasks.triple c (\<lambda>w. x = r \<and> ?P w)
          (run_then (run_change (cache_record i (x, n))) (\<lambda>_. run_return (Some (x, n)))) (\<lambda>loaded. ?S loaded)" for x
      proof (rule tasks.triple_then)
        show "tasks.triple c (\<lambda>w. x = r \<and> ?P w) (run_change (cache_record i (x, n))) (\<lambda>_ w. x = r \<and> ?P w)"
        proof (rule tasks.triple_change)
          fix w
          assume "task_sound c w" "x = r \<and> ?P w"
          moreover have kept: "store_kept (cache_record i (x, n))" by (simp add: store_kept_def cache_record_def)
          ultimately have "task_sound c (cache_record i (x, n) w) \<and> task_later w (cache_record i (x, n) w)"
            by (intro kept_sound) (auto intro: remembers_cache seen_known)
          moreover have "?P (cache_record i (x, n) w)"
            using \<open>x = r \<and> ?P w\<close> assms calculation stable_seen by (auto simp: tasks.stable_def)
          ultimately show "task_sound c (cache_record i (x, n) w) \<and> task_later w (cache_record i (x, n) w) \<and>
            x = r \<and> ?P (cache_record i (x, n) w)" using \<open>x = r \<and> ?P w\<close> by simp
        qed
      qed (auto intro: tasks.triple_return)
      ultimately show ?thesis unfolding Some entry by (auto intro: tasks.triple_then)
    qed
  qed
qed

lemma task_advanced_refl: "task_advanced r r"
  by (simp add: task_advanced_def)

lemma known_agree:
  assumes "known x w" and "known y w" and "tr_taskId y = tr_taskId x"
  shows "same_task x y"
  using assms unfolding known_def by (auto intro: same_task_trans dest: same_task_sym)

lemma stored_update:
  "stored (w\<lparr>tw_tasks := AList.update i (r, n) (tw_tasks w), tw_revision := m\<rparr>) = (stored w)(i \<mapsto> r)"
  by (auto simp: stored_def fun_eq_iff update_conv')

lemma store_sound_write:
  assumes "store_sound c w" and "stored w i = Some old" and "same_task old next" and "parseTaskRecord c next = Inr next"
    and "tw_operations w' = tw_operations w" and "tw_revision w' = tw_revision w + 1"
    and "map_of (tw_tasks w') = (map_of (tw_tasks w))(i \<mapsto> (next, tw_revision w + 1))"
    and "distinct (map fst (tw_tasks w'))"
  shows "store_sound c w'"
proof -
  have old: "tr_taskId old = i" using assms(1,2) by (auto simp: store_sound_def stored_def)
  have new: "tr_taskId next = i" "tr_attemptId next = tr_attemptId old" "tr_request next = tr_request old"
    using assms(3) old by (simp_all add: same_task_def)
  have stored: "stored w' = (stored w)(i \<mapsto> next)" using assms(7) by (auto simp: stored_def fun_eq_iff)
  have "tr_taskId r = j \<and> n \<le> tw_revision w' \<and> parseTaskRecord c r = Inr r" if "map_of (tw_tasks w') j = Some (r, n)" for j r n
    using that assms(1,4,6,7) new unfolding store_sound_def by (cases "j = i") (auto intro: le_SucI)
  moreover have "\<exists>r. stored w' (ti_taskId identity) = Some r \<and> rq_operationId (tr_request r) = Some j \<and>
      ti_attemptId identity = tr_attemptId r \<and> ti_fingerprint identity = fingerprint_of (tr_request r)"
    if "map_of (tw_operations w') j = Some identity" for j identity
  proof -
    have "map_of (tw_operations w) j = Some identity" using that assms(5) by simp
    then obtain r where "stored w (ti_taskId identity) = Some r" "rq_operationId (tr_request r) = Some j"
      "ti_attemptId identity = tr_attemptId r" "ti_fingerprint identity = fingerprint_of (tr_request r)"
      using assms(1) unfolding store_sound_def by blast
    then show ?thesis using new assms(2) by (cases "ti_taskId identity = i") (auto simp: stored)
  qed
  moreover have "\<exists>identity. map_of (tw_operations w') k = Some identity \<and> ti_taskId identity = j"
    if "stored w' j = Some r" "rq_operationId (tr_request r) = Some k" for j r k
    using that assms(1,2,5) new unfolding store_sound_def stored by (auto split: if_splits)
  ultimately show ?thesis using assms(8) unfolding store_sound_def by blast
qed

text \<open>The commit writes the task that was read, task_advanced.\<close>

lemma triple_commit:
  assumes "task_advanced old next" and "tr_state old \<noteq> TaskTerminal" and "parseTaskRecord c next = Inr next"
  shows "tasks.triple c (seen old n) (run_step (commit_task authority (tr_taskId old) next n)) (\<lambda>_. known old)"
proof (rule tasks.triple_step)
  fix w w' and x :: unit
  assume sound: "task_sound c w" and seen: "seen old n w" and commit: "commit_task authority (tr_taskId old) next n w = Inr (x, w')"
  define i where "i = tr_taskId old"
  from commit obtain r where "map_of (tw_tasks w) i = Some (r, n)"
    by (auto simp: commit_task_def i_def split: if_splits option.splits)
  with seen have old: "map_of (tw_tasks w) i = Some (old, n)" by (auto simp: seen_def entry_later_def i_def)
  define v where "v = advanceTaskFence authority w"
  have w': "w' = v\<lparr>tw_tasks := AList.update i (next, tw_revision w + 1) (tw_tasks v), tw_revision := tw_revision w + 1\<rparr>"
    using commit by (auto simp: commit_task_def i_def v_def advanceTaskFence_def split: if_splits)
  have v: "tw_tasks v = tw_tasks w" "tw_operations v = tw_operations w" "tw_replies v = tw_replies w"
    "tw_revision v = tw_revision w" by (simp_all add: v_def advanceTaskFence_def)
  have same: "same_task old next" using assms(1) by (simp add: task_advanced_def)
  have later: "task_later w w'"
    using sound_entry(2) [OF sound old] assms(1,2) old
    by (auto simp: task_later_def w' v entry_later_def update_conv' task_advanced_refl)
  have stored: "stored w' = (stored w)(i \<mapsto> next)"
    unfolding w' stored_update using v(1) by (simp add: stored_def fun_eq_iff)
  have "stored w i = Some old" using old by (simp add: stored_def)
  have ok: "store_sound c w" using sound by (simp add: task_sound_def)
  then have "distinct (map fst (tw_tasks w))" by (simp add: store_sound_def)
  then have "distinct (map fst (tw_tasks w'))" by (simp add: w' v distinct_update)
  with store_sound_write [OF ok \<open>stored w i = Some old\<close> same assms(3), of w'] have "store_sound c w'"
    unfolding stored by (simp add: w' v update_conv' i_def)
  moreover have "remembers w' w'"
  proof -
    have "remembers w w" using sound by (simp add: task_sound_def)
    from remembers_later [OF this later] show ?thesis
      using one_service [of w' w w'] by (simp add: w' v_def advanceTaskFence_def)
  qed
  ultimately show "task_sound c w' \<and> task_later w w' \<and> known old w'"
    using later known_later [OF seen_known [OF seen] later] by (simp add: task_sound_def)
qed

lemma triple_assert: "tasks.triple c P (run_check (assertAuthority authority)) (\<lambda>_. P)"
  by (rule tasks.triple_check) simp

lemma triple_put:
  assumes "task_advanced old next" and "tr_state old \<noteq> TaskTerminal" and "parseTaskRecord c next = Inr next"
  shows "tasks.triple c (seen old n) (put_task c authority (tr_taskId old) next n) (\<lambda>x w. known x w \<and> tr_taskId x = tr_taskId old)"
  unfolding put_task_def
  by (rule tasks.triple_then [OF tasks.triple_await [OF stable_seen]],
      rule tasks.triple_then [where R = "\<lambda>_. seen old n"], rule tasks.triple_check, simp,
      rule tasks.triple_then [OF tasks.triple_await [OF stable_seen]],
      rule tasks.triple_then [OF triple_commit [OF assms]],
      rule tasks.triple_then [OF tasks.triple_await [OF stable_known]],
      rule tasks.triple_then [OF triple_assert],
      rule tasks.triple_then [OF triple_load [OF stable_known]])
    (auto intro: tasks.triple_return tasks.triple_throw dest: seen_known split: option.split)

text \<open>An update of a task keeps its task and does not take it back.\<close>

definition advances_task :: "task_record \<Rightarrow> (jstring \<Rightarrow> task_record \<Rightarrow> task_record) \<Rightarrow> bool" where
  "advances_task task update \<longleftrightarrow>
     (\<forall>now r. same_task task r \<longrightarrow> tr_state r \<noteq> TaskTerminal \<longrightarrow> task_advanced r (update now r))"

lemma triple_attempts:
  assumes "advances_task task update"
  shows "tasks.triple c (known task) (transition_attempts c n (tr_taskId task) authority update)
    (\<lambda>x w. known x w \<and> tr_taskId x = tr_taskId task)"
proof (induction n)
  case 0
  then show ?case by (simp add: tasks.triple_throw)
next
  case (Suc n)
  let ?Q = "\<lambda>x w. known x w \<and> tr_taskId x = tr_taskId task"
  let ?L = "\<lambda>old n w. known task w \<and> tr_taskId old = tr_taskId task \<and> seen old n w"
  have stable: "tasks.stable (\<lambda>w. ?L old n w \<and> P)" for old n P
    using stable_known [of task] stable_seen [of old n] by (auto simp: tasks.stable_def)
  have goes_on: "tasks.triple c (?L old m)
      (if tr_state old = TaskTerminal then run_return old
       else run_then (run_check (\<lambda>w. parseTaskRecord c (update (tw_now w) old))) (\<lambda>next.
         run_catch (put_task c authority (tr_taskId task) next m)
           (\<lambda>e. if e = revision_conflict then transition_attempts c n (tr_taskId task) authority update
                else run_result (Inl e)))) ?Q" for old m
  proof (cases "tr_state old = TaskTerminal")
    case True
    then show ?thesis by (auto intro: tasks.triple_return dest: seen_known)
  next
    case False
    let ?ok = "\<lambda>next. task_advanced old next \<and> parseTaskRecord c next = Inr next"
    have check: "tasks.triple c (?L old m) (run_check (\<lambda>w. parseTaskRecord c (update (tw_now w) old))) (\<lambda>next w. ?L old m w \<and> ?ok next)"
    proof (rule tasks.triple_check)
      fix w x
      assume L: "?L old m w" and x: "parseTaskRecord c (update (tw_now w) old) = Inr x"
      have "same_task task old" using L seen_known [of old m w] by (intro known_agree [of task w old]) auto
      with assms False have "task_advanced old (update (tw_now w) old)" by (simp add: advances_task_def)
      then show "?L old m w \<and> ?ok x" using L x parseTaskRecord_value [OF x] by auto
    qed
    have rest: "tasks.triple c (\<lambda>w. ?L old m w \<and> ?ok next)
        (run_catch (put_task c authority (tr_taskId task) next m)
           (\<lambda>e. if e = revision_conflict then transition_attempts c n (tr_taskId task) authority update
                else run_result (Inl e))) ?Q" for "next"
    proof (cases "?ok next \<and> tr_taskId old = tr_taskId task")
      case True
      show ?thesis
      proof (rule tasks.triple_catch)
        show "tasks.triple c (\<lambda>w. ?L old m w \<and> ?ok next) (put_task c authority (tr_taskId task) next m) ?Q"
          using triple_put [of old "next" c m authority] True False by (auto elim!: tasks.triple_weaken)
        show "tasks.triple c (\<lambda>w. ?L old m w \<and> ?ok next)
            (if e = revision_conflict then transition_attempts c n (tr_taskId task) authority update else run_result (Inl e)) ?Q" for e
          using Suc.IH by (auto intro: tasks.triple_throw tasks.triple_weaken)
      qed (rule stable)
    qed (auto simp: tasks.triple_def)
    show ?thesis using False tasks.triple_then [OF check rest] by simp
  qed
  have loaded: "tasks.triple c (\<lambda>w. known task w \<and> (case loaded of None \<Rightarrow> True | Some (r, n) \<Rightarrow> tr_taskId r = tr_taskId task \<and> seen r n w))
      (case loaded of
         None \<Rightarrow> run_result (Inl task_missing)
       | Some (old, m) \<Rightarrow>
           if tr_state old = TaskTerminal then run_return old
           else run_then (run_check (\<lambda>w. parseTaskRecord c (update (tw_now w) old))) (\<lambda>next.
             run_catch (put_task c authority (tr_taskId task) next m)
               (\<lambda>e. if e = revision_conflict then transition_attempts c n (tr_taskId task) authority update
                    else run_result (Inl e)))) ?Q" for loaded
    using goes_on by (cases loaded) (auto simp: tasks.triple_throw)
  show ?case unfolding transition_attempts.simps
    by (rule tasks.triple_then [OF triple_assert], rule tasks.triple_then [OF triple_load [OF stable_known]], rule loaded)
qed

lemma triple_transition:
  "advances_task task update \<Longrightarrow>
   tasks.triple c (known task) (transition_task c (tr_taskId task) authority update)
     (\<lambda>x w. known x w \<and> tr_taskId x = tr_taskId task)"
  unfolding transition_task_def by (rule triple_attempts)

section \<open>Changes of what the service remembers\<close>

lemma triple_kept:
  assumes "store_kept f" and "tasks.stable P" and "\<And>w. remembers w w \<Longrightarrow> P w \<Longrightarrow> remembers w (f w)"
  shows "tasks.triple c P (run_change f) (\<lambda>_. P)"
proof (rule tasks.triple_change)
  fix w
  assume "task_sound c w" and P: "P w"
  then have "task_sound c (f w) \<and> task_later w (f w)" using kept_sound [OF assms(1)] assms(3) by blast
  then show "task_sound c (f w) \<and> task_later w (f w) \<and> P (f w)" using assms(2) P unfolding tasks.stable_def by blast
qed

definition task_quiet :: "(task_world \<Rightarrow> task_world) \<Rightarrow> bool" where
  "task_quiet f \<longleftrightarrow> store_kept f \<and> (\<forall>v w. remembers v w \<longrightarrow> remembers v (f w))"

lemma triple_quiet: "task_quiet f \<Longrightarrow> tasks.stable P \<Longrightarrow> tasks.triple c P (run_change f) (\<lambda>_. P)"
  by (rule triple_kept) (auto simp: task_quiet_def)

lemma quiet_changes:
  "task_quiet (notify_task r)" "task_quiet (reject_waiter n e)" "task_quiet (drop_registration i registration)"
  "task_quiet (\<lambda>w. w\<lparr>ts_ephemeral := AList.delete i (ts_ephemeral w)\<rparr>)"
  "task_quiet (\<lambda>w. w\<lparr>ts_waiters := ts_waiters w @ [(i, n)]\<rparr>)"
  "task_quiet (\<lambda>w. w\<lparr>ts_dispatches := i # ts_dispatches w\<rparr>)"
  "task_quiet (\<lambda>w. w\<lparr>ts_dispatches := filter q (ts_dispatches w)\<rparr>)"
  "task_quiet (\<lambda>w. w\<lparr>ts_cancellations := i # ts_cancellations w\<rparr>)"
  "task_quiet (\<lambda>w. w\<lparr>ts_cancellations := filter q (ts_cancellations w)\<rparr>)"
  "task_quiet (\<lambda>w. w\<lparr>ts_remoteCompletions := AList.delete i (ts_remoteCompletions w)\<rparr>)"
  "task_quiet (\<lambda>w. w\<lparr>ts_authority := a\<rparr>)" "task_quiet (\<lambda>w. w\<lparr>ts_records := []\<rparr>)"
  "task_quiet close_tasks" "task_quiet (\<lambda>w. w\<lparr>tw_now := now, tw_failure := failure\<rparr>)"
  by (auto simp: task_quiet_def store_kept_def remembers_def notify_task_def reject_waiter_def drop_registration_def
      close_tasks_def delete_conv')

lemma triple_finally_quiet:
  assumes "tasks.triple c P m Q" and "task_quiet f" and "\<And>x. tasks.stable (Q x)"
  shows "tasks.triple c P (run_finally m f) Q"
proof (rule tasks.tripleI)
  fix changes w r changes' w'
  assume start: "tasks.relied c changes" "task_sound c w" "P w" and run: "run_finally m f (changes, w) = (r, (changes', w'))"
  obtain r1 c1 w1 where m: "m (changes, w) = (r1, (c1, w1))" by (metis prod_cases3)
  note m' = tasks.tripleD [OF assms(1) start m]
  from m run have eq: "r = r1" "changes' = c1" "w' = f w1" by (simp_all add: run_finally_def)
  have "task_sound c (f w1) \<and> task_later w1 (f w1)"
    using assms(2) m'(2) by (intro kept_sound) (auto simp: task_quiet_def)
  then show "tasks.relied c changes' \<and> task_sound c w' \<and> task_later w w' \<and> (\<forall>x. r = Inr x \<longrightarrow> Q x w')"
    using m' assms(3) eq unfolding tasks.stable_def by (blast intro: task_later_trans)
qed

text \<open>The post-condition of operations that return a stored task, if any.\<close>

definition some_known :: "task_record option \<Rightarrow> task_world \<Rightarrow> bool" where
  "some_known x w \<longleftrightarrow> (case x of None \<Rightarrow> True | Some r \<Rightarrow> known r w)"

lemma stable_some_known: "tasks.stable (some_known x)"
  using stable_known by (cases x) (auto simp: some_known_def tasks.stable_def)

lemma triple_status:
  assumes "tasks.stable P"
  shows "tasks.triple c P (task_status c i) (\<lambda>x w. P w \<and> some_known x w \<and> (\<forall>r. x = Some r \<longrightarrow> tr_taskId r = i))"
proof -
  let ?Q = "\<lambda>x w. P w \<and> some_known x w \<and> (\<forall>r. x = Some r \<longrightarrow> tr_taskId r = i)"
  have ephemeral: "tr_taskId x = i \<and> known x w" if "task_sound c w" "map_of (ts_ephemeral w) i = Some x" for x w
    using that by (auto simp: task_sound_def remembers_def)
  have loaded: "tasks.triple c (\<lambda>w. P w \<and> (case loaded of None \<Rightarrow> True | Some (r, n) \<Rightarrow> tr_taskId r = i \<and> seen r n w))
      (case loaded of
         Some (task, _) \<Rightarrow>
           if tr_state task = TaskTerminal
           then run_then (run_change (\<lambda>w. w\<lparr>ts_ephemeral := AList.delete i (ts_ephemeral w)\<rparr>)) (\<lambda>_. run_return (Some task))
           else run_check (\<lambda>w. Inr (case map_of (ts_ephemeral w) i of Some x \<Rightarrow> Some x | None \<Rightarrow> Some task))
       | None \<Rightarrow> run_check (\<lambda>w. Inr (map_of (ts_ephemeral w) i))) ?Q" for loaded
  proof (cases loaded)
    case None
    have "?Q (map_of (ts_ephemeral w) i) w" if "task_sound c w" "P w" for w
      using that ephemeral [OF that(1)] by (auto simp: some_known_def split: option.split)
    then show ?thesis unfolding None by (auto intro: tasks.triple_check)
  next
    case (Some entry)
    obtain task n where entry: "entry = (task, n)" by (cases entry)
    let ?P = "\<lambda>w. P w \<and> tr_taskId task = i \<and> seen task n w"
    have stable: "tasks.stable ?P" using assms stable_seen [of task n] by (auto simp: tasks.stable_def)
    have "tasks.triple c ?P (run_then (run_change (\<lambda>w. w\<lparr>ts_ephemeral := AList.delete i (ts_ephemeral w)\<rparr>)) (\<lambda>_. run_return (Some task))) ?Q"
      by (rule tasks.triple_then [OF triple_quiet [OF quiet_changes(4) stable]])
        (auto intro!: tasks.triple_return dest: seen_known simp: some_known_def)
    moreover have "tasks.triple c ?P (run_check (\<lambda>w. Inr (case map_of (ts_ephemeral w) i of Some x \<Rightarrow> Some x | None \<Rightarrow> Some task))) ?Q"
      by (rule tasks.triple_check) (auto simp: some_known_def dest: ephemeral seen_known split: option.splits)
    ultimately show ?thesis unfolding Some entry by simp
  qed
  have running: "tasks.triple c P (run_check assertRunning) (\<lambda>_. P)" by (rule tasks.triple_check)
  show ?thesis unfolding task_status_def
    by (rule tasks.triple_then [OF running], rule tasks.triple_then [OF triple_load [OF assms]], rule loaded)
qed

lemma triple_status_or: "tasks.triple c (known task) (status_or c task) (\<lambda>x w. known x w \<and> tr_taskId x = tr_taskId task)"
  unfolding status_or_def
  by (rule tasks.triple_then [OF triple_status [OF stable_known]])
    (auto intro!: tasks.triple_return simp: some_known_def split: option.splits)

section \<open>Settling\<close>

lemma triple_do: "tasks.triple c P m R \<Longrightarrow> (\<And>x. tasks.triple c (R x) (f x) Q) \<Longrightarrow> tasks.triple c P (run_then m f) Q"
  by (rule tasks.triple_then)

lemma triple_give: "tasks.triple c P (run_return x) (\<lambda>_. P)"
  by (rule tasks.triple_return)

lemma triple_read: "tasks.triple c P run_world (\<lambda>_. P)"
  by (rule tasks.triple_weaken [OF tasks.triple_world]) auto

lemma triple_guard: "tasks.triple c P (run_check f) (\<lambda>_. P)"
  by (rule tasks.triple_check)

lemma triple_outcome: "tasks.triple c P (run_result r) (\<lambda>_. P)"
  by (rule tasks.triple_result)

lemma triple_wait:
  assumes "tasks.stable P"
  shows "tasks.triple c P (wait_task c n i) (\<lambda>x w. P w \<and> some_known x w)"
proof -
  let ?Q = "\<lambda>x w. P w \<and> some_known x w"
  have second: "tasks.triple c P
      (run_then (task_status c i) (\<lambda>after.
         case after of
           Some r \<Rightarrow> if tr_state r = TaskTerminal then run_change (notify_task r) else run_return ()
         | None \<Rightarrow> run_return ())) (\<lambda>_. P)"
    by (rule triple_do [OF triple_status [OF assms]])
      (auto intro: tasks.triple_weaken [OF triple_give] tasks.triple_weaken [OF triple_quiet [OF quiet_changes(1) assms]]
        split: option.split)
  have waits: "tasks.triple c P
      (run_then run_world (\<lambda>w.
       run_then
         (if ts_closed w then run_change (reject_waiter n service_stopped)
          else run_catch
            (run_then (task_status c i) (\<lambda>after.
               case after of
                 Some r \<Rightarrow> if tr_state r = TaskTerminal then run_change (notify_task r) else run_return ()
               | None \<Rightarrow> run_return ()))
            (\<lambda>e. run_change (reject_waiter n e)))
         (\<lambda>_. run_return None))) ?Q"
    by (rule triple_do [OF triple_read], rule triple_do [where R = "\<lambda>_. P"])
      (auto intro!: tasks.triple_catch second triple_quiet quiet_changes assms tasks.triple_return simp: some_known_def)
  have current: "tasks.triple c (\<lambda>w. P w \<and> some_known current w \<and> (\<forall>r. current = Some r \<longrightarrow> tr_taskId r = i))
      (case current of
         None \<Rightarrow> run_result (Inl task_missing)
       | Some task \<Rightarrow>
           if tr_state task = TaskTerminal then run_return (Some task)
           else
             run_then (run_change (\<lambda>w. w\<lparr>ts_waiters := ts_waiters w @ [(i, n)]\<rparr>)) (\<lambda>_.
             run_then run_world (\<lambda>w.
             run_then
               (if ts_closed w then run_change (reject_waiter n service_stopped)
                else run_catch
                  (run_then (task_status c i) (\<lambda>after.
                     case after of
                       Some r \<Rightarrow> if tr_state r = TaskTerminal then run_change (notify_task r) else run_return ()
                     | None \<Rightarrow> run_return ()))
                  (\<lambda>e. run_change (reject_waiter n e)))
               (\<lambda>_. run_return None)))) ?Q" for current
  proof (cases current)
    case (Some task)
    have "tasks.triple c P (run_then (run_change (\<lambda>w. w\<lparr>ts_waiters := ts_waiters w @ [(i, n)]\<rparr>)) (\<lambda>_. X)) ?Q"
      if "tasks.triple c P X ?Q" for X
      by (rule triple_do [OF triple_quiet [OF quiet_changes(5) assms]], rule that)
    from this [OF waits] show ?thesis unfolding Some
      by (auto intro!: tasks.triple_return intro: tasks.triple_weaken)
  qed (simp add: tasks.triple_throw)
  show ?thesis unfolding wait_task_def
    by (rule triple_do [OF triple_guard], rule triple_do [OF triple_status [OF assms]], rule current)
qed

lemma indeterminate_same: "same_task task (indeterminate_record now e task)"
  "tr_state (indeterminate_record now e task) = TaskTerminal"
  by (simp_all add: indeterminate_record_def same_task_def)

lemma settle_ephemeral_kept: "store_kept (settle_ephemeral x)"
  by (simp add: store_kept_def settle_ephemeral_def notify_task_def)

lemma settle_ephemeral_remembers: "remembers v w \<Longrightarrow> known x v \<Longrightarrow> remembers v (settle_ephemeral x w)"
  by (auto simp: remembers_def settle_ephemeral_def notify_task_def update_conv' split: if_splits)

lemma triple_settle: "tasks.triple c (known task) (settle_uncertain c task e authority allow) (\<lambda>_. known task)"
proof -
  have rest: "tasks.triple c (known task)
      (run_then (run_result (parseTaskRecord c (indeterminate_record (tw_now w) e task))) (\<lambda>indeterminate.
         run_catch
           (run_then (transition_task c (tr_taskId task) authority (\<lambda>_ _. indeterminate)) (\<lambda>persisted.
            run_change (notify_task persisted)))
           (\<lambda>err. run_then run_world (\<lambda>w.
              if assertAuthority authority w \<noteq> Inr () \<or> err = revision_conflict \<or> err = fence_rejected \<or> err = not_leader \<or> \<not> allow
              then run_return () else run_change (settle_ephemeral indeterminate))))) (\<lambda>_. known task)" for w
  proof (rule triple_do)
    let ?P = "\<lambda>x v. known task v \<and> same_task task x \<and> tr_state x = TaskTerminal"
    show "tasks.triple c (known task) (run_result (parseTaskRecord c (indeterminate_record (tw_now w) e task))) ?P"
      by (rule tasks.triple_result) (auto dest!: parseTaskRecord_value simp: indeterminate_same)
    fix x
    have stable: "tasks.stable (?P x)" using stable_known [of task] by (auto simp: tasks.stable_def)
    have advances: "same_task task x \<Longrightarrow> tr_state x = TaskTerminal \<Longrightarrow> advances_task task (\<lambda>_ _. x)"
      by (auto simp: advances_task_def task_advanced_def intro: same_task_trans dest: same_task_sym)
    have transition: "tasks.triple c (?P x) (transition_task c (tr_taskId task) authority (\<lambda>_ _. x)) (\<lambda>_. known task)"
    proof (cases "same_task task x \<and> tr_state x = TaskTerminal")
      case True
      then have "tasks.triple c (known task) (transition_task c (tr_taskId task) authority (\<lambda>_ _. x))
          (\<lambda>y w. known y w \<and> tr_taskId y = tr_taskId task)" by (intro triple_transition advances) auto
      from tasks.triple_frame [OF this stable_known [of task]] True
      show ?thesis by (auto elim!: tasks.triple_weaken)
    qed (auto simp: tasks.triple_def)
    have settles: "tasks.triple c (?P x) (run_change (settle_ephemeral x)) (\<lambda>_. ?P x)"
      by (rule triple_kept [OF settle_ephemeral_kept stable]) (auto intro: settle_ephemeral_remembers known_same)
    show "tasks.triple c (?P x)
        (run_catch (run_then (transition_task c (tr_taskId task) authority (\<lambda>_ _. x)) (\<lambda>persisted. run_change (notify_task persisted)))
           (\<lambda>err. run_then run_world (\<lambda>w.
              if assertAuthority authority w \<noteq> Inr () \<or> err = revision_conflict \<or> err = fence_rejected \<or> err = not_leader \<or> \<not> allow
              then run_return () else run_change (settle_ephemeral x)))) (\<lambda>_. known task)"
    proof (rule tasks.triple_catch [OF _ stable])
      show "tasks.triple c (?P x)
          (run_then (transition_task c (tr_taskId task) authority (\<lambda>_ _. x)) (\<lambda>persisted. run_change (notify_task persisted)))
          (\<lambda>_. known task)"
        by (rule triple_do [OF transition], rule triple_quiet [OF quiet_changes(1) stable_known])
      show "tasks.triple c (?P x) (run_then run_world (\<lambda>w.
          if assertAuthority authority w \<noteq> Inr () \<or> err = revision_conflict \<or> err = fence_rejected \<or> err = not_leader \<or> \<not> allow
          then run_return () else run_change (settle_ephemeral x))) (\<lambda>_. known task)" for err
        by (rule triple_do [OF triple_read])
          (auto intro: tasks.triple_weaken [OF triple_give] tasks.triple_weaken [OF settles])
    qed
  qed
  show ?thesis unfolding settle_uncertain_def
    by (rule triple_do [OF triple_read], rule tasks.triple_if, rule triple_give, rule rest)
qed

lemma current_advances:
  "advances_task task (running_record authority)" "advances_task task (cancelled_record authority)"
  "advances_task task (rejected_record authority task' code retryable)"
  "advances_task task (\<lambda>now current. current\<lparr>tr_authority := a, tr_diagnostic := d now, tr_updatedAt := now\<rparr>)"
  "advances_task task (\<lambda>now current. current\<lparr>tr_state := TaskTerminal, tr_authority := a, tr_result := x, tr_updatedAt := now\<rparr>)"
  by (auto simp: advances_task_def task_advanced_def same_task_def running_record_def cancelled_record_def rejected_record_def)

lemma triple_current:
  assumes "advances_task task update"
  shows "tasks.triple c (known task) (transition_task c (tr_taskId task) authority update)
    (\<lambda>x w. known task w \<and> known x w \<and> tr_taskId x = tr_taskId task)"
  using tasks.triple_frame [OF triple_transition [OF assms] stable_known [of task]]
  by (rule tasks.triple_weaken) auto

lemma triple_mark: "tasks.triple c (known task) (mark_record c task authority code) (\<lambda>_. known task)"
  unfolding mark_record_def
  by (rule triple_do [OF triple_current [OF current_advances(4)]]) (auto intro: tasks.triple_weaken [OF triple_give])

lemma triple_complete: "tasks.triple c (known task) (complete_task c task input authority registration) (\<lambda>_. known task)"
proof -
  have transition: "tasks.triple c (known task)
     (run_then (transition_task c (tr_taskId task) authority
        (\<lambda>now current. current\<lparr>tr_state := TaskTerminal, tr_authority := Some authority, tr_result := Some x, tr_updatedAt := now\<rparr>))
      (\<lambda>terminal. run_change (notify_task terminal))) (\<lambda>_. known task)" for x
    by (rule triple_do [OF triple_current [OF current_advances(5)]], rule tasks.triple_weaken)
      (rule triple_quiet [OF quiet_changes(1) stable_known [of task]], auto)
  have "tasks.triple c (known task)
     (run_then (run_result input) (\<lambda>x.
        if xr_taskId x \<noteq> tr_taskId task \<or> xr_attemptId x \<noteq> tr_attemptId task \<or> \<not> output_fits x
        then run_result (Inl result_invalid)
        else run_then (transition_task c (tr_taskId task) authority
               (\<lambda>now current. current\<lparr>tr_state := TaskTerminal, tr_authority := Some authority, tr_result := Some x, tr_updatedAt := now\<rparr>))
             (\<lambda>terminal. run_change (notify_task terminal)))) (\<lambda>_. known task)"
    by (rule triple_do [OF triple_outcome], rule tasks.triple_if, rule tasks.triple_throw, rule transition)
  then show ?thesis unfolding complete_task_def
    by (intro triple_finally_quiet tasks.triple_catch quiet_changes stable_known triple_settle)
qed

section \<open>Executors\<close>

abbreviation aimed :: "task_record \<Rightarrow> executor_ref \<Rightarrow> task_world \<Rightarrow> bool" where
  "aimed task f w \<equiv> known task w \<and> targets_task w (tr_taskId task) f"

lemma stable_aimed: "tasks.stable (aimed task f)"
  by (intro stable)

lemma aimed_attempt: "aimed task f w \<Longrightarrow> attempt_at w (tr_taskId task) (tr_attemptId task) f"
  by (auto simp: known_def targets_task_def attempt_at_def same_task_def)

lemma known_stored:
  assumes "known task w"
  obtains r where "stored w (tr_taskId task) = Some r" and "tr_attemptId r = tr_attemptId task"
    and "tr_target r = tr_target task" and "tr_binding r = tr_binding task"
    and "\<And>t b. execution_request_of task t b = execution_request_of r t b"
  using assms execution_request_same unfolding known_def same_task_def by (metis (no_types, lifting))

lemma known_aimed:
  assumes "known task w" and "tr_target task = Some t"
  shows "targets_task w (tr_taskId task) (target_executor t)"
proof -
  from assms(1) obtain r where "stored w (tr_taskId task) = Some r" "tr_target r = tr_target task" by (rule known_stored)
  then show ?thesis using assms(2) unfolding targets_task_def attempt_at_def by auto
qed

lemma known_submission:
  assumes "known task w" and "tr_target task = Some t" and "tr_binding task = Some b"
  shows "call_ok w (SubmittedTo (target_executor t) (execution_request_of task t b))"
proof -
  from assms(1) obtain r where r: "stored w (tr_taskId task) = Some r" "tr_target r = Some t" "tr_binding r = Some b"
    "execution_request_of task t b = execution_request_of r t b" using assms(2,3) by (metis known_stored)
  moreover have "xq_taskId (execution_request_of task t b) = tr_taskId task" by (simp add: execution_request_of_def Let_def)
  ultimately show ?thesis unfolding call_ok_def by auto
qed

lemma triple_call:
  assumes "tasks.stable P" and "\<And>w. P w \<Longrightarrow> call_ok w x"
  shows "tasks.triple c P (call_executor x answer) (\<lambda>_. P)"
  unfolding call_executor_def
proof (rule triple_do)
  show "tasks.triple c P (run_change (\<lambda>w. w\<lparr>ts_calls := ts_calls w @ [x]\<rparr>)) (\<lambda>_. P)"
    using assms by (intro triple_kept) (auto simp: store_kept_def remembers_def)
  show "tasks.triple c P (run_paused answer) (\<lambda>_. P)" using assms(1) by (rule tasks.triple_paused)
qed

lemma triple_observe:
  "tasks.triple c (aimed task f) (observe_bounded f task answer) (\<lambda>_. aimed task f)"
  unfolding observe_bounded_def
  by (rule triple_call [OF stable_aimed]) (auto simp: call_ok_def intro: aimed_attempt)

lemma triple_select: "tasks.stable P \<Longrightarrow> tasks.triple c P (select_bounded authority outcome) (\<lambda>_. P)"
  unfolding select_bounded_def
  by (rule triple_do [OF tasks.triple_await], assumption)
    (auto intro: triple_do triple_guard triple_give tasks.triple_throw split: select_outcome.split)

lemma triple_resolve: "tasks.triple c (known task) (resolve_executor outcome task authority) (\<lambda>f. aimed task f)"
proof (cases "tr_target task")
  case None
  then show ?thesis by (simp add: resolve_executor_def tasks.triple_throw)
next
  case (Some t)
  have give: "tasks.triple c (known task) (run_return (target_executor t)) (\<lambda>f. aimed task f)"
    by (rule tasks.triple_return) (simp add: known_aimed Some)
  show ?thesis
  proof (cases "tr_binding task")
    case None
    then show ?thesis by (simp add: resolve_executor_def Some tasks.triple_throw)
  next
    case binding: (Some b)
    have check: "tasks.triple c (known task) (run_result (validateSelection x)) (\<lambda>_ w. known task w \<and> sl_executor x = target_executor (sl_target x))" for x
      by (rule tasks.triple_result) (auto simp: validateSelection_def split: if_splits)
    have select: "tasks.triple c (known task)
        (run_then (select_bounded authority outcome) (\<lambda>resolved.
         run_then (run_result (validateSelection resolved)) (\<lambda>_.
           if \<not> sameTarget t (sl_target resolved) then run_result (Inl target_mismatch)
           else if tb_fingerprint (sl_binding resolved) \<noteq> tb_fingerprint b then run_result (Inl target_mismatch)
           else run_return (sl_executor resolved)))) (\<lambda>f. aimed task f)"
      by (rule triple_do [OF triple_select [OF stable_known]], rule triple_do [OF check])
        (auto intro!: tasks.triple_throw tasks.triple_return simp: known_aimed Some)
    have "retained_executor authority (tr_taskId task) t w = Some f \<Longrightarrow> f = target_executor t" for w f
      by (auto simp: retained_executor_def split: option.splits if_splits)
    then have "tasks.triple c (known task)
        (case retained_executor authority (tr_taskId task) t w of Some executor \<Rightarrow> run_return executor | None \<Rightarrow>
          run_then (select_bounded authority outcome) (\<lambda>resolved.
          run_then (run_result (validateSelection resolved)) (\<lambda>_.
            if \<not> sameTarget t (sl_target resolved) then run_result (Inl target_mismatch)
            else if tb_fingerprint (sl_binding resolved) \<noteq> tb_fingerprint b then run_result (Inl target_mismatch)
            else run_return (sl_executor resolved)))) (\<lambda>f. aimed task f)" for w
      using select give by (cases "retained_executor authority (tr_taskId task) t w") (simp_all del: sameTarget_iff)
    then show ?thesis unfolding resolve_executor_def Some binding prod.case option.case
      by (rule triple_do [OF triple_read])
  qed
qed

lemma triple_register:
  assumes "tasks.stable P" and "\<And>w. P w \<Longrightarrow> targets_task w i f"
  shows "tasks.triple c P (register_executor i f authority) (\<lambda>registration w. P w \<and> tg_executor registration = f)"
  unfolding register_executor_def
proof (rule tasks.triple_step)
  fix w x w'
  assume sound: "task_sound c w" and P: "P w"
    and step: "(let registration = \<lparr>tg_number = ts_registrations w, tg_executor = f, tg_authority = authority\<rparr>
       in Inr (registration, w\<lparr>ts_executors := AList.update i registration (ts_executors w),
                               ts_registrations := ts_registrations w + 1\<rparr>)) = (Inr (x, w') :: (task_registration \<times> task_world) result)"
  define g where "g w = w\<lparr>ts_executors := AList.update i x (ts_executors w), ts_registrations := ts_registrations w + 1\<rparr>" for w :: task_world
  have x: "w' = g w" "tg_executor x = f" using step by (auto simp: g_def Let_def)
  have "remembers w w \<Longrightarrow> remembers w (g w)"
    using assms(2) [OF P] x(2) by (auto simp: remembers_def g_def update_conv')
  then have "task_sound c (g w) \<and> task_later w (g w)"
    using sound by (intro kept_sound) (auto simp: store_kept_def g_def)
  with x P assms(1) show "task_sound c w' \<and> task_later w w' \<and> P w' \<and> tg_executor x = f"
    unfolding tasks.stable_def by blast
qed

end
