(* ===== verification/Task_Guarantees.thy ===== *)
theory Task_Guarantees
  imports Task_Contract
begin

text \<open>
  The triples of the operations of the task service: dispatch, recovery, admission, running and cancelling. They
  rest on the triples of \<open>Task_Contract\<close> and say that every operation, whatever runs at its pauses, only
  advances the records of the store and keeps what the service remembers true of it.
\<close>

section \<open>Dispatch\<close>

lemma stable_const: "tasks.stable (\<lambda>_. b)"
  by (simp add: tasks.stable_def)

lemma triple_reject:
  "tasks.triple c (known task) (reject_admission c task code authority retryable) (\<lambda>x w. known x w \<and> tr_taskId x = tr_taskId task)"
proof -
  have stable: "tasks.stable (\<lambda>w. known task w \<and> known x w \<and> tr_taskId x = tr_taskId task)" for x
    using stable_known by (auto simp: tasks.stable_def)
  show ?thesis unfolding reject_admission_def
    by (rule triple_do [OF triple_current [OF current_advances(3)]],
        rule triple_do [OF triple_quiet [OF quiet_changes(1) stable]], rule tasks.triple_return) auto
qed

lemma triple_submission_failed:
  "tg_executor registration = f \<Longrightarrow>
   tasks.triple c (aimed task f) (submission_failed c a task e authority registration) (\<lambda>x w. known x w \<and> tr_taskId x = tr_taskId task)"
proof -
  assume f: "tg_executor registration = f"
  have observe: "tasks.triple c (aimed task f)
      (run_catch (observe_bounded f task (da_observed a)) (\<lambda>_. run_return ObservationTimedOut)) (\<lambda>_. known task)"
    by (rule tasks.triple_weaken [OF tasks.triple_catch [OF triple_observe stable_aimed triple_give]]) auto
  have outcome: "tasks.triple c (known task)
      (case outcome of
          Observed (Some (AttemptTerminal x)) \<Rightarrow> complete_task c task x authority (Some registration)
        | _ \<Rightarrow>
            if xf_type (tg_executor registration) \<noteq> ExRemote then settle_uncertain c task e authority True
            else mark_record c task authority ''EXECUTOR_SUBMISSION_UNKNOWN'') (\<lambda>_. known task)" for outcome
    by (auto intro: triple_complete triple_settle triple_mark split: observation.split option.split attempt_status.split)
  show ?thesis unfolding submission_failed_def f
    by (rule triple_do [OF observe], rule triple_do [OF outcome [unfolded f]], rule triple_status_or)
qed

lemma remembers_completion:
  "known running v \<Longrightarrow> remembers v w \<Longrightarrow> remembers v (w\<lparr>ts_completions := ts_completions w @
     [\<lparr>tp_record = running, tp_authority = authority, tp_registration = registration\<rparr>]\<rparr>)"
  by (auto simp: remembers_def)

lemma triple_submission_accepted:
  "tasks.triple c (known task) (submission_accepted c task authority registration) (\<lambda>x w. known x w \<and> tr_taskId x = tr_taskId task)"
proof -
  let ?Q = "\<lambda>x w. known x w \<and> tr_taskId x = tr_taskId task"
  let ?P = "\<lambda>x w. known task w \<and> known x w \<and> tr_taskId x = tr_taskId task"
  have stable: "tasks.stable (?P x)" for x
    using stable_known by (auto simp: tasks.stable_def)
  have note_completion: "tasks.triple c (?P running)
      (run_change (\<lambda>w. w\<lparr>ts_completions := ts_completions w @
         [\<lparr>tp_record = running, tp_authority = authority, tp_registration = registration\<rparr>]\<rparr>)) (\<lambda>_. ?P running)" for running
    by (rule triple_kept [OF _ stable]) (auto simp: store_kept_def intro: remembers_completion)
  have accepted: "tasks.triple c (known task)
      (run_then (transition_task c (tr_taskId task) authority (running_record authority)) (\<lambda>running.
       run_then (run_change (\<lambda>w. w\<lparr>ts_completions := ts_completions w @
           [\<lparr>tp_record = running, tp_authority = authority, tp_registration = registration\<rparr>]\<rparr>))
         (\<lambda>_. run_return running))) ?Q"
    by (rule triple_do [OF triple_current [OF current_advances(1)]], rule triple_do [OF note_completion],
        rule tasks.triple_return) auto
  have persisted: "tasks.triple c (\<lambda>w. known task w \<and> some_known x w \<and> (\<forall>r. x = Some r \<longrightarrow> tr_taskId r = tr_taskId task))
      (case x of Some r \<Rightarrow> run_return r | None \<Rightarrow> run_result (Inl e)) ?Q" for x e
    by (cases x) (auto intro!: tasks.triple_throw tasks.triple_return simp: some_known_def)
  have ephemeral: "tasks.triple c (\<lambda>w. known task w \<and> v = w)
      (case map_of (ts_ephemeral v) (tr_taskId task) of
         Some uncertain \<Rightarrow> run_return uncertain
       | None \<Rightarrow>
           run_then (task_status c (tr_taskId task)) (\<lambda>persisted.
             case persisted of Some r \<Rightarrow> run_return r | None \<Rightarrow> run_result (Inl e))) ?Q" for v e
  proof (cases "map_of (ts_ephemeral v) (tr_taskId task)")
    case None
    have "tasks.triple c (known task)
      (run_then (task_status c (tr_taskId task)) (\<lambda>persisted.
         case persisted of Some r \<Rightarrow> run_return r | None \<Rightarrow> run_result (Inl e))) ?Q"
      by (rule triple_do [OF triple_status [OF stable_known]], rule persisted)
    then show ?thesis unfolding None by (auto intro: tasks.triple_weaken)
  next
    case (Some uncertain)
    have "?Q uncertain v" if "task_sound c v" using that Some by (auto simp: task_sound_def remembers_def)
    then show ?thesis unfolding Some by (auto simp: tasks.triple_def run_return_def task_later_refl)
  qed
  have failed: "tasks.triple c (known task)
      (run_then (settle_uncertain c task e authority True) (\<lambda>_.
       run_then run_world (\<lambda>w.
         case map_of (ts_ephemeral w) (tr_taskId task) of
           Some uncertain \<Rightarrow> run_return uncertain
         | None \<Rightarrow>
             run_then (task_status c (tr_taskId task)) (\<lambda>persisted.
               case persisted of Some r \<Rightarrow> run_return r | None \<Rightarrow> run_result (Inl e))))) ?Q" for e
    by (rule triple_do [OF triple_settle], rule triple_do [OF tasks.triple_world], rule ephemeral)
  show ?thesis unfolding submission_accepted_def
    by (rule tasks.triple_catch [OF accepted stable_known failed])
qed

lemma triple_dispatch:
  "tasks.triple c (known task) (dispatch_task c a task authority) (\<lambda>x w. known x w \<and> tr_taskId x = tr_taskId task)"
proof (cases "tr_target task")
  case None
  then show ?thesis unfolding dispatch_task_def
    by (auto intro!: triple_do [OF triple_guard] triple_do [OF triple_resolve] tasks.triple_throw)
next
  case target: (Some t)
  show ?thesis
  proof (cases "tr_binding task")
    case None
    then show ?thesis unfolding dispatch_task_def
      by (auto intro!: triple_do [OF triple_guard] triple_do [OF triple_resolve] tasks.triple_throw split: option.split)
  next
    case binding: (Some b)
    let ?Q = "\<lambda>x w. known x w \<and> tr_taskId x = tr_taskId task"
    let ?P = "\<lambda>f registration w. aimed task f w \<and> tg_executor registration = f"
    have stable: "tasks.stable (?P f registration)" for f registration
      by (rule stable_conj [OF stable_aimed stable_const])
    have register: "tasks.triple c (aimed task f) (register_executor (tr_taskId task) f authority) (?P f)" for f
      by (rule triple_register [OF stable_aimed]) simp
    have target_only: "f = target_executor t" if "aimed task f w" for f w
      using that target known_stored [of task w] unfolding targets_task_def attempt_at_def by (metis option.inject)
    have submit: "tasks.triple c (?P f registration)
        (run_catch (run_then (call_executor (SubmittedTo f (execution_request_of task t b)) (da_submitted a))
             (\<lambda>handle. run_return (Inr handle))) (\<lambda>e. run_return (Inl e))) (\<lambda>_. ?P f registration)" for f registration
    proof (rule tasks.triple_catch [OF triple_do [OF triple_call [OF stable] triple_give] stable triple_give])
      fix w
      assume "?P f registration w"
      then have "f = target_executor t" and "known task w" using target_only by blast+
      then show "call_ok w (SubmittedTo f (execution_request_of task t b))"
        using known_submission [OF _ target binding] by simp
    qed
    have submitted: "tasks.triple c (?P f registration)
        (case submitted of
           Inl e \<Rightarrow>
             (case classify_rejection e of
                Some (code, retryable) \<Rightarrow>
                  run_finally (reject_admission c task code authority retryable)
                    (drop_registration (tr_taskId task) (Some registration))
              | None \<Rightarrow> submission_failed c a task e authority registration)
         | Inr (taskId, attemptId) \<Rightarrow>
             if taskId \<noteq> tr_taskId task \<or> attemptId \<noteq> tr_attemptId task
             then run_then (settle_uncertain c task result_invalid authority True) (\<lambda>_. status_or c task)
             else submission_accepted c task authority registration) ?Q" for f registration submitted
    proof -
      have post: "tasks.stable (\<lambda>w. known x w \<and> tr_taskId x = tr_taskId task)" for x
        using stable_known [of x] by (auto simp: tasks.stable_def)
      have rejected: "tasks.triple c (known task) (run_finally (reject_admission c task code authority retryable)
          (drop_registration (tr_taskId task) (Some registration))) ?Q" for code retryable
        by (rule triple_finally_quiet [OF triple_reject quiet_changes(3) post])
      have settled: "tasks.triple c (known task)
          (run_then (settle_uncertain c task result_invalid authority True) (\<lambda>_. status_or c task)) ?Q"
        by (rule triple_do [OF triple_settle triple_status_or])
      have failed: "tasks.triple c (?P f registration) (submission_failed c a task e authority registration) ?Q" for e
      proof (cases "tg_executor registration = f")
        case True
        from triple_submission_failed [OF this, of c task a e authority] show ?thesis by (rule tasks.triple_weaken) auto
      qed (auto simp: tasks.triple_def)
      show ?thesis
        using failed tasks.triple_weaken [OF rejected, where P' = "?P f registration"]
          tasks.triple_weaken [OF settled, where P' = "?P f registration"]
          tasks.triple_weaken [OF triple_submission_accepted [of c task authority registration], where P' = "?P f registration"]
        by (auto split: sum.split option.split)
    qed
    show ?thesis unfolding dispatch_task_def target binding prod.case option.case
      by (rule triple_do [OF triple_guard], rule triple_do [OF triple_resolve], rule triple_do [OF triple_guard],
          rule triple_do [OF register], rule triple_do [OF submit], rule submitted)
  qed
qed

lemma triple_forget: "tasks.triple c P m Q \<Longrightarrow> (\<And>x w. Q x w \<Longrightarrow> P' w) \<Longrightarrow> tasks.triple c P m (\<lambda>_. P')"
  by (erule tasks.triple_weaken) auto

lemma triple_dispatch_keeps: "tasks.triple c (known task) (dispatch_task c a task authority) (\<lambda>_. known task)"
  using tasks.triple_frame [OF triple_dispatch stable_known [of task]] by (rule tasks.triple_weaken) auto

lemma triple_ensure: "tasks.triple c (known task) (ensure_dispatch c a joined task authority) (\<lambda>_. known task)"
proof -
  have go: "tasks.triple c (known task)
      (run_then (run_change (\<lambda>w. w\<lparr>ts_dispatches := tr_taskId task # ts_dispatches w\<rparr>)) (\<lambda>_.
         run_finally (dispatch_task c a task authority)
           (\<lambda>w. w\<lparr>ts_dispatches := filter (\<lambda>t. t \<noteq> tr_taskId task) (ts_dispatches w)\<rparr>))) (\<lambda>_. known task)"
    by (rule triple_do [OF triple_quiet [OF quiet_changes(6) stable_known]],
        rule triple_finally_quiet [OF triple_dispatch_keeps quiet_changes(7) stable_known])
  show ?thesis unfolding ensure_dispatch_def
    by (rule triple_do [OF triple_read], rule tasks.triple_if, rule tasks.triple_paused [OF stable_known], rule go)
qed

section \<open>Recovery\<close>

lemma remembers_remote:
  "known task v \<Longrightarrow> remembers v w \<Longrightarrow> remembers v (w\<lparr>ts_remoteCompletions := AList.update i
     \<lparr>tp_record = task, tp_authority = authority, tp_registration = registration\<rparr> (ts_remoteCompletions w)\<rparr>)"
  by (auto simp: remembers_def update_conv' split: if_splits)

lemma triple_resume:
  "tasks.triple c (aimed task f) (resume_remote c a task f authority registration) (\<lambda>_. known task)"
proof -
  have known: "tasks.triple c P m (\<lambda>_. P) \<Longrightarrow> (\<And>w. P w \<Longrightarrow> known task w) \<Longrightarrow> tasks.triple c P m (\<lambda>_. known task)" for P and m :: "unit task_run"
    by (rule triple_forget)
  have "tasks.triple c (aimed task f) (run_change (\<lambda>w. w\<lparr>ts_remoteCompletions := AList.update (tr_taskId task)
      \<lparr>tp_record = task, tp_authority = authority, tp_registration = registration\<rparr> (ts_remoteCompletions w)\<rparr>)) (\<lambda>_. aimed task f)"
    by (rule triple_kept [OF _ stable_aimed]) (auto simp: store_kept_def intro: remembers_remote)
  then have resumed: "tasks.triple c (aimed task f)
      (case handle of
         None \<Rightarrow> run_return ()
       | Some (taskId, attemptId) \<Rightarrow>
           if taskId \<noteq> tr_taskId task \<or> attemptId \<noteq> tr_attemptId task
           then settle_uncertain c task result_invalid authority True
           else run_change (\<lambda>w. w\<lparr>ts_remoteCompletions := AList.update (tr_taskId task)
                  \<lparr>tp_record = task, tp_authority = authority, tp_registration = registration\<rparr> (ts_remoteCompletions w)\<rparr>))
      (\<lambda>_. known task)" for handle
    using triple_forget [OF triple_give, where P' = "known task" and P = "aimed task f" and c = c]
      tasks.triple_weaken [OF triple_settle [of c task result_invalid authority True], where P' = "aimed task f" and Q' = "\<lambda>_. known task"]
      known by (auto split: option.split)
  have call: "tasks.triple c (aimed task f) (call_executor (ResumedAt f (tr_taskId task) (tr_attemptId task)) answer) (\<lambda>_. aimed task f)"
    for answer :: "(jstring \<times> jstring) option result"
    by (rule triple_call [OF stable_aimed]) (auto simp: call_ok_def intro: aimed_attempt)
  have asked: "tasks.triple c (aimed task f)
      (run_then (call_executor (ResumedAt f (tr_taskId task) (tr_attemptId task)) answer) (\<lambda>handle.
         case handle of
           None \<Rightarrow> run_return ()
         | Some (taskId, attemptId) \<Rightarrow>
             if taskId \<noteq> tr_taskId task \<or> attemptId \<noteq> tr_attemptId task
             then settle_uncertain c task result_invalid authority True
             else run_change (\<lambda>w. w\<lparr>ts_remoteCompletions := AList.update (tr_taskId task)
                    \<lparr>tp_record = task, tp_authority = authority, tp_registration = registration\<rparr> (ts_remoteCompletions w)\<rparr>)))
      (\<lambda>_. known task)" for answer
    by (rule triple_do [OF call resumed])
  have "tasks.triple c (aimed task f) (case (m, r) of (None, Some answer) \<Rightarrow> X answer | _ \<Rightarrow> run_return ()) (\<lambda>_. known task)"
    if "\<And>answer. tasks.triple c (aimed task f) (X answer) (\<lambda>_. known task)"
    for m :: "task_completion option" and r :: "(jstring \<times> jstring) option result option" and X
    using that by (cases m; cases r) (auto intro: triple_forget [OF triple_give])
  from this [OF asked] show ?thesis unfolding resume_remote_def by (rule triple_do [OF triple_read])
qed

lemma triple_recovered_executor:
  "tasks.triple c (known task) (recovered_executor c a task authority)
     (\<lambda>x w. known task w \<and> (\<forall>f. x = Some f \<longrightarrow> targets_task w (tr_taskId task) f))"
proof -
  have failed: "tasks.triple c (known task)
      (run_then
         (if e = target_mismatch then settle_uncertain c task e authority True
          else if e = target_unavailable \<and> is_remote task
          then mark_record c task authority ''EXECUTOR_TARGET_UNAVAILABLE''
          else if is_remote task then mark_record c task authority ''EXECUTOR_OBSERVATION_UNKNOWN''
          else settle_uncertain c task e authority True)
         (\<lambda>_. run_return None))
      (\<lambda>x w. known task w \<and> (\<forall>f. x = Some f \<longrightarrow> targets_task w (tr_taskId task) f))" for e
    by (rule triple_do [where R = "\<lambda>_. known task"])
      (auto intro: triple_settle triple_mark intro!: tasks.triple_return)
  show ?thesis unfolding recovered_executor_def
    by (rule tasks.triple_catch [OF triple_do [OF triple_resolve] stable_known failed], rule tasks.triple_return) auto
qed

lemma triple_recovered_observation:
  "tasks.triple c (aimed task f) (recovered_observation c a task f authority) (\<lambda>_. known task)"
proof -
  have timeout: "tasks.triple c (aimed task f)
      (run_then (mark_record c task authority ''EXECUTOR_OBSERVATION_UNKNOWN'') (\<lambda>_. run_return None)) (\<lambda>_. known task)"
    by (rule triple_do [OF tasks.triple_weaken [OF triple_mark] triple_give]) auto
  have observed: "tasks.triple c (aimed task f)
      (run_then (observe_bounded f task (ra_observed a)) (\<lambda>outcome.
          case outcome of
            ObservationTimedOut \<Rightarrow>
              run_then (mark_record c task authority ''EXECUTOR_OBSERVATION_UNKNOWN'') (\<lambda>_. run_return None)
          | Observed status \<Rightarrow> run_return (Some status))) (\<lambda>_. known task)"
    by (rule triple_do [OF triple_observe])
      (auto intro: timeout triple_forget [OF triple_give] split: observation.split)
  have failed: "tasks.triple c (aimed task f)
      (if is_remote task then run_return None
       else run_then (settle_uncertain c task e authority True) (\<lambda>_. run_return None)) (\<lambda>_. known task)" for e
    by (rule tasks.triple_if, rule triple_forget [OF triple_give], simp,
        rule triple_do [OF tasks.triple_weaken [OF triple_settle] triple_give]) auto
  show ?thesis unfolding recovered_observation_def by (rule tasks.triple_catch [OF observed stable_aimed failed])
qed

lemma triple_apply_observation:
  "tasks.triple c (aimed task f) (apply_observation c a task observed f authority registration) (\<lambda>_. known task)"
proof -
  have to_known: "tasks.triple c (aimed task f) m (\<lambda>_. known task)" if "tasks.triple c (known task) m (\<lambda>_. known task)" for m :: "unit task_run"
    using that by (rule tasks.triple_weaken) auto
  have "tasks.triple c (known task) (if b then run_then (transition_task c (tr_taskId task) authority (running_record authority)) (\<lambda>_. run_return ())
     else run_return ()) (\<lambda>_. known task)" for b
    by (rule tasks.triple_if, rule triple_do [OF triple_current [OF current_advances(1)]], rule triple_forget [OF triple_give], auto intro: triple_give)
  from tasks.triple_frame [OF this stable_aimed [of task f]]
  have move: "tasks.triple c (aimed task f) (if b then run_then (transition_task c (tr_taskId task) authority (running_record authority)) (\<lambda>_. run_return ())
     else run_return ()) (\<lambda>_. aimed task f)" for b
    by (rule tasks.triple_weaken) auto
  have live: "tasks.triple c (aimed task f)
      (run_then
        (if b then run_then (transition_task c (tr_taskId task) authority (running_record authority)) (\<lambda>_. run_return ())
         else run_return ())
        (\<lambda>_. if is_remote task then resume_remote c a task f authority registration else run_return ())) (\<lambda>_. known task)" for b
    by (rule triple_do [OF move], rule tasks.triple_if, rule triple_resume, rule triple_forget [OF triple_give]) auto
  have again: "tasks.triple c (known task) (run_then (ensure_dispatch c (ra_dispatch a) (ra_joined a) task authority) (\<lambda>_. run_return ())) (\<lambda>_. known task)"
    by (rule triple_do [OF triple_ensure triple_give])
  show ?thesis
  proof (cases observed)
    case None
    then show ?thesis unfolding apply_observation_def
      by (auto intro: to_known triple_mark triple_settle again)
  next
    case (Some status)
    then show ?thesis
      using live [of False] live [of "tr_state task = TaskAccepted"] to_known [OF triple_complete]
      by (cases status) (simp_all add: apply_observation_def)
  qed
qed

lemma triple_recover_record: "tasks.triple c (known task) (recover_record c a task authority) (\<lambda>_. known task)"
proof -
  let ?T = "\<lambda>f registration w. aimed task f w \<and> tg_executor registration = f"
  have register: "tasks.triple c (aimed task f) (register_executor (tr_taskId task) f authority) (\<lambda>_. aimed task f)" for f
    by (rule triple_forget [OF triple_register [OF stable_aimed]]) auto
  have call: "tasks.triple c (aimed task f) (call_executor (CancelledAt f (tr_taskId task) (tr_attemptId task)) (ra_cancelled a)) (\<lambda>_. aimed task f)" for f
    by (rule triple_call [OF stable_aimed]) (auto simp: call_ok_def intro: aimed_attempt)
  have cancel: "tasks.triple c (aimed task f)
      (if tr_cancellation task = None then run_return ()
       else run_then (call_executor (CancelledAt f (tr_taskId task) (tr_attemptId task)) (ra_cancelled a))
              (\<lambda>_. run_check (assertAuthority authority))) (\<lambda>_. aimed task f)" for f
    by (rule tasks.triple_if, rule triple_give, rule triple_do [OF call triple_guard])
  have frame: "tasks.triple c (aimed task f) (recovered_observation c a task f authority) (\<lambda>_. aimed task f)" for f
    using tasks.triple_frame [OF triple_recovered_observation stable_aimed [of task f]] by (rule tasks.triple_weaken) auto
  have observed: "tasks.triple c (aimed task f)
      (case outcome of
         None \<Rightarrow> run_return ()
       | Some observed \<Rightarrow>
           run_then (run_check (assertAuthority authority)) (\<lambda>_.
             apply_observation c a task observed f authority registration)) (\<lambda>_. known task)" for outcome f registration
    by (cases outcome) (auto intro: triple_forget [OF triple_give] triple_do [OF triple_guard triple_apply_observation])
  have resolved: "tasks.triple c (\<lambda>w. known task w \<and> (\<forall>f. x = Some f \<longrightarrow> targets_task w (tr_taskId task) f))
      (case x of
         None \<Rightarrow> run_return ()
       | Some executor \<Rightarrow>
           run_then (run_check (assertAuthority authority)) (\<lambda>_.
           run_then (register_executor (tr_taskId task) executor authority) (\<lambda>registration.
           run_then
             (if tr_cancellation task = None then run_return ()
              else run_then (call_executor (CancelledAt executor (tr_taskId task) (tr_attemptId task)) (ra_cancelled a))
                     (\<lambda>_. run_check (assertAuthority authority))) (\<lambda>_.
           run_then (recovered_observation c a task executor authority) (\<lambda>outcome.
             case outcome of
               None \<Rightarrow> run_return ()
             | Some observed \<Rightarrow>
                 run_then (run_check (assertAuthority authority)) (\<lambda>_.
                   apply_observation c a task observed executor authority registration)))))) (\<lambda>_. known task)" for x
  proof (cases x)
    case None
    then show ?thesis by (auto intro: triple_forget [OF triple_give])
  next
    case (Some f)
    have "tasks.triple c (aimed task f)
        (run_then (run_check (assertAuthority authority)) (\<lambda>_.
         run_then (register_executor (tr_taskId task) f authority) (\<lambda>registration.
         run_then
           (if tr_cancellation task = None then run_return ()
            else run_then (call_executor (CancelledAt f (tr_taskId task) (tr_attemptId task)) (ra_cancelled a))
                   (\<lambda>_. run_check (assertAuthority authority))) (\<lambda>_.
         run_then (recovered_observation c a task f authority) (\<lambda>outcome.
           case outcome of
             None \<Rightarrow> run_return ()
           | Some observed \<Rightarrow>
               run_then (run_check (assertAuthority authority)) (\<lambda>_.
                 apply_observation c a task observed f authority registration)))))) (\<lambda>_. known task)"
      by (rule triple_do [OF triple_guard], rule triple_do [OF register], rule triple_do [OF cancel],
          rule triple_do [OF frame], rule observed)
    then show ?thesis unfolding Some option.case by (rule tasks.triple_weaken) auto
  qed
  have rest: "tasks.triple c (known task)
      (run_then (recovered_executor c a task authority) (\<lambda>resolved.
          case resolved of
            None \<Rightarrow> run_return ()
          | Some executor \<Rightarrow>
              run_then (run_check (assertAuthority authority)) (\<lambda>_.
              run_then (register_executor (tr_taskId task) executor authority) (\<lambda>registration.
              run_then
                (if tr_cancellation task = None then run_return ()
                 else run_then (call_executor (CancelledAt executor (tr_taskId task) (tr_attemptId task)) (ra_cancelled a))
                        (\<lambda>_. run_check (assertAuthority authority))) (\<lambda>_.
              run_then (recovered_observation c a task executor authority) (\<lambda>outcome.
                case outcome of
                  None \<Rightarrow> run_return ()
                | Some observed \<Rightarrow>
                    run_then (run_check (assertAuthority authority)) (\<lambda>_.
                      apply_observation c a task observed executor authority registration))))))) (\<lambda>_. known task)"
    by (rule triple_do [OF triple_recovered_executor], rule resolved)
  show ?thesis unfolding recover_record_def
    by (rule tasks.triple_if, rule triple_settle, rule tasks.triple_if, rule triple_settle, rule rest)
qed

definition all_known :: "task_record list \<Rightarrow> task_world \<Rightarrow> bool" where
  "all_known pending w \<longleftrightarrow> (\<forall>r \<in> set pending. known r w)"

lemma stable_all_known: "tasks.stable (all_known pending)"
  using known_later by (auto simp: tasks.stable_def all_known_def)

lemma triple_recover_pending: "tasks.triple c (all_known pending) (recover_pending c answers pending authority) (\<lambda>_ _. True)"
proof (induction pending)
  case Nil
  then show ?case by (simp add: tasks.triple_return)
next
  case (Cons task pending)
  have failed: "tasks.triple c (known task)
      (if is_remote task then run_return () else settle_uncertain c task e authority True) (\<lambda>_. known task)" for e
    by (rule tasks.triple_if, rule triple_give, rule triple_settle)
  have one: "tasks.triple c (known task)
      (run_catch
         (run_then
           (run_catch (recover_record c (answers (tr_taskId task)) task authority)
             (\<lambda>e. if is_remote task then run_return () else settle_uncertain c task e authority True))
           (\<lambda>_. run_return (Inr ())))
         (\<lambda>e. run_return (Inl e))) (\<lambda>_. known task)"
    by (rule tasks.triple_catch [OF triple_do [OF tasks.triple_catch [OF triple_recover_record stable_known failed] triple_give] stable_known triple_give])
  have "tasks.triple c (all_known (task # pending))
      (run_catch
         (run_then
           (run_catch (recover_record c (answers (tr_taskId task)) task authority)
             (\<lambda>e. if is_remote task then run_return () else settle_uncertain c task e authority True))
           (\<lambda>_. run_return (Inr ())))
         (\<lambda>e. run_return (Inl e))) (\<lambda>_. all_known pending)"
    using tasks.triple_frame [OF one stable_all_known [of pending]] by (rule tasks.triple_weaken) (auto simp: all_known_def)
  then show ?case unfolding recover_pending.simps
    by (rule triple_do, intro triple_do [OF Cons.IH] triple_outcome)
qed

lemma triple_recover: "tasks.triple c (\<lambda>_. True) (recover c) (\<lambda>_ _. True)"
proof -
  have cached: "tasks.triple c (\<lambda>w. \<forall>(k, r, n) \<in> set entries. known r w) (recover_records c entries) (\<lambda>_ _. True)" for entries
  proof (induction entries)
    case Nil
    then show ?case by (simp add: tasks.triple_return)
  next
    case (Cons entry entries)
    obtain k r n where entry: "entry = (k, r, n)" by (metis prod_cases3)
    let ?P = "\<lambda>w. known r w \<and> (\<forall>(k, r, n) \<in> set entries. known r w)"
    have stable: "tasks.stable ?P" using known_later by (fastforce simp: tasks.stable_def)
    have parse: "tasks.triple c ?P (run_result (parseTaskRecord c r)) (\<lambda>x w. x = r \<and> ?P w)"
      by (rule tasks.triple_result) (auto dest: parseTaskRecord_value)
    have cache: "tasks.triple c (\<lambda>w. x = r \<and> ?P w) (run_change (cache_record (tr_taskId x) (x, n))) (\<lambda>_. ?P)" for x
    proof (cases "x = r")
      case True
      have "tasks.triple c ?P (run_change (cache_record (tr_taskId x) (x, n))) (\<lambda>_. ?P)"
        by (rule triple_kept [OF _ stable]) (auto simp: store_kept_def cache_record_def True intro: remembers_cache [unfolded cache_record_def])
      then show ?thesis using True by simp
    qed (auto simp: tasks.triple_def)
    have rest: "tasks.triple c ?P (run_then run_await (\<lambda>_. recover_records c entries)) (\<lambda>_ _. True)"
      by (rule triple_do [OF tasks.triple_await [OF stable]], rule tasks.triple_weaken [OF Cons.IH]) auto
    have "tasks.triple c ?P (recover_records c (entry # entries)) (\<lambda>_ _. True)"
      unfolding entry recover_records.simps by (rule triple_do [OF parse], rule triple_do [OF cache rest])
    then show ?case unfolding entry by simp
  qed
  have stable: "tasks.stable (\<lambda>w. \<forall>(k, r, n) \<in> set entries. known r w)" for entries :: "(jstring \<times> task_record \<times> nat) list"
    using known_later by (fastforce simp: tasks.stable_def)
  have all: "known r w" if sound: "task_sound c w" and entry: "(k, r, n) \<in> set (tw_tasks w)" for k r n w
  proof -
    have "map_of (tw_tasks w) k = Some (r, n)"
      using sound entry by (simp add: task_sound_def store_sound_def)
    from entry_seen [OF sound this] show ?thesis by (auto intro: seen_known)
  qed
  have scan: "tasks.triple c (\<lambda>_. True) (run_check (\<lambda>w. and_then (store_reachable w) (\<lambda>_. Inr (tw_tasks w))))
      (\<lambda>entries w. \<forall>(k, r, n) \<in> set entries. known r w)"
    by (rule tasks.triple_check) (auto dest: all)
  show ?thesis unfolding recover_def
    by (rule triple_do [OF triple_guard], rule triple_do [OF triple_quiet [OF quiet_changes(12) stable_True]],
        rule triple_do [OF tasks.triple_await [OF stable_True]], rule triple_do [OF scan],
        rule triple_do [OF tasks.triple_await [OF stable] cached])
qed

lemma pending_known: "task_sound c w \<Longrightarrow> all_known (pending_records select w) w"
  by (auto simp: task_sound_def remembers_def all_known_def pending_records_def)

lemma triple_setAuthority: "tasks.triple c (\<lambda>_. True) (setAuthority c answers authority) (\<lambda>_ _. True)"
proof -
  have pending: "tasks.triple c (\<lambda>_. True)
      (run_check (\<lambda>w. and_then (assertAuthority a w) (\<lambda>_. Inr (pending_records (\<lambda>_. True) w)))) all_known" for a
    by (rule tasks.triple_check) (auto dest: pending_known)
  have "tasks.triple c (\<lambda>_. True)
      (case authority of
         None \<Rightarrow> run_return ()
       | Some a \<Rightarrow>
           run_then (recover c) (\<lambda>_.
           run_then (run_check (\<lambda>w. and_then (assertAuthority a w) (\<lambda>_. Inr (pending_records (\<lambda>_. True) w)))) (\<lambda>pending.
             recover_pending c answers pending a))) (\<lambda>_ _. True)"
    by (cases authority)
      (auto intro: triple_give triple_do [OF triple_recover] triple_do [OF pending triple_recover_pending])
  then show ?thesis unfolding setAuthority_def
    by (rule triple_do [OF triple_guard triple_do [OF triple_quiet [OF quiet_changes(11) stable_True]]])
qed

lemma triple_recoverRemoteWorker: "tasks.triple c (\<lambda>_. True) (recoverRemoteWorker c answers workerId) (\<lambda>_ _. True)"
proof -
  have pending: "tasks.triple c (\<lambda>_. True) (run_check (\<lambda>w. Inr (pending_records select w))) all_known" for select
    by (rule tasks.triple_check) (auto dest: pending_known)
  show ?thesis unfolding recoverRemoteWorker_def
    by (rule triple_do [OF triple_guard], rule triple_do [OF triple_guard], rule triple_do [OF pending triple_recover_pending])
qed

section \<open>Admission\<close>

lemma put_candidate_store:
  "map_of (tw_tasks (put_candidate x w)) = (map_of (tw_tasks w))(tr_taskId x \<mapsto> (x, tw_revision w + 1))"
  "stored (put_candidate x w) = (stored w)(tr_taskId x \<mapsto> x)"
  "tw_revision (put_candidate x w) = tw_revision w + 1"
  "map_of (tw_operations (put_candidate x w)) =
     (case rq_operationId (tr_request x) of
        None \<Rightarrow> map_of (tw_operations w)
      | Some i \<Rightarrow> (map_of (tw_operations w))(i \<mapsto>
          \<lparr>ti_taskId = tr_taskId x, ti_attemptId = tr_attemptId x, ti_fingerprint = fingerprint_of (tr_request x)\<rparr>))"
  "tw_replies (put_candidate x w) = tw_replies w"
  by (auto simp: put_candidate_def stored_def update_conv' fun_eq_iff split: option.split)

lemma put_candidate_later: "candidate_absent x w \<Longrightarrow> task_later w (put_candidate x w)"
  by (auto simp: task_later_def put_candidate_store candidate_absent_def split: option.splits)

lemma put_candidate_sound:
  assumes "store_sound c w" and "candidate_absent x w" and "parseTaskRecord c x = Inr x"
  shows "store_sound c (put_candidate x w)"
proof -
  let ?w = "put_candidate x w"
  have absent: "map_of (tw_tasks w) (tr_taskId x) = None" "stored w (tr_taskId x) = None"
    "rq_operationId (tr_request x) = Some i \<Longrightarrow> map_of (tw_operations w) i = None" for i
    using assms(2) by (auto simp: candidate_absent_def stored_def)
  have "distinct (map fst (tw_tasks ?w))"
    using assms(1) by (simp add: put_candidate_def distinct_update store_sound_def)
  moreover have "tr_taskId r = j \<and> n \<le> tw_revision ?w \<and> parseTaskRecord c r = Inr r" if "map_of (tw_tasks ?w) j = Some (r, n)" for j r n
    using that assms(1,3) unfolding store_sound_def put_candidate_store by (cases "j = tr_taskId x") (auto intro: le_SucI)
  moreover have "\<exists>r. stored ?w (ti_taskId identity) = Some r \<and> rq_operationId (tr_request r) = Some j \<and>
      ti_attemptId identity = tr_attemptId r \<and> ti_fingerprint identity = fingerprint_of (tr_request r)"
    if "map_of (tw_operations ?w) j = Some identity" for j identity
  proof (cases "rq_operationId (tr_request x) = Some j")
    case True
    with that show ?thesis by (auto simp: put_candidate_store)
  next
    case False
    with that have "map_of (tw_operations w) j = Some identity" by (auto simp: put_candidate_store split: option.splits if_splits)
    then obtain r where "stored w (ti_taskId identity) = Some r" "rq_operationId (tr_request r) = Some j"
      "ti_attemptId identity = tr_attemptId r" "ti_fingerprint identity = fingerprint_of (tr_request r)"
      using assms(1) unfolding store_sound_def by blast
    with absent(2) show ?thesis by (auto simp: put_candidate_store intro!: exI [of _ r])
  qed
  moreover have "\<exists>identity. map_of (tw_operations ?w) k = Some identity \<and> ti_taskId identity = j"
    if stored: "stored ?w j = Some r" and k: "rq_operationId (tr_request r) = Some k" for j r k
  proof (cases "j = tr_taskId x")
    case True
    with stored k show ?thesis by (auto simp: put_candidate_store)
  next
    case False
    with stored have "stored w j = Some r" by (simp add: put_candidate_store)
    with k assms(1) obtain identity where identity: "map_of (tw_operations w) k = Some identity" "ti_taskId identity = j"
      unfolding store_sound_def by blast
    with absent(3) [of k] show ?thesis by (auto simp: put_candidate_store split: option.split)
  qed
  ultimately show ?thesis unfolding store_sound_def by blast
qed

lemma triple_admit_commit:
  assumes "parseTaskRecord c candidate = Inr candidate"
  shows "tasks.triple c (\<lambda>_. True) (run_step (admit_commit authority candidate outcome)) (\<lambda>_ _. True)"
proof (rule tasks.triple_step)
  fix w w' x
  assume sound: "task_sound c w" and commit: "admit_commit authority candidate outcome w = Inr (x, w')"
  show "task_sound c w' \<and> task_later w w' \<and> True"
  proof (cases "w' = w")
    case True
    with sound show ?thesis by (simp add: task_later_refl)
  next
    case False
    define v where "v = (if snd outcome then put_candidate candidate w else w)"
    define u where "u = advanceTaskFence authority (record_reply (tr_request candidate) (fst outcome) v)"
    from commit False have fresh: "snd outcome \<longrightarrow> candidate_absent candidate w" and w': "w' = u"
      and reply: "recorded_reply (tr_request candidate) w = Inr None"
      by (auto simp: admit_commit_def u_def v_def Let_def split: option.splits if_splits)
    have v: "store_sound c v" "task_later w v" "tw_replies v = tw_replies w"
      using fresh sound assms put_candidate_later [of candidate w] put_candidate_sound [of c w candidate] task_later_refl [of w]
      by (auto simp: v_def task_sound_def put_candidate_store)
    have u: "tw_tasks u = tw_tasks v" "tw_operations u = tw_operations v" "tw_revision u = tw_revision v"
      by (simp_all add: u_def advanceTaskFence_def record_reply_def split: option.split)
    have "stored u = stored v" by (simp add: stored_def fun_eq_iff u)
    with v(1) have "store_sound c u" by (simp add: store_sound_def u)
    moreover have "map_of (tw_replies u) k = Some y" if "map_of (tw_replies w) k = Some y" for k y
      using that reply v(3)
      by (auto simp: u_def advanceTaskFence_def record_reply_def recorded_reply_def update_conv' split: option.splits if_splits)
    with v(2) have later: "task_later w u" by (simp add: task_later_def u v(3))
    moreover have "remembers u u"
    proof -
      have "remembers w w" using sound by (simp add: task_sound_def)
      from remembers_later [OF this later] show ?thesis
        using one_service [of u w u]
        by (simp add: u_def v_def advanceTaskFence_def record_reply_def put_candidate_def split: option.splits if_splits)
    qed
    ultimately show ?thesis by (simp add: w' task_sound_def)
  qed
qed

lemma triple_admit:
  "tasks.triple c (\<lambda>_. True) (admit_task c q identity selection authority) (\<lambda>x. known x)"
proof -
  have parse: "tasks.triple c (\<lambda>_. True) (run_check (\<lambda>w. parseTaskRecord c (candidate_record q identity selection authority (tw_now w))))
      (\<lambda>candidate _. parseTaskRecord c candidate = Inr candidate)"
    by (rule tasks.triple_check) (auto dest: parseTaskRecord_value)
  have admitted: "tasks.triple c (\<lambda>_. parseTaskRecord c candidate = Inr candidate)
      (case reply of
          Some taskId \<Rightarrow> run_paused (Inr taskId)
        | None \<Rightarrow>
            run_then (run_check (admit_body c candidate)) (\<lambda>outcome.
            run_then run_await (\<lambda>_.
            run_then (run_step (admit_commit authority candidate outcome)) (\<lambda>taskId. run_paused (Inr taskId))))) (\<lambda>_ _. True)"
    for reply candidate
  proof (cases "parseTaskRecord c candidate = Inr candidate")
    case True
    have "tasks.triple c (\<lambda>_. True) (run_then (run_check (admit_body c candidate)) (\<lambda>outcome.
            run_then run_await (\<lambda>_.
            run_then (run_step (admit_commit authority candidate outcome)) (\<lambda>taskId. run_paused (Inr taskId))))) (\<lambda>_ _. True)"
      by (rule triple_do [OF triple_guard], rule triple_do [OF tasks.triple_await [OF stable_True]],
          rule triple_do [OF triple_admit_commit [OF True]], rule tasks.triple_paused [OF stable_True])
    then show ?thesis using True by (cases reply) (auto intro: tasks.triple_paused [OF stable_True])
  qed (simp add: tasks.triple_def)
  have load: "tasks.triple c (\<lambda>_. True) (run_then (load_task c i) (\<lambda>loaded.
       case loaded of None \<Rightarrow> run_result (Inl task_corrupt) | Some (task, _) \<Rightarrow> run_return task)) (\<lambda>x. known x)" for i
    by (rule triple_do [OF triple_load [OF stable_True]])
      (auto intro: tasks.triple_throw tasks.triple_return dest: seen_known split: option.split)
  show ?thesis unfolding admit_task_def
    by (rule triple_do [OF triple_guard], rule triple_do [OF parse], rule triple_do [OF tasks.triple_await [OF stable_const]],
        rule triple_do [OF triple_guard], rule triple_do [OF admitted], rule triple_do [OF triple_guard load])
qed

section \<open>Running\<close>

lemma some_known_simps: "some_known None = (\<lambda>_. True)" "some_known (Some r) = known r"
  by (simp_all add: fun_eq_iff some_known_def)

text \<open>After a look at the state: what holds of it because it is sound.\<close>

lemma triple_seen_world:
  assumes "tasks.triple c R m Q" and "task_sound c v \<Longrightarrow> P v \<Longrightarrow> R v"
  shows "tasks.triple c (\<lambda>w. P w \<and> v = w) m Q"
proof (rule tasks.tripleI)
  fix changes w r changes' w'
  assume start: "tasks.relied c changes" "task_sound c w" "P w \<and> v = w" and run: "m (changes, w) = (r, (changes', w'))"
  from start(2,3) assms(2) have "R w" by blast
  from tasks.tripleD [OF assms(1) start(1,2) this run]
  show "tasks.relied c changes' \<and> task_sound c w' \<and> task_later w w' \<and> (\<forall>x. r = Inr x \<longrightarrow> Q x w')" by blast
qed

lemma triple_replay: "tasks.triple c (known task) (replay_task c a task) (\<lambda>_ _. True)"
proof -
  have again: "tasks.triple c (known task) (run_then (run_check requireAuthority) (\<lambda>authority.
      run_then (recover_record c (rn_recover a) task authority) (\<lambda>_. status_or c task))) (\<lambda>_ _. True)"
    by (rule triple_do [OF triple_guard], rule triple_do [OF triple_recover_record], rule triple_forget [OF triple_status_or]) simp
  have joined: "tasks.triple c (known task) (run_paused (rn_joined a)) (\<lambda>_ _. True)"
    by (rule triple_forget [OF tasks.triple_paused [OF stable_known]]) simp
  have replayed: "tasks.triple c (known task) (run_return task) (\<lambda>_ _. True)"
    by (rule triple_forget [OF triple_give]) simp
  show ?thesis unfolding replay_task_def
    by (rule tasks.triple_if, rule replayed, rule triple_do [OF triple_read], rule tasks.triple_if, rule joined, rule again)
qed

lemma triple_find_replay: "tasks.triple c (\<lambda>_. True) (find_replay c q) some_known"
proof (cases "rq_operationId q")
  case None
  then show ?thesis by (simp add: find_replay_def tasks.triple_return some_known_def)
next
  case (Some i)
  have loaded: "tasks.triple c (\<lambda>w. True \<and> (case x of None \<Rightarrow> True | Some (r, n) \<Rightarrow> tr_taskId r = j \<and> seen r n w))
      (case x of None \<Rightarrow> run_result (Inl task_corrupt) | Some (r, _) \<Rightarrow> run_return (Some r)) some_known" for x j
    by (cases x) (auto intro!: tasks.triple_throw tasks.triple_return simp: some_known_simps seen_known)
  have task: "tasks.triple c (\<lambda>_. True) (run_then (load_task c j) (\<lambda>task.
      case task of None \<Rightarrow> run_result (Inl task_corrupt) | Some (r, _) \<Rightarrow> run_return (Some r))) some_known" for j
    by (rule triple_do [OF triple_load [OF stable_True] loaded])
  have replay: "tasks.triple c (\<lambda>_. True) (case x of
        None \<Rightarrow> run_return None
      | Some identity \<Rightarrow>
          if ti_fingerprint identity \<noteq> fingerprint_of q then run_result (Inl idempotency_conflict)
          else run_then (load_task c (ti_taskId identity)) (\<lambda>task.
            case task of None \<Rightarrow> run_result (Inl task_corrupt) | Some (r, _) \<Rightarrow> run_return (Some r))) some_known" for x
    using task by (cases x) (auto intro: tasks.triple_return tasks.triple_throw simp: some_known_def)
  show ?thesis unfolding find_replay_def Some option.case
    by (rule triple_do [OF tasks.triple_await [OF stable_True]], rule triple_do [OF triple_guard],
        rule triple_do [OF tasks.triple_await [OF stable_True] replay])
qed

lemma triple_fresh: "tasks.triple c (\<lambda>_. True) (fresh_task c a q authority) (\<lambda>_ _. True)"
proof -
  have check: "tasks.triple c (\<lambda>_. True) (run_result (validateSelection x)) (\<lambda>_ _. sl_executor x = target_executor (sl_target x))" for x
    by (rule tasks.triple_result) (auto simp: validateSelection_def split: if_splits)
  have admit: "tasks.triple c (\<lambda>_. b) (admit_task c q identity selected authority) (\<lambda>x w. known x w \<and> b)" for b identity selected
    using tasks.triple_frame [OF triple_admit stable_const [of b]] by (rule tasks.triple_weaken) auto
  have keep: "tasks.triple c (\<lambda>w. known admitted w \<and> sl_executor selected = target_executor (sl_target selected))
      (if keeps_selection admitted selected
       then run_then (register_executor (tr_taskId admitted) (sl_executor selected) authority) (\<lambda>_. run_return ())
       else run_return ()) (\<lambda>_. known admitted)" for admitted selected
  proof (rule tasks.triple_if)
    assume keeps: "keeps_selection admitted selected"
    have stable: "tasks.stable (\<lambda>w. known admitted w \<and> sl_executor selected = target_executor (sl_target selected))"
      by (rule stable_conj [OF stable_known stable_const])
    have "targets_task w (tr_taskId admitted) (sl_executor selected)"
      if "known admitted w \<and> sl_executor selected = target_executor (sl_target selected)" for w
      using keeps that known_aimed [of admitted w] by (auto simp: keeps_selection_def split: option.splits)
    from triple_register [OF stable this]
    show "tasks.triple c (\<lambda>w. known admitted w \<and> sl_executor selected = target_executor (sl_target selected))
        (run_then (register_executor (tr_taskId admitted) (sl_executor selected) authority) (\<lambda>_. run_return ())) (\<lambda>_. known admitted)"
      by (rule triple_do) (auto intro: triple_forget [OF triple_give])
  qed (auto intro: triple_forget [OF triple_give])
  have go: "tasks.triple c (known admitted)
      (run_then run_world (\<lambda>w.
         if tr_taskId admitted \<in> set (ts_dispatches w) then run_paused (rn_joined a)
         else if tr_state admitted \<noteq> TaskAccepted then run_return admitted
         else ensure_dispatch c (rn_dispatch a) (rn_joined a) admitted authority)) (\<lambda>_ _. True)" for admitted
    by (rule triple_do [OF triple_read], intro tasks.triple_if)
      (auto intro: triple_forget [OF tasks.triple_paused [OF stable_known]] triple_forget [OF triple_give] triple_forget [OF triple_ensure])
  show ?thesis unfolding fresh_task_def
    by (rule triple_do [OF triple_select [OF stable_True]], rule triple_do [OF check], rule triple_do [OF triple_guard],
        rule triple_do [OF admit], rule triple_do [OF keep go])
qed

lemma triple_run: "tasks.triple c (\<lambda>_. True) (run_task c a q) (\<lambda>_ _. True)"
proof -
  have replay: "tasks.triple c (some_known x) (case x of Some r \<Rightarrow> replay_task c a r | None \<Rightarrow> fresh_task c a q authority) (\<lambda>_ _. True)"
    for x authority
    by (cases x) (simp_all add: some_known_simps triple_replay triple_fresh)
  show ?thesis unfolding run_task_def
    by (rule triple_do [OF triple_guard], rule triple_do [OF triple_guard], rule triple_do [OF triple_find_replay replay])
qed

section \<open>Cancelling and settlement\<close>

lemma triple_wait_bounded:
  assumes "tasks.stable P"
  shows "tasks.triple c P (wait_bounded c a i) (\<lambda>_. P)"
proof -
  have late: "tasks.triple c P (run_then run_await (\<lambda>_.
      run_check (\<lambda>w.
        case map_of (ts_answers w) (ca_waiter a) of
          Some answer \<Rightarrow> and_then answer (\<lambda>r. Inr (Some r))
        | None \<Rightarrow> and_then (ca_waited a) (\<lambda>_. Inr None)))) (\<lambda>_. P)"
    by (rule triple_do [OF tasks.triple_await [OF assms] triple_guard])
  have settled: "tasks.triple c (\<lambda>w. P w \<and> some_known x w) (case x of
         Some r \<Rightarrow> run_return (Some r)
       | None \<Rightarrow>
           run_then run_await (\<lambda>_.
           run_check (\<lambda>w.
             case map_of (ts_answers w) (ca_waiter a) of
               Some answer \<Rightarrow> and_then answer (\<lambda>r. Inr (Some r))
             | None \<Rightarrow> and_then (ca_waited a) (\<lambda>_. Inr None)))) (\<lambda>_. P)" for x
    using late by (cases x) (auto intro: tasks.triple_weaken triple_forget [OF triple_give] simp: some_known_def)
  show ?thesis unfolding wait_bounded_def by (rule triple_do [OF triple_wait [OF assms] settled])
qed

lemma registered_aimed: "task_sound c w \<Longrightarrow> map_of (ts_executors w) i = Some registration \<Longrightarrow> targets_task w i (tg_executor registration)"
  by (simp add: task_sound_def remembers_def)

lemma triple_cancel_attempt:
  "tasks.triple c (\<lambda>w. known task w \<and> (\<forall>g. active = Some g \<longrightarrow> targets_task w (tr_taskId task) (tg_executor g)))
     (cancel_attempt c a task authority active) (\<lambda>_. known task)"
proof (cases active)
  case None
  then show ?thesis by (auto simp: cancel_attempt_def intro: triple_guard)
next
  case (Some g)
  let ?f = "tg_executor g"
  have call: "tasks.triple c (aimed task ?f) (call_executor (CancelledAt ?f (tr_taskId task) (tr_attemptId task)) (ca_cancelled a)) (\<lambda>_. aimed task ?f)"
    by (rule triple_call [OF stable_aimed]) (auto simp: call_ok_def intro: aimed_attempt)
  have observed: "tasks.triple c (aimed task ?f)
      (case x of Observed (Some (AttemptTerminal x)) \<Rightarrow> complete_task c task x authority (Some g) | _ \<Rightarrow> run_return ()) (\<lambda>_. known task)" for x
    by (auto intro: tasks.triple_weaken [OF triple_complete] triple_forget [OF triple_give]
        split: observation.split option.split attempt_status.split)
  have "tasks.triple c (aimed task ?f) (cancel_attempt c a task authority (Some g)) (\<lambda>_. known task)"
    unfolding cancel_attempt_def option.case
    by (rule triple_do [OF triple_guard], rule triple_do [OF call], rule triple_do [OF triple_guard],
        rule triple_do [OF triple_observe], rule triple_do [OF triple_guard observed])
  then show ?thesis unfolding Some by (rule tasks.triple_weaken) auto
qed

lemma triple_cancel_running: "tasks.triple c (known task) (cancel_running c a task authority) (\<lambda>_ _. True)"
proof -
  let ?P = "\<lambda>x w. known x w \<and> tr_taskId x = tr_taskId task"
  have stable: "tasks.stable (?P x)" for x by (rule stable_conj [OF stable_known stable_const])
  have intend: "tasks.triple c (known task)
      (if tr_cancellation task = None then transition_task c (tr_taskId task) authority (cancelled_record authority)
       else run_return task) ?P"
    by (rule tasks.triple_if, rule triple_transition [OF current_advances(2)], rule tasks.triple_return) simp
  have pause: "tasks.triple c (?P x) (if b then run_await else run_return ()) (\<lambda>_. ?P x)" for b x
    by (rule tasks.triple_if, rule tasks.triple_await [OF stable], rule triple_give)
  have attempt: "tasks.triple c (\<lambda>w. ?P x w \<and> v = w)
      (cancel_attempt c a x authority (map_of (ts_executors v) (tr_taskId task))) (\<lambda>_. ?P x)" for x v
  proof (cases "tr_taskId x = tr_taskId task")
    case True
    from triple_cancel_attempt [of c x "map_of (ts_executors v) (tr_taskId task)" a authority]
    have "tasks.triple c (\<lambda>w. ?P x w \<and> v = w)
        (cancel_attempt c a x authority (map_of (ts_executors v) (tr_taskId task))) (\<lambda>_. known x)"
      by (rule triple_seen_world) (use True registered_aimed in auto)
    then show ?thesis by (rule tasks.triple_weaken) (use True in auto)
  qed (simp add: tasks.triple_def)
  have settle: "tasks.triple c (?P x) (run_then (settle_uncertain c x GenericError authority True) (\<lambda>_. status_or c x)) (\<lambda>_ _. True)" for x
  proof -
    have "tasks.triple c (known x) (run_then (settle_uncertain c x GenericError authority True) (\<lambda>_. status_or c x)) (\<lambda>_ _. True)"
      by (rule triple_do [OF triple_settle], rule triple_forget [OF triple_status_or]) simp
    then show ?thesis by (rule tasks.triple_weaken) auto
  qed
  have after: "tasks.triple c (\<lambda>w. ?P x w \<and> some_known y w \<and> (\<forall>r. y = Some r \<longrightarrow> tr_taskId r = tr_taskId task))
      (case y of
         Some r \<Rightarrow>
           if tr_state r = TaskTerminal then run_return r
           else run_then (settle_uncertain c x GenericError authority True) (\<lambda>_. status_or c x)
       | None \<Rightarrow> run_then (settle_uncertain c x GenericError authority True) (\<lambda>_. status_or c x)) (\<lambda>_ _. True)" for x y
  proof -
    have anyway: "tasks.triple c (\<lambda>w. ?P x w \<and> R w)
        (run_then (settle_uncertain c x GenericError authority True) (\<lambda>_. status_or c x)) (\<lambda>_ _. True)" for R
      using settle by (rule tasks.triple_weaken) auto
    then show ?thesis by (cases y) (simp_all add: triple_forget [OF triple_give])
  qed
  have completed: "tasks.triple c (?P x)
      (case y of
         Some r \<Rightarrow> run_return r
       | None \<Rightarrow>
           run_then (task_status c (tr_taskId task)) (\<lambda>after.
             case after of
               Some r \<Rightarrow>
                 if tr_state r = TaskTerminal then run_return r
                 else run_then (settle_uncertain c x GenericError authority True) (\<lambda>_. status_or c x)
             | None \<Rightarrow> run_then (settle_uncertain c x GenericError authority True) (\<lambda>_. status_or c x))) (\<lambda>_ _. True)" for x y
    using triple_do [OF triple_status [OF stable [of x]] after] by (cases y) (auto intro: triple_forget [OF triple_give])
  show ?thesis unfolding cancel_running_def
    by (rule triple_do [OF intend], rule triple_do [OF triple_guard], rule triple_do [OF triple_read],
        rule triple_do [OF pause], rule triple_do [OF tasks.triple_world], rule triple_do [OF attempt],
        rule triple_do [OF triple_wait_bounded [OF stable]], rule completed)
qed

lemma triple_cancel: "tasks.triple c (\<lambda>_. True) (cancel_task c a i) (\<lambda>_ _. True)"
proof -
  have status: "tasks.triple c (\<lambda>w. True \<and> some_known x w \<and> (\<forall>r. x = Some r \<longrightarrow> tr_taskId r = i))
      (case x of
         None \<Rightarrow> run_result (Inl task_missing)
       | Some current \<Rightarrow>
           if tr_state current = TaskTerminal then run_return current else cancel_running c a current authority) (\<lambda>_ _. True)"
    for x authority
    by (cases x) (auto intro: tasks.triple_throw triple_forget [OF triple_give] tasks.triple_weaken [OF triple_cancel_running]
        simp: some_known_def)
  have inner: "tasks.triple c (\<lambda>_. True) (cancel_inner c a i) (\<lambda>_ _. True)"
    unfolding cancel_inner_def by (rule triple_do [OF triple_guard triple_do [OF triple_status [OF stable_True] status]])
  have failed: "tasks.triple c (\<lambda>_. True)
      (run_then (run_change (\<lambda>w. w\<lparr>ts_cancellations := filter (\<lambda>t. t \<noteq> i) (ts_cancellations w)\<rparr>)) (\<lambda>_. run_result (Inl e)))
      (\<lambda>_ _. True)" for e
    by (rule triple_do [OF triple_quiet [OF quiet_changes(9) stable_True] tasks.triple_throw])
  show ?thesis unfolding cancel_task_def
    by (rule triple_do [OF triple_guard], rule triple_do [OF triple_guard], rule triple_do [OF triple_read],
        rule tasks.triple_if, rule tasks.triple_paused [OF stable_True],
        rule triple_do [OF triple_quiet [OF quiet_changes(8) stable_True]],
        rule tasks.triple_catch [OF inner stable_True failed])
qed

lemma triple_settled: "tasks.triple c (known (tp_record p)) (attempt_settled c p outcome) (\<lambda>_ _. True)"
  by (cases outcome) (auto simp: attempt_settled_def intro: triple_forget [OF triple_complete] triple_forget [OF triple_settle])

lemma triple_local_settled: "tasks.triple c (\<lambda>_. True) (local_settled c n outcome) (\<lambda>_ _. True)"
proof -
  let ?drop = "\<lambda>w. w\<lparr>ts_completions := take n (ts_completions w) @ drop (Suc n) (ts_completions w)\<rparr>"
  have drop: "task_quiet ?drop"
    by (auto simp: task_quiet_def store_kept_def remembers_def dest: in_set_takeD in_set_dropD)
  have settled: "tasks.triple c (\<lambda>w. True \<and> v = w)
      (if n < length (ts_completions v)
       then run_then (run_change ?drop) (\<lambda>_. attempt_settled c (ts_completions v ! n) outcome)
       else run_return ()) (\<lambda>_ _. True)" for v
  proof (cases "n < length (ts_completions v)")
    case True
    have "tasks.triple c (known (tp_record (ts_completions v ! n)))
        (run_then (run_change ?drop) (\<lambda>_. attempt_settled c (ts_completions v ! n) outcome)) (\<lambda>_ _. True)"
      by (rule triple_do [OF triple_quiet [OF drop stable_known] triple_settled])
    then have "tasks.triple c (\<lambda>w. True \<and> v = w)
        (run_then (run_change ?drop) (\<lambda>_. attempt_settled c (ts_completions v ! n) outcome)) (\<lambda>_ _. True)"
      by (rule triple_seen_world) (use True in \<open>simp add: task_sound_def remembers_def\<close>)
    then show ?thesis using True by simp
  qed (auto intro: triple_forget [OF triple_give])
  show ?thesis unfolding local_settled_def by (rule triple_do [OF tasks.triple_world settled])
qed

lemma triple_remote_settled: "tasks.triple c (\<lambda>_. True) (remote_settled c i outcome) (\<lambda>_ _. True)"
proof -
  have settled: "tasks.triple c (\<lambda>w. True \<and> v = w)
      (case map_of (ts_remoteCompletions v) i of
         None \<Rightarrow> run_return ()
       | Some p \<Rightarrow> run_finally (attempt_settled c p outcome)
           (\<lambda>w. w\<lparr>ts_remoteCompletions := AList.delete i (ts_remoteCompletions w)\<rparr>)) (\<lambda>_ _. True)" for v
  proof (cases "map_of (ts_remoteCompletions v) i")
    case (Some p)
    have "tasks.triple c (known (tp_record p)) (run_finally (attempt_settled c p outcome)
           (\<lambda>w. w\<lparr>ts_remoteCompletions := AList.delete i (ts_remoteCompletions w)\<rparr>)) (\<lambda>_ _. True)"
      by (rule triple_finally_quiet [OF triple_settled quiet_changes(10) stable_True])
    then have "tasks.triple c (\<lambda>w. True \<and> v = w) (run_finally (attempt_settled c p outcome)
           (\<lambda>w. w\<lparr>ts_remoteCompletions := AList.delete i (ts_remoteCompletions w)\<rparr>)) (\<lambda>_ _. True)"
      by (rule triple_seen_world) (use Some in \<open>simp add: task_sound_def remembers_def\<close>)
    then show ?thesis using Some by simp
  qed (auto intro: triple_forget [OF triple_give])
  show ?thesis unfolding remote_settled_def by (rule triple_do [OF tasks.triple_world settled])
qed

end
