(* ===== verification/Task_System.thy ===== *)
theory Task_System
  imports Task_Guarantees
begin

text \<open>
  Systems of task services. A service shares its store with other services; every step of the system keeps what
  \<open>task_later\<close> and \<open>task_sound\<close> say, so they hold of every run that starts from an empty store.
\<close>

section \<open>Steps\<close>

definition with_store :: "task_world \<Rightarrow> task_world \<Rightarrow> task_world" where
  "with_store v w =
     w\<lparr>tw_tasks := tw_tasks v, tw_operations := tw_operations v, tw_replies := tw_replies v, tw_fences := tw_fences v,
       tw_revision := tw_revision v\<rparr>"

datatype task_operation =
    RunTask run_answers run_request
  | CancelTask cancel_answers jstring
  | WaitTask nat jstring
  | StatusTask jstring
  | SetAuthority "jstring \<Rightarrow> recover_answers" "runtime_authority option"
  | RecoverWorker "jstring \<Rightarrow> recover_answers" jstring
  | LocalSettled nat "execution_result result result"
  | RemoteSettled jstring "execution_result result result"

fun task_operation_run :: "task_codec \<Rightarrow> task_operation \<Rightarrow> unit task_run" where
  "task_operation_run c (RunTask a q) = run_then (run_task c a q) (\<lambda>_. run_return ())"
| "task_operation_run c (CancelTask a i) = run_then (cancel_task c a i) (\<lambda>_. run_return ())"
| "task_operation_run c (WaitTask n i) = run_then (wait_task c n i) (\<lambda>_. run_return ())"
| "task_operation_run c (StatusTask i) = run_then (task_status c i) (\<lambda>_. run_return ())"
| "task_operation_run c (SetAuthority answers authority) = setAuthority c answers authority"
| "task_operation_run c (RecoverWorker answers workerId) = recoverRemoteWorker c answers workerId"
| "task_operation_run c (LocalSettled n outcome) = local_settled c n outcome"
| "task_operation_run c (RemoteSettled i outcome) = remote_settled c i outcome"

text \<open>
  An operation runs with any number of steps of the system at each of its pauses. \<open>elsewhere\<close> is a run of another
  service \<open>v\<close> over the same store, whose memory agrees with the store, as \<open>system_sound\<close> shows of every service;
  \<open>surroundings\<close> is a change of the clock or of the reachability of the store.
\<close>

inductive task_step :: "task_codec \<Rightarrow> task_world \<Rightarrow> task_world \<Rightarrow> bool" for c where
  operated: "\<forall>f \<in> set changes. \<forall>v. (task_step c)\<^sup>*\<^sup>* v (f v) \<Longrightarrow>
     task_operation_run c operation (changes, w) = (r, (changes', w')) \<Longrightarrow> task_step c w w'"
| closed: "task_step c w (close_tasks w)"
| elsewhere: "(task_step c)\<^sup>*\<^sup>* v v' \<Longrightarrow> with_store w v = v \<Longrightarrow> remembers w v \<Longrightarrow> task_step c w (with_store v' w)"
| surroundings: "task_step c w (w\<lparr>tw_now := now, tw_failure := failure\<rparr>)"

text \<open>A service as the constructor makes it, and a system of services over one store.\<close>

definition start_service :: "task_world \<Rightarrow> task_world" where
  "start_service w =
     w\<lparr>ts_authority := None, ts_closed := False, ts_records := [], ts_executors := [], ts_registrations := 0,
       ts_dispatches := [], ts_cancellations := [], ts_completions := [], ts_remoteCompletions := [],
       ts_ephemeral := [], ts_waiters := [], ts_answers := [], ts_calls := []\<rparr>"

definition no_tasks :: "jstring \<Rightarrow> task_world" where
  "no_tasks now = start_service
     \<lparr>tw_tasks = [], tw_operations = [], tw_replies = [], tw_fences = [], tw_revision = 0, tw_failure = None, tw_now = now,
      ts_authority = None, ts_closed = False, ts_records = [], ts_executors = [], ts_registrations = 0,
      ts_dispatches = [], ts_cancellations = [], ts_completions = [], ts_remoteCompletions = [],
      ts_ephemeral = [], ts_waiters = [], ts_answers = [], ts_calls = []\<rparr>"

inductive task_system :: "task_codec \<Rightarrow> task_world list \<Rightarrow> bool" for c where
  first: "task_system c [no_tasks now]"
| joins: "task_system c services \<Longrightarrow> w \<in> set services \<Longrightarrow> task_system c (services @ [start_service w])"
| steps: "task_system c services \<Longrightarrow> n < length services \<Longrightarrow> task_step c (services ! n) w \<Longrightarrow>
     task_system c ((map (with_store w) services)[n := w])"

section \<open>What every step keeps\<close>

lemma triple_operation: "tasks.triple c (\<lambda>_. True) (task_operation_run c operation) (\<lambda>_ _. True)"
  by (cases operation)
    (auto intro: triple_do [OF triple_run triple_give] triple_do [OF triple_cancel triple_give]
       triple_do [OF triple_wait [OF stable_True] triple_forget [OF triple_give]]
       triple_do [OF triple_status [OF stable_True] triple_forget [OF triple_give]]
       triple_setAuthority triple_recoverRemoteWorker triple_local_settled triple_remote_settled)

definition keeps :: "task_codec \<Rightarrow> task_world \<Rightarrow> task_world \<Rightarrow> bool" where
  "keeps c w w' \<longleftrightarrow> (task_sound c w \<longrightarrow> task_later w w' \<and> task_sound c w')"

lemma task_keeps_run: "(\<lambda>v v'. R v v' \<and> keeps c v v')\<^sup>*\<^sup>* w w' \<Longrightarrow> keeps c w w'"
  by (induction rule: rtranclp_induct) (auto simp: keeps_def task_later_refl intro: task_later_trans)

lemma with_store_simps [simp]:
  "tw_tasks (with_store v w) = tw_tasks v" "tw_operations (with_store v w) = tw_operations v"
  "tw_replies (with_store v w) = tw_replies v" "tw_revision (with_store v w) = tw_revision v"
  by (simp_all add: with_store_def)

lemma with_store_same: "with_store w v = v \<Longrightarrow>
  tw_tasks v = tw_tasks w \<and> tw_operations v = tw_operations w \<and> tw_replies v = tw_replies w \<and> tw_revision v = tw_revision w"
  by (metis with_store_simps)

lemma remembers_with_store: "remembers u (with_store v w) = remembers u w"
  by (rule one_service) (simp_all add: with_store_def)

text \<open>The memory of a service agrees with a later store.\<close>

lemma with_store_keeps:
  assumes "task_sound c v'" and "task_later v v'" and "remembers v w"
  shows "task_sound c (with_store v' w)"
  using assms one_store [of "with_store v' w" v'] remembers_later [OF assms(3,2)]
  by (simp add: task_sound_def remembers_with_store)

lemma elsewhere_keeps:
  assumes "keeps c v v'" and same: "with_store w v = v" and "remembers w v"
  shows "keeps c w (with_store v' w)"
  unfolding keeps_def
proof
  assume sound: "task_sound c w"
  note store = one_store [of v w] with_store_same [OF same]
  from sound have v: "task_sound c v" and w: "remembers v w"
    using store \<open>remembers w v\<close> by (simp_all add: task_sound_def)
  with \<open>keeps c v v'\<close> have later: "task_later v v'" and v': "task_sound c v'" by (auto simp: keeps_def)
  have "task_later w v" using store by simp
  moreover have "task_later v' (with_store v' w)" by (rule one_store(1)) simp_all
  ultimately have "task_later w (with_store v' w)" using later by (blast intro: task_later_trans)
  with with_store_keeps [OF v' later w] show "task_later w (with_store v' w) \<and> task_sound c (with_store v' w)" by simp
qed

lemma quiet_keeps: "task_quiet f \<Longrightarrow> keeps c w (f w)"
  using kept_sound [of f c w] by (auto simp: keeps_def task_quiet_def)

lemma task_step_keeps: "task_step c w w' \<Longrightarrow> keeps c w w'"
proof (induction rule: task_step.induct)
  case (operated changes operation w r changes' w')
  have "tasks.relied c changes"
    using operated(1) task_keeps_run unfolding tasks.relied_def keeps_def by blast
  from tasks.tripleD [OF triple_operation this _ TrueI operated(2)] show ?case by (auto simp: keeps_def)
next
  case (closed w)
  show ?case by (rule quiet_keeps [OF quiet_changes(13)])
next
  case (elsewhere v v' w)
  show ?case by (rule elsewhere_keeps [OF task_keeps_run [OF elsewhere(1)] elsewhere(2,3)])
next
  case (surroundings w failure now)
  show ?case by (rule quiet_keeps [OF quiet_changes(14)])
qed

lemma task_steps_keep: "(task_step c)\<^sup>*\<^sup>* w w' \<Longrightarrow> task_sound c w \<Longrightarrow> task_later w w' \<and> task_sound c w'"
proof (induction rule: rtranclp_induct)
  case (step v w')
  then show ?case using task_step_keeps [of c v w'] by (auto simp: keeps_def intro: task_later_trans)
qed (simp add: task_later_refl)

section \<open>Systems of services\<close>

lemma start_service_store:
  "tw_tasks (start_service w) = tw_tasks w" "tw_operations (start_service w) = tw_operations w"
  "tw_replies (start_service w) = tw_replies w" "tw_revision (start_service w) = tw_revision w"
  by (simp_all add: start_service_def)

lemma start_service_sound: "store_sound c w \<Longrightarrow> task_sound c (start_service w)"
  using one_store(2) [OF start_service_store, of c] by (simp add: task_sound_def remembers_def start_service_def)

text \<open>All services of a system have one store, and the memory of each agrees with it.\<close>

definition system_agrees :: "task_codec \<Rightarrow> task_world list \<Rightarrow> bool" where
  "system_agrees c services \<longleftrightarrow> (\<forall>v \<in> set services. \<forall>w \<in> set services. with_store v w = w \<and> task_sound c w)"

lemma start_with_store: "with_store (start_service v) w = with_store v w" "with_store v (start_service w) = start_service (with_store v w)"
  by (simp_all add: with_store_def start_service_def)

lemma with_store_twice: "with_store u (with_store v w) = with_store u w" "with_store (with_store u v) w = with_store u w"
  "with_store w w = w"
  by (simp_all add: with_store_def)

lemma joins_agrees:
  assumes "system_agrees c services" and "w \<in> set services"
  shows "system_agrees c (services @ [start_service w])"
  using assms start_service_sound [of c w]
  by (auto simp: system_agrees_def start_with_store with_store_twice task_sound_def)

lemma steps_agrees:
  assumes agrees: "system_agrees c services" and n: "n < length services" and step: "task_step c (services ! n) w"
  shows "system_agrees c ((map (with_store w) services)[n := w])"
proof -
  let ?u = "services ! n"
  have u: "?u \<in> set services" using n by simp
  then have "task_sound c ?u" using agrees by (auto simp: system_agrees_def)
  then have w: "task_later ?u w" "task_sound c w" using task_step_keeps [OF step] by (auto simp: keeps_def)
  have others: "task_sound c (with_store w v)" if "v \<in> set services" for v
  proof (rule with_store_keeps [OF w(2,1)])
    have v: "task_sound c v" "with_store ?u v = v" using that u agrees by (auto simp: system_agrees_def)
    then show "remembers ?u v" using with_store_same [OF v(2)] one_store(5) [of ?u v v] by (simp add: task_sound_def)
  qed
  have "v = w \<or> (\<exists>x \<in> set services. v = with_store w x)" if "v \<in> set ((map (with_store w) services)[n := w])" for v
    using subsetD [OF set_update_subset_insert that] by auto
  then show ?thesis unfolding system_agrees_def using w(2) others with_store_twice by metis
qed

lemma task_system_agrees: "task_system c services \<Longrightarrow> system_agrees c services"
proof (induction rule: task_system.induct)
  case (first now)
  have "store_sound c (no_tasks now)" by (simp add: store_sound_def stored_def no_tasks_def start_service_def)
  moreover have "start_service (no_tasks now) = no_tasks now" by (simp add: no_tasks_def start_service_def)
  ultimately have "task_sound c (no_tasks now)" using start_service_sound [of c "no_tasks now"] by simp
  then show ?case by (simp add: system_agrees_def with_store_twice)
qed (simp_all add: joins_agrees steps_agrees)

lemmas system_sound = task_system_agrees [unfolded system_agrees_def, rule_format, THEN conjunct2]

end
