(* ===== verification/Task_Properties.thy ===== *)
theory Task_Properties
  imports Task_System Store_Delivery
begin

text \<open>
  The properties of the task service. Those of systems hold whatever the services and the answers of the executors
  interleave; the settlement of an attempt is stated for an operation that nothing interrupts.
\<close>

section \<open>Operations that nothing interrupts\<close>

lemmas run_simps = run_then_def run_check_def [THEN fun_cong] run_step_def [THEN fun_cong] run_world_def run_change_def [THEN fun_cong]
  run_await_def run_paused_def [THEN fun_cong] run_return_def run_result_def run_catch_def run_finally_def [THEN fun_cong]

lemma attempts_unfold:
  "0 < n \<Longrightarrow> transition_attempts c n taskId authority update s =
     run_then (run_check (assertAuthority authority)) (\<lambda>_.
     run_then (load_task c taskId) (\<lambda>loaded.
       case loaded of
         None \<Rightarrow> run_result (Inl task_missing)
       | Some (record, revision) \<Rightarrow>
           if tr_state record = TaskTerminal then run_return record
           else run_then (run_check (\<lambda>w. parseTaskRecord c (update (tw_now w) record))) (\<lambda>next.
                run_catch (put_task c authority taskId next revision)
                  (\<lambda>e. if e = revision_conflict then transition_attempts c (n - 1) taskId authority update else run_result (Inl e))))) s"
proof (cases n)
  case (Suc m)
  show ?thesis unfolding Suc transition_attempts.simps diff_Suc_1 ..
qed simp

definition writable :: "runtime_authority \<Rightarrow> task_world \<Rightarrow> bool" where
  "writable authority w \<longleftrightarrow>
     ts_authority w = Some authority \<and> tw_failure w = None \<and>
     (\<forall>epoch. map_of (tw_fences w) (au_resource authority) = Some epoch \<longrightarrow> epoch \<le> decimal_value (au_epoch authority))"

lemma writable_fence: "writable authority w \<Longrightarrow> assertTaskFence authority w = Inr ()"
  by (auto simp: writable_def assertTaskFence_def split: option.split)

lemma fence_kept [simp]: "assertTaskFence authority (w\<lparr>ts_records := records\<rparr>) = assertTaskFence authority w"
  by (simp add: assertTaskFence_def)

lemmas transition_run = transition_task_def [THEN fun_cong, THEN fun_cong, THEN fun_cong, THEN fun_cong] attempts_unfold
  load_task_def [THEN fun_cong] put_task_def [THEN fun_cong] commit_task_def store_reachable_def cache_record_def
  advanceTaskFence_def assertAuthority_def requireAuthority_def

lemma transition_terminal:
  assumes "writable authority w" and "map_of (tw_tasks w) i = Some (r, n)" and "parseTaskRecord c r = Inr r"
    and "tr_state r = TaskTerminal"
  shows "transition_task c i authority update ([], w) = (Inr r, ([], cache_record i (r, n) w))"
  using assms writable_fence [OF assms(1)] unfolding writable_def by (simp add: run_simps transition_run)

lemma transition_invalid:
  assumes "writable authority w" and "map_of (tw_tasks w) i = Some (r, n)" and "parseTaskRecord c r = Inr r"
    and "tr_state r \<noteq> TaskTerminal" and "parseTaskRecord c (update (tw_now w) r) = Inl e"
  shows "transition_task c i authority update ([], w) = (Inl e, ([], cache_record i (r, n) w))"
  using assms writable_fence [OF assms(1)] unfolding writable_def by (simp add: run_simps transition_run)

definition written_task :: "runtime_authority \<Rightarrow> jstring \<Rightarrow> task_record \<times> nat \<Rightarrow> task_record \<Rightarrow> task_world \<Rightarrow> task_world" where
  "written_task authority i old x w =
     cache_record i (x, tw_revision w + 1) ((advanceTaskFence authority (cache_record i old w))\<lparr>
       tw_tasks := AList.update i (x, tw_revision w + 1) (tw_tasks w), tw_revision := tw_revision w + 1\<rparr>)"

lemma transition_writes:
  assumes "writable authority w" and "map_of (tw_tasks w) i = Some (r, n)" and "parseTaskRecord c r = Inr r"
    and "tr_state r \<noteq> TaskTerminal" and "parseTaskRecord c (update (tw_now w) r) = Inr x"
  shows "transition_task c i authority update ([], w) = (Inr x, ([], written_task authority i (r, n) x w))"
proof -
  have "x = update (tw_now w) r" using assms(5) by (rule parseTaskRecord_value)
  with assms writable_fence [OF assms(1)] show ?thesis
    unfolding writable_def by (simp add: run_simps transition_run update_conv' written_task_def)
qed

section \<open>The end of a task\<close>

text \<open>The stored task is terminal, and whoever waited for it is answered with it.\<close>

definition task_ends :: "jstring \<Rightarrow> task_world \<Rightarrow> task_world \<Rightarrow> bool" where
  "task_ends i w w' \<longleftrightarrow>
     (\<exists>x m. map_of (tw_tasks w') i = Some (x, m) \<and> tr_state x = TaskTerminal \<and>
        (\<forall>k. (i, k) \<in> set (ts_waiters w) \<longrightarrow> (k, Inr x) \<in> set (ts_answers w'))) \<and>
     (\<forall>k. (i, k) \<notin> set (ts_waiters w'))"

lemma task_ends_drop: "task_ends i w w' \<Longrightarrow> task_ends i w (drop_registration j registration w')"
  by (simp add: task_ends_def drop_registration_def)

lemma task_ends_notify:
  assumes "map_of (tw_tasks w') i = Some (x, m)" and "tr_state x = TaskTerminal" and "tr_taskId x = i"
    and "ts_waiters w' = ts_waiters w"
  shows "task_ends i w (notify_task x w')"
  using assms by (auto simp: task_ends_def notify_task_def intro!: image_eqI [where x = "(i, k)" for k])

lemma written_task_simps [simp]:
  "map_of (tw_tasks (written_task authority i old x w)) i = Some (x, tw_revision w + 1)"
  "ts_waiters (written_task authority i old x w) = ts_waiters w"
  by (simp_all add: written_task_def cache_record_def advanceTaskFence_def update_conv')

lemma cached_task_simps [simp]:
  "tw_tasks (cache_record i entry w) = tw_tasks w" "ts_waiters (cache_record i entry w) = ts_waiters w"
  "ts_ephemeral (cache_record i entry w) = ts_ephemeral w" "tw_now (cache_record i entry w) = tw_now w"
  "writable authority (cache_record i entry w) = writable authority w"
  by (simp_all add: cache_record_def writable_def)

text \<open>A transition to a terminal record ends the task, or was refused before anything was written.\<close>

lemma transition_ends:
  assumes "writable authority w" and "map_of (tw_tasks w) i = Some (r, n)" and "parseTaskRecord c r = Inr r" and "tr_taskId r = i"
    and "tr_state (update (tw_now w) r) = TaskTerminal" and "tr_taskId (update (tw_now w) r) = i"
    and "parseTaskRecord c (update (tw_now w) r) = Inr x \<or> tr_state r = TaskTerminal"
  shows "\<exists>x w'. transition_task c i authority update ([], w) = (Inr x, ([], w')) \<and> task_ends i w (notify_task x w')"
proof (cases "tr_state r = TaskTerminal")
  case True
  with transition_terminal [OF assms(1-3) True, of update] assms show ?thesis
    using task_ends_notify [of "cache_record i (r, n) w" i r n w] by auto
next
  case False
  with assms(7) have x: "parseTaskRecord c (update (tw_now w) r) = Inr x" by simp
  moreover have "x = update (tw_now w) r" using x by (rule parseTaskRecord_value)
  ultimately show ?thesis
    using transition_writes [OF assms(1-3) False, of update x] assms(5,6)
      task_ends_notify [of "written_task authority i (r, n) x w" i x "tw_revision w + 1" w] by auto
qed

text \<open>The indeterminate result of a valid record is valid while the clock is not behind the record.\<close>

lemma indeterminate_valid:
  assumes "parseTaskRecord c task = Inr task" and "timestamp now" and "not_before now (tr_createdAt task)"
    and "serializedBytes c (indeterminate_record now e task) \<le> runtimeOperationMaxBytes"
  shows "parseTaskRecord c (indeterminate_record now e task) = Inr (indeterminate_record now e task)"
  using assms
  by (auto simp: parseTaskRecord_def and_then_def binding_check_def executors_agree_def indeterminate_record_def result_fits_def
      resultExecutor_def result_kind_def Let_def split: if_splits sum.splits option.splits)

lemma settle_ends:
  assumes "writable authority w" and "map_of (tw_tasks w) (tr_taskId task) = Some (r, n)" and "parseTaskRecord c r = Inr r"
    and "tr_taskId r = tr_taskId task" and "map_of (ts_ephemeral w) (tr_taskId task) = None"
    and "parseTaskRecord c task = Inr task" and "timestamp (tw_now w)" and "not_before (tw_now w) (tr_createdAt task)"
    and "serializedBytes c (indeterminate_record (tw_now w) e task) \<le> runtimeOperationMaxBytes"
  shows "\<exists>w'. settle_uncertain c task e authority allow ([], w) = (Inr (), ([], w')) \<and> task_ends (tr_taskId task) w w'"
proof -
  let ?x = "indeterminate_record (tw_now w) e task"
  have valid: "parseTaskRecord c ?x = Inr ?x" by (rule indeterminate_valid [OF assms(6-9)])
  have "tr_taskId ?x = tr_taskId task" by (simp add: indeterminate_record_def)
  with transition_ends [OF assms(1-4), of "\<lambda>_ _. ?x" ?x] valid indeterminate_same(2) [of "tw_now w" e task]
  obtain x w' where x: "transition_task c (tr_taskId task) authority (\<lambda>_ _. ?x) ([], w) = (Inr x, ([], w'))"
    "task_ends (tr_taskId task) w (notify_task x w')" by auto
  have "assertAuthority authority w = Inr ()"
    using assms(1) by (simp add: writable_def assertAuthority_def requireAuthority_def)
  with x valid assms(5) show ?thesis
    by (simp add: settle_uncertain_def run_simps)
qed

lemma complete_ends:
  assumes "writable authority w" and "map_of (tw_tasks w) (tr_taskId task) = Some (r, n)" and "parseTaskRecord c r = Inr r"
    and "tr_taskId r = tr_taskId task" and "map_of (ts_ephemeral w) (tr_taskId task) = None"
    and "parseTaskRecord c task = Inr task" and "timestamp (tw_now w)" and "not_before (tw_now w) (tr_createdAt task)"
    and "\<And>e. serializedBytes c (indeterminate_record (tw_now w) e task) \<le> runtimeOperationMaxBytes"
  shows "\<exists>w'. complete_task c task input authority registration ([], w) = (Inr (), ([], w')) \<and> task_ends (tr_taskId task) w w'"
proof -
  let ?i = "tr_taskId task"
  let ?dropped = "drop_registration ?i registration"
  let ?update = "\<lambda>x now current. current\<lparr>tr_state := TaskTerminal, tr_authority := Some authority, tr_result := Some x, tr_updatedAt := now\<rparr>"
  have settles: "\<exists>w'. settle_uncertain c task e authority True ([], v) = (Inr (), ([], w')) \<and> task_ends ?i w (?dropped w')"
    if "v = w \<or> v = cache_record ?i (r, n) w" for e v
  proof -
    have "writable authority v" "map_of (tw_tasks v) ?i = Some (r, n)" "map_of (ts_ephemeral v) ?i = None" "tw_now v = tw_now w"
      using that assms(1,2,5) by auto
    from settle_ends [OF this(1,2) assms(3,4) this(3) assms(6)] assms(7-9) this(4)
    obtain w' where "settle_uncertain c task e authority True ([], v) = (Inr (), ([], w'))" "task_ends ?i v w'" by metis
    moreover have "task_ends ?i v = task_ends ?i w" using that by (auto simp: task_ends_def)
    ultimately show ?thesis by (auto intro: task_ends_drop)
  qed
  show ?thesis
  proof (cases "\<exists>x. input = Inr x \<and> \<not> (xr_taskId x \<noteq> ?i \<or> xr_attemptId x \<noteq> tr_attemptId task \<or> \<not> output_fits x) \<and>
      (tr_state r = TaskTerminal \<or> (\<exists>y. parseTaskRecord c (?update x (tw_now w) r) = Inr y))")
    case True
    then obtain x where x: "input = Inr x" "\<not> (xr_taskId x \<noteq> ?i \<or> xr_attemptId x \<noteq> tr_attemptId task \<or> \<not> output_fits x)"
      "tr_state r = TaskTerminal \<or> (\<exists>y. parseTaskRecord c (?update x (tw_now w) r) = Inr y)" by blast
    then obtain z where z: "parseTaskRecord c (?update x (tw_now w) r) = Inr z \<or> tr_state r = TaskTerminal" by blast
    from transition_ends [OF assms(1-4), of "?update x", OF _ _ z] assms(4)
    obtain y w' where "transition_task c ?i authority (?update x) ([], w) = (Inr y, ([], w'))"
      "task_ends ?i w (notify_task y w')" by auto
    then show ?thesis using x(1,2) by (simp add: complete_task_def run_simps task_ends_drop)
  next
    case False
    let ?attempt = "run_then (run_result input) (\<lambda>x.
          if xr_taskId x \<noteq> ?i \<or> xr_attemptId x \<noteq> tr_attemptId task \<or> \<not> output_fits x then run_result (Inl result_invalid)
          else run_then (transition_task c ?i authority (?update x)) (\<lambda>terminal. run_change (notify_task terminal)))"
    have "\<exists>v e. (v = w \<or> v = cache_record ?i (r, n) w) \<and> ?attempt ([], w) = (Inl e, ([], v))"
    proof (cases "\<exists>x. input = Inr x \<and> \<not> (xr_taskId x \<noteq> ?i \<or> xr_attemptId x \<noteq> tr_attemptId task \<or> \<not> output_fits x)")
      case True
      then obtain x where x: "input = Inr x" "\<not> (xr_taskId x \<noteq> ?i \<or> xr_attemptId x \<noteq> tr_attemptId task \<or> \<not> output_fits x)" by blast
      with False have r: "tr_state r \<noteq> TaskTerminal" and "\<nexists>y. parseTaskRecord c (?update x (tw_now w) r) = Inr y" by blast+
      then obtain e where "parseTaskRecord c (?update x (tw_now w) r) = Inl e" by (metis sum.exhaust)
      from transition_invalid [OF assms(1-3) r, of "?update x", OF this] x show ?thesis by (simp add: run_simps)
    next
      case False
      then show ?thesis by (cases input) (auto simp: run_simps)
    qed
    then obtain v e where v: "v = w \<or> v = cache_record ?i (r, n) w" and thrown: "?attempt ([], w) = (Inl e, ([], v))" by blast
    from settles [OF v, of e] obtain w' where
      "settle_uncertain c task e authority True ([], v) = (Inr (), ([], w'))" "task_ends ?i w (?dropped w')" by blast
    then show ?thesis unfolding complete_task_def using thrown by (simp add: run_catch_def run_finally_def)
  qed
qed

text \<open>The store refuses a write under an epoch that it knows to be superseded.\<close>

lemma transition_stale:
  assumes "ts_authority w = Some authority" and "tw_failure w = None"
    and "map_of (tw_fences w) (au_resource authority) = Some epoch" and "decimal_value (au_epoch authority) < epoch"
    and "map_of (tw_tasks w) i = Some (r, n)" and "parseTaskRecord c r = Inr r" and "tr_state r \<noteq> TaskTerminal"
    and "parseTaskRecord c (update (tw_now w) r) = Inr x"
  shows "transition_task c i authority update ([], w) = (Inl (Diagnostic ''STATE_FENCE_STALE''), ([], cache_record i (r, n) w))"
  using assms by (simp add: run_simps transition_run assertTaskFence_def)

section \<open>An example for the witnesses\<close>

lemma iso_0: "timestamp (iso 0)" "not_before (iso 0) (iso 0)"
proof -
  have "toISOString 0 = Inr (iso 0)" "parse_iso (iso 0) = Some 0" by (simp_all add: iso_valid valid_time_def)
  moreover have "length (iso 0) = 24"
  proof -
    have "yearFromDay 0 = 1970" by (simp add: yearFromDay_def dayFromYear_def)
    then show ?thesis by (simp add: iso_def toISOString_def valid_time_def year_text_def rest_text_def Let_def)
  qed
  ultimately show "timestamp (iso 0)" "not_before (iso 0) (iso 0)" by (simp_all add: timestamp_def not_before_def)
qed

definition example_codec :: task_codec where
  "example_codec = \<lparr>bindingMatches = \<lambda>q t b. tt_instanceId t = rq_componentId q, serializedBytes = \<lambda>_. 1\<rparr>"

definition example_holder :: runtime_authority where
  "example_holder = \<lparr>au_resource = [1], au_epoch = [49]\<rparr>"

definition example_task_request :: run_request where
  "example_task_request = \<lparr>rq_applicationId = [3], rq_pluginId = [4], rq_componentId = [5], rq_input = JNull,
     rq_deadline = [6], rq_orphanPolicy = [7], rq_operationId = Some ([8])\<rparr>"

definition example_selection :: task_selection where
  "example_selection =
     \<lparr>sl_target = \<lparr>tt_instanceId = [5], tt_deploymentGeneration = [2], tt_artifactDigest = [9],
        tt_executorId = [10], tt_executorType = ExProcess, tt_workerId = None\<rparr>,
      sl_binding = \<lparr>tb_fingerprint = [11], tb_content = JNull\<rparr>,
      sl_executor = \<lparr>xf_id = [10], xf_type = ExProcess\<rparr>\<rparr>"

definition example_dispatch :: dispatch_answers where
  "example_dispatch =
     \<lparr>da_selected = SelectTimedOut, da_submitted = Inr ([12], [13]), da_observed = Inr ObservationTimedOut\<rparr>"

definition example_recover :: recover_answers where
  "example_recover =
     \<lparr>ra_selected = SelectTimedOut, ra_cancelled = Inr (), ra_observed = Inr ObservationTimedOut, ra_resumed = None,
      ra_dispatch = example_dispatch, ra_joined = Inl GenericError\<rparr>"

definition example_run_task :: task_operation where
  "example_run_task = RunTask
     \<lparr>rn_identity = ([12], [13]), rn_selected = SelectedExecutor example_selection, rn_dispatch = example_dispatch,
      rn_joined = Inl GenericError, rn_recover = example_recover\<rparr> example_task_request"

definition after_operations :: "task_codec \<Rightarrow> task_operation list \<Rightarrow> task_world \<Rightarrow> task_world" where
  "after_operations c operations w = fold (\<lambda>operation w. snd (snd (task_operation_run c operation ([], w)))) operations w"

definition example_started :: task_world where
  "example_started = no_tasks (iso 0)"

text \<open>One service that admitted a task, submitted it and waits for it.\<close>

definition example_running :: task_world where
  "example_running = after_operations example_codec
     [SetAuthority (\<lambda>_. example_recover) (Some example_holder), example_run_task, WaitTask 7 [12]] example_started"

definition example_task :: task_record where
  "example_task =
     \<lparr>tr_taskId = [12], tr_attemptId = [13], tr_request = example_task_request, tr_state = TaskRunning, tr_createdAt = iso 0,
      tr_updatedAt = iso 0, tr_target = Some (sl_target example_selection), tr_binding = Some (sl_binding example_selection),
      tr_executor = None, tr_authority = Some example_holder, tr_cancellation = None, tr_diagnostic = None, tr_result = None\<rparr>"

lemmas example_simps = example_codec_def example_holder_def example_task_request_def example_selection_def example_dispatch_def
  example_recover_def example_run_task_def example_started_def

lemma after_operations_system: "task_system c [w] \<Longrightarrow> task_system c [after_operations c operations w]"
proof (induction operations arbitrary: w)
  case (Cons operation operations)
  have "task_step c w (snd (snd (task_operation_run c operation ([], w))))"
    by (rule task_step.operated [of "[]" c operation w "fst (task_operation_run c operation ([], w))"
          "fst (snd (task_operation_run c operation ([], w)))"]) simp_all
  with task_system.steps [OF Cons.prems, of 0] have "task_system c [snd (snd (task_operation_run c operation ([], w)))]" by simp
  from Cons.IH [OF this] show ?case by (simp add: after_operations_def)
qed (simp add: after_operations_def)

lemma example_task_system: "task_system example_codec [example_running]"
  unfolding example_running_def example_started_def by (rule after_operations_system [OF task_system.first])

lemmas operation_simps = setAuthority_def [THEN fun_cong] recover_def [THEN fun_cong] run_task_def [THEN fun_cong] find_replay_def [THEN fun_cong] fresh_task_def [THEN fun_cong] select_bounded_def [THEN fun_cong] admit_task_def [THEN fun_cong] load_task_def [THEN fun_cong] register_executor_def [THEN fun_cong] ensure_dispatch_def [THEN fun_cong] dispatch_task_def [THEN fun_cong] resolve_executor_def [THEN fun_cong] call_executor_def [THEN fun_cong] submission_accepted_def [THEN fun_cong] put_task_def [THEN fun_cong]
  task_status_def [THEN fun_cong] wait_task_def [THEN fun_cong] task_operation_run.simps [THEN fun_cong]
  transition_task_def [THEN fun_cong, THEN fun_cong, THEN fun_cong, THEN fun_cong] attempts_unfold

lemmas service_simps = assertRunning_def store_reachable_def assertAuthority_def requireAuthority_def pending_records_def validateSelection_def candidate_record_def parseTaskRecord_def binding_check_def executors_agree_def target_executor_def recorded_reply_def admit_body_def admit_commit_def candidate_absent_def assertTaskFence_def advanceTaskFence_def record_reply_def put_candidate_def cache_record_def keeps_selection_def retained_executor_def execution_request_of_def running_record_def commit_task_def runtimeOperationMaxBytes_def

lemma example_task:
  "parseTaskRecord example_codec example_task = Inr example_task" "tr_taskId example_task = [12]"
  "tr_state example_task = TaskRunning" "tr_createdAt example_task = iso 0" "serializedBytes example_codec x = 1"
  by (simp_all add: service_simps example_simps example_task_def iso_0)

lemma example_running:
  "tw_tasks example_running = [([12], example_task, 2)]" "ts_completions example_running =
     [\<lparr>tp_record = example_task, tp_authority = example_holder, tp_registration = \<lparr>tg_number = 1,
        tg_executor = sl_executor example_selection, tg_authority = example_holder\<rparr>\<rparr>]"
  "ts_calls example_running = [SubmittedTo (sl_executor example_selection) (execution_request_of example_task
     (sl_target example_selection) (sl_binding example_selection))]"
  "ts_waiters example_running = [([12], 7)]" "ts_authority example_running = Some example_holder"
  "tw_failure example_running = None" "tw_fences example_running = [([1], 1)]" "ts_ephemeral example_running = []"
  "tw_now example_running = iso 0"
  by (simp_all add: operation_simps example_running_def after_operations_def no_tasks_def start_service_def run_simps example_simps
      service_simps example_task_def iso_0 Let_def digit_value_def)

section \<open>Properties\<close>

text \<open>C8. Whatever the services of a system and their executors interleave, a stored task keeps its request, its attempt,
  its target and its binding, does not go back to accepted, and is never written again once it is terminal.\<close>

theorem task_record_final:
  assumes "task_system c services" and "w \<in> set services" and "(task_step c)\<^sup>*\<^sup>* w w'"
    and "map_of (tw_tasks w) i = Some (r, n)"
  shows "\<exists>r' n'. map_of (tw_tasks w') i = Some (r', n') \<and> tr_request r' = tr_request r \<and> tr_attemptId r' = tr_attemptId r \<and>
    tr_target r' = tr_target r \<and> tr_binding r' = tr_binding r \<and> n \<le> n' \<and>
    (tr_state r = TaskRunning \<longrightarrow> tr_state r' \<noteq> TaskAccepted) \<and> (tr_state r = TaskTerminal \<longrightarrow> r' = r \<and> n' = n)"
proof -
  have "task_sound c w" using system_sound [OF assms(1,2,2)] .
  from task_later_entry [OF conjunct1 [OF task_steps_keep [OF assms(3) this]] assms(4)]
  show ?thesis by (auto simp: entry_later_def task_advanced_def same_task_def)
qed

theorem task_record_final_witness:
  "\<exists>r' n'. map_of (tw_tasks (close_tasks example_running)) [12] = Some (r', n') \<and> tr_request r' = example_task_request \<and>
     tr_state r' \<noteq> TaskAccepted"
proof -
  have "(task_step example_codec)\<^sup>*\<^sup>* example_running (close_tasks example_running)"
    using task_step.closed by (rule r_into_rtranclp)
  from task_record_final [OF example_task_system _ this, of "[12]" example_task 2]
  show ?thesis by (auto simp: example_running example_task_def)
qed

text \<open>C9. Every call of an executor concerns a stored task and goes to the executor of the target it was admitted for, with
  the stored attempt; a submission carries the stored request, target and binding.\<close>

theorem executor_calls_on_target:
  assumes "task_system c services" and "w \<in> set services" and "x \<in> set (ts_calls w)"
  shows "case x of
      SubmittedTo f q \<Rightarrow> (\<exists>r n t b. map_of (tw_tasks w) (xq_taskId q) = Some (r, n) \<and> tr_target r = Some t \<and>
        tr_binding r = Some b \<and> f = target_executor t \<and> q = execution_request_of r t b)
    | ObservedAt f i a \<Rightarrow> (\<exists>r n t. map_of (tw_tasks w) i = Some (r, n) \<and> tr_attemptId r = a \<and> tr_target r = Some t \<and>
        f = target_executor t)
    | CancelledAt f i a \<Rightarrow> (\<exists>r n t. map_of (tw_tasks w) i = Some (r, n) \<and> tr_attemptId r = a \<and> tr_target r = Some t \<and>
        f = target_executor t)
    | ResumedAt f i a \<Rightarrow> (\<exists>r n t. map_of (tw_tasks w) i = Some (r, n) \<and> tr_attemptId r = a \<and> tr_target r = Some t \<and>
        f = target_executor t)"
proof -
  have "call_ok w x" using system_sound [OF assms(1,2,2)] assms(3) by (simp add: task_sound_def remembers_def)
  then show ?thesis by (auto simp: call_ok_def attempt_at_def stored_def split: executor_call.splits)
qed

theorem executor_calls_on_target_witness:
  "\<exists>r n t b. map_of (tw_tasks example_running) [12] = Some (r, n) \<and> tr_target r = Some t \<and> tr_binding r = Some b \<and>
     sl_executor example_selection = target_executor t"
  using executor_calls_on_target [OF example_task_system, of example_running "hd (ts_calls example_running)"]
  by (auto simp: example_running execution_request_of_def example_task_def)

text \<open>C10. Two stored tasks of one operation are the same task: an operation is admitted once, however often it is run.\<close>

theorem operation_admitted_once:
  assumes "task_system c services" and "w \<in> set services"
    and "map_of (tw_tasks w) i = Some (r, n)" and "map_of (tw_tasks w) j = Some (s, m)"
    and "rq_operationId (tr_request r) = Some k" and "rq_operationId (tr_request s) = Some k"
  shows "i = j"
proof -
  have operation: "\<exists>identity. map_of (tw_operations w) k = Some identity \<and> ti_taskId identity = j"
    if "map_of (tw_tasks w) j = Some (r, n)" "rq_operationId (tr_request r) = Some k" for j r n
    using system_sound [OF assms(1,2,2)] that by (simp add: task_sound_def store_sound_def stored_def)
  from operation [OF assms(3,5)] operation [OF assms(4,6)] show ?thesis by auto
qed

theorem operation_admitted_once_witness: "map_of (tw_tasks example_running) [12] = Some (example_task, 2) \<and> [12 :: code_unit] = [12]"
  using operation_admitted_once [OF example_task_system, of example_running "[12]" example_task 2 "[12]" example_task 2 "[8]"]
  by (simp add: example_running example_task_def example_task_request_def)

text \<open>C11. When an attempt of a service in a system settles, with a result, a malformed result or an error, and nothing
  else runs until the settlement is done, its task becomes terminal and whoever waited is answered with the stored record;
  provided that the service holds the authority of the attempt, the store is reachable and knows no newer epoch, no
  ephemeral result was recorded before, the record of the attempt is valid, the clock is valid and not behind the creation
  of the task, and the indeterminate record fits the size limit.\<close>

theorem settled_attempt_ends_task:
  assumes "task_system c services" and "w \<in> set services" and "k < length (ts_completions w)"
    and "ts_completions w ! k = p" and "tr_taskId (tp_record p) = i"
    and "ts_authority w = Some (tp_authority p)" and "tw_failure w = None"
    and "\<forall>epoch. map_of (tw_fences w) (au_resource (tp_authority p)) = Some epoch \<longrightarrow>
      epoch \<le> decimal_value (au_epoch (tp_authority p))"
    and "map_of (ts_ephemeral w) i = None"
    and "parseTaskRecord c (tp_record p) = Inr (tp_record p)" and "timestamp (tw_now w)"
    and "not_before (tw_now w) (tr_createdAt (tp_record p))"
    and "\<forall>e. serializedBytes c (indeterminate_record (tw_now w) e (tp_record p)) \<le> runtimeOperationMaxBytes"
  shows "\<exists>w' x m. local_settled c k outcome ([], w) = (Inr (), ([], w')) \<and>
    map_of (tw_tasks w') i = Some (x, m) \<and> tr_state x = TaskTerminal \<and>
    (\<forall>n. (i, n) \<in> set (ts_waiters w) \<longrightarrow> (n, Inr x) \<in> set (ts_answers w')) \<and> (\<forall>n. (i, n) \<notin> set (ts_waiters w'))"
proof -
  let ?w = "w\<lparr>ts_completions := take k (ts_completions w) @ drop (Suc k) (ts_completions w)\<rparr>"
  have sound: "task_sound c w" using system_sound [OF assms(1,2,2)] .
  have "known (tp_record p) w" using sound assms(3,4) by (auto simp: task_sound_def remembers_def)
  then obtain r n where r: "map_of (tw_tasks w) i = Some (r, n)" using assms(5) by (auto simp: known_def stored_def)
  have held: "writable (tp_authority p) ?w" using assms(6-8) by (simp add: writable_def)
  have entry: "parseTaskRecord c r = Inr r" "tr_taskId r = i" using sound_entry [OF sound r] by auto
  have "\<exists>w'. attempt_settled c p outcome ([], ?w) = (Inr (), ([], w')) \<and> task_ends i ?w w'"
    using complete_ends [of "tp_authority p" ?w "tp_record p" r n c] settle_ends [of "tp_authority p" ?w "tp_record p" r n c]
      held r entry assms(5,9-13) by (cases outcome) (auto simp: attempt_settled_def)
  then show ?thesis using assms(3,4) by (auto simp: local_settled_def run_simps task_ends_def)
qed

theorem settled_attempt_ends_task_witness:
  "\<exists>w' x m. local_settled example_codec 0 (Inl GenericError) ([], example_running) = (Inr (), ([], w')) \<and>
     map_of (tw_tasks w') [12] = Some (x, m) \<and> tr_state x = TaskTerminal \<and> (7, Inr x) \<in> set (ts_answers w')"
proof -
  have "decimal_value (au_epoch example_holder) = 1" "au_resource example_holder = [1]"
    by (simp_all add: example_holder_def digit_value_def)
  then have "\<exists>w' x m. local_settled example_codec 0 (Inl GenericError) ([], example_running) = (Inr (), ([], w')) \<and>
     map_of (tw_tasks w') [12] = Some (x, m) \<and> tr_state x = TaskTerminal \<and>
     (\<forall>n. ([12], n) \<in> set (ts_waiters example_running) \<longrightarrow> (n, Inr x) \<in> set (ts_answers w')) \<and> (\<forall>n. ([12], n) \<notin> set (ts_waiters w'))"
    by (intro settled_attempt_ends_task [OF example_task_system, where p = "hd (ts_completions example_running)"]) (simp_all add: example_running example_task iso_0 runtimeOperationMaxBytes_def)
  then show ?thesis by (auto simp: example_running)
qed

text \<open>C12. A service that still holds an authority the store knows to be superseded records a task that it cannot settle as
  indeterminate for its callers; the stored task, which the successor runs, is not touched.\<close>

theorem superseded_service_answers_indeterminate:
  assumes "parseTaskRecord c r = Inr r" and "map_of (tw_tasks w) (tr_taskId task) = Some (r, n)" and "tr_state r \<noteq> TaskTerminal"
    and "ts_authority w = Some authority" and "tw_failure w = None"
    and "map_of (tw_fences w) (au_resource authority) = Some epoch" and "decimal_value (au_epoch authority) < epoch"
    and "map_of (ts_ephemeral w) (tr_taskId task) = None"
    and "parseTaskRecord c (indeterminate_record (tw_now w) e task) = Inr x"
  shows "\<exists>w'. settle_uncertain c task e authority True ([], w) = (Inr (), ([], w')) \<and> tw_tasks w' = tw_tasks w \<and>
    map_of (ts_ephemeral w') (tr_taskId task) = Some (indeterminate_record (tw_now w) e task) \<and>
    (\<forall>k. (tr_taskId task, k) \<in> set (ts_waiters w) \<longrightarrow>
       (k, Inr (indeterminate_record (tw_now w) e task)) \<in> set (ts_answers w'))"
proof -
  have x: "x = indeterminate_record (tw_now w) e task" using assms(9) by (rule parseTaskRecord_value)
  moreover have "tr_taskId x = tr_taskId task" unfolding x by (simp add: indeterminate_record_def)
  moreover have "assertAuthority authority v = Inr ()" if "ts_authority v = Some authority" for v
    using that by (simp add: assertAuthority_def requireAuthority_def)
  moreover note transition_stale [OF assms(4-7,2,1,3), of "\<lambda>_ _. x" x] assms(9)
  ultimately show ?thesis using assms(4,8)
    by (auto simp: settle_uncertain_def run_simps settle_ephemeral_def notify_task_def cache_record_def update_conv'
        intro!: image_eqI [where x = "(tr_taskId task, k)" for k])
qed

theorem superseded_service_answers_indeterminate_witness:
  "\<exists>w'. settle_uncertain example_codec example_task GenericError example_holder True ([], example_running\<lparr>tw_fences := [([1], 2)]\<rparr>) =
       (Inr (), ([], w')) \<and> tw_tasks w' = [([12], example_task, 2)] \<and>
     map_of (ts_ephemeral w') [12] = Some (indeterminate_record (iso 0) GenericError example_task)"
proof -
  let ?w = "example_running\<lparr>tw_fences := [([1], 2)]\<rparr>"
  have "decimal_value (au_epoch example_holder) < 2" "au_resource example_holder = [1]"
    by (simp_all add: example_holder_def digit_value_def)
  moreover have "parseTaskRecord example_codec (indeterminate_record (iso 0) GenericError example_task) =
      Inr (indeterminate_record (iso 0) GenericError example_task)"
    by (rule indeterminate_valid [OF example_task(1)])
      (simp_all add: iso_0 example_task runtimeOperationMaxBytes_def)
  ultimately have "\<exists>w'. settle_uncertain example_codec example_task GenericError example_holder True ([], ?w) = (Inr (), ([], w')) \<and>
     tw_tasks w' = tw_tasks ?w \<and>
     map_of (ts_ephemeral w') (tr_taskId example_task) = Some (indeterminate_record (tw_now ?w) GenericError example_task) \<and>
     (\<forall>k. (tr_taskId example_task, k) \<in> set (ts_waiters ?w) \<longrightarrow>
       (k, Inr (indeterminate_record (tw_now ?w) GenericError example_task)) \<in> set (ts_answers w'))"
    by (intro superseded_service_answers_indeterminate [OF example_task(1), of _ _ 2 _ 2]) (simp_all add: example_running example_task)
  then show ?thesis by (auto simp: example_running example_task)
qed

end
