(* ===== verification/Spec2Isabelle.thy ===== *)
theory Spec2Isabelle
  imports Store_Delivery Store_Scans Lifecycle Recovery Permission_Gate Resolver_Properties Effect_Flow Coordination_Properties Worker_Epochs Process_Frames Component_Effects_Properties Task_Properties
begin

text \<open>
  \<^bold>\<open>The runtime kernel of Tego Next.\<close> The program (\<open>src/packages\<close>, TypeScript) runs plugins. An operator stores
  deployments; the runtime reconciles them with component instances, which it places on executors (in a child
  process, in a thread, on a remote worker), and it runs tasks on the components that are ready. All
  state goes through a transactional state store with revisions, fencing epochs, a journal and an outbox. One
  process leads at a time; a leader that lost its leadership is fenced by the store.

  \<^bold>\<open>How the parts interact.\<close> The reconciler loads deployments and instances, gates a deployment (artifact,
  capabilities, permissions), plans the next steps and writes each step, in one transaction, as an instance record,
  a journal entry and an outbox message. A claim of the outbox hands the message to the effect handler, which admits
  the effect, authorizes it in a transaction, lets the component effects perform it on the live components and records
  the outcome. The task service admits a task on a ready component, dispatches it to the executor of its target and
  settles what the executor answers. After a restart the unfinished operations are read back from the journal.

  \<^bold>\<open>Theories and sources\<close>, in the order of their imports (paths under \<open>src/packages\<close>).

  \<^item> Language layer. \<open>Prelude\<close>: strings as UTF-16 code units, sorting with a comparator, insertion-ordered maps as
    association lists, thrown errors as values of \<open>js_error\<close>, results as a sum. \<open>Decimal\<close>, \<open>Dates\<close>, \<open>Utf8\<close>: number
    texts, ISO instants, UTF-8. \<open>Json\<close>, \<open>Json_Text\<close>: \<open>contracts/src/json.ts\<close> and \<open>JSON.stringify\<close>. \<open>Result_Run\<close>:
    operations that throw over a state, and the rely-guarantee logic for operations that pause at an \<open>await\<close>.
  \<^item> Contracts. \<open>Identity\<close> (\<open>contracts/src/identity.ts\<close>), \<open>State_Contract\<close> (\<open>contracts/src/state.ts\<close>).
  \<^item> State store (\<open>drivers-local/src/memory-state-store.ts\<close>). \<open>Memory_Transaction\<close> is the class of that name,
    \<open>Memory_State_Store\<close> the store with \<open>transact_begin\<close>, \<open>transact_end\<close>, \<open>commit\<close>, \<open>claimOutbox\<close>,
    \<open>acknowledgeOutbox\<close>, the scans and the watches. \<open>Store_Commit\<close>, \<open>Store_Records\<close>: a commit is an atomic
    compare-and-set on an abstract map. \<open>Store_Invariants\<close>, \<open>Store_Outbox\<close>, \<open>Store_Scans\<close>: the invariant \<open>store_ok\<close>,
    one conjunct per part of the state, and that every operation keeps it. \<open>Change_Feed\<close>: the watches.
    \<open>Store_System\<close>: the store with concurrent clients as a step relation; no lost updates, fences.
    \<open>Store_Delivery\<close>: leases, acknowledgements and watches over its runs.
  \<^item> Clients of the store. \<open>Recovery\<close> (\<open>runtime/src/recovery.ts\<close>, and \<open>scanObservedStatusCollection\<close> of
    \<open>create-runtime.ts\<close>), \<open>Worker_Epochs\<close> (\<open>transport-websocket/src/state-worker-epoch-allocator.ts\<close>).
  \<^item> Local coordination (\<open>drivers-local/src/local-coordination.ts\<close>). \<open>Coordination\<close>, \<open>Coordination_Correct\<close>,
    \<open>Coordination_Properties\<close>: leadership, leases, compare-and-set records and watches.
  \<^item> State machines. \<open>Lifecycle\<close>: \<open>runtime-state.ts\<close>, \<open>readiness.ts\<close>, \<open>reconcile/component-lifecycle.ts\<close>,
    \<open>reconcile/retry.ts\<close>.
  \<^item> Permissions. \<open>Permission_Grant\<close> (\<open>contracts/src/permission-grant.ts\<close>), \<open>Permission_Gate\<close>
    (\<open>runtime/src/permissions/gate.ts\<close>).
  \<^item> Capabilities (\<open>runtime/src/capabilities\<close>). \<open>Version\<close>, \<open>Version_Order\<close>; \<open>Graph\<close>, \<open>Graph_Components\<close>,
    \<open>Graph_Order\<close>; \<open>Resolver\<close>, \<open>Resolver_Correct\<close>, \<open>Resolver_Properties\<close>.
  \<^item> Reconciler (\<open>runtime/src/reconcile\<close>). \<open>Placement\<close>, \<open>Plan\<close> and \<open>Plan_Correct\<close> are \<open>placement.ts\<close> and \<open>plan.ts\<close>.
    \<open>Component_Instances\<close>, \<open>Provider_Loss\<close>, \<open>Gate_Deployment\<close> and \<open>Effects\<close> are parts of \<open>reconciler.ts\<close>: the
    records it loads, the readiness and loss of providers, \<open>#gateDeployment\<close>, and the effect protocol
    (\<open>#persistStep\<close>, \<open>#executeClaim\<close> and the transactions that authorize, complete, fail or abandon an effect).
    \<open>Effect_System\<close> is the protocol as a step relation, \<open>Effect_Properties\<close> and \<open>Effect_Flow\<close> what it guarantees.
  \<^item> Live components (\<open>runtime/src/components\<close>, and the reference counts of
    \<open>artifacts/prepared-artifact-cache.ts\<close>). \<open>Component_Registry\<close>, \<open>Component_Effects\<close>, \<open>Component_Effects_Correct\<close>,
    \<open>Component_Effects_Properties\<close>.
  \<^item> Tasks (\<open>runtime/src/tasks/task-service.ts\<close>, records of \<open>contracts/src/operations.ts\<close> and \<open>execution.ts\<close>).
    \<open>Task_Records\<close>, \<open>Task_Service\<close>, \<open>Task_Operations\<close> model the service; \<open>Task_Contract\<close> and \<open>Task_Guarantees\<close> hold
    one triple per operation; \<open>Task_System\<close> puts several services on one store; \<open>Task_Properties\<close> the properties.
  \<^item> Process frames (\<open>executor-node/src/process/framing.ts\<close>): \<open>Process_Frames\<close>.

  \<^bold>\<open>Interfaces.\<close> \<open>total_comparator\<close> (what sorting needs; instances: text, record keys, members, cursors, workers),
  \<open>change_feed\<close> (a watch; instances: store and coordination), \<open>paged_scan\<close> (what a paging loop needs of a scan;
  instances: the journal and a collection of the store), \<open>versioned_store\<close> (what the epoch allocator needs; instance:
  the in-memory store), \<open>rely_guarantee\<close> (operations that pause; instance: the task service), \<open>effect_invariant\<close>
  (invariants of live components; instances: artifact references, host sessions, the history of an entry) and
  \<open>operation_fact\<close> (facts of the operation records; instances: distinct records, a record that stands).

  \<^bold>\<open>Bounds and fuel.\<close> Revisions, generations, sequences and epochs are naturals, as \<open>BigInt\<close> is unbounded;
  \<open>parseRevision\<close> accepts the decimal text of every natural, so its call on the next revision in a commit does not
  throw. The search for
  strongly connected components gets as depth the number of mentioned nodes plus one, which is shown to be enough: its
  theorem says that a result is returned. The loop of the topological order is total, by its termination proof.
  The paging loop is a partial function, and that it returns is proved from \<open>paged_scan\<close>. The bounded retries of the
  task service are the source's own.

  \<^bold>\<open>Parameters.\<close> Code that is not under \<open>src\<close> is an argument: \<open>sha256\<close>, \<open>toASCII\<close> (\<open>domainToASCII\<close>), \<open>parse\<close>
  (\<open>JSON.parse\<close>), \<open>validate\<close> (the artifact service), \<open>live\<close> (the executor's answer), the answers of hosts and executors,
  and the clock. The codec of task records (binding digest, serialized size) is an argument as well. Stored records
  other than instances are taken as the values they parse to.

  \<^bold>\<open>What the model leaves out.\<close>
  \<^item> In a claim of the outbox the two phases before and after its queueing are one step; commits of the store may run in
    any order, of which the queue is one.
  \<^item> The effect protocol runs its read and its transaction in one world; the revision conflict that the source catches
    there, which leaves the message for a later claim, is no step. Acknowledging there does not look at owner and epoch of
    the claim, which \<open>Store_Delivery\<close> treats. The other writers of instances (provider loss, restoration after a restart)
    are no steps of \<open>reconcile_step\<close>, nor are the reconcile loop and its deferred wakes.
  \<^item> Operations on live components run one after another; those the source joins while in flight are not modelled. Calls
    that the host fails do not change a session.
  \<^item> The tasks that a recovery handles concurrently are handled in turn, with the others among the interference at
    every pause.
  \<^item> Not modelled at all: the assembly of the runtime and its drivers, the SQL stores, the file system, the processes,
    threads and sockets of the executors and the transport, the capability router, schema validation, the plugin SDK
    and the command line. They are input and output, code of other systems, or glue.
\<close>

end
